(* ===== verification/Prelude.thy ===== *)
theory Prelude
  imports Main "HOL-Library.Word"
begin

text \<open>
  Shared vocabulary of the development.

  \<^item> The return codes every Enduro/X function uses (\<^verbatim>\<open>include/ndrstandard.h\<close>).
  \<^item> The outcome of a function that may end the process: the transaction manager calls
    \<^verbatim>\<open>exit()\<close> when it has lost its lock or its log device, so \<open>Exit\<close> is a result of its own.
  \<^item> Generic lemmas on lists, collected in \<open>list_facts\<close>, and the collections
    \<open>c_string\<close> (string conversions, filled by theory \<open>C_Strings\<close>) and \<open>table_facts\<close> (evaluation of constant tables).
\<close>

named_theorems list_facts "generic facts on lists"
named_theorems c_string "the C library's string conversions"
named_theorems table_facts "definitions of constant tables, for evaluation"
named_theorems env_facts "the effect of one environment call on the state"

section \<open>Return codes\<close>

abbreviation EXSUCCEED :: int where "EXSUCCEED \<equiv> 0"
abbreviation EXFAIL :: int where "EXFAIL \<equiv> -1"

text \<open>The signed 16-bit conversion \<^verbatim>\<open>(short)x\<close>.\<close>

definition to_short :: "int \<Rightarrow> int" where
  "to_short x = (x + 32768) mod 65536 - 32768"

definition is_short :: "int \<Rightarrow> bool" where
  "is_short x \<longleftrightarrow> -32768 \<le> x \<and> x < 32768"

lemma to_short_id [simp]: "is_short x \<Longrightarrow> to_short x = x"
  by (simp add: to_short_def is_short_def)

lemma is_short_to_short [simp]: "is_short (to_short x)"
  by (simp add: to_short_def is_short_def)

text \<open>The limits of int and long, and the value a long has after an addition: beyond the limit, where C leaves the result
  open, it wraps around.\<close>

abbreviation INT_MIN :: int where "INT_MIN \<equiv> -2147483648"
abbreviation INT_MAX :: int where "INT_MAX \<equiv> 2147483647"
abbreviation LONG_MIN :: int where "LONG_MIN \<equiv> -9223372036854775808"
abbreviation LONG_MAX :: int where "LONG_MAX \<equiv> 9223372036854775807"
abbreviation ULONG_MAX :: int where "ULONG_MAX \<equiv> 18446744073709551615"

definition to_long :: "int \<Rightarrow> int" where
  "to_long x = (x + 9223372036854775808) mod 18446744073709551616 - 9223372036854775808"

lemma to_long_id [simp]: "LONG_MIN \<le> x \<Longrightarrow> x \<le> LONG_MAX \<Longrightarrow> to_long x = x"
  by (simp add: to_long_def)

section \<open>Outcomes\<close>

datatype ('s, 'a) outcome = Ret 'a 's | Exit int 's

fun ostate :: "('s, 'a) outcome \<Rightarrow> 's" where
  "ostate (Ret _ s) = s"
| "ostate (Exit _ s) = s"

fun andthen :: "('s, 'a) outcome \<Rightarrow> ('a \<Rightarrow> 's \<Rightarrow> ('s, 'b) outcome) \<Rightarrow> ('s, 'b) outcome" where
  "andthen (Ret a s) f = f a s"
| "andthen (Exit c s) f = Exit c s"

lemma andthen_Ret_iff:
  "andthen m f = Ret b s' \<longleftrightarrow> (\<exists>a s. m = Ret a s \<and> f a s = Ret b s')"
  by (cases m) auto

lemma andthen_cong [fundef_cong]:
  assumes "m = m'" and "\<And>a s. m' = Ret a s \<Longrightarrow> f a s = g a s"
  shows "andthen m f = andthen m' g"
  using assms by (cases m') auto

lemma andthen_assoc:
  "andthen (andthen m f) g = andthen m (\<lambda>a s. andthen (f a s) g)"
  by (cases m) auto

text \<open>
  A property of the final state that holds whether the function returns or the process ends:
  the rule every frame lemma of the transaction manager uses.
\<close>

lemma ostate_andthen:
  assumes "P (ostate m)" and "\<And>a s. m = Ret a s \<Longrightarrow> P s \<Longrightarrow> P (ostate (f a s))"
  shows "P (ostate (andthen m f))"
  using assms by (cases m) auto

text \<open>A postcondition for a function that returns, and one for a process that ends.\<close>

definition ores :: "('a \<Rightarrow> 's \<Rightarrow> bool) \<Rightarrow> ('s \<Rightarrow> bool) \<Rightarrow> ('s, 'a) outcome \<Rightarrow> bool" where
  "ores Q R m = (case m of Ret a s \<Rightarrow> Q a s | Exit c s \<Rightarrow> R s)"

lemma ores_simps [simp]:
  "ores Q R (Ret a s) = Q a s" "ores Q R (Exit c s) = R s"
  by (simp_all add: ores_def)

lemma ores_andthen [simp]:
  "ores Q R (andthen m f) = ores (\<lambda>a s. ores Q R (f a s)) R m"
  by (cases m) simp_all

lemma ores_mono:
  "ores Q R m \<Longrightarrow> (\<And>a s. Q a s \<Longrightarrow> Q' a s) \<Longrightarrow> (\<And>s. R s \<Longrightarrow> R' s) \<Longrightarrow> ores Q' R' m"
  by (cases m) simp_all

lemma ores_conj:
  "ores Q R m \<Longrightarrow> ores Q' R' m \<Longrightarrow> ores (\<lambda>a s. Q a s \<and> Q' a s) (\<lambda>s. R s \<and> R' s) m"
  by (cases m) simp_all

lemma ores_True [simp]: "ores (\<lambda>_ _. True) (\<lambda>_. True) m"
  by (cases m) simp_all

lemma ores_RetD: "ores Q R m \<Longrightarrow> m = Ret a s \<Longrightarrow> Q a s"
  by simp

lemma ores_ostate: "ores (\<lambda>_. P) P m \<longleftrightarrow> P (ostate m)"
  by (cases m) simp_all

section \<open>Lists\<close>

lemma find_Some_in [list_facts]: "find P xs = Some x \<Longrightarrow> x \<in> set xs \<and> P x"
  by (induction xs) (auto split: if_splits)

lemma find_None_iff_all [list_facts]: "find P xs = None \<longleftrightarrow> (\<forall>x \<in> set xs. \<not> P x)"
  by (induction xs) auto

lemma find_append [list_facts]:
  "find P (xs @ ys) = (case find P xs of None \<Rightarrow> find P ys | Some x \<Rightarrow> Some x)"
  by (induction xs) auto

lemma find_cong_set [list_facts]:
  "(\<And>x. x \<in> set xs \<Longrightarrow> P x = Q x) \<Longrightarrow> find P xs = find Q xs"
  by (induction xs) auto

text \<open>Replacing the first element that satisfies a test: a write through a pointer into a hash.\<close>

fun update_first :: "('a \<Rightarrow> bool) \<Rightarrow> ('a \<Rightarrow> 'a) \<Rightarrow> 'a list \<Rightarrow> 'a list" where
  "update_first P f [] = []"
| "update_first P f (x # xs) = (if P x then f x # xs else x # update_first P f xs)"

lemma length_update_first [simp]: "length (update_first P f xs) = length xs"
  by (induction xs) auto

lemma map_update_first:
  "(\<And>x. P x \<Longrightarrow> g (f x) = g x) \<Longrightarrow> map g (update_first P f xs) = map g xs"
  by (induction xs) auto

lemma set_update_first_subset:
  "set (update_first P f xs) \<subseteq> set xs \<union> f ` {x \<in> set xs. P x}"
  by (induction xs) auto

lemma find_update_first:
  "(\<And>x. P x \<Longrightarrow> P (f x)) \<Longrightarrow>
   find P (update_first P f xs) = map_option f (find P xs)"
  by (induction xs) auto

lemma find_update_first_other:
  "(\<And>x. P x \<Longrightarrow> \<not> Q x \<and> \<not> Q (f x)) \<Longrightarrow> find Q (update_first P f xs) = find Q xs"
  by (induction xs) auto

lemma update_first_None: "find P xs = None \<Longrightarrow> update_first P f xs = xs"
  by (induction xs) (auto split: if_splits)

end
