(* ===== verification/Xa_States.thy ===== *)
theory Xa_States
  imports Prelude
begin

text \<open>
  The two-phase commit tables of the transaction manager (\<^verbatim>\<open>src/tmsrv/xastates.c\<close>, constants of
  \<^verbatim>\<open>src/include/xa_cmn.h\<close> and \<^verbatim>\<open>src/include/xa.h\<close>) and the five lookups over them.

  A global transaction has a \<^emph>\<open>stage\<close>, each of its branches a \<^emph>\<open>resource manager status\<close> (a
  character).  \<open>xa_status_get_op\<close> says which XA call a branch needs in a stage;
  \<open>xa_status_get_next_by_op\<close> turns the call's return code into the branch's new status and
  its vote for the next stage; \<open>xa_status_get_next_by_new_status\<close> gives the vote of a branch
  that needs no call.  A C table ends with an \<^verbatim>\<open>{EXFAIL}\<close> row; here the table is a list and the
  scan is \<open>find\<close>.

  The lemmas below characterise the tables: which stages can be voted for from a stage, when a
  prepare call votes for commit, that no return code of an issued call is left without a row,
  and how a stage maps to the caller's \<^verbatim>\<open>tperrno\<close>.
\<close>

section \<open>Constants\<close>

abbreviation XA_RM_STATUS_NULL :: char where "XA_RM_STATUS_NULL \<equiv> CHR 0x00"
abbreviation XA_RM_STATUS_NONE :: char where "XA_RM_STATUS_NONE \<equiv> CHR ''n''"
abbreviation XA_RM_STATUS_IDLE :: char where "XA_RM_STATUS_IDLE \<equiv> CHR ''i''"
abbreviation XA_RM_STATUS_ACTIVE :: char where "XA_RM_STATUS_ACTIVE \<equiv> CHR ''j''"
abbreviation XA_RM_STATUS_ACT_AB :: char where "XA_RM_STATUS_ACT_AB \<equiv> CHR ''k''"
abbreviation XA_RM_STATUS_PREP :: char where "XA_RM_STATUS_PREP \<equiv> CHR ''p''"
abbreviation XA_RM_STATUS_ABORTED :: char where "XA_RM_STATUS_ABORTED \<equiv> CHR ''a''"
abbreviation XA_RM_STATUS_ABFORGET_HAZ :: char where "XA_RM_STATUS_ABFORGET_HAZ \<equiv> CHR ''e''"
abbreviation XA_RM_STATUS_ABFORGET_HEU :: char where "XA_RM_STATUS_ABFORGET_HEU \<equiv> CHR ''f''"
abbreviation XA_RM_STATUS_UNKOWN :: char where "XA_RM_STATUS_UNKOWN \<equiv> CHR ''u''"
abbreviation XA_RM_STATUS_ABORT_HEURIS :: char where "XA_RM_STATUS_ABORT_HEURIS \<equiv> CHR ''b''"
abbreviation XA_RM_STATUS_ABORT_HAZARD :: char where "XA_RM_STATUS_ABORT_HAZARD \<equiv> CHR ''d''"
abbreviation XA_RM_STATUS_COMMITTED :: char where "XA_RM_STATUS_COMMITTED \<equiv> CHR ''c''"
abbreviation XA_RM_STATUS_COMMITTED_RO :: char where "XA_RM_STATUS_COMMITTED_RO \<equiv> CHR ''r''"
abbreviation XA_RM_STATUS_COMMIT_HEURIS :: char where "XA_RM_STATUS_COMMIT_HEURIS \<equiv> CHR ''h''"
abbreviation XA_RM_STATUS_COMMIT_HAZARD :: char where "XA_RM_STATUS_COMMIT_HAZARD \<equiv> CHR ''z''"
abbreviation XA_RM_STATUS_COMFORGET_HAZ :: char where "XA_RM_STATUS_COMFORGET_HAZ \<equiv> CHR ''g''"
abbreviation XA_RM_STATUS_COMFORGET_HEU :: char where "XA_RM_STATUS_COMFORGET_HEU \<equiv> CHR ''l''"

abbreviation XA_TX_STAGE_NULL :: int where "XA_TX_STAGE_NULL \<equiv> 0"
abbreviation XA_TX_STAGE_ACTIVE :: int where "XA_TX_STAGE_ACTIVE \<equiv> 5"
abbreviation XA_TX_STAGE_ABORTING :: int where "XA_TX_STAGE_ABORTING \<equiv> 20"
abbreviation XA_TX_STAGE_ABORTED_HAZARD :: int where "XA_TX_STAGE_ABORTED_HAZARD \<equiv> 25"
abbreviation XA_TX_STAGE_ABORTED_HEURIS :: int where "XA_TX_STAGE_ABORTED_HEURIS \<equiv> 30"
abbreviation XA_TX_STAGE_ABORTED :: int where "XA_TX_STAGE_ABORTED \<equiv> 35"
abbreviation XA_TX_STAGE_ABFORGETTING :: int where "XA_TX_STAGE_ABFORGETTING \<equiv> 36"
abbreviation XA_TX_STAGE_ABFORGOT_HAZ :: int where "XA_TX_STAGE_ABFORGOT_HAZ \<equiv> 37"
abbreviation XA_TX_STAGE_ABFORGOT_HEU :: int where "XA_TX_STAGE_ABFORGOT_HEU \<equiv> 38"
abbreviation XA_TX_STAGE_PREPARING :: int where "XA_TX_STAGE_PREPARING \<equiv> 40"
abbreviation XA_TX_STAGE_PREPRO :: int where "XA_TX_STAGE_PREPRO \<equiv> 41"
abbreviation XA_TX_STAGE_PREPARED :: int where "XA_TX_STAGE_PREPARED \<equiv> 42"
abbreviation XA_TX_STAGE_COMMITTING :: int where "XA_TX_STAGE_COMMITTING \<equiv> 50"
abbreviation XA_TX_STAGE_COMMITTED_HAZARD :: int where "XA_TX_STAGE_COMMITTED_HAZARD \<equiv> 55"
abbreviation XA_TX_STAGE_COMMITTED_HEURIS :: int where "XA_TX_STAGE_COMMITTED_HEURIS \<equiv> 65"
abbreviation XA_TX_STAGE_COMMITTED :: int where "XA_TX_STAGE_COMMITTED \<equiv> 70"
abbreviation XA_TX_STAGE_COMFORGETTING :: int where "XA_TX_STAGE_COMFORGETTING \<equiv> 80"
abbreviation XA_TX_STAGE_COMFORGOT_HAZ :: int where "XA_TX_STAGE_COMFORGOT_HAZ \<equiv> 85"
abbreviation XA_TX_STAGE_COMFORGOT_HEU :: int where "XA_TX_STAGE_COMFORGOT_HEU \<equiv> 87"
abbreviation XA_TX_STAGE_MAX_NEVER :: int where "XA_TX_STAGE_MAX_NEVER \<equiv> 100"
abbreviation XA_TX_STAGE_MIN_NEVER :: int where "XA_TX_STAGE_MIN_NEVER \<equiv> -1"

abbreviation XA_OP_NOP :: int where "XA_OP_NOP \<equiv> 0"
abbreviation XA_OP_START :: int where "XA_OP_START \<equiv> 1"
abbreviation XA_OP_END :: int where "XA_OP_END \<equiv> 2"
abbreviation XA_OP_PREPARE :: int where "XA_OP_PREPARE \<equiv> 3"
abbreviation XA_OP_COMMIT :: int where "XA_OP_COMMIT \<equiv> 4"
abbreviation XA_OP_ROLLBACK :: int where "XA_OP_ROLLBACK \<equiv> 5"
abbreviation XA_OP_FORGET :: int where "XA_OP_FORGET \<equiv> 6"
abbreviation XA_OP_OPEN :: int where "XA_OP_OPEN \<equiv> 7"
abbreviation XA_OP_RECOVER :: int where "XA_OP_RECOVER \<equiv> 8"
abbreviation XA_OP_CLOSE :: int where "XA_OP_CLOSE \<equiv> 9"

text \<open>\<^verbatim>\<open>include/xa.h\<close>, \<^verbatim>\<open>limits.h\<close> and \<^verbatim>\<open>include/xatmi.h\<close>.\<close>

abbreviation XA_RBBASE :: int where "XA_RBBASE \<equiv> 100"
abbreviation XA_RBEND :: int where "XA_RBEND \<equiv> 107"
abbreviation XA_HEURHAZ :: int where "XA_HEURHAZ \<equiv> 8"
abbreviation XA_HEURCOM :: int where "XA_HEURCOM \<equiv> 7"
abbreviation XA_HEURRB :: int where "XA_HEURRB \<equiv> 6"
abbreviation XA_HEURMIX :: int where "XA_HEURMIX \<equiv> 5"
abbreviation XA_RETRY :: int where "XA_RETRY \<equiv> 4"
abbreviation XA_RDONLY :: int where "XA_RDONLY \<equiv> 3"
abbreviation XA_OK :: int where "XA_OK \<equiv> 0"
abbreviation XAER_RMERR :: int where "XAER_RMERR \<equiv> -3"
abbreviation XAER_NOTA :: int where "XAER_NOTA \<equiv> -4"
abbreviation XAER_RMFAIL :: int where "XAER_RMFAIL \<equiv> -7"

abbreviation TPEABORT :: int where "TPEABORT \<equiv> 1"
abbreviation TPEINVAL :: int where "TPEINVAL \<equiv> 4"
abbreviation TPEOS :: int where "TPEOS \<equiv> 7"
abbreviation TPEPROTO :: int where "TPEPROTO \<equiv> 9"
abbreviation TPESVCERR :: int where "TPESVCERR \<equiv> 10"
abbreviation TPESYSTEM :: int where "TPESYSTEM \<equiv> 12"
abbreviation TPETIME :: int where "TPETIME \<equiv> 13"
abbreviation TPETRAN :: int where "TPETRAN \<equiv> 14"
abbreviation TPEHAZARD :: int where "TPEHAZARD \<equiv> 20"
abbreviation TPEHEURISTIC :: int where "TPEHEURISTIC \<equiv> 21"
abbreviation TPEMATCH :: int where "TPEMATCH \<equiv> 23"

section \<open>Rows\<close>

text \<open>\<^verbatim>\<open>struct rmstate_driver\<close>, \<^verbatim>\<open>txaction_driver\<close>, \<^verbatim>\<open>txstate_descriptor\<close>, \<^verbatim>\<open>txstate2tperrno\<close>.\<close>

datatype rmstatus_driver =
  Drv (d_txstage: int) (d_rmstatus: char) (d_op: int) (d_min_retcode: int) (d_max_retcode: int)
      (d_next_rmstatus: char) (d_next_txstage: int)

datatype txaction_driver = Act (a_txstage: int) (a_rmstatus: char) (a_op: int)

datatype txstage_descriptor =
  Descr (s_txstage: int) (s_txs_stage_min: int) (s_txs_min_complete: int)
        (s_txs_max_complete: int) (s_descr: string) (s_allow_jump: bool)

datatype txstate2tperrno = Tpe (t_txstage: int) (t_master_op: int) (t_tpe: int)

section \<open>Tables\<close>

definition M_rm_status_driver_preparing :: "rmstatus_driver list" where
  [table_facts]: "M_rm_status_driver_preparing =
   [Drv XA_TX_STAGE_PREPARING XA_RM_STATUS_ACTIVE XA_OP_PREPARE XA_OK XA_OK XA_RM_STATUS_PREP XA_TX_STAGE_COMMITTING,
    Drv XA_TX_STAGE_PREPARING XA_RM_STATUS_ACTIVE XA_OP_PREPARE XA_RDONLY XA_RDONLY XA_RM_STATUS_COMMITTED_RO XA_TX_STAGE_COMMITTING,
    Drv XA_TX_STAGE_PREPARING XA_RM_STATUS_ACTIVE XA_OP_PREPARE XAER_NOTA XAER_NOTA XA_RM_STATUS_ABORTED XA_TX_STAGE_ABORTING,
    Drv XA_TX_STAGE_PREPARING XA_RM_STATUS_ACTIVE XA_OP_PREPARE XA_RBBASE XA_RBEND XA_RM_STATUS_ABORTED XA_TX_STAGE_ABORTING,
    Drv XA_TX_STAGE_PREPARING XA_RM_STATUS_ACTIVE XA_OP_PREPARE INT_MIN INT_MAX XA_RM_STATUS_ACT_AB XA_TX_STAGE_ABORTING,
    Drv XA_TX_STAGE_PREPARING XA_RM_STATUS_PREP XA_OP_NOP XA_OK XA_OK XA_RM_STATUS_PREP XA_TX_STAGE_COMMITTING,
    Drv XA_TX_STAGE_PREPARING XA_RM_STATUS_ACT_AB XA_OP_NOP XA_OK XA_OK XA_RM_STATUS_ACT_AB XA_TX_STAGE_ABORTING,
    Drv XA_TX_STAGE_PREPARING XA_RM_STATUS_ABORTED XA_OP_NOP XA_OK XA_OK XA_RM_STATUS_ABORTED XA_TX_STAGE_ABORTING,
    Drv XA_TX_STAGE_PREPARING XA_RM_STATUS_COMMITTED_RO XA_OP_NOP XA_OK XA_OK XA_RM_STATUS_COMMITTED_RO XA_TX_STAGE_COMMITTING]"

definition M_rm_status_driver_committing :: "rmstatus_driver list" where
  [table_facts]: "M_rm_status_driver_committing =
   [Drv XA_TX_STAGE_COMMITTING XA_RM_STATUS_PREP XA_OP_COMMIT XA_OK XA_OK XA_RM_STATUS_COMMITTED XA_TX_STAGE_COMMITTED,
    Drv XA_TX_STAGE_COMMITTING XA_RM_STATUS_PREP XA_OP_COMMIT XAER_RMERR XAER_RMERR XA_RM_STATUS_COMMIT_HEURIS XA_TX_STAGE_COMMITTED_HEURIS,
    Drv XA_TX_STAGE_COMMITTING XA_RM_STATUS_PREP XA_OP_COMMIT XAER_RMFAIL XAER_RMFAIL XA_RM_STATUS_PREP XA_TX_STAGE_COMMITTING,
    Drv XA_TX_STAGE_COMMITTING XA_RM_STATUS_PREP XA_OP_COMMIT XA_RETRY XA_RETRY XA_RM_STATUS_PREP XA_TX_STAGE_COMMITTING,
    Drv XA_TX_STAGE_COMMITTING XA_RM_STATUS_PREP XA_OP_COMMIT XA_HEURHAZ XA_HEURHAZ XA_RM_STATUS_COMFORGET_HAZ XA_TX_STAGE_COMFORGETTING,
    Drv XA_TX_STAGE_COMMITTING XA_RM_STATUS_PREP XA_OP_COMMIT XA_HEURCOM XA_HEURCOM XA_RM_STATUS_COMFORGET_HEU XA_TX_STAGE_COMFORGETTING,
    Drv XA_TX_STAGE_COMMITTING XA_RM_STATUS_PREP XA_OP_COMMIT XA_HEURRB XA_HEURRB XA_RM_STATUS_COMFORGET_HEU XA_TX_STAGE_COMFORGETTING,
    Drv XA_TX_STAGE_COMMITTING XA_RM_STATUS_PREP XA_OP_COMMIT XA_HEURMIX XA_HEURMIX XA_RM_STATUS_COMFORGET_HEU XA_TX_STAGE_COMFORGETTING,
    Drv XA_TX_STAGE_COMMITTING XA_RM_STATUS_PREP XA_OP_COMMIT XA_RBBASE XA_RBEND XA_RM_STATUS_ABORTED XA_TX_STAGE_COMMITTED_HEURIS,
    Drv XA_TX_STAGE_COMMITTING XA_RM_STATUS_PREP XA_OP_COMMIT INT_MIN INT_MAX XA_RM_STATUS_COMMITTED XA_TX_STAGE_COMMITTED,
    Drv XA_TX_STAGE_COMMITTING XA_RM_STATUS_COMMIT_HEURIS XA_OP_NOP XA_OK XA_OK XA_RM_STATUS_COMMIT_HEURIS XA_TX_STAGE_COMMITTED_HEURIS,
    Drv XA_TX_STAGE_COMMITTING XA_RM_STATUS_ABORTED XA_OP_NOP XA_OK XA_OK XA_RM_STATUS_ABORTED XA_TX_STAGE_COMMITTED_HEURIS,
    Drv XA_TX_STAGE_COMMITTING XA_RM_STATUS_COMMIT_HAZARD XA_OP_NOP XA_OK XA_OK XA_RM_STATUS_COMMIT_HAZARD XA_TX_STAGE_COMMITTED_HAZARD,
    Drv XA_TX_STAGE_COMMITTING XA_RM_STATUS_COMFORGET_HAZ XA_OP_NOP XA_OK XA_OK XA_RM_STATUS_COMFORGET_HAZ XA_TX_STAGE_COMFORGETTING,
    Drv XA_TX_STAGE_COMMITTING XA_RM_STATUS_COMFORGET_HEU XA_OP_NOP XA_OK XA_OK XA_RM_STATUS_COMFORGET_HEU XA_TX_STAGE_COMFORGETTING]"

definition M_rm_status_driver_comforgetting :: "rmstatus_driver list" where
  [table_facts]: "M_rm_status_driver_comforgetting =
   [Drv XA_TX_STAGE_COMFORGETTING XA_RM_STATUS_COMFORGET_HAZ XA_OP_FORGET XA_OK XA_OK XA_RM_STATUS_COMMIT_HAZARD XA_TX_STAGE_COMFORGOT_HAZ,
    Drv XA_TX_STAGE_COMFORGETTING XA_RM_STATUS_COMFORGET_HEU XA_OP_FORGET XA_OK XA_OK XA_RM_STATUS_COMMIT_HEURIS XA_TX_STAGE_COMFORGOT_HEU,
    Drv XA_TX_STAGE_COMFORGETTING XA_RM_STATUS_COMFORGET_HAZ XA_OP_FORGET XAER_RMFAIL XAER_RMFAIL XA_RM_STATUS_COMFORGET_HAZ XA_TX_STAGE_COMFORGETTING,
    Drv XA_TX_STAGE_COMFORGETTING XA_RM_STATUS_COMFORGET_HEU XA_OP_FORGET XAER_RMFAIL XAER_RMFAIL XA_RM_STATUS_COMFORGET_HEU XA_TX_STAGE_COMFORGETTING,
    Drv XA_TX_STAGE_COMFORGETTING XA_RM_STATUS_COMFORGET_HAZ XA_OP_FORGET INT_MIN INT_MAX XA_RM_STATUS_COMMIT_HAZARD XA_TX_STAGE_COMFORGOT_HAZ,
    Drv XA_TX_STAGE_COMFORGETTING XA_RM_STATUS_COMFORGET_HEU XA_OP_FORGET INT_MIN INT_MAX XA_RM_STATUS_COMMIT_HEURIS XA_TX_STAGE_COMFORGOT_HEU,
    Drv XA_TX_STAGE_COMFORGETTING XA_RM_STATUS_COMMIT_HAZARD XA_OP_NOP XA_OK XA_OK XA_RM_STATUS_COMMIT_HAZARD XA_TX_STAGE_COMFORGOT_HAZ,
    Drv XA_TX_STAGE_COMFORGETTING XA_RM_STATUS_COMMIT_HEURIS XA_OP_NOP XA_OK XA_OK XA_RM_STATUS_COMMIT_HEURIS XA_TX_STAGE_COMFORGOT_HEU]"

definition M_rm_status_driver_aborting :: "rmstatus_driver list" where
  [table_facts]: "M_rm_status_driver_aborting =
   [Drv XA_TX_STAGE_ABORTING XA_RM_STATUS_ACT_AB XA_OP_ROLLBACK XA_OK XA_OK XA_RM_STATUS_ABORTED XA_TX_STAGE_ABORTED,
    Drv XA_TX_STAGE_ABORTING XA_RM_STATUS_ACTIVE XA_OP_ROLLBACK XA_OK XA_OK XA_RM_STATUS_ABORTED XA_TX_STAGE_ABORTED,
    Drv XA_TX_STAGE_ABORTING XA_RM_STATUS_PREP XA_OP_ROLLBACK XA_OK XA_OK XA_RM_STATUS_ABORTED XA_TX_STAGE_ABORTED,
    Drv XA_TX_STAGE_ABORTING XA_RM_STATUS_COMMITTED_RO XA_OP_NOP XA_OK XA_OK XA_RM_STATUS_ABORTED XA_TX_STAGE_ABORTED,
    Drv XA_TX_STAGE_ABORTING XA_RM_STATUS_ACT_AB XA_OP_ROLLBACK XA_RDONLY XA_RDONLY XA_RM_STATUS_ABORTED XA_TX_STAGE_ABORTED,
    Drv XA_TX_STAGE_ABORTING XA_RM_STATUS_ACTIVE XA_OP_ROLLBACK XA_RDONLY XA_RDONLY XA_RM_STATUS_ABORTED XA_TX_STAGE_ABORTED,
    Drv XA_TX_STAGE_ABORTING XA_RM_STATUS_PREP XA_OP_ROLLBACK XA_RDONLY XA_RDONLY XA_RM_STATUS_ABORTED XA_TX_STAGE_ABORTED,
    Drv XA_TX_STAGE_ABORTING XA_RM_STATUS_ACT_AB XA_OP_ROLLBACK XA_HEURHAZ XA_HEURHAZ XA_RM_STATUS_ABFORGET_HAZ XA_TX_STAGE_ABFORGETTING,
    Drv XA_TX_STAGE_ABORTING XA_RM_STATUS_ACTIVE XA_OP_ROLLBACK XA_HEURHAZ XA_HEURHAZ XA_RM_STATUS_ABFORGET_HAZ XA_TX_STAGE_ABFORGETTING,
    Drv XA_TX_STAGE_ABORTING XA_RM_STATUS_PREP XA_OP_ROLLBACK XA_HEURHAZ XA_HEURHAZ XA_RM_STATUS_ABFORGET_HAZ XA_TX_STAGE_ABFORGETTING,
    Drv XA_TX_STAGE_ABORTING XA_RM_STATUS_ACT_AB XA_OP_ROLLBACK XA_HEURRB XA_HEURRB XA_RM_STATUS_ABFORGET_HEU XA_TX_STAGE_ABFORGETTING,
    Drv XA_TX_STAGE_ABORTING XA_RM_STATUS_ACTIVE XA_OP_ROLLBACK XA_HEURRB XA_HEURRB XA_RM_STATUS_ABFORGET_HEU XA_TX_STAGE_ABFORGETTING,
    Drv XA_TX_STAGE_ABORTING XA_RM_STATUS_PREP XA_OP_ROLLBACK XA_HEURRB XA_HEURRB XA_RM_STATUS_ABFORGET_HEU XA_TX_STAGE_ABFORGETTING,
    Drv XA_TX_STAGE_ABORTING XA_RM_STATUS_ACT_AB XA_OP_ROLLBACK XA_HEURCOM XA_HEURCOM XA_RM_STATUS_ABFORGET_HEU XA_TX_STAGE_ABFORGETTING,
    Drv XA_TX_STAGE_ABORTING XA_RM_STATUS_ACTIVE XA_OP_ROLLBACK XA_HEURCOM XA_HEURCOM XA_RM_STATUS_ABFORGET_HEU XA_TX_STAGE_ABFORGETTING,
    Drv XA_TX_STAGE_ABORTING XA_RM_STATUS_PREP XA_OP_ROLLBACK XA_HEURCOM XA_HEURCOM XA_RM_STATUS_ABFORGET_HEU XA_TX_STAGE_ABFORGETTING,
    Drv XA_TX_STAGE_ABORTING XA_RM_STATUS_ACT_AB XA_OP_ROLLBACK XA_HEURMIX XA_HEURMIX XA_RM_STATUS_ABFORGET_HEU XA_TX_STAGE_ABFORGETTING,
    Drv XA_TX_STAGE_ABORTING XA_RM_STATUS_ACTIVE XA_OP_ROLLBACK XA_HEURMIX XA_HEURMIX XA_RM_STATUS_ABFORGET_HEU XA_TX_STAGE_ABFORGETTING,
    Drv XA_TX_STAGE_ABORTING XA_RM_STATUS_PREP XA_OP_ROLLBACK XA_HEURMIX XA_HEURMIX XA_RM_STATUS_ABFORGET_HEU XA_TX_STAGE_ABFORGETTING,
    Drv XA_TX_STAGE_ABORTING XA_RM_STATUS_ACT_AB XA_OP_ROLLBACK XAER_RMFAIL XAER_RMFAIL XA_RM_STATUS_ACT_AB XA_TX_STAGE_ABORTING,
    Drv XA_TX_STAGE_ABORTING XA_RM_STATUS_ACTIVE XA_OP_ROLLBACK XAER_RMFAIL XAER_RMFAIL XA_RM_STATUS_ACTIVE XA_TX_STAGE_ABORTING,
    Drv XA_TX_STAGE_ABORTING XA_RM_STATUS_PREP XA_OP_ROLLBACK XAER_RMFAIL XAER_RMFAIL XA_RM_STATUS_PREP XA_TX_STAGE_ABORTING,
    Drv XA_TX_STAGE_ABORTING XA_RM_STATUS_ACT_AB XA_OP_ROLLBACK XAER_NOTA XAER_NOTA XA_RM_STATUS_ABORTED XA_TX_STAGE_ABORTED,
    Drv XA_TX_STAGE_ABORTING XA_RM_STATUS_ACTIVE XA_OP_ROLLBACK XAER_NOTA XAER_NOTA XA_RM_STATUS_ABORTED XA_TX_STAGE_ABORTED,
    Drv XA_TX_STAGE_ABORTING XA_RM_STATUS_PREP XA_OP_ROLLBACK XAER_NOTA XAER_NOTA XA_RM_STATUS_ABORTED XA_TX_STAGE_ABORTED,
    Drv XA_TX_STAGE_ABORTING XA_RM_STATUS_ACT_AB XA_OP_ROLLBACK INT_MIN INT_MAX XA_RM_STATUS_ABORTED XA_TX_STAGE_ABORTED,
    Drv XA_TX_STAGE_ABORTING XA_RM_STATUS_ACTIVE XA_OP_ROLLBACK INT_MIN INT_MAX XA_RM_STATUS_ABORTED XA_TX_STAGE_ABORTED,
    Drv XA_TX_STAGE_ABORTING XA_RM_STATUS_PREP XA_OP_ROLLBACK INT_MIN INT_MAX XA_RM_STATUS_ABORTED XA_TX_STAGE_ABORTED,
    Drv XA_TX_STAGE_ABORTING XA_RM_STATUS_ABFORGET_HEU XA_OP_NOP XA_OK XA_OK XA_RM_STATUS_ABFORGET_HEU XA_TX_STAGE_ABFORGETTING,
    Drv XA_TX_STAGE_ABORTING XA_RM_STATUS_ABFORGET_HAZ XA_OP_NOP XA_OK XA_OK XA_RM_STATUS_ABFORGET_HAZ XA_TX_STAGE_ABFORGETTING]"

definition M_rm_status_driver_abforgetting :: "rmstatus_driver list" where
  [table_facts]: "M_rm_status_driver_abforgetting =
   [Drv XA_TX_STAGE_ABFORGETTING XA_RM_STATUS_ABFORGET_HAZ XA_OP_FORGET XA_OK XA_OK XA_RM_STATUS_ABORT_HAZARD XA_TX_STAGE_ABFORGOT_HAZ,
    Drv XA_TX_STAGE_ABFORGETTING XA_RM_STATUS_ABFORGET_HEU XA_OP_FORGET XA_OK XA_OK XA_RM_STATUS_ABORT_HEURIS XA_TX_STAGE_ABFORGOT_HEU,
    Drv XA_TX_STAGE_ABFORGETTING XA_RM_STATUS_ABFORGET_HAZ XA_OP_FORGET XAER_RMFAIL XAER_RMFAIL XA_RM_STATUS_ABFORGET_HAZ XA_TX_STAGE_ABFORGETTING,
    Drv XA_TX_STAGE_ABFORGETTING XA_RM_STATUS_ABFORGET_HEU XA_OP_FORGET XAER_RMFAIL XAER_RMFAIL XA_RM_STATUS_ABFORGET_HEU XA_TX_STAGE_ABFORGETTING,
    Drv XA_TX_STAGE_ABFORGETTING XA_RM_STATUS_ABFORGET_HAZ XA_OP_FORGET INT_MIN INT_MAX XA_RM_STATUS_ABORT_HAZARD XA_TX_STAGE_ABFORGOT_HAZ,
    Drv XA_TX_STAGE_ABFORGETTING XA_RM_STATUS_ABFORGET_HEU XA_OP_FORGET INT_MIN INT_MAX XA_RM_STATUS_ABORT_HEURIS XA_TX_STAGE_ABFORGOT_HEU,
    Drv XA_TX_STAGE_ABFORGETTING XA_RM_STATUS_ABORT_HAZARD XA_OP_NOP XA_OK XA_OK XA_RM_STATUS_ABORT_HAZARD XA_TX_STAGE_ABFORGOT_HAZ,
    Drv XA_TX_STAGE_ABFORGETTING XA_RM_STATUS_ABORT_HEURIS XA_OP_NOP XA_OK XA_OK XA_RM_STATUS_ABORT_HEURIS XA_TX_STAGE_ABFORGOT_HEU]"

definition G_txaction_driver :: "txaction_driver list" where
  [table_facts]: "G_txaction_driver =
   [Act XA_TX_STAGE_PREPARING XA_RM_STATUS_ACTIVE XA_OP_PREPARE,
    Act XA_TX_STAGE_COMMITTING XA_RM_STATUS_PREP XA_OP_COMMIT,
    Act XA_TX_STAGE_ABORTING XA_RM_STATUS_ACTIVE XA_OP_ROLLBACK,
    Act XA_TX_STAGE_ABORTING XA_RM_STATUS_ACT_AB XA_OP_ROLLBACK,
    Act XA_TX_STAGE_ABORTING XA_RM_STATUS_PREP XA_OP_ROLLBACK,
    Act XA_TX_STAGE_COMFORGETTING XA_RM_STATUS_COMFORGET_HAZ XA_OP_FORGET,
    Act XA_TX_STAGE_COMFORGETTING XA_RM_STATUS_COMFORGET_HEU XA_OP_FORGET,
    Act XA_TX_STAGE_ABFORGETTING XA_RM_STATUS_ABFORGET_HAZ XA_OP_FORGET,
    Act XA_TX_STAGE_ABFORGETTING XA_RM_STATUS_ABFORGET_HEU XA_OP_FORGET]"

definition G_state_descriptor :: "txstage_descriptor list" where
  [table_facts]: "G_state_descriptor =
   [Descr XA_TX_STAGE_NULL XA_TX_STAGE_NULL XA_TX_STAGE_NULL XA_TX_STAGE_NULL ''NULL'' False,
    Descr XA_TX_STAGE_ACTIVE XA_TX_STAGE_NULL XA_TX_STAGE_NULL XA_TX_STAGE_NULL ''ACTIVE'' False,
    Descr XA_TX_STAGE_ABORTING XA_TX_STAGE_ABORTING XA_TX_STAGE_ABORTED_HAZARD XA_TX_STAGE_ABORTED ''ABORTING'' False,
    Descr XA_TX_STAGE_ABORTED_HAZARD XA_TX_STAGE_ABORTED_HAZARD XA_TX_STAGE_ABORTED_HAZARD XA_TX_STAGE_ABORTED_HAZARD ''ABORTED_HAZARD'' False,
    Descr XA_TX_STAGE_ABORTED_HEURIS XA_TX_STAGE_ABORTED_HEURIS XA_TX_STAGE_ABORTED_HEURIS XA_TX_STAGE_ABORTED_HEURIS ''ABORTED_HEURIS'' False,
    Descr XA_TX_STAGE_ABORTED XA_TX_STAGE_ABORTED XA_TX_STAGE_ABORTED XA_TX_STAGE_ABORTED ''ABORTED'' False,
    Descr XA_TX_STAGE_PREPARING XA_TX_STAGE_PREPARING XA_TX_STAGE_PREPRO XA_TX_STAGE_PREPRO ''PREPARING'' True,
    Descr XA_TX_STAGE_PREPRO XA_TX_STAGE_PREPRO XA_TX_STAGE_PREPRO XA_TX_STAGE_PREPRO ''NO_PARTICIPANTS'' False,
    Descr XA_TX_STAGE_COMMITTING XA_TX_STAGE_COMMITTING XA_TX_STAGE_COMMITTED_HAZARD XA_TX_STAGE_COMMITTED ''COMMITTING'' False,
    Descr XA_TX_STAGE_COMMITTED_HAZARD XA_TX_STAGE_COMMITTED_HAZARD XA_TX_STAGE_COMMITTED_HAZARD XA_TX_STAGE_COMMITTED_HAZARD ''COMMITTED_HAZARD'' False,
    Descr XA_TX_STAGE_COMMITTED_HEURIS XA_TX_STAGE_COMMITTED_HEURIS XA_TX_STAGE_COMMITTED_HEURIS XA_TX_STAGE_COMMITTED_HEURIS ''COMMITTED_HEURIS'' False,
    Descr XA_TX_STAGE_COMMITTED XA_TX_STAGE_COMMITTED XA_TX_STAGE_COMMITTED XA_TX_STAGE_COMMITTED ''COMMITTED'' False,
    Descr XA_TX_STAGE_COMFORGETTING XA_TX_STAGE_COMFORGETTING XA_TX_STAGE_COMFORGOT_HAZ XA_TX_STAGE_COMFORGOT_HEU ''FORGETTING_COMMITTED'' False,
    Descr XA_TX_STAGE_COMFORGOT_HAZ XA_TX_STAGE_COMFORGOT_HAZ XA_TX_STAGE_COMFORGOT_HAZ XA_TX_STAGE_COMFORGOT_HAZ ''FORGOT_HAZARD_COMMITTED'' False,
    Descr XA_TX_STAGE_COMFORGOT_HEU XA_TX_STAGE_COMFORGOT_HEU XA_TX_STAGE_COMFORGOT_HEU XA_TX_STAGE_COMFORGOT_HEU ''FORGOT_HEURISTIC_COMMITTED'' False,
    Descr XA_TX_STAGE_ABFORGETTING XA_TX_STAGE_ABFORGETTING XA_TX_STAGE_ABFORGOT_HAZ XA_TX_STAGE_ABFORGOT_HEU ''FORGETTING_ABORTED'' False,
    Descr XA_TX_STAGE_ABFORGOT_HAZ XA_TX_STAGE_ABFORGOT_HAZ XA_TX_STAGE_ABFORGOT_HAZ XA_TX_STAGE_ABFORGOT_HAZ ''FORGOT_HAZARD_ABORTED'' False,
    Descr XA_TX_STAGE_ABFORGOT_HEU XA_TX_STAGE_ABFORGOT_HEU XA_TX_STAGE_ABFORGOT_HEU XA_TX_STAGE_ABFORGOT_HEU ''FORGOT_HEURISTIC_ABORTED'' False]"

definition G_txstage2tperrno :: "txstate2tperrno list" where
  [table_facts]: "G_txstage2tperrno =
   [Tpe XA_TX_STAGE_NULL XA_OP_COMMIT TPESYSTEM,
    Tpe XA_TX_STAGE_ACTIVE XA_OP_COMMIT TPESYSTEM,
    Tpe XA_TX_STAGE_ABORTING XA_OP_COMMIT TPEABORT,
    Tpe XA_TX_STAGE_ABORTED_HAZARD XA_OP_COMMIT TPEABORT,
    Tpe XA_TX_STAGE_ABORTED_HEURIS XA_OP_COMMIT TPEABORT,
    Tpe XA_TX_STAGE_ABORTED XA_OP_COMMIT TPEABORT,
    Tpe XA_TX_STAGE_PREPARING XA_OP_COMMIT TPESYSTEM,
    Tpe XA_TX_STAGE_PREPRO XA_OP_COMMIT EXSUCCEED,
    Tpe XA_TX_STAGE_COMMITTING XA_OP_COMMIT TPEHAZARD,
    Tpe XA_TX_STAGE_COMMITTED_HAZARD XA_OP_COMMIT TPEHAZARD,
    Tpe XA_TX_STAGE_COMMITTED_HEURIS XA_OP_COMMIT TPEHEURISTIC,
    Tpe XA_TX_STAGE_COMMITTED XA_OP_COMMIT EXSUCCEED,
    Tpe XA_TX_STAGE_COMFORGETTING XA_OP_COMMIT TPEHAZARD,
    Tpe XA_TX_STAGE_COMFORGOT_HAZ XA_OP_COMMIT TPEHAZARD,
    Tpe XA_TX_STAGE_COMFORGOT_HEU XA_OP_COMMIT TPEHEURISTIC,
    Tpe XA_TX_STAGE_ABFORGETTING XA_OP_COMMIT TPEHAZARD,
    Tpe XA_TX_STAGE_ABFORGOT_HAZ XA_OP_COMMIT TPEABORT,
    Tpe XA_TX_STAGE_ABFORGOT_HEU XA_OP_COMMIT TPEABORT,
    Tpe XA_TX_STAGE_NULL XA_OP_ROLLBACK TPESYSTEM,
    Tpe XA_TX_STAGE_ACTIVE XA_OP_ROLLBACK TPESYSTEM,
    Tpe XA_TX_STAGE_ABORTING XA_OP_ROLLBACK TPEHAZARD,
    Tpe XA_TX_STAGE_ABORTED_HAZARD XA_OP_ROLLBACK TPEHAZARD,
    Tpe XA_TX_STAGE_ABORTED_HEURIS XA_OP_ROLLBACK TPEHEURISTIC,
    Tpe XA_TX_STAGE_ABORTED XA_OP_ROLLBACK EXSUCCEED,
    Tpe XA_TX_STAGE_PREPARING XA_OP_ROLLBACK TPESYSTEM,
    Tpe XA_TX_STAGE_PREPRO XA_OP_ROLLBACK TPESYSTEM,
    Tpe XA_TX_STAGE_COMMITTING XA_OP_ROLLBACK TPEHAZARD,
    Tpe XA_TX_STAGE_COMMITTED_HAZARD XA_OP_ROLLBACK TPEHAZARD,
    Tpe XA_TX_STAGE_COMMITTED_HEURIS XA_OP_ROLLBACK TPEHEURISTIC,
    Tpe XA_TX_STAGE_COMMITTED XA_OP_ROLLBACK TPEHEURISTIC,
    Tpe XA_TX_STAGE_COMFORGETTING XA_OP_ROLLBACK TPEHAZARD,
    Tpe XA_TX_STAGE_COMFORGOT_HAZ XA_OP_ROLLBACK TPEHAZARD,
    Tpe XA_TX_STAGE_COMFORGOT_HEU XA_OP_ROLLBACK TPEHEURISTIC,
    Tpe XA_TX_STAGE_ABFORGETTING XA_OP_ROLLBACK TPEHAZARD,
    Tpe XA_TX_STAGE_ABFORGOT_HAZ XA_OP_ROLLBACK TPEHAZARD,
    Tpe XA_TX_STAGE_ABFORGOT_HEU XA_OP_ROLLBACK TPEHEURISTIC]"

section \<open>Lookups\<close>

text \<open>The macro \<^verbatim>\<open>OP_TABLE_SWITCH\<close>; a stage with no table makes the lookups return NULL.\<close>

definition op_table_switch :: "int \<Rightarrow> rmstatus_driver list option" where
  "op_table_switch txstage =
     (if txstage = XA_TX_STAGE_PREPARING then Some M_rm_status_driver_preparing
      else if txstage = XA_TX_STAGE_COMMITTING then Some M_rm_status_driver_committing
      else if txstage = XA_TX_STAGE_ABORTING then Some M_rm_status_driver_aborting
      else if txstage = XA_TX_STAGE_COMFORGETTING then Some M_rm_status_driver_comforgetting
      else if txstage = XA_TX_STAGE_ABFORGETTING then Some M_rm_status_driver_abforgetting
      else None)"

definition xa_status_get_next_by_op :: "int \<Rightarrow> char \<Rightarrow> int \<Rightarrow> int \<Rightarrow> rmstatus_driver option" where
  "xa_status_get_next_by_op txstage rmstatus op op_retcode =
     (case op_table_switch txstage of
        None \<Rightarrow> None
      | Some tab \<Rightarrow>
          find (\<lambda>r. d_txstage r = txstage \<and> d_rmstatus r = rmstatus \<and> d_op r = op \<and>
                    d_min_retcode r \<le> op_retcode \<and> op_retcode \<le> d_max_retcode r) tab)"

definition xa_status_get_next_by_new_status :: "int \<Rightarrow> char \<Rightarrow> rmstatus_driver option" where
  "xa_status_get_next_by_new_status txstage next_rmstatus =
     (case op_table_switch txstage of
        None \<Rightarrow> None
      | Some tab \<Rightarrow>
          find (\<lambda>r. d_txstage r = txstage \<and> d_next_rmstatus r = next_rmstatus) tab)"

definition xa_status_get_op :: "int \<Rightarrow> char \<Rightarrow> int" where
  "xa_status_get_op txstage rmstatus =
     (case find (\<lambda>r. a_txstage r = txstage \<and> a_rmstatus r = rmstatus) G_txaction_driver of
        Some r \<Rightarrow> a_op r
      | None \<Rightarrow> XA_OP_NOP)"

definition xa_stage_get_descr :: "int \<Rightarrow> txstage_descriptor option" where
  "xa_stage_get_descr txstage = find (\<lambda>r. s_txstage r = txstage) G_state_descriptor"

definition xa_txstage2tperrno :: "int \<Rightarrow> int \<Rightarrow> int" where
  "xa_txstage2tperrno txstage master_op =
     (case find (\<lambda>r. t_txstage r = txstage \<and> t_master_op r = master_op) G_txstage2tperrno of
        None \<Rightarrow> TPESYSTEM
      | Some r \<Rightarrow> t_tpe r)"

section \<open>What the tables say\<close>

lemmas lookup_defs = xa_status_get_next_by_op_def xa_status_get_next_by_new_status_def
  xa_status_get_op_def xa_stage_get_descr_def xa_txstage2tperrno_def op_table_switch_def

text \<open>Which call a branch needs, over all stages and statuses.\<close>

lemma xa_status_get_op_eq:
  "xa_status_get_op st s =
     (if st = XA_TX_STAGE_PREPARING \<and> s = XA_RM_STATUS_ACTIVE then XA_OP_PREPARE
      else if st = XA_TX_STAGE_COMMITTING \<and> s = XA_RM_STATUS_PREP then XA_OP_COMMIT
      else if st = XA_TX_STAGE_ABORTING \<and>
              s \<in> {XA_RM_STATUS_ACTIVE, XA_RM_STATUS_ACT_AB, XA_RM_STATUS_PREP} then XA_OP_ROLLBACK
      else if st = XA_TX_STAGE_COMFORGETTING \<and>
              s \<in> {XA_RM_STATUS_COMFORGET_HAZ, XA_RM_STATUS_COMFORGET_HEU} then XA_OP_FORGET
      else if st = XA_TX_STAGE_ABFORGETTING \<and>
              s \<in> {XA_RM_STATUS_ABFORGET_HAZ, XA_RM_STATUS_ABFORGET_HEU} then XA_OP_FORGET
      else XA_OP_NOP)"
  by (simp add: xa_status_get_op_def G_txaction_driver_def)

lemma next_by_op_in_table:
  assumes "xa_status_get_next_by_op st s op rc = Some r"
  shows "\<exists>tab. op_table_switch st = Some tab \<and> r \<in> set tab \<and> d_rmstatus r = s \<and> d_op r = op \<and>
      d_min_retcode r \<le> rc \<and> rc \<le> d_max_retcode r"
  using assms by (auto simp: xa_status_get_next_by_op_def split: option.splits dest!: find_Some_in)

lemma next_by_new_status_in_table:
  assumes "xa_status_get_next_by_new_status st s = Some r"
  shows "\<exists>tab. op_table_switch st = Some tab \<and> r \<in> set tab \<and> d_next_rmstatus r = s"
  using assms
  by (auto simp: xa_status_get_next_by_new_status_def split: option.splits dest!: find_Some_in)

text \<open>The stages a branch can vote for, per stage.\<close>

definition stage_votes :: "int \<Rightarrow> int set" where
  "stage_votes st =
     (if st = XA_TX_STAGE_PREPARING then {XA_TX_STAGE_COMMITTING, XA_TX_STAGE_ABORTING}
      else if st = XA_TX_STAGE_COMMITTING then
        {XA_TX_STAGE_COMMITTING, XA_TX_STAGE_COMMITTED_HAZARD, XA_TX_STAGE_COMMITTED_HEURIS,
         XA_TX_STAGE_COMMITTED, XA_TX_STAGE_COMFORGETTING}
      else if st = XA_TX_STAGE_ABORTING then
        {XA_TX_STAGE_ABORTING, XA_TX_STAGE_ABORTED, XA_TX_STAGE_ABFORGETTING}
      else if st = XA_TX_STAGE_COMFORGETTING then
        {XA_TX_STAGE_COMFORGETTING, XA_TX_STAGE_COMFORGOT_HAZ, XA_TX_STAGE_COMFORGOT_HEU}
      else if st = XA_TX_STAGE_ABFORGETTING then
        {XA_TX_STAGE_ABFORGETTING, XA_TX_STAGE_ABFORGOT_HAZ, XA_TX_STAGE_ABFORGOT_HEU}
      else {})"

lemma table_votes:
  "op_table_switch st = Some tab \<Longrightarrow> r \<in> set tab \<Longrightarrow> d_next_txstage r \<in> stage_votes st"
  by (auto simp: op_table_switch_def table_facts stage_votes_def split: if_splits)

lemma next_by_op_vote:
  "xa_status_get_next_by_op st s op rc = Some r \<Longrightarrow> d_next_txstage r \<in> stage_votes st"
  using next_by_op_in_table table_votes by blast

lemma next_by_new_status_vote:
  "xa_status_get_next_by_new_status st s = Some r \<Longrightarrow> d_next_txstage r \<in> stage_votes st"
  using next_by_new_status_in_table table_votes by blast

text \<open>What the commit-phase tables say of one call's return code.\<close>

lemma next_by_op_preparing:
  assumes "INT_MIN \<le> rc" "rc \<le> INT_MAX"
  shows "xa_status_get_next_by_op XA_TX_STAGE_PREPARING XA_RM_STATUS_ACTIVE XA_OP_PREPARE rc =
    Some (if rc = XA_OK then M_rm_status_driver_preparing ! 0
          else if rc = XA_RDONLY then M_rm_status_driver_preparing ! 1
          else if rc = XAER_NOTA then M_rm_status_driver_preparing ! 2
          else if XA_RBBASE \<le> rc \<and> rc \<le> XA_RBEND then M_rm_status_driver_preparing ! 3
          else M_rm_status_driver_preparing ! 4)"
  using assms by (simp add: xa_status_get_next_by_op_def op_table_switch_def table_facts)

lemma next_by_op_table_complete:
  assumes "op_table_switch st = Some tab" "r \<in> set tab"
    and "d_rmstatus r = s" "d_op r = op" "d_min_retcode r \<le> rc" "rc \<le> d_max_retcode r"
  shows "\<exists>r'. xa_status_get_next_by_op st s op rc = Some r'"
proof -
  have "\<forall>r \<in> set tab. d_txstage r = st"
    using assms(1) by (auto simp: op_table_switch_def table_facts split: if_splits)
  then have "find (\<lambda>r. d_txstage r = st \<and> d_rmstatus r = s \<and> d_op r = op \<and>
      d_min_retcode r \<le> rc \<and> rc \<le> d_max_retcode r) tab \<noteq> None"
    using assms(2-6) by (auto simp: find_None_iff_all)
  then show ?thesis using assms(1) by (auto simp: xa_status_get_next_by_op_def)
qed

text \<open>Every action has a catch-all row \<^verbatim>\<open>INT_MIN..INT_MAX\<close>, checked by evaluation of the tables.\<close>

definition has_catch_all :: "txaction_driver \<Rightarrow> bool" where
  "has_catch_all a =
     (case op_table_switch (a_txstage a) of
        None \<Rightarrow> False
      | Some tab \<Rightarrow>
          list_ex (\<lambda>r. d_rmstatus r = a_rmstatus a \<and> d_op r = a_op a \<and>
                       d_min_retcode r = INT_MIN \<and> d_max_retcode r = INT_MAX) tab)"

lemma actions_have_catch_all: "list_all has_catch_all G_txaction_driver"
  by code_simp

lemma xa_status_get_op_action:
  assumes "xa_status_get_op st s \<noteq> XA_OP_NOP"
  shows "\<exists>a \<in> set G_txaction_driver. a_txstage a = st \<and> a_rmstatus a = s \<and> a_op a = xa_status_get_op st s"
  using assms unfolding xa_status_get_op_def by (auto split: option.splits dest!: find_Some_in)

lemma catch_all_row:
  assumes "xa_status_get_op st s \<noteq> XA_OP_NOP"
  shows "\<exists>tab r. op_table_switch st = Some tab \<and> r \<in> set tab \<and> d_rmstatus r = s \<and>
     d_op r = xa_status_get_op st s \<and> d_min_retcode r = INT_MIN \<and> d_max_retcode r = INT_MAX"
proof -
  obtain a where a: "a \<in> set G_txaction_driver" "a_txstage a = st" "a_rmstatus a = s"
      "a_op a = xa_status_get_op st s"
    using xa_status_get_op_action [OF assms] by blast
  have "has_catch_all a"
    using actions_have_catch_all a(1) by (simp add: list_all_iff)
  then show ?thesis using a(2-4)
    by (auto simp: has_catch_all_def list_ex_iff split: option.splits)
qed

lemma next_by_op_total:
  assumes "xa_status_get_op st s \<noteq> XA_OP_NOP" "INT_MIN \<le> rc" "rc \<le> INT_MAX"
  shows "\<exists>r. xa_status_get_next_by_op st s (xa_status_get_op st s) rc = Some r"
proof -
  obtain tab r where "op_table_switch st = Some tab" "r \<in> set tab" "d_rmstatus r = s"
      "d_op r = xa_status_get_op st s" "d_min_retcode r = INT_MIN" "d_max_retcode r = INT_MAX"
    using catch_all_row [OF assms(1)] by blast
  then show ?thesis using assms(2,3) by (intro next_by_op_table_complete) auto
qed

section \<open>Progress of the stages\<close>

text \<open>
  The number of stage switches a transaction still has before it: no vote leads to a stage of
  the same or a higher rank, except the vote to stay.
\<close>

definition stage_rank :: "int \<Rightarrow> nat" where
  "stage_rank st =
     (if st = XA_TX_STAGE_PREPARING then 3
      else if st \<in> {XA_TX_STAGE_COMMITTING, XA_TX_STAGE_ABORTING} then 2
      else if st \<in> {XA_TX_STAGE_ACTIVE, XA_TX_STAGE_COMFORGETTING, XA_TX_STAGE_ABFORGETTING} then 1
      else 0)"

lemma stage_votes_rank: "v \<in> stage_votes st \<Longrightarrow> v = st \<or> stage_rank v < stage_rank st"
  by (auto simp: stage_votes_def stage_rank_def split: if_splits)

lemma stage_votes_range: "v \<in> stage_votes st \<Longrightarrow> XA_TX_STAGE_ABORTING \<le> v \<and> v \<le> XA_TX_STAGE_COMFORGOT_HEU"
  by (auto simp: stage_votes_def split: if_splits)

definition commit_range :: "int \<Rightarrow> bool" where
  "commit_range st \<longleftrightarrow> XA_TX_STAGE_COMMITTING \<le> st \<and> st \<le> XA_TX_STAGE_COMFORGOT_HEU"

definition abort_range :: "int \<Rightarrow> bool" where
  "abort_range st \<longleftrightarrow> XA_TX_STAGE_ABORTING \<le> st \<and> st \<le> XA_TX_STAGE_ABFORGOT_HEU"

lemma votes_commit_range: "v \<in> stage_votes st \<Longrightarrow> commit_range st \<Longrightarrow> commit_range v"
  by (auto simp: stage_votes_def commit_range_def split: if_splits)

lemma votes_abort_range: "v \<in> stage_votes st \<Longrightarrow> abort_range st \<Longrightarrow> abort_range v"
  by (auto simp: stage_votes_def abort_range_def split: if_splits)

lemma xa_stage_get_descr_Some: 
  "xa_stage_get_descr st = Some d \<Longrightarrow> d \<in> set G_state_descriptor \<and> s_txstage d = st"
  unfolding xa_stage_get_descr_def by (auto dest: find_Some_in)

lemma descr_max_complete_rank:
  assumes "xa_stage_get_descr st = Some d"
  shows "s_txs_max_complete d = st \<or> stage_rank (s_txs_max_complete d) < stage_rank st"
proof -
  have "list_all (\<lambda>d. s_txs_max_complete d = s_txstage d \<or>
      stage_rank (s_txs_max_complete d) < stage_rank (s_txstage d)) G_state_descriptor"
    by code_simp
  then show ?thesis using xa_stage_get_descr_Some [OF assms] by (auto simp: list_all_iff)
qed

text \<open>A stage is complete when it lies in the completed range of its own descriptor.\<close>

definition stage_complete :: "txstage_descriptor \<Rightarrow> bool" where
  "stage_complete d \<longleftrightarrow> s_txs_min_complete d \<le> s_txstage d \<and> s_txstage d \<le> s_txs_max_complete d"

lemma stage_complete_iff:
  assumes "xa_stage_get_descr st = Some d"
  shows "stage_complete d \<longleftrightarrow>
     st \<notin> {XA_TX_STAGE_ACTIVE, XA_TX_STAGE_ABORTING, XA_TX_STAGE_PREPARING, XA_TX_STAGE_COMMITTING,
           XA_TX_STAGE_COMFORGETTING, XA_TX_STAGE_ABFORGETTING}"
proof -
  have "list_all (\<lambda>d. stage_complete d \<longleftrightarrow> s_txstage d \<notin> {XA_TX_STAGE_ACTIVE, XA_TX_STAGE_ABORTING,
      XA_TX_STAGE_PREPARING, XA_TX_STAGE_COMMITTING, XA_TX_STAGE_COMFORGETTING,
      XA_TX_STAGE_ABFORGETTING}) G_state_descriptor"
    by code_simp
  then show ?thesis using xa_stage_get_descr_Some [OF assms] by (auto simp: list_all_iff)
qed

text \<open>Success is reported for a committed (or empty) transaction, or for a cleanly aborted one.\<close>

lemma tperrno_rows:
  "list_all (\<lambda>r. t_tpe r = EXSUCCEED \<longleftrightarrow>
      (t_txstage r, t_master_op r) \<in> {(XA_TX_STAGE_PREPRO, XA_OP_COMMIT),
         (XA_TX_STAGE_COMMITTED, XA_OP_COMMIT), (XA_TX_STAGE_ABORTED, XA_OP_ROLLBACK)})
    G_txstage2tperrno"
  by code_simp

lemma tperrno_success_iff:
  "xa_txstage2tperrno st op = EXSUCCEED \<longleftrightarrow>
     (st, op) \<in> {(XA_TX_STAGE_PREPRO, XA_OP_COMMIT), (XA_TX_STAGE_COMMITTED, XA_OP_COMMIT),
                 (XA_TX_STAGE_ABORTED, XA_OP_ROLLBACK)}" (is "?l \<longleftrightarrow> (st, op) \<in> ?S")
proof
  assume ?l
  then obtain r where "find (\<lambda>r. t_txstage r = st \<and> t_master_op r = op) G_txstage2tperrno = Some r"
      "t_tpe r = EXSUCCEED"
    by (auto simp: xa_txstage2tperrno_def split: option.splits)
  then show "(st, op) \<in> ?S"
    using tperrno_rows find_Some_in by (fastforce simp: list_all_iff)
next
  assume "(st, op) \<in> ?S"
  moreover have "xa_txstage2tperrno XA_TX_STAGE_PREPRO XA_OP_COMMIT = EXSUCCEED"
      "xa_txstage2tperrno XA_TX_STAGE_COMMITTED XA_OP_COMMIT = EXSUCCEED"
      "xa_txstage2tperrno XA_TX_STAGE_ABORTED XA_OP_ROLLBACK = EXSUCCEED"
    by code_simp+
  ultimately show ?l by auto
qed

section \<open>Properties\<close>

text \<open>C35: the driver tables leave no return code out.  Whenever a stage asks for an operation on a
  branch in some status, every return code of the range of an int has a row, so the driver never
  meets a resource manager answer it cannot interpret.\<close>

theorem every_answer_has_a_row:
  assumes "xa_status_get_op st s \<noteq> XA_OP_NOP" "INT_MIN \<le> rc" "rc \<le> INT_MAX"
  shows "\<exists>r. xa_status_get_next_by_op st s (xa_status_get_op st s) rc = Some r \<and>
     d_next_txstage r \<in> stage_votes st"
  using next_by_op_total[OF assms] next_by_op_vote by blast

theorem every_answer_has_a_row_witness:
  "xa_status_get_op XA_TX_STAGE_COMMITTING XA_RM_STATUS_PREP \<noteq> XA_OP_NOP \<and>
   (\<exists>r. xa_status_get_next_by_op XA_TX_STAGE_COMMITTING XA_RM_STATUS_PREP
          (xa_status_get_op XA_TX_STAGE_COMMITTING XA_RM_STATUS_PREP) 77 = Some r \<and>
        d_next_txstage r \<in> stage_votes XA_TX_STAGE_COMMITTING)"
proof -
  have op: "xa_status_get_op XA_TX_STAGE_COMMITTING XA_RM_STATUS_PREP \<noteq> XA_OP_NOP"
    by (simp add: xa_status_get_op_eq)
  show ?thesis using op every_answer_has_a_row[OF op, of 77] by simp
qed

end
