(* ===== verification/Exhash.thy ===== *)
theory Exhash
  imports Prelude
begin

text \<open>
  The hash tables of include/exhash.h as their clients see them.  A table keeps
  its elements on the application-order list (the prev/next links of its handle), so
  it is modelled by the list of its elements in insertion order; the bucket array
  only speeds up the search and is left out here: theory \<open>Exhash_Buckets\<close> has it and shows that it does the same.  Each table of
  the program names the field it is keyed on; the locale \<open>keyed_table\<close> states the laws of every table
  that is well formed, \<open>hash_table\<close> the stronger ones of a plain list that the
  clients rely on, and every table of the development is an interpretation.
\<close>

text \<open>EXHASH_FIND: the element with the key, if there is one.\<close>

definition ex_find :: "('e \<Rightarrow> 'k) \<Rightarrow> 'k \<Rightarrow> 'e list \<Rightarrow> 'e option" where
  "ex_find key k h = find (\<lambda>e. key e = k) h"

text \<open>EXHASH_ADD: the element is linked at the tail.  The macro does not look for
  the key first.\<close>

definition ex_add :: "'e \<Rightarrow> 'e list \<Rightarrow> 'e list" where
  "ex_add e h = h @ [e]"

text \<open>EXHASH_DEL of an element that was found by its key.\<close>

fun ex_del :: "('e \<Rightarrow> 'k) \<Rightarrow> 'k \<Rightarrow> 'e list \<Rightarrow> 'e list" where
  "ex_del key k [] = []"
| "ex_del key k (e # h) = (if key e = k then h else e # ex_del key k h)"

text \<open>A store through the pointer that EXHASH_FIND returned.\<close>

definition ex_upd :: "('e \<Rightarrow> 'k) \<Rightarrow> 'k \<Rightarrow> ('e \<Rightarrow> 'e) \<Rightarrow> 'e list \<Rightarrow> 'e list" where
  "ex_upd key k f h = update_first (\<lambda>e. key e = k) f h"

definition ex_inv :: "('e \<Rightarrow> 'k) \<Rightarrow> 'e list \<Rightarrow> bool" where
  "ex_inv key h = distinct (map key h)"

subsection \<open>The contract\<close>

locale keyed_table =
  fixes key :: "'e \<Rightarrow> 'k"
    and lookup :: "'k \<Rightarrow> 'h \<Rightarrow> 'e option"
    and add :: "'e \<Rightarrow> 'h \<Rightarrow> 'h"
    and del :: "'k \<Rightarrow> 'h \<Rightarrow> 'h"
    and upd :: "'k \<Rightarrow> ('e \<Rightarrow> 'e) \<Rightarrow> 'h \<Rightarrow> 'h"
    and elems :: "'h \<Rightarrow> 'e list"
    and inv :: "'h \<Rightarrow> bool"
  assumes found: "inv h \<Longrightarrow> lookup k h = Some e \<Longrightarrow> key e = k \<and> e \<in> set (elems h)"
    and lookup_elem: "inv h \<Longrightarrow> e \<in> set (elems h) \<Longrightarrow> lookup (key e) h = Some e"
    and inv_add: "inv h \<Longrightarrow> lookup (key e) h = None \<Longrightarrow> inv (add e h)"
    and found_add: "inv h \<Longrightarrow> lookup (key e) h = None \<Longrightarrow>
          lookup k (add e h) = (if k = key e then Some e else lookup k h)"
    and inv_del: "inv h \<Longrightarrow> inv (del k h)"
    and lookup_del: "inv h \<Longrightarrow> lookup k (del k' h) = (if k = k' then None else lookup k h)"
    and inv_upd: "inv h \<Longrightarrow> (\<And>e. key (f e) = key e) \<Longrightarrow> inv (upd k f h)"
    and found_upd: "inv h \<Longrightarrow> (\<And>e. key (f e) = key e) \<Longrightarrow>
          lookup k (upd k' f h) = (if k = k' then map_option f (lookup k h) else lookup k h)"
begin

lemma elem_iff_lookup: "inv h \<Longrightarrow> e \<in> set (elems h) \<longleftrightarrow> lookup (key e) h = Some e"
  using found lookup_elem by blast

lemma lookup_None_iff: "inv h \<Longrightarrow> lookup k h = None \<longleftrightarrow> k \<notin> key ` set (elems h)"
  using found[of h k] lookup_elem[of h] by (cases "lookup k h") fastforce+

lemma elems_add:
  assumes "inv h" "lookup (key e) h = None"
  shows "set (elems (add e h)) = insert e (set (elems h))"
proof -
  have "x \<in> set (elems (add e h)) \<longleftrightarrow> x = e \<or> x \<in> set (elems h)" for x
    using assms by (auto simp: elem_iff_lookup inv_add found_add)
  then show ?thesis by blast
qed

lemma elems_del:
  assumes "inv h"
  shows "set (elems (del k h)) = {e \<in> set (elems h). key e \<noteq> k}"
proof -
  have "x \<in> set (elems (del k h)) \<longleftrightarrow> x \<in> set (elems h) \<and> key x \<noteq> k" for x
    using assms by (auto simp: elem_iff_lookup inv_del lookup_del)
  then show ?thesis by blast
qed

lemma del_add_lookup:
  assumes "inv h" "lookup (key e) h = None"
  shows "lookup k (del (key e) (add e h)) = lookup k h"
  using assms by (simp add: lookup_del inv_add found_add)

end

text \<open>A plain list needs no invariant for the laws on single lookups.\<close>

locale hash_table = keyed_table +
  assumes lookup_Some: "lookup k h = Some e \<Longrightarrow> key e = k \<and> e \<in> set (elems h)"
    and lookup_add: "lookup (key e) h = None \<Longrightarrow>
          lookup k (add e h) = (if k = key e then Some e else lookup k h)"
    and lookup_upd: "(\<And>e. key (f e) = key e) \<Longrightarrow>
          lookup k (upd k' f h) = (if k = k' then map_option f (lookup k h) else lookup k h)"

subsection \<open>Every keyed list satisfies it\<close>

lemma ex_find_Some: "ex_find key k h = Some e \<Longrightarrow> key e = k \<and> e \<in> set h"
  unfolding ex_find_def by (auto dest: find_Some_in)

lemma ex_find_None: "ex_find key k h = None \<longleftrightarrow> k \<notin> key ` set h"
  unfolding ex_find_def by (auto simp: find_None_iff)

lemma ex_find_elem: "ex_inv key h \<Longrightarrow> e \<in> set h \<Longrightarrow> ex_find key (key e) h = Some e"
  unfolding ex_find_def ex_inv_def by (induction h) auto

lemma ex_find_add:
  "ex_find key (key e) h = None \<Longrightarrow>
   ex_find key k (ex_add e h) = (if k = key e then Some e else ex_find key k h)"
  unfolding ex_find_def ex_add_def by (induction h) auto

lemma ex_inv_add: "ex_inv key h \<Longrightarrow> ex_find key (key e) h = None \<Longrightarrow> ex_inv key (ex_add e h)"
  by (simp add: ex_find_None ex_inv_def ex_add_def)

lemma ex_del_filter: "ex_inv key h \<Longrightarrow> ex_del key k h = filter (\<lambda>e. key e \<noteq> k) h"
proof (induction h)
  case (Cons a h)
  then have "key a \<notin> key ` set h" "ex_inv key h" by (auto simp: ex_inv_def)
  moreover from this have "filter (\<lambda>e. key e \<noteq> key a) h = h" by (metis (mono_tags, lifting) filter_True image_eqI)
  ultimately show ?case using Cons.IH by (cases "key a = k") auto
qed simp

lemma ex_find_del:
  "ex_inv key h \<Longrightarrow> ex_find key k (ex_del key k' h) = (if k = k' then None else ex_find key k h)"
proof (induction h)
  case (Cons a h)
  then show ?case
    using ex_find_None[of key k' h]
    by (auto simp: ex_inv_def ex_find_def image_iff)
qed (simp add: ex_find_def)

lemma ex_inv_del: "ex_inv key h \<Longrightarrow> ex_inv key (ex_del key k h)"
  by (simp add: ex_del_filter) (simp add: ex_inv_def distinct_map_filter)

lemma ex_find_upd:
  assumes "\<And>e. key (f e) = key e"
  shows "ex_find key k (ex_upd key k' f h) =
    (if k = k' then map_option f (ex_find key k h) else ex_find key k h)"
  using assms unfolding ex_find_def ex_upd_def by (induction h) auto

lemma map_key_upd: "(\<And>e. key (f e) = key e) \<Longrightarrow> map key (ex_upd key k f h) = map key h"
  unfolding ex_upd_def by (induction h) auto

lemma ex_inv_upd: "ex_inv key h \<Longrightarrow> (\<And>e. key (f e) = key e) \<Longrightarrow> ex_inv key (ex_upd key k f h)"
  by (simp add: ex_inv_def map_key_upd)

lemma length_ex_upd [simp]: "length (ex_upd key k f h) = length h"
  by (simp add: ex_upd_def)

text \<open>The list of elements with the operations above is a table for every key field.\<close>

lemma exhash_hash_table:
  "hash_table key (ex_find key) ex_add (ex_del key) (ex_upd key) (\<lambda>h. h) (ex_inv key)"
  by unfold_locales
    (auto simp: ex_find_add ex_inv_add ex_find_del ex_inv_del ex_find_upd ex_inv_upd
      ex_find_elem dest: ex_find_Some)

end
