(* ===== verification/C_Strings.thy ===== *)
theory C_Strings
  imports Prelude
begin

text \<open>
  The C library's conversions between integers and strings, as far as the transaction log uses
  them: \<^verbatim>\<open>%d\<close>/\<^verbatim>\<open>%hd\<close>/\<^verbatim>\<open>%ld\<close> and \<^verbatim>\<open>%08lx\<close> of \<^verbatim>\<open>printf\<close>, \<^verbatim>\<open>atoi\<close>/\<^verbatim>\<open>atol\<close>, \<^verbatim>\<open>sscanf("%lx")\<close>,
  \<^verbatim>\<open>strchr\<close>, \<^verbatim>\<open>strtok\<close> and \<^verbatim>\<open>fgets\<close>.  The lemmas are the round trips and the length bounds the
  recovery theorems need.
\<close>

section \<open>Decimal numbers\<close>

definition digit_char :: "nat \<Rightarrow> char" where
  "digit_char d = char_of (48 + d)"

definition is_digit :: "char \<Rightarrow> bool" where
  "is_digit c \<longleftrightarrow> 48 \<le> (of_char c :: nat) \<and> (of_char c :: nat) \<le> 57"

definition digit_val :: "char \<Rightarrow> int" where
  "digit_val c = int (of_char c) - 48"

function dec_digits :: "int \<Rightarrow> string" where
  "dec_digits n = (if n < 10 then [digit_char (nat n)]
                   else dec_digits (n div 10) @ [digit_char (nat (n mod 10))])"
  by pat_completeness auto
termination
  by (relation "measure nat") auto

declare dec_digits.simps [simp del]

text \<open>\<^verbatim>\<open>%d\<close> and its length-modified variants.\<close>

definition fmt_d :: "int \<Rightarrow> string" where
  "fmt_d n = (if n < 0 then CHR ''-'' # dec_digits (- n) else dec_digits n)"

fun digits_val :: "int \<Rightarrow> string \<Rightarrow> int" where
  "digits_val acc [] = acc"
| "digits_val acc (c # cs) = (if is_digit c then digits_val (10 * acc + digit_val c) cs else acc)"

definition is_space :: "char \<Rightarrow> bool" where
  "is_space c \<longleftrightarrow> c = CHR '' '' \<or> (9 \<le> (of_char c :: nat) \<and> (of_char c :: nat) \<le> 13)"

text \<open>\<^verbatim>\<open>atoi\<close> and \<^verbatim>\<open>atol\<close>: leading blanks, an optional sign, digits; 0 when there are none.\<close>

definition atoi :: "string \<Rightarrow> int" where
  "atoi s = (case dropWhile is_space s of
      [] \<Rightarrow> 0
    | c # cs \<Rightarrow> if c = CHR ''-'' then - digits_val 0 cs
                else if c = CHR ''+'' then digits_val 0 cs
                else digits_val 0 (c # cs))"

lemma of_char_digit_char [simp]: "d < 10 \<Longrightarrow> (of_char (digit_char d) :: nat) = 48 + d"
  by (simp add: digit_char_def)

lemma is_digit_digit_char [simp]: "d < 10 \<Longrightarrow> is_digit (digit_char d)"
  by (simp add: is_digit_def)

lemma digit_val_digit_char [simp]: "d < 10 \<Longrightarrow> digit_val (digit_char d) = int d"
  by (simp add: digit_val_def)

lemma dec_digits_digits: "\<forall>c \<in> set (dec_digits n). is_digit c"
proof (induction n rule: dec_digits.induct)
  case (1 n)
  then show ?case by (cases "n < 10") (simp_all add: dec_digits.simps [of n] nat_less_iff)
qed

lemma dec_digits_nonempty [simp]: "dec_digits n \<noteq> []"
  by (subst dec_digits.simps) simp

lemma digits_val_append:
  "\<forall>c \<in> set xs. is_digit c \<Longrightarrow> digits_val a (xs @ ys) = digits_val (digits_val a xs) ys"
  by (induction xs arbitrary: a) auto

lemma digits_val_dec_digits: "0 \<le> n \<Longrightarrow> digits_val 0 (dec_digits n) = n"
proof (induction n rule: dec_digits.induct)
  case (1 n)
  show ?case
  proof (cases "n < 10")
    case True
    then show ?thesis using 1 by (simp add: dec_digits.simps [of n] nat_less_iff)
  next
    case False
    then have "digits_val 0 (dec_digits (n div 10)) = n div 10" using 1 by simp
    then have "digits_val 0 (dec_digits n) = 10 * (n div 10) + n mod 10"
      using False by (simp add: dec_digits.simps [of n] digits_val_append dec_digits_digits nat_less_iff)
    then show ?thesis by simp
  qed
qed

lemma is_digit_not_sign: "is_digit c \<Longrightarrow> c \<noteq> CHR ''-'' \<and> c \<noteq> CHR ''+'' \<and> c \<noteq> CHR '':'' \<and>
    c \<noteq> CHR '';'' \<and> \<not> is_space c \<and> c \<noteq> CHR 0x00"
  by (auto simp: is_digit_def is_space_def)

lemma atoi_fmt_d [c_string, simp]: "atoi (fmt_d n) = n"
proof (cases "n < 0")
  case True
  then show ?thesis
    by (simp add: fmt_d_def atoi_def is_space_def digits_val_dec_digits)
next
  case False
  obtain c cs where c: "dec_digits n = c # cs" "is_digit c"
    using dec_digits_digits [of n] by (cases "dec_digits n") auto
  have "atoi (fmt_d n) = digits_val 0 (c # cs)"
    using False c is_digit_not_sign [OF c(2)] by (simp add: fmt_d_def atoi_def)
  then show ?thesis using digits_val_dec_digits [of n] c(1) False by simp
qed

lemma fmt_d_chars: "c \<in> set (fmt_d n) \<Longrightarrow> is_digit c \<or> c = CHR ''-''"
  using dec_digits_digits by (auto simp: fmt_d_def split: if_splits)

lemma fmt_d_nonempty [simp]: "fmt_d n \<noteq> []"
  by (simp add: fmt_d_def)

lemma fmt_d_no [simp]:
  "CHR '':'' \<notin> set (fmt_d n)" "CHR '';'' \<notin> set (fmt_d n)" "CHR 0x0A \<notin> set (fmt_d n)"
  "CHR 0x0D \<notin> set (fmt_d n)" "CHR 0x00 \<notin> set (fmt_d n)"
  by (auto dest!: fmt_d_chars simp: is_digit_def)

lemma length_dec_digits: "n < 10 ^ k \<Longrightarrow> 0 < k \<Longrightarrow> length (dec_digits n) \<le> k"
proof (induction n arbitrary: k rule: dec_digits.induct)
  case (1 n)
  show ?case
  proof (cases "n < 10")
    case True
    then show ?thesis using "1.prems" by (simp add: dec_digits.simps [of n])
  next
    case False
    then obtain j where k: "k = Suc j" "0 < j"
      using "1.prems" by (cases k; cases "k - 1") auto
    have "n div 10 < 10 ^ j" using "1.prems" k by (auto intro: div_less_iff_less_mult [THEN iffD2])
    then have "length (dec_digits (n div 10)) \<le> j" using "1.IH" False k(2) by simp
    then show ?thesis using False k(1) by (simp add: dec_digits.simps [of n])
  qed
qed

lemma length_fmt_d:
  assumes "\<bar>n\<bar> < 10 ^ k" "0 < k"
  shows "length (fmt_d n) \<le> Suc k"
  using length_dec_digits [of n k] length_dec_digits [of "- n" k] assms
  by (auto simp: fmt_d_def abs_if split: if_splits)

section \<open>Hexadecimal numbers\<close>

definition hex_digit :: "nat \<Rightarrow> char" where
  "hex_digit d = (if d < 10 then digit_char d else char_of (87 + d))"

definition is_hex :: "char \<Rightarrow> bool" where
  "is_hex c \<longleftrightarrow> is_digit c \<or> (97 \<le> (of_char c :: nat) \<and> (of_char c :: nat) \<le> 102) \<or>
     (65 \<le> (of_char c :: nat) \<and> (of_char c :: nat) \<le> 70)"

definition hex_val :: "char \<Rightarrow> int" where
  "hex_val c = int (of_char c) - (if is_digit c then 48 else if 97 \<le> (of_char c :: nat) then 87 else 55)"

text \<open>\<^verbatim>\<open>%08lx\<close>: at least \<open>k\<close> digits, padded with zeros.\<close>

function hex_pad :: "nat \<Rightarrow> int \<Rightarrow> string" where
  "hex_pad k n = (if k = 0 \<and> n \<le> 0 then []
                  else hex_pad (k - 1) (n div 16) @ [hex_digit (nat (n mod 16))])"
  by pat_completeness auto
termination
  by (relation "measure (\<lambda>(k, n). k + nat n)") auto

declare hex_pad.simps [simp del]

fun hex_acc :: "int \<Rightarrow> string \<Rightarrow> int" where
  "hex_acc a [] = a"
| "hex_acc a (c # cs) = (if is_hex c then hex_acc (16 * a + hex_val c) cs else a)"

text \<open>
  \<^verbatim>\<open>sscanf(rs, "%lx", &v)\<close> with \<^verbatim>\<open>v\<close> initialised to 0: blanks, an optional sign, an optional \<^verbatim>\<open>0x\<close>,
  hexadecimal digits; \<^verbatim>\<open>v\<close> keeps its 0 when nothing matches.  As in \<^verbatim>\<open>strtoul\<close>, a number that does not fit
  gives the largest unsigned long, and a minus sign negates the value in the unsigned type.
\<close>

definition hex_prefix :: "string \<Rightarrow> string" where
  "hex_prefix s = (case s of
      c0 # c1 # cs \<Rightarrow> if c0 = CHR ''0'' \<and> (c1 = CHR ''x'' \<or> c1 = CHR ''X'') then cs else s
    | _ \<Rightarrow> s)"

definition sscanf_lx :: "string \<Rightarrow> int" where
  "sscanf_lx s =
    (let t = dropWhile is_space s;
         (neg, u) = (case t of c # cs \<Rightarrow> if c = CHR ''-'' then (True, cs) else if c = CHR ''+'' then (False, cs) else (False, t)
                     | [] \<Rightarrow> (False, t));
         v = hex_acc 0 (hex_prefix u)
     in if v > ULONG_MAX then ULONG_MAX else if neg then (- v) mod (ULONG_MAX + 1) else v)"

lemma of_char_hex_digit: "d < 16 \<Longrightarrow> (of_char (hex_digit d) :: nat) = (if d < 10 then 48 + d else 87 + d)"
  by (auto simp: hex_digit_def)

lemma is_hex_hex_digit [simp]: "d < 16 \<Longrightarrow> is_hex (hex_digit d)"
  by (auto simp: is_hex_def is_digit_def of_char_hex_digit)

lemma hex_val_hex_digit [simp]: "d < 16 \<Longrightarrow> hex_val (hex_digit d) = int d"
  by (auto simp: hex_val_def is_digit_def of_char_hex_digit)

lemma hex_pad_hex: "\<forall>c \<in> set (hex_pad k n). is_hex c"
proof (induction k n rule: hex_pad.induct)
  case (1 k n)
  then show ?case by (subst hex_pad.simps) auto
qed

lemma hex_acc_append:
  "\<forall>c \<in> set xs. is_hex c \<Longrightarrow> hex_acc a (xs @ ys) = hex_acc (hex_acc a xs) ys"
  by (induction xs arbitrary: a) auto

lemma hex_acc_hex_pad: "0 \<le> n \<Longrightarrow> hex_acc 0 (hex_pad k n) = n"
proof (induction k n rule: hex_pad.induct)
  case (1 k n)
  then show ?case
    by (subst hex_pad.simps) (auto simp: hex_acc_append hex_pad_hex)
qed

lemma hex_pad_length: "n < 16 ^ k \<Longrightarrow> length (hex_pad k n) = k"
proof (induction k arbitrary: n)
  case 0
  then show ?case by (subst hex_pad.simps) simp
next
  case (Suc k)
  then have "n div 16 < 16 ^ k" by (simp add: less_mult_imp_div_less)
  then show ?case using Suc.IH by (subst hex_pad.simps) simp
qed

lemma is_hex_not: "is_hex c \<Longrightarrow> c \<noteq> CHR ''x'' \<and> c \<noteq> CHR ''X'' \<and> \<not> is_space c \<and> c \<noteq> CHR 0x0A \<and>
    c \<noteq> CHR 0x0D \<and> c \<noteq> CHR '';'' \<and> c \<noteq> CHR 0x00 \<and> c \<noteq> CHR ''-'' \<and> c \<noteq> CHR ''+''"
  by (auto simp: is_hex_def is_digit_def is_space_def)

lemma sscanf_lx_hex:
  assumes "\<forall>c \<in> set s. is_hex c" "hex_acc 0 s \<le> ULONG_MAX"
  shows "sscanf_lx s = hex_acc 0 s"
proof -
  have "dropWhile is_space s = s" "hex_prefix s = s"
    using assms(1) is_hex_not by (auto simp: hex_prefix_def dropWhile_eq_self_iff split: list.splits)
  then show ?thesis
    using assms is_hex_not by (cases s) (simp_all add: sscanf_lx_def)
qed

lemma sscanf_lx_hex_pad [c_string, simp]: "0 \<le> n \<Longrightarrow> n \<le> ULONG_MAX \<Longrightarrow> sscanf_lx (hex_pad k n) = n"
  by (simp add: sscanf_lx_hex hex_pad_hex hex_acc_hex_pad)

lemma hex_pad_no [simp]:
  "CHR 0x0A \<notin> set (hex_pad k n)" "CHR 0x0D \<notin> set (hex_pad k n)" "CHR '';'' \<notin> set (hex_pad k n)"
  "CHR 0x00 \<notin> set (hex_pad k n)"
  using hex_pad_hex is_hex_not by blast+

section \<open>Searching and splitting\<close>

text \<open>
  \<^verbatim>\<open>strchr\<close> as the code uses it: the text before the first occurrence and the text after it.
\<close>

fun strchr_split :: "char \<Rightarrow> string \<Rightarrow> (string \<times> string) option" where
  "strchr_split c [] = None"
| "strchr_split c (x # xs) =
     (if x = c then Some ([], xs)
      else map_option (\<lambda>(a, b). (x # a, b)) (strchr_split c xs))"

lemma strchr_split_Some: "strchr_split c s = Some (a, b) \<Longrightarrow> s = a @ c # b \<and> c \<notin> set a"
  by (induction s arbitrary: a b) (auto split: if_splits)

lemma strchr_split_None: "strchr_split c s = None \<longleftrightarrow> c \<notin> set s"
  by (induction s) auto

lemma strchr_split_append [c_string, simp]: "c \<notin> set a \<Longrightarrow> strchr_split c (a @ c # b) = Some (a, b)"
  by (induction a) auto

text \<open>Successive calls of \<^verbatim>\<open>strtok(buf, ":")\<close>: runs of the delimiter are skipped.\<close>

function strtok :: "char \<Rightarrow> string \<Rightarrow> string list" where
  "strtok d s = (case dropWhile (\<lambda>c. c = d) s of
      [] \<Rightarrow> []
    | c # cs \<Rightarrow> takeWhile (\<lambda>x. x \<noteq> d) (c # cs) # strtok d (dropWhile (\<lambda>x. x \<noteq> d) (c # cs)))"
  by pat_completeness auto
termination
proof (relation "measure (\<lambda>(d, s). length s)", goal_cases)
  case (2 d s c cs)
  have "c \<noteq> d" using 2 by (metis (full_types) dropWhile_eq_Cons_conv)
  then have "length (dropWhile (\<lambda>x. x \<noteq> d) (c # cs)) \<le> length cs"
    by (simp add: length_dropWhile_le)
  moreover have "length (c # cs) \<le> length s"
    using 2 length_dropWhile_le [of "\<lambda>c. c = d" s] by simp
  ultimately show ?case by simp
qed simp

declare strtok.simps [simp del]

lemma strtok_Nil [c_string, simp]: "strtok d [] = []"
  by (simp add: strtok.simps)

lemma strtok_skip [c_string, simp]: "strtok d (d # s) = strtok d s"
  by (subst (1 2) strtok.simps) simp

lemma strtok_token:
  assumes "x \<noteq> []" "d \<notin> set x"
  shows "strtok d (x @ d # s) = x # strtok d s"
proof -
  obtain c cs where x: "x = c # cs" using assms(1) by (cases x) auto
  have "c \<noteq> d" "d \<notin> set cs" using assms(2) x by auto
  then show ?thesis
    by (subst strtok.simps) (auto simp: x takeWhile_append dropWhile_append)
qed

lemma strtok_last:
  assumes "x \<noteq> []" "d \<notin> set x"
  shows "strtok d x = [x]"
proof -
  obtain c cs where x: "x = c # cs" using assms(1) by (cases x) auto
  have "c \<noteq> d" "d \<notin> set cs" using assms(2) x by auto
  moreover from this have "dropWhile (\<lambda>y. y \<noteq> d) cs = []" "takeWhile (\<lambda>y. y \<noteq> d) cs = cs"
    by auto
  ultimately show ?thesis by (subst strtok.simps) (simp add: x del: dropWhile_eq_Nil_conv)
qed

lemmas strtok_facts = strtok_token strtok_last

text \<open>
  One call of \<^verbatim>\<open>fgets(buf, n + 1, f)\<close> on the rest of a file: up to and including the next
  newline, at most \<open>n\<close> characters.
\<close>

fun fgets :: "nat \<Rightarrow> string \<Rightarrow> string \<times> string" where
  "fgets 0 s = ([], s)"
| "fgets n [] = ([], [])"
| "fgets (Suc n) (c # cs) =
     (if c = CHR 0x0A then ([c], cs) else (let (a, b) = fgets n cs in (c # a, b)))"

lemma fgets_append: "fgets n s = (a, b) \<Longrightarrow> s = a @ b"
  by (induction n s arbitrary: a b rule: fgets.induct) (auto split: if_splits prod.splits)

lemma fgets_nonempty: "0 < n \<Longrightarrow> s \<noteq> [] \<Longrightarrow> fst (fgets n s) \<noteq> []"
  by (cases n; cases s) (auto split: prod.splits)

lemma fgets_shrinks: "0 < n \<Longrightarrow> s \<noteq> [] \<Longrightarrow> fgets n s = (a, b) \<Longrightarrow> length b < length s"
  using fgets_nonempty [of n s] fgets_append [of n s a b] by auto

lemma fgets_line:
  "CHR 0x0A \<notin> set x \<Longrightarrow> length x < n \<Longrightarrow> fgets n (x @ CHR 0x0A # s) = (x @ [CHR 0x0A], s)"
proof (induction x arbitrary: n)
  case Nil
  then show ?case by (cases n) auto
next
  case (Cons c x)
  then show ?case by (cases n) auto
qed

lemma fgets_last: "CHR 0x0A \<notin> set x \<Longrightarrow> length x \<le> n \<Longrightarrow> fgets n x = (x, [])"
proof (induction x arbitrary: n)
  case Nil
  then show ?case by (cases n) auto
next
  case (Cons c x)
  then show ?case by (cases n) auto
qed

text \<open>The lines \<^verbatim>\<open>while (fgets(...))\<close> sees, in order.\<close>

function fgets_all :: "nat \<Rightarrow> string \<Rightarrow> string list" where
  "fgets_all n s = (if n = 0 \<or> s = [] then []
                    else (let (a, b) = fgets n s in a # fgets_all n b))"
  by pat_completeness auto
termination
proof (relation "measure (\<lambda>(n, s). length s)", goal_cases)
  case (2 n s x a b)
  then show ?case using fgets_shrinks [of n s a b] by auto
qed simp

declare fgets_all.simps [simp del]

lemma fgets_all_Nil [simp]: "fgets_all n [] = []"
  by (simp add: fgets_all.simps)

lemma fgets_all_line:
  "CHR 0x0A \<notin> set x \<Longrightarrow> length x < n \<Longrightarrow>
   fgets_all n (x @ CHR 0x0A # s) = (x @ [CHR 0x0A]) # fgets_all n s"
  by (subst fgets_all.simps) (auto simp: fgets_line)

lemma fgets_all_last:
  "x \<noteq> [] \<Longrightarrow> CHR 0x0A \<notin> set x \<Longrightarrow> length x \<le> n \<Longrightarrow> fgets_all n x = [x]"
  by (cases "n = 0") (simp_all add: fgets_all.simps [of n x] fgets_last)

end
