(* ===== verification/Fsync.thy ===== *)
theory Fsync
  imports C_Strings
begin

text \<open>
  Synchronisation of files and directories with the disk (libnstd/sys_fsync.c) and
  the parser of its setting.  What is really synchronised depends on the flags: with no
  flag set the functions succeed without a system call.
\<close>

unbundle bit_operations_syntax

datatype fs_op = OpFsync | OpFdatasync | OpDirsync

abbreviation "NDRX_FSYNC_FSYNC \<equiv> 1 :: int"
abbreviation "NDRX_FSYNC_FDATASYNC \<equiv> 2 :: int"
abbreviation "NDRX_FSYNC_DSYNC \<equiv> 4 :: int"

text \<open>ndrx_str_strip: the characters of the needle are taken out everywhere.\<close>

definition ndrx_str_strip :: "string \<Rightarrow> string \<Rightarrow> string" where
  "ndrx_str_strip haystack needle = filter (\<lambda>c. c \<notin> set needle) haystack"

fun fsync_tokens :: "string list \<Rightarrow> int \<Rightarrow> int \<times> int" where
  "fsync_tokens [] flags = (EXSUCCEED, flags)"
| "fsync_tokens (p # ps) flags =
    (if p = ''fsync'' then fsync_tokens ps (flags OR NDRX_FSYNC_FSYNC)
     else if p = ''fdatasync'' then fsync_tokens ps (flags OR NDRX_FSYNC_FDATASYNC)
     else if p = ''dsync'' then fsync_tokens ps (flags OR NDRX_FSYNC_DSYNC)
     else (EXFAIL, flags))"

text \<open>A null pointer is None.\<close>

definition ndrx_fsync_parse :: "string option \<Rightarrow> int \<times> int" where
  "ndrx_fsync_parse setting_str =
    (case setting_str of
       None \<Rightarrow> (EXSUCCEED, 0)
     | Some str \<Rightarrow> if str = [] then (EXSUCCEED, 0)
         else fsync_tokens (strtok CHR '','' (ndrx_str_strip str [CHR 0x09, CHR 0x0A, CHR '' ''])) 0)"

text \<open>The results of fileno and of fsync (fdatasync) are arguments; the second result is what was
  synchronised.\<close>

definition ndrx_fsync_fsync :: "bool \<Rightarrow> bool \<Rightarrow> bool \<Rightarrow> int \<Rightarrow> int \<times> fs_op list" where
  "ndrx_fsync_fsync file fileno_ok sync_ok flags =
    (if \<not> file then (EXFAIL, [])
     else if (bit flags 0 \<or> bit flags 1) \<and> \<not> fileno_ok then (EXFAIL, [])
     else if bit flags 0 then (if sync_ok then (EXSUCCEED, [OpFsync]) else (EXFAIL, []))
     else if bit flags 1 then (if sync_ok then (EXSUCCEED, [OpFdatasync]) else (EXFAIL, []))
     else (EXSUCCEED, []))"

definition ndrx_fsync_dsync :: "string \<Rightarrow> bool \<Rightarrow> bool \<Rightarrow> int \<Rightarrow> int \<times> fs_op list" where
  "ndrx_fsync_dsync dir open_ok sync_ok flags =
    (if dir = [] then (EXFAIL, [])
     else if bit flags 2
     then (if \<not> open_ok then (EXFAIL, []) else if sync_ok then (EXSUCCEED, [OpDirsync]) else (EXFAIL, []))
     else (EXSUCCEED, []))"

text \<open>What the flags ask for.\<close>

definition sync_ops :: "int \<Rightarrow> fs_op list" where
  "sync_ops flags =
    (if bit flags 0 then [OpFsync] else if bit flags 1 then [OpFdatasync] else []) @
    (if bit flags 2 then [OpDirsync] else [])"

lemma fsync_ok:
  "ndrx_fsync_fsync file fileno_ok sync_ok flags = (EXSUCCEED, ops) \<Longrightarrow>
   file \<and> ops = (if bit flags 0 then [OpFsync] else if bit flags 1 then [OpFdatasync] else [])"
  by (auto simp: ndrx_fsync_fsync_def split: if_splits)

lemma dsync_ok:
  "ndrx_fsync_dsync dir open_ok sync_ok flags = (EXSUCCEED, ops) \<Longrightarrow>
   ops = (if bit flags 2 then [OpDirsync] else [])"
  by (auto simp: ndrx_fsync_dsync_def split: if_splits)

lemma fsync_tokens_bits:
  "fsync_tokens ps flags = (EXSUCCEED, flags') \<Longrightarrow>
   set ps \<subseteq> {''fsync'', ''fdatasync'', ''dsync''} \<and>
   (bit flags' 0 \<longleftrightarrow> bit flags 0 \<or> ''fsync'' \<in> set ps) \<and>
   (bit flags' 1 \<longleftrightarrow> bit flags 1 \<or> ''fdatasync'' \<in> set ps) \<and>
   (bit flags' 2 \<longleftrightarrow> bit flags 2 \<or> ''dsync'' \<in> set ps)"
proof (induction ps flags rule: fsync_tokens.induct)
  case (2 p ps flags)
  have b: "bit (1::int) n \<longleftrightarrow> n = 0" "bit (2::int) n \<longleftrightarrow> n = 1" "bit (4::int) n \<longleftrightarrow> n = 2" for n
    using bit_exp_iff[of 0 n, where ?'a = int] bit_exp_iff[of 1 n, where ?'a = int]
      bit_exp_iff[of 2 n, where ?'a = int] by auto
  show ?case using 2 by (auto simp: bit_or_iff b split: if_splits)
qed simp

lemma fsync_tokens_ret:
  "fst (fsync_tokens ps flags) = (if set ps \<subseteq> {''fsync'', ''fdatasync'', ''dsync''} then EXSUCCEED else EXFAIL)"
  by (induction ps flags rule: fsync_tokens.induct) auto

section \<open>Properties\<close>

text \<open>The setting is understood as written.  When the parser accepts a setting, every word of it is
  one of the three keywords, and each flag is set exactly when its keyword is there; a word that
  is none of them makes the parser fail.\<close>

theorem fsync_setting:
  "case ndrx_fsync_parse (Some str) of (ret, flags) \<Rightarrow>
     let ws = strtok CHR '','' (ndrx_str_strip str [CHR 0x09, CHR 0x0A, CHR '' '']) in
     if set ws \<subseteq> {''fsync'', ''fdatasync'', ''dsync''}
     then ret = EXSUCCEED \<and> (bit flags 0 \<longleftrightarrow> ''fsync'' \<in> set ws) \<and>
          (bit flags 1 \<longleftrightarrow> ''fdatasync'' \<in> set ws) \<and> (bit flags 2 \<longleftrightarrow> ''dsync'' \<in> set ws)
     else ret = EXFAIL"
proof -
  let ?ws = "strtok CHR '','' (ndrx_str_strip str [CHR 0x09, CHR 0x0A, CHR '' ''])"
  obtain ret flags where r: "ndrx_fsync_parse (Some str) = (ret, flags)" by (meson surj_pair)
  have p: "ndrx_fsync_parse (Some str) = fsync_tokens ?ws 0"
    by (simp add: ndrx_fsync_parse_def ndrx_str_strip_def strtok.simps)
  then have t: "fsync_tokens ?ws 0 = (ret, flags)" using r by simp
  then have ret: "ret = (if set ?ws \<subseteq> {''fsync'', ''fdatasync'', ''dsync''} then EXSUCCEED else EXFAIL)"
    using fsync_tokens_ret[of ?ws 0] by simp
  show ?thesis
  proof (cases "set ?ws \<subseteq> {''fsync'', ''fdatasync'', ''dsync''}")
    case True
    then have "ret = EXSUCCEED" using ret by simp
    then show ?thesis using True fsync_tokens_bits[of ?ws 0 flags] t unfolding r by (simp add: Let_def)
  next
    case False
    then show ?thesis using ret unfolding r by (simp only: Let_def prod.case if_False)
  qed
qed

end
