(* ===== verification/Tm_Types.thy ===== *)
theory Tm_Types
  imports Xa_States Exhash C_Strings Fsync
begin

text \<open>
  The data of the transaction manager server (tmsrv): the journal structures of
  include/xa_cmn.h, the configuration and the outside world a tmsrv thread sees,
  and the state it changes.

  The journal entries live in a hash table keyed on the XID string, their branches
  in 32 tables keyed on the branch id.  A pointer to an entry held by a thread that
  has locked it is modelled by the value of the entry; \<open>hash_put\<close> stores it
  back where the code gives the pointer up.  A pointer to a branch is its index of
  resource manager and its branch id.

  Everything the server does not decide itself (clock, disk, allocator, resource
  managers, other TM servers, the singleton group lock) is a field of \<open>tm_env\<close>, a
  function of the number of outside calls made so far, so that a theorem about
  every environment covers every sequence of failures.
\<close>

abbreviation "NDRX_MAX_RMS \<equiv> 32 :: nat"
abbreviation "NDRX_XID_SERIAL_BUFSIZE \<equiv> 48 :: nat"
abbreviation "NDRX_LOCK_WAIT_TIME \<equiv> 5000 :: int"
abbreviation "LOG_MAX \<equiv> 1024 :: nat"
abbreviation "LOG_COMMAND_STAGE \<equiv> CHR ''S''"
abbreviation "LOG_COMMAND_I \<equiv> CHR ''I''"
abbreviation "LOG_COMMAND_J \<equiv> CHR ''J''"
abbreviation "LOG_COMMAND_RMSTAT \<equiv> CHR ''R''"
abbreviation "LOG_RS_SEP \<equiv> CHR '';''"
abbreviation "LOG_VERSION_1 \<equiv> 1 :: int"
abbreviation "LOG_VERSION_2 \<equiv> 2 :: int"
abbreviation "NL \<equiv> CHR 0x0A"
abbreviation "CR \<equiv> CHR 0x0D"

text \<open>The exit status of a process killed by a bad memory access (128 + SIGSEGV).\<close>

abbreviation "CRASHED \<equiv> 139 :: int"

subsection \<open>Journal structures\<close>

record rm_status_btid =
  bt_rmstatus :: char
  bt_rmerrorcode :: int
  bt_rmreason :: int
  bt_btid :: int
  bt_rmid :: int

record rm_status =
  btid_hash :: "rm_status_btid list"
  tidcounter :: int

record xa_log =
  tl_tmxid :: string
  tl_tmrmid :: int
  tl_tmnodeid :: int
  tl_tmsrvid :: int
  tl_t_start :: int
  tl_t_update :: int
  tl_txstage :: int
  tl_rmstatus :: "rm_status list"
  tl_fname :: string
  tl_f :: bool
  tl_trycount :: int
  tl_ttimer :: int
  tl_txtout :: int
  tl_is_background :: bool
  tl_lockthreadid :: int
  tl_log_version :: int
  tl_sg_sequence :: int

text \<open>NDRX_CALLOC of an entry.\<close>

definition xa_log_zero :: xa_log where
  "xa_log_zero = \<lparr>tl_tmxid = [], tl_tmrmid = 0, tl_tmnodeid = 0, tl_tmsrvid = 0, tl_t_start = 0,
     tl_t_update = 0, tl_txstage = 0,
     tl_rmstatus = replicate NDRX_MAX_RMS \<lparr>btid_hash = [], tidcounter = 0\<rparr>,
     tl_fname = [], tl_f = False, tl_trycount = 0, tl_ttimer = 0, tl_txtout = 0,
     tl_is_background = False, tl_lockthreadid = 0, tl_log_version = 0, tl_sg_sequence = 0\<rparr>"

text \<open>The transaction identification a request carries (atmi_xa_tx_info_t).\<close>

record xa_tx_info =
  xi_tmxid :: string
  xi_tmrmid :: int
  xi_tmnodeid :: int
  xi_tmsrvid :: int
  xi_btid :: int
  xi_tmknownrms :: "int list"

text \<open>The fields of a request/reply buffer the server reads and writes.\<close>

record tm_ub =
  u_tmxid :: "string option"
  u_tmrmid :: "int option"
  u_tmnodeid :: "int option"
  u_tmsrvid :: "int option"
  u_tmknownrms :: "int list option"
  u_btid :: "int option"
  u_flags :: "int option"
  u_tout :: "int option"
  u_callerrm :: "int option"
  u_rmstatus :: "char option"
  u_err :: "(int \<times> int) option"

text \<open>atmi_xa_is_error: a code other than TPMINVAL is there.\<close>

definition atmi_xa_is_error :: "tm_ub \<Rightarrow> bool" where
  "atmi_xa_is_error ub = (case u_err ub of None \<Rightarrow> False | Some (code, _) \<Rightarrow> code \<noteq> 0)"

text \<open>atmi_xa_set_error_fmt and atmi_xa_set_error_msg: the first error stays (the text of
  the message is not kept).\<close>

definition atmi_xa_set_error :: "int \<Rightarrow> int \<Rightarrow> tm_ub \<Rightarrow> tm_ub" where
  "atmi_xa_set_error code reason ub =
    (if \<not> atmi_xa_is_error ub then ub\<lparr>u_err := Some (to_short code, to_short reason)\<rparr> else ub)"

text \<open>atmi_xa_override_error: replaces the code.\<close>

definition atmi_xa_override_error :: "int \<Rightarrow> tm_ub \<Rightarrow> tm_ub" where
  "atmi_xa_override_error code ub =
     ub\<lparr>u_err := Some (to_short code, case u_err ub of None \<Rightarrow> 0 | Some (_, r) \<Rightarrow> r)\<rparr>"

subsection \<open>The outside world\<close>

record tm_env =
  e_tid :: int
  e_xa_rmid :: int
  e_vnodeid :: int
  e_srv_id :: int
  e_tlog_dir :: string
  e_procgrp_no :: int
  e_sglockinc :: int
  e_xa_retries :: int
  e_max_tries :: int
  e_dflt_timeout :: int
  e_housekeeptime :: int
  e_commit_crash :: int
  e_lockloss :: bool
  e_tmscommit :: bool
  e_clock :: "nat \<Rightarrow> int"
  e_rand :: "nat \<Rightarrow> int"
  e_alloc :: "nat \<Rightarrow> bool"
  e_fopen :: "nat \<Rightarrow> bool"
  e_fprintf :: "nat \<Rightarrow> bool"
  e_fflush :: "nat \<Rightarrow> bool"
  e_written :: "nat \<Rightarrow> nat"
  e_fsync_flags :: int
  e_fileno :: "nat \<Rightarrow> bool"
  e_fsync :: "nat \<Rightarrow> bool"
  e_opendir :: "nat \<Rightarrow> bool"
  e_dsync :: "nat \<Rightarrow> bool"
  e_unlink :: "nat \<Rightarrow> bool"
  e_access :: "nat \<Rightarrow> bool"
  e_fseek :: "nat \<Rightarrow> bool"
  e_read_ok :: "nat \<Rightarrow> bool"
  e_file_age :: "nat \<Rightarrow> int"
  e_sglocked :: "nat \<Rightarrow> int \<times> bool"
  e_polls :: "nat \<Rightarrow> xa_log list list"
  e_xa :: "nat \<Rightarrow> int \<Rightarrow> int \<Rightarrow> int \<Rightarrow> int \<times> int \<times> int"
  e_new_xid :: "nat \<Rightarrow> string"
  e_bchg :: "nat \<Rightarrow> bool"
  e_scandir :: "nat \<Rightarrow> string list option"
  e_chkdisk_time :: int
  e_logparse_attempts :: int

subsection \<open>The state\<close>

text \<open>What a thread does to the outside, in order: bytes appended to a log file,
  the synchronisation of a log file and its directory (with what was really synchronised), a call of a resource manager (operation,
  resource manager id, branch id), a log file removed.\<close>

datatype tm_event =
    EvWrite string string
  | EvSync string "fs_op list"
  | EvXa int int int
  | EvUnlink string

record tm_st =
  st_tick :: nat
  st_disk :: "string \<Rightarrow> string option"
  st_hash :: "xa_log list"
  st_trace :: "tm_event list"
  st_write_fail :: int
  st_reason :: int
  st_tperrno :: int

definition tick :: "tm_st \<Rightarrow> tm_st" where
  "tick s = s\<lparr>st_tick := Suc (st_tick s)\<rparr>"

definition emit :: "tm_event \<Rightarrow> tm_st \<Rightarrow> tm_st" where
  "emit ev s = s\<lparr>st_trace := st_trace s @ [ev]\<rparr>"

text \<open>Bytes appended to a file that is open for append.\<close>

definition disk_append :: "string \<Rightarrow> string \<Rightarrow> tm_st \<Rightarrow> tm_st" where
  "disk_append f txt s = emit (EvWrite f txt)
     (s\<lparr>st_disk := (st_disk s)(f \<mapsto> (case st_disk s f of None \<Rightarrow> [] | Some c \<Rightarrow> c) @ txt)\<rparr>)"

text \<open>The table of transactions and the store through a held pointer.\<close>

definition hash_find :: "string \<Rightarrow> tm_st \<Rightarrow> xa_log option" where
  "hash_find xid s = ex_find tl_tmxid xid (st_hash s)"

definition hash_put :: "xa_log \<Rightarrow> tm_st \<Rightarrow> tm_st" where
  "hash_put p s = s\<lparr>st_hash := ex_upd tl_tmxid (tl_tmxid p) (\<lambda>_. p) (st_hash s)\<rparr>"

definition hash_add :: "xa_log \<Rightarrow> tm_st \<Rightarrow> tm_st" where
  "hash_add p s = s\<lparr>st_hash := ex_add p (st_hash s)\<rparr>"

definition hash_del :: "xa_log \<Rightarrow> tm_st \<Rightarrow> tm_st" where
  "hash_del p s = s\<lparr>st_hash := ex_del tl_tmxid (tl_tmxid p) (st_hash s)\<rparr>"

text \<open>A C string ends at its first NUL.\<close>

definition c_str :: "string \<Rightarrow> string" where
  "c_str s = takeWhile (\<lambda>c. c \<noteq> CHR 0x00) s"

subsection \<open>The two kinds of tables\<close>

interpretation tx_table: hash_table tl_tmxid "ex_find tl_tmxid" ex_add "ex_del tl_tmxid"
  "ex_upd tl_tmxid" "\<lambda>h. h" "ex_inv tl_tmxid"
  by (rule exhash_hash_table)

interpretation btid_table: hash_table bt_btid "ex_find bt_btid" ex_add "ex_del bt_btid"
  "ex_upd bt_btid" "\<lambda>h. h" "ex_inv bt_btid"
  by (rule exhash_hash_table)

subsection \<open>What the elementary operations leave alone\<close>

lemma tick_fields [simp]:
  "st_disk (tick s) = st_disk s" "st_hash (tick s) = st_hash s" "st_trace (tick s) = st_trace s"
  "st_write_fail (tick s) = st_write_fail s" "st_reason (tick s) = st_reason s"
  "st_tperrno (tick s) = st_tperrno s" "st_tick (tick s) = Suc (st_tick s)"
  by (simp_all add: tick_def)

lemma emit_fields [simp]:
  "st_disk (emit ev s) = st_disk s" "st_hash (emit ev s) = st_hash s"
  "st_trace (emit ev s) = st_trace s @ [ev]"
  "st_write_fail (emit ev s) = st_write_fail s" "st_reason (emit ev s) = st_reason s"
  "st_tperrno (emit ev s) = st_tperrno s" "st_tick (emit ev s) = st_tick s"
  by (simp_all add: emit_def)

lemma disk_append_fields [simp]:
  "st_hash (disk_append f txt s) = st_hash s"
  "st_trace (disk_append f txt s) = st_trace s @ [EvWrite f txt]"
  "st_write_fail (disk_append f txt s) = st_write_fail s"
  "st_reason (disk_append f txt s) = st_reason s" "st_tperrno (disk_append f txt s) = st_tperrno s"
  "st_tick (disk_append f txt s) = st_tick s"
  "st_disk (disk_append f txt s) =
     (st_disk s)(f \<mapsto> (case st_disk s f of None \<Rightarrow> [] | Some c \<Rightarrow> c) @ txt)"
  by (simp_all add: disk_append_def)

lemma hash_ops_fields [simp]:
  "st_disk (hash_put p s) = st_disk s" "st_trace (hash_put p s) = st_trace s"
  "st_disk (hash_add p s) = st_disk s" "st_trace (hash_add p s) = st_trace s"
  "st_disk (hash_del p s) = st_disk s" "st_trace (hash_del p s) = st_trace s"
  by (simp_all add: hash_put_def hash_add_def hash_del_def)

lemma hash_find_put:
  "hash_find xid (hash_put p s) =
    (if xid = tl_tmxid p then map_option (\<lambda>_. p) (hash_find xid s) else hash_find xid s)"
proof -
  have "ex_find tl_tmxid xid (ex_upd tl_tmxid k (\<lambda>_. p) h) =
      (if xid = k then map_option (\<lambda>_. p) (ex_find tl_tmxid xid h) else ex_find tl_tmxid xid h)"
    if "k = tl_tmxid p" for k h
    using that unfolding ex_find_def ex_upd_def by (induction h) auto
  then show ?thesis by (simp add: hash_find_def hash_put_def)
qed

lemma hash_keys_put: "map tl_tmxid (st_hash (hash_put p s)) = map tl_tmxid (st_hash s)"
proof -
  have "map tl_tmxid (ex_upd tl_tmxid k (\<lambda>_. p) h) = map tl_tmxid h" if "k = tl_tmxid p" for k h
    using that unfolding ex_upd_def by (induction h) auto
  then show ?thesis by (simp add: hash_put_def)
qed

end
