(* ===== verification/Tm_Btid.thy ===== *)
theory Tm_Btid
  imports Tm_Types
begin

text \<open>
  The branches of a transaction (tmsrv/btid.c).  Every resource manager has a table
  of its branches and a counter for the next branch id.  The lemmas show that the
  counter stays above every branch id in use, so that a generated id is fresh, and
  that no two branches of a resource manager share an id, as long as the counter, a C long, does not
  run over.
\<close>

definition rm_at :: "xa_log \<Rightarrow> int \<Rightarrow> rm_status" where
  "rm_at p rmid = tl_rmstatus p ! nat (rmid - 1)"

definition rm_set :: "xa_log \<Rightarrow> int \<Rightarrow> rm_status \<Rightarrow> xa_log" where
  "rm_set p rmid r = p\<lparr>tl_rmstatus := (tl_rmstatus p)[nat (rmid - 1) := r]\<rparr>"

definition rmid_ok :: "int \<Rightarrow> bool" where
  "rmid_ok rmid = (1 \<le> rmid \<and> rmid \<le> int NDRX_MAX_RMS)"

definition tms_btid_gettid :: "xa_log \<Rightarrow> int \<Rightarrow> int \<times> xa_log" where
  "tms_btid_gettid p_tl rmid =
    (let ret = tidcounter (rm_at p_tl rmid)
     in (ret, rm_set p_tl rmid ((rm_at p_tl rmid)\<lparr>tidcounter := to_long (tidcounter (rm_at p_tl rmid) + 1)\<rparr>)))"

definition tms_btid_find :: "xa_log \<Rightarrow> int \<Rightarrow> int \<Rightarrow> rm_status_btid option" where
  "tms_btid_find p_tl rmid btid = ex_find bt_btid btid (btid_hash (rm_at p_tl rmid))"

text \<open>A store through the pointer to a branch.\<close>

definition bt_put :: "xa_log \<Rightarrow> int \<Rightarrow> rm_status_btid \<Rightarrow> xa_log" where
  "bt_put p rmid el = rm_set p rmid
     ((rm_at p rmid)\<lparr>btid_hash := ex_upd bt_btid (bt_btid el) (\<lambda>_. el) (btid_hash (rm_at p rmid))\<rparr>)"

text \<open>The result is the return code, the branch (None when the allocation failed) and the entry.  The counter is a C long and
  wraps in the model; beyond the largest long the code's behaviour is undefined, and the lemmas stay below it.\<close>

definition tms_btid_add ::
  "bool \<Rightarrow> xa_log \<Rightarrow> int \<Rightarrow> int \<Rightarrow> char \<Rightarrow> int \<Rightarrow> int \<Rightarrow> int \<times> rm_status_btid option \<times> xa_log" where
  "tms_btid_add malloc_ok p_tl rmid btid rmstatus rmerrorcode rmreason =
    (if \<not> malloc_ok then (EXFAIL, None, p_tl)
     else let bt = \<lparr>bt_rmstatus = rmstatus, bt_rmerrorcode = rmerrorcode, bt_rmreason = rmreason,
                    bt_btid = btid, bt_rmid = rmid\<rparr>;
              r = rm_at p_tl rmid;
              r1 = r\<lparr>btid_hash := ex_add bt (btid_hash r)\<rparr>;
              r2 = (if tidcounter r1 \<le> btid then r1\<lparr>tidcounter := to_long (btid + 1)\<rparr> else r1)
          in (EXSUCCEED, Some bt, rm_set p_tl rmid r2))"

text \<open>The result is the return code, the branch id, whether the branch existed, the branch
  and the entry.\<close>

definition tms_btid_addupd ::
  "bool \<Rightarrow> xa_log \<Rightarrow> int \<Rightarrow> int \<Rightarrow> char \<Rightarrow> int \<Rightarrow> int \<Rightarrow>
   int \<times> int \<times> bool \<times> rm_status_btid option \<times> xa_log" where
  "tms_btid_addupd malloc_ok p_tl rmid btid rmstatus rmerrorcode rmreason =
    (case (if btid \<noteq> EXFAIL then tms_btid_find p_tl rmid btid else None) of
       Some bt \<Rightarrow>
         if rmstatus \<noteq> XA_RM_STATUS_NULL
         then let bt' = bt\<lparr>bt_rmstatus := rmstatus, bt_rmerrorcode := rmerrorcode,
                           bt_rmreason := rmreason\<rparr>
              in (EXSUCCEED, btid, True, Some bt', bt_put p_tl rmid bt')
         else (EXSUCCEED, btid, True, Some bt, p_tl)
     | None \<Rightarrow>
         let (btid1, p1) = (if btid = EXFAIL then tms_btid_gettid p_tl rmid else (btid, p_tl));
             (ret, bt, p2) = tms_btid_add malloc_ok p1 rmid btid1 rmstatus rmerrorcode rmreason
         in (ret, btid1, False, bt, p2))"

subsection \<open>The invariant\<close>

text \<open>A table of branches is well formed: ids are unique, non-negative, below the counter,
  and the branches carry the id of their resource manager.\<close>

definition rm_wf :: "int \<Rightarrow> rm_status \<Rightarrow> bool" where
  "rm_wf rmid r = (ex_inv bt_btid (btid_hash r) \<and> tidcounter r \<ge> 0 \<and>
     (\<forall>b \<in> set (btid_hash r). 0 \<le> bt_btid b \<and> bt_btid b < tidcounter r \<and> bt_rmid b = rmid))"

definition tl_wf :: "xa_log \<Rightarrow> bool" where
  "tl_wf p = (length (tl_rmstatus p) = NDRX_MAX_RMS \<and>
     (\<forall>i < NDRX_MAX_RMS. rm_wf (int i + 1) (tl_rmstatus p ! i)))"

lemma tl_wf_zero: "tl_wf xa_log_zero"
  by (simp add: tl_wf_def xa_log_zero_def rm_wf_def ex_inv_def)

lemma tl_wf_rm_at: "tl_wf p \<Longrightarrow> rmid_ok rmid \<Longrightarrow> rm_wf rmid (rm_at p rmid)"
  by (auto simp: tl_wf_def rm_at_def rmid_ok_def dest: spec[where x = "nat (rmid - 1)"])

lemma rm_at_set:
  assumes "tl_wf p" "rmid_ok rmid" "rmid_ok rmid'"
  shows "rm_at (rm_set p rmid r) rmid' = (if rmid' = rmid then r else rm_at p rmid')"
  using assms by (auto simp: tl_wf_def rm_at_def rm_set_def rmid_ok_def nth_list_update)

lemma tl_wf_rm_set:
  assumes "tl_wf p" "rmid_ok rmid" "rm_wf rmid r"
  shows "tl_wf (rm_set p rmid r)"
  using assms by (auto simp: tl_wf_def rm_set_def rmid_ok_def nth_list_update)

lemma rm_set_fields [simp]:
  "tl_tmxid (rm_set p i r) = tl_tmxid p" "tl_txstage (rm_set p i r) = tl_txstage p"
  "tl_fname (rm_set p i r) = tl_fname p" "tl_f (rm_set p i r) = tl_f p"
  "tl_lockthreadid (rm_set p i r) = tl_lockthreadid p"
  "tl_log_version (rm_set p i r) = tl_log_version p"
  "tl_is_background (rm_set p i r) = tl_is_background p"
  "tl_sg_sequence (rm_set p i r) = tl_sg_sequence p"
  "tl_txtout (rm_set p i r) = tl_txtout p"
  "tl_t_start (rm_set p i r) = tl_t_start p" "tl_ttimer (rm_set p i r) = tl_ttimer p"
  "tl_tmrmid (rm_set p i r) = tl_tmrmid p" "tl_tmnodeid (rm_set p i r) = tl_tmnodeid p"
  "tl_tmsrvid (rm_set p i r) = tl_tmsrvid p" "tl_t_update (rm_set p i r) = tl_t_update p"
  "tl_trycount (rm_set p i r) = tl_trycount p"
  by (simp_all add: rm_set_def)

lemma tms_btid_find_Some:
  "tms_btid_find p rmid btid = Some b \<Longrightarrow> bt_btid b = btid \<and> b \<in> set (btid_hash (rm_at p rmid))"
  unfolding tms_btid_find_def by (rule btid_table.lookup_Some)

lemma rm_wf_upd:
  assumes "rm_wf rmid r" "ex_find bt_btid (bt_btid el) (btid_hash r) = Some b" "bt_rmid el = rmid"
  shows "rm_wf rmid (r\<lparr>btid_hash := ex_upd bt_btid (bt_btid el) (\<lambda>_. el) (btid_hash r)\<rparr>)"
proof -
  have keys: "map bt_btid (ex_upd bt_btid k (\<lambda>_. el) h) = map bt_btid h" if "k = bt_btid el" for k h
    using that unfolding ex_upd_def by (induction h) auto
  have sub: "set (ex_upd bt_btid k (\<lambda>_. el) h) \<subseteq> insert el (set h)" for k h
    unfolding ex_upd_def by (induction h) auto
  have "0 \<le> bt_btid el \<and> bt_btid el < tidcounter r"
    using assms ex_find_Some[OF assms(2)] by (force simp: rm_wf_def)
  with assms sub[of "bt_btid el" "btid_hash r"] show ?thesis
    by (auto simp: rm_wf_def ex_inv_def keys)
qed

lemma tl_wf_bt_put:
  assumes "tl_wf p" "rmid_ok rmid" "tms_btid_find p rmid (bt_btid el) = Some b" "bt_rmid el = rmid"
  shows "tl_wf (bt_put p rmid el)"
  unfolding bt_put_def
  using assms tl_wf_rm_at[of p rmid] by (intro tl_wf_rm_set rm_wf_upd) (auto simp: tms_btid_find_def)

lemma tms_btid_find_put:
  assumes "tl_wf p" "rmid_ok rmid" "rmid_ok rmid'"
  shows "tms_btid_find (bt_put p rmid el) rmid' k =
    (if rmid' = rmid \<and> k = bt_btid el then map_option (\<lambda>_. el) (tms_btid_find p rmid' k)
     else tms_btid_find p rmid' k)"
proof -
  have "ex_find bt_btid k (ex_upd bt_btid k' (\<lambda>_. el) h) =
      (if k = k' then map_option (\<lambda>_. el) (ex_find bt_btid k h) else ex_find bt_btid k h)"
    if "k' = bt_btid el" for k' h
    using that unfolding ex_find_def ex_upd_def by (induction h) auto
  then show ?thesis using assms by (auto simp: tms_btid_find_def bt_put_def rm_at_set)
qed

subsection \<open>Generated branch ids are fresh\<close>

lemma gettid_fresh:
  assumes "tl_wf p" "rmid_ok rmid" "tms_btid_gettid p rmid = (btid, p')" "tidcounter (rm_at p rmid) < LONG_MAX"
  shows "tms_btid_find p rmid btid = None \<and> tl_wf p' \<and> 0 \<le> btid \<and>
    btid < tidcounter (rm_at p' rmid) \<and> btid_hash (rm_at p' rmid) = btid_hash (rm_at p rmid)"
proof -
  have wf: "rm_wf rmid (rm_at p rmid)" using assms tl_wf_rm_at by blast
  have b: "btid = tidcounter (rm_at p rmid)"
    and p': "p' = rm_set p rmid ((rm_at p rmid)\<lparr>tidcounter := tidcounter (rm_at p rmid) + 1\<rparr>)"
    using assms(3,4) wf by (auto simp: tms_btid_gettid_def Let_def rm_wf_def)
  have "ex_find bt_btid btid (btid_hash (rm_at p rmid)) = None"
    using wf b by (force simp: ex_find_None rm_wf_def)
  moreover have "rm_wf rmid ((rm_at p rmid)\<lparr>tidcounter := tidcounter (rm_at p rmid) + 1\<rparr>)"
    using wf by (force simp: rm_wf_def)
  ultimately show ?thesis
    using assms(1,2) wf by (auto simp: b p' tms_btid_find_def tl_wf_rm_set rm_at_set rm_wf_def)
qed

lemma gettid_find:
  assumes "tl_wf p" "rmid_ok rmid" "tms_btid_gettid p rmid = (btid, p')" "rmid_ok rmid'"
  shows "tms_btid_find p' rmid' k = tms_btid_find p rmid' k"
  using assms by (auto simp: tms_btid_gettid_def tms_btid_find_def rm_at_set Let_def)

lemma btid_add_ok:
  assumes "tl_wf p" "rmid_ok rmid" "0 \<le> btid" "tms_btid_find p rmid btid = None"
    and "tms_btid_add True p rmid btid st ec rs = (ret, bt, p')" "btid < LONG_MAX"
  shows "ret = EXSUCCEED \<and> bt = tms_btid_find p' rmid btid \<and> tl_wf p' \<and>
    bt = Some \<lparr>bt_rmstatus = st, bt_rmerrorcode = ec, bt_rmreason = rs, bt_btid = btid, bt_rmid = rmid\<rparr>"
proof -
  define b where "b = \<lparr>bt_rmstatus = st, bt_rmerrorcode = ec, bt_rmreason = rs,
                    bt_btid = btid, bt_rmid = rmid\<rparr>"
  have wf: "rm_wf rmid (rm_at p rmid)" using assms tl_wf_rm_at by blast
  have no: "ex_find bt_btid (bt_btid b) (btid_hash (rm_at p rmid)) = None"
    using assms(4) by (simp add: tms_btid_find_def b_def)
  define r1 where "r1 = (rm_at p rmid)\<lparr>btid_hash := ex_add b (btid_hash (rm_at p rmid))\<rparr>"
  define r2 where "r2 = (if tidcounter r1 \<le> btid then r1\<lparr>tidcounter := btid + 1\<rparr> else r1)"
  have res: "ret = EXSUCCEED" "bt = Some b" "p' = rm_set p rmid r2"
    using assms(3,5,6) by (auto simp: tms_btid_add_def Let_def b_def r1_def r2_def)
  have set1: "set (btid_hash r1) = insert b (set (btid_hash (rm_at p rmid)))"
    by (auto simp: r1_def ex_add_def)
  have inv1: "ex_inv bt_btid (btid_hash r1)"
    using wf no by (simp add: r1_def ex_inv_add rm_wf_def)
  have "rm_wf rmid r2"
    using wf inv1 set1 assms(3) by (auto simp: rm_wf_def r2_def b_def r1_def)
  moreover have "ex_find bt_btid btid (btid_hash r2) = Some b"
    using no ex_find_add[of bt_btid b _ btid] by (auto simp: r2_def r1_def b_def)
  ultimately show ?thesis
    using assms(1,2) res b_def by (simp add: tl_wf_rm_set tms_btid_find_def rm_at_set)
qed

lemma btid_add_fail: "tms_btid_add False p rmid btid st ec rs = (EXFAIL, None, p)"
  by (simp add: tms_btid_add_def)

lemma btid_add_find_other:
  assumes "tl_wf p" "rmid_ok rmid" "rmid_ok rmid'" "tms_btid_find p rmid btid = None"
    and "tms_btid_add ok p rmid btid st ec rs = (ret, bt, p')" "(rmid', k) \<noteq> (rmid, btid)"
  shows "tms_btid_find p' rmid' k = tms_btid_find p rmid' k"
proof (cases ok)
  case True
  define b where "b = \<lparr>bt_rmstatus = st, bt_rmerrorcode = ec, bt_rmreason = rs,
                    bt_btid = btid, bt_rmid = rmid\<rparr>"
  have no: "ex_find bt_btid (bt_btid b) (btid_hash (rm_at p rmid)) = None"
    using assms(4) by (simp add: tms_btid_find_def b_def)
  show ?thesis
    using True assms ex_find_add[OF no, of k]
    by (auto simp: tms_btid_add_def Let_def b_def tms_btid_find_def rm_at_set)
qed (use assms in \<open>simp add: btid_add_fail\<close>)

text \<open>What a registration leaves for a branch: a new entry, or the known one with the new status; the status
  \<open>XA_RM_STATUS_NULL\<close> changes nothing.\<close>

definition registered :: "int \<Rightarrow> int \<Rightarrow> char \<Rightarrow> int \<Rightarrow> int \<Rightarrow> rm_status_btid option \<Rightarrow> rm_status_btid" where
  "registered rmid btid st ec rs old = (case old of
     None \<Rightarrow> \<lparr>bt_rmstatus = st, bt_rmerrorcode = ec, bt_rmreason = rs, bt_btid = btid, bt_rmid = rmid\<rparr>
   | Some b \<Rightarrow> if st = XA_RM_STATUS_NULL then b else b\<lparr>bt_rmstatus := st, bt_rmerrorcode := ec, bt_rmreason := rs\<rparr>)"

lemma addupd_new:
  assumes "tl_wf p" "rmid_ok rmid" "(if btid = EXFAIL then tidcounter (rm_at p rmid) else btid) < LONG_MAX" "btid \<ge> EXFAIL"
    and new: "(if btid \<noteq> EXFAIL then tms_btid_find p rmid btid else None) = None"
    and a: "tms_btid_addupd True p rmid btid st ec rs = (ret, btid', known, bt, p')"
  shows "ret = EXSUCCEED \<and> tl_wf p' \<and> (btid \<noteq> EXFAIL \<longrightarrow> btid' = btid) \<and> tms_btid_find p rmid btid' = None \<and> \<not> known \<and>
    bt = tms_btid_find p' rmid btid' \<and> bt = Some (registered rmid btid' st ec rs None) \<and>
    (\<forall>rmid' k. rmid_ok rmid' \<longrightarrow> (rmid', k) \<noteq> (rmid, btid') \<longrightarrow> tms_btid_find p' rmid' k = tms_btid_find p rmid' k)"
proof -
  obtain btid1 p1 where g: "(if btid = EXFAIL then tms_btid_gettid p rmid else (btid, p)) = (btid1, p1)"
    by (meson surj_pair)
  have "tl_wf p1 \<and> 0 \<le> btid1 \<and> btid1 < LONG_MAX \<and> tms_btid_find p rmid btid1 = None \<and> (btid \<noteq> EXFAIL \<longrightarrow> btid1 = btid) \<and>
      (\<forall>rmid' k. rmid_ok rmid' \<longrightarrow> tms_btid_find p1 rmid' k = tms_btid_find p rmid' k)"
  proof (cases "btid = EXFAIL")
    case True
    have b1: "btid1 = tidcounter (rm_at p rmid)" using g True by (simp add: tms_btid_gettid_def Let_def)
    have "tms_btid_gettid p rmid = (btid1, p1)" using g True by simp
    with True b1 assms(3) show ?thesis
      using gettid_fresh[OF assms(1,2), of btid1 p1] gettid_find[OF assms(1,2), of btid1 p1] by simp
  next
    case False
    with g have "btid1 = btid" "p1 = p" by simp_all
    with False assms(1,3,4) new show ?thesis by simp
  qed
  then have p1: "tl_wf p1" "0 \<le> btid1" "btid1 < LONG_MAX" "tms_btid_find p rmid btid1 = None" "btid \<noteq> EXFAIL \<longrightarrow> btid1 = btid"
    and same: "rmid_ok rmid' \<Longrightarrow> tms_btid_find p1 rmid' k = tms_btid_find p rmid' k" for rmid' k
    by simp_all
  obtain ret1 bt1 p2 where b: "tms_btid_add True p1 rmid btid1 st ec rs = (ret1, bt1, p2)"
    by (metis prod_cases3)
  have r: "ret = ret1" "btid' = btid1" "\<not> known" "bt = bt1" "p' = p2"
    using a by (simp_all add: tms_btid_addupd_def new g b)
  have no: "tms_btid_find p1 rmid btid1 = None" using same[OF assms(2)] p1(4) by simp
  show ?thesis
    using btid_add_ok[OF p1(1) assms(2) p1(2) no b p1(3)] btid_add_find_other[OF p1(1) assms(2) _ no b] same p1(4,5)
    by (auto simp: registered_def r)
qed

lemma addupd_known:
  assumes "tl_wf p" "rmid_ok rmid" "btid \<noteq> EXFAIL" and b: "tms_btid_find p rmid btid = Some b"
    and a: "tms_btid_addupd True p rmid btid st ec rs = (ret, btid', known, bt, p')"
  shows "ret = EXSUCCEED \<and> tl_wf p' \<and> btid' = btid \<and> known \<and>
    bt = tms_btid_find p' rmid btid \<and> bt = Some (registered rmid btid st ec rs (Some b)) \<and>
    (\<forall>rmid' k. rmid_ok rmid' \<longrightarrow> (rmid', k) \<noteq> (rmid, btid) \<longrightarrow> tms_btid_find p' rmid' k = tms_btid_find p rmid' k)"
proof -
  let ?b = "b\<lparr>bt_rmstatus := st, bt_rmerrorcode := ec, bt_rmreason := rs\<rparr>"
  have id: "bt_btid b = btid" using tms_btid_find_Some[OF b] by simp
  have rm: "bt_rmid b = rmid" using tms_btid_find_Some[OF b] tl_wf_rm_at[OF assms(1,2)] by (auto simp: rm_wf_def)
  have wf: "tl_wf (bt_put p rmid ?b)" using tl_wf_bt_put[OF assms(1,2), of ?b b] b id rm by simp
  have f: "tms_btid_find (bt_put p rmid ?b) rmid' k = (if rmid' = rmid \<and> k = btid then Some ?b else tms_btid_find p rmid' k)"
    if "rmid_ok rmid'" for rmid' k
    using tms_btid_find_put[OF assms(1,2) that, of ?b k] b id by auto
  have "(ret, btid', known, bt, p') = (EXSUCCEED, btid, True,
      if st \<noteq> XA_RM_STATUS_NULL then (Some ?b, bt_put p rmid ?b) else (Some b, p))"
    using a assms(3) b by (cases "st = XA_RM_STATUS_NULL") (simp_all add: tms_btid_addupd_def Let_def)
  then show ?thesis using assms(1,2) b wf f by (cases "st = XA_RM_STATUS_NULL") (auto simp: registered_def)
qed

lemma addupd_ok:
  assumes "tl_wf p" "rmid_ok rmid" "(if btid = EXFAIL then tidcounter (rm_at p rmid) else btid) < LONG_MAX" "btid \<ge> EXFAIL"
    and a: "tms_btid_addupd True p rmid btid st ec rs = (ret, btid', known, bt, p')"
  shows "ret = EXSUCCEED \<and> tl_wf p' \<and> (if btid = EXFAIL then tms_btid_find p rmid btid' = None else btid' = btid) \<and>
    (known \<longleftrightarrow> tms_btid_find p rmid btid' \<noteq> None) \<and> bt = tms_btid_find p' rmid btid' \<and>
    bt = Some (registered rmid btid' st ec rs (tms_btid_find p rmid btid')) \<and>
    (\<forall>rmid' k. rmid_ok rmid' \<longrightarrow> (rmid', k) \<noteq> (rmid, btid') \<longrightarrow> tms_btid_find p' rmid' k = tms_btid_find p rmid' k)"
proof (cases "if btid \<noteq> EXFAIL then tms_btid_find p rmid btid else None")
  case None
  from addupd_new[OF assms(1-4) this a] show ?thesis by auto
next
  case (Some b)
  then have f: "btid \<noteq> EXFAIL" "tms_btid_find p rmid btid = Some b" by (auto split: if_splits)
  from addupd_known[OF assms(1,2) f a] show ?thesis using f by auto
qed

section \<open>Properties\<close>

text \<open>C34: registering a branch does exactly that.  When memory is available the registration succeeds and the table stays well formed.  An
  id that was given is the one that is used, and an id that is asked for is not in use yet.  A known id is recognised; its branch gets the new status, unless
  the status is XA_RM_STATUS_NULL, and a new branch has what was given.  No other branch changes, of this resource manager or of another.  The branch
  id, or the counter it is taken from, is below the largest long.\<close>

theorem branch_registered:
  assumes "tl_wf p" "rmid_ok rmid" "(if btid = EXFAIL then tidcounter (rm_at p rmid) else btid) < LONG_MAX" "btid \<ge> EXFAIL"
  shows "case tms_btid_addupd True p rmid btid st ec rs of (ret, btid', known, bt, p') \<Rightarrow>
     ret = EXSUCCEED \<and> tl_wf p' \<and> (if btid = EXFAIL then tms_btid_find p rmid btid' = None else btid' = btid) \<and>
     (known \<longleftrightarrow> tms_btid_find p rmid btid' \<noteq> None) \<and> bt = tms_btid_find p' rmid btid' \<and>
     bt = Some (registered rmid btid' st ec rs (tms_btid_find p rmid btid')) \<and>
     (\<forall>rmid' k. rmid_ok rmid' \<longrightarrow> (rmid', k) \<noteq> (rmid, btid') \<longrightarrow> tms_btid_find p' rmid' k = tms_btid_find p rmid' k)"
  using addupd_ok[OF assms] by (auto split: prod.splits)

theorem branch_registered_witness:
  "case tms_btid_addupd True xa_log_zero 1 EXFAIL XA_RM_STATUS_ACTIVE 0 0 of (ret, btid', known, bt, p') \<Rightarrow>
     ret = EXSUCCEED \<and> tl_wf p' \<and> \<not> known \<and>
     tms_btid_find p' 1 btid' = Some \<lparr>bt_rmstatus = XA_RM_STATUS_ACTIVE, bt_rmerrorcode = 0, bt_rmreason = 0, bt_btid = btid', bt_rmid = 1\<rparr>"
proof -
  have "rmid_ok 1" "tidcounter (rm_at xa_log_zero 1) < LONG_MAX" by (simp_all add: rmid_ok_def rm_at_def xa_log_zero_def)
  then show ?thesis using branch_registered[OF tl_wf_zero, of 1 EXFAIL XA_RM_STATUS_ACTIVE 0 0] by (auto simp: registered_def split: prod.splits)
qed

end
