(* ===== verification/Crc32.thy ===== *)
theory Crc32
  imports Prelude
begin

unbundle bit_operations_syntax

text \<open>
  The checksum of libnstd/crc32.c.  The accumulator is an unsigned long in the
  source; all the values it takes from a 32 bit seed fit in 32 bits, so a 32 bit
  word stands for it.  The table-driven loop is shown equal to the bit-serial
  division by the reflected polynomial, and accumulation over two buffers equal to
  the checksum of their concatenation.
\<close>

definition crcTable :: "32 word list" where
  "crcTable = [
   0x00000000, 0x77073096, 0xEE0E612C, 0x990951BA, 0x076DC419, 0x706AF48F, 0xE963A535,
   0x9E6495A3, 0x0EDB8832, 0x79DCB8A4, 0xE0D5E91E, 0x97D2D988, 0x09B64C2B, 0x7EB17CBD,
   0xE7B82D07, 0x90BF1D91, 0x1DB71064, 0x6AB020F2, 0xF3B97148, 0x84BE41DE, 0x1ADAD47D,
   0x6DDDE4EB, 0xF4D4B551, 0x83D385C7, 0x136C9856, 0x646BA8C0, 0xFD62F97A, 0x8A65C9EC,
   0x14015C4F, 0x63066CD9, 0xFA0F3D63, 0x8D080DF5, 0x3B6E20C8, 0x4C69105E, 0xD56041E4,
   0xA2677172, 0x3C03E4D1, 0x4B04D447, 0xD20D85FD, 0xA50AB56B, 0x35B5A8FA, 0x42B2986C,
   0xDBBBC9D6, 0xACBCF940, 0x32D86CE3, 0x45DF5C75, 0xDCD60DCF, 0xABD13D59, 0x26D930AC,
   0x51DE003A, 0xC8D75180, 0xBFD06116, 0x21B4F4B5, 0x56B3C423, 0xCFBA9599, 0xB8BDA50F,
   0x2802B89E, 0x5F058808, 0xC60CD9B2, 0xB10BE924, 0x2F6F7C87, 0x58684C11, 0xC1611DAB,
   0xB6662D3D, 0x76DC4190, 0x01DB7106, 0x98D220BC, 0xEFD5102A, 0x71B18589, 0x06B6B51F,
   0x9FBFE4A5, 0xE8B8D433, 0x7807C9A2, 0x0F00F934, 0x9609A88E, 0xE10E9818, 0x7F6A0DBB,
   0x086D3D2D, 0x91646C97, 0xE6635C01, 0x6B6B51F4, 0x1C6C6162, 0x856530D8, 0xF262004E,
   0x6C0695ED, 0x1B01A57B, 0x8208F4C1, 0xF50FC457, 0x65B0D9C6, 0x12B7E950, 0x8BBEB8EA,
   0xFCB9887C, 0x62DD1DDF, 0x15DA2D49, 0x8CD37CF3, 0xFBD44C65, 0x4DB26158, 0x3AB551CE,
   0xA3BC0074, 0xD4BB30E2, 0x4ADFA541, 0x3DD895D7, 0xA4D1C46D, 0xD3D6F4FB, 0x4369E96A,
   0x346ED9FC, 0xAD678846, 0xDA60B8D0, 0x44042D73, 0x33031DE5, 0xAA0A4C5F, 0xDD0D7CC9,
   0x5005713C, 0x270241AA, 0xBE0B1010, 0xC90C2086, 0x5768B525, 0x206F85B3, 0xB966D409,
   0xCE61E49F, 0x5EDEF90E, 0x29D9C998, 0xB0D09822, 0xC7D7A8B4, 0x59B33D17, 0x2EB40D81,
   0xB7BD5C3B, 0xC0BA6CAD, 0xEDB88320, 0x9ABFB3B6, 0x03B6E20C, 0x74B1D29A, 0xEAD54739,
   0x9DD277AF, 0x04DB2615, 0x73DC1683, 0xE3630B12, 0x94643B84, 0x0D6D6A3E, 0x7A6A5AA8,
   0xE40ECF0B, 0x9309FF9D, 0x0A00AE27, 0x7D079EB1, 0xF00F9344, 0x8708A3D2, 0x1E01F268,
   0x6906C2FE, 0xF762575D, 0x806567CB, 0x196C3671, 0x6E6B06E7, 0xFED41B76, 0x89D32BE0,
   0x10DA7A5A, 0x67DD4ACC, 0xF9B9DF6F, 0x8EBEEFF9, 0x17B7BE43, 0x60B08ED5, 0xD6D6A3E8,
   0xA1D1937E, 0x38D8C2C4, 0x4FDFF252, 0xD1BB67F1, 0xA6BC5767, 0x3FB506DD, 0x48B2364B,
   0xD80D2BDA, 0xAF0A1B4C, 0x36034AF6, 0x41047A60, 0xDF60EFC3, 0xA867DF55, 0x316E8EEF,
   0x4669BE79, 0xCB61B38C, 0xBC66831A, 0x256FD2A0, 0x5268E236, 0xCC0C7795, 0xBB0B4703,
   0x220216B9, 0x5505262F, 0xC5BA3BBE, 0xB2BD0B28, 0x2BB45A92, 0x5CB36A04, 0xC2D7FFA7,
   0xB5D0CF31, 0x2CD99E8B, 0x5BDEAE1D, 0x9B64C2B0, 0xEC63F226, 0x756AA39C, 0x026D930A,
   0x9C0906A9, 0xEB0E363F, 0x72076785, 0x05005713, 0x95BF4A82, 0xE2B87A14, 0x7BB12BAE,
   0x0CB61B38, 0x92D28E9B, 0xE5D5BE0D, 0x7CDCEFB7, 0x0BDBDF21, 0x86D3D2D4, 0xF1D4E242,
   0x68DDB3F8, 0x1FDA836E, 0x81BE16CD, 0xF6B9265B, 0x6FB077E1, 0x18B74777, 0x88085AE6,
   0xFF0F6A70, 0x66063BCA, 0x11010B5C, 0x8F659EFF, 0xF862AE69, 0x616BFFD3, 0x166CCF45,
   0xA00AE278, 0xD70DD2EE, 0x4E048354, 0x3903B3C2, 0xA7672661, 0xD06016F7, 0x4969474D,
   0x3E6E77DB, 0xAED16A4A, 0xD9D65ADC, 0x40DF0B66, 0x37D83BF0, 0xA9BCAE53, 0xDEBB9EC5,
   0x47B2CF7F, 0x30B5FFE9, 0xBDBDF21C, 0xCABAC28A, 0x53B39330, 0x24B4A3A6, 0xBAD03605,
   0xCDD70693, 0x54DE5729, 0x23D967BF, 0xB3667A2E, 0xC4614AB8, 0x5D681B02, 0x2A6F2B94,
   0xB40BBE37, 0xC30C8EA1, 0x5A05DF1B, 0x2D02EF8D]"

definition crc_byte :: "32 word \<Rightarrow> char \<Rightarrow> 32 word" where
  "crc_byte crc c =
     drop_bit 8 crc XOR (crcTable ! unat ((crc XOR word_of_nat (of_char c)) AND 0xFF))"

definition ndrx_Crc32_ComputeBuf :: "32 word \<Rightarrow> string \<Rightarrow> 32 word" where
  "ndrx_Crc32_ComputeBuf inCrc32 buf = foldl crc_byte (inCrc32 XOR 0xFFFFFFFF) buf XOR 0xFFFFFFFF"

subsection \<open>The bit-serial reference\<close>

definition crc_bit :: "32 word \<Rightarrow> 32 word" where
  "crc_bit r = (if bit r 0 then drop_bit 1 r XOR 0xEDB88320 else drop_bit 1 r)"

definition crc_bits8 :: "32 word \<Rightarrow> 32 word" where
  "crc_bits8 r = crc_bit (crc_bit (crc_bit (crc_bit (crc_bit (crc_bit (crc_bit (crc_bit r)))))))"

definition crc_serial :: "32 word \<Rightarrow> string \<Rightarrow> 32 word" where
  "crc_serial seed buf =
     foldl (\<lambda>r c. crc_bits8 (r XOR word_of_nat (of_char c))) (seed XOR 0xFFFFFFFF) buf XOR 0xFFFFFFFF"

subsection \<open>Linearity\<close>

lemma crc_bit_alt: "crc_bit r = drop_bit 1 r XOR (if bit r 0 then 0xEDB88320 else 0)"
  by (simp add: crc_bit_def)

lemma crc_bit_xor: "crc_bit (a XOR b) = crc_bit a XOR crc_bit b"
proof -
  have c: "x XOR y XOR (x' XOR z) = x XOR x' XOR (y XOR z)" for x x' y z :: "32 word"
    by (simp add: ac_simps)
  show ?thesis
    unfolding crc_bit_alt bit_xor_iff drop_bit_xor
    by (cases "bit a 0"; cases "bit b 0") (simp_all add: ac_simps c)
qed

lemma crc_bits8_xor: "crc_bits8 (a XOR b) = crc_bits8 a XOR crc_bits8 b"
  by (simp add: crc_bits8_def crc_bit_xor)

lemma crc_bit_drop: "\<not> bit r n \<Longrightarrow> crc_bit (drop_bit n r) = drop_bit (n + 1) r"
  by (simp add: crc_bit_def bit_drop_bit_eq drop_bit_drop_bit)

lemma crc_bits8_high:
  fixes r :: "32 word"
  assumes "r AND 0xFF = 0"
  shows "crc_bits8 r = drop_bit 8 r"
proof -
  have mask: "(0xFF :: 32 word) = mask 8" by (simp add: mask_eq_exp_minus_1)
  have b: "\<not> bit r n" if "n < 8" for n
  proof -
    have "\<not> bit (r AND mask 8) n" using assms mask by simp
    then show ?thesis using that by (auto simp: bit_and_iff bit_mask_iff bit_imp_le_length not_le)
  qed
  have "crc_bit r = drop_bit 1 r" using b[of 0] crc_bit_drop[of r 0] by simp
  then show ?thesis
    unfolding crc_bits8_def by (simp add: b crc_bit_drop eval_nat_numeral)
qed

subsection \<open>The table\<close>

fun expand :: "32 word list \<Rightarrow> 32 word list" where
  "expand [] = [0]"
| "expand (b # bs) = (let t = expand bs in t @ map ((XOR) b) t)"

lemma crcTable_expand:
  "crcTable = expand [0xEDB88320, 0x76DC4190, 0x3B6E20C8, 0x1DB71064, 0x0EDB8832, 0x076DC419,
      0xEE0E612C, 0x77073096]"
  by (simp add: crcTable_def Let_def)


lemma bit_small: "m < 2 ^ k \<Longrightarrow> bit (word_of_nat m :: 32 word) i \<Longrightarrow> i < k"
  by (metis bit_of_nat_iff bit_take_bit_iff take_bit_nat_eq_self)

lemma length_expand: "length (expand bs) = 2 ^ length bs"
  by (induction bs) (auto simp: Let_def)

lemma expand_nth:
  assumes lin: "\<And>a b. f (a XOR b) = f a XOR f b"
    and "length bs \<le> 32" "\<And>i. i < length bs \<Longrightarrow> f (2 ^ i) = rev bs ! i"
    and "n < 2 ^ length bs"
  shows "expand bs ! n = f (word_of_nat n :: 32 word)"
  using assms(2-)
proof (induction bs arbitrary: n)
  case Nil
  have "f 0 = 0" using lin[of 0 0] by simp
  with Nil show ?case by simp
next
  case (Cons b bs)
  let ?k = "length bs"
  have f: "f (2 ^ i) = rev bs ! i" if "i < ?k" for i
    using Cons.prems(2)[of i] that by (simp add: nth_append)
  have fb: "f (2 ^ ?k) = b" using Cons.prems(2)[of ?k] by (simp add: nth_append)
  show ?case
  proof (cases "n < 2 ^ ?k")
    case True
    then show ?thesis using Cons.IH[of n] Cons.prems(1) f
      by (simp add: Let_def nth_append length_expand)
  next
    case False
    define m where "m = n - 2 ^ ?k"
    have m: "m < 2 ^ ?k" "n = m + 2 ^ ?k" using False Cons.prems(3) by (auto simp: m_def)
    have "bit (word_of_nat m :: 32 word) i \<Longrightarrow> i < ?k" for i
      using m(1) by (rule bit_small)
    then have "(word_of_nat m :: 32 word) AND 2 ^ ?k = 0"
      by (intro bit_word_eqI) (auto simp: bit_and_iff bit_exp_iff)
    then have "(word_of_nat n :: 32 word) = 2 ^ ?k XOR word_of_nat m"
      using m(2) by (simp add: disjunctive_add_eq_xor[symmetric] and.commute add.commute)
    then show ?thesis using False Cons.IH[of m] Cons.prems(1) f m fb lin
      by (simp add: Let_def nth_append length_expand)
  qed
qed

lemma crc_basis:
  "i < 8 \<Longrightarrow> crc_bits8 (2 ^ i) = rev [0xEDB88320, 0x76DC4190, 0x3B6E20C8, 0x1DB71064,
     0x0EDB8832, 0x076DC419, 0xEE0E612C, 0x77073096] ! i"
proof -
  assume "i < 8"
  then consider "i = 0" | "i = 1" | "i = 2" | "i = 3" | "i = 4" | "i = 5" | "i = 6" | "i = 7"
    by linarith
  then show ?thesis by cases (simp_all add: crc_bits8_def crc_bit_def)
qed

lemma crcTable_nth: "n < 256 \<Longrightarrow> crcTable ! n = crc_bits8 (word_of_nat n)"
  unfolding crcTable_expand
  by (rule expand_nth) (auto simp: crc_bits8_xor crc_basis)

lemma crc_byte_serial: "crc_byte r c = crc_bits8 (r XOR word_of_nat (of_char c))"
proof -
  define x where "x = r XOR (word_of_nat (of_char c) :: 32 word)"
  have mask: "(0xFF :: 32 word) = mask 8" by (simp add: mask_eq_exp_minus_1)
  have split: "x = (x AND mask 8) XOR (x AND NOT (mask 8))"
    by (rule bit_word_eqI) (auto simp: bit_and_iff bit_xor_iff bit_not_iff)
  have lo: "unat (x AND mask 8) < 256"
    using word_and_le1[of x "mask 8"] by (simp add: word_le_nat_alt mask[symmetric])
  have "of_char c < (2::nat) ^ 8" by simp
  from bit_small[OF this] have c8: "bit (word_of_nat (of_char c) :: 32 word) i \<Longrightarrow> i < 8" for i .
  have hi: "drop_bit 8 (x AND NOT (mask 8)) = drop_bit 8 r"
    by (rule bit_word_eqI)
      (auto simp: x_def bit_drop_bit_eq bit_and_iff bit_xor_iff bit_not_iff bit_mask_iff dest!: c8
        dest: bit_imp_le_length)
  have "crc_bits8 x = crc_bits8 (x AND mask 8) XOR crc_bits8 (x AND NOT (mask 8))"
    by (subst split) (rule crc_bits8_xor)
  also have "crc_bits8 (x AND NOT (mask 8)) = drop_bit 8 r"
    using crc_bits8_high[of "x AND NOT (mask 8)"] hi by (simp add: mask and.assoc)
  also have "crc_bits8 (x AND mask 8) = crcTable ! unat (x AND mask 8)"
    using crcTable_nth[OF lo] by simp
  finally show ?thesis by (simp add: crc_byte_def x_def mask xor.commute)
qed

lemma crc_serial: "ndrx_Crc32_ComputeBuf seed buf = crc_serial seed buf"
  by (simp add: ndrx_Crc32_ComputeBuf_def crc_serial_def crc_byte_serial[abs_def])

lemma crc_append:
  "ndrx_Crc32_ComputeBuf (ndrx_Crc32_ComputeBuf seed a) b = ndrx_Crc32_ComputeBuf seed (a @ b)"
  by (simp add: ndrx_Crc32_ComputeBuf_def xor.assoc)

section \<open>Properties\<close>

text \<open>C15: the table-driven checksum of the log lines is the bit-serial CRC-32 with the reflected
  polynomial EDB88320: all 256 entries of the table are the right ones.\<close>

theorem crc_table_correct: "ndrx_Crc32_ComputeBuf seed buf = crc_serial seed buf"
  by (rule crc_serial)

end
