(* ===== verification/Tm_Log.thy ===== *)
theory Tm_Log
  imports Tm_Btid Crc32
begin

text \<open>
  The journal of the transaction manager, writing side (tmsrv/log.c): locking of the
  entries, the log file of a transaction and its lines, the check of the singleton
  group lock, the change of the transaction stage and of a branch status.  Functions
  that may end the process return an \<open>outcome\<close>; the others return their value and
  the state.  The reading side is in Tm_Recover.
\<close>

section \<open>Entries and their locks\<close>

definition tms_unlock_entry :: "tm_env \<Rightarrow> xa_log \<Rightarrow> tm_st \<Rightarrow> int \<times> xa_log \<times> tm_st" where
  "tms_unlock_entry E p_tl s =
    (if e_tid E \<noteq> tl_lockthreadid p_tl then (EXFAIL, p_tl, hash_put p_tl s)
     else let p1 = p_tl\<lparr>tl_lockthreadid := 0\<rparr> in (EXSUCCEED, p1, hash_put p1 s))"

definition tms_gen_file_name :: "tm_env \<Rightarrow> string \<Rightarrow> string" where
  "tms_gen_file_name E tmxid = take 4096
     (e_tlog_dir E @ ''/TRN-'' @ fmt_d (e_vnodeid E) @ ''-'' @ fmt_d (e_xa_rmid E) @ ''-'' @
      fmt_d (e_srv_id E) @ ''-'' @ tmxid)"

definition tms_log_exists_file :: "tm_env \<Rightarrow> string \<Rightarrow> tm_st \<Rightarrow> int \<times> tm_st" where
  "tms_log_exists_file E tmxid s =
    (let fname = tms_gen_file_name E tmxid in
     if \<not> e_access E (st_tick s) then (EXFAIL, tick s)
     else if st_disk s fname \<noteq> None then (1, tick s) else (0, tick s))"

definition tms_log_exists_entry :: "string \<Rightarrow> tm_st \<Rightarrow> bool" where
  "tms_log_exists_entry tmxid s = (hash_find tmxid s \<noteq> None)"

text \<open>The restart loop of tms_log_get_entry.  The list is what the table looks like at each
  visit, the first element being the table now; the later ones are what the other threads
  have left after each sleep of 100 ms.  The list ends when the time to wait is over.\<close>

fun get_entry_restart ::
  "int \<Rightarrow> string \<Rightarrow> xa_log list \<Rightarrow> xa_log list list \<Rightarrow> xa_log option \<times> bool \<times> xa_log list" where
  "get_entry_restart tid tmxid h rest =
    (case ex_find tl_tmxid tmxid h of
       None \<Rightarrow> (None, False, h)
     | Some r \<Rightarrow>
         if tl_lockthreadid r \<noteq> 0
         then (case rest of [] \<Rightarrow> (None, True, h) | h' # rest' \<Rightarrow> get_entry_restart tid tmxid h' rest')
         else let r1 = r\<lparr>tl_lockthreadid := tid\<rparr>
              in (Some r1, False, ex_upd tl_tmxid tmxid (\<lambda>_. r1) h))"

text \<open>Result: the entry, whether it was there but locked, the state.\<close>

definition tms_log_get_entry :: "tm_env \<Rightarrow> string \<Rightarrow> int \<Rightarrow> tm_st \<Rightarrow> xa_log option \<times> bool \<times> tm_st" where
  "tms_log_get_entry E tmxid dowait s =
    (case get_entry_restart (e_tid E) tmxid (st_hash s)
            (if dowait \<noteq> 0 then take (nat (dowait div 100)) (e_polls E (st_tick s)) else []) of
       (r, locke, h) \<Rightarrow> (r, locke, tick (s\<lparr>st_hash := h\<rparr>)))"

section \<open>The singleton group lock\<close>

definition tms_log_setseq :: "tm_env \<Rightarrow> xa_log \<Rightarrow> tm_st \<Rightarrow> (tm_st, int \<times> xa_log) outcome" where
  "tms_log_setseq E p_tl s =
    (if e_procgrp_no E = 0 then Ret (EXSUCCEED, p_tl) s
     else case e_sglocked E (st_tick s) of (seq, singleton) \<Rightarrow>
       let p1 = p_tl\<lparr>tl_sg_sequence := seq\<rparr>; s1 = tick s in
       if seq = EXFAIL then Ret (EXFAIL, p1) s1
       else if singleton \<and> seq \<le> 0 then Exit EXFAIL s1
       else Ret (EXSUCCEED, p1) s1)"

definition tms_log_checkpointseq ::
  "tm_env \<Rightarrow> xa_log option \<Rightarrow> tm_st \<Rightarrow> (tm_st, int \<times> xa_log option) outcome" where
  "tms_log_checkpointseq E p_tl s =
    (if e_procgrp_no E = 0 then Ret (EXSUCCEED, p_tl) s
     else case e_sglocked E (st_tick s) of (seq, singleton) \<Rightarrow>
       let s1 = tick s in
       if seq < 0 then Ret (EXFAIL, p_tl) s1
       else if singleton \<and> seq = 0 then Exit EXFAIL s1
       else (case p_tl of
           None \<Rightarrow> Ret (EXSUCCEED, None) s1
         | Some p \<Rightarrow>
             if singleton \<and> seq - tl_sg_sequence p \<ge> e_sglockinc E then Exit EXFAIL s1
             else Ret (EXSUCCEED, Some (p\<lparr>tl_sg_sequence := seq\<rparr>)) s1))"

section \<open>Log files\<close>

definition tms_get_file_name :: "tm_env \<Rightarrow> xa_log \<Rightarrow> xa_log" where
  "tms_get_file_name E p_tl = p_tl\<lparr>tl_fname := tms_gen_file_name E (tl_tmxid p_tl)\<rparr>"

text \<open>Both modes the code uses (a, a+) create a missing file and keep an existing one.\<close>

definition tms_open_logfile :: "tm_env \<Rightarrow> xa_log \<Rightarrow> tm_st \<Rightarrow> int \<times> xa_log \<times> tm_st" where
  "tms_open_logfile E p_tl s =
    (let p1 = (if tl_fname p_tl = [] then tms_get_file_name E p_tl else p_tl) in
     if tl_f p1 then (EXSUCCEED, p1, s)
     else if e_lockloss E \<or> \<not> e_fopen E (st_tick s) then (EXFAIL, p1, tick s)
     else (EXSUCCEED, p1\<lparr>tl_f := True\<rparr>,
           tick (s\<lparr>st_disk := (st_disk s)(tl_fname p1 \<mapsto>
                      (case st_disk s (tl_fname p1) of None \<Rightarrow> [] | Some c \<Rightarrow> c))\<rparr>)))"

definition tms_is_logfile_open :: "xa_log \<Rightarrow> bool" where
  "tms_is_logfile_open p_tl = tl_f p_tl"

definition tms_close_logfile :: "xa_log \<Rightarrow> xa_log" where
  "tms_close_logfile p_tl = (if tl_f p_tl then p_tl\<lparr>tl_f := False\<rparr> else p_tl)"

definition tms_housekeep :: "tm_env \<Rightarrow> string \<Rightarrow> tm_st \<Rightarrow> bool \<times> tm_st" where
  "tms_housekeep E logfile s =
    (if e_file_age E (st_tick s) > e_housekeeptime E
     then (if e_lockloss E \<or> \<not> e_unlink E (st_tick s) then (False, tick s)
           else (True, emit (EvUnlink logfile) (tick (s\<lparr>st_disk := (st_disk s)(logfile := None)\<rparr>))))
     else (False, tick s))"

text \<open>The memory of the entry and of its branches is released; the entry is no longer in
  the table when it was there.\<close>

definition tms_remove_logfree :: "xa_log \<Rightarrow> bool \<Rightarrow> tm_st \<Rightarrow> tm_st" where
  "tms_remove_logfree p_tl hash_rm s = (if hash_rm then hash_del p_tl s else s)"

definition tms_remove_logfile :: "tm_env \<Rightarrow> xa_log \<Rightarrow> bool \<Rightarrow> tm_st \<Rightarrow> tm_st" where
  "tms_remove_logfile E p_tl hash_rm s =
    (let have_file = (tms_is_logfile_open p_tl \<or> st_disk s (tl_fname p_tl) \<noteq> None);
         p1 = (if tms_is_logfile_open p_tl then tms_close_logfile p_tl else p_tl);
         s1 = (if have_file
               then (if e_lockloss E \<or> \<not> e_unlink E (st_tick s) then tick s
                     else emit (EvUnlink (tl_fname p1))
                            (tick (s\<lparr>st_disk := (st_disk s)(tl_fname p1 := None)\<rparr>)))
               else s)
     in tms_remove_logfree p1 hash_rm s1)"

section \<open>Log lines\<close>

text \<open>The text of a line before its checksum (msg2 of tms_log_write_line).\<close>

definition log_text :: "int \<Rightarrow> char \<Rightarrow> string \<Rightarrow> string" where
  "log_text tstamp command msg =
     c_str (take LOG_MAX (fmt_d tstamp @ '':'' @ [command] @ '':'' @ c_str (take LOG_MAX msg)))"

definition log_crc :: "string \<Rightarrow> int" where
  "log_crc txt = uint (ndrx_Crc32_ComputeBuf 0 txt)"

text \<open>What fprintf puts into the file, and the length the code expects.\<close>

definition log_line :: "int \<Rightarrow> bool \<Rightarrow> string \<Rightarrow> string \<times> int" where
  "log_line version make_error msg2 =
    (let len = int (length msg2) in
     if version = LOG_VERSION_1
     then (msg2 @ [NL], if make_error then len + 1 + 1 else len + 1)
     else (msg2 @ [LOG_RS_SEP] @
             hex_pad 8 (if make_error then log_crc msg2 + 1 else log_crc msg2) @ [NL],
           if make_error then len + 8 + 1 + 1 + 1 else len + 8 + 1 + 1))"

text \<open>One fprintf followed by one fflush.  When one of them fails, the environment says how
  many bytes reached the file.\<close>

definition log_output :: "tm_env \<Rightarrow> string \<Rightarrow> string \<Rightarrow> tm_st \<Rightarrow> int \<times> bool \<times> tm_st" where
  "log_output E fname txt s =
    (if e_lockloss E then (EXFAIL, False, tick s)
     else let t = st_tick s; pok = e_fprintf E t; fok = e_fflush E t;
              out = (if pok \<and> fok then txt else take (e_written E t) txt)
          in (if pok then int (length txt) else EXFAIL, fok, tick (disk_append fname out s)))"

definition tms_log_write_line :: "tm_env \<Rightarrow> xa_log \<Rightarrow> char \<Rightarrow> string \<Rightarrow> tm_st \<Rightarrow> int \<times> tm_st" where
  "tms_log_write_line E p_tl command msg s =
    (if e_tid E \<noteq> tl_lockthreadid p_tl then (EXFAIL, s)
     else if \<not> tl_f p_tl then (EXSUCCEED, s)
     else let msg2 = log_text (e_clock E (st_tick s)) command msg;
              make_error = (st_write_fail s = 1 \<or>
                            st_write_fail s = 2 \<and> e_rand E (st_tick s) mod 4 = 0);
              (txt, exp) = log_line (tl_log_version p_tl) make_error msg2;
              (wrote, flushed, s1) = log_output E (tl_fname p_tl) txt s
          in (if wrote \<noteq> exp \<or> \<not> flushed then EXFAIL else EXSUCCEED, s1))"

text \<open>%hd:%hd:%hd:%ld:%s with an empty list of resource managers.\<close>

definition info_msg :: "xa_log \<Rightarrow> string" where
  "info_msg p_tl = fmt_d (tl_tmrmid p_tl) @ '':'' @ fmt_d (tl_tmnodeid p_tl) @ '':'' @
     fmt_d (tl_tmsrvid p_tl) @ '':'' @ fmt_d (tl_txtout p_tl) @ '':''"

definition tms_log_info :: "tm_env \<Rightarrow> xa_log \<Rightarrow> tm_st \<Rightarrow> int \<times> tm_st" where
  "tms_log_info E p_tl s =
    (if e_tid E \<noteq> tl_lockthreadid p_tl then (EXFAIL, s)
     else tms_log_write_line E p_tl LOG_COMMAND_J (info_msg p_tl) s)"

text \<open>ndrx_fsync_fsync on the log file, then ndrx_fsync_dsync on its directory.\<close>

definition log_sync :: "tm_env \<Rightarrow> xa_log \<Rightarrow> tm_st \<Rightarrow> int \<times> tm_st" where
  "log_sync E p_tl s =
    (if e_lockloss E then (EXFAIL, s)
     else case ndrx_fsync_fsync (tl_f p_tl) (e_fileno E (st_tick s)) (e_fsync E (st_tick s)) (e_fsync_flags E) of
       (ret, ops1) \<Rightarrow>
         if ret \<noteq> EXSUCCEED then (EXFAIL, tick s)
         else case ndrx_fsync_dsync (e_tlog_dir E) (e_opendir E (st_tick s)) (e_dsync E (st_tick s)) (e_fsync_flags E) of
           (ret, ops2) \<Rightarrow>
             if ret \<noteq> EXSUCCEED then (EXFAIL, emit (EvSync (tl_fname p_tl) ops1) (tick s))
             else (EXSUCCEED, emit (EvSync (tl_fname p_tl) (ops1 @ ops2)) (tick s)))"

text \<open>The write loop of tms_log_stage.\<close>

fun log_stage_lines :: "tm_env \<Rightarrow> xa_log \<Rightarrow> int \<Rightarrow> nat \<Rightarrow> tm_st \<Rightarrow> int \<times> tm_st" where
  "log_stage_lines E p_tl stage 0 s = (EXSUCCEED, s)"
| "log_stage_lines E p_tl stage (Suc n) s =
    (case tms_log_write_line E p_tl LOG_COMMAND_STAGE (fmt_d stage) s of
       (ret, s1) \<Rightarrow> if ret \<noteq> EXSUCCEED then (EXFAIL, s1) else log_stage_lines E p_tl stage n s1)"

text \<open>The part of tms_log_stage between the crash test points and the label out.\<close>

definition log_stage_write :: "tm_env \<Rightarrow> xa_log \<Rightarrow> int \<Rightarrow> tm_st \<Rightarrow> (tm_st, int \<times> xa_log) outcome" where
  "log_stage_write E p1 stage s1 =
    andthen (if stage = XA_TX_STAGE_COMMITTING then tms_log_checkpointseq E (Some p1) s1
             else Ret (EXSUCCEED, Some p1) s1)
    (\<lambda>(ret, po) s2. let p2 = the po in
      if ret \<noteq> EXSUCCEED then Ret (EXFAIL, p2) s2
      else case log_stage_lines E p2 stage (if stage = XA_TX_STAGE_ABORTING then 3 else 1) s2 of
        (ret, s3) \<Rightarrow>
          if ret \<noteq> EXSUCCEED then Ret (EXFAIL, p2) s3
          else if stage = XA_TX_STAGE_COMMITTING \<or> stage = XA_TX_STAGE_ABORTING
          then (case log_sync E p2 s3 of (ret, s4) \<Rightarrow>
                 if ret \<noteq> EXSUCCEED then Ret (EXFAIL, p2) s4
                 else andthen (tms_log_checkpointseq E (Some p2) s4)
                   (\<lambda>(ret, po) s5. Ret (if ret \<noteq> EXSUCCEED then EXFAIL else EXSUCCEED, the po) s5))
          else Ret (EXSUCCEED, p2) s3)"

definition tms_log_stage ::
  "tm_env \<Rightarrow> xa_log \<Rightarrow> int \<Rightarrow> bool \<Rightarrow> tm_st \<Rightarrow> (tm_st, int \<times> xa_log) outcome" where
  "tms_log_stage E p_tl stage forced s =
    (if e_tid E \<noteq> tl_lockthreadid p_tl then Ret (EXFAIL, p_tl) s
     else if tl_txstage p_tl = stage then Ret (EXSUCCEED, p_tl) s
     else
       let stage_org = tl_txstage p_tl;
           p1 = p_tl\<lparr>tl_txstage := stage\<rparr>;
           crash_stage = e_commit_crash E mod 100;
           crash_class = e_commit_crash E div 100;
           make_crash = (stage > 0 \<and> crash_class = 0 \<and> stage = crash_stage);
           s1 = (if make_crash then s\<lparr>st_write_fail := 1\<rparr> else s)
       in andthen (if stage > 0 \<and> crash_class = 1 \<and> stage = crash_stage then Ret (EXFAIL, p1) s1
                   else log_stage_write E p1 stage s1)
          (\<lambda>(ret, p2) s2.
            if make_crash then Exit 1 s2
            else if forced then Ret (EXSUCCEED, p2) s2
            else if ret \<noteq> EXSUCCEED \<and> stage_org \<noteq> EXFAIL
            then Ret (ret, p2\<lparr>tl_txstage := stage_org\<rparr>) s2
            else Ret (ret, p2) s2))"

text \<open>%hd:%c:%d:%hd:%ld\<close>

definition rmstatus_msg :: "int \<Rightarrow> char \<Rightarrow> int \<Rightarrow> int \<Rightarrow> int \<Rightarrow> string" where
  "rmstatus_msg rmid rmstatus rmerrorcode rmreason btid =
     fmt_d rmid @ '':'' @ [rmstatus] @ '':'' @ fmt_d rmerrorcode @ '':'' @ fmt_d rmreason @ '':'' @
     fmt_d btid"

text \<open>The branch is \<open>el\<close> of the table with index \<open>rmid - 1\<close>.\<close>

definition tms_log_rmstatus ::
  "tm_env \<Rightarrow> xa_log \<Rightarrow> int \<Rightarrow> rm_status_btid \<Rightarrow> char \<Rightarrow> int \<Rightarrow> int \<Rightarrow> tm_st \<Rightarrow> int \<times> xa_log \<times> tm_st" where
  "tms_log_rmstatus E p_tl rmid bt rmstatus rmerrorcode rmreason s =
    (if e_tid E \<noteq> tl_lockthreadid p_tl then (EXFAIL, p_tl, s)
     else let do_log = (bt_rmstatus bt \<noteq> rmstatus);
              bt1 = bt\<lparr>bt_rmstatus := rmstatus, bt_rmerrorcode := rmerrorcode,
                       bt_rmreason := to_short rmreason\<rparr>;
              p1 = bt_put p_tl rmid bt1
          in if do_log
             then (case tms_log_write_line E p1 LOG_COMMAND_RMSTAT
                          (rmstatus_msg (bt_rmid bt) rmstatus rmerrorcode (to_short rmreason)
                             (bt_btid bt)) s of
                     (ret, s1) \<Rightarrow> (if ret \<noteq> EXSUCCEED then EXFAIL else EXSUCCEED, p1, s1))
             else (EXSUCCEED, p1, s))"

section \<open>What the journal functions change\<close>

declare get_entry_restart.simps [simp del]

text \<open>The bytes a list of events appends to a file.\<close>

fun written :: "string \<Rightarrow> tm_event list \<Rightarrow> string" where
  "written f [] = []"
| "written f (EvWrite g txt # evs) = (if g = f then txt @ written f evs else written f evs)"
| "written f (ev # evs) = written f evs"

lemma log_crc_nn [simp]: "0 \<le> log_crc x" "0 \<le> log_crc x + 1"
  by (simp_all add: log_crc_def)

lemma log_crc_32: "log_crc x < 4294967296"
  using uint_bounded[of "ndrx_Crc32_ComputeBuf 0 x"] by (simp add: log_crc_def)

lemma log_crc_ulong [simp]: "log_crc x \<le> ULONG_MAX" "log_crc x + 1 \<le> ULONG_MAX"
  using log_crc_32[of x] by simp_all

lemma written_append [simp]: "written f (xs @ ys) = written f xs @ written f ys"
  by (induction f xs rule: written.induct) auto

text \<open>From one state to the next, only the log file \<open>f\<close> changes on disk, the table and the test
  flag stay, and the trace grows by events that satisfy \<open>P\<close>; what the events write is what the
  file gets.\<close>

definition journal_step :: "string \<Rightarrow> (tm_event \<Rightarrow> bool) \<Rightarrow> tm_st \<Rightarrow> tm_st \<Rightarrow> bool" where
  "journal_step f P s s' \<longleftrightarrow> st_hash s' = st_hash s \<and> st_write_fail s' = st_write_fail s \<and>
     (\<forall>g. g \<noteq> f \<longrightarrow> st_disk s' g = st_disk s g) \<and>
     (\<exists>evs. st_trace s' = st_trace s @ evs \<and> list_all P evs \<and>
        (\<forall>c. st_disk s f = Some c \<longrightarrow> st_disk s' f = Some (c @ written f evs)))"

definition log_ev :: "string \<Rightarrow> tm_event \<Rightarrow> bool" where
  "log_ev f ev = (case ev of EvWrite g _ \<Rightarrow> g = f | EvSync g _ \<Rightarrow> g = f | _ \<Rightarrow> False)"

lemma journal_step_refl [simp, intro]: "journal_step f P s s"
  by (force simp: journal_step_def)

lemma journal_step_trans [trans]:
  assumes "journal_step f P s1 s2" "journal_step f P s2 s3"
  shows "journal_step f P s1 s3"
proof -
  obtain e1 e2 where "st_trace s2 = st_trace s1 @ e1" "list_all P e1"
      "\<forall>c. st_disk s1 f = Some c \<longrightarrow> st_disk s2 f = Some (c @ written f e1)"
      "st_trace s3 = st_trace s2 @ e2" "list_all P e2"
      "\<forall>c. st_disk s2 f = Some c \<longrightarrow> st_disk s3 f = Some (c @ written f e2)"
    using assms by (auto simp: journal_step_def)
  then show ?thesis using assms unfolding journal_step_def
    by (intro conjI exI[of _ "e1 @ e2"]) auto
qed

lemma journal_step_mono:
  "journal_step f P s s' \<Longrightarrow> (\<And>ev. P ev \<Longrightarrow> Q ev) \<Longrightarrow> journal_step f Q s s'"
  unfolding journal_step_def by (metis (mono_tags, lifting) list_all_iff)

lemma journal_step_tick [simp]: "journal_step f P s (tick s') \<longleftrightarrow> journal_step f P s s'"
  by (simp add: journal_step_def)

text \<open>The same up to the test flag, which a simulated crash sets before the process ends.\<close>

definition journal_end :: "string \<Rightarrow> (tm_event \<Rightarrow> bool) \<Rightarrow> tm_st \<Rightarrow> tm_st \<Rightarrow> bool" where
  "journal_end f P s s' \<longleftrightarrow> (\<exists>n. journal_step f P (s\<lparr>st_write_fail := n\<rparr>) s')"

lemma journal_step_end: "journal_step f P s s' \<Longrightarrow> journal_end f P s s'"
  unfolding journal_end_def by (rule exI[of _ "st_write_fail s"]) simp

lemma journal_endI: "journal_step f P (s\<lparr>st_write_fail := n\<rparr>) s' \<Longrightarrow> journal_end f P s s'"
  by (auto simp: journal_end_def)

lemma journal_end_trans:
  assumes "journal_step f P s1 s2" "journal_end f P s2 s3"
  shows "journal_end f P s1 s3"
proof -
  obtain n where n: "journal_step f P (s2\<lparr>st_write_fail := n\<rparr>) s3"
    using assms(2) by (auto simp: journal_end_def)
  have "journal_step f P (s1\<lparr>st_write_fail := n\<rparr>) (s2\<lparr>st_write_fail := n\<rparr>)"
    using assms(1) by (auto simp: journal_step_def)
  from journal_step_trans[OF this n] show ?thesis by (auto simp: journal_end_def)
qed

lemma journal_end_mono:
  "journal_end f P s s' \<Longrightarrow> (\<And>ev. P ev \<Longrightarrow> Q ev) \<Longrightarrow> journal_end f Q s s'"
  unfolding journal_end_def by (meson journal_step_mono)

lemma journal_step_append: "P (EvWrite f txt) \<Longrightarrow> journal_step f P s (disk_append f txt s)"
  by (auto simp: journal_step_def)

lemma journal_step_sync: "P (EvSync f ops) \<Longrightarrow> journal_step f P s (emit (EvSync f ops) s)"
  by (auto simp: journal_step_def)

text \<open>Entries that differ in the sequence of the singleton lock only.\<close>

definition seq_only :: "xa_log \<Rightarrow> xa_log \<Rightarrow> bool" where
  "seq_only p p' \<longleftrightarrow> (\<exists>q. p' = p\<lparr>tl_sg_sequence := q\<rparr>)"

lemma seq_only_refl [simp, intro]: "seq_only p p"
  unfolding seq_only_def by (rule exI[of _ "tl_sg_sequence p"]) simp

lemma seq_only_trans: "seq_only p q \<Longrightarrow> seq_only q r \<Longrightarrow> seq_only p r"
  by (auto simp: seq_only_def)

lemma seq_only_fields:
  "seq_only p p' \<Longrightarrow> tl_txstage p' = tl_txstage p \<and> tl_fname p' = tl_fname p \<and> tl_f p' = tl_f p \<and>
     tl_lockthreadid p' = tl_lockthreadid p \<and> tl_rmstatus p' = tl_rmstatus p \<and>
     tl_log_version p' = tl_log_version p \<and> tl_tmxid p' = tl_tmxid p"
  by (auto simp: seq_only_def)

lemma checkpoint_ores:
  "ores (\<lambda>(ret, po) s'. journal_step f P s s' \<and> (\<exists>p'. po = Some p' \<and> seq_only p p'))
     (journal_step f P s) (tms_log_checkpointseq E (Some p) s)"
  by (auto simp: tms_log_checkpointseq_def Let_def seq_only_def[of p "p\<lparr>tl_sg_sequence := q\<rparr>" for q]
      split: prod.splits)

lemma write_line_step: "journal_step (tl_fname p) (log_ev (tl_fname p)) s (snd (tms_log_write_line E p cmd msg s))"
  by (auto simp: tms_log_write_line_def log_output_def Let_def log_ev_def
      intro!: journal_step_append split: prod.splits)

lemma stage_lines_step:
  "journal_step (tl_fname p) (log_ev (tl_fname p)) s (snd (log_stage_lines E p stage n s))"
proof (induction n arbitrary: s)
  case (Suc n)
  obtain ret s1 where w: "tms_log_write_line E p LOG_COMMAND_STAGE (fmt_d stage) s = (ret, s1)"
    by (meson surj_pair)
  have "journal_step (tl_fname p) (log_ev (tl_fname p)) s s1"
    using write_line_step[of p s E LOG_COMMAND_STAGE "fmt_d stage"] w by simp
  then show ?case using Suc.IH[of s1] w by (auto intro: journal_step_trans)
qed simp

lemma sync_step: "journal_step (tl_fname p) (log_ev (tl_fname p)) s (snd (log_sync E p s))"
  by (auto simp: log_sync_def log_ev_def journal_step_def split: prod.splits)

lemma rmstatus_step:
  "journal_step (tl_fname p) (log_ev (tl_fname p)) s
     (snd (snd (tms_log_rmstatus E p rmid bt st ec rs s)))"
proof -
  let ?b = "bt\<lparr>bt_rmstatus := st, bt_rmerrorcode := ec, bt_rmreason := to_short rs\<rparr>"
  obtain ret s1 where w: "tms_log_write_line E (bt_put p rmid ?b) LOG_COMMAND_RMSTAT
      (rmstatus_msg (bt_rmid bt) st ec (to_short rs) (bt_btid bt)) s = (ret, s1)"
    by (meson surj_pair)
  have "tl_fname (bt_put p rmid ?b) = tl_fname p" by (simp add: bt_put_def)
  with write_line_step[of "bt_put p rmid ?b" s E LOG_COMMAND_RMSTAT] w
  have "journal_step (tl_fname p) (log_ev (tl_fname p)) s s1" by (metis snd_conv)
  then show ?thesis using w by (simp add: tms_log_rmstatus_def Let_def)
qed

lemma stage_write_ores:
  "ores (\<lambda>(ret, p') s'. journal_step (tl_fname p) (log_ev (tl_fname p)) s s' \<and> seq_only p p')
     (journal_step (tl_fname p) (log_ev (tl_fname p)) s) (log_stage_write E p stage s)"
    (is "ores ?Q ?R _")
proof -
  have cp: "ores (\<lambda>(ret, po) s'. ?R s' \<and> (\<exists>p'. po = Some p' \<and> seq_only p p')) ?R
     (if stage = XA_TX_STAGE_COMMITTING then tms_log_checkpointseq E (Some p) s
      else Ret (EXSUCCEED, Some p) s)"
    using checkpoint_ores by simp
  have ln: "?R (snd (log_stage_lines E p2 stage n s2))" if "?R s2" "seq_only p p2" for p2 n s2
    using that stage_lines_step[of p2 s2 E stage n] journal_step_trans
    by (fastforce simp: seq_only_fields)
  have sy: "?R (snd (log_sync E p2 s3))" if "?R s3" "seq_only p p2" for p2 s3
    using that sync_step[of p2 s3 E] journal_step_trans by (fastforce simp: seq_only_fields)
  have cp2: "ores (\<lambda>(ret, po) s'. ?R s' \<and> (\<exists>p'. po = Some p' \<and> seq_only p p')) ?R
     (tms_log_checkpointseq E (Some p2) s4)" if "?R s4" "seq_only p p2" for p2 s4
    by (rule ores_mono[OF checkpoint_ores[of "tl_fname p" "log_ev (tl_fname p)" s4 p2 E]])
      (use that in \<open>auto intro: journal_step_trans seq_only_trans\<close>)
  show ?thesis
    unfolding log_stage_write_def ores_andthen
  proof (rule ores_mono[OF cp], goal_cases)
    case (1 a s2)
    then obtain ret p2 where a: "a = (ret, Some p2)" "?R s2" "seq_only p p2" by auto
    obtain r3 s3 where l: "log_stage_lines E p2 stage (if stage = XA_TX_STAGE_ABORTING then 3 else 1) s2
        = (r3, s3)" by (meson surj_pair)
    obtain r4 s4 where y: "log_sync E p2 s3 = (r4, s4)" by (meson surj_pair)
    have R3: "?R s3" using ln[OF a(2,3)] l by (metis snd_conv)
    have R4: "?R s4" using sy[OF R3 a(3)] y by (metis snd_conv)
    have "ores ?Q ?R (andthen (tms_log_checkpointseq E (Some p2) s4)
        (\<lambda>(ret, po) s5. Ret (if ret \<noteq> EXSUCCEED then EXFAIL else EXSUCCEED, the po) s5))"
      unfolding ores_andthen by (rule ores_mono[OF cp2[OF R4 a(3)]]) auto
    then show ?case using a l y R3 R4 by (auto simp: Let_def)
  qed simp
qed

text \<open>The stage of the entry follows the return code, and nothing else of the entry changes.\<close>

lemma log_stage_ores:
  assumes "tl_txstage p \<noteq> EXFAIL"
  shows "ores (\<lambda>(ret, p') s'. journal_step (tl_fname p) (log_ev (tl_fname p)) s s' \<and>
       seq_only (p\<lparr>tl_txstage := if ret = EXSUCCEED then stage else tl_txstage p\<rparr>) p')
     (journal_end (tl_fname p) (log_ev (tl_fname p)) s) (tms_log_stage E p stage forced s)"
    (is "ores ?Q (?R s) _")
proof -
  let ?p = "p\<lparr>tl_txstage := stage\<rparr>" and ?J = "journal_step (tl_fname p) (log_ev (tl_fname p))"
  define m where "m = (\<lambda>s1. if stage > 0 \<and> e_commit_crash E div 100 = 1 \<and>
      stage = e_commit_crash E mod 100 then Ret (EXFAIL, ?p) s1 else log_stage_write E ?p stage s1)"
  have w: "ores (\<lambda>(ret, p') s'. ?J s1 s' \<and> seq_only ?p p') (?J s1) (m s1)" for s1
    using stage_write_ores[of ?p s1 E stage] by (simp add: m_def)
  have e: "ores (\<lambda>(ret, p') s'. ?R s s' \<and> seq_only ?p p') (?R s) (m (s\<lparr>st_write_fail := 1\<rparr>))"
    by (rule ores_mono[OF w]) (auto intro: journal_endI)
  consider "e_tid E \<noteq> tl_lockthreadid p" | "e_tid E = tl_lockthreadid p" "tl_txstage p = stage"
    | "e_tid E = tl_lockthreadid p" "tl_txstage p \<noteq> stage" by blast
  then show ?thesis
  proof cases
    case 2
    then have "p\<lparr>tl_txstage := stage\<rparr> = p" by auto
    then have "seq_only (p\<lparr>tl_txstage := stage\<rparr>) p" by (simp only: seq_only_refl)
    then show ?thesis using 2 by (simp add: tms_log_stage_def)
  next
    case 3
    define crash where "crash \<longleftrightarrow> stage > 0 \<and> e_commit_crash E div 100 = 0 \<and> stage = e_commit_crash E mod 100"
    have eq: "tms_log_stage E p stage forced s =
       andthen (m (if crash then s\<lparr>st_write_fail := 1\<rparr> else s))
          (\<lambda>(ret, p2) s2.
            if crash then Exit 1 s2
            else if forced then Ret (EXSUCCEED, p2) s2
            else if ret \<noteq> EXSUCCEED \<and> tl_txstage p \<noteq> EXFAIL
            then Ret (ret, p2\<lparr>tl_txstage := tl_txstage p\<rparr>) s2
            else Ret (ret, p2) s2)"
      using 3 by (simp add: tms_log_stage_def Let_def crash_def m_def)
    have r: "seq_only ?p p2 \<Longrightarrow> seq_only p (p2\<lparr>tl_txstage := tl_txstage p\<rparr>)" for p2
      by (auto simp: seq_only_def)
    show ?thesis
    proof (cases crash)
      case True
      show ?thesis unfolding eq ores_andthen using True
        by simp (rule ores_mono[OF e], auto)
    next
      case False
      show ?thesis unfolding eq ores_andthen using False
        by simp (rule ores_mono[OF w], use assms r in \<open>auto intro: journal_step_end\<close>)
    qed
  qed (simp_all add: tms_log_stage_def)
qed

text \<open>A commit decision is reported as logged only when its line is in the file, behind
  everything written before, and the file has been made durable afterwards.\<close>

definition stage_line :: "int \<Rightarrow> int \<Rightarrow> int \<Rightarrow> string" where
  "stage_line version tstamp stage =
     fst (log_line version False (log_text tstamp LOG_COMMAND_STAGE (fmt_d stage)))"

lemma write_line_ok:
  assumes "tms_log_write_line E p cmd msg s = (EXSUCCEED, s')" "tl_f p" "st_write_fail s = 0"
  shows "\<exists>ts. st_trace s' = st_trace s @
     [EvWrite (tl_fname p) (fst (log_line (tl_log_version p) False (log_text ts cmd msg)))]"
proof -
  let ?t = "log_text (e_clock E (st_tick s)) cmd msg"
  obtain line exp where l: "log_line (tl_log_version p) False ?t = (line, exp)" by (meson surj_pair)
  have "exp > 0" using l by (auto simp: log_line_def Let_def split: if_splits)
  then have "st_trace s' = st_trace s @ [EvWrite (tl_fname p) line]"
    using assms l
    by (auto simp: tms_log_write_line_def log_output_def Let_def split: if_splits)
  then show ?thesis using l by (metis fst_conv)
qed

lemma checkpoint_trace:
  "tms_log_checkpointseq E p s = Ret r s' \<Longrightarrow> st_trace s' = st_trace s \<and> st_write_fail s' = st_write_fail s"
  by (auto simp: tms_log_checkpointseq_def Let_def split: if_splits prod.splits option.splits)

lemma sync_ok:
  "log_sync E p s = (EXSUCCEED, s') \<Longrightarrow> st_trace s' = st_trace s @ [EvSync (tl_fname p) (sync_ops (e_fsync_flags E))] \<and> tl_f p"
  by (auto simp: log_sync_def sync_ops_def dest!: fsync_ok dsync_ok split: if_splits prod.splits)

lemma commit_write_durable:
  assumes "log_stage_write E p XA_TX_STAGE_COMMITTING s = Ret (EXSUCCEED, p') s'" "st_write_fail s = 0"
  shows "\<exists>ts. st_trace s' = st_trace s @ [EvWrite (tl_fname p)
      (stage_line (tl_log_version p) ts XA_TX_STAGE_COMMITTING), EvSync (tl_fname p) (sync_ops (e_fsync_flags E))]"
proof -
  obtain po s2 where cp: "tms_log_checkpointseq E (Some p) s = Ret (EXSUCCEED, po) s2"
    and rest: "log_stage_write E p XA_TX_STAGE_COMMITTING s =
      (case log_stage_lines E (the po) XA_TX_STAGE_COMMITTING 1 s2 of
        (ret, s3) \<Rightarrow>
          if ret \<noteq> EXSUCCEED then Ret (EXFAIL, the po) s3
          else (case log_sync E (the po) s3 of (ret, s4) \<Rightarrow>
                 if ret \<noteq> EXSUCCEED then Ret (EXFAIL, the po) s4
                 else andthen (tms_log_checkpointseq E (Some (the po)) s4)
                   (\<lambda>(ret, po) s5. Ret (if ret \<noteq> EXSUCCEED then EXFAIL else EXSUCCEED, the po) s5)))"
    using assms(1) by (cases "tms_log_checkpointseq E (Some p) s")
      (auto simp: log_stage_write_def Let_def split: if_splits prod.splits)
  obtain p2 where p2: "po = Some p2" "seq_only p p2"
    using ores_RetD[OF checkpoint_ores cp] by auto
  obtain s3 where wl: "tms_log_write_line E p2 LOG_COMMAND_STAGE (fmt_d XA_TX_STAGE_COMMITTING) s2 = (EXSUCCEED, s3)"
    and rest2: "(case log_sync E p2 s3 of (ret, s4) \<Rightarrow>
                 if ret \<noteq> EXSUCCEED then Ret (EXFAIL, p2) s4
                 else andthen (tms_log_checkpointseq E (Some p2) s4)
                   (\<lambda>(ret, po) s5. Ret (if ret \<noteq> EXSUCCEED then EXFAIL else EXSUCCEED, the po) s5)) = Ret (EXSUCCEED, p') s'"
    using assms(1)[unfolded rest p2(1) option.sel]
    by (cases "tms_log_write_line E p2 LOG_COMMAND_STAGE (fmt_d XA_TX_STAGE_COMMITTING) s2")
      (auto split: if_splits)
  obtain s4 r where sy: "log_sync E p2 s3 = (EXSUCCEED, s4)" and cp2: "tms_log_checkpointseq E (Some p2) s4 = Ret r s'"
    using rest2 by (cases "log_sync E p2 s3") (auto split: if_splits prod.splits simp: andthen_Ret_iff)
  have "tl_f p2" "st_trace s4 = st_trace s3 @ [EvSync (tl_fname p2) (sync_ops (e_fsync_flags E))]" using sync_ok[OF sy] by auto
  moreover obtain ts where "st_trace s3 = st_trace s2 @
     [EvWrite (tl_fname p2) (stage_line (tl_log_version p2) ts XA_TX_STAGE_COMMITTING)]"
    using write_line_ok[OF wl \<open>tl_f p2\<close>] checkpoint_trace[OF cp] assms(2) by (auto simp: stage_line_def)
  ultimately show ?thesis
    using checkpoint_trace[OF cp] checkpoint_trace[OF cp2] seq_only_fields[OF p2(2)] by auto
qed

lemma commit_logged_durable:
  assumes "tms_log_stage E p XA_TX_STAGE_COMMITTING False s = Ret (EXSUCCEED, p') s'"
    and "st_write_fail s = 0" "tl_txstage p \<noteq> XA_TX_STAGE_COMMITTING"
  shows "\<exists>ts. st_trace s' = st_trace s @ [EvWrite (tl_fname p)
      (stage_line (tl_log_version p) ts XA_TX_STAGE_COMMITTING), EvSync (tl_fname p) (sync_ops (e_fsync_flags E))]"
proof -
  let ?p = "p\<lparr>tl_txstage := XA_TX_STAGE_COMMITTING\<rparr>"
  obtain p1 where "log_stage_write E ?p XA_TX_STAGE_COMMITTING s = Ret (EXSUCCEED, p1) s'"
    using assms
    by (auto simp: tms_log_stage_def Let_def andthen_Ret_iff split: if_splits)
  from commit_write_durable[OF this assms(2)] show ?thesis by simp
qed

end
