(* ===== verification/Growlist.thy ===== *)
theory Growlist
  imports Prelude
begin

text \<open>
  The growing array of libnstd/nstdutil.c (ndrx_growlist_*).  The block is a list
  of slots, an empty slot being memory that was allocated and not written yet.
  \<open>ok\<close> tells for each call of the allocator, numbered from 0, whether it
  succeeds.  The counters are C ints: \<open>int_add\<close> has no value where the sum overflows, and an
  operation has none where the code's behaviour is undefined, that is after an overflow, a division by
  zero, or a write outside the block.  The abstraction \<open>gl_items\<close> reads back the items.  Appending to a
  well-formed array appends to its items when every call of the allocator succeeds; when one fails,
  the pointer to the block is gone.  The step is positive, as the callers have it.
\<close>

definition int_add :: "int \<Rightarrow> int \<Rightarrow> int option" where
  "int_add a b = (if INT_MIN \<le> a + b \<and> a + b \<le> INT_MAX then Some (a + b) else None)"

lemma int_add_ok [simp]: "INT_MIN \<le> a + b \<Longrightarrow> a + b \<le> INT_MAX \<Longrightarrow> int_add a b = Some (a + b)"
  by (simp add: int_add_def)

record 'a growlist =
  gl_maxindexused :: int
  gl_itemsalloc :: int
  gl_step :: int
  gl_mem :: "'a option list option"

definition ndrx_growlist_init :: "int \<Rightarrow> 'a growlist" where
  "ndrx_growlist_init step =
     \<lparr>gl_maxindexused = EXFAIL, gl_itemsalloc = 0, gl_step = step, gl_mem = None\<rparr>"

text \<open>The reallocation loop: \<^emph>\<open>while (index+count > list->itemsalloc)\<close>.  The new
  block keeps the old slots.  The counter of allocator calls is threaded through.
  When the reallocation fails, the code has already overwritten list->mem.\<close>

definition gl_resize :: "nat \<Rightarrow> 'a option list \<Rightarrow> 'a option list" where
  "gl_resize n xs = take n xs @ replicate (n - length xs) None"

partial_function (option) gl_grow ::
  "(nat \<Rightarrow> bool) \<Rightarrow> int \<Rightarrow> nat \<Rightarrow> 'a growlist \<Rightarrow> (int \<times> nat \<times> 'a growlist) option" where
  "gl_grow ok need i l =
    (if need > gl_itemsalloc l
     then (case int_add (gl_itemsalloc l) (gl_step l) of None \<Rightarrow> None
       | Some itemsalloc \<Rightarrow>
          if gl_step l = 0 then None
          else let l1 = l\<lparr>gl_itemsalloc := itemsalloc\<rparr>;
                   next_blocks = itemsalloc div gl_step l;
                   new_size = next_blocks * gl_step l
               in if \<not> ok i then Some (EXFAIL, Suc i, l1\<lparr>gl_mem := None\<rparr>)
                  else gl_grow ok need (Suc i)
                         (l1\<lparr>gl_mem := map_option (gl_resize (nat new_size)) (gl_mem l1)\<rparr>))
     else Some (EXSUCCEED, i, l))"

definition gl_write :: "int \<Rightarrow> 'a list \<Rightarrow> 'a option list \<Rightarrow> 'a option list" where
  "gl_write index items mem =
     take (nat index) mem @ map Some items @ drop (nat index + length items) mem"

definition ndrx_growlist_add_many ::
  "(nat \<Rightarrow> bool) \<Rightarrow> 'a growlist \<Rightarrow> 'a list \<Rightarrow> int \<Rightarrow> nat \<Rightarrow> (int \<times> nat \<times> 'a growlist) option" where
  "ndrx_growlist_add_many ok l items index i =
    (let count = int (length items);
         first = (case gl_mem l of
             None \<Rightarrow> (if ok i
                then map_option (\<lambda>itemsalloc. (EXSUCCEED, Suc i,
                       l\<lparr>gl_mem := Some (replicate (nat (gl_step l)) None), gl_itemsalloc := itemsalloc\<rparr>))
                     (int_add (gl_itemsalloc l) (gl_step l))
                else Some (EXFAIL, Suc i, l))
           | Some m \<Rightarrow> Some (EXSUCCEED, i, l))
     in case first of None \<Rightarrow> None
      | Some (ret, i1, l1) \<Rightarrow>
          if ret \<noteq> EXSUCCEED then Some (EXFAIL, i1, l1)
          else (case int_add index count of None \<Rightarrow> None
          | Some need \<Rightarrow> (case gl_grow ok need i1 l1 of None \<Rightarrow> None
            | Some (ret, i2, l2) \<Rightarrow>
                if ret \<noteq> EXSUCCEED then Some (EXFAIL, i2, l2)
                else (case gl_mem l2 of None \<Rightarrow> None
                | Some m \<Rightarrow>
                    if index < 0 \<or> need > int (length m) then None
                    else Some (EXSUCCEED, i2,
                      l2\<lparr>gl_mem := Some (gl_write index items m),
                         gl_maxindexused := max (gl_maxindexused l2) (need - 1)\<rparr>)))))"

definition ndrx_growlist_add ::
  "(nat \<Rightarrow> bool) \<Rightarrow> 'a growlist \<Rightarrow> 'a \<Rightarrow> int \<Rightarrow> nat \<Rightarrow> (int \<times> nat \<times> 'a growlist) option" where
  "ndrx_growlist_add ok l item index i = ndrx_growlist_add_many ok l [item] index i"

definition ndrx_growlist_append ::
  "(nat \<Rightarrow> bool) \<Rightarrow> 'a growlist \<Rightarrow> 'a \<Rightarrow> nat \<Rightarrow> (int \<times> nat \<times> 'a growlist) option" where
  "ndrx_growlist_append ok l item i = (case int_add (gl_maxindexused l) 1 of None \<Rightarrow> None
     | Some index \<Rightarrow> ndrx_growlist_add ok l item index i)"

definition ndrx_growlist_append_many ::
  "(nat \<Rightarrow> bool) \<Rightarrow> 'a growlist \<Rightarrow> 'a list \<Rightarrow> nat \<Rightarrow> (int \<times> nat \<times> 'a growlist) option" where
  "ndrx_growlist_append_many ok l items i = (case int_add (gl_maxindexused l) 1 of None \<Rightarrow> None
     | Some index \<Rightarrow> ndrx_growlist_add_many ok l items index i)"

definition ndrx_growlist_free :: "'a growlist \<Rightarrow> 'a growlist" where
  "ndrx_growlist_free l =
    (case gl_mem l of None \<Rightarrow> l
     | Some _ \<Rightarrow> l\<lparr>gl_mem := None, gl_maxindexused := EXFAIL, gl_itemsalloc := 0\<rparr>)"

subsection \<open>Well-formed arrays and their items\<close>

definition gl_items :: "'a growlist \<Rightarrow> 'a list" where
  "gl_items l = (case gl_mem l of None \<Rightarrow> []
     | Some m \<Rightarrow> map the (take (nat (gl_maxindexused l + 1)) m))"

definition gl_wf :: "'a growlist \<Rightarrow> bool" where
  "gl_wf l = (gl_step l > 0 \<and> gl_maxindexused l \<ge> -1 \<and> gl_itemsalloc l mod gl_step l = 0 \<and>
     (case gl_mem l of
        None \<Rightarrow> gl_maxindexused l = EXFAIL \<and> gl_itemsalloc l = 0
      | Some m \<Rightarrow> int (length m) = gl_itemsalloc l \<and> gl_maxindexused l < gl_itemsalloc l \<and>
          None \<notin> set (take (nat (gl_maxindexused l + 1)) m)))"

lemma length_gl_resize [simp]: "length (gl_resize n xs) = n"
  by (simp add: gl_resize_def)

lemma take_gl_resize: "k \<le> length xs \<Longrightarrow> length xs \<le> n \<Longrightarrow> take k (gl_resize n xs) = take k xs"
  by (simp add: gl_resize_def)

lemma length_gl_items: "gl_wf l \<Longrightarrow> int (length (gl_items l)) = gl_maxindexused l + 1"
  by (auto simp: gl_wf_def gl_items_def split: option.splits)

text \<open>With a positive step and room below the largest int the loop ends: when a call of the allocator
  fails, the block is lost, otherwise there is room for all the items and none of them has changed.\<close>

lemma gl_grow_total:
  assumes "gl_wf l" "gl_mem l = Some m" "need + gl_step l \<le> INT_MAX"
  shows "\<exists>i' l'. i \<le> i' \<and> gl_grow ok need i l = Some (if \<forall>j\<in>{i..<i'}. ok j then EXSUCCEED else EXFAIL, i', l') \<and>
     (if \<forall>j\<in>{i..<i'}. ok j
      then gl_wf l' \<and> gl_items l' = gl_items l \<and> gl_mem l' \<noteq> None \<and>
        gl_maxindexused l' = gl_maxindexused l \<and> need \<le> gl_itemsalloc l' \<and> gl_step l' = gl_step l
      else gl_mem l' = None)"
  using assms
proof (induction "nat (need - gl_itemsalloc l)" arbitrary: l m i rule: less_induct)
  case less
  let ?n = "nat (gl_itemsalloc l + gl_step l)"
  let ?l2 = "l\<lparr>gl_itemsalloc := gl_itemsalloc l + gl_step l, gl_mem := Some (gl_resize ?n m)\<rparr>"
  have pos: "gl_step l > 0" and md: "gl_itemsalloc l mod gl_step l = 0"
    and len: "int (length m) = gl_itemsalloc l" and mx: "gl_maxindexused l < gl_itemsalloc l"
    using less.prems(1,2) by (auto simp: gl_wf_def)
  have n: "(gl_itemsalloc l + gl_step l) div gl_step l * gl_step l = gl_itemsalloc l + gl_step l"
    using md by (metis div_mult_mod_eq add.right_neutral mod_add_self2)
  have tk: "take (nat (gl_maxindexused l + 1)) (gl_resize ?n m) = take (nat (gl_maxindexused l + 1)) m"
    using pos len mx by (intro take_gl_resize) linarith+
  have wf2: "gl_wf ?l2" using less.prems(1,2) pos md len mx tk by (auto simp: gl_wf_def)
  have it2: "gl_items ?l2 = gl_items l" using less.prems(2) tk by (simp add: gl_items_def)
  show ?case
  proof (cases "need > gl_itemsalloc l")
    case True
    then have sum: "int_add (gl_itemsalloc l) (gl_step l) = Some (gl_itemsalloc l + gl_step l)"
      using less.prems(3) len pos by (intro int_add_ok) linarith+
    show ?thesis
    proof (cases "ok i")
      case ok: True
      have step: "gl_grow ok need i l = gl_grow ok need (Suc i) ?l2"
        using True ok sum pos less.prems(2) by (subst gl_grow.simps) (simp add: Let_def n)
      have "nat (need - gl_itemsalloc ?l2) < nat (need - gl_itemsalloc l)" using True pos by simp
      from less.hyps[OF this wf2, of "gl_resize ?n m" "Suc i"] less.prems(3) it2
      obtain i' l' where ih: "Suc i \<le> i'"
        "gl_grow ok need (Suc i) ?l2 = Some (if \<forall>j\<in>{Suc i..<i'}. ok j then EXSUCCEED else EXFAIL, i', l')"
        "if \<forall>j\<in>{Suc i..<i'}. ok j
         then gl_wf l' \<and> gl_items l' = gl_items l \<and> gl_mem l' \<noteq> None \<and>
           gl_maxindexused l' = gl_maxindexused l \<and> need \<le> gl_itemsalloc l' \<and> gl_step l' = gl_step l
         else gl_mem l' = None"
        by auto
      have "{i..<i'} = insert i {Suc i..<i'}" using ih(1) by auto
      then show ?thesis using ih ok step by (intro exI[of _ i'] exI[of _ l']) simp
    next
      case False
      have "gl_grow ok need i l = Some (EXFAIL, Suc i, l\<lparr>gl_itemsalloc := gl_itemsalloc l + gl_step l, gl_mem := None\<rparr>)"
        using True False sum pos by (subst gl_grow.simps) (simp add: Let_def)
      then show ?thesis using False
        by (intro exI[of _ "Suc i"] exI[of _ "l\<lparr>gl_itemsalloc := gl_itemsalloc l + gl_step l, gl_mem := None\<rparr>"]) simp
    qed
  next
    case False
    then have "gl_grow ok need i l = Some (EXSUCCEED, i, l)" by (subst gl_grow.simps) simp
    then show ?thesis using False less.prems(1,2) by (intro exI[of _ i] exI[of _ l]) simp
  qed
qed

lemma gl_write_items:
  assumes "gl_wf l" "gl_mem l = Some m" "gl_maxindexused l + 1 + int (length xs) \<le> gl_itemsalloc l"
    and "l' = l\<lparr>gl_mem := Some (gl_write (gl_maxindexused l + 1) xs m),
                gl_maxindexused := max (gl_maxindexused l) (gl_maxindexused l + int (length xs))\<rparr>"
  shows "gl_wf l' \<and> gl_items l' = gl_items l @ xs"
proof -
  define k where "k = nat (gl_maxindexused l + 1)"
  have k: "gl_maxindexused l = int k - 1" and len: "int (length m) = gl_itemsalloc l"
    and kl: "k + length xs \<le> length m"
    using assms by (auto simp: gl_wf_def k_def)
  have tk: "take (k + length xs) (gl_write (int k) xs m) = take k m @ map Some xs"
    using kl by (simp add: gl_write_def)
  show ?thesis
    using assms(1,2,3) kl len tk unfolding assms(4) gl_wf_def gl_items_def k
    by (auto simp: gl_write_def nat_add_distrib max_def o_def add.commute)
qed

lemma gl_first_alloc:
  assumes "gl_wf l" "gl_mem l = None"
  shows "gl_wf (l\<lparr>gl_mem := Some (replicate (nat (gl_step l)) None),
                   gl_itemsalloc := gl_itemsalloc l + gl_step l\<rparr>)"
  using assms by (auto simp: gl_wf_def)

text \<open>Appending to an array that has its block.\<close>

lemma gl_append_block:
  assumes wf: "gl_wf l" "gl_mem l = Some m" and fits: "int (length (gl_items l @ xs)) + gl_step l \<le> INT_MAX"
  shows "\<exists>i' l'. i \<le> i' \<and>
     ndrx_growlist_append_many ok l xs i = Some (if \<forall>j\<in>{i..<i'}. ok j then EXSUCCEED else EXFAIL, i', l') \<and>
     (if \<forall>j\<in>{i..<i'}. ok j then gl_wf l' \<and> gl_items l' = gl_items l @ xs \<and> gl_step l' = gl_step l else gl_mem l' = None)"
proof -
  let ?k = "gl_maxindexused l + 1" and ?need = "gl_maxindexused l + 1 + int (length xs)"
  have b: "0 \<le> ?k" "?need + gl_step l \<le> INT_MAX" "gl_step l > 0"
    using length_gl_items[OF wf(1)] wf(1) fits by (auto simp: gl_wf_def)
  have add: "int_add (gl_maxindexused l) 1 = Some ?k" "int_add ?k (int (length xs)) = Some ?need"
    using b by (auto intro!: int_add_ok)
  obtain i' l' where g: "i \<le> i'" "gl_grow ok ?need i l = Some (if \<forall>j\<in>{i..<i'}. ok j then EXSUCCEED else EXFAIL, i', l')"
     "if \<forall>j\<in>{i..<i'}. ok j
      then gl_wf l' \<and> gl_items l' = gl_items l \<and> gl_mem l' \<noteq> None \<and>
        gl_maxindexused l' = gl_maxindexused l \<and> ?need \<le> gl_itemsalloc l' \<and> gl_step l' = gl_step l
      else gl_mem l' = None"
    using gl_grow_total[OF wf b(2), of i ok] by blast
  show ?thesis
  proof (cases "\<forall>j\<in>{i..<i'}. ok j")
    case True
    then obtain m' where m': "gl_mem l' = Some m'" and l': "gl_wf l'" "gl_items l' = gl_items l"
        "gl_maxindexused l' = gl_maxindexused l" "?need \<le> gl_itemsalloc l'" "gl_step l' = gl_step l" using g(3) by auto
    define r where "r = l'\<lparr>gl_mem := Some (gl_write ?k xs m'), gl_maxindexused := max (gl_maxindexused l') (?need - 1)\<rparr>"
    have len: "?need \<le> int (length m')" using l'(1,4) m' by (simp add: gl_wf_def)
    have "ndrx_growlist_append_many ok l xs i = Some (EXSUCCEED, i', r)"
      using True g(2) add wf(2) m' b(1) len
      by (simp add: ndrx_growlist_append_many_def ndrx_growlist_add_many_def r_def)
    moreover have "gl_wf r \<and> gl_items r = gl_items l @ xs \<and> gl_step r = gl_step l"
      using gl_write_items[OF l'(1) m', of xs r] l' by (simp add: r_def add.commute)
    ultimately show ?thesis using True g(1) by (intro exI[of _ i'] exI[of _ r]) simp
  next
    case False
    then have "gl_grow ok ?need i l = Some (EXFAIL, i', l')" using g(2) by presburger
    then have "ndrx_growlist_append_many ok l xs i = Some (EXFAIL, i', l')"
      using add wf(2) by (simp add: ndrx_growlist_append_many_def ndrx_growlist_add_many_def)
    then show ?thesis using False g(1,3) by (intro exI[of _ i'] exI[of _ l']) simp
  qed
qed

text \<open>Without a block the first call of the allocator makes one.\<close>

lemma gl_append_many:
  assumes wf: "gl_wf l" and fits: "int (length (gl_items l @ xs)) + gl_step l \<le> INT_MAX"
  shows "\<exists>i' l'. i \<le> i' \<and>
     ndrx_growlist_append_many ok l xs i = Some (if \<forall>j\<in>{i..<i'}. ok j then EXSUCCEED else EXFAIL, i', l') \<and>
     (if \<forall>j\<in>{i..<i'}. ok j then gl_wf l' \<and> gl_items l' = gl_items l @ xs \<and> gl_step l' = gl_step l else gl_mem l' = None)"
proof (cases "gl_mem l")
  case None
  let ?l1 = "l\<lparr>gl_mem := Some (replicate (nat (gl_step l)) None), gl_itemsalloc := gl_itemsalloc l + gl_step l\<rparr>"
  have l: "gl_maxindexused l = EXFAIL" "gl_itemsalloc l = 0" "gl_step l > 0" "gl_items l = []"
    using wf None by (auto simp: gl_wf_def gl_items_def)
  have add: "int_add EXFAIL 1 = Some 0" "int_add 0 (gl_step l) = Some (gl_step l)"
    using fits l by (auto simp: int_add_def)
  show ?thesis
  proof (cases "ok i")
    case True
    have same: "ndrx_growlist_append_many ok l xs i = ndrx_growlist_append_many ok ?l1 xs (Suc i)"
      using True None add l by (simp add: ndrx_growlist_append_many_def ndrx_growlist_add_many_def)
    have "gl_items ?l1 = []" using l by (simp add: gl_items_def)
    then obtain i' l' where a: "Suc i \<le> i'"
       "ndrx_growlist_append_many ok ?l1 xs (Suc i) = Some (if \<forall>j\<in>{Suc i..<i'}. ok j then EXSUCCEED else EXFAIL, i', l')"
       "if \<forall>j\<in>{Suc i..<i'}. ok j then gl_wf l' \<and> gl_items l' = xs \<and> gl_step l' = gl_step l else gl_mem l' = None"
      using gl_append_block[OF gl_first_alloc[OF wf None], of _ xs "Suc i" ok] fits l by auto
    have "{i..<i'} = insert i {Suc i..<i'}" using a(1) by auto
    then show ?thesis using a same True l by (intro exI[of _ i'] exI[of _ l']) simp
  next
    case False
    then have "ndrx_growlist_append_many ok l xs i = Some (EXFAIL, Suc i, l)"
      using None add l by (simp add: ndrx_growlist_append_many_def ndrx_growlist_add_many_def)
    then show ?thesis using False None by (intro exI[of _ "Suc i"] exI[of _ l]) simp
  qed
next
  case (Some m)
  from gl_append_block[OF wf Some fits] show ?thesis .
qed

subsection \<open>The contract of an appendable array\<close>

text \<open>What the clients (the vote list of the transaction driver among them) rely on: below the limit
  an append fails only when a call of the allocator fails.\<close>

locale vector =
  fixes empty :: 'v
    and append :: "(nat \<Rightarrow> bool) \<Rightarrow> 'v \<Rightarrow> 'a \<Rightarrow> nat \<Rightarrow> (int \<times> nat \<times> 'v) option"
    and items :: "'v \<Rightarrow> 'a list"
    and wf :: "'v \<Rightarrow> bool"
    and limit :: int
  assumes wf_empty: "wf empty"
    and items_empty: "items empty = []"
    and append_law: "wf v \<Longrightarrow> int (length (items v)) < limit \<Longrightarrow> \<exists>i' v'. i \<le> i' \<and>
         append ok v x i = Some (if \<forall>j\<in>{i..<i'}. ok j then EXSUCCEED else EXFAIL, i', v') \<and>
         ((\<forall>j\<in>{i..<i'}. ok j) \<longrightarrow> wf v' \<and> items v' = items v @ [x])"
begin

fun append_all :: "(nat \<Rightarrow> bool) \<Rightarrow> 'v \<Rightarrow> 'a list \<Rightarrow> nat \<Rightarrow> (int \<times> nat \<times> 'v) option" where
  "append_all ok v [] i = Some (EXSUCCEED, i, v)"
| "append_all ok v (x # xs) i = (case append ok v x i of None \<Rightarrow> None
     | Some (ret, i', v') \<Rightarrow> if ret \<noteq> EXSUCCEED then Some (ret, i', v') else append_all ok v' xs i')"

lemma append_all_law:
  assumes "wf v" "int (length (items v @ xs)) \<le> limit"
  shows "\<exists>i' v'. i \<le> i' \<and> append_all ok v xs i = Some (if \<forall>j\<in>{i..<i'}. ok j then EXSUCCEED else EXFAIL, i', v') \<and>
     ((\<forall>j\<in>{i..<i'}. ok j) \<longrightarrow> wf v' \<and> items v' = items v @ xs)"
  using assms
proof (induction xs arbitrary: v i)
  case (Cons x xs)
  have "int (length (items v)) < limit" using Cons.prems(2) by simp
  from append_law[OF Cons.prems(1) this] obtain i1 v1 where a: "i \<le> i1"
    "append ok v x i = Some (if \<forall>j\<in>{i..<i1}. ok j then EXSUCCEED else EXFAIL, i1, v1)"
    "(\<forall>j\<in>{i..<i1}. ok j) \<longrightarrow> wf v1 \<and> items v1 = items v @ [x]" by blast
  show ?case
  proof (cases "\<forall>j\<in>{i..<i1}. ok j")
    case True
    with a(3) Cons.prems(2) have "wf v1" "int (length (items v1 @ xs)) \<le> limit" by simp_all
    from Cons.IH[OF this, of i1] obtain i2 v2 where b: "i1 \<le> i2"
      "append_all ok v1 xs i1 = Some (if \<forall>j\<in>{i1..<i2}. ok j then EXSUCCEED else EXFAIL, i2, v2)"
      "(\<forall>j\<in>{i1..<i2}. ok j) \<longrightarrow> wf v2 \<and> items v2 = items v1 @ xs" by blast
    have "{i..<i2} = {i..<i1} \<union> {i1..<i2}" using a(1) b(1) by auto
    with True have "(\<forall>j\<in>{i..<i2}. ok j) \<longleftrightarrow> (\<forall>j\<in>{i1..<i2}. ok j)" by auto
    then show ?thesis using a b True by (intro exI[of _ i2] exI[of _ v2]) simp
  next
    case False
    then show ?thesis using a by (intro exI[of _ i1] exI[of _ v1]) auto
  qed
qed (use assms in auto)

end

lemma gl_append:
  assumes "gl_wf l" "int (length (gl_items l)) + 1 + gl_step l \<le> INT_MAX"
  shows "\<exists>i' l'. i \<le> i' \<and>
     ndrx_growlist_append ok l x i = Some (if \<forall>j\<in>{i..<i'}. ok j then EXSUCCEED else EXFAIL, i', l') \<and>
     (if \<forall>j\<in>{i..<i'}. ok j then gl_wf l' \<and> gl_items l' = gl_items l @ [x] \<and> gl_step l' = gl_step l else gl_mem l' = None)"
proof -
  have "ndrx_growlist_append ok l x i = ndrx_growlist_append_many ok l [x] i"
    unfolding ndrx_growlist_append_def ndrx_growlist_add_def ndrx_growlist_append_many_def ..
  then show ?thesis using gl_append_many[OF assms(1), of "[x]" i ok] assms(2) by simp
qed

lemma gl_init:
  "step > 0 \<Longrightarrow> gl_wf (ndrx_growlist_init step) \<and> gl_items (ndrx_growlist_init step) = [] \<and>
     gl_step (ndrx_growlist_init step) = step"
  by (simp add: gl_wf_def gl_items_def ndrx_growlist_init_def)

interpretation growlist100: vector "ndrx_growlist_init 100" ndrx_growlist_append gl_items
  "\<lambda>l. gl_wf l \<and> gl_step l = 100" "INT_MAX - 100"
proof unfold_locales
  fix v :: "'a growlist" and i ok x
  assume "gl_wf v \<and> gl_step v = 100" "int (length (gl_items v)) < INT_MAX - 100"
  then have "gl_wf v" "int (length (gl_items v)) + 1 + gl_step v \<le> INT_MAX" "gl_step v = 100" by simp_all
  with gl_append[OF this(1,2), of i ok x]
  show "\<exists>i' v'. i \<le> i' \<and> ndrx_growlist_append ok v x i = Some (if \<forall>j\<in>{i..<i'}. ok j then EXSUCCEED else EXFAIL, i', v') \<and>
         ((\<forall>j\<in>{i..<i'}. ok j) \<longrightarrow> (gl_wf v' \<and> gl_step v' = 100) \<and> gl_items v' = gl_items v @ [x])"
    by (metis (no_types, lifting))
qed (simp_all add: gl_init)

text \<open>After a failed reallocation the pointer to the block is NULL and the counters stay as they were; the next
  append allocates one block, counts it on top of the lost ones and writes behind its end.\<close>

lemma append_after_failed_realloc:
  "ndrx_growlist_append_many (\<lambda>i. i \<noteq> 1) (ndrx_growlist_init 2) [1, 2, 3 :: nat] 0 =
     Some (EXFAIL, 2, \<lparr>gl_maxindexused = EXFAIL, gl_itemsalloc = 4, gl_step = 2, gl_mem = None\<rparr>) \<and>
   ndrx_growlist_append_many (\<lambda>_. True) \<lparr>gl_maxindexused = EXFAIL, gl_itemsalloc = 4, gl_step = 2, gl_mem = None\<rparr> [1, 2, 3 :: nat] 2 =
     None"
  by (simp add: ndrx_growlist_append_many_def ndrx_growlist_add_many_def ndrx_growlist_init_def int_add_def
      gl_grow.simps gl_resize_def)

section \<open>Properties\<close>

text \<open>C28: appending to a growing list comes to an end and does what it says, as long as the items and one
  step fit into an int.  When every call of the allocator it makes succeeds, it reports success, the list stays well formed and its items are the old
  ones followed by the new ones.  When one of them fails it reports failure, and the list has no block any more.\<close>

theorem append_many_refines:
  assumes "gl_wf l" "int (length (gl_items l @ xs)) + gl_step l \<le> INT_MAX"
  shows "\<exists>i' l'. i \<le> i' \<and>
     ndrx_growlist_append_many ok l xs i = Some (if \<forall>j\<in>{i..<i'}. ok j then EXSUCCEED else EXFAIL, i', l') \<and>
     (if \<forall>j\<in>{i..<i'}. ok j then gl_wf l' \<and> gl_items l' = gl_items l @ xs \<and> gl_step l' = gl_step l else gl_mem l' = None)"
  by (rule gl_append_many[OF assms])

theorem append_many_refines_witness:
  "\<exists>i' l'. ndrx_growlist_append_many (\<lambda>_. True) (ndrx_growlist_init 100) [1, 2, 3 :: nat] 0 = Some (EXSUCCEED, i', l') \<and>
     gl_wf l' \<and> gl_items l' = [1, 2, 3]"
proof -
  have "gl_wf (ndrx_growlist_init 100 :: nat growlist)" "gl_items (ndrx_growlist_init 100 :: nat growlist) = []"
    "gl_step (ndrx_growlist_init 100 :: nat growlist) = 100"
    using gl_init[of 100] by auto
  then show ?thesis
    using append_many_refines[of "ndrx_growlist_init 100" "[1, 2, 3 :: nat]" 0 "\<lambda>_. True"] by auto
qed

end
