(* ===== verification/Tm_Drive.thy ===== *)
theory Tm_Drive
  imports Tm_Log Growlist
begin

text \<open>
  The two-phase commit driver: the calls of the local or a remote resource manager
  (tmsrv/local.c) and the state machine tm_drive (tmsrv/statedrv.c), split along the
  blocks of its loop: the operation on one branch and its vote, the pass over all
  branches, the new stage out of the votes, the logged switch of the stage, one round
  of the loop, the loop and the epilogue.  The vote list is the growing array of
  Growlist, used through its contract: the list of its items, an append that may fail.
\<close>

section \<open>Calls of the resource managers\<close>

text \<open>The call of a resource manager (through atmi_xa_prepare_entry and the like), or of
  the TM of a remote one (through atmi_xa_call_tm_generic): it returns a code and leaves
  a reason and an ATMI error behind.\<close>

definition rm_call :: "tm_env \<Rightarrow> int \<Rightarrow> int \<Rightarrow> int \<Rightarrow> tm_st \<Rightarrow> int \<times> tm_st" where
  "rm_call E op rmid btid s =
    (case e_xa E (st_tick s) op rmid btid of (ret, reason, tperr) \<Rightarrow>
       (ret, emit (EvXa op rmid btid)
               (tick (s\<lparr>st_reason := to_short reason, st_tperrno := tperr\<rparr>))))"

text \<open>The error of a local call, loaded into the reply buffer when there is one.\<close>

definition local_error :: "int \<Rightarrow> tm_st \<Rightarrow> tm_ub option \<Rightarrow> tm_ub option" where
  "local_error ret s ub =
    (if ret \<noteq> EXSUCCEED then map_option (atmi_xa_set_error (st_tperrno s) (st_reason s)) ub else ub)"

definition tm_prepare_local :: "tm_env \<Rightarrow> tm_ub option \<Rightarrow> int \<Rightarrow> tm_st \<Rightarrow> int \<times> tm_ub option \<times> tm_st" where
  "tm_prepare_local E p_ub btid s =
    (case rm_call E XA_OP_PREPARE (e_xa_rmid E) btid s of (ret, s1) \<Rightarrow> (ret, local_error ret s1 p_ub, s1))"

definition tm_prepare_remote_call :: "tm_env \<Rightarrow> int \<Rightarrow> int \<Rightarrow> tm_st \<Rightarrow> int \<times> tm_st" where
  "tm_prepare_remote_call E rmid btid s =
    (case rm_call E XA_OP_PREPARE rmid btid s of (ret, s1) \<Rightarrow>
       (if ret \<noteq> EXSUCCEED then EXFAIL else EXSUCCEED, s1))"

definition tm_prepare_combined :: "tm_env \<Rightarrow> int \<Rightarrow> int \<Rightarrow> tm_st \<Rightarrow> int \<times> tm_st" where
  "tm_prepare_combined E rmid btid s =
    (if rmid = e_xa_rmid E then (case tm_prepare_local E None btid s of (ret, _, s1) \<Rightarrow> (ret, s1))
     else tm_prepare_remote_call E rmid btid s)"

definition tm_rollback_local :: "tm_env \<Rightarrow> tm_ub option \<Rightarrow> int \<Rightarrow> tm_st \<Rightarrow> int \<times> tm_ub option \<times> tm_st" where
  "tm_rollback_local E p_ub btid s =
    (case rm_call E XA_OP_ROLLBACK (e_xa_rmid E) btid s of (ret, s1) \<Rightarrow> (ret, local_error ret s1 p_ub, s1))"

definition tm_rollback_remote_call :: "tm_env \<Rightarrow> int \<Rightarrow> int \<Rightarrow> tm_st \<Rightarrow> int \<times> tm_st" where
  "tm_rollback_remote_call E rmid btid s =
    (case rm_call E XA_OP_ROLLBACK rmid btid s of (ret, s1) \<Rightarrow>
       (if ret \<noteq> EXSUCCEED then EXFAIL else EXSUCCEED, s1))"

definition tm_rollback_combined :: "tm_env \<Rightarrow> int \<Rightarrow> int \<Rightarrow> tm_st \<Rightarrow> int \<times> tm_st" where
  "tm_rollback_combined E rmid btid s =
    (if rmid = e_xa_rmid E then (case tm_rollback_local E None btid s of (ret, _, s1) \<Rightarrow> (ret, s1))
     else tm_rollback_remote_call E rmid btid s)"

definition tm_forget_local :: "tm_env \<Rightarrow> tm_ub option \<Rightarrow> int \<Rightarrow> tm_st \<Rightarrow> int \<times> tm_ub option \<times> tm_st" where
  "tm_forget_local E p_ub btid s =
    (case rm_call E XA_OP_FORGET (e_xa_rmid E) btid s of (ret, s1) \<Rightarrow> (ret, local_error ret s1 p_ub, s1))"

definition tm_forget_remote_call :: "tm_env \<Rightarrow> int \<Rightarrow> int \<Rightarrow> tm_st \<Rightarrow> int \<times> tm_st" where
  "tm_forget_remote_call E rmid btid s =
    (case rm_call E XA_OP_FORGET rmid btid s of (ret, s1) \<Rightarrow>
       (if ret \<noteq> EXSUCCEED then EXFAIL else EXSUCCEED, s1))"

definition tm_forget_combined :: "tm_env \<Rightarrow> int \<Rightarrow> int \<Rightarrow> tm_st \<Rightarrow> int \<times> tm_st" where
  "tm_forget_combined E rmid btid s =
    (if rmid = e_xa_rmid E then (case tm_forget_local E None btid s of (ret, _, s1) \<Rightarrow> (ret, s1))
     else tm_forget_remote_call E rmid btid s)"

definition tm_commit_local :: "tm_env \<Rightarrow> tm_ub option \<Rightarrow> int \<Rightarrow> tm_st \<Rightarrow> int \<times> tm_ub option \<times> tm_st" where
  "tm_commit_local E p_ub btid s =
    (case rm_call E XA_OP_COMMIT (e_xa_rmid E) btid s of (ret, s1) \<Rightarrow> (ret, local_error ret s1 p_ub, s1))"

definition tm_commit_remote_call :: "tm_env \<Rightarrow> int \<Rightarrow> int \<Rightarrow> tm_st \<Rightarrow> int \<times> tm_st" where
  "tm_commit_remote_call E rmid btid s =
    (case rm_call E XA_OP_COMMIT rmid btid s of (ret, s1) \<Rightarrow>
       (if ret \<noteq> EXSUCCEED then EXFAIL else EXSUCCEED, s1))"

definition tm_commit_combined :: "tm_env \<Rightarrow> int \<Rightarrow> int \<Rightarrow> tm_st \<Rightarrow> int \<times> tm_st" where
  "tm_commit_combined E rmid btid s =
    (if rmid = e_xa_rmid E then (case tm_commit_local E None btid s of (ret, _, s1) \<Rightarrow> (ret, s1))
     else tm_commit_remote_call E rmid btid s)"

section \<open>One round of the state machine\<close>

record btid_vote =
  v_rmid :: int
  v_stage :: int
  v_btid :: int

text \<open>The switch over the operation: the reason code it ends with, None for an opcode that
  is not one.\<close>

definition drive_op :: "tm_env \<Rightarrow> int \<Rightarrow> int \<Rightarrow> int \<Rightarrow> tm_st \<Rightarrow> (int \<times> tm_st) option" where
  "drive_op E op_code rmid btid s =
    (let reason = (\<lambda>(op_ret, s1). (if op_ret \<noteq> EXSUCCEED then st_reason s1 else XA_OK, s1)) in
     if op_code = XA_OP_NOP then Some (XA_OK, s)
     else if op_code = XA_OP_PREPARE then Some (reason (tm_prepare_combined E rmid btid s))
     else if op_code = XA_OP_COMMIT then
       (if e_tmscommit E then Some (XAER_RMERR, s) else Some (reason (tm_commit_combined E rmid btid s)))
     else if op_code = XA_OP_ROLLBACK then Some (reason (tm_rollback_combined E rmid btid s))
     else if op_code = XA_OP_FORGET then Some (reason (tm_forget_combined E rmid btid s))
     else None)"

text \<open>What the pass over the branches carries along: the entry, the votes so far, whether a
  call asked for a retry, the stage to jump to, whether the pass failed.\<close>

record drive_acc =
  da_p :: xa_log
  da_votes :: "btid_vote list"
  da_retry :: bool
  da_jump :: "int option"
  da_err :: bool

text \<open>The vote of one branch is recorded and may end the pass.\<close>

definition drive_vote ::
  "tm_env \<Rightarrow> txstage_descriptor \<Rightarrow> rm_status_btid \<Rightarrow> int \<Rightarrow> drive_acc \<Rightarrow> tm_st \<Rightarrow> drive_acc \<times> tm_st" where
  "drive_vote E descr el rm_vote_next_txstage acc s =
    (if \<not> e_alloc E (st_tick s) then (acc\<lparr>da_err := True\<rparr>, tick s)
     else let vote = \<lparr>v_rmid = bt_rmid el, v_stage = rm_vote_next_txstage, v_btid = bt_btid el\<rparr>;
              acc1 = acc\<lparr>da_votes := da_votes acc @ [vote]\<rparr>
          in if (s_txs_stage_min descr > rm_vote_next_txstage \<or>
                 s_txs_max_complete descr < rm_vote_next_txstage) \<and>
                s_allow_jump descr \<and> rm_vote_next_txstage < XA_TX_STAGE_PREPARING
             then (acc1\<lparr>da_jump := Some rm_vote_next_txstage\<rparr>, tick s)
             else (acc1, tick s))"

text \<open>One branch: the operation its status needs, the transition, the logged new status.\<close>

definition drive_branch ::
  "tm_env \<Rightarrow> txstage_descriptor \<Rightarrow> int \<Rightarrow> rm_status_btid \<Rightarrow> drive_acc \<Rightarrow> tm_st \<Rightarrow> drive_acc \<times> tm_st" where
  "drive_branch E descr rmid el acc s =
    (let p_tl = da_p acc; txstage = tl_txstage p_tl;
         op_code = xa_status_get_op txstage (bt_rmstatus el) in
     case drive_op E op_code rmid (bt_btid el) s of
       None \<Rightarrow> (acc\<lparr>da_err := True\<rparr>, s)
     | Some (op_reason, s1) \<Rightarrow>
         let acc1 = (if txstage \<noteq> XA_TX_STAGE_PREPARING \<and>
                        (op_reason = XA_RETRY \<or> op_reason = XAER_RMFAIL)
                     then acc\<lparr>da_retry := True\<rparr> else acc)
         in if op_code = XA_OP_NOP
            then (case xa_status_get_next_by_new_status txstage (bt_rmstatus el) of
                    None \<Rightarrow> (acc1, s1)
                  | Some vote_txstage \<Rightarrow> drive_vote E descr el (d_next_txstage vote_txstage) acc1 s1)
            else (case xa_status_get_next_by_op txstage (bt_rmstatus el) op_code op_reason of
                    None \<Rightarrow> (acc1\<lparr>da_err := True\<rparr>, s1)
                  | Some vote_txstage \<Rightarrow>
                      (case tms_log_rmstatus E p_tl rmid el (d_next_rmstatus vote_txstage)
                              (st_tperrno s1) op_reason s1 of
                         (ret, p1, s2) \<Rightarrow>
                           drive_vote E descr el
                             (if ret \<noteq> EXSUCCEED \<and> txstage = XA_TX_STAGE_PREPARING
                              then XA_TX_STAGE_ABORTING else d_next_txstage vote_txstage)
                             (acc1\<lparr>da_p := p1\<rparr>) s2)))"

text \<open>The branches in the order of the loops over resource managers and their tables.\<close>

definition branch_keys :: "xa_log \<Rightarrow> (int \<times> int) list" where
  "branch_keys p = concat (map (\<lambda>i. map (\<lambda>b. (int i + 1, bt_btid b)) (btid_hash (tl_rmstatus p ! i)))
     [0..<NDRX_MAX_RMS])"

fun drive_branches ::
  "tm_env \<Rightarrow> txstage_descriptor \<Rightarrow> (int \<times> int) list \<Rightarrow> drive_acc \<Rightarrow> tm_st \<Rightarrow> drive_acc \<times> tm_st" where
  "drive_branches E descr [] acc s = (acc, s)"
| "drive_branches E descr ((rmid, btid) # ks) acc s =
    (case tms_btid_find (da_p acc) rmid btid of
       None \<Rightarrow> drive_branches E descr ks acc s
     | Some el \<Rightarrow>
         (case drive_branch E descr rmid el acc s of (acc1, s1) \<Rightarrow>
            if da_err acc1 \<or> da_jump acc1 \<noteq> None then (acc1, s1)
            else drive_branches E descr ks acc1 s1))"

text \<open>The new stage out of the votes.\<close>

definition min_in_overall :: "btid_vote list \<Rightarrow> int" where
  "min_in_overall votes =
     foldl (\<lambda>m ve. if v_stage ve < m then v_stage ve else m) XA_TX_STAGE_MAX_NEVER votes"

definition max_in_overall :: "btid_vote list \<Rightarrow> int" where
  "max_in_overall votes =
     foldl (\<lambda>m ve. if v_stage ve > m then v_stage ve else m) XA_TX_STAGE_MIN_NEVER votes"

definition min_in_group :: "txstage_descriptor \<Rightarrow> btid_vote list \<Rightarrow> int" where
  "min_in_group descr votes =
     foldl (\<lambda>m ve. if s_txs_stage_min descr \<le> v_stage ve \<and> s_txs_max_complete descr \<ge> v_stage ve \<and>
                      m < v_stage ve then v_stage ve else m) XA_TX_STAGE_MAX_NEVER votes"

definition calc_stage :: "txstage_descriptor \<Rightarrow> btid_vote list \<Rightarrow> int" where
  "calc_stage descr votes =
    (let new_txstage =
       (if s_txs_min_complete descr \<le> min_in_overall votes \<and>
           min_in_overall votes \<le> s_txs_max_complete descr \<and>
           max_in_overall votes > s_txs_max_complete descr
        then max_in_overall votes
        else if min_in_group descr votes \<noteq> XA_TX_STAGE_MAX_NEVER then min_in_group descr votes
        else min_in_overall votes)
     in if new_txstage = XA_TX_STAGE_MAX_NEVER then s_txs_max_complete descr else new_txstage)"

text \<open>The logged switch of the stage; a commit decision that cannot be logged becomes an
  abort, and when that cannot be logged either the process ends.  The result says whether
  the loop goes round again.\<close>

definition drive_switch ::
  "tm_env \<Rightarrow> xa_log \<Rightarrow> txstage_descriptor \<Rightarrow> int \<Rightarrow> tm_st \<Rightarrow> (tm_st, bool \<times> xa_log) outcome" where
  "drive_switch E p_tl descr new_txstage s =
    (if new_txstage \<noteq> s_txstage descr \<and> new_txstage \<noteq> XA_TX_STAGE_MAX_NEVER
     then andthen (tms_log_stage E p_tl new_txstage (new_txstage \<noteq> XA_TX_STAGE_COMMITTING) s)
       (\<lambda>(ret, p1) s1.
         if ret \<noteq> EXSUCCEED
         then andthen (tms_log_stage E p1 XA_TX_STAGE_ABORTING False s1)
           (\<lambda>(ret, p2) s2. if ret \<noteq> EXSUCCEED then Exit EXFAIL s2 else Ret (True, p2) s2)
         else Ret (True, p1) s1)
     else Ret (False, p_tl) s)"

text \<open>How a round ends: \<^verbatim>\<open>goto out\<close> with a return code, another round with the number of
  tries, or the end of the loop with the descriptor of the stage it ran in.\<close>

datatype drive_end =
    DrOut int xa_log
  | DrAgain xa_log int
  | DrDone xa_log txstage_descriptor

definition drive_round ::
  "tm_env \<Rightarrow> int \<Rightarrow> xa_log \<Rightarrow> int \<Rightarrow> tm_st \<Rightarrow> (tm_st, drive_end) outcome" where
  "drive_round E flags p_tl try s =
    (case xa_stage_get_descr (tl_txstage p_tl) of
       None \<Rightarrow> Ret (DrOut TPESYSTEM p_tl) s
     | Some descr \<Rightarrow>
         (case drive_branches E descr (branch_keys p_tl)
                 \<lparr>da_p = p_tl, da_votes = [], da_retry = False, da_jump = None, da_err = False\<rparr> s of
            (acc, s1) \<Rightarrow>
              if da_err acc then Ret (DrOut TPESYSTEM (da_p acc)) s1
              else let new_txstage = (case da_jump acc of Some st \<Rightarrow> st
                                      | None \<Rightarrow> calc_stage descr (da_votes acc))
                   in andthen (drive_switch E (da_p acc) descr new_txstage s1)
                     (\<lambda>(switched, p1) s2.
                       if bit flags 2 \<and> s_txstage descr = XA_TX_STAGE_COMMITTING
                       then Ret (DrOut EXSUCCEED p1) s2
                       else let try1 = (if da_retry acc then try + 1 else 0);
                                again = (da_jump acc \<noteq> None \<or> switched \<or>
                                         da_retry acc \<and> try1 < e_xa_retries E)
                            in if again then Ret (DrAgain p1 try1) s2
                               else Ret (DrDone p1 descr) s2)))"

section \<open>What one round does\<close>

text \<open>The operations a stage may send to resource managers.\<close>

definition op_stage :: "int \<Rightarrow> int \<Rightarrow> bool" where
  "op_stage op st \<longleftrightarrow>
     op = XA_OP_PREPARE \<and> st = XA_TX_STAGE_PREPARING \<or>
     op = XA_OP_COMMIT \<and> st = XA_TX_STAGE_COMMITTING \<or>
     op = XA_OP_ROLLBACK \<and> st = XA_TX_STAGE_ABORTING \<or>
     op = XA_OP_FORGET \<and> (st = XA_TX_STAGE_COMFORGETTING \<or> st = XA_TX_STAGE_ABFORGETTING)"

definition drive_ev :: "string \<Rightarrow> int \<Rightarrow> tm_event \<Rightarrow> bool" where
  "drive_ev f st ev \<longleftrightarrow> log_ev f ev \<or> (\<exists>op rmid btid. ev = EvXa op rmid btid \<and> op_stage op st)"

lemma get_op_stage: "xa_status_get_op st x \<noteq> XA_OP_NOP \<Longrightarrow> op_stage (xa_status_get_op st x) st"
  by (auto simp: xa_status_get_op_eq op_stage_def split: if_splits)

lemma rm_call_step: "P (EvXa op rmid btid) \<Longrightarrow> journal_step f P s (snd (rm_call E op rmid btid s))"
  by (auto simp: rm_call_def journal_step_def split: prod.splits)

lemma rm_call_reason: "is_short (st_reason (snd (rm_call E op rmid btid s)))"
  by (simp add: rm_call_def split: prod.splits)

text \<open>The local and the remote route of every operation are one call of the manager.\<close>

lemmas combined_defs = tm_prepare_combined_def tm_commit_combined_def tm_rollback_combined_def
  tm_forget_combined_def tm_prepare_local_def tm_commit_local_def tm_rollback_local_def
  tm_forget_local_def tm_prepare_remote_call_def tm_commit_remote_call_def
  tm_rollback_remote_call_def tm_forget_remote_call_def

lemma combined_call:
  "snd (tm_prepare_combined E rmid btid s) = snd (rm_call E XA_OP_PREPARE rmid btid s)"
  "snd (tm_commit_combined E rmid btid s) = snd (rm_call E XA_OP_COMMIT rmid btid s)"
  "snd (tm_rollback_combined E rmid btid s) = snd (rm_call E XA_OP_ROLLBACK rmid btid s)"
  "snd (tm_forget_combined E rmid btid s) = snd (rm_call E XA_OP_FORGET rmid btid s)"
  "fst (tm_prepare_combined E rmid btid s) = EXSUCCEED \<longleftrightarrow> fst (rm_call E XA_OP_PREPARE rmid btid s) = EXSUCCEED"
  "fst (tm_commit_combined E rmid btid s) = EXSUCCEED \<longleftrightarrow> fst (rm_call E XA_OP_COMMIT rmid btid s) = EXSUCCEED"
  "fst (tm_rollback_combined E rmid btid s) = EXSUCCEED \<longleftrightarrow> fst (rm_call E XA_OP_ROLLBACK rmid btid s) = EXSUCCEED"
  "fst (tm_forget_combined E rmid btid s) = EXSUCCEED \<longleftrightarrow> fst (rm_call E XA_OP_FORGET rmid btid s) = EXSUCCEED"
  by (auto simp: combined_defs split: prod.splits)

lemma drive_op_cases:
  assumes "drive_op E op rmid btid s = Some (reason, s1)"
  shows "op = XA_OP_NOP \<and> reason = XA_OK \<and> s1 = s \<or>
    op = XA_OP_COMMIT \<and> e_tmscommit E \<and> reason = XAER_RMERR \<and> s1 = s \<or>
    op \<noteq> XA_OP_NOP \<and> s1 = snd (rm_call E op rmid btid s) \<and>
      reason = (if fst (rm_call E op rmid btid s) \<noteq> EXSUCCEED then st_reason s1 else XA_OK)"
  using assms combined_call[of E rmid btid s]
  by (auto simp: drive_op_def Let_def case_prod_beta split: if_splits)

lemma drive_op_step:
  assumes "drive_op E (xa_status_get_op st x) rmid btid s = Some (reason, s1)"
  shows "journal_step f (drive_ev f st) s s1 \<and> is_short reason"
  using drive_op_cases[OF assms] get_op_stage[of st x] rm_call_reason[of E _ rmid btid s]
  by (auto simp: drive_ev_def is_short_def intro!: rm_call_step)

definition same_entry :: "xa_log \<Rightarrow> xa_log \<Rightarrow> bool" where
  "same_entry p p' \<longleftrightarrow> (\<exists>r. p' = p\<lparr>tl_rmstatus := r\<rparr>)"

lemma same_entry_refl [simp, intro]: "same_entry p p"
  unfolding same_entry_def by (rule exI[of _ "tl_rmstatus p"]) simp

lemma same_entry_trans: "same_entry p q \<Longrightarrow> same_entry q r \<Longrightarrow> same_entry p r"
  by (auto simp: same_entry_def)

lemma same_entry_fields:
  "same_entry p p' \<Longrightarrow> tl_txstage p' = tl_txstage p \<and> tl_fname p' = tl_fname p \<and> tl_f p' = tl_f p \<and>
     tl_lockthreadid p' = tl_lockthreadid p \<and> tl_log_version p' = tl_log_version p \<and>
     tl_tmxid p' = tl_tmxid p \<and> tl_is_background p' = tl_is_background p"
  by (auto simp: same_entry_def)

lemma same_entry_bt_put: "same_entry p (bt_put p rmid el)"
  by (auto simp: bt_put_def rm_set_def same_entry_def)

lemma log_rmstatus_entry: "same_entry p (fst (snd (tms_log_rmstatus E p rmid bt st ec rs s)))"
  by (auto simp: tms_log_rmstatus_def Let_def same_entry_bt_put split: prod.splits)

text \<open>What holds all along the pass over the branches of an entry in stage \<open>st\<close>.\<close>

definition pass_ok :: "int \<Rightarrow> xa_log \<Rightarrow> tm_st \<Rightarrow> drive_acc \<Rightarrow> tm_st \<Rightarrow> bool" where
  "pass_ok st p0 s0 acc s \<longleftrightarrow> same_entry p0 (da_p acc) \<and>
     (\<forall>v \<in> set (da_votes acc). v_stage v \<in> stage_votes st) \<and>
     (\<forall>v. da_jump acc = Some v \<longrightarrow> v \<in> stage_votes st \<and> v < XA_TX_STAGE_PREPARING \<and> s_allow_jump (the (xa_stage_get_descr st))) \<and>
     journal_step (tl_fname p0) (drive_ev (tl_fname p0) st) s0 s"

lemma drive_vote_ok:
  assumes "pass_ok st p0 s0 acc s" "v \<in> stage_votes st" "xa_stage_get_descr st = Some descr"
    and "drive_vote E descr el v acc s = (acc', s')"
  shows "pass_ok st p0 s0 acc' s'"
  using assms by (auto simp: drive_vote_def pass_ok_def Let_def split: if_splits)

lemma preparing_abort_vote: "XA_TX_STAGE_ABORTING \<in> stage_votes XA_TX_STAGE_PREPARING"
  by (simp add: stage_votes_def)

lemma drive_branch_ok:
  assumes ok: "pass_ok st p0 s0 acc s" and st: "tl_txstage p0 = st"
    and descr: "xa_stage_get_descr st = Some descr"
    and run: "drive_branch E descr rmid el acc s = (acc', s')"
  shows "pass_ok st p0 s0 acc' s'"
proof -
  let ?f = "tl_fname p0" and ?op = "xa_status_get_op st (bt_rmstatus el)"
  have same: "same_entry p0 (da_p acc)" using ok by (simp add: pass_ok_def)
  then have txs: "tl_txstage (da_p acc) = st" and fn: "tl_fname (da_p acc) = ?f"
    using st by (auto dest: same_entry_fields)
  show ?thesis
  proof (cases "drive_op E ?op rmid (bt_btid el) s")
    case None
    then show ?thesis using run ok txs by (auto simp: drive_branch_def pass_ok_def Let_def)
  next
    case (Some z)
    obtain reason s1 where z: "z = (reason, s1)" by (cases z)
    define acc1 where "acc1 = (if st \<noteq> XA_TX_STAGE_PREPARING \<and> (reason = XA_RETRY \<or> reason = XAER_RMFAIL)
                     then acc\<lparr>da_retry := True\<rparr> else acc)"
    have "journal_step ?f (drive_ev ?f st) s s1" using drive_op_step Some z by blast
    then have ok1: "pass_ok st p0 s0 acc1 s1"
      using ok by (auto simp: pass_ok_def acc1_def intro: journal_step_trans)
    obtain ret p1 s2 where lg: "\<And>r. xa_status_get_next_by_op st (bt_rmstatus el) ?op reason = Some r \<Longrightarrow>
        tms_log_rmstatus E (da_p acc) rmid el (d_next_rmstatus r) (st_tperrno s1) reason s1 = (ret, p1, s2)"
      by (metis (no_types) option.inject prod_cases3)
    show ?thesis
    proof (cases "?op = XA_OP_NOP")
      case True
      then show ?thesis
        using run Some z ok1 txs drive_vote_ok[OF ok1 next_by_new_status_vote descr]
        by (auto simp: drive_branch_def Let_def acc1_def split: option.splits)
    next
      case False
      show ?thesis
      proof (cases "xa_status_get_next_by_op st (bt_rmstatus el) ?op reason")
        case None
        then show ?thesis using run Some z ok1 txs False
          by (auto simp: drive_branch_def Let_def acc1_def pass_ok_def)
      next
        case (Some r)
        note lg = lg[OF this]
        have "journal_step ?f (log_ev ?f) s1 s2"
          using rmstatus_step[of "da_p acc" s1 E rmid el "d_next_rmstatus r" "st_tperrno s1" reason] lg fn
          by simp
        then have j: "journal_step ?f (drive_ev ?f st) s1 s2"
          by (rule journal_step_mono) (simp add: drive_ev_def)
        have e: "same_entry (da_p acc) p1"
          using log_rmstatus_entry[of "da_p acc" E rmid el "d_next_rmstatus r" "st_tperrno s1" reason s1] lg
          by simp
        have da: "da_p acc1 = da_p acc" by (simp add: acc1_def)
        have ok2: "pass_ok st p0 s0 (acc1\<lparr>da_p := p1\<rparr>) s2"
          using ok1 j e da by (auto simp: pass_ok_def intro: journal_step_trans same_entry_trans)
        have v: "(if ret \<noteq> EXSUCCEED \<and> st = XA_TX_STAGE_PREPARING then XA_TX_STAGE_ABORTING
            else d_next_txstage r) \<in> stage_votes st"
          using next_by_op_vote[OF Some] preparing_abort_vote by simp
        show ?thesis
          using run \<open>drive_op E ?op rmid (bt_btid el) s = Some z\<close> z lg Some False txs
            drive_vote_ok[OF ok2 v descr]
          by (simp add: drive_branch_def Let_def acc1_def)
      qed
    qed
  qed
qed

lemma drive_branches_ok:
  assumes "pass_ok st p0 s0 acc s" "tl_txstage p0 = st" "xa_stage_get_descr st = Some descr"
    and "drive_branches E descr ks acc s = (acc', s')"
  shows "pass_ok st p0 s0 acc' s'"
  using assms
proof (induction E descr ks acc s rule: drive_branches.induct)
  case (2 E descr rmid btid ks acc s)
  then show ?case using drive_branch_ok[OF 2(3,4,5)]
    by (auto split: option.splits prod.splits if_splits)
qed simp

subsection \<open>The new stage\<close>

lemma min_in_overall_mem:
  "min_in_overall votes = XA_TX_STAGE_MAX_NEVER \<or> min_in_overall votes \<in> v_stage ` set votes"
proof -
  have "foldl (\<lambda>m ve. if v_stage ve < m then v_stage ve else m) a votes = a \<or>
      foldl (\<lambda>m ve. if v_stage ve < m then v_stage ve else m) a votes \<in> v_stage ` set votes" for a
    by (induction votes arbitrary: a) auto
  then show ?thesis by (auto simp: min_in_overall_def)
qed

lemma max_in_overall_mem:
  "max_in_overall votes = XA_TX_STAGE_MIN_NEVER \<or> max_in_overall votes \<in> v_stage ` set votes"
proof -
  have "foldl (\<lambda>m ve. if v_stage ve > m then v_stage ve else m) a votes = a \<or>
      foldl (\<lambda>m ve. if v_stage ve > m then v_stage ve else m) a votes \<in> v_stage ` set votes" for a
    by (induction votes arbitrary: a) auto
  then show ?thesis by (auto simp: max_in_overall_def)
qed

lemma min_in_overall_le: "v \<in> set votes \<Longrightarrow> min_in_overall votes \<le> v_stage v"
proof -
  have "foldl (\<lambda>m ve. if v_stage ve < m then v_stage ve else m) a votes \<le> a \<and>
     (v \<in> set votes \<longrightarrow> foldl (\<lambda>m ve. if v_stage ve < m then v_stage ve else m) a votes \<le> v_stage v)" for a
    by (induction votes arbitrary: a) (auto, (smt (verit))+)
  then show "v \<in> set votes \<Longrightarrow> ?thesis" by (auto simp: min_in_overall_def)
qed

text \<open>The group minimum is never found: it starts above every stage.\<close>

lemma min_in_group_never:
  assumes "\<forall>v \<in> set votes. v_stage v < XA_TX_STAGE_MAX_NEVER"
  shows "min_in_group descr votes = XA_TX_STAGE_MAX_NEVER"
  unfolding min_in_group_def using assms by (induction votes) auto

lemma descr_max_lt_never: "xa_stage_get_descr st = Some d \<Longrightarrow>
   s_txs_max_complete d < XA_TX_STAGE_MAX_NEVER \<and> 0 \<le> s_txs_max_complete d \<and> 0 \<le> s_txstage d \<and>
   s_txstage d < XA_TX_STAGE_MAX_NEVER \<and> (s_allow_jump d \<longrightarrow> s_txstage d = XA_TX_STAGE_PREPARING)"
proof -
  have "list_all (\<lambda>d. s_txs_max_complete d < XA_TX_STAGE_MAX_NEVER \<and> 0 \<le> s_txs_max_complete d \<and>
      0 \<le> s_txstage d \<and> s_txstage d < XA_TX_STAGE_MAX_NEVER \<and> (s_allow_jump d \<longrightarrow> s_txstage d = XA_TX_STAGE_PREPARING)) G_state_descriptor"
    by code_simp
  then show "xa_stage_get_descr st = Some d \<Longrightarrow> ?thesis"
    using xa_stage_get_descr_Some[of st d] by (auto simp: list_all_iff)
qed

lemma calc_stage_mem:
  assumes "xa_stage_get_descr st = Some descr" "\<forall>v \<in> set votes. v_stage v \<in> stage_votes st"
  shows "calc_stage descr votes \<in> stage_votes st \<or> votes = [] \<and> calc_stage descr votes = s_txs_max_complete descr"
proof (cases votes)
  case Nil
  have "min_in_overall votes = XA_TX_STAGE_MAX_NEVER" by (simp add: min_in_overall_def Nil)
  moreover have "min_in_group descr votes = XA_TX_STAGE_MAX_NEVER" by (simp add: min_in_group_def Nil)
  moreover have "max_in_overall votes = XA_TX_STAGE_MIN_NEVER" by (simp add: max_in_overall_def Nil)
  ultimately show ?thesis using descr_max_lt_never[OF assms(1)] Nil by (auto simp: calc_stage_def)
next
  case (Cons v vs)
  have lt: "\<forall>v \<in> set votes. v_stage v < XA_TX_STAGE_MAX_NEVER"
    using assms(2) stage_votes_range by fastforce
  have "min_in_overall votes \<noteq> XA_TX_STAGE_MAX_NEVER"
    using min_in_overall_le[of v votes] lt Cons by auto
  then have mn: "min_in_overall votes \<in> stage_votes st"
    using min_in_overall_mem[of votes] assms(2) by auto
  have mx: "max_in_overall votes > s_txs_max_complete descr \<Longrightarrow> max_in_overall votes \<in> stage_votes st"
    using max_in_overall_mem[of votes] assms(2) descr_max_lt_never[OF assms(1)] by auto
  show ?thesis
    using mn mx min_in_group_never[OF lt] stage_votes_range[of "max_in_overall votes" st]
      stage_votes_range[OF mn] by (auto simp: calc_stage_def Let_def)
qed

definition new_stage :: "txstage_descriptor \<Rightarrow> drive_acc \<Rightarrow> int" where
  "new_stage descr acc = (case da_jump acc of Some st \<Rightarrow> st | None \<Rightarrow> calc_stage descr (da_votes acc))"

lemma new_stage_rank:
  assumes "pass_ok st p0 s0 acc s" "xa_stage_get_descr st = Some descr"
  shows "new_stage descr acc = st \<and> da_jump acc = None \<or> stage_rank (new_stage descr acc) < stage_rank st"
proof (cases "da_jump acc")
  case None
  then show ?thesis
    using calc_stage_mem[OF assms(2), of "da_votes acc"] assms(1) descr_max_complete_rank[OF assms(2)]
      stage_votes_rank by (auto simp: pass_ok_def new_stage_def)
next
  case (Some v)
  then have "v \<in> stage_votes st" "v < XA_TX_STAGE_PREPARING" "s_allow_jump descr"
    using assms by (auto simp: pass_ok_def)
  moreover have "s_txstage descr = st" using xa_stage_get_descr_Some[OF assms(2)] by simp
  ultimately have "v \<noteq> st" using descr_max_lt_never[OF assms(2)] by auto
  then show ?thesis using \<open>v \<in> stage_votes st\<close> Some stage_votes_rank by (auto simp: new_stage_def)
qed

subsection \<open>The switch\<close>

lemma seq_only_stage:
  "seq_only p p1 \<Longrightarrow> seq_only (p1\<lparr>tl_txstage := st\<rparr>) p' \<Longrightarrow> seq_only (p\<lparr>tl_txstage := st\<rparr>) p'"
  by (auto simp: seq_only_def)

lemma log_stage_forced:
  assumes "e_tid E = tl_lockthreadid p"
  shows "ores (\<lambda>(ret, p') s'. ret = EXSUCCEED) (\<lambda>_. True) (tms_log_stage E p stage True s)"
proof (cases "tl_txstage p = stage")
  case False
  have eq: "\<not> e_tid E \<noteq> tl_lockthreadid p" using assms by simp
  show ?thesis
    unfolding tms_log_stage_def Let_def if_not_P[OF False] if_not_P[OF eq] ores_andthen
    by (rule ores_mono[OF ores_True]) auto
qed (use assms in \<open>simp add: tms_log_stage_def\<close>)

lemma log_stage_mismatch:
  "e_tid E \<noteq> tl_lockthreadid p \<Longrightarrow> tms_log_stage E p stage forced s = Ret (EXFAIL, p) s"
  by (simp add: tms_log_stage_def)

text \<open>The events between two states end with a durable commit record.\<close>

definition commit_record :: "tm_env \<Rightarrow> xa_log \<Rightarrow> tm_event list \<Rightarrow> bool" where
  "commit_record E p evs \<longleftrightarrow> (\<exists>pre ts. evs = pre @ [EvWrite (tl_fname p)
      (stage_line (tl_log_version p) ts XA_TX_STAGE_COMMITTING), EvSync (tl_fname p) (sync_ops (e_fsync_flags E))])"

definition recorded :: "tm_env \<Rightarrow> xa_log \<Rightarrow> tm_st \<Rightarrow> tm_st \<Rightarrow> bool" where
  "recorded E p s s' \<longleftrightarrow> (\<exists>evs. st_trace s' = st_trace s @ evs \<and> commit_record E p evs)"

lemma recorded_trans: "journal_step f P s s1 \<Longrightarrow> recorded E p s1 s2 \<Longrightarrow> recorded E p s s2"
  unfolding recorded_def journal_step_def commit_record_def by (metis append.assoc)

lemma commit_logged_ores:
  assumes "tl_txstage p \<noteq> XA_TX_STAGE_COMMITTING"
  shows "ores (\<lambda>(ret, p') s'. ret = EXSUCCEED \<and> st_write_fail s = 0 \<longrightarrow> recorded E p s s')
     (\<lambda>_. True) (tms_log_stage E p XA_TX_STAGE_COMMITTING False s)"
  using commit_logged_durable[of E p s] assms
  by (cases "tms_log_stage E p XA_TX_STAGE_COMMITTING False s") (fastforce simp: recorded_def commit_record_def)+

text \<open>After a switch the entry is in the new stage, or in ABORTING when the commit decision
  could not be logged; after a switch to COMMITTING the record of it is durable.\<close>

definition switch_post :: "tm_env \<Rightarrow> xa_log \<Rightarrow> txstage_descriptor \<Rightarrow> int \<Rightarrow> tm_st \<Rightarrow> bool \<times> xa_log \<Rightarrow> tm_st \<Rightarrow> bool" where
  "switch_post E p descr new s r s' \<longleftrightarrow> journal_step (tl_fname p) (log_ev (tl_fname p)) s s' \<and>
      (if fst r then new \<noteq> s_txstage descr \<and>
         (seq_only (p\<lparr>tl_txstage := new\<rparr>) (snd r) \<and>
          (new = XA_TX_STAGE_COMMITTING \<and> st_write_fail s = 0 \<longrightarrow> recorded E p s s') \<or>
          new = XA_TX_STAGE_COMMITTING \<and> seq_only (p\<lparr>tl_txstage := XA_TX_STAGE_ABORTING\<rparr>) (snd r))
       else snd r = p \<and> s' = s \<and> (new = s_txstage descr \<or> new = XA_TX_STAGE_MAX_NEVER))"

lemma first_log_ores:
  assumes "tl_txstage p \<noteq> EXFAIL" "tl_txstage p \<noteq> new"
  shows "ores (\<lambda>(ret, p') s'. journal_step (tl_fname p) (log_ev (tl_fname p)) s s' \<and>
       seq_only (p\<lparr>tl_txstage := if ret = EXSUCCEED then new else tl_txstage p\<rparr>) p' \<and>
       (ret = EXSUCCEED \<and> new = XA_TX_STAGE_COMMITTING \<and> st_write_fail s = 0 \<longrightarrow>
          recorded E p s s') \<and>
       (ret \<noteq> EXSUCCEED \<longrightarrow> new = XA_TX_STAGE_COMMITTING \<or> e_tid E \<noteq> tl_lockthreadid p'))
     (journal_end (tl_fname p) (log_ev (tl_fname p)) s)
     (tms_log_stage E p new (new \<noteq> XA_TX_STAGE_COMMITTING) s)"
proof (cases "e_tid E = tl_lockthreadid p")
  case True
  show ?thesis
  proof (cases "new = XA_TX_STAGE_COMMITTING")
    case nc: True
    have m: "tms_log_stage E p new (new \<noteq> XA_TX_STAGE_COMMITTING) s =
        tms_log_stage E p XA_TX_STAGE_COMMITTING False s" using nc by simp
    show ?thesis unfolding m
      by (rule ores_mono[OF ores_conj[OF log_stage_ores[OF assms(1)] commit_logged_ores]])
        (use nc assms(2) in auto)
  next
    case nc: False
    have m: "tms_log_stage E p new (new \<noteq> XA_TX_STAGE_COMMITTING) s = tms_log_stage E p new True s"
      using nc by simp
    show ?thesis unfolding m
      by (rule ores_mono[OF ores_conj[OF log_stage_ores[OF assms(1)] log_stage_forced[OF True]]])
        (use nc in auto)
  qed
qed (simp add: log_stage_mismatch)

lemma second_log_ores:
  assumes "tl_txstage p \<noteq> EXFAIL" "seq_only p p1"
    and "journal_step (tl_fname p) (log_ev (tl_fname p)) s s1"
  shows "ores (\<lambda>(ret, p') s'. journal_step (tl_fname p) (log_ev (tl_fname p)) s s' \<and>
       (ret = EXSUCCEED \<longrightarrow> e_tid E = tl_lockthreadid p1 \<and>
          seq_only (p\<lparr>tl_txstage := XA_TX_STAGE_ABORTING\<rparr>) p'))
     (journal_end (tl_fname p) (log_ev (tl_fname p)) s)
     (tms_log_stage E p1 XA_TX_STAGE_ABORTING False s1)"
proof (cases "e_tid E = tl_lockthreadid p1")
  case True
  have p1: "tl_txstage p1 \<noteq> EXFAIL" "tl_fname p1 = tl_fname p"
    using seq_only_fields[OF assms(2)] assms(1) by auto
  show ?thesis
    by (rule ores_mono[OF log_stage_ores[OF p1(1)]])
      (use True journal_step_trans[OF assms(3)] journal_end_trans[OF assms(3)]
        seq_only_stage[OF assms(2)] in \<open>auto simp: p1(2)\<close>)
qed (use assms in \<open>simp add: log_stage_mismatch\<close>)

lemma drive_switch_ores:
  assumes "tl_txstage p \<noteq> EXFAIL" "tl_txstage p = s_txstage descr"
  shows "ores (switch_post E p descr new s) (journal_end (tl_fname p) (log_ev (tl_fname p)) s)
     (drive_switch E p descr new s)"
proof (cases "new \<noteq> s_txstage descr \<and> new \<noteq> XA_TX_STAGE_MAX_NEVER")
  case True
  then have ne: "tl_txstage p \<noteq> new" using assms(2) by simp
  show ?thesis
    unfolding drive_switch_def if_P[OF True] ores_andthen
  proof (rule ores_mono[OF first_log_ores[OF assms(1) ne]], goal_cases)
    case (1 a s1)
    obtain ret p1 where a: "a = (ret, p1)" by (cases a)
    show ?case
    proof (cases "ret = EXSUCCEED")
      case False
      have sq: "seq_only p p1" and J: "journal_step (tl_fname p) (log_ev (tl_fname p)) s s1"
        using 1 a False by auto
      have nc: "new = XA_TX_STAGE_COMMITTING \<or> e_tid E \<noteq> tl_lockthreadid p1" using 1 a False by auto
      have "ores (\<lambda>a s2. ores (switch_post E p descr new s)
           (journal_end (tl_fname p) (log_ev (tl_fname p)) s)
           ((\<lambda>(ret, p2) s2. if ret \<noteq> EXSUCCEED then Exit EXFAIL s2 else Ret (True, p2) s2) a s2))
           (journal_end (tl_fname p) (log_ev (tl_fname p)) s)
          (tms_log_stage E p1 XA_TX_STAGE_ABORTING False s1)"
        by (rule ores_mono[OF second_log_ores[OF assms(1) sq J]])
          (use nc True in \<open>auto simp: switch_post_def intro: journal_step_end\<close>)
      then show ?thesis using False a by simp
    qed (use 1 a True in \<open>auto simp: switch_post_def\<close>)
  qed simp
qed (auto simp: drive_switch_def switch_post_def)

subsection \<open>The round\<close>

definition entry_kept :: "xa_log \<Rightarrow> xa_log \<Rightarrow> bool" where
  "entry_kept p p' \<longleftrightarrow> (\<exists>st r q. p' = p\<lparr>tl_txstage := st, tl_rmstatus := r, tl_sg_sequence := q\<rparr>)"

lemma entry_kept_refl [simp, intro]: "entry_kept p p"
  unfolding entry_kept_def
  by (rule exI[of _ "tl_txstage p"], rule exI[of _ "tl_rmstatus p"], rule exI[of _ "tl_sg_sequence p"]) simp

lemma entry_kept_trans: "entry_kept p q \<Longrightarrow> entry_kept q r \<Longrightarrow> entry_kept p r"
  unfolding entry_kept_def by (elim exE, simp) blast

lemma entry_kept_fields:
  "entry_kept p p' \<Longrightarrow> tl_fname p' = tl_fname p \<and> tl_f p' = tl_f p \<and>
     tl_lockthreadid p' = tl_lockthreadid p \<and> tl_log_version p' = tl_log_version p \<and>
     tl_tmxid p' = tl_tmxid p \<and> tl_is_background p' = tl_is_background p"
  by (auto simp: entry_kept_def)

lemma same_entry_kept: "same_entry p p' \<Longrightarrow> entry_kept p p'"
  unfolding same_entry_def entry_kept_def
  by (metis xa_log.surjective xa_log.update_convs(17) xa_log.update_convs(7) xa_log.update_convs(8))

lemma seq_only_kept: "seq_only (p\<lparr>tl_txstage := st\<rparr>) p' \<Longrightarrow> entry_kept p p' \<and> tl_txstage p' = st"
  unfolding seq_only_def entry_kept_def
  by (metis xa_log.surjective xa_log.update_convs(17) xa_log.update_convs(7) xa_log.update_convs(8)
      xa_log.select_convs(7))

text \<open>The stages a stage can hand over to.\<close>

definition next_stage :: "int \<Rightarrow> int \<Rightarrow> bool" where
  "next_stage st st' \<longleftrightarrow> st' \<noteq> st \<and> (st' \<in> stage_votes st \<or>
     (\<exists>d. xa_stage_get_descr st = Some d \<and> st' = s_txs_max_complete d))"

lemma next_stage_rank: "next_stage st st' \<Longrightarrow> stage_rank st' < stage_rank st"
  using stage_votes_rank descr_max_complete_rank by (auto simp: next_stage_def)

lemma new_stage_next:
  assumes "pass_ok st p0 s0 acc s" "xa_stage_get_descr st = Some descr"
  shows "new_stage descr acc = st \<and> da_jump acc = None \<or> next_stage st (new_stage descr acc)"
  using new_stage_rank[OF assms] calc_stage_mem[OF assms(2), of "da_votes acc"] assms
  by (cases "da_jump acc") (auto simp: new_stage_def next_stage_def pass_ok_def)

definition round_post :: "tm_env \<Rightarrow> xa_log \<Rightarrow> int \<Rightarrow> tm_st \<Rightarrow> drive_end \<Rightarrow> tm_st \<Rightarrow> bool" where
  "round_post E p try s r s' \<longleftrightarrow>
     journal_step (tl_fname p) (drive_ev (tl_fname p) (tl_txstage p)) s s' \<and>
     (case r of
        DrOut ret p' \<Rightarrow> entry_kept p p' \<and>
          (ret = TPESYSTEM \<or> ret = EXSUCCEED \<and> tl_txstage p = XA_TX_STAGE_COMMITTING) \<and>
          (tl_txstage p' = tl_txstage p \<or>
           tl_txstage p = XA_TX_STAGE_COMMITTING \<and> next_stage (tl_txstage p) (tl_txstage p'))
      | DrAgain p' try' \<Rightarrow> entry_kept p p' \<and> (0 \<le> try \<longrightarrow> 0 \<le> try') \<and>
          (tl_txstage p' = tl_txstage p \<and> try' = try + 1 \<and> try' < e_xa_retries E \<or>
           next_stage (tl_txstage p) (tl_txstage p') \<and>
           (tl_txstage p' = XA_TX_STAGE_COMMITTING \<and> st_write_fail s = 0 \<longrightarrow> recorded E p s s'))
      | DrDone p' d \<Rightarrow> entry_kept p p' \<and> tl_txstage p' = tl_txstage p \<and>
          xa_stage_get_descr (tl_txstage p) = Some d)"

lemma recorded_kept: "entry_kept p p' \<Longrightarrow> recorded E p' s s' = recorded E p s s'"
  using entry_kept_fields by (simp add: recorded_def commit_record_def)

lemma next_committing: "next_stage st XA_TX_STAGE_COMMITTING \<Longrightarrow> next_stage st XA_TX_STAGE_ABORTING"
proof -
  have "list_all (\<lambda>d. s_txs_max_complete d \<noteq> XA_TX_STAGE_COMMITTING) G_state_descriptor" by code_simp
  then have "xa_stage_get_descr st = Some d \<Longrightarrow> s_txs_max_complete d \<noteq> XA_TX_STAGE_COMMITTING" for d
    using xa_stage_get_descr_Some[of st d] by (auto simp: list_all_iff)
  then show "next_stage st XA_TX_STAGE_COMMITTING \<Longrightarrow> ?thesis"
    by (force simp: next_stage_def stage_votes_def split: if_splits)
qed

text \<open>The state after the pass over the branches, and after the switch.\<close>

lemma switch_after_pass:
  assumes ok: "pass_ok st p s acc s1" and st: "tl_txstage p = st"
    and descr: "xa_stage_get_descr st = Some descr"
    and sw: "switch_post E (da_p acc) descr (new_stage descr acc) s1 (switched, p1) s2"
  shows "journal_step (tl_fname p) (drive_ev (tl_fname p) st) s s2 \<and> entry_kept p p1 \<and>
    (if switched then next_stage st (tl_txstage p1) \<and>
       (tl_txstage p1 = XA_TX_STAGE_COMMITTING \<and> st_write_fail s = 0 \<longrightarrow> recorded E p s s2)
     else tl_txstage p1 = st \<and> da_jump acc = None)"
proof -
  have d: "s_txstage descr = st" using xa_stage_get_descr_Some[OF descr] by simp
  have k: "entry_kept p (da_p acc)" and f: "tl_fname (da_p acc) = tl_fname p"
    and js: "journal_step (tl_fname p) (drive_ev (tl_fname p) st) s s1"
    and txs: "tl_txstage (da_p acc) = st"
    using ok st same_entry_kept same_entry_fields by (auto simp: pass_ok_def)
  have "journal_step (tl_fname p) (log_ev (tl_fname p)) s1 s2" using sw f by (simp add: switch_post_def)
  then have J: "journal_step (tl_fname p) (drive_ev (tl_fname p) st) s s2"
    by (intro journal_step_trans[OF js]) (erule journal_step_mono, simp add: drive_ev_def)
  have wf: "st_write_fail s1 = st_write_fail s" using js by (simp add: journal_step_def)
  note nx = new_stage_next[OF ok descr]
  show ?thesis
  proof (cases switched)
    case True
    then have ne: "new_stage descr acc \<noteq> st" using sw d by (simp add: switch_post_def)
    then have nx: "next_stage st (new_stage descr acc)" using nx by simp
    from True sw consider
       (a) "seq_only ((da_p acc)\<lparr>tl_txstage := new_stage descr acc\<rparr>) p1"
           "new_stage descr acc = XA_TX_STAGE_COMMITTING \<and> st_write_fail s = 0 \<longrightarrow>
              recorded E (da_p acc) s1 s2"
     | (b) "new_stage descr acc = XA_TX_STAGE_COMMITTING"
           "seq_only ((da_p acc)\<lparr>tl_txstage := XA_TX_STAGE_ABORTING\<rparr>) p1"
      by (auto simp: switch_post_def wf)
    then show ?thesis
    proof cases
      case a
      show ?thesis
        using True J nx a(2) seq_only_kept[OF a(1)] entry_kept_trans[OF k] recorded_kept[OF k]
          recorded_trans[OF js] by auto
    next
      case b
      show ?thesis
        using True J nx b(1) seq_only_kept[OF b(2)] entry_kept_trans[OF k] next_committing by auto
    qed
  next
    case False
    have "new_stage descr acc \<noteq> XA_TX_STAGE_MAX_NEVER"
    proof
      assume n: "new_stage descr acc = XA_TX_STAGE_MAX_NEVER"
      show False
        using nx n stage_votes_range[of XA_TX_STAGE_MAX_NEVER st] descr_max_lt_never[OF descr] d
          descr_max_lt_never[of XA_TX_STAGE_MAX_NEVER descr] descr
        by (auto simp: next_stage_def)
    qed
    then show ?thesis
      using False sw d J k txs nx by (auto simp: switch_post_def next_stage_def)
  qed
qed

lemma drive_round_ores:
  "ores (round_post E p try s) (journal_end (tl_fname p) (drive_ev (tl_fname p) (tl_txstage p)) s)
     (drive_round E flags p try s)"
proof (cases "xa_stage_get_descr (tl_txstage p)")
  case (Some descr)
  let ?acc0 = "\<lparr>da_p = p, da_votes = [], da_retry = False, da_jump = None, da_err = False\<rparr>"
  obtain acc s1 where pass: "drive_branches E descr (branch_keys p) ?acc0 s = (acc, s1)"
    by (meson surj_pair)
  have ok: "pass_ok (tl_txstage p) p s acc s1"
    by (rule drive_branches_ok[OF _ refl Some pass]) (simp add: pass_ok_def)
  then have js: "journal_step (tl_fname p) (drive_ev (tl_fname p) (tl_txstage p)) s s1"
    and se: "same_entry p (da_p acc)" by (auto simp: pass_ok_def)
  have f: "tl_fname (da_p acc) = tl_fname p" and txs: "tl_txstage (da_p acc) = s_txstage descr"
      "tl_txstage (da_p acc) = tl_txstage p"
    using same_entry_fields[OF se] xa_stage_get_descr_Some[OF Some] by auto
  have ne: "tl_txstage (da_p acc) \<noteq> EXFAIL" using descr_max_lt_never[OF Some] txs by auto
  show ?thesis
  proof (cases "da_err acc")
    case True
    then show ?thesis using Some pass js same_entry_kept[OF se] txs
      by (simp add: drive_round_def round_post_def)
  next
    case False
    have eq: "drive_round E flags p try s = andthen (drive_switch E (da_p acc) descr (new_stage descr acc) s1)
       (\<lambda>(switched, p1) s2.
           if bit flags 2 \<and> s_txstage descr = XA_TX_STAGE_COMMITTING
           then Ret (DrOut EXSUCCEED p1) s2
           else let try1 = (if da_retry acc then try + 1 else 0);
                    again = (da_jump acc \<noteq> None \<or> switched \<or> da_retry acc \<and> try1 < e_xa_retries E)
                in if again then Ret (DrAgain p1 try1) s2 else Ret (DrDone p1 descr) s2)"
      using Some pass False by (simp add: drive_round_def new_stage_def)
    show ?thesis
      unfolding eq ores_andthen
    proof (rule ores_mono[OF drive_switch_ores[OF ne txs(1)]], goal_cases)
      case (1 a s2)
      obtain sw p1 where a: "a = (sw, p1)" by (cases a)
      from switch_after_pass[OF ok refl Some 1[unfolded a]] show ?case
        using a Some txs by (auto simp: round_post_def Let_def split: if_splits)
    next
      case (2 s2)
      have "journal_end (tl_fname p) (drive_ev (tl_fname p) (tl_txstage p)) s1 s2"
        using 2 f by (auto elim: journal_end_mono simp: drive_ev_def)
      then show ?case by (rule journal_end_trans[OF js])
    qed
  qed
qed (simp add: drive_round_def round_post_def)

section \<open>The loop\<close>

declare drive_end.case_cong [fundef_cong]

function tm_drive_loop ::
  "tm_env \<Rightarrow> int \<Rightarrow> xa_log \<Rightarrow> int \<Rightarrow> tm_st \<Rightarrow> (tm_st, drive_end) outcome" where
  "tm_drive_loop E flags p_tl try s =
    andthen (drive_round E flags p_tl try s)
      (\<lambda>r s1. case r of
          DrAgain p1 try1 \<Rightarrow> tm_drive_loop E flags p1 try1 s1
        | _ \<Rightarrow> Ret r s1)"
  by pat_completeness auto

termination
proof (relation "measures [\<lambda>(E, flags, p, try, s). stage_rank (tl_txstage p),
    \<lambda>(E, flags, p, try, s). nat (e_xa_retries E - try)]", simp, goal_cases)
  case (1 E flags p_tl n s r s1 p1 n1)
  then have "round_post E p_tl n s (DrAgain p1 n1) s1"
    using drive_round_ores[of E p_tl n s flags] by (metis ores_RetD)
  then show ?case using next_stage_rank by (fastforce simp: round_post_def)
qed

declare tm_drive_loop.simps [simp del]

text \<open>The end of tm_drive for a transaction that is not finished: the background takes it over,
  and the lock is given up.\<close>

definition drive_leave :: "tm_env \<Rightarrow> xa_log \<Rightarrow> tm_st \<Rightarrow> tm_st" where
  "drive_leave E p_tl s =
    (let p1 = (if \<not> tl_is_background p_tl then p_tl\<lparr>tl_is_background := True\<rparr> else p_tl)
     in snd (snd (tms_unlock_entry E p1 s)))"

definition tm_drive :: "tm_env \<Rightarrow> xa_log \<Rightarrow> int \<Rightarrow> int \<Rightarrow> tm_st \<Rightarrow> (tm_st, int) outcome" where
  "tm_drive E p_tl master_op flags s =
    andthen (tm_drive_loop E flags p_tl 0 s)
      (\<lambda>r s1. case r of
          DrOut ret p1 \<Rightarrow> Ret ret (drive_leave E p1 s1)
        | DrDone p1 descr \<Rightarrow>
            let ret = xa_txstage2tperrno (s_txstage descr) master_op
            in if s_txstage descr \<ge> s_txs_min_complete descr \<and>
                  s_txstage descr \<le> s_txs_max_complete descr
               then Ret ret (tms_remove_logfile E p1 True s1)
               else Ret ret (drive_leave E p1 s1)
        | DrAgain p1 try1 \<Rightarrow> Ret TPESYSTEM s1)"

text \<open>The rule for the loop: an invariant that every round keeps, a postcondition that the
  last round establishes, and one for a process that ends in the middle of a round.\<close>

lemma drive_loop_rule:
  assumes again: "\<And>p n s p' n' s'. I p s \<Longrightarrow> round_post E p n s (DrAgain p' n') s' \<Longrightarrow> I p' s'"
    and stop: "\<And>p n s r s'. I p s \<Longrightarrow> round_post E p n s r s' \<Longrightarrow> \<forall>p' n'. r \<noteq> DrAgain p' n' \<Longrightarrow> Q r s'"
    and fin: "\<And>p s s'. I p s \<Longrightarrow>
      journal_end (tl_fname p) (drive_ev (tl_fname p) (tl_txstage p)) s s' \<Longrightarrow> R s'"
    and "I p s"
  shows "ores Q R (tm_drive_loop E flags p n s)"
  using assms
proof (induction E flags p n s rule: tm_drive_loop.induct)
  case (1 E flags p n s)
  note again = 1(2) and stop = 1(3) and fin = 1(4) and I = 1(5)
  show ?case
  proof (cases "drive_round E flags p n s")
    case (Ret r s1)
    then have post: "round_post E p n s r s1" using drive_round_ores[of E p n s flags] by simp
    show ?thesis
    proof (cases r)
      case (DrAgain p1 n1)
      then have "I p1 s1" using again[OF I] post by simp
      from 1(1)[OF Ret DrAgain again stop fin this] show ?thesis
        using Ret DrAgain by (subst tm_drive_loop.simps) simp
    qed (use Ret stop[OF I post] in \<open>subst tm_drive_loop.simps, simp\<close>)+
  next
    case (Exit c s1)
    then have "journal_end (tl_fname p) (drive_ev (tl_fname p) (tl_txstage p)) s s1"
      using drive_round_ores[of E p n s flags] by simp
    then show ?thesis using Exit fin[OF I] by (subst tm_drive_loop.simps) simp
  qed
qed

end
