(* ===== verification/Tm_Commit.thy ===== *)
theory Tm_Commit
  imports Tm_Drive
begin

text \<open>
  Atomicity of the two-phase commit: what tm_drive may send to the resource managers,
  and when.  The write-ahead rule says that no resource manager is told to commit
  before the decision is durable in the log of the transaction; one run of the driver
  from the prepare phase never sends both commits and rollbacks.  Both hold whether
  the run returns or the process ends in the middle of it.
\<close>

definition is_commit :: "tm_event \<Rightarrow> bool" where
  "is_commit ev = (case ev of EvXa op _ _ \<Rightarrow> op = XA_OP_COMMIT | _ \<Rightarrow> False)"

definition is_rollback :: "tm_event \<Rightarrow> bool" where
  "is_rollback ev = (case ev of EvXa op _ _ \<Rightarrow> op = XA_OP_ROLLBACK | _ \<Rightarrow> False)"

definition has_record :: "tm_env \<Rightarrow> xa_log \<Rightarrow> tm_event list \<Rightarrow> bool" where
  "has_record E p evs \<longleftrightarrow> (\<exists>zs ws. evs = zs @ ws \<and> commit_record E p zs)"

definition wal_ok :: "tm_env \<Rightarrow> xa_log \<Rightarrow> tm_event list \<Rightarrow> bool" where
  "wal_ok E p evs \<longleftrightarrow> (\<forall>xs ev ys. evs = xs @ ev # ys \<and> is_commit ev \<longrightarrow> has_record E p xs)"

lemma has_record_append: "has_record E p evs \<Longrightarrow> has_record E p (evs @ rest)"
  unfolding has_record_def by (metis append.assoc)

lemma commit_record_pre: "commit_record E p evs \<Longrightarrow> commit_record E p (pre @ evs)"
  unfolding commit_record_def by (metis append.assoc)

lemma wal_ok_Nil [simp]: "wal_ok E p []"
  by (simp add: wal_ok_def)

lemma wal_ok_append:
  assumes "wal_ok E p evs" "\<forall>ev \<in> set rest. is_commit ev \<longrightarrow> has_record E p evs"
  shows "wal_ok E p (evs @ rest)"
  unfolding wal_ok_def
proof (intro allI impI, elim conjE)
  fix xs ev ys
  assume eq: "evs @ rest = xs @ ev # ys" and c: "is_commit ev"
  from eq consider (new) us where "xs = evs @ us" "rest = us @ ev # ys" | (old) us where "evs = xs @ ev # us"
    by (auto simp: append_eq_append_conv2 append_eq_Cons_conv Cons_eq_append_conv)
  then show "has_record E p xs"
  proof cases
    case new
    then show ?thesis using assms(2) c has_record_append by auto
  next
    case old
    then show ?thesis using assms(1) c by (auto simp: wal_ok_def)
  qed
qed

lemma drive_ev_commit: "drive_ev f st ev \<Longrightarrow> is_commit ev \<Longrightarrow> st = XA_TX_STAGE_COMMITTING"
  by (auto simp: drive_ev_def is_commit_def op_stage_def log_ev_def split: tm_event.splits)

lemma drive_ev_rollback: "drive_ev f st ev \<Longrightarrow> is_rollback ev \<Longrightarrow> st = XA_TX_STAGE_ABORTING"
  by (auto simp: drive_ev_def is_rollback_def op_stage_def log_ev_def split: tm_event.splits)

text \<open>How the stages of a transaction that is being committed can go on.\<close>

lemma next_stage_ranges:
  assumes "next_stage st st'"
  shows "(commit_range st \<longrightarrow> commit_range st') \<and> (abort_range st \<longrightarrow> abort_range st') \<and>
    (st = XA_TX_STAGE_PREPARING \<longrightarrow> st' \<in> {XA_TX_STAGE_COMMITTING, XA_TX_STAGE_ABORTING, XA_TX_STAGE_PREPRO}) \<and>
    st \<noteq> XA_TX_STAGE_PREPRO"
proof -
  have "list_all (\<lambda>d. (commit_range (s_txstage d) \<longrightarrow> commit_range (s_txs_max_complete d)) \<and>
      (abort_range (s_txstage d) \<longrightarrow> abort_range (s_txs_max_complete d)) \<and>
      (s_txstage d = XA_TX_STAGE_PREPARING \<longrightarrow> s_txs_max_complete d = XA_TX_STAGE_PREPRO) \<and>
      (s_txstage d = XA_TX_STAGE_PREPRO \<longrightarrow> s_txs_max_complete d = XA_TX_STAGE_PREPRO)) G_state_descriptor"
    by code_simp
  then have d: "xa_stage_get_descr st = Some d \<Longrightarrow>
      (commit_range st \<longrightarrow> commit_range (s_txs_max_complete d)) \<and>
      (abort_range st \<longrightarrow> abort_range (s_txs_max_complete d)) \<and>
      (st = XA_TX_STAGE_PREPARING \<longrightarrow> s_txs_max_complete d = XA_TX_STAGE_PREPRO) \<and>
      (st = XA_TX_STAGE_PREPRO \<longrightarrow> s_txs_max_complete d = XA_TX_STAGE_PREPRO)" for d
    using xa_stage_get_descr_Some[of st d] by (auto simp: list_all_iff)
  from assms consider "st' \<in> stage_votes st" | d where "xa_stage_get_descr st = Some d" "st' = s_txs_max_complete d" "st' \<noteq> st"
    by (auto simp: next_stage_def)
  then show ?thesis
  proof cases
    case 1
    then show ?thesis
      using votes_commit_range[OF 1] votes_abort_range[OF 1] by (auto simp: stage_votes_def split: if_splits)
  qed (use d in auto)
qed

text \<open>The invariant of the rounds of a run that started in the prepare phase.\<close>

definition commit_inv :: "tm_env \<Rightarrow> xa_log \<Rightarrow> tm_st \<Rightarrow> xa_log \<Rightarrow> tm_st \<Rightarrow> bool" where
  "commit_inv E p0 s0 p s \<longleftrightarrow> entry_kept p0 p \<and> st_write_fail s = 0 \<and>
     (\<exists>evs. st_trace s = st_trace s0 @ evs \<and> wal_ok E p0 evs \<and>
        (commit_range (tl_txstage p) \<longrightarrow> has_record E p0 evs) \<and>
        (\<forall>ev \<in> set evs. (is_commit ev \<longrightarrow> commit_range (tl_txstage p)) \<and>
                        (is_rollback ev \<longrightarrow> abort_range (tl_txstage p))) \<and>
        (tl_txstage p = XA_TX_STAGE_PREPARING \<or> tl_txstage p = XA_TX_STAGE_PREPRO \<or>
         commit_range (tl_txstage p) \<or> abort_range (tl_txstage p)))"

definition one_way :: "tm_event list \<Rightarrow> bool" where
  "one_way evs \<longleftrightarrow> \<not> ((\<exists>ev \<in> set evs. is_commit ev) \<and> (\<exists>ev \<in> set evs. is_rollback ev))"

lemma ranges_disjoint: "commit_range st \<Longrightarrow> abort_range st \<Longrightarrow> False"
  by (simp add: commit_range_def abort_range_def)

lemma commit_inv_step:
  assumes "commit_inv E p0 s0 p s" "journal_step (tl_fname p) (drive_ev (tl_fname p) (tl_txstage p)) s s'"
    and "entry_kept p p'"
    and "tl_txstage p' = tl_txstage p \<or> next_stage (tl_txstage p) (tl_txstage p') \<and>
      (tl_txstage p' = XA_TX_STAGE_COMMITTING \<longrightarrow> tl_txstage p = XA_TX_STAGE_COMMITTING \<or> recorded E p s s')"
  shows "commit_inv E p0 s0 p' s'"
proof -
  obtain evs where evs: "st_trace s = st_trace s0 @ evs" "wal_ok E p0 evs"
      "commit_range (tl_txstage p) \<longrightarrow> has_record E p0 evs"
      "\<forall>ev \<in> set evs. (is_commit ev \<longrightarrow> commit_range (tl_txstage p)) \<and>
                        (is_rollback ev \<longrightarrow> abort_range (tl_txstage p))"
      "tl_txstage p = XA_TX_STAGE_PREPARING \<or> tl_txstage p = XA_TX_STAGE_PREPRO \<or>
         commit_range (tl_txstage p) \<or> abort_range (tl_txstage p)"
    and k: "entry_kept p0 p" and wf: "st_write_fail s = 0"
    using assms(1) by (auto simp: commit_inv_def)
  obtain rest where rest: "st_trace s' = st_trace s @ rest"
      "\<forall>ev \<in> set rest. drive_ev (tl_fname p) (tl_txstage p) ev"
    using assms(2) by (auto simp: journal_step_def list_all_iff)
  have cr: "commit_range XA_TX_STAGE_COMMITTING" "abort_range XA_TX_STAGE_ABORTING"
    by (simp_all add: commit_range_def abort_range_def)
  have w: "wal_ok E p0 (evs @ rest)"
    using evs(2,3) rest(2) cr drive_ev_commit by (intro wal_ok_append) (metis)+
  have ev': "\<forall>ev \<in> set (evs @ rest). (is_commit ev \<longrightarrow> commit_range (tl_txstage p)) \<and>
                        (is_rollback ev \<longrightarrow> abort_range (tl_txstage p))"
  proof
    fix ev
    assume "ev \<in> set (evs @ rest)"
    then show "(is_commit ev \<longrightarrow> commit_range (tl_txstage p)) \<and> (is_rollback ev \<longrightarrow> abort_range (tl_txstage p))"
      using evs(4) rest(2) drive_ev_commit[of "tl_fname p" "tl_txstage p" ev]
        drive_ev_rollback[of "tl_fname p" "tl_txstage p" ev] cr by auto
  qed
  have rec: "recorded E p s s' \<Longrightarrow> has_record E p0 (evs @ rest)"
  proof -
    assume "recorded E p s s'"
    then have "recorded E p0 s s'" using recorded_kept[OF k] by simp
    then have "commit_record E p0 rest" using rest(1) by (auto simp: recorded_def)
    then show "has_record E p0 (evs @ rest)"
      using commit_record_pre[of E p0 rest evs] by (auto simp: has_record_def intro: exI[of _ "[]"])
  qed
  have kp: "entry_kept p0 p'" and wf': "st_write_fail s' = 0"
    using entry_kept_trans[OF k assms(3)] assms(2) wf by (auto simp: journal_step_def)
  show ?thesis
  proof (cases "tl_txstage p' = tl_txstage p")
    case True
    then show ?thesis
      using kp wf' evs rest(1) w ev' has_record_append unfolding commit_inv_def
      by (intro conjI exI[of _ "evs @ rest"]) auto
  next
    case False
    then have nx: "next_stage (tl_txstage p) (tl_txstage p')"
      and r: "tl_txstage p' = XA_TX_STAGE_COMMITTING \<longrightarrow> tl_txstage p = XA_TX_STAGE_COMMITTING \<or> recorded E p s s'"
      using assms(4) by auto
    note ng = next_stage_ranges[OF nx]
    have hr: "commit_range (tl_txstage p') \<longrightarrow> has_record E p0 (evs @ rest)"
    proof
      assume c: "commit_range (tl_txstage p')"
      show "has_record E p0 (evs @ rest)"
      proof (cases "commit_range (tl_txstage p)")
        case True
        then show ?thesis using evs(3) has_record_append by auto
      next
        case nc: False
        then have "tl_txstage p = XA_TX_STAGE_PREPARING" using ng evs(5) c ranges_disjoint by blast
        then have "tl_txstage p' = XA_TX_STAGE_COMMITTING"
          using ng c by (auto simp: commit_range_def)
        then show ?thesis using r rec False by auto
      qed
    qed
    have st': "tl_txstage p' = XA_TX_STAGE_PREPARING \<or> tl_txstage p' = XA_TX_STAGE_PREPRO \<or>
         commit_range (tl_txstage p') \<or> abort_range (tl_txstage p')"
      using ng evs(5) by (auto simp: commit_range_def abort_range_def)
    show ?thesis
      using kp wf' evs(1) rest(1) w ev' hr st' ng unfolding commit_inv_def
      by (intro conjI exI[of _ "evs @ rest"]) auto
  qed
qed

lemma commit_inv_round:
  assumes "commit_inv E p0 s0 p s" "round_post E p n s r s'"
  shows "case r of DrOut ret p' \<Rightarrow> commit_inv E p0 s0 p' s' | DrAgain p' n' \<Rightarrow> commit_inv E p0 s0 p' s'
     | DrDone p' d \<Rightarrow> commit_inv E p0 s0 p' s'"
proof -
  have wf: "st_write_fail s = 0" using assms(1) by (simp add: commit_inv_def)
  have nc: "\<not> next_stage XA_TX_STAGE_COMMITTING XA_TX_STAGE_COMMITTING" by (simp add: next_stage_def)
  show ?thesis
    using assms(2) wf nc
    by (cases r) (auto simp: round_post_def intro!: commit_inv_step[OF assms(1)])
qed

text \<open>What holds of the events of a run, however it ends.\<close>

definition run_safe :: "tm_env \<Rightarrow> xa_log \<Rightarrow> tm_st \<Rightarrow> tm_st \<Rightarrow> bool" where
  "run_safe E p0 s0 s \<longleftrightarrow> (\<exists>evs. st_trace s = st_trace s0 @ evs \<and> wal_ok E p0 evs \<and> one_way evs)"

lemma commit_inv_safe: "commit_inv E p0 s0 p s \<Longrightarrow> run_safe E p0 s0 s"
  unfolding commit_inv_def run_safe_def one_way_def using ranges_disjoint by blast

lemma commit_inv_end:
  assumes "commit_inv E p0 s0 p s" "journal_end (tl_fname p) (drive_ev (tl_fname p) (tl_txstage p)) s s'"
  shows "run_safe E p0 s0 s'"
proof -
  obtain n where "journal_step (tl_fname p) (drive_ev (tl_fname p) (tl_txstage p)) (s\<lparr>st_write_fail := n\<rparr>) s'"
    using assms(2) by (auto simp: journal_end_def)
  then have "journal_step (tl_fname p) (drive_ev (tl_fname p) (tl_txstage p)) s (s'\<lparr>st_write_fail := st_write_fail s\<rparr>)"
    by (auto simp: journal_step_def)
  from commit_inv_safe[OF commit_inv_step[OF assms(1) this]] show ?thesis
    by (auto simp: run_safe_def)
qed

text \<open>What the loop leaves: the entry in its last stage, and how the loop was left.\<close>

definition loop_post :: "tm_env \<Rightarrow> xa_log \<Rightarrow> tm_st \<Rightarrow> drive_end \<Rightarrow> tm_st \<Rightarrow> bool" where
  "loop_post E p0 s0 r s' \<longleftrightarrow> (case r of
      DrOut ret p' \<Rightarrow> commit_inv E p0 s0 p' s' \<and>
        (ret = TPESYSTEM \<or> ret = EXSUCCEED \<and> commit_range (tl_txstage p'))
    | DrAgain p' n' \<Rightarrow> False
    | DrDone p' d \<Rightarrow> commit_inv E p0 s0 p' s' \<and> xa_stage_get_descr (tl_txstage p') = Some d)"

lemma loop_postI:
  assumes "commit_inv E p0 s0 p s" "round_post E p n s r s'" "\<forall>p' n'. r \<noteq> DrAgain p' n'"
  shows "loop_post E p0 s0 r s'"
proof -
  have cr: "commit_range XA_TX_STAGE_COMMITTING" by (simp add: commit_range_def)
  show ?thesis
    using assms(2,3) commit_inv_round[OF assms(1,2)] next_stage_ranges[of "tl_txstage p"] cr
    by (cases r) (auto simp: loop_post_def round_post_def)
qed

lemma drive_loop_safe:
  assumes "tl_txstage p = XA_TX_STAGE_PREPARING" "st_write_fail s = 0"
  shows "ores (loop_post E p s) (run_safe E p s) (tm_drive_loop E flags p n s)"
proof (rule drive_loop_rule[where I = "commit_inv E p s"])
  show "commit_inv E p s p s" using assms by (auto simp: commit_inv_def commit_range_def)
qed (use commit_inv_round in \<open>force intro: loop_postI commit_inv_end\<close>)+

section \<open>The commit decision\<close>

text \<open>Statuses a branch may have when the transaction goes from the prepare phase to commit.\<close>

definition may_commit :: "char \<Rightarrow> bool" where
  "may_commit c \<longleftrightarrow> c \<notin> {XA_RM_STATUS_ACTIVE, XA_RM_STATUS_ACT_AB, XA_RM_STATUS_ABORTED}"

lemma preparing_ignored:
  "xa_status_get_op XA_TX_STAGE_PREPARING c = XA_OP_NOP \<Longrightarrow>
   xa_status_get_next_by_new_status XA_TX_STAGE_PREPARING c = None \<Longrightarrow> may_commit c"
  by (auto simp: may_commit_def xa_status_get_op_eq xa_status_get_next_by_new_status_def
      op_table_switch_def M_rm_status_driver_preparing_def)

lemma preparing_nop_vote:
  "xa_status_get_op XA_TX_STAGE_PREPARING c = XA_OP_NOP \<Longrightarrow>
   xa_status_get_next_by_new_status XA_TX_STAGE_PREPARING c = Some r \<Longrightarrow>
   d_next_txstage r \<noteq> XA_TX_STAGE_ABORTING \<Longrightarrow> may_commit c"
  by (auto simp: may_commit_def xa_status_get_op_eq xa_status_get_next_by_new_status_def
      op_table_switch_def M_rm_status_driver_preparing_def split: if_splits)

lemma preparing_op_vote:
  "xa_status_get_op XA_TX_STAGE_PREPARING c \<noteq> XA_OP_NOP \<Longrightarrow> 
   xa_status_get_next_by_op XA_TX_STAGE_PREPARING c (xa_status_get_op XA_TX_STAGE_PREPARING c) rc = Some r \<Longrightarrow>
   d_next_txstage r \<noteq> XA_TX_STAGE_ABORTING \<Longrightarrow>
   c = XA_RM_STATUS_ACTIVE \<and> (rc = XA_OK \<or> rc = XA_RDONLY) \<and>
   d_next_rmstatus r \<in> {XA_RM_STATUS_PREP, XA_RM_STATUS_COMMITTED_RO}"
  by (auto simp: xa_status_get_op_eq xa_status_get_next_by_op_def
      op_table_switch_def M_rm_status_driver_preparing_def split: if_splits)

lemma preparing_descr:
  "xa_stage_get_descr XA_TX_STAGE_PREPARING =
     Some (Descr XA_TX_STAGE_PREPARING XA_TX_STAGE_PREPARING XA_TX_STAGE_PREPRO XA_TX_STAGE_PREPRO ''PREPARING'' True)"
  by code_simp

text \<open>A vote for abort in the prepare phase always ends the pass.\<close>

lemma drive_vote_preparing:
  assumes "xa_stage_get_descr XA_TX_STAGE_PREPARING = Some descr"
    and "drive_vote E descr el v acc s = (acc', s')" "\<not> da_err acc'" "da_jump acc' = None"
  shows "v \<noteq> XA_TX_STAGE_ABORTING \<and> da_p acc' = da_p acc \<and> st_trace s' = st_trace s"
  using assms by (auto simp: drive_vote_def Let_def preparing_descr split: if_splits)

lemma rm_call_trace: "st_trace (snd (rm_call E op rmid btid s)) = st_trace s @ [EvXa op rmid btid]"
  by (simp add: rm_call_def split: prod.splits)

text \<open>The rest of a branch that is asked to prepare: its new status is in the table, and no
  other branch changes.\<close>

lemma log_rmstatus_find:
  assumes "tl_wf p" "rmid_ok rmid" "tms_btid_find p rmid btid = Some el"
    and "e_tid E = tl_lockthreadid p"
    and "tms_log_rmstatus E p rmid el c ec rs s = (ret, p', s')"
  shows "tl_wf p' \<and> (\<exists>el'. tms_btid_find p' rmid btid = Some el' \<and> bt_rmstatus el' = c) \<and>
    (\<forall>rmid' k. rmid_ok rmid' \<longrightarrow> (rmid', k) \<noteq> (rmid, btid) \<longrightarrow> tms_btid_find p' rmid' k = tms_btid_find p rmid' k)"
proof -
  let ?b = "el\<lparr>bt_rmstatus := c, bt_rmerrorcode := ec, bt_rmreason := to_short rs\<rparr>"
  have p': "p' = bt_put p rmid ?b"
    using assms(4,5) by (auto simp: tms_log_rmstatus_def Let_def split: if_splits prod.splits)
  have b: "bt_btid el = btid" "el \<in> set (btid_hash (rm_at p rmid))" using tms_btid_find_Some[OF assms(3)] by auto
  have rm: "bt_rmid el = rmid" using tl_wf_rm_at[OF assms(1,2)] b(2) by (auto simp: rm_wf_def)
  have "tl_wf p'" using tl_wf_bt_put[OF assms(1,2), of ?b el] assms(3) b rm p' by simp
  then show ?thesis
    using tms_btid_find_put[OF assms(1,2), of _ ?b] assms(2,3) b p' by auto
qed

text \<open>One branch of the prepare phase.\<close>

definition br_ok :: "tm_event list \<Rightarrow> int \<Rightarrow> int \<Rightarrow> rm_status_btid \<Rightarrow> rm_status_btid \<Rightarrow> bool" where
  "br_ok evs rmid btid el el' \<longleftrightarrow> may_commit (bt_rmstatus el') \<and>
     (bt_rmstatus el = XA_RM_STATUS_ACTIVE \<longrightarrow>
        bt_rmstatus el' \<in> {XA_RM_STATUS_PREP, XA_RM_STATUS_COMMITTED_RO} \<and>
        EvXa XA_OP_PREPARE rmid btid \<in> set evs)"

lemma drive_branch_preparing:
  assumes wf: "tl_wf (da_p acc)" and rm: "rmid_ok rmid"
    and el: "tms_btid_find (da_p acc) rmid btid = Some el"
    and tid: "e_tid E = tl_lockthreadid (da_p acc)"
    and st: "tl_txstage (da_p acc) = XA_TX_STAGE_PREPARING"
    and d: "xa_stage_get_descr XA_TX_STAGE_PREPARING = Some descr"
    and run: "drive_branch E descr rmid el acc s = (acc', s')"
    and fin: "\<not> da_err acc'" "da_jump acc' = None"
  shows "tl_wf (da_p acc') \<and> (\<exists>el' evs. st_trace s' = st_trace s @ evs \<and>
      tms_btid_find (da_p acc') rmid btid = Some el' \<and> br_ok evs rmid btid el el') \<and>
    (\<forall>rmid' k. rmid_ok rmid' \<longrightarrow> (rmid', k) \<noteq> (rmid, btid) \<longrightarrow>
       tms_btid_find (da_p acc') rmid' k = tms_btid_find (da_p acc) rmid' k)"
proof -
  let ?op = "xa_status_get_op XA_TX_STAGE_PREPARING (bt_rmstatus el)"
  have b: "bt_btid el = btid" using tms_btid_find_Some[OF el] by simp
  obtain reason s1 where op: "drive_op E ?op rmid btid s = Some (reason, s1)"
    using run st b fin(1) by (cases "drive_op E ?op rmid btid s") (auto simp: drive_branch_def Let_def)
  show ?thesis
  proof (cases "?op = XA_OP_NOP")
    case True
    then have s1: "s1 = s" using drive_op_cases[OF op] by auto
    have na: "bt_rmstatus el \<noteq> XA_RM_STATUS_ACTIVE" using True by (auto simp: xa_status_get_op_eq)
    show ?thesis
    proof (cases "xa_status_get_next_by_new_status XA_TX_STAGE_PREPARING (bt_rmstatus el)")
      case None
      then have "acc' = acc" "s' = s" using run st b op True s1 by (auto simp: drive_branch_def Let_def)
      then show ?thesis using wf el preparing_ignored[OF True None] na by (auto simp: br_ok_def)
    next
      case (Some r)
      have v: "drive_vote E descr el (d_next_txstage r) acc s = (acc', s')"
        using run st b op True s1 Some by (simp add: drive_branch_def Let_def)
      note dv = drive_vote_preparing[OF d v fin]
      show ?thesis using dv wf el preparing_nop_vote[OF True Some] na by (auto simp: br_ok_def)
    qed
  next
    case False
    then have act: "bt_rmstatus el = XA_RM_STATUS_ACTIVE" "?op = XA_OP_PREPARE"
      by (auto simp: xa_status_get_op_eq split: if_splits)
    have s1: "st_trace s1 = st_trace s @ [EvXa XA_OP_PREPARE rmid btid]"
      using drive_op_cases[OF op] act rm_call_trace[of E XA_OP_PREPARE rmid btid s] by auto
    obtain r where r: "xa_status_get_next_by_op XA_TX_STAGE_PREPARING (bt_rmstatus el) ?op reason = Some r"
      using run st b op False fin(1) by (auto simp: drive_branch_def Let_def split: option.splits)
    obtain ret p1 s2 where lg: "tms_log_rmstatus E (da_p acc) rmid el (d_next_rmstatus r) (st_tperrno s1) reason s1
        = (ret, p1, s2)" by (metis prod_cases3)
    have v: "drive_vote E descr el (if ret \<noteq> EXSUCCEED then XA_TX_STAGE_ABORTING else d_next_txstage r)
        (acc\<lparr>da_p := p1\<rparr>) s2 = (acc', s')"
      using run st b op False r lg by (simp add: drive_branch_def Let_def)
    note dv = drive_vote_preparing[OF d v fin]
    then have nv: "d_next_txstage r \<noteq> XA_TX_STAGE_ABORTING" by (auto split: if_splits)
    note ov = preparing_op_vote[OF False r nv]
    note lf = log_rmstatus_find[OF wf rm el tid lg]
    obtain rest where m: "st_trace s2 = st_trace s1 @ rest"
      using rmstatus_step[of "da_p acc" s1 E rmid el "d_next_rmstatus r" "st_tperrno s1" reason] lg
      by (auto simp: journal_step_def)
    obtain el' where el': "tms_btid_find (da_p acc') rmid btid = Some el'" "bt_rmstatus el' = d_next_rmstatus r"
      using lf dv by auto
    have "br_ok (EvXa XA_OP_PREPARE rmid btid # rest) rmid btid el el'"
      using ov el'(2) by (auto simp: br_ok_def may_commit_def)
    then show ?thesis using lf dv el' s1 m by (auto intro!: exI[of _ "EvXa XA_OP_PREPARE rmid btid # rest"])
  qed
qed

lemma br_ok_mono: "br_ok evs rmid btid el el' \<Longrightarrow> set evs \<subseteq> set evs' \<Longrightarrow> br_ok evs' rmid btid el el'"
  by (auto simp: br_ok_def)

text \<open>The whole pass of the prepare phase, when it ends without failure and without a jump.\<close>

lemma drive_branches_preparing:
  assumes ok: "pass_ok XA_TX_STAGE_PREPARING p0 s0 acc s" and p0: "tl_txstage p0 = XA_TX_STAGE_PREPARING"
      "e_tid E = tl_lockthreadid p0"
    and d: "xa_stage_get_descr XA_TX_STAGE_PREPARING = Some descr"
    and wf: "tl_wf (da_p acc)" and ks: "distinct ks" "\<forall>(rmid, btid) \<in> set ks. rmid_ok rmid"
    and run: "drive_branches E descr ks acc s = (acc', s')" and fin: "\<not> da_err acc'" "da_jump acc' = None"
  shows "tl_wf (da_p acc') \<and> (\<exists>evs. st_trace s' = st_trace s @ evs \<and>
     (\<forall>rmid k el. (rmid, k) \<in> set ks \<longrightarrow> tms_btid_find (da_p acc) rmid k = Some el \<longrightarrow>
        (\<exists>el'. tms_btid_find (da_p acc') rmid k = Some el' \<and> br_ok evs rmid k el el'))) \<and>
     (\<forall>rmid k. rmid_ok rmid \<longrightarrow> (rmid, k) \<notin> set ks \<longrightarrow>
        tms_btid_find (da_p acc') rmid k = tms_btid_find (da_p acc) rmid k)"
  using ok wf ks run
proof (induction ks arbitrary: acc s)
  case Nil
  then show ?case using fin by auto
next
  case (Cons key ks)
  obtain rmid btid where key: "key = (rmid, btid)" by (cases key)
  have rm: "rmid_ok rmid" and nin: "(rmid, btid) \<notin> set ks" "distinct ks"
      "\<forall>(rmid, btid) \<in> set ks. rmid_ok rmid" using Cons.prems key by auto
  show ?case
  proof (cases "tms_btid_find (da_p acc) rmid btid")
    case None
    then show ?thesis using Cons.IH[OF Cons.prems(1,2) nin(2,3)] Cons.prems(5) key nin(1) by auto
  next
    case (Some el)
    obtain acc1 s1 where br: "drive_branch E descr rmid el acc s = (acc1, s1)" by (meson surj_pair)
    have f1: "\<not> da_err acc1" "da_jump acc1 = None" and run1: "drive_branches E descr ks acc1 s1 = (acc', s')"
      using Cons.prems(5) key Some br fin by (auto split: if_splits)
    have se: "same_entry p0 (da_p acc)" using Cons.prems(1) by (simp add: pass_ok_def)
    have st: "tl_txstage (da_p acc) = XA_TX_STAGE_PREPARING" "e_tid E = tl_lockthreadid (da_p acc)"
      using same_entry_fields[OF se] p0 by auto
    note b = drive_branch_preparing[OF Cons.prems(2) rm Some st(2,1) d br f1]
    obtain el1 e1 where e1: "st_trace s1 = st_trace s @ e1" "tms_btid_find (da_p acc1) rmid btid = Some el1"
        "br_ok e1 rmid btid el el1" using b by blast
    have ok1: "pass_ok XA_TX_STAGE_PREPARING p0 s0 acc1 s1"
      by (rule drive_branch_ok[OF Cons.prems(1) p0(1) d br])
    have wf1: "tl_wf (da_p acc1)" using b by blast
    from Cons.IH[OF ok1 wf1 nin(2,3) run1] obtain e2 where IH:
      "tl_wf (da_p acc')" "st_trace s' = st_trace s1 @ e2"
      "\<forall>rmid k el. (rmid, k) \<in> set ks \<longrightarrow> tms_btid_find (da_p acc1) rmid k = Some el \<longrightarrow>
        (\<exists>el'. tms_btid_find (da_p acc') rmid k = Some el' \<and> br_ok e2 rmid k el el')"
      "\<forall>rmid k. rmid_ok rmid \<longrightarrow> (rmid, k) \<notin> set ks \<longrightarrow>
        tms_btid_find (da_p acc') rmid k = tms_btid_find (da_p acc1) rmid k" by blast
    have "\<exists>el'. tms_btid_find (da_p acc') r k = Some el' \<and> br_ok (e1 @ e2) r k el0 el'"
      if "(r, k) \<in> set (key # ks)" "tms_btid_find (da_p acc) r k = Some el0" for r k el0
    proof (cases "(r, k) = key")
      case True
      then show ?thesis using e1 IH(4) rm nin(1) key that(2) Some br_ok_mono[OF e1(3)] by auto
    next
      case False
      then have in_ks: "(r, k) \<in> set ks" using that by auto
      then have "rmid_ok r" using nin(3) by auto
      then have "tms_btid_find (da_p acc1) r k = Some el0" using b that(2) False key by auto
      then show ?thesis using IH(3) in_ks br_ok_mono by fastforce
    qed
    moreover have "tms_btid_find (da_p acc') r k = tms_btid_find (da_p acc) r k"
      if "rmid_ok r" "(r, k) \<notin> set (key # ks)" for r k
      using that b IH(4) key by auto
    ultimately show ?thesis using IH(1,2) e1(1) by auto
  qed
qed

text \<open>The keys the pass visits are the branches of the entry, each once.\<close>

lemma branch_keys_set:
  assumes "tl_wf p" "rmid_ok rmid" "tms_btid_find p rmid btid = Some el"
  shows "(rmid, btid) \<in> set (branch_keys p)"
proof -
  have "nat (rmid - 1) \<in> set [0..<NDRX_MAX_RMS]" "int (nat (rmid - 1)) + 1 = rmid"
    using assms(2) by (auto simp: rmid_ok_def)
  moreover have "bt_btid el = btid" "el \<in> set (btid_hash (tl_rmstatus p ! nat (rmid - 1)))"
    using tms_btid_find_Some[OF assms(3)] by (auto simp: rm_at_def)
  ultimately show ?thesis
    unfolding branch_keys_def set_concat set_map by (force simp: image_iff)
qed

lemma branch_keys_ok: "\<forall>(rmid, btid) \<in> set (branch_keys p). rmid_ok rmid"
  by (auto simp: branch_keys_def rmid_ok_def)

lemma branch_keys_distinct:
  assumes "tl_wf p"
  shows "distinct (branch_keys p)"
proof -
  have "distinct (map (\<lambda>b. (int i + 1, bt_btid b)) (btid_hash (tl_rmstatus p ! i)))" if "i < NDRX_MAX_RMS" for i
  proof -
    have "distinct (map bt_btid (btid_hash (tl_rmstatus p ! i)))"
      using assms that by (simp add: tl_wf_def rm_wf_def ex_inv_def)
    then show ?thesis by (simp add: distinct_map inj_on_def)
  qed
  then have "distinct (concat (map (\<lambda>i. map (\<lambda>b. (int i + 1, bt_btid b)) (btid_hash (tl_rmstatus p ! i))) is))"
    if "distinct is" "set is \<subseteq> {..<NDRX_MAX_RMS}" for "is"
    using that by (induction "is") (auto simp: disjoint_iff)
  from this[of "[0..<NDRX_MAX_RMS]"] show ?thesis unfolding branch_keys_def
    by (simp only: distinct_upt set_upt) (simp add: subset_iff)
qed

text \<open>The commit decision: when a round of the prepare phase hands over to COMMITTING, every
  branch that was active has been asked to prepare and is prepared or read only, and no
  branch is left active or aborted.\<close>

lemma preparing_to_committing:
  assumes st: "tl_txstage p = XA_TX_STAGE_PREPARING" and wf: "tl_wf p"
    and run: "drive_round E flags p n s = Ret (DrAgain p' n') s'"
    and com: "tl_txstage p' = XA_TX_STAGE_COMMITTING"
  shows "\<exists>evs. st_trace s' = st_trace s @ evs \<and>
    (\<forall>rmid btid el. rmid_ok rmid \<longrightarrow> tms_btid_find p rmid btid = Some el \<longrightarrow>
      (\<exists>el'. tms_btid_find p' rmid btid = Some el' \<and> br_ok evs rmid btid el el'))"
proof -
  obtain descr where d: "xa_stage_get_descr XA_TX_STAGE_PREPARING = Some descr"
    using preparing_descr by blast
  let ?acc0 = "\<lparr>da_p = p, da_votes = [], da_retry = False, da_jump = None, da_err = False\<rparr>"
  obtain acc s1 where pass: "drive_branches E descr (branch_keys p) ?acc0 s = (acc, s1)"
    by (meson surj_pair)
  have ok0: "pass_ok XA_TX_STAGE_PREPARING p s ?acc0 s" by (simp add: pass_ok_def)
  have ok: "pass_ok XA_TX_STAGE_PREPARING p s acc s1" by (rule drive_branches_ok[OF ok0 st d pass])
  have ne: "\<not> da_err acc" using run d pass st by (auto simp: drive_round_def split: if_splits)
  obtain sw s2 where sw: "drive_switch E (da_p acc) descr (new_stage descr acc) s1 = Ret (sw, p') s2" "s2 = s'"
    using run d pass st ne
    by (auto simp: drive_round_def new_stage_def andthen_Ret_iff Let_def split: if_splits)
  have se: "same_entry p (da_p acc)" using ok by (simp add: pass_ok_def)
  have ds: "s_txstage descr = XA_TX_STAGE_PREPARING" using xa_stage_get_descr_Some[OF d] by simp
  have "tl_txstage (da_p acc) = XA_TX_STAGE_PREPARING" using same_entry_fields[OF se] st by simp
  then have "ores (switch_post E (da_p acc) descr (new_stage descr acc) s1)
      (journal_end (tl_fname (da_p acc)) (log_ev (tl_fname (da_p acc))) s1)
      (drive_switch E (da_p acc) descr (new_stage descr acc) s1)"
    using ds by (intro drive_switch_ores) simp_all
  then have post: "switch_post E (da_p acc) descr (new_stage descr acc) s1 (sw, p') s'" using sw by simp
  have sw_yes: sw using post com \<open>tl_txstage (da_p acc) = XA_TX_STAGE_PREPARING\<close> by (cases sw) (auto simp: switch_post_def)
  have "\<not> seq_only ((da_p acc)\<lparr>tl_txstage := XA_TX_STAGE_ABORTING\<rparr>) p'"
    using com by (auto dest: seq_only_kept)
  then have sq0: "seq_only ((da_p acc)\<lparr>tl_txstage := new_stage descr acc\<rparr>) p'"
    using post sw_yes by (auto simp: switch_post_def)
  have new: "new_stage descr acc = XA_TX_STAGE_COMMITTING" using seq_only_kept[OF sq0] com by simp
  have sq: "seq_only ((da_p acc)\<lparr>tl_txstage := XA_TX_STAGE_COMMITTING\<rparr>) p'" using sq0 new by simp
  have nj: "da_jump acc = None"
    using ok new by (cases "da_jump acc") (auto simp: pass_ok_def new_stage_def)
  have tid: "e_tid E = tl_lockthreadid p"
  proof (rule ccontr)
    assume "e_tid E \<noteq> tl_lockthreadid p"
    then have "e_tid E \<noteq> tl_lockthreadid (da_p acc)" using same_entry_fields[OF se] by simp
    then show False using sw(1) new ds by (simp add: drive_switch_def log_stage_mismatch)
  qed
  have rs: "tms_btid_find p' = tms_btid_find (da_p acc)"
    using sq by (auto simp: seq_only_def tms_btid_find_def rm_at_def fun_eq_iff)
  have pr: "\<exists>e1. st_trace s1 = st_trace s @ e1 \<and>
     (\<forall>rmid k el. (rmid, k) \<in> set (branch_keys p) \<longrightarrow> tms_btid_find p rmid k = Some el \<longrightarrow>
        (\<exists>el'. tms_btid_find (da_p acc) rmid k = Some el' \<and> br_ok e1 rmid k el el'))"
    using drive_branches_preparing[OF ok0 st tid d _ branch_keys_distinct[OF wf] branch_keys_ok pass ne nj]
      wf by simp
  then obtain e1 where e1: "st_trace s1 = st_trace s @ e1"
     "\<forall>rmid k el. (rmid, k) \<in> set (branch_keys p) \<longrightarrow> tms_btid_find p rmid k = Some el \<longrightarrow>
        (\<exists>el'. tms_btid_find (da_p acc) rmid k = Some el' \<and> br_ok e1 rmid k el el')" by blast
  obtain e2 where e2: "st_trace s' = st_trace s1 @ e2"
    using post by (auto simp: switch_post_def journal_step_def)
  have "\<exists>el'. tms_btid_find p' rmid btid = Some el' \<and> br_ok (e1 @ e2) rmid btid el el'"
    if "rmid_ok rmid" "tms_btid_find p rmid btid = Some el" for rmid btid el
    using e1(2) branch_keys_set[OF wf that] that(2) rs br_ok_mono by fastforce
  then show ?thesis using e1(1) e2 by (intro exI[of _ "e1 @ e2"]) auto
qed

section \<open>The end of the run\<close>

lemma remove_logfile_trace:
  "\<exists>evs. st_trace (tms_remove_logfile E p b s) = st_trace s @ evs \<and> (\<forall>ev \<in> set evs. \<not> is_commit ev \<and> \<not> is_rollback ev)"
  by (auto simp: tms_remove_logfile_def tms_remove_logfree_def Let_def is_commit_def is_rollback_def)

lemma drive_leave_trace: "st_trace (drive_leave E p s) = st_trace s"
  by (simp add: drive_leave_def tms_unlock_entry_def Let_def)

lemma run_safe_epilogue:
  assumes "run_safe E p0 s0 s" "st_trace s' = st_trace s @ evs" "\<forall>ev \<in> set evs. \<not> is_commit ev \<and> \<not> is_rollback ev"
  shows "run_safe E p0 s0 s'"
proof -
  obtain e0 where e0: "st_trace s = st_trace s0 @ e0" "wal_ok E p0 e0" "one_way e0"
    using assms(1) by (auto simp: run_safe_def)
  have "wal_ok E p0 (e0 @ evs)" using e0(2) assms(3) by (intro wal_ok_append) auto
  moreover have "one_way (e0 @ evs)" using e0(3) assms(3) by (auto simp: one_way_def)
  ultimately show ?thesis using e0(1) assms(2) by (auto simp: run_safe_def)
qed

text \<open>The run as a whole: the entry and state at the end of the loop, and the events of the
  epilogue.\<close>

lemma tm_drive_epilogue:
  assumes "loop_post E p0 s0 r s1" "tm_drive_loop E flags p 0 s = Ret r s1"
  shows "\<exists>ret s' evs p'. tm_drive E p master_op flags s = Ret ret s' \<and> st_trace s' = st_trace s1 @ evs \<and>
    (\<forall>ev \<in> set evs. \<not> is_commit ev \<and> \<not> is_rollback ev) \<and> commit_inv E p0 s0 p' s1 \<and>
    (ret = TPESYSTEM \<or> ret = EXSUCCEED \<and> commit_range (tl_txstage p') \<or>
     ret = xa_txstage2tperrno (tl_txstage p') master_op)"
proof (cases r)
  case (DrDone p1 d)
  then have "s_txstage d = tl_txstage p1" using assms(1) xa_stage_get_descr_Some by (auto simp: loop_post_def)
  with DrDone show ?thesis
    using assms remove_logfile_trace[of E p1 True s1] drive_leave_trace[of E p1 s1]
    by (auto simp: tm_drive_def Let_def loop_post_def)
next
  case (DrOut ret p1)
  then show ?thesis using assms drive_leave_trace[of E p1 s1] by (auto simp: tm_drive_def loop_post_def)
qed (use assms in \<open>simp add: loop_post_def\<close>)

lemma tm_drive_safe:
  assumes "tl_txstage p = XA_TX_STAGE_PREPARING" "st_write_fail s = 0"
  shows "run_safe E p s (ostate (tm_drive E p master_op flags s))"
proof (cases "tm_drive_loop E flags p 0 s")
  case (Ret r s1)
  have sf: "loop_post E p s r s1" using drive_loop_safe[OF assms, of E flags 0] Ret by simp
  show ?thesis
    using tm_drive_epilogue[OF sf Ret, of master_op] commit_inv_safe run_safe_epilogue by fastforce
next
  case (Exit c s1)
  then show ?thesis using drive_loop_safe[OF assms, of E flags 0] by (simp add: tm_drive_def)
qed

text \<open>What the return code of a commit says.\<close>

lemma tperrno_abort_iff:
  "xa_txstage2tperrno st XA_OP_COMMIT = TPEABORT \<Longrightarrow> abort_range st"
proof -
  have rows: "list_all (\<lambda>r. t_master_op r = XA_OP_COMMIT \<and> t_tpe r = TPEABORT \<longrightarrow> abort_range (t_txstage r)) G_txstage2tperrno"
    by code_simp
  assume a: "xa_txstage2tperrno st XA_OP_COMMIT = TPEABORT"
  then obtain r where "find (\<lambda>r. t_txstage r = st \<and> t_master_op r = XA_OP_COMMIT) G_txstage2tperrno = Some r"
      "t_tpe r = TPEABORT"
    by (auto simp: xa_txstage2tperrno_def split: option.splits)
  then show ?thesis using rows find_Some_in by (fastforce simp: list_all_iff)
qed

lemma tm_drive_result:
  assumes "tl_txstage p = XA_TX_STAGE_PREPARING" "st_write_fail s = 0"
    and "tm_drive E p XA_OP_COMMIT flags s = Ret ret s'"
  shows "\<exists>evs. st_trace s' = st_trace s @ evs \<and>
     (ret = EXSUCCEED \<longrightarrow> (\<forall>ev \<in> set evs. \<not> is_rollback ev)) \<and>
     (ret = TPEABORT \<longrightarrow> (\<forall>ev \<in> set evs. \<not> is_commit ev))"
proof -
  obtain r s1 where lp: "tm_drive_loop E flags p 0 s = Ret r s1"
    using assms(3) by (cases "tm_drive_loop E flags p 0 s") (auto simp: tm_drive_def)
  have sf: "loop_post E p s r s1" using drive_loop_safe[OF assms(1,2), of E flags 0] lp by simp
  obtain evs2 p' where e2: "st_trace s' = st_trace s1 @ evs2"
      "\<forall>ev \<in> set evs2. \<not> is_commit ev \<and> \<not> is_rollback ev" "commit_inv E p s p' s1"
      "ret = TPESYSTEM \<or> ret = EXSUCCEED \<and> commit_range (tl_txstage p') \<or>
       ret = xa_txstage2tperrno (tl_txstage p') XA_OP_COMMIT"
    using tm_drive_epilogue[OF sf lp, of XA_OP_COMMIT] assms(3) by auto
  obtain evs1 where e1: "st_trace s1 = st_trace s @ evs1"
      "\<forall>ev \<in> set evs1. (is_commit ev \<longrightarrow> commit_range (tl_txstage p')) \<and> (is_rollback ev \<longrightarrow> abort_range (tl_txstage p'))"
    using e2(3) by (auto simp: commit_inv_def)
  have "ret = EXSUCCEED \<longrightarrow> \<not> abort_range (tl_txstage p')"
    using e2(4) ranges_disjoint tperrno_success_iff[of "tl_txstage p'" XA_OP_COMMIT]
    by (auto simp: abort_range_def commit_range_def)
  moreover have "ret = TPEABORT \<longrightarrow> \<not> commit_range (tl_txstage p')"
    using e2(4) ranges_disjoint tperrno_abort_iff[of "tl_txstage p'"] by auto
  ultimately show ?thesis using e1 e2(1,2) by (intro exI[of _ "evs1 @ evs2"]) auto
qed

section \<open>The number of rounds\<close>

text \<open>The loop with a bound on its rounds.\<close>

fun drive_fuel ::
  "nat \<Rightarrow> tm_env \<Rightarrow> int \<Rightarrow> xa_log \<Rightarrow> int \<Rightarrow> tm_st \<Rightarrow> (tm_st, drive_end) outcome option" where
  "drive_fuel 0 E flags p_tl try s = None"
| "drive_fuel (Suc k) E flags p_tl try s =
    (case drive_round E flags p_tl try s of
       Exit c s1 \<Rightarrow> Some (Exit c s1)
     | Ret r s1 \<Rightarrow> (case r of
           DrAgain p1 try1 \<Rightarrow> drive_fuel k E flags p1 try1 s1
         | _ \<Rightarrow> Some (Ret r s1)))"

lemma drive_fuel_enough:
  assumes "0 \<le> n" "stage_rank (tl_txstage p) * (nat (e_xa_retries E) + 1) + nat (e_xa_retries E - n) < k"
  shows "drive_fuel k E flags p n s = Some (tm_drive_loop E flags p n s)"
  using assms
proof (induction k arbitrary: p n s)
  case (Suc k)
  let ?R = "nat (e_xa_retries E)"
  show ?case
  proof (cases "drive_round E flags p n s")
    case (Ret r s1)
    then have post: "round_post E p n s r s1" using drive_round_ores[of E p n s flags] by simp
    show ?thesis
    proof (cases r)
      case (DrAgain p1 n1)
      have n1: "0 \<le> n1" using post DrAgain Suc.prems(1) by (simp add: round_post_def)
      have "stage_rank (tl_txstage p1) * (?R + 1) + nat (e_xa_retries E - n1) < k"
      proof (cases "tl_txstage p1 = tl_txstage p")
        case True
        then have "n1 = n + 1" "n1 < e_xa_retries E"
          using post DrAgain by (auto simp: round_post_def next_stage_def)
        then show ?thesis using True Suc.prems by auto
      next
        case False
        then have "stage_rank (tl_txstage p1) < stage_rank (tl_txstage p)"
          using post DrAgain next_stage_rank by (auto simp: round_post_def)
        then have "(stage_rank (tl_txstage p1) + 1) * (?R + 1) \<le> stage_rank (tl_txstage p) * (?R + 1)"
          by (intro mult_le_mono1) simp
        moreover have "nat (e_xa_retries E - n1) \<le> ?R" using n1 by auto
        ultimately show ?thesis using Suc.prems(2) by simp
      qed
      from Suc.IH[OF n1 this] show ?thesis
        using Ret DrAgain by (simp add: tm_drive_loop.simps[of E flags p n s])
    qed (use Ret in \<open>simp_all add: tm_drive_loop.simps[of E flags p n s]\<close>)
  qed (simp add: tm_drive_loop.simps[of E flags p n s])
qed simp

section \<open>What becomes of the entry\<close>

lemma hash_find_remove:
  assumes "ex_inv tl_tmxid (st_hash s)"
  shows "hash_find xid (tms_remove_logfile E p True s) = (if xid = tl_tmxid p then None else hash_find xid s)"
proof -
  have st: "st_hash (tms_remove_logfile E p True s) = ex_del tl_tmxid (tl_tmxid p) (st_hash s)"
    by (auto simp: tms_remove_logfile_def tms_remove_logfree_def Let_def hash_del_def tms_close_logfile_def)
  show ?thesis unfolding hash_find_def st using tx_table.lookup_del[OF assms] by simp
qed

lemma hash_find_leave:
  "hash_find xid (drive_leave E p s) =
    (if xid = tl_tmxid p then map_option (\<lambda>_. p\<lparr>tl_is_background := True,
        tl_lockthreadid := if e_tid E = tl_lockthreadid p then 0 else tl_lockthreadid p\<rparr>) (hash_find xid s)
     else hash_find xid s)"
proof -
  have eq: "(if \<not> tl_is_background p then p\<lparr>tl_is_background := True\<rparr> else p) = p\<lparr>tl_is_background := True\<rparr>"
    by auto
  show ?thesis
    unfolding drive_leave_def eq by (auto simp: tms_unlock_entry_def Let_def hash_find_put)
qed

lemma drive_loop_entry:
  "ores (\<lambda>r s'. st_hash s' = st_hash s \<and> (case r of DrOut ret p' \<Rightarrow> entry_kept p p'
      | DrAgain p' n' \<Rightarrow> False | DrDone p' d \<Rightarrow> entry_kept p p' \<and> xa_stage_get_descr (tl_txstage p') = Some d))
     (\<lambda>_. True) (tm_drive_loop E flags p n s)"
  by (rule drive_loop_rule[where I = "\<lambda>p' s'. st_hash s' = st_hash s \<and> entry_kept p p'"])
    (auto simp: round_post_def journal_step_def intro: entry_kept_trans split: drive_end.splits)

text \<open>A finished transaction is out of the table; an unfinished one is in it for the
  background, and unlocked.  The other transactions are as they were.\<close>

lemma tm_drive_entry:
  assumes "ex_inv tl_tmxid (st_hash s)" "hash_find (tl_tmxid p) s \<noteq> None" "e_tid E = tl_lockthreadid p"
    and "tm_drive E p master_op flags s = Ret ret s'"
  shows "(hash_find (tl_tmxid p) s' = None \<or>
      (\<exists>q. hash_find (tl_tmxid p) s' = Some q \<and> tl_is_background q \<and> tl_lockthreadid q = 0)) \<and>
    (\<forall>xid. xid \<noteq> tl_tmxid p \<longrightarrow> hash_find xid s' = hash_find xid s)"
proof -
  obtain r s1 where lp: "tm_drive_loop E flags p 0 s = Ret r s1"
    using assms(4) by (cases "tm_drive_loop E flags p 0 s") (auto simp: tm_drive_def)
  have le: "st_hash s1 = st_hash s \<and> (case r of DrOut ret p' \<Rightarrow> entry_kept p p'
      | DrAgain p' n' \<Rightarrow> False | DrDone p' d \<Rightarrow> entry_kept p p' \<and> xa_stage_get_descr (tl_txstage p') = Some d)"
    using drive_loop_entry[of s p E flags 0] lp by simp
  then have h: "hash_find xid s1 = hash_find xid s" "ex_inv tl_tmxid (st_hash s1)" for xid
    using assms(1) by (auto simp: hash_find_def)
  obtain p1 where p1: "entry_kept p p1"
      "s' = tms_remove_logfile E p1 True s1 \<or> s' = drive_leave E p1 s1"
    using le assms(4) lp by (cases r) (auto simp: tm_drive_def Let_def split: if_splits)
  then show ?thesis
    using entry_kept_fields[OF p1(1)] h assms(2,3)
    by (auto simp: hash_find_remove hash_find_leave)
qed

end
