(* ===== verification/Tm_Api.thy ===== *)
theory Tm_Api
  imports Tm_Commit
begin

text \<open>
  The services of the transaction manager: registration of transactions and branches
  in the journal (tms_log_start, tms_log_addrm, tms_log_chrmstat of tmsrv/log.c) and
  the request handlers of tmsrv/tmapi.c, on the fields of the request buffer they read
  and write.  A read of a field (Bget) fails when the field is missing, a write (Bchg)
  when the environment says so.
\<close>

abbreviation "NDRX_XA_ERSN_NONE \<equiv> 0 :: int"
abbreviation "NDRX_XA_ERSN_LOGFAIL \<equiv> 2001 :: int"
abbreviation "NDRX_XA_ERSN_INVPARAM \<equiv> 2002 :: int"
abbreviation "NDRX_XA_ERSN_NOTX \<equiv> 2003 :: int"
abbreviation "NDRX_XA_ERSN_RMLOGFAIL \<equiv> 2005 :: int"
abbreviation "NDRX_XA_ERSN_RMCOMMITFAIL \<equiv> 2006 :: int"
abbreviation "NDRX_XA_ERSN_UBFERR \<equiv> 2007 :: int"
abbreviation "NDRX_XA_ERSN_RMERR \<equiv> 2008 :: int"
abbreviation "NDRX_XA_ERSN_INPROGRESS \<equiv> 2010 :: int"
abbreviation "NDRX_XA_ERSN_LOCK \<equiv> 2011 :: int"

text \<open>The bits of the transaction flags.\<close>

abbreviation "TMFLAGS_RMIDKNOWN_BIT \<equiv> 1 :: nat"
abbreviation "TMFLAGS_TPNOSTARTXID_BIT \<equiv> 4 :: nat"
abbreviation "TMFLAGS_DYNAMIC_REG_BIT \<equiv> 5 :: nat"

section \<open>Transactions and branches in the journal\<close>

text \<open>The branch of the initiator, for a static registration.\<close>

definition log_start_branch ::
  "tm_env \<Rightarrow> xa_log \<Rightarrow> int \<Rightarrow> int \<Rightarrow> tm_st \<Rightarrow> int \<times> int \<times> xa_log \<times> tm_st" where
  "log_start_branch E tmp tmrmid tmflags s =
    (case tms_btid_gettid tmp tmrmid of (btid, p1) \<Rightarrow>
       (case tms_btid_add (e_alloc E (st_tick s)) p1 tmrmid btid XA_RM_STATUS_NULL 0 0 of
          (ret, bt, p2) \<Rightarrow>
            (case bt of
               None \<Rightarrow> (EXFAIL, btid, p2, tick s)
             | Some b \<Rightarrow>
                 let start_stat = (if bit tmflags TMFLAGS_TPNOSTARTXID_BIT then XA_RM_STATUS_UNKOWN
                                   else XA_RM_STATUS_ACTIVE)
                 in (case tms_log_rmstatus E p2 tmrmid b start_stat 0 0 (tick s) of
                       (ret, p3, s3) \<Rightarrow> (if ret \<noteq> EXSUCCEED then EXFAIL else EXSUCCEED, btid, p3, s3)))))"

text \<open>The new entry, filled in.\<close>

definition log_start_new :: "tm_env \<Rightarrow> xa_tx_info \<Rightarrow> int \<Rightarrow> tm_st \<Rightarrow> xa_log" where
  "log_start_new E xai txtout s =
     xa_log_zero\<lparr>tl_txstage := XA_TX_STAGE_ACTIVE, tl_tmnodeid := xi_tmnodeid xai,
       tl_tmsrvid := xi_tmsrvid xai, tl_tmrmid := xi_tmrmid xai,
       tl_tmxid := take NDRX_XID_SERIAL_BUFSIZE (xi_tmxid xai),
       tl_t_start := e_clock E (st_tick s), tl_t_update := e_clock E (st_tick (tick s)),
       tl_txtout := txtout, tl_log_version := LOG_VERSION_2,
       tl_ttimer := e_clock E (st_tick (tick (tick s)))\<rparr>"

text \<open>From the lock of the new entry to the end.\<close>

definition log_start_run ::
  "tm_env \<Rightarrow> int \<Rightarrow> int \<Rightarrow> int \<Rightarrow> xa_log \<Rightarrow> tm_st \<Rightarrow> (tm_st, int \<times> int) outcome" where
  "log_start_run E tmrmid tmflags btid p1 s1 =
    (let p2 = p1\<lparr>tl_lockthreadid := e_tid E\<rparr>; s2 = hash_add p2 s1 in
     case tms_open_logfile E p2 s2 of (ret, p3, s3) \<Rightarrow>
       if ret \<noteq> EXSUCCEED then Ret (EXFAIL, btid) (tms_remove_logfile E p3 True s3)
       else case tms_log_info E p3 s3 of (ret, s4) \<Rightarrow>
         if ret \<noteq> EXSUCCEED then Ret (EXFAIL, btid) (tms_remove_logfile E p3 True s4)
         else if bit tmflags TMFLAGS_DYNAMIC_REG_BIT
         then Ret (EXSUCCEED, btid) (snd (snd (tms_unlock_entry E p3 s4)))
         else case log_start_branch E p3 tmrmid tmflags s4 of (ret, btid1, p5, s5) \<Rightarrow>
           if ret \<noteq> EXSUCCEED then Ret (EXFAIL, btid1) (tms_remove_logfile E p5 True s5)
           else Ret (EXSUCCEED, btid1) (snd (snd (tms_unlock_entry E p5 s5))))"

text \<open>Result: the return code and the branch id.  A failed first allocation is followed by
  tms_remove_logfile on the null pointer.\<close>

definition tms_log_start ::
  "tm_env \<Rightarrow> xa_tx_info \<Rightarrow> int \<Rightarrow> int \<Rightarrow> int \<Rightarrow> tm_st \<Rightarrow> (tm_st, int \<times> int) outcome" where
  "tms_log_start E xai txtout tmflags btid s =
    (if \<not> e_alloc E (st_tick s) then Exit CRASHED (tick s)
     else andthen (tms_log_setseq E (log_start_new E xai txtout (tick s)) (tick (tick (tick (tick s)))))
       (\<lambda>(ret, p1) s1.
         if ret \<noteq> EXSUCCEED then Ret (EXFAIL, btid) (tms_remove_logfile E p1 False s1)
         else log_start_run E (xi_tmrmid xai) tmflags btid p1 s1))"

text \<open>Result: the return code, whether the branch was known, the branch id.  After a failed
  allocation the code goes on with a null branch.\<close>

definition tms_log_addrm ::
  "tm_env \<Rightarrow> xa_tx_info \<Rightarrow> int \<Rightarrow> int \<Rightarrow> int \<Rightarrow> tm_st \<Rightarrow> (tm_st, int \<times> bool \<times> int) outcome" where
  "tms_log_addrm E xai rmid btid flags s =
    (case tms_log_get_entry E (xi_tmxid xai) NDRX_LOCK_WAIT_TIME s of (r, _, s1) \<Rightarrow>
       case r of
         None \<Rightarrow> Ret (EXFAIL, False, btid) s1
       | Some p_tl \<Rightarrow>
           let out = (\<lambda>ret known b p st. Ret (ret, known, b) (snd (snd (tms_unlock_entry E p st)))) in
           if 1 > rmid \<or> rmid > int NDRX_MAX_RMS then out EXFAIL False btid p_tl s1
           else if tl_is_background p_tl \<or> tl_txstage p_tl \<noteq> XA_TX_STAGE_ACTIVE
           then out EXFAIL False btid p_tl s1
           else case tms_btid_addupd (e_alloc E (st_tick s1)) p_tl rmid btid XA_RM_STATUS_NULL 0 0 of
             (ret, btid1, known, bt, p1) \<Rightarrow>
               if known then out ret True btid1 p1 (tick s1)
               else (case bt of
                   None \<Rightarrow> Exit CRASHED (tick s1)
                 | Some b \<Rightarrow>
                     let start_stat = (if bit flags TMFLAGS_TPNOSTARTXID_BIT then XA_RM_STATUS_UNKOWN
                                       else XA_RM_STATUS_ACTIVE)
                     in (case tms_log_rmstatus E p1 rmid b start_stat 0 0 (tick s1) of
                           (ret2, p2, s2) \<Rightarrow>
                             if ret2 \<noteq> EXSUCCEED then out EXFAIL False btid1 p2 s2
                             else out ret False btid1 p2 s2)))"

text \<open>The code reads the table of the resource manager and the branch without checking
  either.\<close>

definition tms_log_chrmstat ::
  "tm_env \<Rightarrow> xa_tx_info \<Rightarrow> int \<Rightarrow> int \<Rightarrow> char \<Rightarrow> tm_ub \<Rightarrow> tm_st \<Rightarrow> (tm_st, int \<times> tm_ub) outcome" where
  "tms_log_chrmstat E xai rmid btid rmstatus p_ub s =
    (case tms_log_get_entry E (xi_tmxid xai) NDRX_LOCK_WAIT_TIME s of (r, locke, s1) \<Rightarrow>
       case r of
         None \<Rightarrow> Ret (EXFAIL, if locke then atmi_xa_set_error TPETIME NDRX_XA_ERSN_LOCK p_ub
                              else atmi_xa_set_error TPEMATCH NDRX_XA_ERSN_NOTX p_ub) s1
       | Some p_tl \<Rightarrow>
           if \<not> rmid_ok rmid then Exit CRASHED s1
           else case tms_btid_find p_tl rmid btid of
             None \<Rightarrow> Exit CRASHED s1
           | Some bt \<Rightarrow>
               if bt_rmstatus bt \<noteq> XA_RM_STATUS_UNKOWN
               then Ret (EXFAIL, atmi_xa_set_error TPEMATCH NDRX_XA_ERSN_INVPARAM p_ub)
                      (snd (snd (tms_unlock_entry E p_tl s1)))
               else (case tms_log_rmstatus E p_tl rmid bt rmstatus 0 0 s1 of (ret, p1, s2) \<Rightarrow>
                       if ret \<noteq> EXSUCCEED
                       then Ret (EXFAIL, atmi_xa_set_error TPEMATCH NDRX_XA_ERSN_RMLOGFAIL p_ub)
                              (snd (snd (tms_unlock_entry E p1 s2)))
                       else Ret (EXSUCCEED, p_ub) (snd (snd (tms_unlock_entry E p1 s2)))))"

section \<open>Request handlers\<close>

text \<open>atmi_xa_read_tx_info; the branch id only without XA_TXINFO_NOBTID.\<close>

definition atmi_xa_read_tx_info :: "tm_ub \<Rightarrow> bool \<Rightarrow> xa_tx_info option" where
  "atmi_xa_read_tx_info ub nobtid =
    (case (u_tmxid ub, u_tmrmid ub, u_tmnodeid ub, u_tmsrvid ub, u_tmknownrms ub) of
       (Some xid, Some rmid, Some node, Some srv, Some known) \<Rightarrow>
         (let xai = (\<lambda>btid. \<lparr>xi_tmxid = xid, xi_tmrmid = rmid, xi_tmnodeid = node, xi_tmsrvid = srv,
                             xi_btid = btid, xi_tmknownrms = known\<rparr>)
          in if nobtid then Some (xai EXFAIL) else map_option xai (u_btid ub))
     | _ \<Rightarrow> None)"

definition tm_tpabort :: "tm_env \<Rightarrow> tm_ub \<Rightarrow> tm_st \<Rightarrow> (tm_st, int \<times> tm_ub) outcome" where
  "tm_tpabort E p_ub s =
    (case atmi_xa_read_tx_info p_ub True of
       None \<Rightarrow> Ret (EXSUCCEED, atmi_xa_set_error TPEINVAL NDRX_XA_ERSN_NOTX p_ub) s
     | Some xai \<Rightarrow>
         (case tms_log_get_entry E (xi_tmxid xai) NDRX_LOCK_WAIT_TIME s of (r, locke, s1) \<Rightarrow>
            case r of
              None \<Rightarrow> Ret (EXFAIL, if locke then atmi_xa_set_error TPETIME NDRX_XA_ERSN_LOCK p_ub
                                   else atmi_xa_set_error TPEPROTO NDRX_XA_ERSN_NOTX p_ub) s1
            | Some p_tl \<Rightarrow>
                if tl_is_background p_tl \<or> tl_txstage p_tl \<noteq> XA_TX_STAGE_ACTIVE
                then Ret (EXFAIL, if tl_txstage p_tl \<ge> XA_TX_STAGE_PREPARING
                                  then atmi_xa_set_error TPEPROTO NDRX_XA_ERSN_INPROGRESS p_ub
                                  else atmi_xa_set_error TPEHEURISTIC NDRX_XA_ERSN_INPROGRESS p_ub)
                       (snd (snd (tms_unlock_entry E p_tl s1)))
                else andthen (tms_log_stage E p_tl XA_TX_STAGE_ABORTING True s1)
                  (\<lambda>(_, p1) s2. andthen (tm_drive E p1 XA_OP_ROLLBACK 0 s2)
                    (\<lambda>ret s3. if ret \<noteq> EXSUCCEED
                              then Ret (EXSUCCEED, atmi_xa_set_error ret NDRX_XA_ERSN_RMCOMMITFAIL p_ub) s3
                              else Ret (EXSUCCEED, p_ub) s3))))"

definition tm_tpcommit :: "tm_env \<Rightarrow> tm_ub \<Rightarrow> tm_st \<Rightarrow> (tm_st, int \<times> tm_ub) outcome" where
  "tm_tpcommit E p_ub s =
    (case atmi_xa_read_tx_info p_ub True of
       None \<Rightarrow> Ret (EXFAIL, atmi_xa_set_error TPESYSTEM NDRX_XA_ERSN_INVPARAM p_ub) s
     | Some xai \<Rightarrow>
       (case u_flags p_ub of
          None \<Rightarrow> Ret (EXFAIL, atmi_xa_set_error TPESYSTEM NDRX_XA_ERSN_INVPARAM p_ub) s
        | Some tmflags \<Rightarrow>
         (case tms_log_get_entry E (xi_tmxid xai) NDRX_LOCK_WAIT_TIME s of (r, locke, s1) \<Rightarrow>
            case r of
              None \<Rightarrow> Ret (EXFAIL, if locke then atmi_xa_set_error TPETIME NDRX_XA_ERSN_LOCK p_ub
                                   else atmi_xa_set_error TPEABORT NDRX_XA_ERSN_NOTX p_ub) s1
            | Some p_tl \<Rightarrow>
                if tl_is_background p_tl \<or> tl_txstage p_tl \<noteq> XA_TX_STAGE_ACTIVE
                then Ret (EXFAIL, if tl_txstage p_tl \<ge> XA_TX_STAGE_PREPARING
                                  then atmi_xa_set_error TPEPROTO NDRX_XA_ERSN_INPROGRESS p_ub
                                  else atmi_xa_set_error TPEABORT NDRX_XA_ERSN_INPROGRESS p_ub)
                       (snd (snd (tms_unlock_entry E p_tl s1)))
                else andthen (tms_log_stage E p_tl XA_TX_STAGE_PREPARING False s1)
                  (\<lambda>(ret, p1) s2.
                    if ret \<noteq> EXSUCCEED
                    then let ub1 = atmi_xa_set_error TPEABORT NDRX_XA_ERSN_LOGFAIL p_ub
                         in andthen (tms_log_stage E p1 XA_TX_STAGE_ABORTING True s2)
                           (\<lambda>(_, p2) s3. andthen (tm_drive E p2 XA_OP_ROLLBACK 0 s3)
                             (\<lambda>ret s4. if ret \<noteq> EXSUCCEED
                                       then Ret (EXFAIL, atmi_xa_override_error ret ub1) s4
                                       else Ret (EXSUCCEED, ub1) s4))
                    else andthen (tm_drive E p1 XA_OP_COMMIT tmflags s2)
                      (\<lambda>ret s3. if ret \<noteq> EXSUCCEED
                                then Ret (EXFAIL, atmi_xa_set_error ret NDRX_XA_ERSN_RMCOMMITFAIL p_ub) s3
                                else Ret (EXSUCCEED, p_ub) s3)))))"

text \<open>atmi_xa_load_tx_info: the identification goes into the buffer.\<close>

definition atmi_xa_load_tx_info :: "xa_tx_info \<Rightarrow> tm_ub \<Rightarrow> tm_ub" where
  "atmi_xa_load_tx_info xai ub = ub\<lparr>u_tmxid := Some (xi_tmxid xai), u_tmrmid := Some (xi_tmrmid xai),
     u_tmnodeid := Some (xi_tmnodeid xai), u_tmsrvid := Some (xi_tmsrvid xai),
     u_tmknownrms := Some (xi_tmknownrms xai)\<rparr>"

text \<open>The label out of tm_tpbegin with do_rollback set.\<close>

definition tpbegin_rollback :: "tm_env \<Rightarrow> tm_ub \<Rightarrow> int \<Rightarrow> tm_st \<Rightarrow> (tm_st, int \<times> tm_ub) outcome" where
  "tpbegin_rollback E ub btid s =
    (case tm_rollback_local E (Some ub) btid s of (ret, ub', s1) \<Rightarrow> Ret (ret, the ub') s1)"

definition tm_tpbegin :: "tm_env \<Rightarrow> tm_ub \<Rightarrow> tm_st \<Rightarrow> (tm_st, int \<times> tm_ub) outcome" where
  "tm_tpbegin E p_ub s =
    (case u_flags p_ub of
       None \<Rightarrow> Ret (EXFAIL, p_ub) s
     | Some tmflags \<Rightarrow>
         let xid = e_new_xid E (st_tick s);
             known = (if \<not> bit tmflags TMFLAGS_DYNAMIC_REG_BIT \<and> \<not> bit tmflags TMFLAGS_TPNOSTARTXID_BIT
                      then [e_xa_rmid E] else []);
             xai = \<lparr>xi_tmxid = take NDRX_XID_SERIAL_BUFSIZE xid, xi_tmrmid = e_xa_rmid E,
                    xi_tmnodeid = to_short (e_vnodeid E), xi_tmsrvid = to_short (e_srv_id E), xi_btid = EXFAIL,
                    xi_tmknownrms = known\<rparr>;
             txtout = (case u_tout p_ub of None \<Rightarrow> e_dflt_timeout E
                       | Some t \<Rightarrow> if 0 \<ge> t then e_dflt_timeout E else t);
             s1 = tick s
         in if \<not> e_bchg E (st_tick s1)
            then tpbegin_rollback E (atmi_xa_set_error TPETRAN NDRX_XA_ERSN_NONE p_ub) EXFAIL (tick s1)
            else
              let ub1 = atmi_xa_load_tx_info xai p_ub in
              andthen (tms_log_start E xai txtout tmflags EXFAIL (tick s1))
              (\<lambda>(ret, btid) s2.
                if ret \<noteq> EXSUCCEED
                then tpbegin_rollback E (atmi_xa_set_error TPETRAN NDRX_XA_ERSN_LOGFAIL ub1) btid s2
                else if \<not> e_bchg E (st_tick s2)
                then tpbegin_rollback E (atmi_xa_set_error TPESYSTEM NDRX_XA_ERSN_UBFERR ub1) btid (tick s2)
                else Ret (EXSUCCEED, ub1\<lparr>u_btid := Some btid\<rparr>) (tick s2)))"

definition tm_tmregister :: "tm_env \<Rightarrow> tm_ub \<Rightarrow> tm_st \<Rightarrow> (tm_st, int \<times> tm_ub) outcome" where
  "tm_tmregister E p_ub s =
    (let bad = (\<lambda>reason ub st. Ret (EXFAIL, atmi_xa_set_error TPESYSTEM reason ub) st) in
     case u_callerrm p_ub of
       None \<Rightarrow> bad NDRX_XA_ERSN_INVPARAM p_ub s
     | Some callerrm \<Rightarrow>
       (case atmi_xa_read_tx_info p_ub True of
          None \<Rightarrow> bad NDRX_XA_ERSN_INVPARAM p_ub s
        | Some xai \<Rightarrow>
          (case u_flags p_ub of
             None \<Rightarrow> bad NDRX_XA_ERSN_INVPARAM p_ub s
           | Some tmflags \<Rightarrow>
               andthen (tms_log_addrm E xai callerrm (case u_btid p_ub of None \<Rightarrow> EXFAIL | Some b \<Rightarrow> b)
                          tmflags s)
               (\<lambda>(ret, known, btid) s1.
                 if ret \<noteq> EXSUCCEED then bad NDRX_XA_ERSN_RMLOGFAIL p_ub s1
                 else
                   let flags1 = (if known then or tmflags 2 else tmflags) in
                   if u_btid p_ub = None \<and> \<not> e_bchg E (st_tick s1)
                   then bad NDRX_XA_ERSN_UBFERR p_ub (tick s1)
                   else
                     let ub1 = (if u_btid p_ub = None then p_ub\<lparr>u_btid := Some btid\<rparr> else p_ub);
                         s2 = tick s1 in
                     if \<not> e_bchg E (st_tick s2) then bad NDRX_XA_ERSN_UBFERR ub1 (tick s2)
                     else Ret (EXSUCCEED, ub1\<lparr>u_flags := Some flags1\<rparr>) (tick s2)))))"

definition tm_rmstatus :: "tm_env \<Rightarrow> tm_ub \<Rightarrow> tm_st \<Rightarrow> (tm_st, int \<times> tm_ub) outcome" where
  "tm_rmstatus E p_ub s =
    (let bad = (\<lambda>reason ub st. Ret (EXFAIL, atmi_xa_set_error TPESYSTEM reason ub) st) in
     case u_callerrm p_ub of
       None \<Rightarrow> bad NDRX_XA_ERSN_INVPARAM p_ub s
     | Some callerrm \<Rightarrow>
       (case atmi_xa_read_tx_info p_ub True of
          None \<Rightarrow> bad NDRX_XA_ERSN_INVPARAM p_ub s
        | Some xai \<Rightarrow>
          (case (u_btid p_ub, u_rmstatus p_ub) of
             (Some btid, Some rmstatus) \<Rightarrow>
               andthen (tms_log_chrmstat E xai callerrm btid rmstatus p_ub s)
               (\<lambda>(ret, ub1) s1.
                 if ret \<noteq> EXSUCCEED then bad NDRX_XA_ERSN_RMLOGFAIL ub1 s1
                 else if \<not> e_bchg E (st_tick s1) then bad NDRX_XA_ERSN_UBFERR ub1 (tick s1)
                 else Ret (EXSUCCEED, ub1\<lparr>u_flags := Some 0\<rparr>) (tick s1))
           | _ \<Rightarrow> bad NDRX_XA_ERSN_INVPARAM p_ub s)))"

text \<open>The four commands a master TM sends for a local branch share one shape.\<close>

definition tm_tmlocal ::
  "(tm_env \<Rightarrow> tm_ub option \<Rightarrow> int \<Rightarrow> tm_st \<Rightarrow> int \<times> tm_ub option \<times> tm_st) \<Rightarrow>
   tm_env \<Rightarrow> tm_ub \<Rightarrow> tm_st \<Rightarrow> int \<times> tm_ub \<times> tm_st" where
  "tm_tmlocal op E p_ub s =
    (case atmi_xa_read_tx_info p_ub False of
       None \<Rightarrow> (EXFAIL, atmi_xa_set_error TPESYSTEM NDRX_XA_ERSN_INVPARAM p_ub, s)
     | Some xai \<Rightarrow>
         (case op E (Some p_ub) (xi_btid xai) s of (ret, ub, s1) \<Rightarrow>
            (if ret \<noteq> EXSUCCEED then EXFAIL else EXSUCCEED, the ub, s1)))"

definition tm_tmprepare :: "tm_env \<Rightarrow> tm_ub \<Rightarrow> tm_st \<Rightarrow> int \<times> tm_ub \<times> tm_st" where
  "tm_tmprepare = tm_tmlocal tm_prepare_local"

definition tm_tmcommit :: "tm_env \<Rightarrow> tm_ub \<Rightarrow> tm_st \<Rightarrow> int \<times> tm_ub \<times> tm_st" where
  "tm_tmcommit = tm_tmlocal tm_commit_local"

definition tm_tmabort :: "tm_env \<Rightarrow> tm_ub \<Rightarrow> tm_st \<Rightarrow> int \<times> tm_ub \<times> tm_st" where
  "tm_tmabort = tm_tmlocal tm_rollback_local"

definition tm_tmforget :: "tm_env \<Rightarrow> tm_ub \<Rightarrow> tm_st \<Rightarrow> int \<times> tm_ub \<times> tm_st" where
  "tm_tmforget = tm_tmlocal tm_forget_local"

section \<open>Administration\<close>

definition tm_aborttrans :: "tm_env \<Rightarrow> tm_ub \<Rightarrow> tm_st \<Rightarrow> (tm_st, int \<times> tm_ub) outcome" where
  "tm_aborttrans E p_ub s =
    (case u_tmxid p_ub of
       None \<Rightarrow> Ret (EXFAIL, atmi_xa_set_error TPESYSTEM 0 p_ub) s
     | Some tmxid \<Rightarrow>
         (case tms_log_get_entry E tmxid NDRX_LOCK_WAIT_TIME s of (r, locke, s1) \<Rightarrow>
            case r of
              None \<Rightarrow> Ret (EXFAIL, if locke then atmi_xa_set_error TPETIME 0 p_ub
                                   else atmi_xa_set_error TPEMATCH 0 p_ub) s1
            | Some p_tl \<Rightarrow>
                andthen (tms_log_stage E p_tl XA_TX_STAGE_ABORTING True s1)
                  (\<lambda>(_, p1) s2. andthen (tm_drive E p1 XA_OP_ROLLBACK 0 s2)
                    (\<lambda>ret s3. if ret \<noteq> EXSUCCEED
                              then Ret (EXFAIL, atmi_xa_set_error ret NDRX_XA_ERSN_RMERR p_ub) s3
                              else Ret (EXSUCCEED, p_ub) s3))))"

text \<open>The copy of the entry into the reply (tms_log_cpy_info_to_fb) may fail.\<close>

definition tm_status :: "tm_env \<Rightarrow> tm_ub \<Rightarrow> tm_st \<Rightarrow> (tm_st, int \<times> tm_ub) outcome" where
  "tm_status E p_ub s =
    (case u_tmxid p_ub of
       None \<Rightarrow> Ret (EXFAIL, atmi_xa_set_error TPESYSTEM 0 p_ub) s
     | Some tmxid \<Rightarrow>
         (case tms_log_get_entry E tmxid NDRX_LOCK_WAIT_TIME s of (r, locke, s1) \<Rightarrow>
            case r of
              None \<Rightarrow>
                if locke then Ret (EXFAIL, atmi_xa_set_error TPETIME 0 p_ub) s1
                else (case (if e_chkdisk_time E > 0 then tms_log_exists_file E tmxid s1 else (0, s1)) of
                   (there, s2) \<Rightarrow>
                     if there = 1 then Ret (EXFAIL, atmi_xa_set_error TPESYSTEM 0 p_ub) s2
                     else if there \<noteq> 0 then Ret (EXFAIL, atmi_xa_set_error TPEOS 0 p_ub) s2
                     else andthen (tms_log_checkpointseq E None s2)
                       (\<lambda>_ s3. Ret (EXFAIL, atmi_xa_set_error TPEMATCH 0 p_ub) s3))
            | Some p_tl \<Rightarrow>
                let s2 = snd (snd (tms_unlock_entry E p_tl (tick s1))) in
                if \<not> e_bchg E (st_tick s1) then Ret (EXFAIL, p_ub) s2
                else Ret (EXSUCCEED, p_ub\<lparr>u_tmxid := Some (tl_tmxid p_tl)\<rparr>) s2))"

definition tm_committrans :: "tm_env \<Rightarrow> tm_ub \<Rightarrow> tm_st \<Rightarrow> (tm_st, int \<times> tm_ub) outcome" where
  "tm_committrans E p_ub s =
    (case u_tmxid p_ub of
       None \<Rightarrow> Ret (EXFAIL, atmi_xa_set_error TPESYSTEM 0 p_ub) s
     | Some tmxid \<Rightarrow>
         (case tms_log_get_entry E tmxid NDRX_LOCK_WAIT_TIME s of (r, locke, s1) \<Rightarrow>
            case r of
              None \<Rightarrow> Ret (EXFAIL, if locke then atmi_xa_set_error TPETIME 0 p_ub
                                   else atmi_xa_set_error TPEMATCH 0 p_ub) s1
            | Some p_tl \<Rightarrow>
                if tl_txstage p_tl \<noteq> XA_TX_STAGE_COMMITTING
                then Ret (EXFAIL, atmi_xa_set_error TPEINVAL 0 p_ub)
                       (snd (snd (tms_unlock_entry E p_tl s1)))
                else andthen (tm_drive E p_tl XA_OP_COMMIT 0 s1)
                  (\<lambda>ret s2. if ret \<noteq> EXSUCCEED
                            then Ret (EXFAIL, atmi_xa_set_error ret NDRX_XA_ERSN_RMCOMMITFAIL p_ub) s2
                            else Ret (EXSUCCEED, p_ub) s2)))"

end
