(* ===== verification/Tm_Recover.thy ===== *)
theory Tm_Recover
  imports Tm_Log
begin

text \<open>
  The journal, reading side (tmsrv/log.c): the parsers of the three kinds of records,
  the loop of tms_load_logfile over the lines of a log file, and what the load does
  with the transaction it finds.  The lemmas show that what the writing side printed
  is what the reading side parses, that damaged lines are skipped, and which stage a
  transaction has after a restart.
\<close>

section \<open>Parsing one record\<close>

text \<open>The tokens are those of strtok with a colon; a missing token is a failure.\<close>

definition tms_parse_info :: "tm_env \<Rightarrow> string \<Rightarrow> xa_log \<Rightarrow> tm_st \<Rightarrow> int \<times> xa_log \<times> tm_st" where
  "tms_parse_info E buf p_tl s =
    (case strtok CHR '':'' buf of
       [] \<Rightarrow> (EXFAIL, p_tl, s)
     | tstamp # toks \<Rightarrow>
         let t_start = atoi tstamp;
             tdiff = e_clock E (st_tick s) - t_start;
             p1 = p_tl\<lparr>tl_t_start := t_start, tl_ttimer := e_clock E (Suc (st_tick s)) - tdiff\<rparr>;
             s1 = tick (tick s)
         in (case toks of
               cmdid # tmrmid # tmnodeid # tmsrvid # rest \<Rightarrow>
                 let p2 = p1\<lparr>tl_tmrmid := e_xa_rmid E, tl_tmnodeid := to_short (e_vnodeid E),
                             tl_tmsrvid := to_short (e_srv_id E)\<rparr>
                 in (case rest of
                       txtout # _ \<Rightarrow> (EXSUCCEED, p2\<lparr>tl_txtout := atoi txtout\<rparr>, s1)
                     | [] \<Rightarrow> (EXFAIL, p2, s1))
             | _ \<Rightarrow> (EXFAIL, p1, s1)))"

definition tms_parse_stage :: "string \<Rightarrow> xa_log \<Rightarrow> int \<times> xa_log" where
  "tms_parse_stage buf p_tl =
    (case strtok CHR '':'' buf of
       [] \<Rightarrow> (EXFAIL, p_tl)
     | tstamp # toks \<Rightarrow>
         let p1 = p_tl\<lparr>tl_t_update := atoi tstamp\<rparr>
         in (case toks of
               cmdid # txstage # _ \<Rightarrow>
                 let stage = to_short (atoi txstage)
                 in if tl_txstage p1 \<ge> XA_TX_STAGE_ABORTING \<and> tl_txstage p1 \<le> XA_TX_STAGE_ABFORGOT_HEU
                    then (if stage \<ge> XA_TX_STAGE_ABORTING \<and> stage \<le> XA_TX_STAGE_ABFORGOT_HEU
                          then (EXSUCCEED, p1\<lparr>tl_txstage := stage\<rparr>) else (EXSUCCEED, p1))
                    else (EXSUCCEED, p1\<lparr>tl_txstage := stage\<rparr>)
             | _ \<Rightarrow> (EXFAIL, p1)))"

definition tms_parse_rmstatus :: "bool \<Rightarrow> string \<Rightarrow> xa_log \<Rightarrow> int \<times> xa_log" where
  "tms_parse_rmstatus malloc_ok buf p_tl =
    (case strtok CHR '':'' buf of
       [] \<Rightarrow> (EXFAIL, p_tl)
     | tstamp # toks \<Rightarrow>
         let p1 = p_tl\<lparr>tl_t_update := atoi tstamp\<rparr>
         in (case toks of
               cmdid # rmid_tok # toks2 \<Rightarrow>
                 let rmid = atoi rmid_tok
                 in if rmid < 1 \<or> rmid > int NDRX_MAX_RMS then (EXFAIL, p1)
                    else (case toks2 of
                        rmstatus # rmerrorcode # rmreason # rest \<Rightarrow>
                          let btid = (case rest of b # _ \<Rightarrow> atoi b | [] \<Rightarrow> 0)
                          in (case tms_btid_addupd malloc_ok p1 rmid btid (hd rmstatus)
                                     (atoi rmerrorcode) (to_short (atoi rmreason)) of
                                (ret, _, _, _, p2) \<Rightarrow> (ret, p2))
                      | _ \<Rightarrow> (EXFAIL, p1))
             | _ \<Rightarrow> (EXFAIL, p1)))"

section \<open>Loading a file\<close>

record load_acc =
  la_p :: xa_log
  la_got_term :: bool
  la_infos_ok :: bool
  la_missing :: bool
  la_fail :: bool
  la_housekeep :: bool

text \<open>A line without its terminator, and whether it had one.\<close>

definition strip_line :: "string \<Rightarrow> string \<times> bool" where
  "strip_line line =
    (let buf = c_str line;
         got = (1 < length buf \<and> last buf = NL);
         buf1 = (if got then butlast buf else buf);
         buf2 = (if 1 < length buf1 \<and> last buf1 = CR then butlast buf1 else buf1)
     in (buf2, got))"

text \<open>The checksum of a line: the text before the separator, None for a line to ignore.\<close>

definition check_line :: "string \<Rightarrow> string option" where
  "check_line buf =
    (case strchr_split LOG_RS_SEP buf of
       None \<Rightarrow> None
     | Some (txt, rs) \<Rightarrow> if log_crc txt \<noteq> sscanf_lx rs then None else Some txt)"

text \<open>The switch over the kind of a record.\<close>

definition load_record :: "tm_env \<Rightarrow> char \<Rightarrow> string \<Rightarrow> load_acc \<Rightarrow> tm_st \<Rightarrow> load_acc \<times> tm_st" where
  "load_record E cmd buf acc s =
    (if cmd = LOG_COMMAND_I \<or> cmd = LOG_COMMAND_J
     then (if la_infos_ok acc then (acc\<lparr>la_housekeep := True, la_fail := True\<rparr>, s)
           else let p1 = (la_p acc)\<lparr>tl_log_version := of_char cmd - of_char LOG_COMMAND_I + 1\<rparr>
                in (case tms_parse_info E buf p1 s of (ret, p2, s1) \<Rightarrow>
                      if ret \<noteq> EXSUCCEED then (acc\<lparr>la_p := p2, la_fail := True\<rparr>, s1)
                      else (acc\<lparr>la_p := p2, la_infos_ok := True\<rparr>, s1)))
     else if cmd = LOG_COMMAND_STAGE
     then (if \<not> la_infos_ok acc then (acc\<lparr>la_housekeep := True, la_fail := True\<rparr>, s)
           else (case tms_parse_stage buf (la_p acc) of (ret, p1) \<Rightarrow>
                   (acc\<lparr>la_p := p1, la_fail := (ret \<noteq> EXSUCCEED)\<rparr>, s)))
     else if cmd = LOG_COMMAND_RMSTAT
     then (if \<not> la_infos_ok acc then (acc\<lparr>la_housekeep := True, la_fail := True\<rparr>, s)
           else (case tms_parse_rmstatus (e_alloc E (st_tick s)) buf (la_p acc) of (ret, p1) \<Rightarrow>
                   (acc\<lparr>la_p := p1, la_fail := (ret \<noteq> EXSUCCEED)\<rparr>, tick s)))
     else (acc, s))"

definition load_line :: "tm_env \<Rightarrow> string \<Rightarrow> load_acc \<Rightarrow> tm_st \<Rightarrow> load_acc \<times> tm_st" where
  "load_line E line acc s =
    (case strip_line line of (buf, got) \<Rightarrow>
       let acc1 = acc\<lparr>la_got_term := got\<rparr> in
       if \<not> got then (acc1\<lparr>la_missing := True\<rparr>, s)
       else case strchr_split CHR '':'' buf of
         None \<Rightarrow> (acc1\<lparr>la_fail := True\<rparr>, s)
       | Some (_, after) \<Rightarrow>
           let cmd = (case after of [] \<Rightarrow> CHR 0x00 | c # _ \<Rightarrow> c) in
           if \<not> la_infos_ok acc \<and> cmd = LOG_COMMAND_J \<or> tl_log_version (la_p acc) > LOG_VERSION_1
           then (case check_line buf of
                   None \<Rightarrow> (acc1, s)
                 | Some txt \<Rightarrow> load_record E cmd txt acc1 s)
           else load_record E cmd buf acc1 s)"

fun load_lines :: "tm_env \<Rightarrow> string list \<Rightarrow> load_acc \<Rightarrow> tm_st \<Rightarrow> load_acc \<times> tm_st" where
  "load_lines E [] acc s = (acc, s)"
| "load_lines E (line # lines) acc s =
    (case load_line E line acc s of (acc1, s1) \<Rightarrow>
       if la_fail acc1 then (acc1, s1) else load_lines E lines acc1 s1)"

text \<open>After the loop: the checks, the repair of a last line without terminator.  The newline is on disk at once here; in the
  code it is in the buffer of the stream until the next flush or the end of the process.\<close>

definition load_finish :: "tm_env \<Rightarrow> load_acc \<Rightarrow> tm_st \<Rightarrow> load_acc \<times> tm_st" where
  "load_finish E acc s =
    (if la_fail acc then (acc, s)
     else if \<not> e_read_ok E (st_tick s) then (acc\<lparr>la_fail := True\<rparr>, tick s)
     else if \<not> la_infos_ok acc then (acc\<lparr>la_housekeep := True, la_fail := True\<rparr>, tick s)
     else if la_missing acc
     then (if la_got_term acc then (acc\<lparr>la_fail := True\<rparr>, tick s)
           else if e_lockloss E \<or> \<not> e_fprintf E (st_tick s) then (acc\<lparr>la_fail := True\<rparr>, tick s)
           else (acc, tick (disk_append (tl_fname (la_p acc)) [NL] s)))
     else (acc, tick s))"

text \<open>The transaction that was found: it belongs to the background; one that had not decided
  is aborted; it goes into the table.\<close>

definition load_adopt :: "tm_env \<Rightarrow> xa_log \<Rightarrow> tm_st \<Rightarrow> (tm_st, xa_log) outcome" where
  "load_adopt E p s =
    (let p1 = p\<lparr>tl_is_background := True\<rparr> in
     if tl_txstage p1 = XA_TX_STAGE_PREPARING \<or> tl_txstage p1 = XA_TX_STAGE_ACTIVE
     then andthen (tms_log_stage E (p1\<lparr>tl_lockthreadid := e_tid E\<rparr>) XA_TX_STAGE_ABORTING True s)
       (\<lambda>(ret, p2) s1. let p3 = p2\<lparr>tl_lockthreadid := 0\<rparr> in Ret p3 (hash_add p3 s1))
     else Ret p1 (hash_add p1 s))"

text \<open>The label out: an entry that could not be loaded is freed, a corrupted file may be
  removed.  Result: the return code, the entry, log_removed, housekeepable.\<close>

definition load_out ::
  "tm_env \<Rightarrow> string \<Rightarrow> int \<Rightarrow> xa_log option \<Rightarrow> bool \<Rightarrow> tm_st \<Rightarrow> int \<times> xa_log option \<times> bool \<times> bool \<times> tm_st" where
  "load_out E logfile ret p_tl do_housekeep s =
    (let s1 = (if ret \<noteq> EXSUCCEED
               then (case p_tl of None \<Rightarrow> s | Some p \<Rightarrow> tms_remove_logfree (tms_close_logfile p) False s)
               else s);
         p1 = (if ret \<noteq> EXSUCCEED then None else p_tl)
     in if do_housekeep
        then (case tms_housekeep E logfile s1 of (removed, s2) \<Rightarrow> (ret, p1, removed, True, s2))
        else (ret, p1, False, False, s1))"

definition tms_load_logfile ::
  "tm_env \<Rightarrow> string \<Rightarrow> string \<Rightarrow> tm_st \<Rightarrow> (tm_st, int \<times> xa_log option \<times> bool \<times> bool) outcome" where
  "tms_load_logfile E logfile tmxid s =
    (let out = (\<lambda>ret p hk s1. case load_out E logfile ret p hk s1 of
                  (ret', p', rm, hk', s2) \<Rightarrow> Ret (ret', p', rm, hk') s2)
     in if \<not> e_alloc E (st_tick s) then out EXFAIL None False (tick s)
        else if length logfile > 4096 then out EXFAIL (Some xa_log_zero) False (tick s)
        else if length tmxid > NDRX_XID_SERIAL_BUFSIZE
        then out EXFAIL (Some (xa_log_zero\<lparr>tl_fname := logfile\<rparr>)) False (tick s)
        else andthen (tms_log_setseq E (xa_log_zero\<lparr>tl_fname := logfile, tl_tmxid := tmxid,
                         tl_txstage := XA_TX_STAGE_ACTIVE\<rparr>) (tick s))
          (\<lambda>(ret, p1) s1.
            if ret \<noteq> EXSUCCEED then out EXFAIL (Some p1) False s1
            else case tms_open_logfile E p1 s1 of (ret, p2, s2) \<Rightarrow>
              if ret \<noteq> EXSUCCEED then out EXFAIL (Some p2) False s2
              else if \<not> e_fseek E (st_tick s2) then out EXFAIL (Some p2) False s2
              else case load_lines E (fgets_all 1023 (case st_disk s2 logfile of None \<Rightarrow> [] | Some c \<Rightarrow> c))
                     \<lparr>la_p = p2, la_got_term = False, la_infos_ok = False, la_missing = False,
                      la_fail = False, la_housekeep = False\<rparr> s2 of
                (acc, s3) \<Rightarrow>
                  (case load_finish E acc s3 of (acc1, s4) \<Rightarrow>
                     if la_fail acc1 then out EXFAIL (Some (la_p acc1)) (la_housekeep acc1) s4
                     else andthen (load_adopt E (la_p acc1) s4)
                       (\<lambda>p5 s5. out EXSUCCEED (Some p5) (la_housekeep acc1) s5))))"

section \<open>What is printed is what is parsed\<close>

text \<open>The records of a log, as values.\<close>

datatype log_rec =
    RecInfo int int int int
  | RecStage int
  | RecRm int char int int int

fun rec_cmd :: "log_rec \<Rightarrow> char" where
  "rec_cmd (RecInfo _ _ _ _) = LOG_COMMAND_J"
| "rec_cmd (RecStage _) = LOG_COMMAND_STAGE"
| "rec_cmd (RecRm _ _ _ _ _) = LOG_COMMAND_RMSTAT"

fun rec_msg :: "log_rec \<Rightarrow> string" where
  "rec_msg (RecInfo rmid node srv tout) =
     fmt_d rmid @ '':'' @ fmt_d node @ '':'' @ fmt_d srv @ '':'' @ fmt_d tout @ '':''"
| "rec_msg (RecStage st) = fmt_d st"
| "rec_msg (RecRm rmid c ec rs btid) = rmstatus_msg rmid c ec rs btid"

text \<open>A record as the writing side prints it (version 2).\<close>

definition rec_line :: "int \<Rightarrow> log_rec \<Rightarrow> string" where
  "rec_line ts r = fst (log_line LOG_VERSION_2 False (log_text ts (rec_cmd r) (rec_msg r)))"

definition rec_raw :: "int \<Rightarrow> log_rec \<Rightarrow> string" where
  "rec_raw ts r = fmt_d ts @ '':'' @ [rec_cmd r] @ '':'' @ rec_msg r"

text \<open>The values fit their C types, and a status is a letter.\<close>

definition c_long :: "int \<Rightarrow> bool" where
  "c_long n \<longleftrightarrow> LONG_MIN \<le> n \<and> n \<le> LONG_MAX"

fun rec_ok :: "log_rec \<Rightarrow> bool" where
  "rec_ok (RecInfo a b c d) = (c_long a \<and> c_long b \<and> c_long c \<and> c_long d)"
| "rec_ok (RecStage st) = is_short st"
| "rec_ok (RecRm rmid c ec rs btid) =
     (rmid_ok rmid \<and> c \<notin> {CHR 0x00, NL, CR, CHR '':'', LOG_RS_SEP} \<and> c_long ec \<and> is_short rs \<and>
      0 \<le> btid \<and> btid < LONG_MAX)"

lemma c_long_length: "c_long n \<Longrightarrow> length (fmt_d n) \<le> 20"
  using length_fmt_d[of n 19] by (simp add: c_long_def abs_if)

lemma short_long: "is_short n \<Longrightarrow> c_long n"
  by (simp add: is_short_def c_long_def)

lemma rmid_long: "rmid_ok n \<Longrightarrow> c_long n"
  by (simp add: rmid_ok_def c_long_def)

lemma rec_msg_length: "rec_ok r \<Longrightarrow> length (rec_msg r) \<le> 105"
proof (cases r)
  case (RecInfo a b c d)
  assume "rec_ok r"
  then show ?thesis using RecInfo c_long_length[of a] c_long_length[of b] c_long_length[of c] c_long_length[of d] by simp
next
  case (RecStage st)
  assume "rec_ok r"
  then show ?thesis using RecStage c_long_length[OF short_long, of st] by simp
next
  case (RecRm a c e f g)
  assume "rec_ok r"
  then show ?thesis using RecRm c_long_length[OF rmid_long, of a] c_long_length[of e]
      c_long_length[OF short_long, of f] c_long_length[of g] by (simp add: rmstatus_msg_def c_long_def[of g])
qed

lemma rec_msg_chars:
  "rec_ok r \<Longrightarrow> CHR 0x00 \<notin> set (rec_msg r) \<and> NL \<notin> set (rec_msg r) \<and> LOG_RS_SEP \<notin> set (rec_msg r)"
  by (cases r) (auto simp: rmstatus_msg_def)

lemma rec_raw_facts:
  assumes "rec_ok r" "c_long ts"
  shows "length (rec_raw ts r) \<le> 128" "CHR 0x00 \<notin> set (rec_raw ts r)" "NL \<notin> set (rec_raw ts r)"
    "LOG_RS_SEP \<notin> set (rec_raw ts r)"
  using rec_msg_length[OF assms(1)] rec_msg_chars[OF assms(1)] c_long_length[OF assms(2)]
  by (cases r; simp add: rec_raw_def)+

lemma c_str_id: "CHR 0x00 \<notin> set x \<Longrightarrow> c_str x = x"
  by (auto simp: c_str_def takeWhile_eq_all_conv)

lemma log_text_raw: "rec_ok r \<Longrightarrow> c_long ts \<Longrightarrow> log_text ts (rec_cmd r) (rec_msg r) = rec_raw ts r"
  using rec_raw_facts[of r ts] rec_msg_length[of r] rec_msg_chars[of r]
  by (simp add: log_text_def c_str_id rec_raw_def)

lemma rec_line_eq:
  "rec_ok r \<Longrightarrow> c_long ts \<Longrightarrow>
   rec_line ts r = (rec_raw ts r @ [LOG_RS_SEP] @ hex_pad 8 (log_crc (rec_raw ts r))) @ [NL]"
  by (simp add: rec_line_def log_text_raw log_line_def Let_def)

lemma hex_pad_8: "length (hex_pad 8 (log_crc x)) = 8"
  using log_crc_32[of x] by (intro hex_pad_length) simp_all

lemma strip_line_term:
  "CHR 0x00 \<notin> set b \<Longrightarrow> b \<noteq> [] \<Longrightarrow> last b \<noteq> CR \<Longrightarrow> strip_line (b @ [NL]) = (b, True)"
  by (auto simp: strip_line_def c_str_id Let_def)

lemma strip_rec_line:
  assumes "rec_ok r" "c_long ts"
  shows "strip_line (rec_line ts r) = (rec_raw ts r @ [LOG_RS_SEP] @ hex_pad 8 (log_crc (rec_raw ts r)), True)"
proof -
  have ne: "hex_pad 8 (log_crc (rec_raw ts r)) \<noteq> []" using hex_pad_8[of "rec_raw ts r"] by auto
  then have "last (hex_pad 8 (log_crc (rec_raw ts r))) \<noteq> CR" using hex_pad_no(2) last_in_set by metis
  with ne show ?thesis
    unfolding rec_line_eq[OF assms] using rec_raw_facts[OF assms] by (intro strip_line_term) auto
qed

lemma check_rec:
  assumes "rec_ok r" "c_long ts"
  shows "check_line (rec_raw ts r @ [LOG_RS_SEP] @ hex_pad 8 (log_crc (rec_raw ts r))) = Some (rec_raw ts r)"
  using rec_raw_facts[OF assms] by (simp add: check_line_def)

text \<open>The line of a record reaches the parser of its kind, unchanged.\<close>

lemma load_line_rec:
  assumes "rec_ok r" "c_long ts" "tl_log_version (la_p acc) > LOG_VERSION_1 \<or> \<not> la_infos_ok acc \<and> rec_cmd r = LOG_COMMAND_J"
  shows "load_line E (rec_line ts r) acc s = load_record E (rec_cmd r) (rec_raw ts r) (acc\<lparr>la_got_term := True\<rparr>) s"
proof -
  have "strchr_split CHR '':'' (rec_raw ts r @ [LOG_RS_SEP] @ hex_pad 8 (log_crc (rec_raw ts r))) =
      Some (fmt_d ts, rec_cmd r # '':'' @ rec_msg r @ [LOG_RS_SEP] @ hex_pad 8 (log_crc (rec_raw ts r)))"
    by (simp add: rec_raw_def)
  then show ?thesis
    unfolding load_line_def strip_rec_line[OF assms(1,2)]
    using check_rec[OF assms(1,2)] assms(3) by (auto simp: Let_def)
qed

subsection \<open>The three parsers\<close>

lemma tokens_info:
  "strtok CHR '':'' (rec_raw ts (RecInfo a b c d)) = [fmt_d ts, ''J'', fmt_d a, fmt_d b, fmt_d c, fmt_d d]"
proof -
  have "rec_raw ts (RecInfo a b c d) = fmt_d ts @ CHR '':'' # (''J'' @ CHR '':'' # (fmt_d a @ CHR '':'' #
     (fmt_d b @ CHR '':'' # (fmt_d c @ CHR '':'' # (fmt_d d @ CHR '':'' # [])))))"
    by (simp add: rec_raw_def)
  then show ?thesis by (simp only:) (simp add: strtok_token del: append_Cons)
qed

lemma tokens_stage: "strtok CHR '':'' (rec_raw ts (RecStage st)) = [fmt_d ts, ''S'', fmt_d st]"
proof -
  have "rec_raw ts (RecStage st) = fmt_d ts @ CHR '':'' # (''S'' @ CHR '':'' # fmt_d st)"
    by (simp add: rec_raw_def)
  then show ?thesis by (simp only:) (simp add: strtok_facts del: append_Cons)
qed

lemma tokens_rm:
  assumes "c \<noteq> CHR '':''"
  shows "strtok CHR '':'' (rec_raw ts (RecRm rmid c ec rs btid)) =
     [fmt_d ts, ''R'', fmt_d rmid, [c], fmt_d ec, fmt_d rs, fmt_d btid]"
proof -
  have "rec_raw ts (RecRm rmid c ec rs btid) = fmt_d ts @ CHR '':'' # (''R'' @ CHR '':'' # (fmt_d rmid @ CHR '':'' #
     ([c] @ CHR '':'' # (fmt_d ec @ CHR '':'' # (fmt_d rs @ CHR '':'' # fmt_d btid)))))"
    by (simp add: rec_raw_def rmstatus_msg_def)
  then show ?thesis using assms by (simp only:) (simp add: strtok_facts del: append_Cons)
qed

lemma parse_info_rec:
  "tms_parse_info E (rec_raw ts (RecInfo a b c d)) p s =
    (EXSUCCEED, p\<lparr>tl_t_start := ts, tl_ttimer := e_clock E (Suc (st_tick s)) - (e_clock E (st_tick s) - ts),
        tl_tmrmid := e_xa_rmid E, tl_tmnodeid := to_short (e_vnodeid E), tl_tmsrvid := to_short (e_srv_id E), tl_txtout := d\<rparr>,
     tick (tick s))"
  by (simp add: tms_parse_info_def tokens_info Let_def)

text \<open>Once a log says abort, no later record takes the transaction out of the abort stages.\<close>

definition stage_after :: "int \<Rightarrow> int \<Rightarrow> int" where
  "stage_after st new = (if abort_range st \<and> \<not> abort_range new then st else new)"

lemma parse_stage_rec:
  "is_short st \<Longrightarrow> tms_parse_stage (rec_raw ts (RecStage st)) p =
    (EXSUCCEED, p\<lparr>tl_t_update := ts, tl_txstage := stage_after (tl_txstage p) st\<rparr>)"
  by (auto simp: tms_parse_stage_def tokens_stage Let_def stage_after_def abort_range_def)

lemma parse_rm_rec:
  assumes "rec_ok (RecRm rmid c ec rs btid)"
  shows "tms_parse_rmstatus ok (rec_raw ts (RecRm rmid c ec rs btid)) p =
    (case tms_btid_addupd ok (p\<lparr>tl_t_update := ts\<rparr>) rmid btid c ec rs of (ret, _, _, _, p2) \<Rightarrow> (ret, p2))"
proof -
  have "c \<noteq> CHR '':''" using assms by auto
  from tokens_rm[OF this, of ts rmid ec rs btid] show ?thesis
    using assms by (auto simp: tms_parse_rmstatus_def Let_def rmid_ok_def)
qed

section \<open>Replaying a log\<close>

text \<open>What a record after the first does to the entry.\<close>

fun replay_rec :: "int \<times> log_rec \<Rightarrow> xa_log \<Rightarrow> xa_log" where
  "replay_rec (ts, RecInfo a b c d) p = p"
| "replay_rec (ts, RecStage st) p = p\<lparr>tl_t_update := ts, tl_txstage := stage_after (tl_txstage p) st\<rparr>"
| "replay_rec (ts, RecRm rmid c ec rs btid) p =
     (case tms_btid_addupd True (p\<lparr>tl_t_update := ts\<rparr>) rmid btid c ec rs of (_, _, _, _, p2) \<Rightarrow> p2)"

definition replay :: "(int \<times> log_rec) list \<Rightarrow> xa_log \<Rightarrow> xa_log" where
  "replay recs p = fold replay_rec recs p"

fun is_info :: "log_rec \<Rightarrow> bool" where
  "is_info (RecInfo _ _ _ _) = True"
| "is_info _ = False"

definition recs_ok :: "(int \<times> log_rec) list \<Rightarrow> bool" where
  "recs_ok recs \<longleftrightarrow> (\<forall>(ts, r) \<in> set recs. rec_ok r \<and> c_long ts \<and> \<not> is_info r)"

definition lines_of :: "(int \<times> log_rec) list \<Rightarrow> string list" where
  "lines_of recs = map (\<lambda>(ts, r). rec_line ts r) recs"

lemma tl_wf_t_update [simp]: "tl_wf (p\<lparr>tl_t_update := t\<rparr>) = tl_wf p" "tl_wf (p\<lparr>tl_txstage := t2\<rparr>) = tl_wf p"
  by (simp_all add: tl_wf_def)

lemma replay_rec_wf:
  assumes "tl_wf p" "rec_ok r"
  shows "tl_wf (replay_rec (ts, r) p)"
proof (cases r)
  case (RecRm rmid c ec rs btid)
  obtain ret b ex bt p2 where a: "tms_btid_addupd True (p\<lparr>tl_t_update := ts\<rparr>) rmid btid c ec rs = (ret, b, ex, bt, p2)"
    by (metis prod_cases5)
  have "tl_wf p2" using addupd_ok[OF _ _ _ _ a] assms RecRm by simp
  then show ?thesis using a RecRm by simp
qed (use assms in auto)

lemma addupd_fields:
  "tms_btid_addupd ok p rmid btid c ec rs = (ret, b, ex, bt, p2) \<Longrightarrow>
    \<exists>r. p2 = p\<lparr>tl_rmstatus := r\<rparr>"
  by (auto simp: tms_btid_addupd_def tms_btid_add_def tms_btid_gettid_def bt_put_def rm_set_def Let_def
      split: option.splits if_splits)
    (metis xa_log.surjective xa_log.update_convs(8))+

lemma replay_rec_fields:
  "tl_log_version (replay_rec tr p) = tl_log_version p \<and> tl_fname (replay_rec tr p) = tl_fname p \<and>
   tl_tmxid (replay_rec tr p) = tl_tmxid p \<and> tl_f (replay_rec tr p) = tl_f p"
proof (cases "(tr, p)" rule: replay_rec.cases)
  case (3 ts rmid c ec rs btid p')
  obtain ret b ex bt p2 where a: "tms_btid_addupd True (p\<lparr>tl_t_update := ts\<rparr>) rmid btid c ec rs = (ret, b, ex, bt, p2)"
    by (metis prod_cases5)
  then show ?thesis using addupd_fields[OF a] 3 by auto
qed auto

text \<open>A quiet world: allocation, reading and writing succeed, no test switch is on and no
  singleton group is configured.\<close>

definition calm :: "tm_env \<Rightarrow> bool" where
  "calm E \<longleftrightarrow> (\<forall>t. e_alloc E t \<and> e_fopen E t \<and> e_fseek E t \<and> e_read_ok E t \<and> e_fprintf E t) \<and>
     \<not> e_lockloss E \<and> e_procgrp_no E = 0 \<and> e_commit_crash E = 0"

text \<open>States that differ in the number of outside calls only.\<close>

definition only_ticks :: "tm_st \<Rightarrow> tm_st \<Rightarrow> bool" where
  "only_ticks s s' \<longleftrightarrow> (\<exists>n. s' = s\<lparr>st_tick := n\<rparr>)"

lemma only_ticks_refl [simp]: "only_ticks s s"
  unfolding only_ticks_def by (rule exI[of _ "st_tick s"]) simp

lemma only_ticks_tick [simp]: "only_ticks s s' \<Longrightarrow> only_ticks s (tick s')"
  by (auto simp: only_ticks_def tick_def)

lemma only_ticks_trans: "only_ticks s s' \<Longrightarrow> only_ticks s' s'' \<Longrightarrow> only_ticks s s''"
  by (auto simp: only_ticks_def)

lemma load_line_replay:
  assumes "calm E" "rec_ok r" "c_long ts" "\<not> is_info r" "tl_wf (la_p acc)"
    and "la_infos_ok acc" "tl_log_version (la_p acc) = LOG_VERSION_2" "\<not> la_fail acc"
  shows "\<exists>s'. load_line E (rec_line ts r) acc s =
      (acc\<lparr>la_got_term := True, la_p := replay_rec (ts, r) (la_p acc)\<rparr>, s') \<and> only_ticks s s'"
proof -
  have ll: "load_line E (rec_line ts r) acc s = load_record E (rec_cmd r) (rec_raw ts r) (acc\<lparr>la_got_term := True\<rparr>) s"
    using assms by (intro load_line_rec) auto
  show ?thesis
  proof (cases r)
    case (RecStage st)
    then show ?thesis using ll assms by (simp add: load_record_def parse_stage_rec)
  next
    case (RecRm rmid c ec rs btid)
    obtain ret b ex bt p2 where a:
      "tms_btid_addupd True ((la_p acc)\<lparr>tl_t_update := ts\<rparr>) rmid btid c ec rs = (ret, b, ex, bt, p2)"
      by (metis prod_cases5)
    have ret: "ret = EXSUCCEED" using addupd_ok[OF _ _ _ _ a] assms(2,5) RecRm by simp
    have al: "e_alloc E (st_tick s)" using assms(1) by (simp add: calm_def)
    have ro: "rec_ok (RecRm rmid c ec rs btid)" using assms(2) RecRm by simp
    show ?thesis using ll assms(6,8) a ret RecRm al
      by (simp add: load_record_def parse_rm_rec[OF ro])
  qed (use assms in simp)
qed

lemma load_lines_replay:
  assumes "calm E" "recs_ok recs" "tl_wf (la_p acc)"
    and "la_infos_ok acc" "tl_log_version (la_p acc) = LOG_VERSION_2" "\<not> la_fail acc" "la_got_term acc"
  shows "\<exists>s'. load_lines E (lines_of recs @ rest) acc s =
      load_lines E rest (acc\<lparr>la_p := replay recs (la_p acc)\<rparr>) s' \<and> only_ticks s s' \<and> tl_wf (replay recs (la_p acc))"
  using assms
proof (induction recs arbitrary: acc s)
  case Nil
  then show ?case by (auto simp: replay_def lines_of_def intro!: exI[of _ s])
next
  case (Cons tr recs)
  obtain ts r where tr: "tr = (ts, r)" by (cases tr)
  have ok: "rec_ok r" "c_long ts" "\<not> is_info r" "recs_ok recs" using Cons.prems(2) tr by (auto simp: recs_ok_def)
  obtain s1 where s1: "load_line E (rec_line ts r) acc s =
      (acc\<lparr>la_got_term := True, la_p := replay_rec (ts, r) (la_p acc)\<rparr>, s1)" "only_ticks s s1"
    using load_line_replay[OF Cons.prems(1) ok(1-3) Cons.prems(3-6), of s] by blast
  let ?acc = "acc\<lparr>la_got_term := True, la_p := replay_rec (ts, r) (la_p acc)\<rparr>"
  have gt: "acc\<lparr>la_got_term := True, la_p := x\<rparr> = acc\<lparr>la_p := x\<rparr>" for x using Cons.prems(7) by simp
  have wf: "tl_wf (la_p ?acc)" using replay_rec_wf[OF Cons.prems(3) ok(1), of ts] by simp
  have v: "tl_log_version (la_p ?acc) = LOG_VERSION_2" using replay_rec_fields[of "(ts, r)" "la_p acc"] Cons.prems(5) by simp
  obtain s2 where s2: "load_lines E (lines_of recs @ rest) ?acc s1 =
      load_lines E rest (?acc\<lparr>la_p := replay recs (la_p ?acc)\<rparr>) s2" "only_ticks s1 s2" "tl_wf (replay recs (la_p ?acc))"
    using Cons.IH[OF Cons.prems(1) ok(4) wf _ v] Cons.prems by fastforce
  show ?case
    using s1 s2 Cons.prems(6) tr only_ticks_trans[OF s1(2) s2(2)] gt
    by (intro exI[of _ s2]) (simp add: lines_of_def replay_def)
qed

subsection \<open>The lines of a file\<close>

lemma fgets_all_rec:
  assumes "rec_ok r" "c_long ts"
  shows "fgets_all 1023 (rec_line ts r @ rest) = rec_line ts r # fgets_all 1023 rest"
proof -
  let ?x = "rec_raw ts r @ [LOG_RS_SEP] @ hex_pad 8 (log_crc (rec_raw ts r))"
  have eq: "rec_line ts r = ?x @ [NL]" using rec_line_eq[OF assms] by simp
  have x: "NL \<notin> set ?x" "length ?x < 1023"
    using rec_raw_facts[OF assms] hex_pad_8[of "rec_raw ts r"] by auto
  show ?thesis using fgets_all_line[OF x, of rest] unfolding eq by simp
qed

lemma fgets_all_recs:
  assumes "recs_ok recs"
  shows "fgets_all 1023 (concat (lines_of recs) @ rest) = lines_of recs @ fgets_all 1023 rest"
  using assms by (induction recs) (auto simp: lines_of_def recs_ok_def fgets_all_rec)

lemma load_torn_line:
  assumes "NL \<notin> set tail"
  shows "load_line E tail acc s = (acc\<lparr>la_got_term := False, la_missing := True\<rparr>, s)"
proof -
  have "NL \<notin> set (c_str tail)" using assms by (auto simp: c_str_def dest: set_takeWhileD)
  then have "\<not> (1 < length (c_str tail) \<and> last (c_str tail) = NL)"
    by (metis last_in_set list.size(3) not_less_zero)
  then have "snd (strip_line tail) = False" by (simp add: strip_line_def Let_def)
  then show ?thesis by (cases "strip_line tail") (simp add: load_line_def)
qed

subsection \<open>The stage after a replay\<close>

definition rec_stages :: "(int \<times> log_rec) list \<Rightarrow> int list" where
  "rec_stages recs = concat (map (\<lambda>(ts, r). case r of RecStage st \<Rightarrow> [st] | _ \<Rightarrow> []) recs)"

definition logged_stage :: "(int \<times> log_rec) list \<Rightarrow> int" where
  "logged_stage recs = foldl stage_after XA_TX_STAGE_ACTIVE (rec_stages recs)"

lemma replay_rec_stage:
  "tl_txstage (replay_rec (ts, r) p) = (case r of RecStage st \<Rightarrow> stage_after (tl_txstage p) st | _ \<Rightarrow> tl_txstage p)"
proof (cases r)
  case (RecRm rmid c ec rs btid)
  obtain ret b ex bt p2 where a: "tms_btid_addupd True (p\<lparr>tl_t_update := ts\<rparr>) rmid btid c ec rs = (ret, b, ex, bt, p2)"
    by (metis prod_cases5)
  then show ?thesis using addupd_fields[OF a] RecRm by auto
qed auto

lemma replay_stage: "tl_txstage (replay recs p) = foldl stage_after (tl_txstage p) (rec_stages recs)"
proof (induction recs arbitrary: p)
  case (Cons tr recs)
  obtain ts r where "tr = (ts, r)" by (cases tr)
  then show ?case using Cons[of "replay_rec (ts, r) p"] replay_rec_stage[of ts r p]
    by (cases r) (auto simp: replay_def rec_stages_def)
qed (simp add: replay_def rec_stages_def)

lemma replay_fields:
  "tl_fname (replay recs p) = tl_fname p \<and> tl_tmxid (replay recs p) = tl_tmxid p"
  by (induction recs arbitrary: p) (auto simp: replay_def replay_rec_fields)

text \<open>A commit decision that is followed by commit stages only is never lost, and an abort
  decision is never turned.\<close>

lemma logged_commit:
  assumes "foldl stage_after st xs = y" "commit_range st" "\<forall>x \<in> set xs. commit_range x"
  shows "commit_range y"
  using assms by (induction xs arbitrary: st) (auto simp: stage_after_def commit_range_def abort_range_def)

lemma logged_abort: "abort_range st \<Longrightarrow> abort_range (foldl stage_after st xs)"
proof (induction xs arbitrary: st)
  case (Cons x xs)
  have "abort_range (stage_after st x)" using Cons.prems by (simp add: stage_after_def)
  from Cons.IH[OF this] show ?case by simp
qed simp

subsection \<open>The load\<close>

lemma calm_checkpoint: "calm E \<Longrightarrow> tms_log_checkpointseq E p s = Ret (EXSUCCEED, p) s"
  by (simp add: tms_log_checkpointseq_def calm_def)

lemma calm_stage_write: "calm E \<Longrightarrow> \<exists>r s'. log_stage_write E p stage s = Ret r s'"
  by (simp add: log_stage_write_def calm_checkpoint Let_def split: prod.splits)

lemma calm_log_stage:
  assumes "calm E" "stage > 0" "tl_txstage p \<noteq> EXFAIL" "e_tid E = tl_lockthreadid p"
  shows "\<exists>p' s'. tms_log_stage E p stage True s = Ret (EXSUCCEED, p') s' \<and>
     seq_only (p\<lparr>tl_txstage := stage\<rparr>) p' \<and> st_hash s' = st_hash s"
proof -
  have nc: "e_commit_crash E = 0" using assms(1) by (simp add: calm_def)
  obtain ret p1 s1 where w: "log_stage_write E (p\<lparr>tl_txstage := stage\<rparr>) stage s = Ret (ret, p1) s1"
    using calm_stage_write[OF assms(1)] by (metis surj_pair)
  have "tms_log_stage E p stage True s =
      (if tl_txstage p = stage then Ret (EXSUCCEED, p) s else Ret (EXSUCCEED, p1) s1)"
    using assms(2,4) nc w by (simp add: tms_log_stage_def Let_def)
  then obtain p' s' where r: "tms_log_stage E p stage True s = Ret (EXSUCCEED, p') s'"
    by (cases "tl_txstage p = stage") auto
  then show ?thesis
    using ores_RetD[OF log_stage_ores[OF assms(3), of s stage E True] r] by (auto simp: journal_step_def)
qed

definition recovered_stage :: "int \<Rightarrow> int" where
  "recovered_stage st =
     (if st = XA_TX_STAGE_PREPARING \<or> st = XA_TX_STAGE_ACTIVE then XA_TX_STAGE_ABORTING else st)"

lemma calm_adopt:
  assumes "calm E" "tl_txstage p \<noteq> EXFAIL"
  shows "\<exists>p' s'. load_adopt E p s = Ret p' s' \<and> tl_txstage p' = recovered_stage (tl_txstage p) \<and>
    tl_rmstatus p' = tl_rmstatus p \<and> tl_is_background p' \<and> (tl_lockthreadid p = 0 \<longrightarrow> tl_lockthreadid p' = 0) \<and>
    tl_tmxid p' = tl_tmxid p \<and> st_hash s' = st_hash s @ [p'] \<and>
    (recovered_stage (tl_txstage p) = tl_txstage p \<longrightarrow> st_disk s' = st_disk s)"
proof (cases "tl_txstage p = XA_TX_STAGE_PREPARING \<or> tl_txstage p = XA_TX_STAGE_ACTIVE")
  case True
  let ?p = "p\<lparr>tl_is_background := True, tl_lockthreadid := e_tid E\<rparr>"
  obtain p2 s2 where l: "tms_log_stage E ?p XA_TX_STAGE_ABORTING True s = Ret (EXSUCCEED, p2) s2"
      "seq_only (?p\<lparr>tl_txstage := XA_TX_STAGE_ABORTING\<rparr>) p2" "st_hash s2 = st_hash s"
    using calm_log_stage[OF assms(1), of XA_TX_STAGE_ABORTING ?p s] assms(2) by auto
  then show ?thesis using True
    by (auto simp: load_adopt_def Let_def recovered_stage_def seq_only_def hash_add_def ex_add_def)
qed (auto simp: load_adopt_def Let_def recovered_stage_def hash_add_def ex_add_def)

text \<open>The image of a log on disk: the info record, the later records, and the rest of a line
  that was being written when the process ended.\<close>

definition log_image :: "int \<Rightarrow> log_rec \<Rightarrow> (int \<times> log_rec) list \<Rightarrow> string \<Rightarrow> string" where
  "log_image ts0 info recs tail = rec_line ts0 info @ concat (lines_of recs) @ tail"

lemma log_image_lines:
  assumes "rec_ok info" "c_long ts0" "recs_ok recs" "NL \<notin> set tail" "length tail \<le> 1023"
  shows "fgets_all 1023 (log_image ts0 info recs tail) =
    rec_line ts0 info # lines_of recs @ (if tail = [] then [] else [tail])"
  unfolding log_image_def
  using fgets_all_rec[OF assms(1,2)] fgets_all_recs[OF assms(3)] fgets_all_last[of tail 1023] assms(4,5) by auto

lemma load_info_line:
  assumes "calm E" "rec_ok (RecInfo a b c d)" "c_long ts0" "\<not> la_infos_ok acc" "\<not> la_fail acc"
  shows "\<exists>p' s'. load_line E (rec_line ts0 (RecInfo a b c d)) acc s =
      (acc\<lparr>la_got_term := True, la_p := p', la_infos_ok := True\<rparr>, s') \<and> only_ticks s s' \<and>
      tl_log_version p' = LOG_VERSION_2 \<and> tl_rmstatus p' = tl_rmstatus (la_p acc) \<and>
      tl_txstage p' = tl_txstage (la_p acc) \<and> tl_tmxid p' = tl_tmxid (la_p acc) \<and>
      tl_fname p' = tl_fname (la_p acc) \<and> tl_t_start p' = ts0 \<and> tl_txtout p' = d \<and>
      tl_lockthreadid p' = tl_lockthreadid (la_p acc)"
proof -
  have "load_line E (rec_line ts0 (RecInfo a b c d)) acc s =
      load_record E LOG_COMMAND_J (rec_raw ts0 (RecInfo a b c d)) (acc\<lparr>la_got_term := True\<rparr>) s"
    using load_line_rec[OF assms(2,3), of acc E s] assms(4) by simp
  then have "load_line E (rec_line ts0 (RecInfo a b c d)) acc s =
      (acc\<lparr>la_got_term := True, la_p := (la_p acc)\<lparr>tl_log_version := LOG_VERSION_2, tl_t_start := ts0,
         tl_ttimer := e_clock E (Suc (st_tick s)) - (e_clock E (st_tick s) - ts0),
         tl_tmrmid := e_xa_rmid E, tl_tmnodeid := to_short (e_vnodeid E), tl_tmsrvid := to_short (e_srv_id E), tl_txtout := d\<rparr>,
         la_infos_ok := True\<rparr>, tick (tick s))"
    using assms(4,5) by (simp add: load_record_def parse_info_rec)
  then show ?thesis by (intro exI conjI) (assumption, auto)
qed

lemma replay_lock: "tl_lockthreadid (replay recs p) = tl_lockthreadid p"
proof (induction recs arbitrary: p)
  case (Cons tr recs)
  have "tl_lockthreadid (replay_rec tr p) = tl_lockthreadid p"
  proof (cases "(tr, p)" rule: replay_rec.cases)
    case (3 ts rmid c ec rs btid p')
    obtain ret b ex bt p2 where a: "tms_btid_addupd True (p\<lparr>tl_t_update := ts\<rparr>) rmid btid c ec rs = (ret, b, ex, bt, p2)"
      by (metis prod_cases5)
    then show ?thesis using addupd_fields[OF a] 3 by auto
  qed auto
  with Cons[of "replay_rec tr p"] show ?case by (simp add: replay_def)
qed (simp add: replay_def)

lemma foldl_stage_after_nn:
  "0 \<le> st \<Longrightarrow> \<forall>x \<in> set xs. 0 \<le> x \<Longrightarrow> 0 \<le> foldl stage_after st xs"
  by (induction xs arbitrary: st) (auto simp: stage_after_def abort_range_def)

lemma addupd_rmstatus_cong:
  assumes "tl_rmstatus p = tl_rmstatus q"
  shows "tl_rmstatus (snd (snd (snd (snd (tms_btid_addupd ok p rmid btid c ec rs))))) =
    tl_rmstatus (snd (snd (snd (snd (tms_btid_addupd ok q rmid btid c ec rs)))))"
proof -
  have f: "tms_btid_find p rmid k = tms_btid_find q rmid k" for k
    using assms by (simp add: tms_btid_find_def rm_at_def)
  have g: "fst (tms_btid_gettid p rmid) = fst (tms_btid_gettid q rmid)"
      "tl_rmstatus (snd (tms_btid_gettid p rmid)) = tl_rmstatus (snd (tms_btid_gettid q rmid))"
    using assms by (simp_all add: tms_btid_gettid_def rm_at_def rm_set_def Let_def)
  have a: "tl_rmstatus (snd (snd (tms_btid_add ok p' rmid k c ec rs))) = tl_rmstatus (snd (snd (tms_btid_add ok q' rmid k c ec rs)))"
    if "tl_rmstatus p' = tl_rmstatus q'" for p' q' k
    using that by (simp add: tms_btid_add_def rm_at_def rm_set_def Let_def)
  have b: "tl_rmstatus (bt_put p rmid x) = tl_rmstatus (bt_put q rmid x)" for x
    using assms by (simp add: bt_put_def rm_at_def rm_set_def)
  show ?thesis
    unfolding tms_btid_addupd_def f using assms a[OF assms] a[OF g(2)] g(1) b
    by (auto simp: Let_def case_prod_beta split: option.splits)
qed

lemma replay_rmstatus_cong:
  "tl_rmstatus p = tl_rmstatus q \<Longrightarrow> tl_rmstatus (replay recs p) = tl_rmstatus (replay recs q)"
proof (induction recs arbitrary: p q)
  case (Cons tr recs)
  have "tl_rmstatus (replay_rec tr p) = tl_rmstatus (replay_rec tr q)"
  proof (cases "(tr, p)" rule: replay_rec.cases)
    case (3 ts rmid c ec rs btid p')
    then show ?thesis
      using addupd_rmstatus_cong[of "p\<lparr>tl_t_update := ts\<rparr>" "q\<lparr>tl_t_update := ts\<rparr>" True rmid btid c ec rs] Cons.prems
      by (simp add: case_prod_beta)
  qed (use Cons.prems in auto)
  from Cons.IH[OF this] show ?case by (simp add: replay_def)
qed (simp add: replay_def)

lemma load_finish_calm:
  assumes "calm E" "\<not> la_fail acc" "la_infos_ok acc" "la_missing acc \<longrightarrow> \<not> la_got_term acc"
  shows "\<exists>s'. load_finish E acc s = (acc, s') \<and> st_hash s' = st_hash s \<and>
    st_disk s' (tl_fname (la_p acc)) =
      (if la_missing acc then Some ((case st_disk s (tl_fname (la_p acc)) of None \<Rightarrow> [] | Some c \<Rightarrow> c) @ [NL])
       else st_disk s (tl_fname (la_p acc)))"
  using assms by (auto simp: load_finish_def calm_def disk_append_def)

text \<open>Loading the image of a log: the branches are those of the replay, the stage is the
  logged one, except that an undecided transaction is aborted; the entry is in the table,
  unlocked, and for the background.\<close>

lemma load_image:
  assumes calm: "calm E" and info: "rec_ok (RecInfo a b c d)" "c_long ts0" and recs: "recs_ok recs"
    and nn: "\<forall>x \<in> set (rec_stages recs). 0 \<le> x"
    and tail: "NL \<notin> set tail" "length tail \<le> 1023"
    and names: "logfile \<noteq> []" "length logfile \<le> 4096" "length tmxid \<le> NDRX_XID_SERIAL_BUFSIZE"
    and disk: "st_disk s logfile = Some (log_image ts0 (RecInfo a b c d) recs tail)"
  shows "\<exists>p' s'. tms_load_logfile E logfile tmxid s = Ret (EXSUCCEED, Some p', False, False) s' \<and>
     tl_txstage p' = recovered_stage (logged_stage recs) \<and>
     tl_rmstatus p' = tl_rmstatus (replay recs xa_log_zero) \<and>
     tl_tmxid p' = tmxid \<and> tl_is_background p' \<and> tl_lockthreadid p' = 0 \<and>
     st_hash s' = st_hash s @ [p'] \<and>
     (recovered_stage (logged_stage recs) = logged_stage recs \<longrightarrow>
        st_disk s' logfile = Some (log_image ts0 (RecInfo a b c d) recs tail @ (if tail = [] then [] else [NL])))"
proof -
  let ?p1 = "xa_log_zero\<lparr>tl_fname := logfile, tl_tmxid := tmxid, tl_txstage := XA_TX_STAGE_ACTIVE\<rparr>"
  let ?p2 = "?p1\<lparr>tl_f := True\<rparr>"
  let ?acc0 = "\<lparr>la_p = ?p2, la_got_term = False, la_infos_ok = False, la_missing = False,
                      la_fail = False, la_housekeep = False\<rparr>"
  obtain s2 where op: "tms_open_logfile E ?p1 (tick s) = (EXSUCCEED, ?p2, s2)"
     "st_disk s2 logfile = st_disk s logfile" "st_hash s2 = st_hash s"
    using calm names disk by (auto simp: tms_open_logfile_def Let_def calm_def xa_log_zero_def)
  obtain p3 s3 where i: "load_line E (rec_line ts0 (RecInfo a b c d)) ?acc0 s2 =
      (?acc0\<lparr>la_got_term := True, la_p := p3, la_infos_ok := True\<rparr>, s3)" "only_ticks s2 s3"
      "tl_log_version p3 = LOG_VERSION_2" "tl_rmstatus p3 = tl_rmstatus xa_log_zero"
      "tl_txstage p3 = XA_TX_STAGE_ACTIVE" "tl_tmxid p3 = tmxid" "tl_fname p3 = logfile" "tl_lockthreadid p3 = 0"
    using load_info_line[OF calm info, of ?acc0 s2] by (auto simp: xa_log_zero_def)
  let ?acc1 = "?acc0\<lparr>la_got_term := True, la_p := p3, la_infos_ok := True\<rparr>"
  let ?tl = "if tail = [] then [] else [tail]"
  have wf3: "tl_wf (la_p ?acc1)" using tl_wf_zero i(4) by (simp add: tl_wf_def)
  obtain s4 where r: "load_lines E (lines_of recs @ ?tl) ?acc1 s3 =
      load_lines E ?tl (?acc1\<lparr>la_p := replay recs p3\<rparr>) s4" "only_ticks s3 s4"
    using load_lines_replay[OF calm recs wf3, of ?tl s3] i(3) by auto
  let ?acc2 = "if tail = [] then ?acc1\<lparr>la_p := replay recs p3\<rparr>
      else ?acc1\<lparr>la_p := replay recs p3, la_got_term := False, la_missing := True\<rparr>"
  have l: "load_lines E (fgets_all 1023 (log_image ts0 (RecInfo a b c d) recs tail)) ?acc0 s2 = (?acc2, s4)"
    unfolding log_image_lines[OF info recs tail] using i(1) r(1) load_torn_line[OF tail(1)] by simp
  have fn: "tl_fname (replay recs p3) = logfile" using replay_fields[of recs p3] i(7) by simp
  have d4: "st_disk s4 logfile = st_disk s logfile" using op(2) i(2) r(2) by (auto simp: only_ticks_def)
  obtain s5 where f: "load_finish E ?acc2 s4 = (?acc2, s5)" "st_hash s5 = st_hash s4"
      "st_disk s5 logfile = Some (log_image ts0 (RecInfo a b c d) recs tail @ (if tail = [] then [] else [NL]))"
    using load_finish_calm[OF calm, of ?acc2 s4] fn d4 disk by (cases "tail = []") auto
  have st: "tl_txstage (replay recs p3) = logged_stage recs"
    using replay_stage[of recs p3] i(5) by (simp add: logged_stage_def)
  have "0 \<le> logged_stage recs"
    unfolding logged_stage_def using nn by (intro foldl_stage_after_nn) auto
  then have ne: "tl_txstage (replay recs p3) \<noteq> EXFAIL" using st by simp
  obtain p6 s6 where ad: "load_adopt E (replay recs p3) s5 = Ret p6 s6"
      "tl_txstage p6 = recovered_stage (logged_stage recs)"
      "tl_rmstatus p6 = tl_rmstatus (replay recs p3)" "tl_is_background p6" "tl_lockthreadid p6 = 0"
      "tl_tmxid p6 = tmxid" "st_hash s6 = st_hash s5 @ [p6]"
      "recovered_stage (logged_stage recs) = logged_stage recs \<longrightarrow> st_disk s6 = st_disk s5"
    using calm_adopt[OF calm ne, of s5] st replay_lock[of recs p3] replay_fields[of recs p3] i(6,8) by auto
  have h: "st_hash s5 = st_hash s" using f(2) r(2) i(2) op(3) by (auto simp: only_ticks_def)
  have "tms_load_logfile E logfile tmxid s = Ret (EXSUCCEED, Some p6, False, False) s6"
  proof -
    have c: "e_alloc E t" "e_fseek E t" "e_procgrp_no E = 0" for t using calm by (auto simp: calm_def)
    show ?thesis
      unfolding tms_load_logfile_def tms_log_setseq_def
      using names op disk c l f(1) ad(1)
      by (cases "tail = []") (simp_all add: Let_def load_out_def)
  qed
  then show ?thesis
    using ad h f(3) replay_rmstatus_cong[OF i(4), of recs] by auto
qed

end
