(* ===== verification/Tm_Background.thy ===== *)
theory Tm_Background
  imports Tm_Api Tm_Recover
begin

text \<open>
  The work that nobody waits for: the registries of log files (tmsrv/background.c), the
  load of the files found at start and by the disk check, the pass over the transactions
  left to the background, and the time-out check of tmsrv/tmsrv.c.  What scandir and
  readdir return is given by the environment.
\<close>

section \<open>The registry of log files\<close>

record ndrx_tms_file_registry =
  fr_tmxid :: string
  fr_attempts :: int
  fr_housekeepable :: bool

record bg_st =
  bg_attempts :: "ndrx_tms_file_registry list"
  bg_broken :: "ndrx_tms_file_registry list"

definition ndrx_tms_file_registry_get ::
  "ndrx_tms_file_registry list \<Rightarrow> string \<Rightarrow> ndrx_tms_file_registry option" where
  "ndrx_tms_file_registry_get h tmxid = ex_find fr_tmxid tmxid h"

definition ndrx_tms_file_registry_add ::
  "bool \<Rightarrow> ndrx_tms_file_registry list \<Rightarrow> string \<Rightarrow> bool \<Rightarrow> int \<times> ndrx_tms_file_registry list" where
  "ndrx_tms_file_registry_add malloc_ok h tmxid housekeepable =
    (case ndrx_tms_file_registry_get h tmxid of
       Some _ \<Rightarrow> (EXSUCCEED, h)
     | None \<Rightarrow>
         if \<not> malloc_ok then (EXFAIL, h)
         else (EXSUCCEED, ex_add \<lparr>fr_tmxid = take NDRX_XID_SERIAL_BUFSIZE tmxid, fr_attempts = 0,
                                  fr_housekeepable = housekeepable\<rparr> h))"

definition ndrx_tms_file_registry_del ::
  "ndrx_tms_file_registry list \<Rightarrow> string \<Rightarrow> ndrx_tms_file_registry list" where
  "ndrx_tms_file_registry_del h tmxid = ex_del fr_tmxid tmxid h"

fun ndrx_tms_file_registry_free ::
  "ndrx_tms_file_registry list \<Rightarrow> ndrx_tms_file_registry list \<Rightarrow> ndrx_tms_file_registry list" where
  "ndrx_tms_file_registry_free [] h = h"
| "ndrx_tms_file_registry_free (el # els) h =
     ndrx_tms_file_registry_free els (ndrx_tms_file_registry_del h (fr_tmxid el))"

section \<open>Loading the files\<close>

definition tranmask :: "tm_env \<Rightarrow> string" where
  "tranmask E = take 255 (''TRN-'' @ fmt_d (e_vnodeid E) @ ''-'' @ fmt_d (e_xa_rmid E) @ ''-'' @
     fmt_d (e_srv_id E) @ ''-'')"

definition is_tranfile :: "tm_env \<Rightarrow> string \<Rightarrow> bool" where
  "is_tranfile E d_name = (take (length (tranmask E)) d_name = tranmask E)"

text \<open>The file name of background_load_attempts and background_chkdisk.\<close>

definition tran_path :: "tm_env \<Rightarrow> string \<Rightarrow> string" where
  "tran_path E tmxid = take 4096 (e_tlog_dir E @ ''/TRN-'' @ fmt_d (e_vnodeid E) @ ''-'' @
     fmt_d (e_xa_rmid E) @ ''-'' @ fmt_d (e_srv_id E) @ ''-'' @ tmxid)"

text \<open>The visit of one element; a file that is gone, loaded or removed leaves the registry,
  one that failed too often goes to the broken ones.\<close>

definition load_attempt ::
  "tm_env \<Rightarrow> ndrx_tms_file_registry \<Rightarrow> bg_st \<Rightarrow> tm_st \<Rightarrow> (tm_st, int \<times> bg_st) outcome" where
  "load_attempt E el b s =
    (let filename = tran_path E (fr_tmxid el);
         gone = b\<lparr>bg_attempts := ndrx_tms_file_registry_del (bg_attempts b) (fr_tmxid el)\<rparr>
     in if st_disk s filename = None then Ret (EXSUCCEED, gone) s
        else andthen (tms_load_logfile E filename (fr_tmxid el) s)
          (\<lambda>(ret, _, log_removed, housekeepable) s1.
            if ret = EXSUCCEED then Ret (EXSUCCEED, gone) s1
            else if log_removed then Ret (EXSUCCEED, gone) s1
            else
              let el1 = el\<lparr>fr_attempts := fr_attempts el + 1\<rparr>;
                  b1 = b\<lparr>bg_attempts := ex_upd fr_tmxid (fr_tmxid el) (\<lambda>_. el1) (bg_attempts b)\<rparr>
              in if fr_attempts el1 \<ge> e_logparse_attempts E
                 then (case ndrx_tms_file_registry_add (e_alloc E (st_tick s1)) (bg_broken b1)
                              (fr_tmxid el) housekeepable of (ret, br) \<Rightarrow>
                         if ret \<noteq> EXSUCCEED then Ret (EXFAIL, b1) (tick s1)
                         else Ret (EXSUCCEED,
                                b1\<lparr>bg_broken := br,
                                   bg_attempts := ndrx_tms_file_registry_del (bg_attempts b1) (fr_tmxid el)\<rparr>)
                                (tick s1))
                 else Ret (EXSUCCEED, b1) s1))"

fun load_attempts :: "tm_env \<Rightarrow> ndrx_tms_file_registry list \<Rightarrow> bg_st \<Rightarrow> tm_st \<Rightarrow> (tm_st, int \<times> bg_st) outcome" where
  "load_attempts E [] b s = Ret (EXSUCCEED, b) s"
| "load_attempts E (el # els) b s =
    andthen (load_attempt E el b s)
      (\<lambda>(ret, b1) s1. if ret \<noteq> EXSUCCEED then Ret (ret, b1) s1 else load_attempts E els b1 s1)"

definition background_load_attempts :: "tm_env \<Rightarrow> bg_st \<Rightarrow> tm_st \<Rightarrow> (tm_st, int \<times> bg_st) outcome" where
  "background_load_attempts E b s = load_attempts E (bg_attempts b) b s"

fun read_log_names ::
  "tm_env \<Rightarrow> string list \<Rightarrow> bg_st \<Rightarrow> tm_st \<Rightarrow> int \<times> bg_st \<times> tm_st" where
  "read_log_names E [] b s = (EXSUCCEED, b, s)"
| "read_log_names E (d_name # names) b s =
    (if d_name = ''.'' \<or> d_name = ''..'' then read_log_names E names b s
     else if is_tranfile E d_name
     then (case ndrx_tms_file_registry_add (e_alloc E (st_tick s)) (bg_attempts b)
                  (drop (length (tranmask E)) d_name) False of (ret, h) \<Rightarrow>
             if ret \<noteq> EXSUCCEED then (EXFAIL, b, tick s)
             else read_log_names E names (b\<lparr>bg_attempts := h\<rparr>) (tick s))
     else read_log_names E names b s)"

definition background_read_log :: "tm_env \<Rightarrow> bg_st \<Rightarrow> tm_st \<Rightarrow> (tm_st, int \<times> bg_st) outcome" where
  "background_read_log E b s =
    (case e_scandir E (st_tick s) of
       None \<Rightarrow> Ret (EXFAIL, b) (tick s)
     | Some names \<Rightarrow>
         (case read_log_names E names b (tick s) of (ret, b1, s1) \<Rightarrow>
            if ret \<noteq> EXSUCCEED then Ret (EXFAIL, b1) s1
            else andthen (background_load_attempts E b1 s1)
              (\<lambda>(ret, b2) s2. if ret \<noteq> EXSUCCEED then Ret (EXFAIL, b2) s2 else Ret (EXSUCCEED, b2) s2)))"

fun chkdisk_names :: "tm_env \<Rightarrow> string list \<Rightarrow> bg_st \<Rightarrow> tm_st \<Rightarrow> int \<times> bg_st \<times> tm_st" where
  "chkdisk_names E [] b s = (EXSUCCEED, b, s)"
| "chkdisk_names E (d_name # names) b s =
    (if is_tranfile E d_name
     then
       (let p_name = drop (length (tranmask E)) d_name;
            tmp = take 4096 (e_tlog_dir E @ ''/'' @ d_name)
        in if \<not> tms_log_exists_entry p_name s \<and> st_disk s tmp \<noteq> None
           then (case ndrx_tms_file_registry_get (bg_broken b) p_name of
               Some p_reg \<Rightarrow>
                 (case tms_housekeep E tmp s of (removed, s1) \<Rightarrow>
                    chkdisk_names E names
                      (if removed
                       then b\<lparr>bg_broken := ndrx_tms_file_registry_del (bg_broken b) (fr_tmxid p_reg)\<rparr>
                       else b) s1)
             | None \<Rightarrow>
                 (case ndrx_tms_file_registry_get (bg_attempts b) p_name of
                    Some _ \<Rightarrow> chkdisk_names E names b s
                  | None \<Rightarrow>
                      (case ndrx_tms_file_registry_add (e_alloc E (st_tick s)) (bg_attempts b) p_name False of
                         (ret, h) \<Rightarrow>
                           if ret \<noteq> EXSUCCEED then (EXFAIL, b, tick s)
                           else chkdisk_names E names (b\<lparr>bg_attempts := h\<rparr>) (tick s))))
           else chkdisk_names E names b s)
     else chkdisk_names E names b s)"

definition background_chkdisk :: "tm_env \<Rightarrow> bg_st \<Rightarrow> tm_st \<Rightarrow> int \<times> bg_st \<times> tm_st" where
  "background_chkdisk E b s =
    (case e_scandir E (st_tick s) of
       None \<Rightarrow> (EXFAIL, b, tick s)
     | Some names \<Rightarrow> chkdisk_names E names b (tick s))"

section \<open>The pass over the transactions\<close>

text \<open>tms_copy_hash2list: the copy stops when an allocation fails.\<close>

fun copy_hash2list :: "tm_env \<Rightarrow> bool \<Rightarrow> bool \<Rightarrow> xa_log list \<Rightarrow> tm_st \<Rightarrow> xa_log list \<times> tm_st" where
  "copy_hash2list E foreground background [] s = ([], s)"
| "copy_hash2list E foreground background (r # rs) s =
    (if tl_is_background r \<and> \<not> background then copy_hash2list E foreground background rs s
     else if \<not> tl_is_background r \<and> \<not> foreground then copy_hash2list E foreground background rs s
     else if \<not> e_alloc E (st_tick s) then ([], tick s)
     else (case copy_hash2list E foreground background rs (tick s) of (l, s1) \<Rightarrow> (r # l, s1)))"

definition tms_copy_hash2list :: "tm_env \<Rightarrow> bool \<Rightarrow> bool \<Rightarrow> tm_st \<Rightarrow> xa_log list \<times> tm_st" where
  "tms_copy_hash2list E foreground background s = copy_hash2list E foreground background (st_hash s) s"

text \<open>The visit of the copy of one transaction by the background; EXFAIL ends the thread.\<close>

definition background_item :: "tm_env \<Rightarrow> xa_log \<Rightarrow> tm_st \<Rightarrow> (tm_st, int) outcome" where
  "background_item E el s =
    (if tl_trycount el \<ge> e_max_tries E then Ret EXSUCCEED s
     else case tms_log_get_entry E (tl_tmxid el) 0 s of (r, _, s1) \<Rightarrow>
       (case r of
          None \<Rightarrow> Ret EXSUCCEED s1
        | Some p_tl \<Rightarrow>
            let p1 = p_tl\<lparr>tl_trycount := tl_trycount p_tl + 1\<rparr> in
            andthen (tms_log_checkpointseq E (Some p1) (hash_put p1 s1))
              (\<lambda>(ret, p2) s2.
                if ret \<noteq> EXSUCCEED then Ret EXFAIL s2
                else andthen (tm_drive E (the p2) XA_OP_COMMIT 0 s2) (\<lambda>_ s3. Ret EXSUCCEED s3))))"

fun background_items :: "tm_env \<Rightarrow> xa_log list \<Rightarrow> tm_st \<Rightarrow> (tm_st, int) outcome" where
  "background_items E [] s = Ret EXSUCCEED s"
| "background_items E (el # els) s =
    andthen (background_item E el s)
      (\<lambda>ret s1. if ret \<noteq> EXSUCCEED then Ret ret s1 else background_items E els s1)"

text \<open>One round of background_loop; chk says whether the time of the disk check is over.
  Result: EXFAIL when the loop is left, the registries.\<close>

definition background_round ::
  "tm_env \<Rightarrow> bool \<Rightarrow> bg_st \<Rightarrow> tm_st \<Rightarrow> (tm_st, int \<times> bg_st) outcome" where
  "background_round E chk b s =
    (case (if e_chkdisk_time E > 0 \<and> chk then background_chkdisk E b s else (EXSUCCEED, b, s)) of
       (_, b1, s1) \<Rightarrow>
         (case tms_copy_hash2list E False True s1 of (tx_list, s2) \<Rightarrow>
            andthen (background_items E tx_list s2)
              (\<lambda>ret s3. if ret \<noteq> EXSUCCEED then Ret (ret, b1) s3
                        else andthen (background_load_attempts E b1 s3)
                          (\<lambda>(_, b2) s4. Ret (EXSUCCEED, b2) s4))))"

section \<open>The time-out check\<close>

text \<open>The stopwatch of an entry counts milliseconds, the limit is in seconds (C division).\<close>

definition tout_check_item :: "tm_env \<Rightarrow> xa_log \<Rightarrow> tm_st \<Rightarrow> (tm_st, unit) outcome" where
  "tout_check_item E el s =
    (let delta = e_clock E (st_tick s) - tl_ttimer el;
         tspent = sgn delta * (\<bar>delta\<bar> div 1000);
         s0 = tick s in
     if tspent > tl_txtout el \<and> tl_txstage el = XA_TX_STAGE_ACTIVE
     then (case tms_log_get_entry E (tl_tmxid el) 0 s0 of (r, _, s1) \<Rightarrow>
             (case r of
                None \<Rightarrow> Ret () s1
              | Some p_tl \<Rightarrow>
                  if tl_txstage p_tl = XA_TX_STAGE_ACTIVE
                  then andthen (tms_log_stage E p_tl XA_TX_STAGE_ABORTING True s1)
                    (\<lambda>(_, p1) s2. andthen (tm_drive E p1 XA_OP_ROLLBACK 0 s2) (\<lambda>_ s3. Ret () s3))
                  else Ret () s1))
     else Ret () s0)"

fun tout_check_items :: "tm_env \<Rightarrow> xa_log list \<Rightarrow> tm_st \<Rightarrow> (tm_st, unit) outcome" where
  "tout_check_items E [] s = Ret () s"
| "tout_check_items E (el # els) s = andthen (tout_check_item E el s) (\<lambda>_. tout_check_items E els)"

text \<open>The callback does nothing while another one runs.\<close>

definition tx_tout_check_th :: "tm_env \<Rightarrow> bool \<Rightarrow> tm_st \<Rightarrow> (tm_st, unit) outcome" where
  "tx_tout_check_th E in_progress s =
    (if in_progress then Ret () s
     else case tms_copy_hash2list E True False s of (tx_list, s1) \<Rightarrow> tout_check_items E tx_list s1)"

interpretation registry: hash_table fr_tmxid "ex_find fr_tmxid" ex_add "ex_del fr_tmxid"
  "ex_upd fr_tmxid" "\<lambda>h. h" "ex_inv fr_tmxid"
  by (rule exhash_hash_table)

end
