(* ===== verification/Tm_Handlers.thy ===== *)
theory Tm_Handlers
  imports Tm_Api
begin

text \<open>
  What the request handlers may send to the resource managers: the guarantees of the
  driver carried over to tm_tpcommit, tm_tpabort, tm_committrans and tm_aborttrans as a
  whole, and the requests they refuse.
\<close>

definition sends :: "(tm_event \<Rightarrow> bool) \<Rightarrow> tm_st \<Rightarrow> tm_st \<Rightarrow> bool" where
  "sends P s s' \<longleftrightarrow> (\<exists>evs. st_trace s' = st_trace s @ evs \<and> (\<forall>ev \<in> set evs. P ev))"

definition quiet :: "tm_event \<Rightarrow> bool" where
  "quiet ev \<longleftrightarrow> \<not> is_commit ev \<and> \<not> is_rollback ev"

lemma sends_refl [simp]: "sends P s s"
  by (simp add: sends_def)

lemma sends_same: "st_trace s' = st_trace s \<Longrightarrow> sends P s s'"
  by (simp add: sends_def)

lemma sends_trans: "sends P s1 s2 \<Longrightarrow> sends P s2 s3 \<Longrightarrow> sends P s1 s3"
  unfolding sends_def by force

lemma sends_mono: "sends P s s' \<Longrightarrow> (\<And>ev. P ev \<Longrightarrow> Q ev) \<Longrightarrow> sends Q s s'"
  unfolding sends_def by blast

lemma sends_journal: "journal_step f P s s' \<Longrightarrow> sends P s s'"
  unfolding sends_def journal_step_def list_all_iff by blast

lemma sends_journal_end: "journal_end f P s s' \<Longrightarrow> sends P s s'"
  by (auto simp: journal_end_def sends_def journal_step_def list_all_iff)

lemma sends_tick [simp]: "sends P s (tick s') = sends P s s'" "sends P (tick s) s' = sends P s s'"
  by (simp_all add: sends_def)

lemma log_ev_quiet: "log_ev f ev \<Longrightarrow> quiet ev"
  by (auto simp: log_ev_def quiet_def is_commit_def is_rollback_def split: tm_event.splits)

lemma get_entry_trace:
  "tms_log_get_entry E xid w s = (r, locke, s') \<Longrightarrow> st_trace s' = st_trace s \<and> st_write_fail s' = st_write_fail s"
  by (auto simp: tms_log_get_entry_def split: prod.splits)

lemma unlock_trace [simp]: "st_trace (snd (snd (tms_unlock_entry E p s))) = st_trace s"
  by (simp add: tms_unlock_entry_def Let_def)

lemma log_stage_sends:
  assumes "tl_txstage p \<noteq> EXFAIL"
  shows "ores (\<lambda>(ret, p') s'. sends quiet s s' \<and> st_write_fail s' = st_write_fail s \<and>
       seq_only (p\<lparr>tl_txstage := if ret = EXSUCCEED then stage else tl_txstage p\<rparr>) p')
     (sends quiet s) (tms_log_stage E p stage forced s)"
  by (rule ores_mono[OF log_stage_ores[OF assms]])
    (auto simp: journal_step_def intro: log_ev_quiet sends_mono[OF sends_journal] sends_mono[OF sends_journal_end])

text \<open>A forced change of the stage always succeeds for the holder of the lock.\<close>

lemma log_stage_forced_Ret:
  "tms_log_stage E p stage True s = Ret (ret, p') s' \<Longrightarrow> e_tid E = tl_lockthreadid p \<Longrightarrow> ret = EXSUCCEED"
  by (auto simp: tms_log_stage_def Let_def andthen_Ret_iff split: if_splits)

lemma log_stage_forced_ores:
  assumes "tl_txstage p \<noteq> EXFAIL" "e_tid E = tl_lockthreadid p"
  shows "ores (\<lambda>(ret, p') s'. sends quiet s s' \<and> st_write_fail s' = st_write_fail s \<and>
       seq_only (p\<lparr>tl_txstage := stage\<rparr>) p')
     (sends quiet s) (tms_log_stage E p stage True s)"
proof (cases "tms_log_stage E p stage True s")
  case (Ret r s1)
  obtain ret p1 where r: "r = (ret, p1)" by (cases r)
  then have "ret = EXSUCCEED" using Ret log_stage_forced_Ret assms(2) by blast
  then show ?thesis using log_stage_sends[OF assms(1), of s stage E True] Ret r by simp
next
  case (Exit c s1)
  then show ?thesis using log_stage_sends[OF assms(1), of s stage E True] by simp
qed

section \<open>The driver outside the prepare phase\<close>

lemma drive_keeps_side:
  assumes step: "\<And>st st'. next_stage st st' \<Longrightarrow> side st \<Longrightarrow> side st'"
    and ev: "\<And>f st ev. drive_ev f st ev \<Longrightarrow> side st \<Longrightarrow> P ev"
    and quiet: "\<And>ev. quiet ev \<Longrightarrow> P ev" and p: "side (tl_txstage p)"
  shows "ores (\<lambda>_ s'. sends P s s') (sends P s) (tm_drive E p master_op flags s)"
proof -
  let ?I = "\<lambda>p' s'. side (tl_txstage p') \<and> sends P s s'"
  have one: "sends P s s2" if "?I p1 s1" "sends (drive_ev f (tl_txstage p1)) s1 s2" for p1 s1 s2 f
  proof -
    have "sends P s1 s2" by (rule sends_mono[OF that(2)]) (use ev that(1) in blast)
    with that(1) show ?thesis using sends_trans by blast
  qed
  have loop: "ores (\<lambda>r s'. sends P s s') (sends P s) (tm_drive_loop E flags p 0 s)"
  proof (rule drive_loop_rule[where I = ?I], goal_cases)
    case (1 p1 n s1 p' n' s2)
    then have "side (tl_txstage p')" using step by (auto simp: round_post_def)
    moreover have "sends P s s2" using 1 one sends_journal unfolding round_post_def by blast
    ultimately show ?case by simp
  next
    case (2 p1 n s1 r s2)
    then show ?case using one sends_journal unfolding round_post_def by blast
  next
    case (3 p1 s1 s2)
    then show ?case using one sends_journal_end by blast
  qed (use p in simp)
  have fin: "sends P s (tms_remove_logfile E p1 True s1)" "sends P s (drive_leave E p1 s1)" if "sends P s s1" for p1 s1
    using that remove_logfile_trace[of E p1 True s1] drive_leave_trace[of E p1 s1] quiet
    by (fastforce simp: sends_def quiet_def)+
  show ?thesis
    unfolding tm_drive_def ores_andthen
    by (rule ores_mono[OF loop]) (auto simp: Let_def fin split: drive_end.splits)
qed

lemma abort_no_commit: "drive_ev f st ev \<Longrightarrow> abort_range st \<Longrightarrow> \<not> is_commit ev"
  using drive_ev_commit by (fastforce simp: abort_range_def)

lemma commit_no_rollback: "drive_ev f st ev \<Longrightarrow> commit_range st \<Longrightarrow> \<not> is_rollback ev"
  using drive_ev_rollback by (fastforce simp: commit_range_def)

lemma drive_from_abort:
  "abort_range (tl_txstage p) \<Longrightarrow>
   ores (\<lambda>_ s'. sends (\<lambda>ev. \<not> is_commit ev) s s') (sends (\<lambda>ev. \<not> is_commit ev) s) (tm_drive E p master_op flags s)"
  by (rule drive_keeps_side[where side = abort_range])
    (use next_stage_ranges abort_no_commit in \<open>auto simp: quiet_def\<close>)

lemma drive_from_commit:
  "commit_range (tl_txstage p) \<Longrightarrow>
   ores (\<lambda>_ s'. sends (\<lambda>ev. \<not> is_rollback ev) s s') (sends (\<lambda>ev. \<not> is_rollback ev) s) (tm_drive E p master_op flags s)"
  by (rule drive_keeps_side[where side = commit_range])
    (use next_stage_ranges commit_no_rollback in \<open>auto simp: quiet_def\<close>)

section \<open>Commit requests\<close>

lemma run_safe_quiet:
  assumes "sends quiet s0 s" "run_safe E p s s'"
  shows "run_safe E p s0 s'"
proof -
  obtain pre evs where t: "st_trace s = st_trace s0 @ pre" "\<forall>ev \<in> set pre. quiet ev"
      "st_trace s' = st_trace s @ evs" "wal_ok E p evs" "one_way evs"
    using assms by (auto simp: sends_def run_safe_def)
  have "wal_ok E p (pre @ evs)" unfolding wal_ok_def
  proof (intro allI impI, elim conjE)
    fix xs ev ys
    assume eq: "pre @ evs = xs @ ev # ys" and c: "is_commit ev"
    then have "ev \<notin> set pre" using t(2) by (auto simp: quiet_def)
    then obtain us where "xs = pre @ us" "evs = us @ ev # ys"
      using eq by (auto simp: append_eq_append_conv2 append_eq_Cons_conv Cons_eq_append_conv)
    moreover from this have "has_record E p us" using t(4) c unfolding wal_ok_def by blast
    then obtain zs ws where "us = zs @ ws" "commit_record E p zs" by (auto simp: has_record_def)
    ultimately show "has_record E p xs"
      using commit_record_pre[of E p zs pre] has_record_append[of E p "pre @ zs" ws]
      by (auto simp: has_record_def[of _ _ "pre @ zs"])
  qed
  moreover have "one_way (pre @ evs)" using t(2,5) by (auto simp: one_way_def quiet_def)
  ultimately show ?thesis using t(1,3) by (auto simp: run_safe_def)
qed

lemma run_safe_no_commit: "sends (\<lambda>ev. \<not> is_commit ev) s s' \<Longrightarrow> run_safe E p s s'"
  by (auto simp: sends_def run_safe_def wal_ok_def one_way_def)

lemma run_safe_entry:
  assumes "tl_fname q = tl_fname p" "tl_log_version q = tl_log_version p"
  shows "run_safe E q s s' = run_safe E p s s'"
  using assms by (simp add: run_safe_def wal_ok_def has_record_def commit_record_def)

text \<open>The handler goes on with the entry it has locked.\<close>

lemma tpcommit_goes_on:
  assumes "atmi_xa_read_tx_info ub True = Some xai" "u_flags ub = Some tmflags"
    and "tms_log_get_entry E (xi_tmxid xai) NDRX_LOCK_WAIT_TIME s = (Some p, locke, s1)"
    and "\<not> tl_is_background p" "tl_txstage p = XA_TX_STAGE_ACTIVE"
  shows "tm_tpcommit E ub s =
    andthen (tms_log_stage E p XA_TX_STAGE_PREPARING False s1)
      (\<lambda>(ret, p1) s2.
        if ret \<noteq> EXSUCCEED
        then let ub1 = atmi_xa_set_error TPEABORT NDRX_XA_ERSN_LOGFAIL ub
             in andthen (tms_log_stage E p1 XA_TX_STAGE_ABORTING True s2)
               (\<lambda>(_, p2) s3. andthen (tm_drive E p2 XA_OP_ROLLBACK 0 s3)
                 (\<lambda>ret s4. if ret \<noteq> EXSUCCEED
                           then Ret (EXFAIL, atmi_xa_override_error ret ub1) s4
                           else Ret (EXSUCCEED, ub1) s4))
        else andthen (tm_drive E p1 XA_OP_COMMIT tmflags s2)
          (\<lambda>ret s3. if ret \<noteq> EXSUCCEED
                    then Ret (EXFAIL, atmi_xa_set_error ret NDRX_XA_ERSN_RMCOMMITFAIL ub) s3
                    else Ret (EXSUCCEED, ub) s3))"
  using assms by (simp add: tm_tpcommit_def)

lemma get_entry_locked:
  "tms_log_get_entry E xid w s = (Some p, locke, s1) \<Longrightarrow> tl_tmxid p = xid \<and> tl_lockthreadid p = e_tid E \<and> \<not> locke"
proof -
  have "get_entry_restart tid xid h rest = (Some p, locke, h') \<Longrightarrow>
      tl_tmxid p = xid \<and> tl_lockthreadid p = tid \<and> \<not> locke" for tid h rest h'
  proof (induction tid xid h rest rule: get_entry_restart.induct)
    case (1 tid xid h rest)
    show ?case using 1(2) 1(1)
      by (subst (asm) (1) get_entry_restart.simps)
        (auto simp: Let_def dest: tx_table.lookup_Some split: option.splits if_splits list.splits)
  qed
  then show "tms_log_get_entry E xid w s = (Some p, locke, s1) \<Longrightarrow> ?thesis"
    by (auto simp: tms_log_get_entry_def split: prod.splits)
qed

lemma tpcommit_abort_path:
  assumes "tl_txstage p1 \<noteq> EXFAIL" "e_tid E = tl_lockthreadid p1"
  shows "ores (\<lambda>_ s'. sends (\<lambda>ev. \<not> is_commit ev) s s') (sends (\<lambda>ev. \<not> is_commit ev) s)
    (andthen (tms_log_stage E p1 XA_TX_STAGE_ABORTING True s) (\<lambda>(_, p2) s3. tm_drive E p2 XA_OP_ROLLBACK 0 s3))"
  unfolding ores_andthen
proof (rule ores_mono[OF log_stage_forced_ores[OF assms]], goal_cases)
  case (1 a s1)
  then obtain ret p2 where a: "a = (ret, p2)" "seq_only (p1\<lparr>tl_txstage := XA_TX_STAGE_ABORTING\<rparr>) p2"
      "sends quiet s s1" by auto
  have q: "sends (\<lambda>ev. \<not> is_commit ev) s s1" by (rule sends_mono[OF a(3)]) (simp add: quiet_def)
  have "abort_range (tl_txstage p2)" using seq_only_fields[OF a(2)] by (simp add: abort_range_def)
  then show ?case unfolding a(1) prod.case
    by (rule ores_mono[OF drive_from_abort]) (auto intro: sends_trans[OF q])
qed (auto intro: sends_mono simp: quiet_def)

text \<open>Handler results only add the reply to what the run did.\<close>

lemma ostate_reply: "ostate (andthen m (\<lambda>r s. Ret (f r) s)) = ostate m"
  by (cases m) auto

lemma ostate_reply_if: "ostate (andthen m (\<lambda>r s. if b r then Ret (f r) s else Ret (g r) s)) = ostate m"
  by (cases m) auto

lemma tperrno_short: "is_short (xa_txstage2tperrno st op)"
proof -
  have rows: "list_all (\<lambda>r. is_short (t_tpe r)) G_txstage2tperrno" by code_simp
  show ?thesis
  proof (cases "find (\<lambda>r. t_txstage r = st \<and> t_master_op r = op) G_txstage2tperrno")
    case None
    then show ?thesis by (simp add: xa_txstage2tperrno_def is_short_def)
  next
    case (Some r)
    then show ?thesis using rows find_Some_in[OF Some] by (auto simp: xa_txstage2tperrno_def list_all_iff)
  qed
qed

lemma tm_drive_short:
  assumes "tm_drive E p master_op flags s = Ret ret s'"
  shows "is_short ret"
proof -
  have "ores (\<lambda>r s'. case r of DrOut ret p' \<Rightarrow> is_short ret | _ \<Rightarrow> True) (\<lambda>_. True) (tm_drive_loop E flags p 0 s)"
    by (rule drive_loop_rule[where I = "\<lambda>_ _. True"])
      (auto simp: round_post_def is_short_def split: drive_end.splits)
  then show ?thesis using assms tperrno_short
    by (cases "tm_drive_loop E flags p 0 s")
      (auto simp: tm_drive_def Let_def is_short_def split: drive_end.splits if_splits)
qed

text \<open>What the reply of a commit says about the events of the run.\<close>

definition commit_reply :: "tm_st \<Rightarrow> tm_ub \<Rightarrow> tm_st \<Rightarrow> bool" where
  "commit_reply s ub' s' \<longleftrightarrow>
     (\<not> atmi_xa_is_error ub' \<longrightarrow> sends (\<lambda>ev. \<not> is_rollback ev) s s') \<and>
     (\<forall>rs. u_err ub' = Some (TPEABORT, rs) \<longrightarrow> sends (\<lambda>ev. \<not> is_commit ev) s s')"

lemma tpcommit_drive_path:
  assumes p: "tl_txstage p1 = XA_TX_STAGE_PREPARING" "st_write_fail s2 = 0"
    and ub: "\<not> atmi_xa_is_error ub"
  shows "ores (\<lambda>(ret, ub') s'. run_safe E p1 s2 s' \<and> commit_reply s2 ub' s') (run_safe E p1 s2)
    (andthen (tm_drive E p1 XA_OP_COMMIT tmflags s2)
      (\<lambda>ret s3. if ret \<noteq> EXSUCCEED
                then Ret (EXFAIL, atmi_xa_set_error ret NDRX_XA_ERSN_RMCOMMITFAIL ub) s3
                else Ret (EXSUCCEED, ub) s3))"
proof (cases "tm_drive E p1 XA_OP_COMMIT tmflags s2")
  case (Ret ret s3)
  have rs: "run_safe E p1 s2 s3" using tm_drive_safe[OF p, of E XA_OP_COMMIT tmflags] Ret by simp
  obtain evs where evs: "st_trace s3 = st_trace s2 @ evs"
     "ret = EXSUCCEED \<longrightarrow> (\<forall>ev \<in> set evs. \<not> is_rollback ev)" "ret = TPEABORT \<longrightarrow> (\<forall>ev \<in> set evs. \<not> is_commit ev)"
    using tm_drive_result[OF p Ret] by blast
  have "to_short ret = ret" using to_short_id[OF tm_drive_short[OF Ret]] .
  then show ?thesis using Ret rs evs ub
    by (cases "u_err ub") (auto simp: commit_reply_def sends_def atmi_xa_set_error_def atmi_xa_is_error_def)
next
  case (Exit c s3)
  then show ?thesis using tm_drive_safe[OF p, of E XA_OP_COMMIT tmflags] by simp
qed

lemma commit_reply_before:
  assumes "sends quiet s0 s" "commit_reply s ub' s'"
  shows "commit_reply s0 ub' s'"
proof -
  have "sends (\<lambda>ev. \<not> is_rollback ev) s0 s" "sends (\<lambda>ev. \<not> is_commit ev) s0 s"
    using assms(1) by (auto intro: sends_mono simp: quiet_def)
  then show ?thesis using assms(2) sends_trans unfolding commit_reply_def by blast
qed

text \<open>When the prepare stage could not be logged.\<close>

lemma tpcommit_abort_reply:
  assumes q: "sends quiet s s2" and st: "tl_txstage p1 \<noteq> EXFAIL" "e_tid E = tl_lockthreadid p1"
    and ub: "\<not> atmi_xa_is_error ub" and ub1: "ub1 = atmi_xa_set_error TPEABORT NDRX_XA_ERSN_LOGFAIL ub"
  shows "ores (\<lambda>(ret, ub') s'. run_safe E p s s' \<and> commit_reply s ub' s') (run_safe E p s)
     (andthen (andthen (tms_log_stage E p1 XA_TX_STAGE_ABORTING True s2) (\<lambda>(_, p2) s3. tm_drive E p2 XA_OP_ROLLBACK 0 s3))
        (\<lambda>ret s4. if ret \<noteq> EXSUCCEED then Ret (EXFAIL, atmi_xa_override_error ret ub1) s4
                  else Ret (EXSUCCEED, ub1) s4))" (is "ores _ _ (andthen ?m _)")
proof -
  have m: "ores (\<lambda>_ s'. sends (\<lambda>ev. \<not> is_commit ev) s s') (sends (\<lambda>ev. \<not> is_commit ev) s) ?m"
    by (rule ores_mono[OF tpcommit_abort_path[OF st]])
      (use sends_trans[OF sends_mono[OF q]] in \<open>auto simp: quiet_def\<close>)
  have "to_short TPEABORT = TPEABORT" by (simp add: to_short_def)
  then have er: "atmi_xa_is_error ub1"
      "ret \<noteq> EXSUCCEED \<Longrightarrow> is_short ret \<Longrightarrow> atmi_xa_is_error (atmi_xa_override_error ret ub1)" for ret
    using ub ub1 by (auto simp: atmi_xa_set_error_def atmi_xa_override_error_def atmi_xa_is_error_def to_short_id)
  show ?thesis
  proof (cases ?m)
    case (Ret ret s4)
    have nc: "sends (\<lambda>ev. \<not> is_commit ev) s s4" using m unfolding Ret by simp
    have "is_short ret" using Ret tm_drive_short by (auto simp: andthen_Ret_iff)
    then show ?thesis unfolding Ret using nc er run_safe_no_commit[OF nc] by (auto simp: commit_reply_def)
  next
    case (Exit c s4)
    then show ?thesis using m run_safe_no_commit by simp
  qed
qed

lemma tpcommit_ores:
  assumes "atmi_xa_read_tx_info ub True = Some xai" "u_flags ub = Some tmflags"
    and entry: "tms_log_get_entry E (xi_tmxid xai) NDRX_LOCK_WAIT_TIME s = (Some p, locke, s1)"
    and act: "\<not> tl_is_background p" "tl_txstage p = XA_TX_STAGE_ACTIVE"
    and wf: "st_write_fail s = 0" and ub: "\<not> atmi_xa_is_error ub"
  shows "ores (\<lambda>(ret, ub') s'. run_safe E p s s' \<and> commit_reply s ub' s') (run_safe E p s) (tm_tpcommit E ub s)"
proof -
  have t1: "sends quiet s s1" "st_write_fail s1 = 0"
    using get_entry_trace[OF entry] wf by (auto intro: sends_same)
  have tid: "tl_lockthreadid p = e_tid E" using get_entry_locked[OF entry] by simp
  have ne: "tl_txstage p \<noteq> EXFAIL" using act by simp
  show ?thesis
    unfolding tpcommit_goes_on[OF assms(1,2) entry act] ores_andthen
  proof (rule ores_mono[OF log_stage_sends[OF ne]], goal_cases)
    case (1 a s2)
    then obtain ret p1 where a: "a = (ret, p1)"
      "seq_only (p\<lparr>tl_txstage := if ret = EXSUCCEED then XA_TX_STAGE_PREPARING else tl_txstage p\<rparr>) p1"
      "sends quiet s1 s2" "st_write_fail s2 = 0" using t1 by auto
    have q: "sends quiet s s2" by (rule sends_trans[OF t1(1) a(3)])
    have f: "tl_fname p1 = tl_fname p" "tl_log_version p1 = tl_log_version p" "tl_lockthreadid p1 = e_tid E"
      using seq_only_fields[OF a(2)] tid by auto
    show ?case
    proof (cases "ret = EXSUCCEED")
      case True
      have st: "tl_txstage p1 = XA_TX_STAGE_PREPARING" using seq_only_fields[OF a(2)] True by simp
      have "ores (\<lambda>(ret, ub') s'. run_safe E p s s' \<and> commit_reply s ub' s') (run_safe E p s)
         (andthen (tm_drive E p1 XA_OP_COMMIT tmflags s2)
          (\<lambda>ret s3. if ret \<noteq> EXSUCCEED
                    then Ret (EXFAIL, atmi_xa_set_error ret NDRX_XA_ERSN_RMCOMMITFAIL ub) s3
                    else Ret (EXSUCCEED, ub) s3))"
        by (rule ores_mono[OF tpcommit_drive_path[OF st a(4) ub]])
          (use run_safe_quiet[OF q] commit_reply_before[OF q] run_safe_entry[OF f(1,2)] in auto)
      then show ?thesis using a(1) True by simp
    next
      case False
      have st: "tl_txstage p1 \<noteq> EXFAIL" using seq_only_fields[OF a(2)] False act by simp
      from tpcommit_abort_reply[OF q st f(3)[symmetric] ub refl]
      show ?thesis using a(1) False by (simp add: andthen_assoc Let_def case_prod_beta)
    qed
  next
    case (2 s2)
    then show ?case
      using run_safe_no_commit[OF sends_mono[OF sends_trans[OF t1(1)]]] by (auto simp: quiet_def)
  qed
qed

section \<open>Abort requests and administration\<close>

lemma get_entry_sends: "tms_log_get_entry E xid w s = (r, locke, s1) \<Longrightarrow> sends P s s1"
  using get_entry_trace sends_same by blast

lemma sends_unlock: "sends P s s1 \<Longrightarrow> sends P s (snd (snd (tms_unlock_entry E p s1)))"
  by (simp add: sends_def)

text \<open>The abort path, started by a handler that has found the entry.\<close>

lemma abort_path_sends:
  assumes "tms_log_get_entry E xid w s = (Some p, locke, s1)" "tl_txstage p \<noteq> EXFAIL"
  shows "sends (\<lambda>ev. \<not> is_commit ev) s
    (ostate (andthen (tms_log_stage E p XA_TX_STAGE_ABORTING True s1) (\<lambda>(_, p2) s3. tm_drive E p2 XA_OP_ROLLBACK 0 s3)))"
proof -
  have "e_tid E = tl_lockthreadid p" using get_entry_locked[OF assms(1)] by simp
  from tpcommit_abort_path[OF assms(2) this, of s1] show ?thesis
    using sends_trans[OF get_entry_sends[OF assms(1)]] by (simp add: ores_ostate)
qed

lemma abort_reply_sends:
  assumes "tms_log_get_entry E xid w s = (Some p, locke, s1)" "tl_txstage p \<noteq> EXFAIL"
  shows "sends (\<lambda>ev. \<not> is_commit ev) s (ostate (andthen (tms_log_stage E p XA_TX_STAGE_ABORTING True s1)
      (\<lambda>(_, p1) s2. andthen (tm_drive E p1 XA_OP_ROLLBACK 0 s2) (\<lambda>ret s3. if b ret then Ret (f ret) s3 else Ret (g ret) s3))))"
  using abort_path_sends[OF assms]
  by (cases "tms_log_stage E p XA_TX_STAGE_ABORTING True s1") (auto simp: ostate_reply_if split: prod.splits)

lemma tpabort_sends: "sends (\<lambda>ev. \<not> is_commit ev) s (ostate (tm_tpabort E ub s))"
proof (cases "atmi_xa_read_tx_info ub True")
  case None
  then show ?thesis by (simp add: tm_tpabort_def)
next
  case (Some xai)
  obtain r locke s1 where ge: "tms_log_get_entry E (xi_tmxid xai) NDRX_LOCK_WAIT_TIME s = (r, locke, s1)"
    by (metis prod_cases3)
  show ?thesis
  proof (cases "\<exists>p. r = Some p \<and> \<not> tl_is_background p \<and> tl_txstage p = XA_TX_STAGE_ACTIVE")
    case True
    then obtain p where p: "r = Some p" "\<not> tl_is_background p" "tl_txstage p = XA_TX_STAGE_ACTIVE" by blast
    have "tl_txstage p \<noteq> EXFAIL" using p by simp
    from abort_reply_sends[OF ge[unfolded p(1)] this, of "\<lambda>ret. ret \<noteq> EXSUCCEED"
        "\<lambda>ret. (EXSUCCEED, atmi_xa_set_error ret NDRX_XA_ERSN_RMCOMMITFAIL ub)" "\<lambda>_. (EXSUCCEED, ub)"]
    show ?thesis using Some ge p by (simp add: tm_tpabort_def)
  next
    case False
    then show ?thesis using Some ge sends_unlock[OF get_entry_sends[OF ge]] get_entry_sends[OF ge]
      by (cases r) (auto simp: tm_tpabort_def)
  qed
qed

lemma aborttrans_sends:
  assumes "u_tmxid ub = Some xid" "tms_log_get_entry E xid NDRX_LOCK_WAIT_TIME s = (Some p, locke, s1)"
    and "tl_txstage p \<noteq> EXFAIL"
  shows "sends (\<lambda>ev. \<not> is_commit ev) s (ostate (tm_aborttrans E ub s))"
  using abort_reply_sends[OF assms(2,3), of "\<lambda>ret. ret \<noteq> EXSUCCEED"
      "\<lambda>ret. (EXFAIL, atmi_xa_set_error ret NDRX_XA_ERSN_RMERR ub)" "\<lambda>_. (EXSUCCEED, ub)"] assms
  by (simp add: tm_aborttrans_def)

lemma committrans_sends: "sends (\<lambda>ev. \<not> is_rollback ev) s (ostate (tm_committrans E ub s))"
proof (cases "u_tmxid ub")
  case (Some xid)
  obtain r locke s1 where ge: "tms_log_get_entry E xid NDRX_LOCK_WAIT_TIME s = (r, locke, s1)"
    by (metis prod_cases3)
  have go: "sends (\<lambda>ev. \<not> is_rollback ev) s (ostate (tm_drive E p XA_OP_COMMIT 0 s1))"
    if "tl_txstage p = XA_TX_STAGE_COMMITTING" for p
    using drive_from_commit[of p s1 E XA_OP_COMMIT 0] that sends_trans[OF get_entry_sends[OF ge]]
    by (simp add: ores_ostate commit_range_def)
  show ?thesis
    using Some ge go sends_unlock[OF get_entry_sends[OF ge]] get_entry_sends[OF ge]
    by (cases r) (auto simp: tm_committrans_def ostate_reply_if)
qed (simp add: tm_committrans_def)

end
