(* ===== verification/Tm_Serve.thy ===== *)
theory Tm_Serve
  imports Tm_Background Tm_Handlers
begin

text \<open>
  The lock discipline of the transaction table.  A thread locks an entry with
  tms_log_get_entry, works on it and gives it back; the requests it serves are the steps
  of a relation, and in every state it reaches by them it holds no lock.  The two places
  where the code breaks the discipline are stated as well.
\<close>

text \<open>The entries of a table that a thread holds are among \<open>X\<close>; keys are unique.\<close>

definition own :: "tm_env \<Rightarrow> string set \<Rightarrow> xa_log list \<Rightarrow> bool" where
  "own E X h \<longleftrightarrow> ex_inv tl_tmxid h \<and>
     (\<forall>xid p. ex_find tl_tmxid xid h = Some p \<and> tl_lockthreadid p = e_tid E \<longrightarrow> xid \<in> X)"

text \<open>The other threads keep to the discipline too: a table they leave behind while this thread
  waits has no entry locked in its name.  A thread id is not zero.\<close>

definition fair :: "tm_env \<Rightarrow> bool" where
  "fair E \<longleftrightarrow> e_tid E \<noteq> 0 \<and> (\<forall>t. \<forall>h \<in> set (e_polls E t). own E {} h)"

lemma own_upd:
  assumes "own E X h" "tl_tmxid q = xid" "tl_lockthreadid q = e_tid E \<Longrightarrow> xid \<in> Y" "X - {xid} \<subseteq> Y"
  shows "own E Y (ex_upd tl_tmxid xid (\<lambda>_. q) h)"
proof -
  have eq: "ex_upd tl_tmxid xid (\<lambda>_. q) h = ex_upd tl_tmxid xid (\<lambda>e. if tl_tmxid e = xid then q else e) h"
    unfolding ex_upd_def by (induction h) auto
  have k: "tl_tmxid (if tl_tmxid e = xid then q else e) = tl_tmxid e" for e using assms(2) by auto
  have lk: "ex_find tl_tmxid k (ex_upd tl_tmxid xid (\<lambda>_. q) h) =
      (if k = xid then map_option (\<lambda>_. q) (ex_find tl_tmxid k h) else ex_find tl_tmxid k h)" for k
    unfolding eq using tx_table.lookup_upd[OF k] tx_table.lookup_Some
    by (cases "ex_find tl_tmxid k h") (auto dest: tx_table.lookup_Some)
  have "ex_inv tl_tmxid (ex_upd tl_tmxid xid (\<lambda>_. q) h)"
    unfolding eq using assms(1) tx_table.inv_upd[OF _ k] by (simp add: own_def)
  then show ?thesis using assms(1,3,4) unfolding own_def lk by (auto split: if_splits)
qed

lemma own_add:
  assumes "own E X h" "ex_find tl_tmxid (tl_tmxid q) h = None"
  shows "own E (insert (tl_tmxid q) X) (ex_add q h)"
  using assms tx_table.lookup_add[OF assms(2)] tx_table.inv_add[OF _ assms(2)]
  by (auto simp: own_def split: if_splits)

lemma own_del:
  assumes "own E X h"
  shows "own E (X - {xid}) (ex_del tl_tmxid xid h)"
proof -
  have i: "ex_inv tl_tmxid h" using assms by (simp add: own_def)
  show ?thesis using assms tx_table.lookup_del[OF i] tx_table.inv_del[OF i]
    by (auto simp: own_def split: if_splits)
qed

lemma own_mono: "own E X h \<Longrightarrow> X \<subseteq> Y \<Longrightarrow> own E Y h"
  by (auto simp: own_def)

section \<open>The operations on the table\<close>

lemma get_entry_own:
  assumes "fair E" "own E {} (st_hash s)" "tms_log_get_entry E xid w s = (r, locke, s1)"
  shows "(r = None \<longrightarrow> own E {} (st_hash s1)) \<and>
    (\<forall>p. r = Some p \<longrightarrow> own E {xid} (st_hash s1) \<and> hash_find xid s1 = Some p)"
proof -
  have "get_entry_restart tid xid h rest = (r, locke, h') \<Longrightarrow> own E {} h \<Longrightarrow> \<forall>g \<in> set rest. own E {} g \<Longrightarrow>
      (r = None \<longrightarrow> own E {} h') \<and>
      (\<forall>p. r = Some p \<longrightarrow> own E {xid} h' \<and> ex_find tl_tmxid xid h' = Some p)" for tid h rest h'
  proof (induction tid xid h rest rule: get_entry_restart.induct)
    case (1 tid xid h rest)
    note eq = get_entry_restart.simps[of tid xid h rest]
    show ?case
    proof (cases "ex_find tl_tmxid xid h")
      case None
      then show ?thesis using 1(2,3) unfolding eq by simp
    next
      case (Some q)
      then have k: "tl_tmxid q = xid" using tx_table.lookup_Some by blast
      show ?thesis
      proof (cases "tl_lockthreadid q \<noteq> 0")
        case True
        show ?thesis
        proof (cases rest)
          case Nil
          then show ?thesis using 1(2,3) Some True unfolding eq by simp
        next
          case (Cons h1 rest1)
          have run: "get_entry_restart tid xid h1 rest1 = (r, locke, h')" using 1(2) Some True Cons unfolding eq by simp
          show ?thesis by (rule 1(1)[OF Some True Cons run]) (use 1(4) Cons in auto)
        qed
      next
        case False
        let ?q = "q\<lparr>tl_lockthreadid := tid\<rparr>"
        have r: "r = Some ?q" "h' = ex_upd tl_tmxid xid (\<lambda>_. ?q) h"
          using 1(2) Some False unfolding eq by (auto simp: Let_def)
        have "hash_find xid (hash_put ?q (s\<lparr>st_hash := h\<rparr>)) = Some ?q"
          using hash_find_put[of xid ?q "s\<lparr>st_hash := h\<rparr>"] k Some by (simp add: hash_find_def)
        then have "ex_find tl_tmxid xid h' = Some ?q" using r k by (simp add: hash_find_def hash_put_def)
        then show ?thesis using r own_upd[OF 1(3), of ?q xid "{xid}"] k by simp
      qed
    qed
  qed
  moreover have "\<forall>g \<in> set (if w \<noteq> 0 then take (nat (w div 100)) (e_polls E (st_tick s)) else []). own E {} g"
    using assms(1) by (auto simp: fair_def dest: in_set_takeD)
  ultimately show ?thesis using assms(2,3)
    by (fastforce simp: tms_log_get_entry_def hash_find_def split: prod.splits)
qed

lemma get_entry_frame:
  "tms_log_get_entry E xid w s = (r, locke, s1) \<Longrightarrow> st_trace s1 = st_trace s \<and> st_disk s1 = st_disk s"
  by (auto simp: tms_log_get_entry_def split: prod.splits)

lemma get_entry_none:
  assumes "tms_log_get_entry E xid w s = (None, locke, s1)"
  shows "locke \<longleftrightarrow> (\<exists>q. hash_find xid s1 = Some q \<and> tl_lockthreadid q \<noteq> 0)"
proof -
  have "get_entry_restart tid xid h rest = (None, locke, h') \<Longrightarrow>
      locke \<longleftrightarrow> (\<exists>q. ex_find tl_tmxid xid h' = Some q \<and> tl_lockthreadid q \<noteq> 0)" for tid h rest h'
  proof (induction tid xid h rest rule: get_entry_restart.induct)
    case (1 tid xid h rest)
    note run = 1(2)[unfolded get_entry_restart.simps[of tid xid h rest]]
    show ?case
    proof (cases "ex_find tl_tmxid xid h")
      case (Some q)
      show ?thesis
      proof (cases rest)
        case (Cons h1 rest1)
        then show ?thesis using 1(1)[OF Some _ Cons] run Some by (auto simp: Let_def split: if_splits)
      qed (use run Some in \<open>auto simp: Let_def split: if_splits\<close>)
    qed (use run in auto)
  qed
  moreover obtain h' where "get_entry_restart (e_tid E) xid (st_hash s)
      (if w \<noteq> 0 then take (nat (w div 100)) (e_polls E (st_tick s)) else []) = (None, locke, h')" "st_hash s1 = h'"
    using assms by (auto simp: tms_log_get_entry_def split: prod.splits)
  ultimately show ?thesis unfolding hash_find_def by blast
qed

lemma unlock_own:
  assumes "fair E" "own E {xid} (st_hash s)" "tl_tmxid p = xid" "tl_lockthreadid p = e_tid E"
  shows "own E {} (st_hash (snd (snd (tms_unlock_entry E p s))))"
  using assms own_upd[OF assms(2), of "p\<lparr>tl_lockthreadid := 0\<rparr>" xid "{}"]
  by (simp add: tms_unlock_entry_def hash_put_def Let_def fair_def)

lemma remove_own:
  assumes "own E {xid} (st_hash s)" "tl_tmxid p = xid"
  shows "own E {} (st_hash (tms_remove_logfile E p True s))"
proof -
  have "st_hash (tms_remove_logfile E p True s) = ex_del tl_tmxid xid (st_hash s)"
    using assms(2) by (auto simp: tms_remove_logfile_def tms_remove_logfree_def Let_def hash_del_def tms_close_logfile_def)
  then show ?thesis using own_del[OF assms(1), of xid] by simp
qed

lemma drive_own:
  assumes "fair E" "own E {xid} (st_hash s)" "tl_tmxid p = xid" "tl_lockthreadid p = e_tid E"
    and "tm_drive E p master_op flags s = Ret ret s'"
  shows "own E {} (st_hash s')"
proof -
  obtain r s1 where lp: "tm_drive_loop E flags p 0 s = Ret r s1"
    using assms(5) by (cases "tm_drive_loop E flags p 0 s") (auto simp: tm_drive_def)
  have le: "st_hash s1 = st_hash s \<and> (case r of DrOut ret p' \<Rightarrow> entry_kept p p'
      | DrAgain p' n' \<Rightarrow> False | DrDone p' d \<Rightarrow> entry_kept p p' \<and> xa_stage_get_descr (tl_txstage p') = Some d)"
    using drive_loop_entry[of s p E flags 0] lp by simp
  obtain p1 where p1: "entry_kept p p1"
      "s' = tms_remove_logfile E p1 True s1 \<or> s' = drive_leave E p1 s1"
    using le assms(5) lp by (cases r) (auto simp: tm_drive_def Let_def split: if_splits)
  have k: "tl_tmxid p1 = xid" "tl_lockthreadid p1 = e_tid E" using entry_kept_fields[OF p1(1)] assms by auto
  have o: "own E {xid} (st_hash s1)" using le assms(2) by simp
  have "own E {} (st_hash (drive_leave E p1 s1))"
    unfolding drive_leave_def Let_def using k by (intro unlock_own[OF assms(1) o]) auto
  then show ?thesis using p1(2) remove_own[OF o k(1)] by blast
qed

lemma log_stage_hash:
  assumes "tms_log_stage E p stage forced s = Ret (ret, p') s'"
  shows "st_hash s' = st_hash s \<and> tl_tmxid p' = tl_tmxid p \<and> tl_lockthreadid p' = tl_lockthreadid p"
proof -
  have w: "log_stage_write E q stage s1 = Ret (r, q') s2 \<Longrightarrow>
      st_hash s2 = st_hash s1 \<and> tl_tmxid q' = tl_tmxid q \<and> tl_lockthreadid q' = tl_lockthreadid q" for q s1 r q' s2
    using ores_RetD[OF stage_write_ores[of q s1 E stage]] by (fastforce simp: journal_step_def dest!: seq_only_fields)
  show ?thesis
    using assms by (auto simp: tms_log_stage_def Let_def andthen_Ret_iff dest!: w split: if_splits)
qed

lemma rmstatus_hash:
  assumes "tms_log_rmstatus E p rmid bt st ec rs s = (ret, p', s')"
  shows "st_hash s' = st_hash s \<and> tl_tmxid p' = tl_tmxid p \<and> tl_lockthreadid p' = tl_lockthreadid p \<and> tl_txstage p' = tl_txstage p \<and> tl_is_background p' = tl_is_background p"
proof -
  have "st_hash s' = st_hash s" using rmstatus_step[of p s E rmid bt st ec rs] assms by (simp add: journal_step_def)
  then show ?thesis using assms
    by (auto simp: tms_log_rmstatus_def Let_def bt_put_def split: if_splits prod.splits)
qed

section \<open>The requests\<close>

text \<open>The end of a handler: drive the locked entry, then reply.\<close>

lemma drive_reply_own:
  assumes "fair E" "own E {xid} (st_hash s)" "tl_tmxid p = xid" "tl_lockthreadid p = e_tid E"
    and "andthen (tm_drive E p master_op flags s) (\<lambda>ret s3. if b ret then Ret (f ret) s3 else Ret (g ret) s3) = Ret r s'"
  shows "own E {} (st_hash s')"
proof -
  obtain ret s3 where d: "tm_drive E p master_op flags s = Ret ret s3" "s' = s3"
    using assms(5) by (auto simp: andthen_Ret_iff split: if_splits)
  show ?thesis using drive_own[OF assms(1-4) d(1)] d(2) by simp
qed

lemma abort_reply_own:
  assumes "fair E" "own E {xid} (st_hash s)" "tl_tmxid p = xid" "tl_lockthreadid p = e_tid E"
    and "andthen (tms_log_stage E p stage forced s) (\<lambda>(x, p1) s2. andthen (tm_drive E p1 master_op flags s2)
        (\<lambda>ret s3. if b ret then Ret (f ret) s3 else Ret (g ret) s3)) = Ret r s'"
  shows "own E {} (st_hash s')"
proof -
  obtain x p1 s2 where l: "tms_log_stage E p stage forced s = Ret (x, p1) s2"
    and d: "andthen (tm_drive E p1 master_op flags s2) (\<lambda>ret s3. if b ret then Ret (f ret) s3 else Ret (g ret) s3) = Ret r s'"
    using assms(5) by (auto simp: andthen_Ret_iff)
  show ?thesis
    by (rule drive_reply_own[OF assms(1) _ _ _ d, of xid]) (use log_stage_hash[OF l] assms(2-4) in auto)
qed

text \<open>The start of a handler: the entry is not available, or it is locked now.\<close>

lemma get_entry_cases:
  assumes "fair E" "own E {} (st_hash s)"
  obtains (none) locke s1 where "tms_log_get_entry E xid w s = (None, locke, s1)" "own E {} (st_hash s1)"
  | (locked) p s1 where "tms_log_get_entry E xid w s = (Some p, False, s1)" "own E {xid} (st_hash s1)"
      "tl_tmxid p = xid" "tl_lockthreadid p = e_tid E" "hash_find xid s1 = Some p"
proof -
  obtain e locke s1 where ge: "tms_log_get_entry E xid w s = (e, locke, s1)" by (metis prod_cases3)
  note o = get_entry_own[OF assms ge]
  show ?thesis
  proof (cases e)
    case None
    then show ?thesis using none ge o by simp
  next
    case (Some p)
    then show ?thesis using locked ge o get_entry_locked[of E xid w s p locke s1] by simp
  qed
qed

lemma tpabort_own:
  assumes "fair E" "own E {} (st_hash s)" "tm_tpabort E ub s = Ret r s'"
  shows "own E {} (st_hash s')"
proof (cases "atmi_xa_read_tx_info ub True")
  case None
  then show ?thesis using assms by (simp add: tm_tpabort_def)
next
  case (Some xai)
  show ?thesis
  proof (rule get_entry_cases[OF assms(1,2), of "xi_tmxid xai" NDRX_LOCK_WAIT_TIME], goal_cases)
    case (1 locke s1)
    then show ?thesis using assms(3) Some by (auto simp: tm_tpabort_def)
  next
    case (2 p s1)
    show ?thesis
    proof (cases "tl_is_background p \<or> tl_txstage p \<noteq> XA_TX_STAGE_ACTIVE")
      case True
      then show ?thesis using assms(3) Some 2 unlock_own[OF assms(1) 2(2-4)] by (auto simp: tm_tpabort_def)
    next
      case False
      show ?thesis
        by (rule abort_reply_own[OF assms(1) 2(2-4), of XA_TX_STAGE_ABORTING True XA_OP_ROLLBACK 0 "\<lambda>ret. ret \<noteq> EXSUCCEED"])
          (use assms(3) Some 2 False in \<open>simp_all add: tm_tpabort_def\<close>)
    qed
  qed
qed

lemma aborttrans_own:
  assumes "fair E" "own E {} (st_hash s)" "tm_aborttrans E ub s = Ret r s'"
  shows "own E {} (st_hash s')"
proof (cases "u_tmxid ub")
  case None
  then show ?thesis using assms by (simp add: tm_aborttrans_def)
next
  case (Some xid)
  show ?thesis
  proof (rule get_entry_cases[OF assms(1,2), of xid NDRX_LOCK_WAIT_TIME], goal_cases)
    case (1 locke s1)
    then show ?thesis using assms(3) Some by (auto simp: tm_aborttrans_def)
  next
    case (2 p s1)
    show ?thesis
      by (rule abort_reply_own[OF assms(1) 2(2-4), of XA_TX_STAGE_ABORTING True XA_OP_ROLLBACK 0 "\<lambda>ret. ret \<noteq> EXSUCCEED"])
        (use assms(3) Some 2 in \<open>simp_all add: tm_aborttrans_def\<close>)
  qed
qed

lemma committrans_own:
  assumes "fair E" "own E {} (st_hash s)" "tm_committrans E ub s = Ret r s'"
  shows "own E {} (st_hash s')"
proof (cases "u_tmxid ub")
  case None
  then show ?thesis using assms by (simp add: tm_committrans_def)
next
  case (Some xid)
  show ?thesis
  proof (rule get_entry_cases[OF assms(1,2), of xid NDRX_LOCK_WAIT_TIME], goal_cases)
    case (1 locke s1)
    then show ?thesis using assms(3) Some by (auto simp: tm_committrans_def)
  next
    case (2 p s1)
    show ?thesis
    proof (cases "tl_txstage p = XA_TX_STAGE_COMMITTING")
      case False
      then show ?thesis using assms(3) Some 2 unlock_own[OF assms(1) 2(2-4)] by (auto simp: tm_committrans_def)
    next
      case True
      show ?thesis
        by (rule drive_reply_own[OF assms(1) 2(2-4), of XA_OP_COMMIT 0 "\<lambda>ret. ret \<noteq> EXSUCCEED"])
          (use assms(3) Some 2 True in \<open>simp_all add: tm_committrans_def\<close>)
    qed
  qed
qed

lemma tpcommit_own:
  assumes "fair E" "own E {} (st_hash s)" "tm_tpcommit E ub s = Ret r s'"
  shows "own E {} (st_hash s')"
proof (cases "atmi_xa_read_tx_info ub True = None \<or> u_flags ub = None")
  case True
  then show ?thesis using assms by (cases "atmi_xa_read_tx_info ub True") (auto simp: tm_tpcommit_def)
next
  case False
  then obtain xai fl where ok: "atmi_xa_read_tx_info ub True = Some xai" "u_flags ub = Some fl" by auto
  show ?thesis
  proof (rule get_entry_cases[OF assms(1,2), of "xi_tmxid xai" NDRX_LOCK_WAIT_TIME], goal_cases)
    case (1 locke s1)
    then show ?thesis using assms(3) ok by (auto simp: tm_tpcommit_def)
  next
    case (2 p s1)
    show ?thesis
    proof (cases "tl_is_background p \<or> tl_txstage p \<noteq> XA_TX_STAGE_ACTIVE")
      case True
      then show ?thesis using assms(3) ok 2 unlock_own[OF assms(1) 2(2-4)] by (auto simp: tm_tpcommit_def)
    next
      case False
      note go = assms(3)[unfolded tpcommit_goes_on[OF ok 2(1) conjunct1[OF False[simplified]] conjunct2[OF False[simplified]]]]
      obtain ret p1 s2 where l: "tms_log_stage E p XA_TX_STAGE_PREPARING False s1 = Ret (ret, p1) s2"
        using go by (auto simp: andthen_Ret_iff)
      have o: "own E {xi_tmxid xai} (st_hash s2)" "tl_tmxid p1 = xi_tmxid xai" "tl_lockthreadid p1 = e_tid E"
        using log_stage_hash[OF l] 2 by auto
      show ?thesis
      proof (cases "ret = EXSUCCEED")
        case True
        show ?thesis
          by (rule drive_reply_own[OF assms(1) o, of XA_OP_COMMIT fl "\<lambda>ret. ret \<noteq> EXSUCCEED"])
            (use go l True in simp_all)
      next
        case False
        show ?thesis
          by (rule abort_reply_own[OF assms(1) o, of XA_TX_STAGE_ABORTING True XA_OP_ROLLBACK 0 "\<lambda>ret. ret \<noteq> EXSUCCEED"])
            (use go l False in \<open>simp_all add: Let_def\<close>)
      qed
    qed
  qed
qed

lemma status_own:
  assumes "fair E" "own E {} (st_hash s)" "tm_status E ub s = Ret r s'"
  shows "own E {} (st_hash s')"
proof (cases "u_tmxid ub")
  case None
  then show ?thesis using assms by (simp add: tm_status_def)
next
  case (Some xid)
  have f: "st_hash (snd (tms_log_exists_file E xid s1)) = st_hash s1" for s1
    by (simp add: tms_log_exists_file_def Let_def)
  have c: "tms_log_checkpointseq E None s1 = Ret x s2 \<Longrightarrow> st_hash s2 = st_hash s1" for s1 x s2
    by (auto simp: tms_log_checkpointseq_def Let_def split: if_splits prod.splits)
  show ?thesis
  proof (rule get_entry_cases[OF assms(1,2), of xid NDRX_LOCK_WAIT_TIME], goal_cases)
    case (1 locke s1)
    obtain there s2 where t: "(if e_chkdisk_time E > 0 then tms_log_exists_file E xid s1 else (0, s1)) = (there, s2)"
        "st_hash s2 = st_hash s1"
      using f[of s1] by (cases "e_chkdisk_time E > 0"; cases "tms_log_exists_file E xid s1") auto
    show ?thesis using assms(3) Some 1 t
      by (auto simp: tm_status_def andthen_Ret_iff dest!: c split: if_splits)
  next
    case (2 p s1)
    have "own E {} (st_hash (snd (snd (tms_unlock_entry E p (tick s1)))))"
      by (rule unlock_own[OF assms(1), of xid]) (use 2 in simp_all)
    then show ?thesis using assms(3) Some 2 by (auto simp: tm_status_def Let_def split: if_splits)
  qed
qed

lemma addupd_keeps:
  assumes "tms_btid_addupd ok p rmid btid c ec rs = (ret, b, ex, bt, p2)"
  shows "tl_tmxid p2 = tl_tmxid p \<and> tl_lockthreadid p2 = tl_lockthreadid p"
  using addupd_fields[OF assms] by auto

lemma addrm_own:
  assumes "fair E" "own E {} (st_hash s)" "tms_log_addrm E xai rmid btid flags s = Ret r s'"
  shows "own E {} (st_hash s')"
proof (rule get_entry_cases[OF assms(1,2), of "xi_tmxid xai" NDRX_LOCK_WAIT_TIME], goal_cases)
  case (1 locke s1)
  then show ?thesis using assms(3) by (auto simp: tms_log_addrm_def)
next
  case (2 p s1)
  have u: "own E {} (st_hash (snd (snd (tms_unlock_entry E q s2))))"
    if "tl_tmxid q = tl_tmxid p" "tl_lockthreadid q = tl_lockthreadid p" "st_hash s2 = st_hash s1" for q s2
    using unlock_own[OF assms(1), of "xi_tmxid xai" s2 q] that 2 by simp
  obtain ret b known bt p1 where a:
    "tms_btid_addupd (e_alloc E (st_tick s1)) p rmid btid XA_RM_STATUS_NULL 0 0 = (ret, b, known, bt, p1)"
    by (metis prod_cases5)
  note k = addupd_keeps[OF a]
  show ?thesis
  proof (cases "1 > rmid \<or> rmid > int NDRX_MAX_RMS \<or> tl_is_background p \<or> tl_txstage p \<noteq> XA_TX_STAGE_ACTIVE \<or> known \<or> bt = None")
    case True
    then show ?thesis using assms(3) 2(1) a u[of p s1] u[of p1 "tick s1"] k
      by (auto simp: tms_log_addrm_def Let_def split: if_splits option.splits)
  next
    case False
    then obtain x where x: "bt = Some x" by auto
    let ?st = "if bit flags TMFLAGS_TPNOSTARTXID_BIT then XA_RM_STATUS_UNKOWN else XA_RM_STATUS_ACTIVE"
    obtain ret2 p2 s2 where l: "tms_log_rmstatus E p1 rmid x ?st 0 0 (tick s1) = (ret2, p2, s2)"
      by (metis prod_cases3)
    have "s' = snd (snd (tms_unlock_entry E p2 s2))"
      using assms(3) 2(1) a False x l by (auto simp: tms_log_addrm_def Let_def split: if_splits)
    then show ?thesis using u[of p2 s2] rmstatus_hash[OF l] k by simp
  qed
qed

lemma tmregister_own:
  assumes "fair E" "own E {} (st_hash s)" "tm_tmregister E ub s = Ret r s'"
  shows "own E {} (st_hash s')"
proof (cases "u_callerrm ub = None \<or> atmi_xa_read_tx_info ub True = None \<or> u_flags ub = None")
  case True
  then show ?thesis using assms(2,3)
    by (auto simp: tm_tmregister_def Let_def split: option.splits)
next
  case False
  then obtain rm xai fl where ok: "u_callerrm ub = Some rm" "atmi_xa_read_tx_info ub True = Some xai" "u_flags ub = Some fl"
    by auto
  let ?b = "case u_btid ub of None \<Rightarrow> EXFAIL | Some b \<Rightarrow> b"
  obtain ret known b s1 where a: "tms_log_addrm E xai rm ?b fl s = Ret (ret, known, b) s1"
    using assms(3) ok by (auto simp: tm_tmregister_def Let_def andthen_Ret_iff)
  have "st_hash s' = st_hash s1"
    using assms(3) ok a by (auto simp: tm_tmregister_def Let_def split: if_splits)
  then show ?thesis using addrm_own[OF assms(1,2) a] by simp
qed

lemma chrmstat_own:
  assumes "fair E" "own E {} (st_hash s)" "tms_log_chrmstat E xai rmid btid st ub s = Ret r s'"
  shows "own E {} (st_hash s')"
proof (rule get_entry_cases[OF assms(1,2), of "xi_tmxid xai" NDRX_LOCK_WAIT_TIME], goal_cases)
  case (1 locke s1)
  then show ?thesis using assms(3) by (auto simp: tms_log_chrmstat_def)
next
  case (2 p s1)
  then obtain bt where bt: "rmid_ok rmid" "tms_btid_find p rmid btid = Some bt"
    using assms(3) by (auto simp: tms_log_chrmstat_def split: if_splits option.splits)
  obtain ret p1 s2 where l: "tms_log_rmstatus E p rmid bt st 0 0 s1 = (ret, p1, s2)" by (metis prod_cases3)
  note k = rmstatus_hash[OF l]
  have "s' = snd (snd (tms_unlock_entry E p s1)) \<or> s' = snd (snd (tms_unlock_entry E p1 s2))"
    using assms(3) 2(1) bt l by (auto simp: tms_log_chrmstat_def split: if_splits)
  then show ?thesis
    using unlock_own[OF assms(1) 2(2-4)] unlock_own[OF assms(1), of "xi_tmxid xai" s2 p1] k 2 by auto
qed

lemma rmstatus_own:
  assumes "fair E" "own E {} (st_hash s)" "tm_rmstatus E ub s = Ret r s'"
  shows "own E {} (st_hash s')"
proof (cases "u_callerrm ub = None \<or> atmi_xa_read_tx_info ub True = None \<or> u_btid ub = None \<or> u_rmstatus ub = None")
  case True
  then show ?thesis using assms(2,3)
    by (auto simp: tm_rmstatus_def Let_def split: option.splits)
next
  case False
  then obtain rm xai b st where ok: "u_callerrm ub = Some rm" "atmi_xa_read_tx_info ub True = Some xai"
      "u_btid ub = Some b" "u_rmstatus ub = Some st" by auto
  obtain ret ub1 s1 where a: "tms_log_chrmstat E xai rm b st ub s = Ret (ret, ub1) s1"
    using assms(3) ok by (auto simp: tm_rmstatus_def Let_def andthen_Ret_iff)
  have "st_hash s' = st_hash s1"
    using assms(3) ok a by (auto simp: tm_rmstatus_def Let_def split: if_splits)
  then show ?thesis using chrmstat_own[OF assms(1,2) a] by simp
qed

lemma open_keeps:
  assumes "tms_open_logfile E p s = (ret, p1, s1)"
  shows "st_hash s1 = st_hash s \<and> tl_tmxid p1 = tl_tmxid p \<and> tl_lockthreadid p1 = tl_lockthreadid p \<and> tl_txstage p1 = tl_txstage p \<and> tl_is_background p1 = tl_is_background p"
  using assms by (auto simp: tms_open_logfile_def tms_get_file_name_def Let_def split: if_splits)

lemma info_keeps: "tms_log_info E p s = (ret, s1) \<Longrightarrow> st_hash s1 = st_hash s"
  using write_line_step[of p s E LOG_COMMAND_J "info_msg p"]
  by (auto simp: tms_log_info_def journal_step_def split: if_splits)

lemma start_branch_keeps:
  assumes "log_start_branch E p rmid flags s = (ret, b, p1, s1)"
  shows "st_hash s1 = st_hash s \<and> tl_tmxid p1 = tl_tmxid p \<and> tl_lockthreadid p1 = tl_lockthreadid p \<and> tl_txstage p1 = tl_txstage p \<and> tl_is_background p1 = tl_is_background p"
proof -
  obtain b0 q where g: "tms_btid_gettid p rmid = (b0, q)" "tl_tmxid q = tl_tmxid p" "tl_lockthreadid q = tl_lockthreadid p"
      "tl_txstage q = tl_txstage p" "tl_is_background q = tl_is_background p"
    by (auto simp: tms_btid_gettid_def rm_set_def Let_def)
  obtain r bt q1 where a: "tms_btid_add (e_alloc E (st_tick s)) q rmid b0 XA_RM_STATUS_NULL 0 0 = (r, bt, q1)"
    by (metis prod_cases3)
  have q1: "tl_tmxid q1 = tl_tmxid q \<and> tl_lockthreadid q1 = tl_lockthreadid q \<and>
      tl_txstage q1 = tl_txstage q \<and> tl_is_background q1 = tl_is_background q"
    using a by (auto simp: tms_btid_add_def rm_set_def Let_def split: if_splits)
  show ?thesis
  proof (cases bt)
    case None
    then show ?thesis using assms g a q1 by (auto simp: log_start_branch_def)
  next
    case (Some x)
    obtain r2 q2 s2 where l: "tms_log_rmstatus E q1 rmid x (if bit flags TMFLAGS_TPNOSTARTXID_BIT then XA_RM_STATUS_UNKOWN
        else XA_RM_STATUS_ACTIVE) 0 0 (tick s) = (r2, q2, s2)" by (metis prod_cases3)
    then have "p1 = q2" "s1 = s2" using assms g a Some by (auto simp: log_start_branch_def Let_def)
    then show ?thesis using rmstatus_hash[OF l] g q1 by simp
  qed
qed

lemma setseq_keeps:
  "tms_log_setseq E p s = Ret (ret, p1) s1 \<Longrightarrow> st_hash s1 = st_hash s \<and> tl_tmxid p1 = tl_tmxid p \<and>
    tl_txstage p1 = tl_txstage p \<and> tl_is_background p1 = tl_is_background p"
  by (auto simp: tms_log_setseq_def Let_def split: if_splits prod.splits)

lemma log_start_own:
  assumes fr: "fair E" and o: "own E {} (st_hash s)"
    and run: "tms_log_start E xai txtout flags b s = Ret r s'"
    and fresh: "hash_find (take NDRX_XID_SERIAL_BUFSIZE (xi_tmxid xai)) s = None"
  shows "own E {} (st_hash s')"
proof -
  let ?xid = "take NDRX_XID_SERIAL_BUFSIZE (xi_tmxid xai)"
  let ?tmp = "log_start_new E xai txtout (tick s)" and ?s0 = "tick (tick (tick (tick s)))"
  have tmp: "tl_tmxid ?tmp = ?xid" by (simp add: log_start_new_def)
  obtain ret1 p1 s1 where q: "tms_log_setseq E ?tmp ?s0 = Ret (ret1, p1) s1"
    and go: "(if ret1 \<noteq> EXSUCCEED then Ret (EXFAIL, b) (tms_remove_logfile E p1 False s1)
         else log_start_run E (xi_tmrmid xai) flags b p1 s1) = Ret r s'"
    using run by (auto simp: tms_log_start_def andthen_Ret_iff split: if_splits)
  note k1 = setseq_keeps[OF q]
  show ?thesis
  proof (cases "ret1 = EXSUCCEED")
    case False
    then have "s' = tms_remove_logfile E p1 False s1" using go q by simp
    then have "st_hash s' = st_hash s1"
      by (simp add: tms_remove_logfile_def tms_remove_logfree_def Let_def)
    then show ?thesis using o k1 tmp by simp
  next
    case True
    let ?p2 = "p1\<lparr>tl_lockthreadid := e_tid E\<rparr>"
    obtain ret3 p3 s3 where op: "tms_open_logfile E ?p2 (hash_add ?p2 s1) = (ret3, p3, s3)" by (metis prod_cases3)
    obtain ret4 s4 where inf: "tms_log_info E p3 s3 = (ret4, s4)" by (meson surj_pair)
    obtain ret5 b5 p5 s5 where br: "log_start_branch E p3 (xi_tmrmid xai) flags s4 = (ret5, b5, p5, s5)"
      by (metis prod_cases4)
    have o1: "own E {?xid} (ex_add ?p2 (st_hash s1))"
      using own_add[of E "{}" "st_hash s1" ?p2] o fresh k1 tmp by (simp add: hash_find_def)
    have k: "own E {?xid} (st_hash t) \<and> tl_tmxid u = ?xid \<and> tl_lockthreadid u = e_tid E"
      if "(t, u) \<in> {(s3, p3), (s4, p3), (s5, p5)}" for t u
      using that open_keeps[OF op] info_keeps[OF inf] start_branch_keeps[OF br] o1 k1 tmp
      by (auto simp: hash_add_def)
    have "\<exists>t u. (t, u) \<in> {(s3, p3), (s4, p3), (s5, p5)} \<and>
        (s' = tms_remove_logfile E u True t \<or> s' = snd (snd (tms_unlock_entry E u t)))"
      using go True op inf br by (auto simp: log_start_run_def Let_def split: if_splits)
    then show ?thesis using k remove_own unlock_own[OF fr] by metis
  qed
qed

lemma tpbegin_own:
  assumes "fair E" "own E {} (st_hash s)" "tm_tpbegin E ub s = Ret r s'"
    and "hash_find (take NDRX_XID_SERIAL_BUFSIZE (e_new_xid E (st_tick s))) s = None"
  shows "own E {} (st_hash s')"
proof -
  have rb: "tpbegin_rollback E u b t = Ret x t' \<Longrightarrow> st_hash t' = st_hash t" for u b t x t'
    by (auto simp: tpbegin_rollback_def tm_rollback_local_def rm_call_def Let_def split: prod.splits)
  show ?thesis
  proof (cases "u_flags ub = None \<or> \<not> e_bchg E (st_tick (tick s))")
    case True
    then show ?thesis using assms(2,3) by (auto simp: tm_tpbegin_def Let_def dest!: rb split: option.splits)
  next
    case False
    then obtain fl where fl: "u_flags ub = Some fl" "e_bchg E (st_tick (tick s))" by auto
    define xai where "xai = \<lparr>xi_tmxid = take NDRX_XID_SERIAL_BUFSIZE (e_new_xid E (st_tick s)), xi_tmrmid = e_xa_rmid E,
                    xi_tmnodeid = to_short (e_vnodeid E), xi_tmsrvid = to_short (e_srv_id E), xi_btid = EXFAIL,
                    xi_tmknownrms = (if \<not> bit fl TMFLAGS_DYNAMIC_REG_BIT \<and> \<not> bit fl TMFLAGS_TPNOSTARTXID_BIT
                      then [e_xa_rmid E] else [])\<rparr>"
    define tout where "tout = (case u_tout ub of None \<Rightarrow> e_dflt_timeout E | Some t \<Rightarrow> if 0 \<ge> t then e_dflt_timeout E else t)"
    obtain ret b s1 where l: "tms_log_start E xai tout fl EXFAIL (tick (tick s)) = Ret (ret, b) s1"
      using assms(3) fl by (auto simp: tm_tpbegin_def Let_def andthen_Ret_iff xai_def tout_def)
    have "st_hash s' = st_hash s1"
      using assms(3) fl l unfolding xai_def tout_def
      by (auto simp: tm_tpbegin_def Let_def dest!: rb split: if_splits)
    moreover have "own E {} (st_hash s1)"
      by (rule log_start_own[OF assms(1) _ l]) (use assms(2,4) in \<open>simp_all add: xai_def hash_find_def\<close>)
    ultimately show ?thesis by simp
  qed
qed

text \<open>A transaction that was started is in the table, active, unlocked and in the foreground.\<close>

lemma log_start_entry:
  assumes fr: "fair E" and o: "own E {} (st_hash s)"
    and run: "tms_log_start E xai txtout flags b s = Ret (EXSUCCEED, b') s'"
    and fresh: "hash_find (take NDRX_XID_SERIAL_BUFSIZE (xi_tmxid xai)) s = None"
  shows "\<exists>p. hash_find (take NDRX_XID_SERIAL_BUFSIZE (xi_tmxid xai)) s' = Some p \<and>
     tl_txstage p = XA_TX_STAGE_ACTIVE \<and> \<not> tl_is_background p \<and> tl_lockthreadid p = 0"
proof -
  let ?xid = "take NDRX_XID_SERIAL_BUFSIZE (xi_tmxid xai)"
  let ?tmp = "log_start_new E xai txtout (tick s)" and ?s0 = "tick (tick (tick (tick s)))"
  have tmp: "tl_tmxid ?tmp = ?xid" "tl_txstage ?tmp = XA_TX_STAGE_ACTIVE" "\<not> tl_is_background ?tmp"
    by (simp_all add: log_start_new_def xa_log_zero_def)
  obtain p1 s1 where q: "tms_log_setseq E ?tmp ?s0 = Ret (EXSUCCEED, p1) s1"
    and go: "log_start_run E (xi_tmrmid xai) flags b p1 s1 = Ret (EXSUCCEED, b') s'"
    using run by (auto simp: tms_log_start_def andthen_Ret_iff split: if_splits)
  note k1 = setseq_keeps[OF q]
  let ?p2 = "p1\<lparr>tl_lockthreadid := e_tid E\<rparr>"
  obtain ret3 p3 s3 where op: "tms_open_logfile E ?p2 (hash_add ?p2 s1) = (ret3, p3, s3)" by (metis prod_cases3)
  obtain ret4 s4 where inf: "tms_log_info E p3 s3 = (ret4, s4)" by (meson surj_pair)
  obtain ret5 b5 p5 s5 where br: "log_start_branch E p3 (xi_tmrmid xai) flags s4 = (ret5, b5, p5, s5)"
    by (metis prod_cases4)
  have "hash_find ?xid (hash_add ?p2 s1) \<noteq> None"
    using tx_table.lookup_add[of ?p2 "st_hash s1" ?xid] fresh k1 tmp
    by (simp add: hash_find_def hash_add_def)
  then have k: "hash_find ?xid t \<noteq> None \<and> tl_tmxid u = ?xid \<and> tl_lockthreadid u = e_tid E \<and>
      tl_txstage u = XA_TX_STAGE_ACTIVE \<and> \<not> tl_is_background u"
    if "(t, u) \<in> {(s4, p3), (s5, p5)}" for t u
    using that open_keeps[OF op] info_keeps[OF inf] start_branch_keeps[OF br] k1 tmp
    by (auto simp: hash_find_def)
  have "\<exists>t u. (t, u) \<in> {(s4, p3), (s5, p5)} \<and> s' = snd (snd (tms_unlock_entry E u t))"
    using go op inf br by (auto simp: log_start_run_def Let_def split: if_splits)
  then obtain t u where tu: "(t, u) \<in> {(s4, p3), (s5, p5)}" "s' = snd (snd (tms_unlock_entry E u t))" by blast
  show ?thesis using k[OF tu(1)] tu(2)
    by (auto simp: tms_unlock_entry_def Let_def hash_find_put)
qed

lemma set_error_is_error:
  "code \<noteq> 0 \<Longrightarrow> is_short code \<Longrightarrow> atmi_xa_is_error (atmi_xa_set_error code reason ub)"
  by (auto simp: atmi_xa_set_error_def atmi_xa_is_error_def to_short_id)

lemma set_error_keeps: "atmi_xa_is_error ub \<Longrightarrow> atmi_xa_set_error code reason ub = ub"
  by (simp add: atmi_xa_set_error_def)

text \<open>A begin that rolls back reports an error.\<close>

lemma tpbegin_rollback_error:
  "atmi_xa_is_error ub \<Longrightarrow> tpbegin_rollback E ub b s = Ret (ret, ub') s' \<Longrightarrow> atmi_xa_is_error ub'"
  by (auto simp: tpbegin_rollback_def tm_rollback_local_def local_error_def set_error_keeps Let_def
      split: prod.splits if_splits)

lemma tpbegin_entry:
  assumes "fair E" "own E {} (st_hash s)" "u_flags ub = Some fl"
    and "hash_find (take NDRX_XID_SERIAL_BUFSIZE (e_new_xid E (st_tick s))) s = None"
    and "tm_tpbegin E ub s = Ret (EXSUCCEED, ub') s'" "\<not> atmi_xa_is_error ub'"
  shows "\<exists>xid p. u_tmxid ub' = Some xid \<and> hash_find xid s' = Some p \<and> tl_txstage p = XA_TX_STAGE_ACTIVE \<and>
     \<not> tl_is_background p \<and> tl_lockthreadid p = 0"
proof -
  define xai where "xai = \<lparr>xi_tmxid = take NDRX_XID_SERIAL_BUFSIZE (e_new_xid E (st_tick s)), xi_tmrmid = e_xa_rmid E,
                    xi_tmnodeid = to_short (e_vnodeid E), xi_tmsrvid = to_short (e_srv_id E), xi_btid = EXFAIL,
                    xi_tmknownrms = (if \<not> bit fl TMFLAGS_DYNAMIC_REG_BIT \<and> \<not> bit fl TMFLAGS_TPNOSTARTXID_BIT
                      then [e_xa_rmid E] else [])\<rparr>"
  define tout where "tout = (case u_tout ub of None \<Rightarrow> e_dflt_timeout E | Some t \<Rightarrow> if 0 \<ge> t then e_dflt_timeout E else t)"
  have er: "atmi_xa_is_error (atmi_xa_set_error c rs u)" if "c \<in> {TPETRAN, TPESYSTEM}" for c rs u
    using that set_error_is_error by (auto simp: is_short_def)
  have rb: False if "tpbegin_rollback E (atmi_xa_set_error c rs u) b t = Ret (EXSUCCEED, ub') s'"
      "c \<in> {TPETRAN, TPESYSTEM}" for c rs u b t
    using tpbegin_rollback_error[OF er[OF that(2)] that(1)] assms(6) by blast
  let ?ub1 = "atmi_xa_load_tx_info xai ub"
  have run: "tm_tpbegin E ub s =
     (if \<not> e_bchg E (st_tick (tick s))
      then tpbegin_rollback E (atmi_xa_set_error TPETRAN NDRX_XA_ERSN_NONE ub) EXFAIL (tick (tick s))
      else andthen (tms_log_start E xai tout fl EXFAIL (tick (tick s)))
        (\<lambda>(ret, btid) s2.
          if ret \<noteq> EXSUCCEED
          then tpbegin_rollback E (atmi_xa_set_error TPETRAN NDRX_XA_ERSN_LOGFAIL ?ub1) btid s2
          else if \<not> e_bchg E (st_tick s2)
          then tpbegin_rollback E (atmi_xa_set_error TPESYSTEM NDRX_XA_ERSN_UBFERR ?ub1) btid (tick s2)
          else Ret (EXSUCCEED, ?ub1\<lparr>u_btid := Some btid\<rparr>) (tick s2)))"
    unfolding tm_tpbegin_def xai_def tout_def Let_def using assms(3) by simp
  have "e_bchg E (st_tick (tick s))" using assms(5) run rb by (metis insertI1)
  then obtain ret b s1 where l1: "tms_log_start E xai tout fl EXFAIL (tick (tick s)) = Ret (ret, b) s1"
    and go: "(if ret \<noteq> EXSUCCEED
          then tpbegin_rollback E (atmi_xa_set_error TPETRAN NDRX_XA_ERSN_LOGFAIL ?ub1) b s1
          else if \<not> e_bchg E (st_tick s1)
          then tpbegin_rollback E (atmi_xa_set_error TPESYSTEM NDRX_XA_ERSN_UBFERR ?ub1) b (tick s1)
          else Ret (EXSUCCEED, ?ub1\<lparr>u_btid := Some b\<rparr>) (tick s1)) = Ret (EXSUCCEED, ub') s'"
    using assms(5) unfolding run by (auto simp: andthen_Ret_iff)
  have ok: "ret = EXSUCCEED" "e_bchg E (st_tick s1)" using go rb by (metis insertI1 insertI2)+
  note l = l1[unfolded ok(1)]
  have s': "s' = tick s1" and ub': "u_tmxid ub' = Some (xi_tmxid xai)"
    using go ok by (auto simp: atmi_xa_load_tx_info_def)
  have "take NDRX_XID_SERIAL_BUFSIZE (xi_tmxid xai) = xi_tmxid xai" by (simp add: xai_def)
  moreover have "hash_find (take NDRX_XID_SERIAL_BUFSIZE (xi_tmxid xai)) (tick (tick s)) = None"
    using assms(4) by (simp add: xai_def hash_find_def)
  ultimately show ?thesis
    using log_start_entry[OF assms(1) _ l] assms(2) s' ub' by (auto simp: hash_find_def)
qed

section \<open>The background pass\<close>

lemma background_item_own:
  assumes "fair E" "own E {} (st_hash s)" "background_item E el s = Ret EXSUCCEED s'"
  shows "own E {} (st_hash s')"
proof (cases "tl_trycount el \<ge> e_max_tries E")
  case True
  then show ?thesis using assms by (simp add: background_item_def)
next
  case False
  show ?thesis
  proof (rule get_entry_cases[OF assms(1,2), of "tl_tmxid el" 0], goal_cases)
    case (1 locke s1)
    then show ?thesis using assms(3) False by (simp add: background_item_def)
  next
    case (2 p s1)
    let ?p1 = "p\<lparr>tl_trycount := tl_trycount p + 1\<rparr>"
    obtain ret po s2 where cp: "tms_log_checkpointseq E (Some ?p1) (hash_put ?p1 s1) = Ret (ret, po) s2"
      using assms(3) False 2(1) by (auto simp: background_item_def Let_def andthen_Ret_iff)
    obtain p2 where p2: "po = Some p2" "seq_only ?p1 p2" "st_hash s2 = st_hash (hash_put ?p1 s1)"
      using ores_RetD[OF checkpoint_ores[of "[]" "\<lambda>_. True"] cp] by (auto simp: journal_step_def)
    have o2: "own E {tl_tmxid el} (st_hash s2)"
      unfolding p2(3) hash_put_def using own_upd[OF 2(2), of ?p1 "tl_tmxid el"] 2(3) by simp
    obtain ret3 s3 where d: "tm_drive E p2 XA_OP_COMMIT 0 s2 = Ret ret3 s3" "s' = s3"
      using assms(3) False 2(1) cp p2(1) by (auto simp: background_item_def Let_def andthen_Ret_iff split: if_splits)
    show ?thesis
      unfolding d(2) by (rule drive_own[OF assms(1) o2 _ _ d(1)]) (use seq_only_fields[OF p2(2)] 2(3,4) in auto)
  qed
qed

lemma background_items_own:
  assumes "fair E"
  shows "own E {} (st_hash s) \<Longrightarrow> background_items E els s = Ret EXSUCCEED s' \<Longrightarrow> own E {} (st_hash s')"
proof (induction els arbitrary: s)
  case (Cons el els)
  obtain ret s1 where i: "background_item E el s = Ret ret s1"
    and go: "(if ret \<noteq> EXSUCCEED then Ret ret s1 else background_items E els s1) = Ret EXSUCCEED s'"
    using Cons.prems(2) by (auto simp: andthen_Ret_iff)
  have "ret = EXSUCCEED" "background_items E els s1 = Ret EXSUCCEED s'" using go by (auto split: if_splits)
  then show ?case using Cons.IH background_item_own[OF assms Cons.prems(1)] i by blast
qed simp

section \<open>The steps of a serving thread\<close>

text \<open>A step serves one request to its end (or one background pass).  A new transaction has an
  identifier that is not in the table.\<close>

inductive serve :: "tm_env \<Rightarrow> tm_st \<Rightarrow> tm_st \<Rightarrow> bool" for E :: tm_env where
  begin_tx: "tm_tpbegin E ub s = Ret r s' \<Longrightarrow>
      hash_find (take NDRX_XID_SERIAL_BUFSIZE (e_new_xid E (st_tick s))) s = None \<Longrightarrow> serve E s s'"
| commit: "tm_tpcommit E ub s = Ret r s' \<Longrightarrow> serve E s s'"
| abort: "tm_tpabort E ub s = Ret r s' \<Longrightarrow> serve E s s'"
| register: "tm_tmregister E ub s = Ret r s' \<Longrightarrow> serve E s s'"
| rmstatus: "tm_rmstatus E ub s = Ret r s' \<Longrightarrow> serve E s s'"
| status: "tm_status E ub s = Ret r s' \<Longrightarrow> serve E s s'"
| aborttrans: "tm_aborttrans E ub s = Ret r s' \<Longrightarrow> serve E s s'"
| committrans: "tm_committrans E ub s = Ret r s' \<Longrightarrow> serve E s s'"
| background: "background_items E els s = Ret EXSUCCEED s' \<Longrightarrow> serve E s s'"

lemmas handler_own = tpbegin_own tpcommit_own tpabort_own tmregister_own rmstatus_own status_own
  aborttrans_own committrans_own background_items_own

lemma serve_own: "serve E s s' \<Longrightarrow> fair E \<Longrightarrow> own E {} (st_hash s) \<Longrightarrow> own E {} (st_hash s')"
  by (induction rule: serve.induct) (blast intro: handler_own)+

lemma serve_star_own:
  "(serve E)\<^sup>*\<^sup>* s s' \<Longrightarrow> fair E \<Longrightarrow> own E {} (st_hash s) \<Longrightarrow> own E {} (st_hash s')"
  by (induction rule: rtranclp_induct) (auto intro: serve_own)

section \<open>Where the discipline is broken\<close>

text \<open>The time-out check locks an entry whose stage has changed since the copy was made, and
  leaves it locked.\<close>

lemma tout_check_keeps_lock:
  assumes "fair E" "own E {} (st_hash s)"
    and "sgn (e_clock E (st_tick s) - tl_ttimer el) * (\<bar>e_clock E (st_tick s) - tl_ttimer el\<bar> div 1000) > tl_txtout el"
    and "tl_txstage el = XA_TX_STAGE_ACTIVE"
    and "hash_find (tl_tmxid el) s = Some p" "tl_lockthreadid p = 0" "tl_txstage p \<noteq> XA_TX_STAGE_ACTIVE"
  shows "\<exists>s'. tout_check_item E el s = Ret () s' \<and>
     hash_find (tl_tmxid el) s' = Some (p\<lparr>tl_lockthreadid := e_tid E\<rparr>)"
proof -
  have f: "ex_find tl_tmxid (tl_tmxid el) (st_hash s) = Some p" using assms(5) by (simp add: hash_find_def)
  have ge: "tms_log_get_entry E (tl_tmxid el) 0 (tick s) =
      (Some (p\<lparr>tl_lockthreadid := e_tid E\<rparr>), False, tick ((tick s)\<lparr>st_hash := ex_upd tl_tmxid (tl_tmxid el)
        (\<lambda>_. p\<lparr>tl_lockthreadid := e_tid E\<rparr>) (st_hash s)\<rparr>))"
    using f assms(6) get_entry_restart.simps[of "e_tid E" "tl_tmxid el" "st_hash s" "[]"]
    by (simp add: tms_log_get_entry_def Let_def)
  have k: "hash_find (tl_tmxid el) (tick ((tick s)\<lparr>st_hash := ex_upd tl_tmxid (tl_tmxid el)
        (\<lambda>_. p\<lparr>tl_lockthreadid := e_tid E\<rparr>) (st_hash s)\<rparr>)) = Some (p\<lparr>tl_lockthreadid := e_tid E\<rparr>)"
    using get_entry_own[OF assms(1) _ ge] assms(2) by simp
  show ?thesis using assms(3,4,7) ge k by (auto simp: tout_check_item_def Let_def)
qed

end
