(* ===== verification/Tm_Properties.thy ===== *)
theory Tm_Properties
  imports Tm_Serve
begin

text \<open>
  The properties of the transaction manager, with concrete instances.  The instances use
  one small world: every outside call succeeds, and one transaction with one
  active branch is in the table.
\<close>

section \<open>A small world\<close>

definition sample_env :: tm_env where
  "sample_env = \<lparr>e_tid = 7, e_xa_rmid = 1, e_vnodeid = 1, e_srv_id = 10, e_tlog_dir = ''/tl'',
     e_procgrp_no = 0, e_sglockinc = 0, e_xa_retries = 3, e_max_tries = 100, e_dflt_timeout = 60,
     e_housekeeptime = 5, e_commit_crash = 0, e_lockloss = False, e_tmscommit = False,
     e_clock = (\<lambda>t. 1000), e_rand = (\<lambda>t. 0), e_alloc = (\<lambda>t. True), e_fopen = (\<lambda>t. True),
     e_fprintf = (\<lambda>t. True), e_fflush = (\<lambda>t. True), e_written = (\<lambda>t. 0), e_fsync_flags = 5, e_fileno = (\<lambda>t. True), e_fsync = (\<lambda>t. True),
     e_opendir = (\<lambda>t. True),
     e_dsync = (\<lambda>t. True), e_unlink = (\<lambda>t. True), e_access = (\<lambda>t. True), e_fseek = (\<lambda>t. True),
     e_read_ok = (\<lambda>t. True), e_file_age = (\<lambda>t. 10), e_sglocked = (\<lambda>t. (0, False)), e_polls = (\<lambda>t. []),
     e_xa = (\<lambda>t op rmid btid. (0, 0, 0)), e_new_xid = (\<lambda>t. ''NEW''), e_bchg = (\<lambda>t. True),
     e_scandir = (\<lambda>t. Some [''TRN-1-1-10-OLD'']), e_chkdisk_time = 0, e_logparse_attempts = 3\<rparr>"

definition sample_tx :: xa_log where
  "sample_tx = snd (snd (snd (snd (tms_btid_addupd True
     (xa_log_zero\<lparr>tl_tmxid := ''X'', tl_fname := ''L'', tl_f := True, tl_log_version := LOG_VERSION_2,
                  tl_txstage := XA_TX_STAGE_ACTIVE, tl_txtout := 60\<rparr>)
     1 EXFAIL XA_RM_STATUS_ACTIVE 0 0))))"

definition sample_st :: tm_st where
  "sample_st = \<lparr>st_tick = 0, st_disk = [''L'' \<mapsto> []], st_hash = [sample_tx], st_trace = [],
     st_write_fail = 0, st_reason = 0, st_tperrno = 0\<rparr>"

definition sample_ub :: tm_ub where
  "sample_ub = \<lparr>u_tmxid = Some ''X'', u_tmrmid = Some 1, u_tmnodeid = Some 1, u_tmsrvid = Some 10,
     u_tmknownrms = Some [1], u_btid = None, u_flags = Some 0, u_tout = None, u_callerrm = Some 1,
     u_rmstatus = None, u_err = None\<rparr>"

definition sample_xai :: xa_tx_info where
  "sample_xai = \<lparr>xi_tmxid = ''X'', xi_tmrmid = 1, xi_tmnodeid = 1, xi_tmsrvid = 10, xi_btid = EXFAIL, xi_tmknownrms = [1]\<rparr>"

text \<open>The transaction as a handler has it, and in the prepare phase.\<close>

definition sample_locked :: xa_log where
  "sample_locked = sample_tx\<lparr>tl_lockthreadid := 7\<rparr>"

definition sample_preparing :: xa_log where
  "sample_preparing = sample_locked\<lparr>tl_txstage := XA_TX_STAGE_PREPARING\<rparr>"

lemma sample_tx_fields [simp]:
  "tl_tmxid sample_tx = ''X''" "tl_fname sample_tx = ''L''" "tl_f sample_tx" "tl_log_version sample_tx = 2"
  "tl_txstage sample_tx = XA_TX_STAGE_ACTIVE" "\<not> tl_is_background sample_tx" "tl_lockthreadid sample_tx = 0"
  "tl_ttimer sample_tx = 0" "tl_txtout sample_tx = 60"
  by (simp_all add: sample_tx_def tms_btid_addupd_def tms_btid_add_def tms_btid_gettid_def xa_log_zero_def Let_def)

lemma sample_wf: "tl_wf sample_tx"
proof -
  have z: "tl_wf (xa_log_zero\<lparr>tl_tmxid := ''X'', tl_fname := ''L'', tl_f := True, tl_log_version := LOG_VERSION_2,
                  tl_txstage := XA_TX_STAGE_ACTIVE, tl_txtout := 60\<rparr>)"
    using tl_wf_zero by (simp add: tl_wf_def)
  obtain ret b k bt p where a: "tms_btid_addupd True
     (xa_log_zero\<lparr>tl_tmxid := ''X'', tl_fname := ''L'', tl_f := True, tl_log_version := LOG_VERSION_2,
                  tl_txstage := XA_TX_STAGE_ACTIVE, tl_txtout := 60\<rparr>)
     1 EXFAIL XA_RM_STATUS_ACTIVE 0 0 = (ret, b, k, bt, p)" by (metis prod_cases5)
  show ?thesis using addupd_ok[OF z _ _ _ a] a by (simp add: sample_tx_def rmid_ok_def rm_at_def xa_log_zero_def)
qed

lemma sample_env_fields [simp]:
  "e_tid sample_env = 7" "e_xa_retries sample_env = 3" "e_polls sample_env t = []" "e_clock sample_env t = 1000"
  "e_new_xid sample_env t = ''NEW''" "e_max_tries sample_env = 100" "e_lockloss sample_env = False"
  by (simp_all add: sample_env_def)

lemma sample_st_fields [simp]:
  "st_hash sample_st = [sample_tx]" "st_trace sample_st = []" "st_write_fail sample_st = 0" "st_tick sample_st = 0"
  by (simp_all add: sample_st_def)

lemma sample_fair: "fair sample_env"
  by (simp add: fair_def)

lemma sample_own: "own sample_env {} (st_hash sample_st)"
  by (simp add: own_def ex_inv_def ex_find_def)

lemma sample_read:
  "atmi_xa_read_tx_info sample_ub True = Some sample_xai" "u_flags sample_ub = Some 0" "\<not> atmi_xa_is_error sample_ub"
  "u_tmxid sample_ub = Some ''X''"
  by (simp_all add: sample_ub_def sample_xai_def atmi_xa_read_tx_info_def Let_def atmi_xa_is_error_def)

lemma sample_locked_fields [simp]:
  "tl_tmxid sample_locked = ''X''" "tl_fname sample_locked = ''L''" "tl_f sample_locked" "tl_log_version sample_locked = 2"
  "tl_txstage sample_locked = XA_TX_STAGE_ACTIVE" "\<not> tl_is_background sample_locked" "tl_lockthreadid sample_locked = 7"
  by (simp_all add: sample_locked_def)

lemma sample_preparing_fields [simp]:
  "tl_tmxid sample_preparing = ''X''" "tl_lockthreadid sample_preparing = 7" "tl_fname sample_preparing = ''L''"
  "tl_txstage sample_preparing = XA_TX_STAGE_PREPARING"
  by (simp_all add: sample_preparing_def)

lemma sample_get:
  "tms_log_get_entry sample_env (xi_tmxid sample_xai) w sample_st =
     (Some sample_locked, False, tick (sample_st\<lparr>st_hash := [sample_locked]\<rparr>))"
  using get_entry_restart.simps[of 7 "''X''" "[sample_tx]" "[]"]
  by (simp add: tms_log_get_entry_def sample_locked_def sample_xai_def ex_find_def ex_upd_def Let_def)

section \<open>Commit\<close>

text \<open>C1: the write-ahead rule for a commit request.  However the request ends (with a reply, or
  with the process being terminated in the middle), no resource manager was told to commit before
  the decision was written to the log of the transaction and the log was synchronised as the
  configured flags ask for, and the request never sent both a commit and a rollback.\<close>

theorem commit_write_ahead:
  assumes "atmi_xa_read_tx_info ub True = Some xai" "u_flags ub = Some tmflags"
    and "tms_log_get_entry E (xi_tmxid xai) NDRX_LOCK_WAIT_TIME s = (Some p, locke, s1)"
    and "\<not> tl_is_background p" "tl_txstage p = XA_TX_STAGE_ACTIVE"
    and "st_write_fail s = 0" "\<not> atmi_xa_is_error ub"
  shows "\<exists>evs. st_trace (ostate (tm_tpcommit E ub s)) = st_trace s @ evs \<and> wal_ok E p evs \<and> one_way evs"
proof -
  have "ores (\<lambda>_. run_safe E p s) (run_safe E p s) (tm_tpcommit E ub s)"
    by (rule ores_mono[OF tpcommit_ores[OF assms]]) auto
  then show ?thesis by (simp add: ores_ostate run_safe_def)
qed

theorem commit_write_ahead_witness:
  "\<exists>evs. st_trace (ostate (tm_tpcommit sample_env sample_ub sample_st)) = st_trace sample_st @ evs \<and>
     wal_ok sample_env sample_locked evs \<and> one_way evs"
  by (rule commit_write_ahead[OF sample_read(1,2) sample_get _ _ _ sample_read(3)]) simp_all

text \<open>C6: what the reply to a commit means.  A reply without an error says that no rollback was
  sent; a reply that the transaction was aborted (TPEABORT) says that no commit was sent.\<close>

theorem commit_reply_means:
  assumes "atmi_xa_read_tx_info ub True = Some xai" "u_flags ub = Some tmflags"
    and "tms_log_get_entry E (xi_tmxid xai) NDRX_LOCK_WAIT_TIME s = (Some p, locke, s1)"
    and "\<not> tl_is_background p" "tl_txstage p = XA_TX_STAGE_ACTIVE"
    and "st_write_fail s = 0" "\<not> atmi_xa_is_error ub"
  shows "case tm_tpcommit E ub s of
      Ret (ret, ub') s' \<Rightarrow>
        (\<not> atmi_xa_is_error ub' \<longrightarrow> sends (\<lambda>ev. \<not> is_rollback ev) s s') \<and>
        (\<forall>rs. u_err ub' = Some (TPEABORT, rs) \<longrightarrow> sends (\<lambda>ev. \<not> is_commit ev) s s')
    | Exit c s' \<Rightarrow> True"
  using tpcommit_ores[OF assms] by (auto simp: commit_reply_def split: outcome.splits)

theorem commit_reply_means_witness:
  "case tm_tpcommit sample_env sample_ub sample_st of
      Ret (ret, ub') s' \<Rightarrow>
        (\<not> atmi_xa_is_error ub' \<longrightarrow> sends (\<lambda>ev. \<not> is_rollback ev) sample_st s') \<and>
        (\<forall>rs. u_err ub' = Some (TPEABORT, rs) \<longrightarrow> sends (\<lambda>ev. \<not> is_commit ev) sample_st s')
    | Exit c s' \<Rightarrow> True"
  by (rule commit_reply_means[OF sample_read(1,2) sample_get _ _ _ sample_read(3)]) simp_all

text \<open>C3: the commit decision needs every vote.  When a round of the prepare phase hands over to
  the commit phase, every branch that was active has been asked to prepare and is prepared or
  read-only now, and no branch is left active or aborted.\<close>

theorem commit_decision:
  assumes "tl_txstage p = XA_TX_STAGE_PREPARING" "tl_wf p"
  shows "case drive_round E flags p n s of
      Ret (DrAgain p' n') s' \<Rightarrow> tl_txstage p' = XA_TX_STAGE_COMMITTING \<longrightarrow>
        (\<exists>evs. st_trace s' = st_trace s @ evs \<and>
          (\<forall>rmid btid el. rmid_ok rmid \<longrightarrow> tms_btid_find p rmid btid = Some el \<longrightarrow>
            (\<exists>el'. tms_btid_find p' rmid btid = Some el' \<and> may_commit (bt_rmstatus el') \<and>
              (bt_rmstatus el = XA_RM_STATUS_ACTIVE \<longrightarrow>
                 bt_rmstatus el' \<in> {XA_RM_STATUS_PREP, XA_RM_STATUS_COMMITTED_RO} \<and>
                 EvXa XA_OP_PREPARE rmid btid \<in> set evs))))
    | _ \<Rightarrow> True"
  using preparing_to_committing[OF assms] unfolding br_ok_def
  by (cases "drive_round E flags p n s") (auto split: drive_end.splits)

theorem commit_decision_witness:
  "tl_wf sample_preparing \<and> (case drive_round sample_env 0 sample_preparing 0 sample_st of
      Ret (DrAgain p' n') s' \<Rightarrow> tl_txstage p' = XA_TX_STAGE_COMMITTING \<longrightarrow>
        (\<exists>evs. st_trace s' = st_trace sample_st @ evs \<and>
          (\<forall>rmid btid el. rmid_ok rmid \<longrightarrow> tms_btid_find sample_preparing rmid btid = Some el \<longrightarrow>
            (\<exists>el'. tms_btid_find p' rmid btid = Some el' \<and> may_commit (bt_rmstatus el') \<and>
              (bt_rmstatus el = XA_RM_STATUS_ACTIVE \<longrightarrow>
                 bt_rmstatus el' \<in> {XA_RM_STATUS_PREP, XA_RM_STATUS_COMMITTED_RO} \<and>
                 EvXa XA_OP_PREPARE rmid btid \<in> set evs))))
    | _ \<Rightarrow> True)"
proof -
  have wf: "tl_wf sample_preparing" "tl_txstage sample_preparing = XA_TX_STAGE_PREPARING"
    using sample_wf by (simp_all add: sample_preparing_def sample_locked_def tl_wf_def)
  show ?thesis using wf(1) commit_decision[OF wf(2,1)] by blast
qed

text \<open>C12: a commit decision is reported as logged only when its line has been written to the log
  file, behind everything written before, and the file and its directory have been synchronised
  after that, with exactly the operations the configured flags ask for.\<close>

theorem decision_durable:
  assumes "st_write_fail s = 0" "tl_txstage p \<noteq> XA_TX_STAGE_COMMITTING"
  shows "case tms_log_stage E p XA_TX_STAGE_COMMITTING False s of
      Ret (ret, p') s' \<Rightarrow> ret = EXSUCCEED \<longrightarrow>
        (\<exists>ts. st_trace s' = st_trace s @ [EvWrite (tl_fname p)
           (stage_line (tl_log_version p) ts XA_TX_STAGE_COMMITTING), EvSync (tl_fname p) (sync_ops (e_fsync_flags E))])
    | Exit c s' \<Rightarrow> True"
  using commit_logged_durable[OF _ assms] by (auto split: outcome.splits)

theorem decision_durable_witness:
  "case tms_log_stage sample_env sample_preparing XA_TX_STAGE_COMMITTING False sample_st of
      Ret (ret, p') s' \<Rightarrow> ret = EXSUCCEED \<longrightarrow>
        (\<exists>ts. st_trace s' = st_trace sample_st @ [EvWrite (tl_fname sample_preparing)
           (stage_line (tl_log_version sample_preparing) ts XA_TX_STAGE_COMMITTING), EvSync (tl_fname sample_preparing) (sync_ops (e_fsync_flags sample_env))])
    | Exit c s' \<Rightarrow> True"
  by (rule decision_durable) simp_all

text \<open>C20: the stage of an entry follows the return code of the stage change: on success it is the
  new one, on failure the old one, and nothing else of the entry but the sequence of the group
  lock changes; the table of transactions and the other files are not touched.\<close>

theorem stage_follows_code:
  assumes "tl_txstage p \<noteq> EXFAIL"
  shows "case tms_log_stage E p stage forced s of
      Ret (ret, p') s' \<Rightarrow> st_hash s' = st_hash s \<and>
        (\<forall>g. g \<noteq> tl_fname p \<longrightarrow> st_disk s' g = st_disk s g) \<and>
        seq_only (p\<lparr>tl_txstage := if ret = EXSUCCEED then stage else tl_txstage p\<rparr>) p'
    | Exit c s' \<Rightarrow> True"
  using log_stage_ores[OF assms, of s stage E forced] by (auto simp: journal_step_def split: outcome.splits)

theorem stage_follows_code_witness:
  "case tms_log_stage sample_env sample_locked XA_TX_STAGE_PREPARING False sample_st of
      Ret (ret, p') s' \<Rightarrow> st_hash s' = st_hash sample_st \<and>
        (\<forall>g. g \<noteq> tl_fname sample_locked \<longrightarrow> st_disk s' g = st_disk sample_st g) \<and>
        seq_only (sample_locked\<lparr>tl_txstage := if ret = EXSUCCEED then XA_TX_STAGE_PREPARING
          else tl_txstage sample_locked\<rparr>) p'
    | Exit c s' \<Rightarrow> True"
  by (rule stage_follows_code) simp

text \<open>C11: the driver loop ends.  The number of rounds is bounded by the rank of the stage and the
  number of retries: with that many rounds of fuel the loop gives the result of tm_drive_loop.\<close>

theorem drive_rounds_bounded:
  "drive_fuel (stage_rank (tl_txstage p) * (nat (e_xa_retries E) + 1) + nat (e_xa_retries E) + 1) E flags p 0 s =
     Some (tm_drive_loop E flags p 0 s)"
  by (rule drive_fuel_enough) simp_all

text \<open>C18: the fate of a driven transaction.  When tm_drive returns, the transaction is out of the
  table, or it is in the table for the background and unlocked; all other entries are as they
  were.\<close>

theorem drive_entry_fate:
  assumes "ex_inv tl_tmxid (st_hash s)" "hash_find (tl_tmxid p) s \<noteq> None" "e_tid E = tl_lockthreadid p"
  shows "case tm_drive E p master_op flags s of
      Ret ret s' \<Rightarrow>
        (hash_find (tl_tmxid p) s' = None \<or>
         (\<exists>q. hash_find (tl_tmxid p) s' = Some q \<and> tl_is_background q \<and> tl_lockthreadid q = 0)) \<and>
        (\<forall>xid. xid \<noteq> tl_tmxid p \<longrightarrow> hash_find xid s' = hash_find xid s)
    | Exit c s' \<Rightarrow> True"
  using tm_drive_entry[OF assms] by (auto split: outcome.splits)

theorem drive_entry_fate_witness:
  "case tm_drive sample_env sample_preparing XA_OP_COMMIT 0 sample_st of
      Ret ret s' \<Rightarrow>
        (hash_find ''X'' s' = None \<or>
         (\<exists>q. hash_find ''X'' s' = Some q \<and> tl_is_background q \<and> tl_lockthreadid q = 0)) \<and>
        (\<forall>xid. xid \<noteq> ''X'' \<longrightarrow> hash_find xid s' = hash_find xid sample_st)
    | Exit c s' \<Rightarrow> True"
  using drive_entry_fate[of sample_st sample_preparing sample_env XA_OP_COMMIT 0]
  unfolding sample_preparing_fields(1) by (simp add: hash_find_def ex_find_def ex_inv_def)

section \<open>Abort and administration\<close>

text \<open>C32: a request to abort never makes a resource manager commit, however it ends.\<close>

theorem abort_never_commits: "sends (\<lambda>ev. \<not> is_commit ev) s (ostate (tm_tpabort E ub s))"
  by (rule tpabort_sends)

text \<open>C33: the administrator's commit never rolls back, however it ends; and when the transaction
  is not in the commit phase nothing at all is sent: the request is refused with TPEINVAL.\<close>

theorem committrans_only_decided:
  "sends (\<lambda>ev. \<not> is_rollback ev) s (ostate (tm_committrans E ub s)) \<and>
   (\<forall>xid p locke s1. u_tmxid ub = Some xid \<longrightarrow>
      tms_log_get_entry E xid NDRX_LOCK_WAIT_TIME s = (Some p, locke, s1) \<longrightarrow>
      tl_txstage p \<noteq> XA_TX_STAGE_COMMITTING \<longrightarrow>
      (\<exists>s'. tm_committrans E ub s = Ret (EXFAIL, atmi_xa_set_error TPEINVAL 0 ub) s' \<and>
            st_trace s' = st_trace s \<and> st_disk s' = st_disk s))"
proof (intro conjI allI impI)
  show "sends (\<lambda>ev. \<not> is_rollback ev) s (ostate (tm_committrans E ub s))" by (rule committrans_sends)
next
  fix xid p locke s1
  assume ge: "u_tmxid ub = Some xid" "tms_log_get_entry E xid NDRX_LOCK_WAIT_TIME s = (Some p, locke, s1)"
    "tl_txstage p \<noteq> XA_TX_STAGE_COMMITTING"
  then show "\<exists>s'. tm_committrans E ub s = Ret (EXFAIL, atmi_xa_set_error TPEINVAL 0 ub) s' \<and>
            st_trace s' = st_trace s \<and> st_disk s' = st_disk s"
    using get_entry_frame[OF ge(2)] by (simp add: tm_committrans_def tms_unlock_entry_def Let_def)
qed

theorem committrans_only_decided_witness:
  "\<exists>s'. tm_committrans sample_env sample_ub sample_st = Ret (EXFAIL, atmi_xa_set_error TPEINVAL 0 sample_ub) s' \<and>
            st_trace s' = st_trace sample_st \<and> st_disk s' = st_disk sample_st"
proof -
  have "tms_log_get_entry sample_env ''X'' NDRX_LOCK_WAIT_TIME sample_st =
      (Some sample_locked, False, tick (sample_st\<lparr>st_hash := [sample_locked]\<rparr>))"
    using sample_get[of NDRX_LOCK_WAIT_TIME] by (simp add: sample_xai_def)
  with committrans_only_decided[of sample_st sample_env sample_ub] sample_read(4) show ?thesis by auto
qed

text \<open>C31: a transaction that is being finished already is left alone.  A commit or an abort request
  for an entry that belongs to the background or has left the active stage is refused; nothing
  is sent or written, the entry is as it was and unlocked.\<close>

theorem finished_is_refused:
  assumes "atmi_xa_read_tx_info ub True = Some xai" "u_flags ub = Some tmflags"
    and "fair E" "own E {} (st_hash s)"
    and "tms_log_get_entry E (xi_tmxid xai) NDRX_LOCK_WAIT_TIME s = (Some p, locke, s1)"
    and "tl_is_background p \<or> tl_txstage p \<noteq> XA_TX_STAGE_ACTIVE" "\<not> atmi_xa_is_error ub"
    and "handler = tm_tpcommit E ub s \<or> handler = tm_tpabort E ub s"
  shows "\<exists>ub' s'. handler = Ret (EXFAIL, ub') s' \<and> atmi_xa_is_error ub' \<and> st_trace s' = st_trace s \<and>
     st_disk s' = st_disk s \<and> hash_find (xi_tmxid xai) s' = Some (p\<lparr>tl_lockthreadid := 0\<rparr>)"
proof -
  have l: "tl_tmxid p = xi_tmxid xai" "tl_lockthreadid p = e_tid E" using get_entry_locked[OF assms(5)] by auto
  let ?s' = "snd (snd (tms_unlock_entry E p s1))"
  have f: "hash_find (xi_tmxid xai) s1 = Some p" using get_entry_own[OF assms(3-5)] by simp
  have k: "st_trace ?s' = st_trace s \<and> st_disk ?s' = st_disk s \<and>
      hash_find (xi_tmxid xai) ?s' = Some (p\<lparr>tl_lockthreadid := 0\<rparr>)"
    using get_entry_frame[OF assms(5)] l f by (simp add: tms_unlock_entry_def Let_def hash_find_put)
  have e: "atmi_xa_is_error (atmi_xa_set_error c NDRX_XA_ERSN_INPROGRESS ub)" if "c \<in> {1, 9, 21}" for c
    using that assms(7) by (auto simp: atmi_xa_set_error_def atmi_xa_is_error_def to_short_def)
  show ?thesis using assms(1,2,5,6,8) k e by (auto simp: tm_tpcommit_def tm_tpabort_def)
qed

text \<open>The sample transaction, left to the background.\<close>

definition sample_bg_st :: tm_st where
  "sample_bg_st = sample_st\<lparr>st_hash := [sample_tx\<lparr>tl_is_background := True, tl_txstage := XA_TX_STAGE_COMMITTING\<rparr>]\<rparr>"

lemma sample_bg_get:
  "tms_log_get_entry sample_env (xi_tmxid sample_xai) w sample_bg_st =
     (Some (sample_locked\<lparr>tl_is_background := True, tl_txstage := XA_TX_STAGE_COMMITTING\<rparr>), False,
      tick (sample_bg_st\<lparr>st_hash := [sample_locked\<lparr>tl_is_background := True, tl_txstage := XA_TX_STAGE_COMMITTING\<rparr>]\<rparr>))"
  using get_entry_restart.simps[of 7 "''X''" "[sample_tx\<lparr>tl_is_background := True, tl_txstage := XA_TX_STAGE_COMMITTING\<rparr>]" "[]"]
  by (simp add: tms_log_get_entry_def sample_locked_def sample_bg_st_def sample_xai_def ex_find_def ex_upd_def Let_def)

lemma sample_bg_own: "own sample_env {} (st_hash sample_bg_st)"
  by (simp add: own_def ex_inv_def ex_find_def sample_bg_st_def)

theorem finished_is_refused_witness:
  "\<exists>ub' s'. tm_tpabort sample_env sample_ub sample_bg_st = Ret (EXFAIL, ub') s' \<and> atmi_xa_is_error ub' \<and>
     st_trace s' = st_trace sample_bg_st \<and> st_disk s' = st_disk sample_bg_st \<and>
     hash_find (xi_tmxid sample_xai) s' =
       Some (sample_locked\<lparr>tl_is_background := True, tl_txstage := XA_TX_STAGE_COMMITTING, tl_lockthreadid := 0\<rparr>)"
  using finished_is_refused[OF sample_read(1,2) sample_fair sample_bg_own sample_bg_get _ sample_read(3) disjI2[OF refl]]
  by simp

section \<open>Registration\<close>

text \<open>C29: a successful begin puts the transaction into the table: active, in the foreground, not
  locked, under the identifier the caller gets back.\<close>

theorem begin_registers:
  assumes "fair E" "own E {} (st_hash s)" "u_flags ub = Some tmflags"
    and "hash_find (take NDRX_XID_SERIAL_BUFSIZE (e_new_xid E (st_tick s))) s = None"
  shows "case tm_tpbegin E ub s of
      Ret (ret, ub') s' \<Rightarrow> ret = EXSUCCEED \<and> \<not> atmi_xa_is_error ub' \<longrightarrow>
        (\<exists>xid p. u_tmxid ub' = Some xid \<and> hash_find xid s' = Some p \<and> tl_txstage p = XA_TX_STAGE_ACTIVE \<and>
           \<not> tl_is_background p \<and> tl_lockthreadid p = 0)
    | Exit c s' \<Rightarrow> True"
  using tpbegin_entry[OF assms] by (auto split: outcome.splits)

theorem begin_registers_witness:
  "case tm_tpbegin sample_env sample_ub sample_st of
      Ret (ret, ub') s' \<Rightarrow> ret = EXSUCCEED \<and> \<not> atmi_xa_is_error ub' \<longrightarrow>
        (\<exists>xid p. u_tmxid ub' = Some xid \<and> hash_find xid s' = Some p \<and> tl_txstage p = XA_TX_STAGE_ACTIVE \<and>
           \<not> tl_is_background p \<and> tl_lockthreadid p = 0)
    | Exit c s' \<Rightarrow> True"
  by (rule begin_registers[OF sample_fair sample_own sample_read(2)]) (simp add: hash_find_def ex_find_def)

text \<open>C30: a resource manager can join only an active transaction of the foreground: in every other
  stage the registration fails, no line is written and the entry keeps its branches.\<close>

theorem join_only_active:
  assumes "fair E" "own E {} (st_hash s)"
    and "tms_log_get_entry E (xi_tmxid xai) NDRX_LOCK_WAIT_TIME s = (Some p, locke, s1)"
    and "tl_is_background p \<or> tl_txstage p \<noteq> XA_TX_STAGE_ACTIVE"
  shows "\<exists>s'. tms_log_addrm E xai rmid btid flags s = Ret (EXFAIL, False, btid) s' \<and> st_trace s' = st_trace s \<and>
     hash_find (xi_tmxid xai) s' = Some (p\<lparr>tl_lockthreadid := 0\<rparr>)"
proof -
  have l: "tl_tmxid p = xi_tmxid xai" "tl_lockthreadid p = e_tid E" using get_entry_locked[OF assms(3)] by auto
  have f: "hash_find (xi_tmxid xai) s1 = Some p" using get_entry_own[OF assms(1-3)] by simp
  show ?thesis using assms(3,4) l f get_entry_frame[OF assms(3)]
    by (auto simp: tms_log_addrm_def Let_def tms_unlock_entry_def hash_find_put)
qed

theorem join_only_active_witness:
  "\<exists>s'. tms_log_addrm sample_env sample_xai 1 EXFAIL 0 sample_bg_st = Ret (EXFAIL, False, EXFAIL) s' \<and>
     st_trace s' = st_trace sample_bg_st \<and> hash_find (xi_tmxid sample_xai) s' =
       Some (sample_locked\<lparr>tl_is_background := True, tl_txstage := XA_TX_STAGE_COMMITTING, tl_lockthreadid := 0\<rparr>)"
  using join_only_active[OF sample_fair sample_bg_own sample_bg_get, of 1 EXFAIL 0] by simp

section \<open>Locks\<close>



text \<open>C8: no lock is left behind.  In every state that a thread reaches by serving requests (begin,
  commit, abort, registration of a branch, status of a branch, status, the administrator's abort
  and commit) and background passes to their end, it holds the lock of no transaction, and the
  identifiers in the table are unique.\<close>

theorem no_lock_left_behind:
  assumes "(serve E)\<^sup>*\<^sup>* s s'" "fair E" "own E {} (st_hash s)"
  shows "own E {} (st_hash s')"
  by (rule serve_star_own[OF assms])

theorem no_lock_left_behind_witness:
  "\<exists>s' r. tm_tpabort sample_env sample_ub sample_bg_st = Ret r s' \<and> own sample_env {} (st_hash s')"
proof -
  obtain r s' where r: "tm_tpabort sample_env sample_ub sample_bg_st = Ret r s'"
    using sample_read sample_bg_get[of NDRX_LOCK_WAIT_TIME] by (simp add: tm_tpabort_def)
  have "(serve sample_env)\<^sup>*\<^sup>* sample_bg_st s'" using serve.abort[OF r] by blast
  from no_lock_left_behind[OF this sample_fair sample_bg_own] r show ?thesis by blast
qed

text \<open>C36: the exception.  When the time-out check finds that an expired transaction has left the
  active stage since the list was made, it returns with the entry locked; no later request gets
  it.\<close>

theorem tout_check_leaves_lock:
  assumes "fair E" "own E {} (st_hash s)"
    and "sgn (e_clock E (st_tick s) - tl_ttimer el) * (\<bar>e_clock E (st_tick s) - tl_ttimer el\<bar> div 1000) > tl_txtout el"
    and "tl_txstage el = XA_TX_STAGE_ACTIVE"
    and "hash_find (tl_tmxid el) s = Some p" "tl_lockthreadid p = 0" "tl_txstage p \<noteq> XA_TX_STAGE_ACTIVE"
  shows "\<exists>s'. tout_check_item E el s = Ret () s' \<and>
     hash_find (tl_tmxid el) s' = Some (p\<lparr>tl_lockthreadid := e_tid E\<rparr>)"
  by (rule tout_check_keeps_lock[OF assms])

theorem tout_check_leaves_lock_witness:
  "\<exists>s'. tout_check_item sample_env (sample_tx\<lparr>tl_txtout := 0\<rparr>) sample_bg_st = Ret () s' \<and>
     hash_find ''X'' s' = Some (sample_tx\<lparr>tl_is_background := True, tl_txstage := XA_TX_STAGE_COMMITTING,
       tl_lockthreadid := 7\<rparr>)"
  using tout_check_leaves_lock[OF sample_fair sample_bg_own, of "sample_tx\<lparr>tl_txtout := 0\<rparr>"
      "sample_tx\<lparr>tl_is_background := True, tl_txstage := XA_TX_STAGE_COMMITTING\<rparr>"]
  by (simp add: sample_bg_st_def hash_find_def ex_find_def)

end
