(* ===== verification/Tm_Restart.thy ===== *)
theory Tm_Restart
  imports Tm_Properties
begin

text \<open>
  What a restart makes of the logs it finds: the transactions that come back, the
  decisions that survive, lines that were damaged or cut off, and two defects of the
  code in this area.
\<close>

section \<open>Auxiliary facts\<close>

lemma logged_stage_append:
  "logged_stage (xs @ ys) = foldl stage_after (logged_stage xs) (rec_stages ys)"
  by (simp add: logged_stage_def rec_stages_def)

lemma undecided_stage:
  assumes "\<forall>x \<in> set xs. x = XA_TX_STAGE_ACTIVE \<or> x = XA_TX_STAGE_PREPARING"
    and "st = XA_TX_STAGE_ACTIVE \<or> st = XA_TX_STAGE_PREPARING"
  shows "foldl stage_after st xs \<in> {XA_TX_STAGE_ACTIVE, XA_TX_STAGE_PREPARING}"
  using assms by (induction xs arbitrary: st) (auto simp: stage_after_def abort_range_def)



lemma strip_terminated:
  assumes "CHR 0x00 \<notin> set t" "CR \<notin> set t" "t \<noteq> []"
  shows "strip_line (t @ [NL]) = (t, True)"
proof -
  have c: "c_str (t @ [NL]) = t @ [NL]" using assms(1) by (auto simp: c_str_def takeWhile_eq_all_conv)
  have "last t \<noteq> CR" using assms(2,3) by (metis last_in_set)
  then show ?thesis using c assms(3) by (cases t) (auto simp: strip_line_def Let_def)
qed

text \<open>A line whose checksum does not fit its text.\<close>

lemma load_damaged:
  assumes "CHR 0x00 \<notin> set (txt @ rs)" "CR \<notin> set (txt @ rs)"
    and "LOG_RS_SEP \<notin> set txt" "CHR '':'' \<in> set (txt @ rs)" "tl_log_version (la_p acc) = LOG_VERSION_2"
    and "sscanf_lx rs \<noteq> log_crc txt"
  shows "load_line E (txt @ [LOG_RS_SEP] @ rs @ [NL]) acc s = (acc\<lparr>la_got_term := True\<rparr>, s)"
proof -
  let ?buf = "txt @ [LOG_RS_SEP] @ rs"
  have st: "strip_line (?buf @ [NL]) = (?buf, True)"
    by (rule strip_terminated) (use assms(1,2) in auto)
  obtain a b where sp: "strchr_split CHR '':'' ?buf = Some (a, b)"
    using assms(4) strchr_split_None[of "CHR '':''" ?buf] by (cases "strchr_split CHR '':'' ?buf") auto
  have "check_line ?buf = None" using assms(3,6) by (auto simp: check_line_def)
  then have "load_line E (?buf @ [NL]) acc s = (acc\<lparr>la_got_term := True\<rparr>, s)"
    unfolding load_line_def st prod.case using sp assms(5) by (simp add: Let_def)
  then show ?thesis by simp
qed

text \<open>A complete line without a colon ends the load.\<close>

lemma load_no_colon:
  assumes "CHR 0x00 \<notin> set t" "CR \<notin> set t" "CHR '':'' \<notin> set t" "t \<noteq> []"
  shows "load_line E (t @ [NL]) acc s = (acc\<lparr>la_got_term := True, la_fail := True\<rparr>, s)"
proof -
  have "strchr_split CHR '':'' t = None" using assms(3) strchr_split_None by blast
  then show ?thesis unfolding load_line_def strip_terminated[OF assms(1,2,4)] by (simp add: Let_def)
qed


section \<open>The transactions that come back\<close>

text \<open>C5: recovery.  The file holds the info record, any number of later records and possibly a line
  that was being written when the process ended.  Loading it succeeds and puts one entry into the
  table: unlocked, for the background, with the branches that replaying the records gives and in
  the stage that was logged, except that an undecided transaction comes back in the abort stage.\<close>

theorem recovery:
  assumes "calm E" "rec_ok (RecInfo a b c d)" "c_long ts0" "recs_ok recs"
    and "\<forall>x \<in> set (rec_stages recs). 0 \<le> x" "NL \<notin> set tail" "length tail \<le> 1023"
    and "logfile \<noteq> []" "length logfile \<le> 4096" "length tmxid \<le> NDRX_XID_SERIAL_BUFSIZE"
    and "st_disk s logfile = Some (log_image ts0 (RecInfo a b c d) recs tail)"
  shows "\<exists>p' s'. tms_load_logfile E logfile tmxid s = Ret (EXSUCCEED, Some p', False, False) s' \<and>
     tl_txstage p' = recovered_stage (logged_stage recs) \<and>
     tl_rmstatus p' = tl_rmstatus (replay recs xa_log_zero) \<and>
     tl_tmxid p' = tmxid \<and> tl_is_background p' \<and> tl_lockthreadid p' = 0 \<and> st_hash s' = st_hash s @ [p']"
  using load_image[OF assms] by blast

definition sample_recs :: "(int \<times> log_rec) list" where
  "sample_recs = [(1000, RecRm 1 XA_RM_STATUS_ACTIVE 0 0 0), (1001, RecStage XA_TX_STAGE_PREPARING),
     (1002, RecRm 1 XA_RM_STATUS_PREP 0 0 0), (1003, RecStage XA_TX_STAGE_COMMITTING)]"

definition sample_disk_st :: tm_st where
  "sample_disk_st = sample_st\<lparr>st_hash := [],
     st_disk := [''L'' \<mapsto> log_image 999 (RecInfo 1 1 10 60) sample_recs ''10'']\<rparr>"

lemma sample_calm: "calm sample_env"
  by (simp add: calm_def sample_env_def)

lemma sample_info_ok: "rec_ok (RecInfo 1 1 10 60)" "c_long 999"
  by (simp_all add: c_long_def)

lemma sample_recs_ok: "recs_ok sample_recs"
  by (simp add: recs_ok_def sample_recs_def c_long_def is_short_def rmid_ok_def)

lemma sample_stages: "rec_stages sample_recs = [XA_TX_STAGE_PREPARING, XA_TX_STAGE_COMMITTING]"
  by (simp add: rec_stages_def sample_recs_def)

lemma sample_disk: "st_disk sample_disk_st ''L'' = Some (log_image 999 (RecInfo 1 1 10 60) sample_recs ''10'')"
  by (simp add: sample_disk_st_def)

theorem recovery_witness:
  "\<exists>p' s'. tms_load_logfile sample_env ''L'' ''X'' sample_disk_st = Ret (EXSUCCEED, Some p', False, False) s' \<and>
     tl_txstage p' = XA_TX_STAGE_COMMITTING \<and> tl_tmxid p' = ''X'' \<and> st_hash s' = [p']"
proof -
  have st: "recovered_stage (logged_stage sample_recs) = XA_TX_STAGE_COMMITTING"
    by (simp add: logged_stage_def sample_stages stage_after_def abort_range_def recovered_stage_def)
  have h: "st_hash sample_disk_st = []" by (simp add: sample_disk_st_def)
  have "\<forall>x \<in> set (rec_stages sample_recs). 0 \<le> x" by (simp add: sample_stages)
  from recovery[OF sample_calm sample_info_ok sample_recs_ok this, of "''10''" "''L''" "''X''" sample_disk_st] sample_disk
  show ?thesis unfolding st h by auto
qed



text \<open>C13: a transaction whose log shows no decision is rolled back after a restart, and an abort that
  was logged is never turned into a commit, whatever follows it in the log.\<close>

theorem abort_after_restart:
  assumes "calm E" "rec_ok (RecInfo a b c d)" "c_long ts0" "recs_ok recs"
    and "\<forall>x \<in> set (rec_stages recs). 0 \<le> x" "NL \<notin> set tail" "length tail \<le> 1023"
    and "logfile \<noteq> []" "length logfile \<le> 4096" "length tmxid \<le> NDRX_XID_SERIAL_BUFSIZE"
    and "st_disk s logfile = Some (log_image ts0 (RecInfo a b c d) recs tail)"
    and "(\<forall>x \<in> set (rec_stages recs). x = XA_TX_STAGE_ACTIVE \<or> x = XA_TX_STAGE_PREPARING) \<or>
         (\<exists>pre post. recs = pre @ post \<and> abort_range (logged_stage pre))"
  shows "\<exists>p' s'. tms_load_logfile E logfile tmxid s = Ret (EXSUCCEED, Some p', False, False) s' \<and>
     abort_range (tl_txstage p')"
proof -
  have "abort_range (recovered_stage (logged_stage recs))"
    using assms(12)
  proof (elim disjE exE conjE)
    assume "\<forall>x \<in> set (rec_stages recs). x = XA_TX_STAGE_ACTIVE \<or> x = XA_TX_STAGE_PREPARING"
    from undecided_stage[OF this, of XA_TX_STAGE_ACTIVE] show ?thesis
      by (auto simp: logged_stage_def recovered_stage_def abort_range_def)
  next
    fix pre post
    assume "recs = pre @ post" "abort_range (logged_stage pre)"
    then have "abort_range (logged_stage recs)" using logged_abort by (simp add: logged_stage_append)
    then show ?thesis by (auto simp: recovered_stage_def abort_range_def)
  qed
  then show ?thesis using load_image[OF assms(1-11)] by fastforce
qed

definition sample_undecided_st :: tm_st where
  "sample_undecided_st = sample_st\<lparr>st_hash := [],
     st_disk := [''L'' \<mapsto> log_image 999 (RecInfo 1 1 10 60) [(1000, RecStage XA_TX_STAGE_PREPARING)] []]\<rparr>"

theorem abort_after_restart_witness:
  "\<exists>p' s'. tms_load_logfile sample_env ''L'' ''X'' sample_undecided_st = Ret (EXSUCCEED, Some p', False, False) s' \<and>
     abort_range (tl_txstage p')"
  by (rule abort_after_restart[OF sample_calm sample_info_ok, of "[(1000, RecStage XA_TX_STAGE_PREPARING)]" "[]"])
    (simp_all add: sample_undecided_st_def recs_ok_def c_long_def is_short_def rec_stages_def)

section \<open>Lines\<close>

text \<open>C14: what is printed is what is parsed.  Reading the line of a record applies exactly that record
  to the entry: the stage is set, or the branch gets the status, the codes and the id that were
  printed.\<close>

theorem record_round_trip:
  assumes "calm E" "rec_ok r" "c_long ts" "\<not> is_info r" "tl_wf (la_p acc)"
    and "la_infos_ok acc" "tl_log_version (la_p acc) = LOG_VERSION_2" "\<not> la_fail acc"
  shows "\<exists>s'. load_line E (rec_line ts r) acc s =
      (acc\<lparr>la_got_term := True, la_p := replay_rec (ts, r) (la_p acc)\<rparr>, s') \<and> only_ticks s s'"
  by (rule load_line_replay[OF assms])

definition sample_acc :: load_acc where
  "sample_acc = \<lparr>la_p = sample_tx, la_got_term = True, la_infos_ok = True, la_missing = False, la_fail = False,
     la_housekeep = False\<rparr>"

theorem record_round_trip_witness:
  "\<exists>s'. load_line sample_env (rec_line 1003 (RecStage XA_TX_STAGE_COMMITTING)) sample_acc sample_st =
      (sample_acc\<lparr>la_got_term := True, la_p := replay_rec (1003, RecStage XA_TX_STAGE_COMMITTING) sample_tx\<rparr>, s') \<and>
      only_ticks sample_st s'"
  using record_round_trip[OF sample_calm, of "RecStage XA_TX_STAGE_COMMITTING" 1003 sample_acc sample_st] sample_wf
  by (simp add: sample_acc_def c_long_def is_short_def)

text \<open>C21: the records of a damaged line are never taken over.  When the number behind the separator, as sscanf reads it with its
  sign, is not the checksum of the text before it, the line changes neither the entry nor the state of the process.  It is
  skipped when it holds a colon; a damaged line without any colon makes the load of the file fail.\<close>

theorem damaged_line_skipped:
  assumes "CHR 0x00 \<notin> set (txt @ rs)" "CR \<notin> set (txt @ rs)"
    and "LOG_RS_SEP \<notin> set txt" "tl_log_version (la_p acc) = LOG_VERSION_2"
    and "sscanf_lx rs \<noteq> log_crc txt"
  shows "load_line E (txt @ [LOG_RS_SEP] @ rs @ [NL]) acc s =
    (if CHR '':'' \<in> set (txt @ rs) then acc\<lparr>la_got_term := True\<rparr> else acc\<lparr>la_got_term := True, la_fail := True\<rparr>, s)"
proof (cases "CHR '':'' \<in> set (txt @ rs)")
  case True
  then show ?thesis using load_damaged[OF assms(1-3) True assms(4,5)] by simp
next
  case False
  then show ?thesis using load_no_colon[of "txt @ [LOG_RS_SEP] @ rs" E acc s] assms(1,2) by simp
qed

theorem damaged_line_skipped_witness:
  "load_line sample_env (''1000:S:50'' @ [LOG_RS_SEP] @ hex_pad 8 (log_crc ''1000:S:50'' + 1) @ [NL]) sample_acc sample_st =
     (sample_acc\<lparr>la_got_term := True\<rparr>, sample_st) \<and>
   load_line sample_env (''1000'' @ [LOG_RS_SEP] @ ''-1'' @ [NL]) sample_acc sample_st =
     (sample_acc\<lparr>la_got_term := True, la_fail := True\<rparr>, sample_st)"
proof -
  have "CHR 0x00 \<notin> set (hex_pad 8 n)" for n using hex_pad_hex[of 8 n] by (auto simp: is_hex_def)
  moreover have "sscanf_lx ''-1'' = ULONG_MAX" by code_simp
  then have "sscanf_lx ''-1'' \<noteq> log_crc ''1000''" using log_crc_32[of "''1000''"] by simp
  ultimately show ?thesis
    using damaged_line_skipped[of "''1000:S:50''" "hex_pad 8 (log_crc ''1000:S:50'' + 1)" sample_acc sample_env sample_st]
      damaged_line_skipped[of "''1000''" "''-1''" sample_acc sample_env sample_st]
    by (simp add: sample_acc_def)
qed

section \<open>Two defects\<close>



text \<open>C38: the mark that a broken log may be removed is not consulted.  The disk check removes the file of a
  transaction that could not be loaded as soon as it is old enough, also when the load had not
  marked it for housekeeping.\<close>

theorem broken_log_removed:
  assumes "e_scandir E (st_tick s) = Some [tranmask E @ xid]"
    and "ndrx_tms_file_registry_get (bg_broken b) xid = Some reg" "\<not> fr_housekeepable reg"
    and "\<not> tms_log_exists_entry xid s" "st_disk s f \<noteq> None" "f = take 4096 (e_tlog_dir E @ ''/'' @ tranmask E @ xid)"
    and "e_file_age E (st_tick s + 1) > e_housekeeptime E" "\<not> e_lockloss E" "e_unlink E (st_tick s + 1)"
  shows "\<exists>b' s'. background_chkdisk E b s = (EXSUCCEED, b', s') \<and> st_disk s' f = None"
  using assms by (simp add: background_chkdisk_def is_tranfile_def tms_housekeep_def tms_log_exists_entry_def hash_find_def)

definition sample_broken :: bg_st where
  "sample_broken = \<lparr>bg_attempts = [], bg_broken = [\<lparr>fr_tmxid = ''OLD'', fr_attempts = 3, fr_housekeepable = False\<rparr>]\<rparr>"

theorem broken_log_removed_witness:
  "\<exists>b' s'. background_chkdisk sample_env sample_broken
       (sample_st\<lparr>st_disk := [''/tl/TRN-1-1-10-OLD'' \<mapsto> ''x'']\<rparr>) = (EXSUCCEED, b', s') \<and>
     st_disk s' ''/tl/TRN-1-1-10-OLD'' = None"
proof -
  have m: "tranmask sample_env = ''TRN-1-1-10-''" by code_simp
  have e: "e_scandir sample_env t = Some [''TRN-1-1-10-OLD'']" "e_tlog_dir sample_env = ''/tl''"
      "e_file_age sample_env t = 10" "e_housekeeptime sample_env = 5" "e_unlink sample_env t" for t
    by (simp_all add: sample_env_def)
  show ?thesis
    by (rule broken_log_removed[of _ _ "''OLD''" _ "\<lparr>fr_tmxid = ''OLD'', fr_attempts = 3, fr_housekeepable = False\<rparr>"])
      (simp_all add: m e sample_broken_def ndrx_tms_file_registry_get_def ex_find_def
        tms_log_exists_entry_def hash_find_def)
qed

end
