(* ===== verification/Tm_Records.thy ===== *)
theory Tm_Records
  imports Tm_Restart
begin

text \<open>
  The records the transaction manager writes.  On a disk without write errors, every line
  that a stage switch, a branch status and a round of the driver append to the log is the line of
  a good record; the lemmas say which stages these records can have, and when they are
  followed by a synchronisation.
\<close>

section \<open>The lines a run writes\<close>

text \<open>A disk without write errors, and numbers that fit the fields they are printed from.\<close>

definition disk_ok :: "tm_env \<Rightarrow> bool" where
  "disk_ok E \<longleftrightarrow> (\<forall>t. e_fprintf E t \<and> e_fflush E t \<and> c_long (e_clock E t)) \<and> \<not> e_lockloss E \<and>
     e_commit_crash E = 0 \<and> (\<forall>t op rmid btid. c_long (snd (snd (e_xa E t op rmid btid))))"

fun lines_in :: "string \<Rightarrow> tm_event list \<Rightarrow> string list" where
  "lines_in f [] = []"
| "lines_in f (EvWrite g txt # evs) = (if g = f then txt # lines_in f evs else lines_in f evs)"
| "lines_in f (ev # evs) = lines_in f evs"

lemma lines_in_append [simp]: "lines_in f (xs @ ys) = lines_in f xs @ lines_in f ys"
  by (induction f xs rule: lines_in.induct) auto

lemma written_lines: "written f evs = concat (lines_in f evs)"
  by (induction f evs rule: lines_in.induct) auto

lemma lines_in_take: "lines_in f (take m evs) = take (length (lines_in f (take m evs))) (lines_in f evs)"
  by (metis append_eq_conv_conj append_take_drop_id lines_in_append)

text \<open>Between two states the trace grows by the lines of good records, with stages out of a set.\<close>

definition rec_step :: "string \<Rightarrow> int set \<Rightarrow> tm_st \<Rightarrow> tm_st \<Rightarrow> bool" where
  "rec_step f S s s' \<longleftrightarrow> st_write_fail s' = st_write_fail s \<and>
     (\<exists>evs recs. st_trace s' = st_trace s @ evs \<and> lines_in f evs = lines_of recs \<and> recs_ok recs \<and>
        set (rec_stages recs) \<subseteq> S)"

lemma recs_ok_append [simp]: "recs_ok (xs @ ys) \<longleftrightarrow> recs_ok xs \<and> recs_ok ys"
  by (auto simp: recs_ok_def)

lemma recs_ok_Nil [simp]: "recs_ok []"
  by (simp add: recs_ok_def)

lemma lines_of_append [simp]: "lines_of (xs @ ys) = lines_of xs @ lines_of ys" "lines_of [] = []"
  by (simp_all add: lines_of_def)

lemma rec_stages_append [simp]: "rec_stages (xs @ ys) = rec_stages xs @ rec_stages ys" "rec_stages [] = []"
  by (simp_all add: rec_stages_def)

lemma rec_step_refl [simp, intro]: "rec_step f S s s"
  by (auto simp: rec_step_def intro: exI[of _ "[]"])

lemma rec_step_trans:
  assumes "rec_step f S s1 s2" "rec_step f S s2 s3"
  shows "rec_step f S s1 s3"
proof -
  obtain e1 r1 e2 r2 where
    "st_trace s2 = st_trace s1 @ e1" "lines_in f e1 = lines_of r1" "recs_ok r1" "set (rec_stages r1) \<subseteq> S"
    "st_trace s3 = st_trace s2 @ e2" "lines_in f e2 = lines_of r2" "recs_ok r2" "set (rec_stages r2) \<subseteq> S"
    "st_write_fail s2 = st_write_fail s1" "st_write_fail s3 = st_write_fail s2"
    using assms by (auto simp: rec_step_def)
  then show ?thesis unfolding rec_step_def
    by (intro conjI exI[of _ "e1 @ e2"] exI[of _ "r1 @ r2"]) auto
qed

lemma rec_step_mono: "rec_step f S s s' \<Longrightarrow> S \<subseteq> T \<Longrightarrow> rec_step f T s s'"
  unfolding rec_step_def by (meson subset_trans)

lemma rec_step_tick [simp]: "rec_step f S s (tick s') \<longleftrightarrow> rec_step f S s s'"
  by (simp add: rec_step_def)

lemma rec_step_same: "st_trace s' = st_trace s \<Longrightarrow> st_write_fail s' = st_write_fail s \<Longrightarrow> rec_step f S s s'"
  by (auto simp: rec_step_def intro: exI[of _ "[]"])

lemma rec_step_sync: "rec_step f S s s' \<Longrightarrow> rec_step f S s (emit (EvSync g ops) s')"
  unfolding rec_step_def by (elim conjE exE, intro conjI, simp)
    (rule_tac x = "evs @ [EvSync g ops]" in exI, rule_tac x = recs in exI, simp)

lemma write_line_rec:
  assumes "disk_ok E" "st_write_fail s = 0" "tl_log_version p = LOG_VERSION_2" "rec_ok r" "\<not> is_info r"
    and "tms_log_write_line E p (rec_cmd r) (rec_msg r) s = (ret, s')"
  shows "rec_step (tl_fname p) (set (rec_stages [(0, r)])) s s' \<and> st_tperrno s' = st_tperrno s"
proof (cases "e_tid E = tl_lockthreadid p \<and> tl_f p")
  case True
  let ?ts = "e_clock E (st_tick s)"
  obtain line exp where l: "log_line LOG_VERSION_2 False (log_text ?ts (rec_cmd r) (rec_msg r)) = (line, exp)"
    by (meson surj_pair)
  have "s' = tick (disk_append (tl_fname p) line s)"
    using assms(1-3,6) True l
    by (auto simp: tms_log_write_line_def log_output_def disk_ok_def Let_def split: if_splits)
  moreover have "line = rec_line ?ts r" using l by (simp add: rec_line_def)
  moreover have "c_long ?ts" using assms(1) by (simp add: disk_ok_def)
  ultimately show ?thesis unfolding rec_step_def using assms(4,5)
    by (intro conjI exI[of _ "[EvWrite (tl_fname p) (rec_line ?ts r)]"] exI[of _ "[(?ts, r)]"])
      (auto simp: lines_of_def recs_ok_def rec_stages_def)
qed (use assms(6) in \<open>auto simp: tms_log_write_line_def split: if_splits\<close>)


lemma checkpoint_keeps:
  "ores (\<lambda>_ s'. st_trace s' = st_trace s \<and> st_write_fail s' = st_write_fail s \<and> st_tperrno s' = st_tperrno s)
     (\<lambda>s'. st_trace s' = st_trace s \<and> st_write_fail s' = st_write_fail s \<and> st_tperrno s' = st_tperrno s) (tms_log_checkpointseq E p s)"
  by (auto simp: tms_log_checkpointseq_def Let_def split: prod.splits option.splits)

lemma stage_lines_rec:
  assumes "disk_ok E" "st_write_fail s = 0" "tl_log_version p = LOG_VERSION_2" "is_short stage"
    and "log_stage_lines E p stage n s = (ret, s')"
  shows "rec_step (tl_fname p) {stage} s s' \<and> st_tperrno s' = st_tperrno s"
  using assms(2,5)
proof (induction n arbitrary: s)
  case (Suc n)
  obtain ret1 s1 where w: "tms_log_write_line E p LOG_COMMAND_STAGE (fmt_d stage) s = (ret1, s1)"
    by (meson surj_pair)
  have st: "rec_step (tl_fname p) {stage} s s1" "st_tperrno s1 = st_tperrno s"
    using write_line_rec[OF assms(1) Suc.prems(1) assms(3), of "RecStage stage" ret1 s1] w assms(4)
    by (auto simp: rec_stages_def)
  show ?case
  proof (cases "ret1 = EXSUCCEED")
    case True
    then have "log_stage_lines E p stage n s1 = (ret, s')" using Suc.prems(2) w by simp
    moreover have "st_write_fail s1 = 0" using st(1) Suc.prems(1) by (simp add: rec_step_def)
    ultimately show ?thesis using Suc.IH[of s1] st rec_step_trans by fastforce
  qed (use Suc.prems(2) w st in auto)
qed simp

lemma sync_rec: "log_sync E p s = (ret, s') \<Longrightarrow> rec_step f S s s' \<and> st_tperrno s' = st_tperrno s"
  by (auto simp: log_sync_def intro!: rec_step_sync split: if_splits prod.splits)


definition stage_rec :: "string \<Rightarrow> int \<Rightarrow> tm_st \<Rightarrow> tm_st \<Rightarrow> bool" where
  "stage_rec f stage s s' \<longleftrightarrow> rec_step f {stage} s s' \<and> st_tperrno s' = st_tperrno s"

lemma stage_rec_trans: "stage_rec f st s1 s2 \<Longrightarrow> stage_rec f st s2 s3 \<Longrightarrow> stage_rec f st s1 s3"
  by (auto simp: stage_rec_def intro: rec_step_trans)

lemma stage_rec_refl [simp, intro]: "stage_rec f st s s"
  by (simp add: stage_rec_def)

lemma checkpoint_rec:
  "ores (\<lambda>(ret, po) s'. (\<exists>p'. po = Some p' \<and> seq_only p p') \<and> stage_rec f st s s') (stage_rec f st s)
     (tms_log_checkpointseq E (Some p) s)"
  using checkpoint_ores[where E = E and p = p and s = s] checkpoint_keeps[where E = E and p = "Some p" and s = s]
  by (cases "tms_log_checkpointseq E (Some p) s") (auto simp: stage_rec_def intro: rec_step_same)

lemma stage_write_rec:
  assumes "disk_ok E" "st_write_fail s = 0" "tl_log_version p = LOG_VERSION_2" "is_short stage"
  shows "ores (\<lambda>_. stage_rec (tl_fname p) stage s) (stage_rec (tl_fname p) stage s) (log_stage_write E p stage s)"
proof -
  have first: "ores (\<lambda>(ret, po) s'. (\<exists>p'. po = Some p' \<and> seq_only p p') \<and> stage_rec (tl_fname p) stage s s')
     (stage_rec (tl_fname p) stage s)
     (if stage = XA_TX_STAGE_COMMITTING then tms_log_checkpointseq E (Some p) s else Ret (EXSUCCEED, Some p) s)"
    using checkpoint_rec by simp
  show ?thesis
    unfolding log_stage_write_def ores_andthen
  proof (rule ores_mono[OF first], goal_cases)
    case (1 a s2)
    obtain ret p2 where a: "a = (ret, Some p2)" "seq_only p p2" and st2: "stage_rec (tl_fname p) stage s s2"
      using 1 by (cases a) auto
    have p2: "tl_fname p2 = tl_fname p" "tl_log_version p2 = LOG_VERSION_2"
      using seq_only_fields[OF a(2)] assms(3) by auto
    have wf2: "st_write_fail s2 = 0" using st2 assms(2) by (simp add: stage_rec_def rec_step_def)
    obtain ret3 s3 where l: "log_stage_lines E p2 stage (if stage = XA_TX_STAGE_ABORTING then 3 else 1) s2 = (ret3, s3)"
      by (meson surj_pair)
    have st3: "stage_rec (tl_fname p) stage s s3"
      using stage_lines_rec[OF assms(1) wf2 p2(2) assms(4) l] stage_rec_trans[OF st2] p2 by (simp add: stage_rec_def)
    obtain ret4 s4 where y: "log_sync E p2 s3 = (ret4, s4)" by (meson surj_pair)
    have st4: "stage_rec (tl_fname p) stage s s4"
      by (rule stage_rec_trans[OF st3]) (use sync_rec[OF y] in \<open>simp add: stage_rec_def\<close>)
    have "ores (\<lambda>_. stage_rec (tl_fname p) stage s) (stage_rec (tl_fname p) stage s)
        (andthen (tms_log_checkpointseq E (Some p2) s4)
                   (\<lambda>(ret, po) s5. Ret (if ret \<noteq> EXSUCCEED then EXFAIL else EXSUCCEED, the po) s5))"
      unfolding ores_andthen
      by (rule ores_mono[OF checkpoint_rec[of p2 "tl_fname p" stage]]) (use stage_rec_trans[OF st4] in auto)
    then show ?case using a l y st2 st3 st4 by (auto simp: Let_def simp del: ores_andthen)
  qed auto
qed

lemma log_stage_rec:
  assumes "disk_ok E" "st_write_fail s = 0" "tl_log_version p = LOG_VERSION_2" "is_short stage"
  shows "ores (\<lambda>_. stage_rec (tl_fname p) stage s) (stage_rec (tl_fname p) stage s) (tms_log_stage E p stage forced s)"
proof -
  have nc: "e_commit_crash E = 0" using assms(1) by (simp add: disk_ok_def)
  have w: "ores (\<lambda>_. stage_rec (tl_fname p) stage s) (stage_rec (tl_fname p) stage s)
      (log_stage_write E (p\<lparr>tl_txstage := stage\<rparr>) stage s)"
    using stage_write_rec[OF assms(1,2), of "p\<lparr>tl_txstage := stage\<rparr>" stage] assms(3,4) by simp
  show ?thesis
  proof (cases "e_tid E \<noteq> tl_lockthreadid p \<or> tl_txstage p = stage")
    case False
    have "tms_log_stage E p stage forced s = andthen (log_stage_write E (p\<lparr>tl_txstage := stage\<rparr>) stage s)
          (\<lambda>(ret, p2) s2. if forced then Ret (EXSUCCEED, p2) s2
            else if ret \<noteq> EXSUCCEED \<and> tl_txstage p \<noteq> EXFAIL
            then Ret (ret, p2\<lparr>tl_txstage := tl_txstage p\<rparr>) s2 else Ret (ret, p2) s2)"
      using False nc by (cases "stage > 0") (auto simp: tms_log_stage_def Let_def)
    then show ?thesis unfolding ores_andthen by (simp add: ores_andthen) (rule ores_mono[OF w], auto)
  qed (auto simp: tms_log_stage_def)
qed


text \<open>A decision that was logged without force: its lines, then the synchronisation.\<close>

lemma stage_lines_ok:
  assumes "disk_ok E" "st_write_fail s = 0" "tl_log_version p = LOG_VERSION_2" "is_short stage" "tl_f p"
    and "log_stage_lines E p stage n s = (EXSUCCEED, s')"
  shows "\<exists>evs recs. st_trace s' = st_trace s @ evs \<and> lines_in (tl_fname p) evs = lines_of recs \<and> recs_ok recs \<and>
     rec_stages recs = replicate n stage"
  using assms(2,6)
proof (induction n arbitrary: s)
  case (Suc n)
  obtain ret1 s1 where w: "tms_log_write_line E p LOG_COMMAND_STAGE (fmt_d stage) s = (ret1, s1)"
    by (meson surj_pair)
  then have ok: "ret1 = EXSUCCEED" and rest: "log_stage_lines E p stage n s1 = (EXSUCCEED, s')"
    using Suc.prems(2) by (auto split: if_splits)
  let ?ts = "e_clock E (st_tick s)"
  have s1: "st_trace s1 = st_trace s @ [EvWrite (tl_fname p) (rec_line ?ts (RecStage stage))]" "st_write_fail s1 = 0"
    using w ok assms(1,3,5) Suc.prems(1)
    by (auto simp: tms_log_write_line_def log_output_def disk_ok_def rec_line_def Let_def split: if_splits prod.splits)
  obtain evs recs where "st_trace s' = st_trace s1 @ evs" "lines_in (tl_fname p) evs = lines_of recs" "recs_ok recs"
      "rec_stages recs = replicate n stage"
    using Suc.IH[OF s1(2) rest] by blast
  moreover have "c_long ?ts" using assms(1) by (simp add: disk_ok_def)
  ultimately show ?case using s1(1) assms(4)
    by (intro exI[of _ "EvWrite (tl_fname p) (rec_line ?ts (RecStage stage)) # evs"]
        exI[of _ "(?ts, RecStage stage) # recs"])
      (auto simp: lines_of_def recs_ok_def rec_stages_def)
qed (auto intro: exI[of _ "[]"])

definition decided :: "string \<Rightarrow> fs_op list \<Rightarrow> int \<Rightarrow> tm_st \<Rightarrow> tm_st \<Rightarrow> bool" where
  "decided f ops stage s s' \<longleftrightarrow> (\<exists>evs recs n. st_trace s' = st_trace s @ evs @ [EvSync f ops] \<and>
     lines_in f evs = lines_of recs \<and> recs_ok recs \<and> rec_stages recs = replicate (Suc n) stage)"

lemma stage_write_decided:
  assumes "disk_ok E" "st_write_fail s = 0" "tl_log_version p = LOG_VERSION_2"
    and stage: "stage = XA_TX_STAGE_COMMITTING \<or> stage = XA_TX_STAGE_ABORTING"
    and run: "log_stage_write E p stage s = Ret (EXSUCCEED, p') s'"
  shows "decided (tl_fname p) (sync_ops (e_fsync_flags E)) stage s s'"
proof -
  let ?n = "if stage = XA_TX_STAGE_ABORTING then 3 else 1 :: nat"
  obtain r2 s2 where first: "(if stage = XA_TX_STAGE_COMMITTING then tms_log_checkpointseq E (Some p) s
      else Ret (EXSUCCEED, Some p) s) = Ret r2 s2"
    using run by (cases "if stage = XA_TX_STAGE_COMMITTING then tms_log_checkpointseq E (Some p) s
      else Ret (EXSUCCEED, Some p) s") (auto simp: log_stage_write_def)
  have "(case r2 of (ret, po) \<Rightarrow> \<exists>p'. po = Some p' \<and> seq_only p p') \<and> stage_rec (tl_fname p) stage s s2"
    using first checkpoint_rec[of p "tl_fname p" stage s E] by (cases r2) (auto split: if_splits)
  then obtain ret2 p2 where r2: "r2 = (ret2, Some p2)" "seq_only p p2" and t2: "st_trace s2 = st_trace s"
      "st_write_fail s2 = 0"
    using first checkpoint_trace[of E "Some p" s r2 s2] assms(2) by (cases r2) (auto split: if_splits)
  have eq: "log_stage_write E p stage s = (if ret2 \<noteq> EXSUCCEED then Ret (EXFAIL, p2) s2
      else case log_stage_lines E p2 stage ?n s2 of
        (ret, s3) \<Rightarrow> if ret \<noteq> EXSUCCEED then Ret (EXFAIL, p2) s3
          else (case log_sync E p2 s3 of (ret, s4) \<Rightarrow>
                 if ret \<noteq> EXSUCCEED then Ret (EXFAIL, p2) s4
                 else andthen (tms_log_checkpointseq E (Some p2) s4)
                   (\<lambda>(ret, po) s5. Ret (if ret \<noteq> EXSUCCEED then EXFAIL else EXSUCCEED, the po) s5)))"
    unfolding log_stage_write_def first r2(1) if_P[OF stage] by simp
  obtain s3 where l: "log_stage_lines E p2 stage ?n s2 = (EXSUCCEED, s3)"
    using run unfolding eq by (auto split: if_splits prod.splits)
  obtain s4 where y: "log_sync E p2 s3 = (EXSUCCEED, s4)"
    using run unfolding eq l by (auto split: if_splits prod.splits)
  have "\<exists>r. tms_log_checkpointseq E (Some p2) s4 = Ret r s'"
    using run y unfolding eq l by (auto split: if_splits simp: andthen_Ret_iff)
  then have t4: "st_trace s' = st_trace s3 @ [EvSync (tl_fname p) (sync_ops (e_fsync_flags E))]" "tl_f p2"
    using checkpoint_trace[of E "Some p2" s4] sync_ok[OF y] seq_only_fields[OF r2(2)] by auto
  have "is_short stage" using stage by (auto simp: is_short_def)
  have "tl_log_version p2 = LOG_VERSION_2" and f2: "tl_fname p2 = tl_fname p"
    using assms(3) seq_only_fields[OF r2(2)] by auto
  from stage_lines_ok[OF assms(1) t2(2) this(1) \<open>is_short stage\<close> t4(2) l] obtain evs recs where
      "st_trace s3 = st_trace s2 @ evs" "lines_in (tl_fname p) evs = lines_of recs" "recs_ok recs" "rec_stages recs = replicate ?n stage"
    unfolding f2 by blast
  moreover have "?n = Suc (if stage = XA_TX_STAGE_ABORTING then 2 else 0)" by simp
  ultimately show ?thesis using t4(1) t2(1) unfolding decided_def
    by (intro exI[of _ evs] exI[of _ recs] exI[of _ "if stage = XA_TX_STAGE_ABORTING then 2 else 0"]) auto
qed

lemma log_stage_decided:
  assumes "disk_ok E" "st_write_fail s = 0" "tl_log_version p = LOG_VERSION_2"
    and "stage = XA_TX_STAGE_COMMITTING \<or> stage = XA_TX_STAGE_ABORTING" "tl_txstage p \<noteq> stage"
    and "tms_log_stage E p stage False s = Ret (EXSUCCEED, p') s'"
  shows "decided (tl_fname p) (sync_ops (e_fsync_flags E)) stage s s'"
proof -
  have nc: "e_commit_crash E = 0" using assms(1) by (simp add: disk_ok_def)
  obtain p1 where "log_stage_write E (p\<lparr>tl_txstage := stage\<rparr>) stage s = Ret (EXSUCCEED, p1) s'"
    using assms(5,6) assms(4) nc by (auto simp: tms_log_stage_def Let_def andthen_Ret_iff split: if_splits)
  from stage_write_decided[OF assms(1,2) _ assms(4) this] show ?thesis using assms(3) by simp
qed


section \<open>The pass over the branches writes branch records only\<close>

definition tl_fits :: "xa_log \<Rightarrow> bool" where
  "tl_fits p \<longleftrightarrow> tl_wf p \<and> (\<forall>r \<in> set (tl_rmstatus p). tidcounter r \<le> LONG_MAX)"

lemma tl_fits_branch:
  assumes "tl_fits p" "rmid_ok rmid" "tms_btid_find p rmid k = Some b"
  shows "bt_rmid b = rmid \<and> 0 \<le> bt_btid b \<and> bt_btid b < LONG_MAX"
proof -
  have wf: "rm_wf rmid (rm_at p rmid)" using assms tl_wf_rm_at by (auto simp: tl_fits_def)
  have "b \<in> set (btid_hash (rm_at p rmid))" using tms_btid_find_Some[OF assms(3)] by simp
  then have b: "bt_rmid b = rmid" "0 \<le> bt_btid b" "bt_btid b < tidcounter (rm_at p rmid)"
    using wf by (auto simp: rm_wf_def)
  have "rm_at p rmid \<in> set (tl_rmstatus p)"
    using assms(1,2) by (auto simp: tl_fits_def tl_wf_def rm_at_def rmid_ok_def intro!: nth_mem)
  then have "tidcounter (rm_at p rmid) \<le> LONG_MAX" using assms(1) by (simp add: tl_fits_def)
  then show ?thesis using b by simp
qed

lemma tl_fits_put:
  assumes "tl_fits p" "rmid_ok rmid" "tms_btid_find p rmid (bt_btid el) = Some b" "bt_rmid el = rmid"
  shows "tl_fits (bt_put p rmid el)"
proof -
  have "tidcounter (rm_at p rmid) \<le> LONG_MAX"
    using assms(1,2) by (auto simp: tl_fits_def tl_wf_def rm_at_def rmid_ok_def intro!: nth_mem)
  then have "\<forall>r \<in> set (tl_rmstatus (bt_put p rmid el)). tidcounter r \<le> LONG_MAX"
    using assms(1) set_update_subset_insert by (fastforce simp: tl_fits_def bt_put_def rm_set_def)
  then show ?thesis using tl_wf_bt_put[of p rmid el b] assms by (simp add: tl_fits_def)
qed

lemma rmstatus_rec:
  assumes "disk_ok E" "st_write_fail s = 0" "tl_log_version p = LOG_VERSION_2" "tl_fits p" "rmid_ok rmid"
    and "tms_btid_find p rmid k = Some el" "st \<notin> {CHR 0x00, NL, CR, CHR '':'', LOG_RS_SEP}" "c_long ec"
    and "tms_log_rmstatus E p rmid el st ec rs s = (ret, p', s')"
  shows "rec_step (tl_fname p) {} s s' \<and> st_tperrno s' = st_tperrno s \<and> tl_fits p'"
proof (cases "e_tid E = tl_lockthreadid p")
  case True
  note b = tl_fits_branch[OF assms(4-6)]
  have k: "bt_btid el = k" using tms_btid_find_Some[OF assms(6)] by simp
  let ?el = "el\<lparr>bt_rmstatus := st, bt_rmerrorcode := ec, bt_rmreason := to_short rs\<rparr>"
  let ?r = "RecRm rmid st ec (to_short rs) (bt_btid el)"
  have fits: "tl_fits (bt_put p rmid ?el)" using tl_fits_put[OF assms(4,5), of ?el el] assms(6) b k by simp
  have v: "tl_log_version (bt_put p rmid ?el) = LOG_VERSION_2" "tl_fname (bt_put p rmid ?el) = tl_fname p"
    using assms(3) by (simp_all add: bt_put_def)
  have r: "rec_ok ?r" "\<not> is_info ?r" using assms(5,7,8) b by auto
  have [simp]: "rec_stages [(0, ?r)] = []" by (simp add: rec_stages_def)
  note wl = write_line_rec[OF assms(1,2) v(1) r]
  show ?thesis
  proof (cases "bt_rmstatus el = st")
    case True
    then show ?thesis using assms(9) \<open>e_tid E = tl_lockthreadid p\<close> fits by (auto simp: tms_log_rmstatus_def Let_def)
  next
    case False
    obtain ret1 s1 where w: "tms_log_write_line E (bt_put p rmid ?el) (rec_cmd ?r) (rec_msg ?r) s = (ret1, s1)"
      by (meson surj_pair)
    have "p' = bt_put p rmid ?el \<and> s' = s1"
      using assms(9) True False w b by (auto simp: tms_log_rmstatus_def Let_def)
    then show ?thesis using wl[OF w] v fits by simp
  qed
qed (use assms(4,9) in \<open>auto simp: tms_log_rmstatus_def\<close>)

lemma table_chars:
  assumes "xa_status_get_next_by_op st x op rc = Some r"
  shows "d_next_rmstatus r \<notin> {CHR 0x00, NL, CR, CHR '':'', LOG_RS_SEP}"
proof -
  have rows: "list_all (\<lambda>r. d_next_rmstatus r \<notin> {CHR 0x00, NL, CR, CHR '':'', LOG_RS_SEP})
    (M_rm_status_driver_preparing @ M_rm_status_driver_committing @ M_rm_status_driver_comforgetting @
     M_rm_status_driver_aborting @ M_rm_status_driver_abforgetting)" by code_simp
  obtain tab where tab: "op_table_switch st = Some tab" "r \<in> set tab"
    using next_by_op_in_table[OF assms] by blast
  have "set tab \<subseteq> set (M_rm_status_driver_preparing @ M_rm_status_driver_committing @ M_rm_status_driver_comforgetting @
     M_rm_status_driver_aborting @ M_rm_status_driver_abforgetting)"
    using tab(1) unfolding op_table_switch_def by (simp split: if_splits) auto
  then show ?thesis using rows tab(2) unfolding list_all_iff by blast
qed


text \<open>What the pass keeps: the records so far, the error code to print, the entry.\<close>

definition pass_rec :: "xa_log \<Rightarrow> tm_st \<Rightarrow> drive_acc \<Rightarrow> tm_st \<Rightarrow> bool" where
  "pass_rec p0 s0 acc s \<longleftrightarrow> same_entry p0 (da_p acc) \<and> tl_fits (da_p acc) \<and>
     rec_step (tl_fname p0) {} s0 s \<and> c_long (st_tperrno s)"

lemma drive_vote_rec:
  "pass_rec p0 s0 acc s \<Longrightarrow> drive_vote E descr el v acc s = (acc', s') \<Longrightarrow> pass_rec p0 s0 acc' s'"
  by (auto simp: drive_vote_def pass_rec_def Let_def split: if_splits)

lemma drive_op_rec:
  assumes "disk_ok E" "drive_op E op rmid btid s = Some (reason, s1)" "c_long (st_tperrno s)"
  shows "rec_step f {} s s1 \<and> c_long (st_tperrno s1)"
proof -
  have "rec_step f {} s (snd (rm_call E op rmid btid s))"
    by (auto simp: rm_call_def rec_step_def intro!: exI[of _ "[EvXa op rmid btid]"] exI[of _ "[]"] split: prod.splits)
  moreover have "c_long (st_tperrno (snd (rm_call E op rmid btid s)))"
    using assms(1) by (auto simp: rm_call_def disk_ok_def split: prod.splits) (metis snd_conv)
  ultimately show ?thesis using drive_op_cases[OF assms(2)] assms(3) by auto
qed

lemma drive_branch_rec:
  assumes E: "disk_ok E" and p0: "tl_log_version p0 = LOG_VERSION_2" "st_write_fail s0 = 0"
    and ok: "pass_rec p0 s0 acc s" and b: "rmid_ok rmid" "tms_btid_find (da_p acc) rmid k = Some el"
    and run: "drive_branch E descr rmid el acc s = (acc', s')"
  shows "pass_rec p0 s0 acc' s'"
proof -
  let ?st = "tl_txstage (da_p acc)" and ?f = "tl_fname p0"
  let ?op = "xa_status_get_op ?st (bt_rmstatus el)"
  have same: "same_entry p0 (da_p acc)" and fits: "tl_fits (da_p acc)" and rs: "rec_step ?f {} s0 s"
    and tp: "c_long (st_tperrno s)" using ok by (auto simp: pass_rec_def)
  have fl: "tl_log_version (da_p acc) = LOG_VERSION_2" "tl_fname (da_p acc) = ?f"
    using same_entry_fields[OF same] p0 by auto
  show ?thesis
  proof (cases "drive_op E ?op rmid (bt_btid el) s")
    case None
    then show ?thesis using run ok by (auto simp: drive_branch_def pass_rec_def Let_def)
  next
    case (Some z)
    obtain reason s1 where z: "z = (reason, s1)" by (cases z)
    define acc1 where "acc1 = (if ?st \<noteq> XA_TX_STAGE_PREPARING \<and> (reason = XA_RETRY \<or> reason = XAER_RMFAIL)
                     then acc\<lparr>da_retry := True\<rparr> else acc)"
    have da: "da_p acc1 = da_p acc" by (simp add: acc1_def)
    have op: "rec_step ?f {} s s1" "c_long (st_tperrno s1)" using drive_op_rec[OF E Some[unfolded z] tp] by auto
    have r1: "rec_step ?f {} s0 s1" using rec_step_trans[OF rs op(1)] .
    then have wf1: "st_write_fail s1 = 0" using p0 by (simp add: rec_step_def)
    have ok1: "pass_rec p0 s0 acc1 s1" using ok r1 op(2) da by (simp add: pass_rec_def)
    show ?thesis
    proof (cases "?op = XA_OP_NOP")
      case True
      then show ?thesis using run Some z ok1 drive_vote_rec[OF ok1]
        by (auto simp: drive_branch_def Let_def acc1_def split: option.splits)
    next
      case False
      show ?thesis
      proof (cases "xa_status_get_next_by_op ?st (bt_rmstatus el) ?op reason")
        case None
        then show ?thesis using run Some z ok1 False by (auto simp: drive_branch_def Let_def acc1_def pass_rec_def)
      next
        case (Some r)
        obtain ret p1 s2 where lg: "tms_log_rmstatus E (da_p acc) rmid el (d_next_rmstatus r) (st_tperrno s1) reason s1 = (ret, p1, s2)"
          by (metis prod_cases3)
        note rc = rmstatus_rec[OF E wf1 fl(1) fits b table_chars[OF Some] op(2) lg]
        have e: "same_entry (da_p acc) p1"
          using log_rmstatus_entry[of "da_p acc" E rmid el "d_next_rmstatus r" "st_tperrno s1" reason s1] lg by simp
        have ok2: "pass_rec p0 s0 (acc1\<lparr>da_p := p1\<rparr>) s2"
          using rc fl(2) rec_step_trans[OF r1] same_entry_trans[OF same e] op(2) by (simp add: pass_rec_def)
        show ?thesis
          using run \<open>drive_op E ?op rmid (bt_btid el) s = Some z\<close> z lg Some False drive_vote_rec[OF ok2]
          by (simp add: drive_branch_def Let_def acc1_def)
      qed
    qed
  qed
qed

lemma drive_branches_rec:
  assumes "disk_ok E" "tl_log_version p0 = LOG_VERSION_2" "st_write_fail s0 = 0"
    and "pass_rec p0 s0 acc s" "\<forall>(rmid, btid) \<in> set ks. rmid_ok rmid"
    and "drive_branches E descr ks acc s = (acc', s')"
  shows "pass_rec p0 s0 acc' s'"
  using assms(4-6)
proof (induction ks arbitrary: acc s)
  case (Cons k ks)
  obtain rmid btid where k: "k = (rmid, btid)" by (cases k)
  show ?case
  proof (cases "tms_btid_find (da_p acc) rmid btid")
    case None
    then show ?thesis using Cons.IH[OF Cons.prems(1)] Cons.prems(2,3) k by simp
  next
    case (Some el)
    obtain acc1 s1 where br: "drive_branch E descr rmid el acc s = (acc1, s1)" by (meson surj_pair)
    have "pass_rec p0 s0 acc1 s1"
      using drive_branch_rec[OF assms(1-3) Cons.prems(1) _ Some br] Cons.prems(2) k by simp
    then show ?thesis using Cons.IH[of acc1 s1] Cons.prems(2,3) k Some br by (auto split: if_splits)
  qed
qed simp


section \<open>The switch and the round\<close>

definition side_step :: "tm_env \<Rightarrow> string \<Rightarrow> int \<Rightarrow> xa_log \<Rightarrow> tm_st \<Rightarrow> tm_st \<Rightarrow> bool" where
  "side_step E f st p' s s' \<longleftrightarrow>
     tl_txstage p' = st \<and> rec_step f {} s s' \<or>
     tl_txstage p' \<noteq> st \<and> tl_txstage p' \<noteq> XA_TX_STAGE_COMMITTING \<and> rec_step f {tl_txstage p'} s s' \<or>
     tl_txstage p' \<noteq> st \<and> tl_txstage p' = XA_TX_STAGE_COMMITTING \<and>
       (\<exists>s1. rec_step f {} s s1 \<and> decided f (sync_ops (e_fsync_flags E)) XA_TX_STAGE_COMMITTING s1 s') \<or>
     tl_txstage p' = XA_TX_STAGE_ABORTING \<and> next_stage st XA_TX_STAGE_COMMITTING \<and>
       (\<exists>s1. rec_step f {XA_TX_STAGE_COMMITTING} s s1 \<and>
          decided f (sync_ops (e_fsync_flags E)) XA_TX_STAGE_ABORTING s1 s')"

definition end_step :: "string \<Rightarrow> int \<Rightarrow> tm_st \<Rightarrow> tm_st \<Rightarrow> bool" where
  "end_step f st s s' \<longleftrightarrow> (\<exists>new. next_stage st new \<and>
     (rec_step f {new} s s' \<or>
      new = XA_TX_STAGE_COMMITTING \<and> rec_step f {XA_TX_STAGE_COMMITTING, XA_TX_STAGE_ABORTING} s s'))"

lemma next_stage_short: "next_stage st st' \<Longrightarrow> is_short st'"
  using stage_votes_range[of st' st] descr_max_lt_never[of st]
  by (auto simp: next_stage_def is_short_def)

lemma tl_fits_seq: "tl_fits p \<Longrightarrow> seq_only (p\<lparr>tl_txstage := st\<rparr>) p' \<Longrightarrow> tl_fits p'"
  by (auto simp: tl_fits_def tl_wf_def seq_only_def)

text \<open>When the commit decision cannot be logged, an abort decision is logged instead, or the process ends.\<close>

lemma switch_abort_rec:
  assumes E: "disk_ok E" and p: "e_tid E = tl_lockthreadid p" "tl_txstage p \<noteq> EXFAIL" and next_c: "next_stage (tl_txstage p) XA_TX_STAGE_COMMITTING"
    and r1: "rec_step (tl_fname p) {XA_TX_STAGE_COMMITTING} s s1" "c_long (st_tperrno s1)" "st_write_fail s1 = 0"
    and f1: "tl_fname p1 = tl_fname p" "tl_log_version p1 = LOG_VERSION_2" "tl_lockthreadid p1 = tl_lockthreadid p" "tl_fits p1" "tl_txstage p1 = tl_txstage p"
  shows "ores (\<lambda>(sw, p') s'. side_step E (tl_fname p) (tl_txstage p) p' s s' \<and> tl_fits p' \<and> c_long (st_tperrno s'))
     (end_step (tl_fname p) (tl_txstage p) s) (andthen (tms_log_stage E p1 XA_TX_STAGE_ABORTING False s1)
       (\<lambda>(ret, p2) s2. if ret \<noteq> EXSUCCEED then Exit EXFAIL s2 else Ret (True, p2) s2))"
proof -
  have ab: "is_short XA_TX_STAGE_ABORTING" by (simp add: is_short_def)
  have nx: "tl_txstage p1 \<noteq> XA_TX_STAGE_ABORTING"
    using f1(5) next_c next_committing[of "tl_txstage p"] by (auto simp: next_stage_def)
  note rec2 = log_stage_rec[OF E r1(3) f1(2) ab, of False]
  have r12: "rec_step (tl_fname p) {XA_TX_STAGE_COMMITTING, XA_TX_STAGE_ABORTING} s s2"
    if "rec_step (tl_fname p) {XA_TX_STAGE_ABORTING} s1 s2" for s2
    using rec_step_trans[OF rec_step_mono[OF r1(1)] rec_step_mono[OF that]] by simp
  show ?thesis
  proof (cases "tms_log_stage E p1 XA_TX_STAGE_ABORTING False s1")
    case (Exit c s2)
    then show ?thesis using rec2 r12 next_c f1(1) by (auto simp: end_step_def stage_rec_def)
  next
    case (Ret b s2)
    obtain ret2 p2 where b: "b = (ret2, p2)" by (cases b)
    note run2 = Ret[unfolded b]
    have r2: "rec_step (tl_fname p) {XA_TX_STAGE_ABORTING} s1 s2" "st_tperrno s2 = st_tperrno s1"
      using ores_RetD[OF rec2 run2] f1(1) by (auto simp: stage_rec_def)
    show ?thesis
    proof (cases "ret2 = EXSUCCEED")
      case True
      have d: "decided (tl_fname p) (sync_ops (e_fsync_flags E)) XA_TX_STAGE_ABORTING s1 s2"
        using log_stage_decided[OF E r1(3) f1(2), of XA_TX_STAGE_ABORTING p2 s2] run2 True nx f1(1) by simp
      have q2: "seq_only (p1\<lparr>tl_txstage := XA_TX_STAGE_ABORTING\<rparr>) p2"
        using ores_RetD[OF log_stage_ores run2] f1(5) p(2) True f1(3) p(1) by auto
      have "side_step E (tl_fname p) (tl_txstage p) p2 s s2"
        unfolding side_step_def using d r1(1) next_c seq_only_fields[OF q2] by auto
      then show ?thesis using Ret b True tl_fits_seq[OF f1(4) q2] r2(2) r1(2) by simp
    next
      case False
      then show ?thesis using Ret b r12[OF r2(1)] next_c by (auto simp: end_step_def)
    qed
  qed
qed

lemma switch_rec:
  assumes E: "disk_ok E" and p: "tl_log_version p = LOG_VERSION_2" "st_write_fail s = 0" "tl_fits p"
      "e_tid E = tl_lockthreadid p" "tl_txstage p \<noteq> EXFAIL" "tl_txstage p = s_txstage descr"
      "c_long (st_tperrno s)"
    and new: "next_stage (tl_txstage p) new" "new \<noteq> XA_TX_STAGE_MAX_NEVER"
  shows "ores (\<lambda>(sw, p') s'. side_step E (tl_fname p) (tl_txstage p) p' s s' \<and> tl_fits p' \<and> c_long (st_tperrno s'))
     (end_step (tl_fname p) (tl_txstage p) s) (drive_switch E p descr new s)"
proof -
  have ne: "tl_txstage p \<noteq> new" using new by (auto simp: next_stage_def)
  have go: "new \<noteq> s_txstage descr \<and> new \<noteq> XA_TX_STAGE_MAX_NEVER" using ne p(6) new by simp
  have short: "is_short new" using next_stage_short[OF new(1)] .
  let ?first = "tms_log_stage E p new (new \<noteq> XA_TX_STAGE_COMMITTING) s"
  have eq: "drive_switch E p descr new s = andthen ?first
       (\<lambda>(ret, p1) s1.
         if ret \<noteq> EXSUCCEED
         then andthen (tms_log_stage E p1 XA_TX_STAGE_ABORTING False s1)
           (\<lambda>(ret, p2) s2. if ret \<noteq> EXSUCCEED then Exit EXFAIL s2 else Ret (True, p2) s2)
         else Ret (True, p1) s1)"
    unfolding drive_switch_def if_P[OF go] ..
  note rec1 = log_stage_rec[OF E p(2,1) short, of "new \<noteq> XA_TX_STAGE_COMMITTING"]
  show ?thesis
  proof (cases ?first)
    case (Exit c s1)
    then show ?thesis unfolding eq using rec1 new(1) by (auto simp: end_step_def stage_rec_def)
  next
    case (Ret a s1)
    obtain ret p1 where a: "a = (ret, p1)" by (cases a)
    note run1 = Ret[unfolded a]
    have r1: "rec_step (tl_fname p) {new} s s1" "st_tperrno s1 = st_tperrno s"
      using ores_RetD[OF rec1 run1] by (auto simp: stage_rec_def)
    have q1: "seq_only (p\<lparr>tl_txstage := if ret = EXSUCCEED then new else tl_txstage p\<rparr>) p1"
        "ret \<noteq> EXSUCCEED \<longrightarrow> new = XA_TX_STAGE_COMMITTING \<or> e_tid E \<noteq> tl_lockthreadid p1"
      using ores_RetD[OF first_log_ores[OF p(5) ne] run1] by auto
    have f1: "tl_fname p1 = tl_fname p" "tl_log_version p1 = LOG_VERSION_2" "tl_lockthreadid p1 = tl_lockthreadid p"
        "tl_fits p1" "tl_txstage p1 = (if ret = EXSUCCEED then new else tl_txstage p)"
      using seq_only_fields[OF q1(1)] p tl_fits_seq[OF p(3) q1(1)] by auto
    have wf1: "st_write_fail s1 = 0" using r1(1) p(2) by (simp add: rec_step_def)
    show ?thesis
    proof (cases "ret = EXSUCCEED")
      case True
      have "side_step E (tl_fname p) (tl_txstage p) p1 s s1"
      proof (cases "new = XA_TX_STAGE_COMMITTING")
        case nc: True
        have "decided (tl_fname p) (sync_ops (e_fsync_flags E)) XA_TX_STAGE_COMMITTING s s1"
          using log_stage_decided[OF E p(2,1), of XA_TX_STAGE_COMMITTING p1 s1] run1 True nc ne by auto
        then show ?thesis using True nc f1(5) ne unfolding side_step_def by (auto intro!: exI[of _ s])
      qed (use True f1(5) r1(1) ne in \<open>auto simp: side_step_def\<close>)
      then show ?thesis unfolding eq Ret a using True f1(4) r1(2) p(7) by simp
    next
      case False
      then have nc: "new = XA_TX_STAGE_COMMITTING" using q1(2) f1(3) p(4) by simp
      have "rec_step (tl_fname p) {XA_TX_STAGE_COMMITTING} s s1" "c_long (st_tperrno s1)" using r1 nc p(7) by simp_all
      from switch_abort_rec[OF E p(4,5) new(1)[unfolded nc] this wf1 f1(1-4)] show ?thesis unfolding eq Ret a using False f1(5) by simp
    qed
  qed
qed


fun end_entry :: "drive_end \<Rightarrow> xa_log" where
  "end_entry (DrOut ret p) = p"
| "end_entry (DrAgain p n) = p"
| "end_entry (DrDone p d) = p"

definition round_rec :: "tm_env \<Rightarrow> xa_log \<Rightarrow> tm_st \<Rightarrow> drive_end \<Rightarrow> tm_st \<Rightarrow> bool" where
  "round_rec E p s r s' \<longleftrightarrow> side_step E (tl_fname p) (tl_txstage p) (end_entry r) s s' \<and>
     tl_fits (end_entry r) \<and> c_long (st_tperrno s')"

lemma rec_step_after: "rec_step f {} s s1 \<Longrightarrow> rec_step f S s1 s2 \<Longrightarrow> rec_step f S s s2"
  using rec_step_trans[OF rec_step_mono[of f "{}" s s1 S]] by simp

lemma side_step_after: "rec_step f {} s s1 \<Longrightarrow> side_step E f st p' s1 s' \<Longrightarrow> side_step E f st p' s s'"
  unfolding side_step_def using rec_step_after[of f s s1] by blast

lemma end_step_after: "rec_step f {} s s1 \<Longrightarrow> end_step f st s1 s' \<Longrightarrow> end_step f st s s'"
  unfolding end_step_def using rec_step_after[of f s s1] by blast

lemma drive_round_rec:
  assumes E: "disk_ok E" and p: "tl_log_version p = LOG_VERSION_2" "st_write_fail s = 0" "tl_fits p"
      "e_tid E = tl_lockthreadid p" "c_long (st_tperrno s)"
  shows "ores (round_rec E p s) (end_step (tl_fname p) (tl_txstage p) s) (drive_round E flags p try s)"
proof (cases "xa_stage_get_descr (tl_txstage p)")
  case None
  then show ?thesis using p by (simp add: drive_round_def round_rec_def side_step_def)
next
  case (Some descr)
  let ?acc0 = "\<lparr>da_p = p, da_votes = [], da_retry = False, da_jump = None, da_err = False\<rparr>"
  obtain acc s1 where pass: "drive_branches E descr (branch_keys p) ?acc0 s = (acc, s1)" by (meson surj_pair)
  have ok: "pass_ok (tl_txstage p) p s acc s1"
    by (rule drive_branches_ok[OF _ refl Some pass]) (simp add: pass_ok_def)
  have rc: "pass_rec p s acc s1"
    by (rule drive_branches_rec[OF E p(1,2) _ branch_keys_ok pass]) (use p in \<open>simp add: pass_rec_def\<close>)
  have r1: "rec_step (tl_fname p) {} s s1" "tl_fits (da_p acc)" "c_long (st_tperrno s1)" "same_entry p (da_p acc)"
    using rc by (auto simp: pass_rec_def)
  note f = same_entry_fields[OF r1(4)]
  have d: "s_txstage descr = tl_txstage p" using xa_stage_get_descr_Some[OF Some] by simp
  have stay: "side_step E (tl_fname p) (tl_txstage p) (da_p acc) s s1" using r1(1) f by (simp add: side_step_def)
  show ?thesis
  proof (cases "da_err acc")
    case True
    then show ?thesis using Some pass stay r1 by (simp add: drive_round_def round_rec_def)
  next
    case False
    let ?new = "new_stage descr acc"
    have eq: "drive_round E flags p try s = andthen (drive_switch E (da_p acc) descr ?new s1)
       (\<lambda>(switched, p1) s2.
           if bit flags 2 \<and> s_txstage descr = XA_TX_STAGE_COMMITTING
           then Ret (DrOut EXSUCCEED p1) s2
           else let try1 = (if da_retry acc then try + 1 else 0);
                    again = (da_jump acc \<noteq> None \<or> switched \<or> da_retry acc \<and> try1 < e_xa_retries E)
                in if again then Ret (DrAgain p1 try1) s2 else Ret (DrDone p1 descr) s2)"
      using Some pass False by (simp add: drive_round_def new_stage_def)
    have sw: "ores (\<lambda>(sw, p') s'. side_step E (tl_fname p) (tl_txstage p) p' s s' \<and> tl_fits p' \<and> c_long (st_tperrno s'))
       (end_step (tl_fname p) (tl_txstage p) s) (drive_switch E (da_p acc) descr ?new s1)"
    proof (cases "next_stage (tl_txstage p) ?new \<and> ?new \<noteq> XA_TX_STAGE_MAX_NEVER")
      case True
      have ne: "tl_txstage (da_p acc) \<noteq> EXFAIL" using descr_max_lt_never[OF Some] d f by auto
      have wf: "st_write_fail s1 = 0" using r1(1) p(2) by (simp add: rec_step_def)
      have v: "tl_log_version (da_p acc) = LOG_VERSION_2" "e_tid E = tl_lockthreadid (da_p acc)"
          "tl_txstage (da_p acc) = s_txstage descr" using f p d by auto
      have nx: "next_stage (tl_txstage (da_p acc)) ?new" "?new \<noteq> XA_TX_STAGE_MAX_NEVER" using True f by auto
      show ?thesis
        by (rule ores_mono[OF switch_rec[OF E v(1) wf r1(2) v(2) ne v(3) r1(3) nx]])
          (use f side_step_after[OF r1(1)] end_step_after[OF r1(1)] in auto)
    next
      case nx: False
      then have "\<not> (?new \<noteq> s_txstage descr \<and> ?new \<noteq> XA_TX_STAGE_MAX_NEVER)"
        using new_stage_next[OF ok Some] d by auto
      then show ?thesis using stay r1 by (auto simp: drive_switch_def)
    qed
    show ?thesis unfolding eq ores_andthen
      by (rule ores_mono[OF sw]) (auto simp: round_rec_def Let_def)
  qed
qed

end
