(* ===== verification/Tm_Crash.thy ===== *)
theory Tm_Crash
  imports Tm_Records "HOL-Library.Sublist"
begin

text \<open>
  Crashes in the middle of a commit.  The process (or the machine) may stop at any event of a
  run, and the log file keeps at least the bytes that were synchronised and at most the bytes
  that were written.  Whatever is left on disk, a restart goes on in the direction in which the
  resource managers have been told to go: commit when one of them was told to commit,
  abort when one of them was told to roll back.
\<close>

section \<open>Cuts of a run\<close>

text \<open>A cut of a run: its first \<open>m\<close> events have happened, the log has not been removed, and
  \<open>n\<close> of the lines they wrote are on disk, at least those before every synchronisation of the
  file.\<close>

definition real_sync :: "string \<Rightarrow> tm_event \<Rightarrow> bool" where
  "real_sync f ev = (case ev of EvSync g ops \<Rightarrow> g = f \<and> (OpFsync \<in> set ops \<or> OpFdatasync \<in> set ops) | _ \<Rightarrow> False)"

definition cut :: "string \<Rightarrow> tm_event list \<Rightarrow> nat \<Rightarrow> nat \<Rightarrow> bool" where
  "cut f evs m n \<longleftrightarrow> m \<le> length evs \<and> EvUnlink f \<notin> set (take m evs) \<and>
     n \<le> length (lines_in f (take m evs)) \<and>
     (\<forall>i < m. real_sync f (evs ! i) \<longrightarrow> length (lines_in f (take i evs)) \<le> n)"

text \<open>The stage a restart gives the transaction with the first \<open>n\<close> of the new records.\<close>

definition stage_at :: "(int \<times> log_rec) list \<Rightarrow> (int \<times> log_rec) list \<Rightarrow> nat \<Rightarrow> int" where
  "stage_at R0 recs n = recovered_stage (logged_stage (R0 @ take n recs))"

definition cuts_ok :: "string \<Rightarrow> (int \<times> log_rec) list \<Rightarrow> tm_event list \<Rightarrow> (int \<times> log_rec) list \<Rightarrow> bool" where
  "cuts_ok f R0 evs recs \<longleftrightarrow> (\<forall>m n. cut f evs m n \<longrightarrow>
     ((\<exists>ev \<in> set (take m evs). is_commit ev) \<longrightarrow> commit_range (stage_at R0 recs n)) \<and>
     ((\<exists>ev \<in> set (take m evs). is_rollback ev) \<longrightarrow> abort_range (stage_at R0 recs n)))"

text \<open>A number of lines that is certainly on disk.\<close>

definition floor_of :: "string \<Rightarrow> tm_event list \<Rightarrow> nat \<Rightarrow> bool" where
  "floor_of f evs d \<longleftrightarrow> d = 0 \<or>
     (\<exists>i < length evs. real_sync f (evs ! i) \<and> d = length (lines_in f (take i evs)))"

definition side_ok :: "string \<Rightarrow> (int \<times> log_rec) list \<Rightarrow> tm_event list \<Rightarrow> (int \<times> log_rec) list \<Rightarrow> int \<Rightarrow> bool" where
  "side_ok f R0 evs recs st \<longleftrightarrow>
     (commit_range st \<longrightarrow> (\<exists>d. floor_of f evs d \<and> (\<forall>n \<ge> d. commit_range (stage_at R0 recs n)))) \<and>
     (abort_range st \<longrightarrow> (\<exists>d. floor_of f evs d \<and> (\<forall>n \<ge> d. abort_range (stage_at R0 recs n)))) \<and>
     (st = XA_TX_STAGE_PREPARING \<longrightarrow> set (rec_stages (R0 @ recs)) \<subseteq> {XA_TX_STAGE_PREPARING}) \<and>
     (\<forall>ev \<in> set evs. (is_commit ev \<longrightarrow> commit_range st) \<and> (is_rollback ev \<longrightarrow> abort_range st))"

lemma cut_floor:
  assumes "cut f (evs @ rest) m n" "length evs \<le> m" "floor_of f evs d"
  shows "d \<le> n"
proof (cases "d = 0")
  case False
  then obtain i where "i < length evs" "real_sync f (evs ! i)" "d = length (lines_in f (take i evs))"
    using assms(3) by (auto simp: floor_of_def)
  then show ?thesis using assms(1,2) by (auto simp: cut_def nth_append dest!: spec[of _ i])
qed simp

lemma floor_append:
  assumes "floor_of f evs d"
  shows "floor_of f (evs @ rest) d"
proof (cases "d = 0")
  case False
  then obtain i where "i < length evs" "real_sync f (evs ! i)" "d = length (lines_in f (take i evs))"
    using assms by (auto simp: floor_of_def)
  then show ?thesis unfolding floor_of_def by (intro disjI2 exI[of _ i]) (simp add: nth_append)
qed (simp add: floor_of_def)

lemma cut_prefix: "cut f (evs @ rest) m n \<Longrightarrow> m \<le> length evs \<Longrightarrow> cut f evs m n"
  by (auto simp: cut_def nth_append split: if_splits)

lemma logged_append: "logged_stage (R0 @ R1) = foldl stage_after (logged_stage R0) (rec_stages R1)"
  by (simp add: logged_stage_def)

lemma recovered_commit: "commit_range (recovered_stage st) \<longleftrightarrow> commit_range st"
  by (auto simp: recovered_stage_def commit_range_def)

lemma rec_stages_take: "set (rec_stages (take k rr)) \<subseteq> set (rec_stages rr)"
  by (metis Un_upper1 append_take_drop_id rec_stages_append(1) set_append)

text \<open>More records of the same side keep the stage on that side.\<close>

lemma stage_at_commit:
  assumes "\<forall>n \<ge> d. commit_range (stage_at R0 recs n)" "\<forall>x \<in> set (rec_stages rr). commit_range x" "d \<le> n"
  shows "commit_range (stage_at R0 (recs @ rr) n)"
proof (cases "n \<le> length recs")
  case True
  then show ?thesis using assms(1,3) by (simp add: stage_at_def)
next
  case False
  have c: "commit_range (logged_stage (R0 @ recs))"
    using assms(1)[rule_format, of n] assms(3) False recovered_commit by (simp add: stage_at_def)
  have "commit_range (foldl stage_after (logged_stage (R0 @ recs)) (rec_stages (take (n - length recs) rr)))"
    by (rule logged_commit[OF refl c]) (use assms(2) rec_stages_take[of "n - length recs" rr] in blast)
  then show ?thesis using False by (simp add: stage_at_def recovered_commit logged_append[of "R0 @ recs", simplified])
qed

lemma recovered_abort_step:
  "abort_range (recovered_stage st) \<Longrightarrow> \<forall>x \<in> set xs. abort_range x \<Longrightarrow> abort_range (recovered_stage (foldl stage_after st xs))"
proof (induction xs arbitrary: st)
  case (Cons x xs)
  have "abort_range x" using Cons.prems by simp
  then have "abort_range (recovered_stage (stage_after st x))"
    by (auto simp: stage_after_def recovered_stage_def abort_range_def)
  then show ?case using Cons by simp
qed simp

lemma undecided_recovers:
  "set xs \<subseteq> {XA_TX_STAGE_PREPARING, XA_TX_STAGE_ABORTING} \<Longrightarrow>
   abort_range (recovered_stage (foldl stage_after XA_TX_STAGE_ACTIVE xs))"
proof -
  have "st \<in> {XA_TX_STAGE_ACTIVE, XA_TX_STAGE_PREPARING, XA_TX_STAGE_ABORTING} \<Longrightarrow>
      set xs \<subseteq> {XA_TX_STAGE_PREPARING, XA_TX_STAGE_ABORTING} \<Longrightarrow>
      foldl stage_after st xs \<in> {XA_TX_STAGE_ACTIVE, XA_TX_STAGE_PREPARING, XA_TX_STAGE_ABORTING}" for st
    by (induction xs arbitrary: st) (auto simp: stage_after_def)
  from this[of XA_TX_STAGE_ACTIVE] show "set xs \<subseteq> {XA_TX_STAGE_PREPARING, XA_TX_STAGE_ABORTING} \<Longrightarrow> ?thesis"
    by (auto simp: recovered_stage_def abort_range_def)
qed

lemma stage_at_abort:
  assumes "\<forall>n \<ge> d. abort_range (stage_at R0 recs n)" "\<forall>x \<in> set (rec_stages rr). abort_range x" "d \<le> n"
  shows "abort_range (stage_at R0 (recs @ rr) n)"
proof (cases "n \<le> length recs")
  case True
  then show ?thesis using assms(1,3) by (simp add: stage_at_def)
next
  case False
  have c: "abort_range (recovered_stage (logged_stage (R0 @ recs)))"
    using assms(1)[rule_format, of n] assms(3) False by (simp add: stage_at_def)
  have "abort_range (recovered_stage (foldl stage_after (logged_stage (R0 @ recs)) (rec_stages (take (n - length recs) rr))))"
    by (rule recovered_abort_step[OF c]) (use assms(2) rec_stages_take[of "n - length recs" rr] in blast)
  then show ?thesis using False by (simp add: stage_at_def logged_append[of "R0 @ recs", simplified])
qed


text \<open>Events and records of the side the transaction is on keep every cut right.\<close>

lemma cuts_extend:
  assumes ok: "cuts_ok f R0 evs recs" and side: "side_ok f R0 evs recs st"
    and rec: "lines_in f evs = lines_of recs"
    and ev: "\<forall>ev \<in> set rest. (is_commit ev \<longrightarrow> commit_range st) \<and> (is_rollback ev \<longrightarrow> abort_range st)"
    and rr: "commit_range st \<longrightarrow> (\<forall>x \<in> set (rec_stages rr). commit_range x)"
      "abort_range st \<longrightarrow> (\<forall>x \<in> set (rec_stages rr). abort_range x)"
  shows "cuts_ok f R0 (evs @ rest) (recs @ rr)"
  unfolding cuts_ok_def
proof (intro allI impI)
  fix m n
  assume c: "cut f (evs @ rest) m n"
  show "((\<exists>ev \<in> set (take m (evs @ rest)). is_commit ev) \<longrightarrow> commit_range (stage_at R0 (recs @ rr) n)) \<and>
     ((\<exists>ev \<in> set (take m (evs @ rest)). is_rollback ev) \<longrightarrow> abort_range (stage_at R0 (recs @ rr) n))"
  proof (cases "m \<le> length evs")
    case True
    note c1 = cut_prefix[OF c True]
    then have "n \<le> length (lines_in f evs)"
      using lines_in_append[of f "take m evs" "drop m evs"] by (simp add: cut_def)
    then have "stage_at R0 (recs @ rr) n = stage_at R0 recs n" using rec by (simp add: stage_at_def lines_of_def)
    then show ?thesis using ok c1 True by (simp add: cuts_ok_def)
  next
    case False
    then have m: "length evs \<le> m" by simp
    have sub: "set (take m (evs @ rest)) \<subseteq> set evs \<union> set rest" using set_take_subset[of m "evs @ rest"] by simp
    have cm: "commit_range (stage_at R0 (recs @ rr) n)" if cs: "commit_range st"
    proof -
      obtain d where "floor_of f evs d" "\<forall>n \<ge> d. commit_range (stage_at R0 recs n)"
        using side cs by (auto simp: side_ok_def)
      then show ?thesis using stage_at_commit rr(1) cs cut_floor[OF c m] by blast
    qed
    have am: "abort_range (stage_at R0 (recs @ rr) n)" if cs: "abort_range st"
    proof -
      obtain d where "floor_of f evs d" "\<forall>n \<ge> d. abort_range (stage_at R0 recs n)"
        using side cs by (auto simp: side_ok_def)
      then show ?thesis using stage_at_abort rr(2) cs cut_floor[OF c m] by blast
    qed
    show ?thesis using sub ev side cm am by (auto simp: side_ok_def)
  qed
qed


lemma side_extend:
  assumes side: "side_ok f R0 evs recs st" and rr: "rec_stages rr = []"
    and ev: "\<forall>ev \<in> set rest. (is_commit ev \<longrightarrow> commit_range st) \<and> (is_rollback ev \<longrightarrow> abort_range st)"
  shows "side_ok f R0 (evs @ rest) (recs @ rr) st"
proof -
  have "commit_range st \<longrightarrow> (\<exists>d. floor_of f (evs @ rest) d \<and> (\<forall>n \<ge> d. commit_range (stage_at R0 (recs @ rr) n)))"
    using side rr floor_append stage_at_commit[where rr = rr] unfolding side_ok_def by (metis empty_iff list.set(1))
  moreover have "abort_range st \<longrightarrow> (\<exists>d. floor_of f (evs @ rest) d \<and> (\<forall>n \<ge> d. abort_range (stage_at R0 (recs @ rr) n)))"
    using side rr floor_append stage_at_abort[where rr = rr] unfolding side_ok_def by (metis empty_iff list.set(1))
  ultimately show ?thesis using side rr ev by (auto simp: side_ok_def)
qed

text \<open>A forced switch within a side, or from undecided to abort or to the end of a read-only
  transaction.\<close>

lemma side_forced:
  assumes side: "side_ok f R0 evs recs st" and st: "st = XA_TX_STAGE_PREPARING \<or> commit_range st \<or> abort_range st"
    and nx: "next_stage st st'" "st' \<noteq> XA_TX_STAGE_COMMITTING" and rr: "set (rec_stages rr) \<subseteq> {st'}"
    and ev: "\<forall>ev \<in> set rest. (is_commit ev \<longrightarrow> commit_range st) \<and> (is_rollback ev \<longrightarrow> abort_range st)"
  shows "side_ok f R0 (evs @ rest) (recs @ rr) st'"
proof -
  note ng = next_stage_ranges[OF nx(1)]
  have disj: "\<not> commit_range XA_TX_STAGE_PREPARING" "\<not> abort_range XA_TX_STAGE_PREPARING"
      "\<not> commit_range XA_TX_STAGE_PREPRO" "\<not> abort_range XA_TX_STAGE_PREPRO"
      "\<not> commit_range XA_TX_STAGE_ABORTING" by (simp_all add: commit_range_def abort_range_def)
  have evs': "\<forall>ev \<in> set (evs @ rest). (is_commit ev \<longrightarrow> commit_range st') \<and> (is_rollback ev \<longrightarrow> abort_range st')"
    using side ev ng by (auto simp: side_ok_def)
  from st consider (p) "st = XA_TX_STAGE_PREPARING" | (c) "commit_range st" | (a) "abort_range st" by blast
  then show ?thesis
  proof cases
    case p
    then have st': "st' = XA_TX_STAGE_ABORTING \<or> st' = XA_TX_STAGE_PREPRO" using ng nx(2) by auto
    have und: "set (rec_stages (R0 @ recs)) \<subseteq> {XA_TX_STAGE_PREPARING}" using side p by (simp add: side_ok_def)
    have ab: "abort_range (stage_at R0 (recs @ rr) n)" if "st' = XA_TX_STAGE_ABORTING" for n
    proof -
      have "set (rec_stages (R0 @ take n (recs @ rr))) \<subseteq> {XA_TX_STAGE_PREPARING, XA_TX_STAGE_ABORTING}"
        using und rr that rec_stages_take[of n "recs @ rr"] by auto
      then show ?thesis unfolding stage_at_def logged_stage_def using undecided_recovers by blast
    qed
    show ?thesis unfolding side_ok_def using st' ab evs' disj
      by (auto simp: floor_of_def)
  next
    case c
    then have cr: "commit_range st'" "\<not> abort_range st'" "st' \<noteq> XA_TX_STAGE_PREPARING"
      using ng ranges_disjoint disj by auto
    obtain d where "floor_of f evs d" "\<forall>n \<ge> d. commit_range (stage_at R0 recs n)"
      using side c by (auto simp: side_ok_def)
    then have "floor_of f (evs @ rest) d \<and> (\<forall>n \<ge> d. commit_range (stage_at R0 (recs @ rr) n))"
      using floor_append stage_at_commit rr cr(1) by (metis empty_iff insertE subset_eq)
    then show ?thesis unfolding side_ok_def using cr evs' by auto
  next
    case a
    then have cr: "abort_range st'" "\<not> commit_range st'" "st' \<noteq> XA_TX_STAGE_PREPARING"
      using ng ranges_disjoint disj by auto
    obtain d where "floor_of f evs d" "\<forall>n \<ge> d. abort_range (stage_at R0 recs n)"
      using side a by (auto simp: side_ok_def)
    then have "floor_of f (evs @ rest) d \<and> (\<forall>n \<ge> d. abort_range (stage_at R0 (recs @ rr) n))"
      using floor_append stage_at_abort rr cr(1) by (metis empty_iff insertE subset_eq)
    then show ?thesis unfolding side_ok_def using cr evs' by auto
  qed
qed


text \<open>The decision of an undecided transaction, synchronised.\<close>

lemma foldl_decided: "stage_after (foldl stage_after st xs) dec = dec \<Longrightarrow> foldl stage_after st (xs @ [dec]) = dec"
  by simp

lemma no_abort_before:
  "set xs \<subseteq> {XA_TX_STAGE_PREPARING, XA_TX_STAGE_COMMITTING} \<Longrightarrow> \<not> abort_range (foldl stage_after XA_TX_STAGE_ACTIVE xs)"
proof -
  have "\<not> abort_range st \<Longrightarrow> set xs \<subseteq> {XA_TX_STAGE_PREPARING, XA_TX_STAGE_COMMITTING} \<Longrightarrow>
      \<not> abort_range (foldl stage_after st xs)" for st
    by (induction xs arbitrary: st) (auto simp: stage_after_def abort_range_def)
  from this[of XA_TX_STAGE_ACTIVE] show "set xs \<subseteq> {XA_TX_STAGE_PREPARING, XA_TX_STAGE_COMMITTING} \<Longrightarrow> ?thesis"
    by (simp add: abort_range_def)
qed

lemma side_decided:
  assumes side: "side_ok f R0 evs recs XA_TX_STAGE_PREPARING" and rec: "lines_in f evs = lines_of recs"
    and rest: "rest = e1 @ [EvSync f ops]" "OpFsync \<in> set ops \<or> OpFdatasync \<in> set ops" "lines_in f e1 = lines_of rr"
    and rr: "rec_stages rr = xs @ replicate (Suc n) dec" "set xs \<subseteq> {XA_TX_STAGE_COMMITTING}"
    and dec: "dec = XA_TX_STAGE_COMMITTING \<or> dec = XA_TX_STAGE_ABORTING"
    and ev: "\<forall>ev \<in> set rest. \<not> is_commit ev \<and> \<not> is_rollback ev"
  shows "side_ok f R0 (evs @ rest) (recs @ rr) dec"
proof -
  let ?d = "length (recs @ rr)"
  have disj: "\<not> commit_range XA_TX_STAGE_PREPARING" "\<not> abort_range XA_TX_STAGE_PREPARING"
      "commit_range XA_TX_STAGE_COMMITTING" "\<not> abort_range XA_TX_STAGE_COMMITTING"
      "\<not> commit_range XA_TX_STAGE_ABORTING" "abort_range XA_TX_STAGE_ABORTING"
    by (simp_all add: commit_range_def abort_range_def)
  have und: "set (rec_stages (R0 @ recs)) \<subseteq> {XA_TX_STAGE_PREPARING}"
    and noev: "\<forall>ev \<in> set evs. \<not> is_commit ev \<and> \<not> is_rollback ev"
    using side disj by (auto simp: side_ok_def)
  have fl: "floor_of f (evs @ rest) ?d"
    unfolding floor_of_def
    by (intro disjI2 exI[of _ "length (evs @ e1)"])
      (use rest rec in \<open>auto simp: real_sync_def nth_append lines_of_def\<close>)
  let ?ys = "rec_stages (R0 @ recs) @ xs @ replicate n dec"
  have "rec_stages (R0 @ recs @ rr) = ?ys @ [dec]" using rr(1) by (simp add: replicate_append_same)
  moreover have "stage_after (foldl stage_after XA_TX_STAGE_ACTIVE ?ys) dec = dec"
  proof (cases "dec = XA_TX_STAGE_COMMITTING")
    case True
    have "\<not> abort_range (foldl stage_after XA_TX_STAGE_ACTIVE ?ys)"
      by (rule no_abort_before) (use und rr(2) True in auto)
    then show ?thesis by (simp add: stage_after_def)
  qed (use dec in \<open>simp add: stage_after_def disj\<close>)
  ultimately have "logged_stage (R0 @ recs @ rr) = dec"
    unfolding logged_stage_def using foldl_decided by metis
  then have at: "stage_at R0 (recs @ rr) n = dec" if "n \<ge> ?d" for n
    using that dec by (auto simp: stage_at_def recovered_stage_def)
  show ?thesis unfolding side_ok_def using dec fl at disj noev ev by auto
qed

section \<open>Every cut of a run of the driver\<close>

definition crash_safe :: "string \<Rightarrow> (int \<times> log_rec) list \<Rightarrow> tm_st \<Rightarrow> tm_st \<Rightarrow> bool" where
  "crash_safe f R0 s0 s \<longleftrightarrow> (\<exists>evs recs. st_trace s = st_trace s0 @ evs \<and> lines_in f evs = lines_of recs \<and>
     recs_ok recs \<and> (\<forall>x \<in> set (rec_stages recs). 0 \<le> x) \<and> cuts_ok f R0 evs recs)"

definition crash_inv :: "tm_env \<Rightarrow> string \<Rightarrow> (int \<times> log_rec) list \<Rightarrow> tm_st \<Rightarrow> xa_log \<Rightarrow> tm_st \<Rightarrow> bool" where
  "crash_inv E f R0 s0 p s \<longleftrightarrow> tl_fname p = f \<and> tl_log_version p = LOG_VERSION_2 \<and> tl_fits p \<and>
     e_tid E = tl_lockthreadid p \<and> st_write_fail s = 0 \<and> c_long (st_tperrno s) \<and>
     (tl_txstage p = XA_TX_STAGE_PREPARING \<or> tl_txstage p = XA_TX_STAGE_PREPRO \<or>
      commit_range (tl_txstage p) \<or> abort_range (tl_txstage p)) \<and>
     (\<exists>evs recs. st_trace s = st_trace s0 @ evs \<and> lines_in f evs = lines_of recs \<and> recs_ok recs \<and>
        (\<forall>x \<in> set (rec_stages recs). 0 \<le> x) \<and> cuts_ok f R0 evs recs \<and> side_ok f R0 evs recs (tl_txstage p))"

lemma drive_ev_side:
  "\<forall>ev \<in> set rest. drive_ev f st ev \<Longrightarrow>
   \<forall>ev \<in> set rest. (is_commit ev \<longrightarrow> commit_range st) \<and> (is_rollback ev \<longrightarrow> abort_range st)"
proof (intro ballI conjI impI)
  fix ev
  assume "\<forall>ev \<in> set rest. drive_ev f st ev" "ev \<in> set rest"
  then have ev: "drive_ev f st ev" by simp
  show "is_commit ev \<Longrightarrow> commit_range st" using drive_ev_commit[OF ev] by (simp add: commit_range_def)
  show "is_rollback ev \<Longrightarrow> abort_range st" using drive_ev_rollback[OF ev] by (simp add: abort_range_def)
qed

lemma next_stage_nn: "next_stage st st' \<Longrightarrow> 0 \<le> st'"
  using stage_votes_range[of st' st] descr_max_lt_never[of st] by (auto simp: next_stage_def)


text \<open>What is known before a step, and what remains to be shown after it.\<close>

lemma crash_extend:
  assumes I: "crash_inv E f R0 s0 p s"
    and J: "journal_step f (drive_ev f (tl_txstage p)) s s'" and k: "entry_kept p p'"
    and nx: "tl_txstage p' = tl_txstage p \<or> next_stage (tl_txstage p) (tl_txstage p')"
    and fits: "tl_fits p'" "c_long (st_tperrno s')"
  obtains evs recs rest where "lines_in f evs = lines_of recs" "cuts_ok f R0 evs recs" "side_ok f R0 evs recs (tl_txstage p)"
    "st_trace s' = st_trace s @ rest" "\<forall>ev \<in> set rest. drive_ev f (tl_txstage p) ev"
    "\<And>rr. lines_in f rest = lines_of rr \<Longrightarrow> recs_ok rr \<Longrightarrow> \<forall>x \<in> set (rec_stages rr). 0 \<le> x \<Longrightarrow>
       cuts_ok f R0 (evs @ rest) (recs @ rr) \<Longrightarrow> side_ok f R0 (evs @ rest) (recs @ rr) (tl_txstage p') \<Longrightarrow> crash_inv E f R0 s0 p' s'"
proof -
  let ?st = "tl_txstage p" and ?st' = "tl_txstage p'"
  obtain evs recs where evs: "st_trace s = st_trace s0 @ evs" and rec: "lines_in f evs = lines_of recs" "recs_ok recs"
      "\<forall>x \<in> set (rec_stages recs). 0 \<le> x" and ok: "cuts_ok f R0 evs recs" and side: "side_ok f R0 evs recs ?st"
    using I by (auto simp: crash_inv_def)
  obtain rest where rest: "st_trace s' = st_trace s @ rest" "\<forall>ev \<in> set rest. drive_ev f ?st ev"
    using J by (auto simp: journal_step_def list_all_iff)
  have keep: "tl_fname p' = f \<and> tl_log_version p' = LOG_VERSION_2 \<and> e_tid E = tl_lockthreadid p' \<and> st_write_fail s' = 0"
    using I entry_kept_fields[OF k] J by (auto simp: crash_inv_def journal_step_def)
  have range': "?st' = XA_TX_STAGE_PREPARING \<or> ?st' = XA_TX_STAGE_PREPRO \<or> commit_range ?st' \<or> abort_range ?st'"
    using nx I next_stage_ranges[of ?st ?st'] by (auto simp: crash_inv_def commit_range_def abort_range_def)
  have fin: "crash_inv E f R0 s0 p' s'"
    if "lines_in f rest = lines_of rr" "recs_ok rr" "\<forall>x \<in> set (rec_stages rr). 0 \<le> x"
       "cuts_ok f R0 (evs @ rest) (recs @ rr)" "side_ok f R0 (evs @ rest) (recs @ rr) ?st'" for rr
    unfolding crash_inv_def using keep fits range' that evs rest(1) rec
    by (intro conjI exI[of _ "evs @ rest"] exI[of _ "recs @ rr"]) auto
  show thesis by (rule that[OF rec(1) ok side rest fin])
qed

text \<open>A step that ends with a decision in the log.\<close>

lemma crash_decided:
  assumes I: "crash_inv E f R0 s0 p s" and sync: "bit (e_fsync_flags E) 0 \<or> bit (e_fsync_flags E) 1"
    and J: "journal_step f (drive_ev f (tl_txstage p)) s s'" and k: "entry_kept p p'"
    and nx: "tl_txstage p' = tl_txstage p \<or> next_stage (tl_txstage p) (tl_txstage p')" and fits: "tl_fits p'" "c_long (st_tperrno s')"
    and c: "next_stage (tl_txstage p) XA_TX_STAGE_COMMITTING" "xs \<subseteq> {XA_TX_STAGE_COMMITTING}"
      "tl_txstage p' = XA_TX_STAGE_COMMITTING \<or> tl_txstage p' = XA_TX_STAGE_ABORTING"
    and s1: "rec_step f xs s s1" "decided f (sync_ops (e_fsync_flags E)) (tl_txstage p') s1 s'"
  shows "crash_inv E f R0 s0 p' s'"
proof -
  let ?st = "tl_txstage p" and ?st' = "tl_txstage p'" and ?ops = "sync_ops (e_fsync_flags E)"
  obtain evs recs rest where rec: "lines_in f evs = lines_of recs" and ok: "cuts_ok f R0 evs recs" and side: "side_ok f R0 evs recs ?st"
    and rest: "st_trace s' = st_trace s @ rest" "\<forall>ev \<in> set rest. drive_ev f ?st ev"
    and fin: "\<And>rr. lines_in f rest = lines_of rr \<Longrightarrow> recs_ok rr \<Longrightarrow> \<forall>x \<in> set (rec_stages rr). 0 \<le> x \<Longrightarrow>
       cuts_ok f R0 (evs @ rest) (recs @ rr) \<Longrightarrow> side_ok f R0 (evs @ rest) (recs @ rr) ?st' \<Longrightarrow> crash_inv E f R0 s0 p' s'"
    using crash_extend[OF I J k nx fits] by blast
  note ev = drive_ev_side[OF rest(2)] and ng = next_stage_ranges[OF c(1)]
  have "\<not> commit_range ?st" using next_stage_ranges[OF next_committing[OF c(1)]] by (auto simp: commit_range_def)
  moreover have "\<not> abort_range ?st" using ng by (auto simp: abort_range_def)
  ultimately have prep: "?st = XA_TX_STAGE_PREPARING" using I ng by (auto simp: crash_inv_def)
  have disj: "\<not> commit_range XA_TX_STAGE_PREPARING" "\<not> abort_range XA_TX_STAGE_PREPARING" by (simp_all add: commit_range_def abort_range_def)
  obtain e1 r1 where e1: "st_trace s1 = st_trace s @ e1" "lines_in f e1 = lines_of r1" "recs_ok r1" "set (rec_stages r1) \<subseteq> xs"
    using s1(1) unfolding rec_step_def by blast
  obtain e2 r2 n where e2: "st_trace s' = st_trace s1 @ e2 @ [EvSync f ?ops]" "lines_in f e2 = lines_of r2" "recs_ok r2"
      "rec_stages r2 = replicate (Suc n) ?st'"
    using s1(2) unfolding decided_def by blast
  have rest': "rest = (e1 @ e2) @ [EvSync f ?ops]" using rest(1) e1(1) e2(1) by simp
  have real: "OpFsync \<in> set ?ops \<or> OpFdatasync \<in> set ?ops" using sync by (auto simp: sync_ops_def)
  have noev: "\<forall>ev \<in> set rest. \<not> is_commit ev \<and> \<not> is_rollback ev" using ev prep disj by auto
  have "side_ok f R0 (evs @ rest) (recs @ (r1 @ r2)) ?st'"
    by (rule side_decided[OF side[unfolded prep] rec rest' real _ _ _ c(3) noev, of _ "rec_stages r1" n]) (use e1 e2 c(2) in auto)
  moreover have "cuts_ok f R0 (evs @ rest) (recs @ (r1 @ r2))"
    by (rule cuts_extend[OF ok side rec ev]) (use prep disj in auto)
  ultimately show ?thesis
    by (intro fin[of "r1 @ r2"]) (use rest' e1 e2 c(2,3) in \<open>auto split: if_splits\<close>)
qed

lemma crash_inv_step:
  assumes I: "crash_inv E f R0 s0 p s" and sync: "bit (e_fsync_flags E) 0 \<or> bit (e_fsync_flags E) 1"
    and J: "journal_step f (drive_ev f (tl_txstage p)) s s'" and k: "entry_kept p p'"
    and nx: "tl_txstage p' = tl_txstage p \<or> next_stage (tl_txstage p) (tl_txstage p')"
    and st: "side_step E f (tl_txstage p) p' s s'" and fits: "tl_fits p'" "c_long (st_tperrno s')"
  shows "crash_inv E f R0 s0 p' s'"
proof -
  let ?st = "tl_txstage p" and ?st' = "tl_txstage p'" and ?ops = "sync_ops (e_fsync_flags E)"
  obtain evs recs rest where rec: "lines_in f evs = lines_of recs" and ok: "cuts_ok f R0 evs recs" and side: "side_ok f R0 evs recs ?st"
    and rest: "st_trace s' = st_trace s @ rest" "\<forall>ev \<in> set rest. drive_ev f ?st ev"
    and fin: "\<And>rr. lines_in f rest = lines_of rr \<Longrightarrow> recs_ok rr \<Longrightarrow> \<forall>x \<in> set (rec_stages rr). 0 \<le> x \<Longrightarrow>
       cuts_ok f R0 (evs @ rest) (recs @ rr) \<Longrightarrow> side_ok f R0 (evs @ rest) (recs @ rr) ?st' \<Longrightarrow> crash_inv E f R0 s0 p' s'"
    using crash_extend[OF I J k nx fits] by blast
  note ev = drive_ev_side[OF rest(2)] and decided = crash_decided[OF I sync J k nx fits]
  have same: "st_trace s' = st_trace s @ e \<Longrightarrow> e = rest" for e using rest(1) by simp
  from st[unfolded side_step_def] consider
      (a) "?st' = ?st" "rec_step f {} s s'"
    | (b) "?st' \<noteq> ?st" "?st' \<noteq> XA_TX_STAGE_COMMITTING" "rec_step f {?st'} s s'"
    | (c1) s1 where "?st' \<noteq> ?st" "?st' = XA_TX_STAGE_COMMITTING" "rec_step f {} s s1" "decided f ?ops XA_TX_STAGE_COMMITTING s1 s'"
    | (c2) s1 where "?st' = XA_TX_STAGE_ABORTING" "next_stage ?st XA_TX_STAGE_COMMITTING"
        "rec_step f {XA_TX_STAGE_COMMITTING} s s1" "decided f ?ops XA_TX_STAGE_ABORTING s1 s'"
    by blast
  then show ?thesis
  proof cases
    case a
    then obtain rr where rr: "lines_in f rest = lines_of rr" "recs_ok rr" "rec_stages rr = []"
      using same unfolding rec_step_def by auto
    show ?thesis
      by (rule fin[OF rr(1,2) _ cuts_extend[OF ok side rec ev]]) (use rr a side_extend[OF side rr(3) ev] in auto)
  next
    case b
    then obtain rr where rr: "lines_in f rest = lines_of rr" "recs_ok rr" "set (rec_stages rr) \<subseteq> {?st'}"
      using same unfolding rec_step_def by auto
    have n: "next_stage ?st ?st'" using nx b(1) by simp
    note ng = next_stage_ranges[OF n]
    have st3: "?st = XA_TX_STAGE_PREPARING \<or> commit_range ?st \<or> abort_range ?st" using I ng by (auto simp: crash_inv_def)
    show ?thesis
      by (rule fin[OF rr(1,2) _ cuts_extend[OF ok side rec ev] side_forced[OF side st3 n b(2) rr(3) ev]])
        (use rr(3) ng next_stage_nn[OF n] in auto)
  next
    case c1
    then show ?thesis using decided[of "{}" s1] nx by auto
  next
    case c2
    then show ?thesis using decided[of "{XA_TX_STAGE_COMMITTING}" s1] by auto
  qed
qed


lemma crash_inv_safe: "crash_inv E f R0 s0 p s \<Longrightarrow> crash_safe f R0 s0 s"
  unfolding crash_inv_def crash_safe_def by blast

lemma crash_inv_end:
  assumes I: "crash_inv E f R0 s0 p s" and J: "journal_end f (drive_ev f (tl_txstage p)) s s'"
    and st: "end_step f (tl_txstage p) s s'"
  shows "crash_safe f R0 s0 s'"
proof -
  let ?st = "tl_txstage p"
  obtain evs recs where evs: "st_trace s = st_trace s0 @ evs" and rec: "lines_in f evs = lines_of recs" "recs_ok recs"
      "\<forall>x \<in> set (rec_stages recs). 0 \<le> x" and ok: "cuts_ok f R0 evs recs" and side: "side_ok f R0 evs recs ?st"
    using I by (auto simp: crash_inv_def)
  obtain rest where rest: "st_trace s' = st_trace s @ rest" "\<forall>ev \<in> set rest. drive_ev f ?st ev"
    using J by (auto simp: journal_end_def journal_step_def list_all_iff)
  obtain new rr where new: "next_stage ?st new" and rr: "lines_in f rest = lines_of rr" "recs_ok rr"
    "set (rec_stages rr) \<subseteq> {new} \<or>
     new = XA_TX_STAGE_COMMITTING \<and> set (rec_stages rr) \<subseteq> {XA_TX_STAGE_COMMITTING, XA_TX_STAGE_ABORTING}"
    using st rest(1) unfolding end_step_def rec_step_def by (metis same_append_eq)
  note ng = next_stage_ranges[OF new]
  have c: "new = XA_TX_STAGE_COMMITTING \<Longrightarrow> \<not> commit_range ?st \<and> \<not> abort_range ?st"
    using next_stage_ranges[OF next_committing] new ng by (auto simp: commit_range_def abort_range_def)
  have "cuts_ok f R0 (evs @ rest) (recs @ rr)"
    by (rule cuts_extend[OF ok side rec(1) drive_ev_side[OF rest(2)]]) (use rr(3) ng c in blast)+
  moreover have "\<forall>x \<in> set (rec_stages rr). 0 \<le> x" using rr(3) next_stage_nn[OF new] by auto
  ultimately show ?thesis unfolding crash_safe_def using evs rest(1) rec rr
    by (intro exI[of _ "evs @ rest"] exI[of _ "recs @ rr"]) auto
qed

lemma drive_loop_crash:
  assumes E: "disk_ok E" "bit (e_fsync_flags E) 0 \<or> bit (e_fsync_flags E) 1"
  shows "crash_inv E f R0 s0 p s \<Longrightarrow>
    ores (\<lambda>r. crash_inv E f R0 s0 (end_entry r)) (crash_safe f R0 s0) (tm_drive_loop E flags p n s)"
  using E
proof (induction E flags p n s rule: tm_drive_loop.induct)
  case (1 E flags p n s)
  note I = 1(2) and E = 1(3,4)
  have pf: "tl_log_version p = LOG_VERSION_2" "st_write_fail s = 0" "tl_fits p" "e_tid E = tl_lockthreadid p"
      "c_long (st_tperrno s)" and f: "tl_fname p = f" using I by (auto simp: crash_inv_def)
  note rc = drive_round_rec[OF E(1) pf, of flags n] and post = drive_round_ores[of E p n s flags]
  show ?case
  proof (cases "drive_round E flags p n s")
    case (Exit c s1)
    then have "crash_safe f R0 s0 s1" using crash_inv_end[OF I] rc post f by simp
    then show ?thesis using Exit by (subst tm_drive_loop.simps) simp
  next
    case (Ret r s1)
    have rp: "round_post E p n s r s1" and rr: "round_rec E p s r s1" using rc post Ret by auto
    have "crash_inv E f R0 s0 (end_entry r) s1"
      by (rule crash_inv_step[OF I E(2)])
        (use rp rr f in \<open>cases r; auto simp: round_post_def round_rec_def\<close>)+
    then show ?thesis using Ret 1(1)[OF Ret] E
      by (cases r) (subst tm_drive_loop.simps, simp)+
  qed
qed


lemma crash_safe_same: "crash_safe f R0 s0 s \<Longrightarrow> st_trace s' = st_trace s \<Longrightarrow> crash_safe f R0 s0 s'"
  by (simp add: crash_safe_def)

lemma crash_safe_unlink:
  assumes "crash_safe f R0 s0 s" "st_trace s' = st_trace s @ [EvUnlink f]"
  shows "crash_safe f R0 s0 s'"
proof -
  obtain evs recs where evs: "st_trace s = st_trace s0 @ evs" and rec: "lines_in f evs = lines_of recs" "recs_ok recs"
      "\<forall>x \<in> set (rec_stages recs). 0 \<le> x" and ok: "cuts_ok f R0 evs recs"
    using assms(1) by (auto simp: crash_safe_def)
  have "m \<le> length evs" if "cut f (evs @ [EvUnlink f]) m n" for m n
    using that by (cases "m \<le> length evs") (auto simp: cut_def)
  then have "cuts_ok f R0 (evs @ [EvUnlink f]) recs"
    using ok cut_prefix[of f evs "[EvUnlink f]"] by (fastforce simp: cuts_ok_def)
  then show ?thesis unfolding crash_safe_def using assms(2) evs rec
    by (intro exI[of _ "evs @ [EvUnlink f]"] exI[of _ recs]) auto
qed

lemma remove_logfile_events:
  "st_trace (tms_remove_logfile E p b s) = st_trace s \<or>
   st_trace (tms_remove_logfile E p b s) = st_trace s @ [EvUnlink (tl_fname p)]"
  by (auto simp: tms_remove_logfile_def tms_remove_logfree_def tms_close_logfile_def Let_def)

lemma tm_drive_crash:
  assumes E: "disk_ok E" "bit (e_fsync_flags E) 0 \<or> bit (e_fsync_flags E) 1"
    and I: "crash_inv E f R0 s0 p s"
  shows "ores (\<lambda>_. crash_safe f R0 s0) (crash_safe f R0 s0) (tm_drive E p master_op flags s)"
  unfolding tm_drive_def ores_andthen
proof (rule ores_mono[OF drive_loop_crash[OF E I]], goal_cases)
  case (1 r s1)
  have safe: "crash_safe f R0 s0 s1" using crash_inv_safe[OF 1] .
  have f: "tl_fname (end_entry r) = f" using 1 by (simp add: crash_inv_def)
  have leave: "crash_safe f R0 s0 (drive_leave E q s1)" for q
    by (rule crash_safe_same[OF safe drive_leave_trace])
  have remove: "crash_safe f R0 s0 (tms_remove_logfile E q b s1)" if "tl_fname q = f" for q b
    using remove_logfile_events[of E q b s1] that crash_safe_same[OF safe] crash_safe_unlink[OF safe] by auto
  show ?case using leave remove safe f by (cases r) (auto simp: Let_def)
qed

text \<open>A transaction that is about to be committed: its log has no stage record yet.\<close>

lemma crash_inv_first:
  assumes "rec_stages R0 = []" "rec_step f {XA_TX_STAGE_PREPARING} s0 s"
    and "tl_fname p = f" "tl_log_version p = LOG_VERSION_2" "tl_fits p" "e_tid E = tl_lockthreadid p"
    and "st_write_fail s = 0" "c_long (st_tperrno s)" "tl_txstage p = XA_TX_STAGE_PREPARING"
    and "sends quiet s0 s"
  shows "crash_inv E f R0 s0 p s"
proof -
  obtain evs recs where e: "st_trace s = st_trace s0 @ evs" "lines_in f evs = lines_of recs" "recs_ok recs"
      "set (rec_stages recs) \<subseteq> {XA_TX_STAGE_PREPARING}"
    using assms(2) by (auto simp: rec_step_def)
  have q: "\<forall>ev \<in> set evs. \<not> is_commit ev \<and> \<not> is_rollback ev"
    using assms(10) e(1) by (auto simp: sends_def quiet_def)
  have disj: "\<not> commit_range XA_TX_STAGE_PREPARING" "\<not> abort_range XA_TX_STAGE_PREPARING"
    by (simp_all add: commit_range_def abort_range_def)
  have "cuts_ok f R0 evs recs" unfolding cuts_ok_def using q by (auto dest: in_set_takeD)
  moreover have "side_ok f R0 evs recs XA_TX_STAGE_PREPARING"
    unfolding side_ok_def using assms(1) e(4) q disj by auto
  ultimately show ?thesis unfolding crash_inv_def using assms(3-9) e by (fastforce)
qed


lemma preparing_logged:
  assumes "disk_ok E" "st_write_fail s = 0" "tl_log_version p = LOG_VERSION_2" "e_tid E = tl_lockthreadid p"
    and "tl_txstage p = XA_TX_STAGE_ACTIVE"
  shows "\<exists>s'. tms_log_stage E p XA_TX_STAGE_PREPARING False s =
     Ret (EXSUCCEED, p\<lparr>tl_txstage := XA_TX_STAGE_PREPARING\<rparr>) s'"
proof -
  let ?p = "p\<lparr>tl_txstage := XA_TX_STAGE_PREPARING\<rparr>"
  have "fst (tms_log_write_line E ?p LOG_COMMAND_STAGE (fmt_d XA_TX_STAGE_PREPARING) s) = EXSUCCEED"
    using assms by (simp add: tms_log_write_line_def log_output_def log_line_def disk_ok_def hex_pad_8 Let_def)
  then obtain s' where "tms_log_write_line E ?p LOG_COMMAND_STAGE (fmt_d XA_TX_STAGE_PREPARING) s = (EXSUCCEED, s')"
    by (metis eq_fst_iff)
  then have "log_stage_write E ?p XA_TX_STAGE_PREPARING s = Ret (EXSUCCEED, ?p) s'"
    by (simp add: log_stage_write_def)
  then show ?thesis using assms by (simp add: tms_log_stage_def disk_ok_def Let_def)
qed

lemma tpcommit_crash:
  assumes E: "disk_ok E" "bit (e_fsync_flags E) 0 \<or> bit (e_fsync_flags E) 1"
    and ub: "atmi_xa_read_tx_info ub True = Some xai" "u_flags ub = Some tmflags"
    and get: "tms_log_get_entry E (xi_tmxid xai) NDRX_LOCK_WAIT_TIME s = (Some p, locke, s1)"
    and p: "\<not> tl_is_background p" "tl_txstage p = XA_TX_STAGE_ACTIVE" "tl_log_version p = LOG_VERSION_2" "tl_fits p"
    and s: "st_write_fail s = 0" "c_long (st_tperrno s)" "rec_stages R0 = []"
  shows "crash_safe (tl_fname p) R0 s (ostate (tm_tpcommit E ub s))"
proof -
  let ?p = "p\<lparr>tl_txstage := XA_TX_STAGE_PREPARING\<rparr>"
  have lk: "e_tid E = tl_lockthreadid p" using get_entry_locked[OF get] by simp
  have s1: "st_trace s1 = st_trace s" "st_write_fail s1 = 0" "c_long (st_tperrno s1)"
    using get s by (auto simp: tms_log_get_entry_def split: prod.splits)
  have ne: "tl_txstage p \<noteq> EXFAIL" using p(2) by simp
  have sh: "is_short XA_TX_STAGE_PREPARING" by (simp add: is_short_def)
  obtain s2 where l: "tms_log_stage E p XA_TX_STAGE_PREPARING False s1 = Ret (EXSUCCEED, ?p) s2"
    using preparing_logged[OF E(1) s1(2) p(3) lk p(2)] by blast
  have s2: "rec_step (tl_fname p) {XA_TX_STAGE_PREPARING} s1 s2" "c_long (st_tperrno s2)" "st_write_fail s2 = 0"
    using ores_RetD[OF log_stage_rec[OF E(1) s1(2) p(3) sh] l] s1 by (auto simp: stage_rec_def rec_step_def)
  have q: "sends quiet s1 s2" using ores_RetD[OF log_stage_sends[OF ne] l] by simp
  have "tl_fits ?p" using p(4) by (simp add: tl_fits_def)
  then have "crash_inv E (tl_fname p) R0 s1 ?p s2"
    using crash_inv_first[OF s(3) s2(1), of ?p E] p(3) lk s2 q by simp
  from tm_drive_crash[OF E this]
  have "crash_safe (tl_fname p) R0 s1 (ostate (tm_drive E ?p XA_OP_COMMIT tmflags s2))"
    by (simp add: ores_ostate)
  moreover have "ostate (tm_tpcommit E ub s) = ostate (tm_drive E ?p XA_OP_COMMIT tmflags s2)"
    unfolding tpcommit_goes_on[OF ub get p(1,2)] l by (simp add: ostate_reply_if)
  ultimately show ?thesis using s1(1) by (simp add: crash_safe_def)
qed

section \<open>What is left of the log\<close>

text \<open>A file that is cut off within lines ends in whole lines and the beginning of one more.\<close>

lemma cut_lines:
  assumes "prefix X (concat ls)"
  shows "\<exists>n tail. n \<le> length ls \<and> X = concat (take n ls) @ tail \<and>
    (n = length ls \<and> tail = [] \<or> n < length ls \<and> strict_prefix tail (ls ! n))"
  using assms
proof (induction ls arbitrary: X)
  case (Cons l ls)
  show ?case
  proof (cases "prefix l X")
    case True
    then obtain Y where Y: "X = l @ Y" by (auto simp: prefix_def)
    then have "prefix Y (concat ls)" using Cons.prems by simp
    from Cons.IH[OF this] obtain n tail where "n \<le> length ls" "Y = concat (take n ls) @ tail"
      "n = length ls \<and> tail = [] \<or> n < length ls \<and> strict_prefix tail (ls ! n)" by blast
    then show ?thesis using Y by (intro exI[of _ "Suc n"] exI[of _ tail]) auto
  next
    case False
    then have "strict_prefix X l"
      using Cons.prems by (auto simp: strict_prefix_def dest: prefix_append[THEN iffD1])
    then show ?thesis by (intro exI[of _ 0] exI[of _ X]) simp
  qed
qed simp

lemma cut_lines_ge:
  assumes "prefix (concat (take k ls)) (concat (take n ls) @ tail)" "k \<le> length ls" "\<forall>l \<in> set ls. l \<noteq> []"
    and "n = length ls \<and> tail = [] \<or> n < length ls \<and> strict_prefix tail (ls ! n)"
  shows "k \<le> n"
proof (rule ccontr)
  assume "\<not> k \<le> n"
  then have n: "n < length ls" "n < k" "strict_prefix tail (ls ! n)" using assms(2,4) by auto
  have "take k ls = take n ls @ ls ! n # take (k - Suc n) (drop (Suc n) ls)"
    using n by (metis Cons_nth_drop_Suc Suc_diff_Suc append_take_drop_id drop_take id_take_nth_drop
        less_imp_le_nat min.absorb1 take_Suc_Cons take_add take_take le_add_diff_inverse)
  then have "prefix (ls ! n @ concat (take (k - Suc n) (drop (Suc n) ls))) tail"
    using assms(1) by simp
  then have "length (ls ! n) \<le> length tail" using prefix_length_le by fastforce
  moreover have "length tail < length (ls ! n)" using n(3) by (rule prefix_length_less)
  ultimately show False by simp
qed


text \<open>What a crash after \<open>m\<close> events may leave of a file that started as \<open>c0\<close>.\<close>

definition left_over :: "string \<Rightarrow> string \<Rightarrow> tm_event list \<Rightarrow> nat \<Rightarrow> string \<Rightarrow> bool" where
  "left_over f c0 evs m C \<longleftrightarrow> m \<le> length evs \<and> EvUnlink f \<notin> set (take m evs) \<and>
     prefix C (c0 @ written f (take m evs)) \<and>
     (\<forall>i < m. real_sync f (evs ! i) \<longrightarrow> prefix (c0 @ written f (take i evs)) C)"

lemma rec_line_shape:
  assumes "rec_ok r" "c_long ts" "strict_prefix tail (rec_line ts r)"
  shows "NL \<notin> set tail \<and> length tail \<le> 1023"
proof -
  define b where "b = rec_raw ts r @ [LOG_RS_SEP] @ hex_pad 8 (log_crc (rec_raw ts r))"
  have "rec_line ts r = b @ [NL]" using rec_line_eq[OF assms(1,2)] by (simp add: b_def)
  then have "prefix tail b" using assms(3) by (auto simp: strict_prefix_def prefix_snoc)
  then have "set tail \<subseteq> set b" "length tail \<le> length b"
    using prefix_length_le set_mono_prefix by blast+
  moreover have "NL \<notin> set b" "length b \<le> 1023"
    using rec_raw_facts[OF assms(1,2)] hex_pad_8[of "rec_raw ts r"] by (auto simp: b_def)
  ultimately show ?thesis by auto
qed

lemma lines_in_mono: "i \<le> m \<Longrightarrow> length (lines_in f (take i evs)) \<le> length (lines_in f (take m evs))"
  by (auto simp: le_iff_add take_add)

lemma left_over_image:
  assumes lines: "lines_in f evs = lines_of recs" "recs_ok recs"
    and left: "left_over f c0 evs m C" and c0: "c0 = log_image ts0 info R0 []" "prefix c0 C"
  shows "\<exists>n tail. cut f evs m n \<and> C = log_image ts0 info (R0 @ take n recs) tail \<and>
    NL \<notin> set tail \<and> length tail \<le> 1023"
proof -
  let ?L = "\<lambda>i. length (lines_in f (take i evs))"
  have tk: "lines_in f (take i evs) = take (?L i) (lines_of recs)" for i
    using lines_in_take[of f i evs] lines(1) by simp
  have Lm: "?L i \<le> ?L m" if "i < m" for i using lines_in_mono[of i m f evs] that by simp
  have len: "?L m \<le> length (lines_of recs)"
    using lines_in_mono[of m "length evs" f evs] left lines(1) by (simp add: left_over_def)
  define ls where "ls = take (?L m) (lines_of recs)"
  have lsl: "length ls = ?L m" using len by (simp add: ls_def)
  have tki: "lines_in f (take i evs) = take (?L i) ls" if "i < m" for i
    using tk[of i] Lm[OF that] by (simp add: ls_def min.absorb1)
  obtain X where X: "C = c0 @ X" using c0(2) by (auto simp: prefix_def)
  then have "prefix X (concat ls)"
    using left tk[of m] by (simp add: left_over_def written_lines ls_def)
  from cut_lines[OF this] obtain n tail where n: "n \<le> length ls" "X = concat (take n ls) @ tail"
      "n = length ls \<and> tail = [] \<or> n < length ls \<and> strict_prefix tail (ls ! n)"
    by blast
  have good: "\<exists>ts r. l = rec_line ts r \<and> rec_ok r \<and> c_long ts" if "l \<in> set ls" for l
    using that lines(2) in_set_takeD[of l "?L m" "lines_of recs"] by (fastforce simp: ls_def lines_of_def recs_ok_def)
  then have ne: "\<forall>l \<in> set ls. l \<noteq> []" using rec_line_eq by force
  have "?L i \<le> n" if i: "i < m" "real_sync f (evs ! i)" for i
  proof (rule cut_lines_ge[OF _ _ ne n(3)])
    have "prefix (c0 @ concat (take (?L i) ls)) C"
      using left i tki[OF i(1)] by (auto simp: left_over_def written_lines)
    then show "prefix (concat (take (?L i) ls)) (concat (take n ls) @ tail)" using X n(2) by simp
    show "?L i \<le> length ls" using Lm[OF i(1)] lsl by simp
  qed
  then have "cut f evs m n" using left n(1) lsl by (simp add: cut_def left_over_def)
  moreover have "C = log_image ts0 info (R0 @ take n recs) tail"
    using X n(1,2) lsl unfolding c0(1) ls_def
    by (simp add: log_image_def lines_of_def take_map min.absorb1)
  moreover have "NL \<notin> set tail \<and> length tail \<le> 1023"
  proof (cases "tail = []")
    case False
    then have t: "n < length ls" "strict_prefix tail (ls ! n)" using n(3) by auto
    obtain ts r where "ls ! n = rec_line ts r" "rec_ok r" "c_long ts" using good[of "ls ! n"] t(1) by auto
    then show ?thesis using rec_line_shape t(2) by simp
  qed simp
  ultimately show ?thesis by blast
qed

lemma crash_safe_restart:
  assumes safe: "crash_safe f R0 s0 s" and R0: "rec_stages R0 = []" "recs_ok R0"
    and info: "rec_ok (RecInfo a b c d)" "c_long ts0" "c0 = log_image ts0 (RecInfo a b c d) R0 []"
    and names: "f \<noteq> []" "length f \<le> 4096" "length xid \<le> NDRX_XID_SERIAL_BUFSIZE"
    and evs: "st_trace s = st_trace s0 @ evs" and left: "left_over f c0 evs m C"
    and new: "calm E2" "st_disk s2 f = Some C"
  shows "((\<exists>ev \<in> set (take m evs). is_commit ev) \<longrightarrow>
      (\<exists>p' s'. tms_load_logfile E2 f xid s2 = Ret (EXSUCCEED, Some p', False, False) s' \<and> commit_range (tl_txstage p'))) \<and>
    ((\<exists>ev \<in> set (take m evs). is_rollback ev) \<and> prefix c0 C \<longrightarrow>
      (\<exists>p' s'. tms_load_logfile E2 f xid s2 = Ret (EXSUCCEED, Some p', False, False) s' \<and> abort_range (tl_txstage p')))"
proof -
  obtain recs where recs: "lines_in f evs = lines_of recs" "recs_ok recs" "\<forall>x \<in> set (rec_stages recs). 0 \<le> x"
      "cuts_ok f R0 evs recs"
    using safe evs by (auto simp: crash_safe_def)
  have load: "\<exists>n p' s'. cut f evs m n \<and> tms_load_logfile E2 f xid s2 = Ret (EXSUCCEED, Some p', False, False) s' \<and>
      tl_txstage p' = stage_at R0 recs n" if c0: "prefix c0 C"
  proof -
    obtain n tail where n: "cut f evs m n" "C = log_image ts0 (RecInfo a b c d) (R0 @ take n recs) tail"
        "NL \<notin> set tail" "length tail \<le> 1023"
      using left_over_image[OF recs(1,2) left info(3) c0] by blast
    have ok: "recs_ok (R0 @ take n recs)" "\<forall>x \<in> set (rec_stages (R0 @ take n recs)). 0 \<le> x"
      using R0 recs(2,3) rec_stages_take[of n recs] by (auto simp: recs_ok_def dest: in_set_takeD)
    show ?thesis
      using load_image[OF new(1) info(1,2) ok n(3,4) names] new(2) n(1,2) unfolding stage_at_def by blast
  qed
  have "prefix c0 C" if commit: "\<exists>ev \<in> set (take m evs). is_commit ev"
  proof -
    have "\<not> commit_range (stage_at R0 recs 0)"
      using R0(1) by (simp add: stage_at_def logged_stage_def recovered_stage_def commit_range_def)
    then have "\<not> cut f evs m 0" using recs(4) commit by (auto simp: cuts_ok_def)
    then obtain i where "i < m" "real_sync f (evs ! i)" using left by (auto simp: cut_def left_over_def)
    then show ?thesis using left by (metis left_over_def append_prefixD)
  qed
  then show ?thesis using load recs(4) unfolding cuts_ok_def by metis
qed

end
