(* ===== verification/Tm_Success.thy ===== *)
theory Tm_Success
  imports Tm_Properties
begin

text \<open>
  The good case.  When allocation, disk and resource managers work and no test switch is on, a
  commit request for a transaction with active branches goes through the stages PREPARING,
  COMMITTING and COMMITTED: every branch is told to prepare and to commit, the reply is
  success, and the transaction and its log are gone.
\<close>

definition healthy :: "tm_env \<Rightarrow> bool" where
  "healthy E \<longleftrightarrow> (\<forall>t. e_alloc E t \<and> e_fprintf E t \<and> e_fflush E t \<and> e_fileno E t \<and> e_fsync E t \<and> e_opendir E t \<and>
       e_dsync E t \<and> (\<forall>op rmid btid. fst (e_xa E t op rmid btid) = EXSUCCEED)) \<and>
     \<not> e_lockloss E \<and> \<not> e_tmscommit E \<and> e_procgrp_no E = 0 \<and> e_commit_crash E = 0 \<and> e_tlog_dir E \<noteq> []"

section \<open>Logging\<close>

lemma healthy_write:
  assumes "healthy E" "st_write_fail s = 0" "e_tid E = tl_lockthreadid p"
  shows "\<exists>s'. tms_log_write_line E p cmd msg s = (EXSUCCEED, s') \<and> sends quiet s s' \<and> st_write_fail s' = 0 \<and>
    st_hash s' = st_hash s"
proof (cases "tl_f p")
  case True
  let ?t = "log_text (e_clock E (st_tick s)) cmd msg"
  have len: "snd (log_line v False ?t) = int (length (fst (log_line v False ?t)))" for v :: int
    by (simp add: log_line_def Let_def hex_pad_8)
  obtain ln n where l: "log_line (tl_log_version p) False ?t = (ln, n)" by (meson surj_pair)
  have "tms_log_write_line E p cmd msg s = (EXSUCCEED, tick (disk_append (tl_fname p) ln s))"
    using assms True l len[of "tl_log_version p"]
    by (simp add: tms_log_write_line_def log_output_def healthy_def Let_def)
  then show ?thesis using assms(2)
    by (auto simp: sends_def quiet_def is_commit_def is_rollback_def)
qed (use assms in \<open>auto simp: tms_log_write_line_def\<close>)

lemma healthy_lines:
  assumes "healthy E" "e_tid E = tl_lockthreadid p"
  shows "st_write_fail s = 0 \<Longrightarrow> \<exists>s'. log_stage_lines E p stage n s = (EXSUCCEED, s') \<and> sends quiet s s' \<and>
    st_write_fail s' = 0 \<and> st_hash s' = st_hash s"
proof (induction n arbitrary: s)
  case (Suc n)
  obtain s1 where s1: "tms_log_write_line E p LOG_COMMAND_STAGE (fmt_d stage) s = (EXSUCCEED, s1)" "sends quiet s s1"
      "st_write_fail s1 = 0" "st_hash s1 = st_hash s"
    using healthy_write[OF assms(1) Suc.prems assms(2)] by blast
  from Suc.IH[OF s1(3)] show ?case using s1 by (auto intro: sends_trans)
qed auto

lemma healthy_stage:
  assumes "healthy E" "st_write_fail s = 0" "e_tid E = tl_lockthreadid p" "tl_f p" "tl_txstage p \<noteq> stage"
  shows "\<exists>s'. tms_log_stage E p stage forced s = Ret (EXSUCCEED, p\<lparr>tl_txstage := stage\<rparr>) s' \<and> sends quiet s s' \<and>
    st_write_fail s' = 0 \<and> st_hash s' = st_hash s"
proof -
  let ?p = "p\<lparr>tl_txstage := stage\<rparr>"
  obtain s1 where s1: "log_stage_lines E ?p stage (if stage = XA_TX_STAGE_ABORTING then 3 else 1) s = (EXSUCCEED, s1)"
      "sends quiet s s1" "st_write_fail s1 = 0" "st_hash s1 = st_hash s"
    using healthy_lines[OF assms(1) _ assms(2), of ?p stage] assms(3) by auto
  have "\<exists>ops. log_sync E ?p s1 = (EXSUCCEED, emit (EvSync (tl_fname p) ops) (tick s1))"
    using assms(1,4) by (auto simp: log_sync_def healthy_def ndrx_fsync_fsync_def ndrx_fsync_dsync_def)
  then obtain s2 where s2: "log_sync E ?p s1 = (EXSUCCEED, s2)" "sends quiet s1 s2" "st_write_fail s2 = 0" "st_hash s2 = st_hash s1"
    using s1(3) by (auto simp: sends_def quiet_def is_commit_def is_rollback_def)
  have cp: "tms_log_checkpointseq E q s' = Ret (EXSUCCEED, q) s'" for q s'
    using assms(1) by (simp add: healthy_def tms_log_checkpointseq_def)
  have "log_stage_write E ?p stage s =
      Ret (EXSUCCEED, ?p) (if stage = XA_TX_STAGE_COMMITTING \<or> stage = XA_TX_STAGE_ABORTING then s2 else s1)"
    using s1(1) s2(1) cp by (auto simp: log_stage_write_def)
  then show ?thesis
    using assms s1 s2 sends_trans[OF s1(2) s2(2)] by (auto simp: tms_log_stage_def healthy_def Let_def)
qed

lemma healthy_rmstatus:
  assumes "healthy E" "st_write_fail s = 0" "e_tid E = tl_lockthreadid p"
    and "tms_log_rmstatus E p rmid bt st ec rs s = (ret, p', s')"
  shows "ret = EXSUCCEED \<and> sends quiet s s' \<and> st_write_fail s' = 0 \<and> st_hash s' = st_hash s"
proof -
  let ?p = "bt_put p rmid (bt\<lparr>bt_rmstatus := st, bt_rmerrorcode := ec, bt_rmreason := to_short rs\<rparr>)"
  have "e_tid E = tl_lockthreadid ?p" using assms(3) by (simp add: bt_put_def)
  then obtain s1 where "tms_log_write_line E ?p LOG_COMMAND_RMSTAT
      (rmstatus_msg (bt_rmid bt) st ec (to_short rs) (bt_btid bt)) s = (EXSUCCEED, s1)"
      "sends quiet s s1" "st_write_fail s1 = 0" "st_hash s1 = st_hash s"
    using healthy_write[OF assms(1,2)] by blast
  then show ?thesis using assms(2-4) by (cases "bt_rmstatus bt = st") (auto simp: tms_log_rmstatus_def Let_def)
qed

section \<open>A pass with one answer\<close>

text \<open>Every branch in \<open>ks\<close> has the status \<open>c\<close>.\<close>

definition all_in :: "(int \<times> int) list \<Rightarrow> char \<Rightarrow> xa_log \<Rightarrow> bool" where
  "all_in ks c p \<longleftrightarrow> (\<forall>(rmid, k) \<in> set ks. \<exists>el. tms_btid_find p rmid k = Some el \<and> bt_rmstatus el = c)"

text \<open>What a pass leaves when every call succeeds: the votes, the new status, and a call for
  every branch.\<close>

definition pass_done :: "tm_env \<Rightarrow> int \<Rightarrow> int \<Rightarrow> char \<Rightarrow> (int \<times> int) list \<Rightarrow> drive_acc \<Rightarrow> tm_st \<Rightarrow> drive_acc \<Rightarrow> tm_st \<Rightarrow> bool" where
  "pass_done E op v b ks acc s acc' s' \<longleftrightarrow> \<not> da_err acc' \<and> da_jump acc' = None \<and> da_retry acc' = da_retry acc \<and>
     map v_stage (da_votes acc') = map v_stage (da_votes acc) @ replicate (length ks) v \<and>
     tl_wf (da_p acc') \<and> same_entry (da_p acc) (da_p acc') \<and> st_write_fail s' = 0 \<and> st_hash s' = st_hash s \<and>
     all_in ks b (da_p acc') \<and>
     (\<forall>rmid k. rmid_ok rmid \<longrightarrow> (rmid, k) \<notin> set ks \<longrightarrow> tms_btid_find (da_p acc') rmid k = tms_btid_find (da_p acc) rmid k) \<and>
     (\<exists>evs. st_trace s' = st_trace s @ evs \<and> (\<forall>(rmid, k) \<in> set ks. EvXa op rmid k \<in> set evs))"

lemma healthy_op:
  assumes "healthy E" "op = XA_OP_PREPARE \<or> op = XA_OP_COMMIT"
  shows "\<exists>s1. drive_op E op rmid btid s = Some (XA_OK, s1) \<and> st_trace s1 = st_trace s @ [EvXa op rmid btid] \<and>
     st_write_fail s1 = st_write_fail s \<and> st_hash s1 = st_hash s"
proof -
  have rc: "fst (rm_call E op rmid btid s) = EXSUCCEED" for op
    using assms(1) by (auto simp: rm_call_def healthy_def split: prod.splits) (metis fst_conv)
  have st: "st_trace (snd (rm_call E op rmid btid s)) = st_trace s @ [EvXa op rmid btid]"
    "st_write_fail (snd (rm_call E op rmid btid s)) = st_write_fail s" "st_hash (snd (rm_call E op rmid btid s)) = st_hash s"
    by (auto simp: rm_call_def split: prod.splits)
  have "drive_op E op rmid btid s = Some (XA_OK, snd (rm_call E op rmid btid s))"
    using assms combined_call[of E rmid btid s] rc by (auto simp: drive_op_def healthy_def Let_def case_prod_beta)
  then show ?thesis using st by blast
qed

lemma healthy_branch:
  assumes E: "healthy E" and op: "op = XA_OP_PREPARE \<or> op = XA_OP_COMMIT"
    and st: "tl_txstage (da_p acc) = st" "xa_status_get_op st a = op" "xa_status_get_next_by_op st a op XA_OK = Some row"
      "d_next_txstage row = v" "d_next_rmstatus row = b" "\<not> v < XA_TX_STAGE_PREPARING"
    and acc: "tl_wf (da_p acc)" "e_tid E = tl_lockthreadid (da_p acc)" "st_write_fail s = 0" "\<not> da_err acc" "da_jump acc = None"
    and k: "rmid_ok rmid" "tms_btid_find (da_p acc) rmid k = Some el" "bt_rmstatus el = a"
  shows "\<exists>acc' s'. drive_branch E descr rmid el acc s = (acc', s') \<and> pass_done E op v b [(rmid, k)] acc s acc' s'"
proof -
  let ?p = "da_p acc"
  have bk: "bt_btid el = k" using tms_btid_find_Some[OF k(2)] by simp
  obtain s1 where s1: "drive_op E op rmid k s = Some (XA_OK, s1)" "st_trace s1 = st_trace s @ [EvXa op rmid k]"
      "st_write_fail s1 = 0" "st_hash s1 = st_hash s"
    using healthy_op[OF E op] acc(3) by metis
  obtain ret p1 s2 where lg: "tms_log_rmstatus E ?p rmid el b (st_tperrno s1) XA_OK s1 = (ret, p1, s2)"
    by (metis prod_cases3)
  note ok = healthy_rmstatus[OF E s1(3) acc(2) lg]
  note find = log_rmstatus_find[OF acc(1) k(1,2) acc(2) lg]
  have e: "same_entry ?p p1" using log_rmstatus_entry[of ?p E rmid el b "st_tperrno s1" XA_OK s1] lg by simp
  have al: "e_alloc E t" for t using E by (simp add: healthy_def)
  have np: "op \<noteq> XA_OP_NOP" using op by auto
  let ?acc = "acc\<lparr>da_p := p1, da_votes := da_votes acc @ [\<lparr>v_rmid = bt_rmid el, v_stage = v, v_btid = bt_btid el\<rparr>]\<rparr>"
  have run: "drive_branch E descr rmid el acc s = (?acc, tick s2)"
    using s1(1) st k(3) bk lg np al ok
    by (simp add: drive_branch_def drive_vote_def Let_def)
  obtain evs where "st_trace s2 = st_trace s1 @ evs" using ok by (auto simp: sends_def)
  then have "pass_done E op v b [(rmid, k)] acc s ?acc (tick s2)"
    using find ok s1 acc(4,5) e k(1) by (auto simp: pass_done_def all_in_def)
  then show ?thesis using run by blast
qed

lemma healthy_pass:
  assumes E: "healthy E" and op: "op = XA_OP_PREPARE \<or> op = XA_OP_COMMIT"
    and st: "xa_status_get_op st a = op" "xa_status_get_next_by_op st a op XA_OK = Some row"
      "d_next_txstage row = v" "d_next_rmstatus row = b" "\<not> v < XA_TX_STAGE_PREPARING"
  shows "tl_txstage (da_p acc) = st \<Longrightarrow> tl_wf (da_p acc) \<Longrightarrow> e_tid E = tl_lockthreadid (da_p acc) \<Longrightarrow> st_write_fail s = 0 \<Longrightarrow>
    \<not> da_err acc \<Longrightarrow> da_jump acc = None \<Longrightarrow> distinct ks \<Longrightarrow> \<forall>(rmid, k) \<in> set ks. rmid_ok rmid \<Longrightarrow> all_in ks a (da_p acc) \<Longrightarrow>
    \<exists>acc' s'. drive_branches E descr ks acc s = (acc', s') \<and> pass_done E op v b ks acc s acc' s'"
proof (induction ks arbitrary: acc s)
  case Nil
  then show ?case by (auto simp: pass_done_def all_in_def)
next
  case (Cons key ks)
  obtain rmid k where key: "key = (rmid, k)" by (cases key)
  then obtain el where el: "tms_btid_find (da_p acc) rmid k = Some el" "bt_rmstatus el = a"
    using Cons.prems(9) by (auto simp: all_in_def)
  have rk: "rmid_ok rmid" using Cons.prems(8) key by simp
  obtain acc1 s1 where br: "drive_branch E descr rmid el acc s = (acc1, s1)"
    and d1: "pass_done E op v b [(rmid, k)] acc s acc1 s1"
    using healthy_branch[OF E op Cons.prems(1) st Cons.prems(2-6) rk el] by blast
  have f1: "tl_txstage (da_p acc1) = st" "tl_wf (da_p acc1)" "e_tid E = tl_lockthreadid (da_p acc1)" "st_write_fail s1 = 0"
      "\<not> da_err acc1" "da_jump acc1 = None" "same_entry (da_p acc) (da_p acc1)"
    using d1 same_entry_fields[of "da_p acc" "da_p acc1"] Cons.prems(1,3) by (auto simp: pass_done_def)
  have oth: "tms_btid_find (da_p acc1) r' k' = tms_btid_find (da_p acc) r' k'" if "rmid_ok r'" "(r', k') \<noteq> (rmid, k)" for r' k'
    using d1 that by (auto simp: pass_done_def)
  have "all_in ks a (da_p acc1)"
    using Cons.prems(7-9) key oth by (fastforce simp: all_in_def)
  from Cons.IH[OF f1(1-6) _ _ this] obtain acc' s' where run: "drive_branches E descr ks acc1 s1 = (acc', s')"
    and d2: "pass_done E op v b ks acc1 s1 acc' s'"
    using Cons.prems(7,8) by auto
  have "all_in [(rmid, k)] b (da_p acc')"
    using d1 d2 rk Cons.prems(7) key by (auto simp: pass_done_def all_in_def)
  then have "all_in ((rmid, k) # ks) b (da_p acc')" using d2 by (auto simp: pass_done_def all_in_def)
  moreover obtain e1 e2 where "st_trace s1 = st_trace s @ e1" "EvXa op rmid k \<in> set e1" "st_trace s' = st_trace s1 @ e2"
      "\<forall>(rmid, k) \<in> set ks. EvXa op rmid k \<in> set e2"
    using d1 d2 by (auto simp: pass_done_def)
  then have "\<exists>evs. st_trace s' = st_trace s @ evs \<and> (\<forall>(rmid, k) \<in> set ((rmid, k) # ks). EvXa op rmid k \<in> set evs)"
    by (intro exI[of _ "e1 @ e2"]) auto
  ultimately have "pass_done E op v b ((rmid, k) # ks) acc s acc' s'"
    using d1 d2 oth unfolding pass_done_def by (auto intro: same_entry_trans)
  then show ?case using br run el key f1(5,6) by auto
qed

section \<open>The rounds\<close>

definition all_branches :: "char \<Rightarrow> xa_log \<Rightarrow> bool" where
  "all_branches c p \<longleftrightarrow> (\<forall>rmid k el. rmid_ok rmid \<longrightarrow> tms_btid_find p rmid k = Some el \<longrightarrow> bt_rmstatus el = c)"

lemma key_found:
  assumes "(rmid, k) \<in> set (branch_keys p)"
  shows "rmid_ok rmid \<and> (\<exists>el. tms_btid_find p rmid k = Some el)"
proof -
  obtain i b where i: "i < NDRX_MAX_RMS" "rmid = int i + 1" "b \<in> set (btid_hash (tl_rmstatus p ! i))" "k = bt_btid b"
    using assms by (auto simp: branch_keys_def)
  then have "ex_find bt_btid k (btid_hash (rm_at p rmid)) \<noteq> None"
    by (auto simp: rm_at_def ex_find_None)
  then show ?thesis using i by (auto simp: tms_btid_find_def rmid_ok_def)
qed

lemma all_in_keys: "all_branches c p \<Longrightarrow> all_in (branch_keys p) c p"
  using key_found by (fastforce simp: all_in_def all_branches_def)

lemma calc_stage_uniform:
  assumes "map v_stage votes = replicate (Suc n) v" "0 \<le> v" "v < XA_TX_STAGE_MAX_NEVER" "0 \<le> s_txs_max_complete descr"
  shows "calc_stage descr votes = v"
proof -
  have all: "v_stage ` set votes = {v}" using assms(1) by (metis list.set_map set_replicate_Suc)
  then obtain x where "x \<in> set votes" "v_stage x = v" by blast
  then have "min_in_overall votes \<le> v" using min_in_overall_le by blast
  then have "min_in_overall votes = v"
    using min_in_overall_mem[of votes] all assms(3) by auto
  moreover have "max_in_overall votes = v \<or> max_in_overall votes = XA_TX_STAGE_MIN_NEVER"
    using max_in_overall_mem[of votes] all by auto
  moreover have "min_in_group descr votes = XA_TX_STAGE_MAX_NEVER"
    by (rule min_in_group_never) (use all assms(3) in auto)
  ultimately show ?thesis using assms by (auto simp: calc_stage_def Let_def)
qed

lemma healthy_round:
  assumes E: "healthy E" and op: "op = XA_OP_PREPARE \<or> op = XA_OP_COMMIT"
    and st: "xa_status_get_op st a = op" "xa_status_get_next_by_op st a op XA_OK = Some row"
      "d_next_txstage row = v" "d_next_rmstatus row = b" "\<not> v < XA_TX_STAGE_PREPARING" "v < XA_TX_STAGE_MAX_NEVER"
      "v \<noteq> st" "xa_stage_get_descr st = Some descr"
    and p: "tl_txstage p = st" "tl_wf p" "e_tid E = tl_lockthreadid p" "st_write_fail s = 0" "tl_f p"
      "all_branches a p" "branch_keys p \<noteq> []"
    and fl: "\<not> bit flags 2"
  shows "\<exists>p' s' evs. drive_round E flags p n s = Ret (DrAgain p' 0) s' \<and> tl_txstage p' = v \<and> tl_wf p' \<and>
     entry_kept p p' \<and> st_write_fail s' = 0 \<and> st_hash s' = st_hash s \<and> all_branches b p' \<and> branch_keys p' \<noteq> [] \<and>
     st_trace s' = st_trace s @ evs \<and>
     (\<forall>rmid k el. rmid_ok rmid \<longrightarrow> tms_btid_find p rmid k = Some el \<longrightarrow>
        EvXa op rmid k \<in> set evs \<and> tms_btid_find p' rmid k \<noteq> None)"
proof -
  let ?acc0 = "\<lparr>da_p = p, da_votes = [], da_retry = False, da_jump = None, da_err = False\<rparr>" and ?ks = "branch_keys p"
  obtain acc s1 where run: "drive_branches E descr ?ks ?acc0 s = (acc, s1)"
    and d: "pass_done E op v b ?ks ?acc0 s acc s1"
    using healthy_pass[OF E op st(1-5), of ?acc0 s ?ks descr] p all_in_keys[OF p(6)] branch_keys_distinct[OF p(2)]
      branch_keys_ok[of p] by auto
  have pd: "\<not> da_err acc" "da_jump acc = None" "\<not> da_retry acc" "map v_stage (da_votes acc) = replicate (length ?ks) v"
      "tl_wf (da_p acc)" "same_entry p (da_p acc)" "st_write_fail s1 = 0" "st_hash s1 = st_hash s" "all_in ?ks b (da_p acc)"
      "\<And>rmid k. rmid_ok rmid \<Longrightarrow> (rmid, k) \<notin> set ?ks \<Longrightarrow> tms_btid_find (da_p acc) rmid k = tms_btid_find p rmid k"
    using d by (auto simp: pass_done_def)
  obtain e1 where e1: "st_trace s1 = st_trace s @ e1" "\<forall>(rmid, k) \<in> set ?ks. EvXa op rmid k \<in> set e1"
    using d by (auto simp: pass_done_def)
  note f = same_entry_fields[OF pd(6)]
  have dd: "s_txstage descr = st" "0 \<le> s_txs_max_complete descr"
    using xa_stage_get_descr_Some[OF st(8)] descr_max_lt_never[OF st(8)] by auto
  obtain m where "length ?ks = Suc m" using p(7) by (cases ?ks) auto
  then have new: "calc_stage descr (da_votes acc) = v"
    using calc_stage_uniform[of "da_votes acc" m v descr] pd(4) st(5,6) dd(2) by simp
  have sw0: "e_tid E = tl_lockthreadid (da_p acc)" "tl_f (da_p acc)" "tl_txstage (da_p acc) \<noteq> v"
    using f p st(7) by auto
  let ?p' = "(da_p acc)\<lparr>tl_txstage := v\<rparr>"
  obtain s2 where s2: "tms_log_stage E (da_p acc) v (v \<noteq> XA_TX_STAGE_COMMITTING) s1 = Ret (EXSUCCEED, ?p') s2"
      "sends quiet s1 s2" "st_write_fail s2 = 0" "st_hash s2 = st_hash s1"
    using healthy_stage[OF E pd(7) sw0] by blast
  have sw: "drive_switch E (da_p acc) descr v s1 = Ret (True, ?p') s2"
    using s2(1) st(6,7) dd(1) by (simp add: drive_switch_def)
  have "drive_round E flags p n s = Ret (DrAgain ?p' 0) s2"
    using run p(1) st(8) pd(1-3) new sw fl by (simp add: drive_round_def)
  moreover have "entry_kept p ?p'" using same_entry_kept[OF pd(6)]
    by (rule entry_kept_trans) (use seq_only_kept[OF seq_only_refl] in blast)
  moreover have "all_branches b ?p'"
    unfolding all_branches_def
  proof (intro allI impI)
    fix rmid k el
    assume r: "rmid_ok rmid" and fnd: "tms_btid_find ?p' rmid k = Some el"
    then have fnd': "tms_btid_find (da_p acc) rmid k = Some el" by (simp add: tms_btid_find_def rm_at_def)
    have "(rmid, k) \<in> set ?ks"
    proof (rule ccontr)
      assume "(rmid, k) \<notin> set ?ks"
      then show False using pd(10)[OF r] fnd' branch_keys_set[OF p(2) r] by auto
    qed
    then show "bt_rmstatus el = b" using pd(9) fnd' by (auto simp: all_in_def)
  qed
  moreover have keys: "tms_btid_find ?p' rmid k \<noteq> None" if "(rmid, k) \<in> set ?ks" for rmid k
    using pd(9) that by (auto simp: all_in_def tms_btid_find_def rm_at_def)
  moreover have wf': "tl_wf ?p'" using pd(5) by (simp add: tl_wf_def)
  moreover have "branch_keys ?p' \<noteq> []"
  proof -
    obtain rmid k where rk: "(rmid, k) \<in> set ?ks" using p(7) by (cases ?ks) auto
    then show ?thesis using branch_keys_set[OF wf'] keys[OF rk] key_found[OF rk] by fastforce
  qed
  moreover obtain e2 where "st_trace s2 = st_trace s1 @ e2" using s2(2) by (auto simp: sends_def)
  ultimately show ?thesis
    using s2 pd(8) e1 branch_keys_set[OF p(2)]
    by (intro exI[of _ ?p'] exI[of _ s2] exI[of _ "e1 @ e2"]) fastforce
qed

text \<open>In a final stage the branches have no vote.\<close>

lemma final_pass:
  assumes "tl_txstage (da_p acc) = XA_TX_STAGE_COMMITTED" "\<not> da_err acc" "da_jump acc = None" "\<not> da_retry acc"
  shows "drive_branches E descr ks acc s = (acc, s)"
proof (induction ks)
  case (Cons key ks)
  have op: "xa_status_get_op XA_TX_STAGE_COMMITTED c = XA_OP_NOP" for c by (simp add: xa_status_get_op_eq)
  have nx: "xa_status_get_next_by_new_status XA_TX_STAGE_COMMITTED c = None" for c
    by (simp add: xa_status_get_next_by_new_status_def op_table_switch_def)
  have "drive_branch E descr rmid el acc s = (acc, s)" for rmid el
    using assms op nx by (simp add: drive_branch_def drive_op_def Let_def)
  then show ?case using Cons assms by (cases key) (auto split: option.splits)
qed simp

lemma final_round:
  assumes "tl_txstage p = XA_TX_STAGE_COMMITTED" "xa_stage_get_descr XA_TX_STAGE_COMMITTED = Some descr"
  shows "drive_round E flags p n s = Ret (DrDone p descr) s"
proof -
  have d: "s_txstage descr = XA_TX_STAGE_COMMITTED" "s_txs_max_complete descr = XA_TX_STAGE_COMMITTED"
    using assms(2) by (auto simp: xa_stage_get_descr_def table_facts)
  have "calc_stage descr [] = XA_TX_STAGE_COMMITTED"
    using d by (auto simp: calc_stage_def min_in_overall_def max_in_overall_def min_in_group_def Let_def)
  then show ?thesis
    using assms d final_pass[of "\<lparr>da_p = p, da_votes = [], da_retry = False, da_jump = None, da_err = False\<rparr>" E descr]
    by (simp add: drive_round_def drive_switch_def)
qed

lemma good_rows:
  "xa_status_get_op XA_TX_STAGE_PREPARING XA_RM_STATUS_ACTIVE = XA_OP_PREPARE"
  "xa_status_get_op XA_TX_STAGE_COMMITTING XA_RM_STATUS_PREP = XA_OP_COMMIT"
  "\<exists>row. xa_status_get_next_by_op XA_TX_STAGE_PREPARING XA_RM_STATUS_ACTIVE XA_OP_PREPARE XA_OK = Some row \<and>
     d_next_txstage row = XA_TX_STAGE_COMMITTING \<and> d_next_rmstatus row = XA_RM_STATUS_PREP"
  "\<exists>row. xa_status_get_next_by_op XA_TX_STAGE_COMMITTING XA_RM_STATUS_PREP XA_OP_COMMIT XA_OK = Some row \<and>
     d_next_txstage row = XA_TX_STAGE_COMMITTED \<and> d_next_rmstatus row = XA_RM_STATUS_COMMITTED"
  "\<exists>d. xa_stage_get_descr XA_TX_STAGE_PREPARING = Some d" "\<exists>d. xa_stage_get_descr XA_TX_STAGE_COMMITTING = Some d"
  "\<exists>d. xa_stage_get_descr XA_TX_STAGE_COMMITTED = Some d \<and> s_txstage d = XA_TX_STAGE_COMMITTED \<and>
     s_txs_min_complete d = XA_TX_STAGE_COMMITTED \<and> s_txs_max_complete d = XA_TX_STAGE_COMMITTED"
  "xa_txstage2tperrno XA_TX_STAGE_COMMITTED XA_OP_COMMIT = EXSUCCEED"
  by (simp_all add: lookup_defs table_facts)

text \<open>The log is there until the end: a journal step and a round remove no file.\<close>

lemma journal_keeps:
  assumes "journal_step f P s s'" "st_trace s' = st_trace s @ evs" "\<And>g. \<not> P (EvUnlink g)"
  shows "EvUnlink g \<notin> set evs"
  using assms by (auto simp: journal_step_def list_all_iff)

lemma round_keeps:
  assumes "drive_round E flags p n s = Ret r s'" "st_trace s' = st_trace s @ evs"
  shows "EvUnlink g \<notin> set evs"
proof (rule journal_keeps[OF _ assms(2)])
  show "journal_step (tl_fname p) (drive_ev (tl_fname p) (tl_txstage p)) s s'"
    using ores_RetD[OF drive_round_ores assms(1)] by (simp add: round_post_def)
qed (simp add: drive_ev_def log_ev_def)

lemma healthy_drive:
  assumes E: "healthy E" and p: "tl_txstage p = XA_TX_STAGE_PREPARING" "tl_wf p" "e_tid E = tl_lockthreadid p"
      "st_write_fail s = 0" "tl_f p" "all_branches XA_RM_STATUS_ACTIVE p" "branch_keys p \<noteq> []"
    and fl: "\<not> bit flags 2"
  shows "\<exists>s' evs fin. tm_drive E p XA_OP_COMMIT flags s = Ret EXSUCCEED s' \<and> st_trace s' = st_trace s @ evs @ fin \<and>
     (\<forall>g. EvUnlink g \<notin> set evs) \<and> (\<forall>rmid k el. rmid_ok rmid \<longrightarrow> tms_btid_find p rmid k = Some el \<longrightarrow>
        EvXa XA_OP_PREPARE rmid k \<in> set evs \<and> EvXa XA_OP_COMMIT rmid k \<in> set evs)"
proof -
  obtain row1 row2 d1 d2 d3 where
      r1: "xa_status_get_next_by_op XA_TX_STAGE_PREPARING XA_RM_STATUS_ACTIVE XA_OP_PREPARE XA_OK = Some row1"
        "d_next_txstage row1 = XA_TX_STAGE_COMMITTING" "d_next_rmstatus row1 = XA_RM_STATUS_PREP"
    and r2: "xa_status_get_next_by_op XA_TX_STAGE_COMMITTING XA_RM_STATUS_PREP XA_OP_COMMIT XA_OK = Some row2"
        "d_next_txstage row2 = XA_TX_STAGE_COMMITTED" "d_next_rmstatus row2 = XA_RM_STATUS_COMMITTED"
    and d: "xa_stage_get_descr XA_TX_STAGE_PREPARING = Some d1" "xa_stage_get_descr XA_TX_STAGE_COMMITTING = Some d2"
        "xa_stage_get_descr XA_TX_STAGE_COMMITTED = Some d3" "s_txstage d3 = XA_TX_STAGE_COMMITTED"
        "s_txs_min_complete d3 = XA_TX_STAGE_COMMITTED" "s_txs_max_complete d3 = XA_TX_STAGE_COMMITTED"
    using good_rows by blast
  obtain p1 s1 e1 where 1: "drive_round E flags p 0 s = Ret (DrAgain p1 0) s1" "tl_txstage p1 = XA_TX_STAGE_COMMITTING"
      "tl_wf p1" "entry_kept p p1" "st_write_fail s1 = 0" "all_branches XA_RM_STATUS_PREP p1" "branch_keys p1 \<noteq> []"
      "st_trace s1 = st_trace s @ e1"
      "\<forall>rmid k el. rmid_ok rmid \<longrightarrow> tms_btid_find p rmid k = Some el \<longrightarrow>
         EvXa XA_OP_PREPARE rmid k \<in> set e1 \<and> tms_btid_find p1 rmid k \<noteq> None"
    using healthy_round[OF E disjI1[OF refl] good_rows(1) r1 _ _ _ d(1) p fl, where n = 0] by auto
  have f1: "e_tid E = tl_lockthreadid p1" "tl_f p1" using entry_kept_fields[OF 1(4)] p by auto
  obtain p2 s2 e2 where 2: "drive_round E flags p1 0 s1 = Ret (DrAgain p2 0) s2" "tl_txstage p2 = XA_TX_STAGE_COMMITTED"
      "st_trace s2 = st_trace s1 @ e2"
      "\<forall>rmid k el. rmid_ok rmid \<longrightarrow> tms_btid_find p1 rmid k = Some el \<longrightarrow> EvXa XA_OP_COMMIT rmid k \<in> set e2"
    using healthy_round[OF E disjI2[OF refl] good_rows(2) r2 _ _ _ d(2) 1(2,3) f1(1) 1(5) f1(2) 1(6,7) fl, where n = 0] by auto
  note 3 = final_round[OF 2(2) d(3), of E flags 0 s2]
  have "tm_drive_loop E flags p2 0 s2 = Ret (DrDone p2 d3) s2" by (subst tm_drive_loop.simps) (simp add: 3)
  then have "tm_drive_loop E flags p1 0 s1 = Ret (DrDone p2 d3) s2" by (subst tm_drive_loop.simps) (simp add: 2(1))
  then have "tm_drive_loop E flags p 0 s = Ret (DrDone p2 d3) s2" by (subst tm_drive_loop.simps) (simp add: 1(1))
  then have "tm_drive E p XA_OP_COMMIT flags s = Ret EXSUCCEED (tms_remove_logfile E p2 True s2)"
    using d good_rows(8) by (simp add: tm_drive_def Let_def)
  moreover obtain e3 where "st_trace (tms_remove_logfile E p2 True s2) = st_trace s2 @ e3"
    using remove_logfile_trace[of E p2 True s2] by blast
  moreover have "EvUnlink g \<notin> set (e1 @ e2)" for g
    using round_keeps[OF 1(1,8)] round_keeps[OF 2(1,3)] by simp
  ultimately show ?thesis using 1(8,9) 2(3,4)
    by (intro exI[of _ "tms_remove_logfile E p2 True s2"] exI[of _ "e1 @ e2"] exI[of _ e3]) fastforce
qed

section \<open>The commit request\<close>

lemma tpcommit_healthy:
  assumes "healthy E" "atmi_xa_read_tx_info ub True = Some xai" "u_flags ub = Some tmflags" "\<not> bit tmflags 2"
    and "tms_log_get_entry E (xi_tmxid xai) NDRX_LOCK_WAIT_TIME s = (Some p, locke, s1)"
    and "\<not> tl_is_background p" "tl_txstage p = XA_TX_STAGE_ACTIVE" "tl_f p" "tl_wf p"
    and "all_branches XA_RM_STATUS_ACTIVE p" "branch_keys p \<noteq> []" "st_write_fail s = 0"
  shows "\<exists>s' evs fin. tm_tpcommit E ub s = Ret (EXSUCCEED, ub) s' \<and> st_trace s' = st_trace s @ evs @ fin \<and>
     (\<forall>g. EvUnlink g \<notin> set evs) \<and> (\<forall>rmid k el. rmid_ok rmid \<longrightarrow> tms_btid_find p rmid k = Some el \<longrightarrow>
        EvXa XA_OP_PREPARE rmid k \<in> set evs \<and> EvXa XA_OP_COMMIT rmid k \<in> set evs)"
proof -
  let ?p = "p\<lparr>tl_txstage := XA_TX_STAGE_PREPARING\<rparr>"
  have lk: "e_tid E = tl_lockthreadid p" using get_entry_locked[OF assms(5)] by simp
  have s1: "st_trace s1 = st_trace s" "st_write_fail s1 = 0" using get_entry_trace[OF assms(5)] assms(12) by auto
  obtain s2 where l: "tms_log_stage E p XA_TX_STAGE_PREPARING False s1 = Ret (EXSUCCEED, ?p) s2" "sends quiet s1 s2" "st_write_fail s2 = 0"
    using healthy_stage[OF assms(1) s1(2) lk assms(8), of XA_TX_STAGE_PREPARING False] assms(7) by auto
  obtain e2 where e2: "st_trace s2 = st_trace s1 @ e2" using l(2) by (auto simp: sends_def)
  have keep: "EvUnlink g \<notin> set e2" for g
  proof (rule journal_keeps[OF _ e2])
    show "journal_step (tl_fname p) (log_ev (tl_fname p)) s1 s2"
      using ores_RetD[OF log_stage_ores l(1)] assms(7) by simp
  qed (simp add: log_ev_def)
  have same: "tms_btid_find ?p = tms_btid_find p" by (simp add: fun_eq_iff tms_btid_find_def rm_at_def)
  have p: "tl_wf ?p" "all_branches XA_RM_STATUS_ACTIVE ?p" "branch_keys ?p \<noteq> []"
    using assms(9-11) same by (auto simp: tl_wf_def all_branches_def branch_keys_def)
  obtain s3 e3 fin where d: "tm_drive E ?p XA_OP_COMMIT tmflags s2 = Ret EXSUCCEED s3" "st_trace s3 = st_trace s2 @ e3 @ fin"
     "\<forall>g. EvUnlink g \<notin> set e3" "\<forall>rmid k el. rmid_ok rmid \<longrightarrow> tms_btid_find p rmid k = Some el \<longrightarrow>
        EvXa XA_OP_PREPARE rmid k \<in> set e3 \<and> EvXa XA_OP_COMMIT rmid k \<in> set e3"
    using healthy_drive[OF assms(1), of ?p s2 tmflags] p lk l(3) assms(4,8) same by auto
  have "tm_tpcommit E ub s = Ret (EXSUCCEED, ub) s3"
    unfolding tpcommit_goes_on[OF assms(2,3,5-7)] l(1) using d(1) by simp
  then show ?thesis using d(2-4) e2 s1(1) keep by (intro exI[of _ s3] exI[of _ "e2 @ e3"] exI[of _ fin]) auto
qed

text \<open>C7: the good case.  When the outside world works and every resource manager answers with
  success, a commit request of a transaction whose branches are all active returns success, and every
  branch has been told to prepare and to commit.\<close>

theorem commit_succeeds:
  assumes "healthy E" "atmi_xa_read_tx_info ub True = Some xai" "u_flags ub = Some tmflags" "\<not> bit tmflags 2"
    and "tms_log_get_entry E (xi_tmxid xai) NDRX_LOCK_WAIT_TIME s = (Some p, locke, s1)"
    and "\<not> tl_is_background p" "tl_txstage p = XA_TX_STAGE_ACTIVE" "tl_f p" "tl_wf p"
    and "all_branches XA_RM_STATUS_ACTIVE p" "branch_keys p \<noteq> []" "st_write_fail s = 0"
  shows "\<exists>s' evs. tm_tpcommit E ub s = Ret (EXSUCCEED, ub) s' \<and> st_trace s' = st_trace s @ evs \<and>
     (\<forall>rmid k el. rmid_ok rmid \<longrightarrow> tms_btid_find p rmid k = Some el \<longrightarrow>
        EvXa XA_OP_PREPARE rmid k \<in> set evs \<and> EvXa XA_OP_COMMIT rmid k \<in> set evs)"
  using tpcommit_healthy[OF assms] by fastforce

lemma sample_find:
  "rmid_ok rmid \<Longrightarrow> tms_btid_find sample_locked rmid k =
    (if rmid = 1 \<and> k = 0 then Some \<lparr>bt_rmstatus = XA_RM_STATUS_ACTIVE, bt_rmerrorcode = 0, bt_rmreason = 0,
       bt_btid = 0, bt_rmid = 1\<rparr> else None)"
  by (auto simp: sample_locked_def sample_tx_def tms_btid_addupd_def tms_btid_add_def tms_btid_gettid_def xa_log_zero_def
      rm_set_def rm_at_def tms_btid_find_def rmid_ok_def ex_add_def ex_find_def Let_def nth_list_update)

lemma sample_branches:
  "tl_wf sample_locked" "all_branches XA_RM_STATUS_ACTIVE sample_locked" "branch_keys sample_locked \<noteq> []"
proof -
  show wf: "tl_wf sample_locked" using sample_wf by (simp add: sample_locked_def tl_wf_def)
  show "all_branches XA_RM_STATUS_ACTIVE sample_locked" by (auto simp: all_branches_def sample_find)
  have "(1, 0) \<in> set (branch_keys sample_locked)"
    by (rule branch_keys_set[OF wf]) (auto simp: sample_find rmid_ok_def)
  then show "branch_keys sample_locked \<noteq> []" by force
qed

lemma sample_healthy: "healthy sample_env"
  by (simp add: healthy_def sample_env_def)

theorem commit_succeeds_witness:
  "\<exists>s' evs. tm_tpcommit sample_env sample_ub sample_st = Ret (EXSUCCEED, sample_ub) s' \<and> st_trace s' = st_trace sample_st @ evs \<and>
     EvXa XA_OP_PREPARE 1 0 \<in> set evs \<and> EvXa XA_OP_COMMIT 1 0 \<in> set evs"
proof -
  have "rmid_ok 1" by (simp add: rmid_ok_def)
  then show ?thesis
    using commit_succeeds[OF sample_healthy sample_read(1,2) _ sample_get _ _ _ sample_branches] sample_find[of 1 0]
    by fastforce
qed

end
