(* ===== verification/Tm_Durable.thy ===== *)
theory Tm_Durable
  imports Tm_Crash Tm_Success
begin

text \<open>
  Atomicity of a commit request across a crash: a run of the request, the loss of the process or of
  the machine at any event of it, and the restart with what the disk kept of the log.
\<close>

text \<open>C2: a crash in the middle of a commit keeps the transaction atomic.  A commit request runs
  on a transaction whose log holds no stage record yet, with synchronisation by fsync or fdatasync configured and a disk that takes
  the writes, and the machine stops after any number of the
  request's events, as long as the log file was not removed.  The disk keeps some beginning of what was written to the file, at
  least up to the last synchronisation, and the restarted process can read its files.  When a resource manager had already been told to commit,
  the restarted process finds the transaction in the commit phase; when one had been told to roll
  back (and the file did not lose what it had before the request), it finds it in the abort phase.\<close>

theorem crash_atomicity:
  assumes "disk_ok E" "bit (e_fsync_flags E) 0 \<or> bit (e_fsync_flags E) 1"
    and "atmi_xa_read_tx_info ub True = Some xai" "u_flags ub = Some tmflags"
    and "tms_log_get_entry E (xi_tmxid xai) NDRX_LOCK_WAIT_TIME s = (Some p, locke, s1)"
    and "\<not> tl_is_background p" "tl_txstage p = XA_TX_STAGE_ACTIVE" "tl_log_version p = LOG_VERSION_2" "tl_fits p"
    and "tl_fname p \<noteq> []" "length (tl_fname p) \<le> 4096" "st_write_fail s = 0" "c_long (st_tperrno s)"
    and "st_disk s (tl_fname p) = Some c0" "c0 = log_image ts0 (RecInfo a b c d) R0 []"
    and "rec_stages R0 = []" "recs_ok R0" "rec_ok (RecInfo a b c d)" "c_long ts0"
    and "st_trace (ostate (tm_tpcommit E ub s)) = st_trace s @ evs" "left_over (tl_fname p) c0 evs m C"
    and "calm E2" "st_disk s2 (tl_fname p) = Some C" "length xid \<le> NDRX_XID_SERIAL_BUFSIZE"
  shows "((\<exists>ev \<in> set (take m evs). is_commit ev) \<longrightarrow>
      (\<exists>p' s'. tms_load_logfile E2 (tl_fname p) xid s2 = Ret (EXSUCCEED, Some p', False, False) s' \<and>
         commit_range (tl_txstage p'))) \<and>
    ((\<exists>ev \<in> set (take m evs). is_rollback ev) \<and> prefix c0 C \<longrightarrow>
      (\<exists>p' s'. tms_load_logfile E2 (tl_fname p) xid s2 = Ret (EXSUCCEED, Some p', False, False) s' \<and>
         abort_range (tl_txstage p')))"
  using crash_safe_restart[OF tpcommit_crash[OF assms(1-9,12,13,16)] assms(16-19,15,10,11,24,20-23)] .

section \<open>An instance\<close>

definition sample_c0 :: string where
  "sample_c0 = log_image 999 (RecInfo 1 1 10 60) [] []"

definition sample_logged_st :: tm_st where
  "sample_logged_st = sample_st\<lparr>st_disk := [''L'' \<mapsto> sample_c0]\<rparr>"

lemma sample_disk_ok: "disk_ok sample_env"
  by (simp add: disk_ok_def sample_env_def c_long_def)

lemma sample_fits: "tl_fits sample_locked"
proof -
  have "\<forall>r \<in> set (tl_rmstatus sample_locked). tidcounter r \<le> LONG_MAX"
    by (auto simp: sample_locked_def sample_tx_def tms_btid_addupd_def tms_btid_add_def tms_btid_gettid_def xa_log_zero_def
        rm_set_def rm_at_def Let_def dest!: set_update_subset_insert[THEN subsetD])
  then show ?thesis using sample_branches(1) by (simp add: tl_fits_def)
qed

lemma sample_logged_get:
  "tms_log_get_entry sample_env (xi_tmxid sample_xai) w sample_logged_st =
     (Some sample_locked, False, tick (sample_logged_st\<lparr>st_hash := [sample_locked]\<rparr>))"
  using get_entry_restart.simps[of 7 "''X''" "[sample_tx]" "[]"]
  by (simp add: tms_log_get_entry_def sample_locked_def sample_xai_def ex_find_def ex_upd_def Let_def sample_logged_st_def)

text \<open>The request sends a commit, and the crash comes before the log is removed, with everything
  that was written on disk.\<close>

lemma sample_run:
  "\<exists>evs fin. st_trace (ostate (tm_tpcommit sample_env sample_ub sample_logged_st)) = evs @ fin \<and>
     EvXa XA_OP_COMMIT 1 0 \<in> set evs \<and>
     left_over ''L'' sample_c0 (evs @ fin) (length evs) (sample_c0 @ written ''L'' evs)"
proof -
  have z: "st_write_fail sample_logged_st = 0" "st_trace sample_logged_st = []" by (simp_all add: sample_logged_st_def)
  have "rmid_ok 1" by (simp add: rmid_ok_def)
  then obtain s' evs fin where r: "tm_tpcommit sample_env sample_ub sample_logged_st = Ret (EXSUCCEED, sample_ub) s'"
      "st_trace s' = evs @ fin" "EvUnlink ''L'' \<notin> set evs" "EvXa XA_OP_COMMIT 1 0 \<in> set evs"
    using tpcommit_healthy[OF sample_healthy sample_read(1,2) _ sample_logged_get _ _ _ sample_branches z(1)] sample_find[of 1 0] z(2)
    by fastforce
  have "prefix (written ''L'' (take i evs)) (written ''L'' evs)" for i
    using written_append[of "''L''" "take i evs" "drop i evs"] by simp
  then show ?thesis using r by (intro exI[of _ evs] exI[of _ fin]) (auto simp: left_over_def)
qed

theorem crash_atomicity_witness:
  "\<exists>evs fin p' s'. st_trace (ostate (tm_tpcommit sample_env sample_ub sample_logged_st)) = evs @ fin \<and>
     EvXa XA_OP_COMMIT 1 0 \<in> set evs \<and>
     tms_load_logfile sample_env ''L'' ''X'' (sample_st\<lparr>st_disk := [''L'' \<mapsto> sample_c0 @ written ''L'' evs]\<rparr>) =
       Ret (EXSUCCEED, Some p', False, False) s' \<and> commit_range (tl_txstage p')"
proof -
  obtain evs fin where r: "st_trace (ostate (tm_tpcommit sample_env sample_ub sample_logged_st)) = evs @ fin"
      "EvXa XA_OP_COMMIT 1 0 \<in> set evs"
      "left_over ''L'' sample_c0 (evs @ fin) (length evs) (sample_c0 @ written ''L'' evs)"
    using sample_run by blast
  let ?s2 = "sample_st\<lparr>st_disk := [''L'' \<mapsto> sample_c0 @ written ''L'' evs]\<rparr>"
  have "is_commit (EvXa XA_OP_COMMIT 1 0)" by (simp add: is_commit_def)
  then have ev: "\<exists>ev \<in> set (take (length evs) (evs @ fin)). is_commit ev" using r(2) by auto
  have fl: "bit (e_fsync_flags sample_env) 0 \<or> bit (e_fsync_flags sample_env) 1" by (simp add: sample_env_def)
  have "\<exists>p' s'. tms_load_logfile sample_env (tl_fname sample_locked) ''X'' ?s2 = Ret (EXSUCCEED, Some p', False, False) s' \<and>
      commit_range (tl_txstage p')"
    by (rule mp[OF conjunct1[OF crash_atomicity[OF sample_disk_ok fl sample_read(1,2) sample_logged_get _ _ _ sample_fits
            _ _ _ _ _ sample_c0_def _ _ sample_info_ok _ _ sample_calm]] ev])
      (use r in \<open>simp_all add: sample_logged_st_def sample_st_def c_long_def rec_stages_def recs_ok_def\<close>)
  then show ?thesis using r(1,2) by auto
qed

end
