(* ===== verification/Base64.thy ===== *)
theory Base64
  imports Prelude "HOL-Library.Monad_Syntax"
begin

unbundle bit_operations_syntax

text \<open>
  Base64 (libnstd/exbase64.c), with which binary identifiers are written as text: transaction
  identifiers with the alphabet of the XA variant (underscore instead of a slash, as the text
  becomes a file name), other data with the usual one.  Output buffers are lists of a fixed
  length and a write outside of the buffer is the value \<^term>\<open>None\<close>, so that the size checks
  matter; \<^term>\<open>None\<close> is also the outcome where an index, a C int in the code, overflows.  The encoder is shown equal to a reference definition in the style of RFC 4648, the
  decoder to be its inverse, and both to stay within the size they are given.
\<close>

section \<open>Tables\<close>

definition M_encoding_table_xa :: string where
  "M_encoding_table_xa = ''ABCDEFGHIJKLMNOPQRSTUVWXYZabcdefghijklmnopqrstuvwxyz0123456789+_''"

definition M_encoding_table_normal :: string where
  "M_encoding_table_normal = ''ABCDEFGHIJKLMNOPQRSTUVWXYZabcdefghijklmnopqrstuvwxyz0123456789+/''"

definition M_decoding_table_xa :: "8 word list" where
  "M_decoding_table_xa = [
   0x00, 0x00, 0x00, 0x00, 0x00, 0x00, 0x00, 0x00, 0x00, 0x00, 0x00, 0x00, 0x00, 0x00, 0x00, 0x00,
   0x00, 0x00, 0x00, 0x00, 0x00, 0x00, 0x00, 0x00, 0x00, 0x00, 0x00, 0x00, 0x00, 0x00, 0x00, 0x00,
   0x00, 0x00, 0x00, 0x00, 0x00, 0x00, 0x00, 0x00, 0x00, 0x00, 0x00, 0x3e, 0x00, 0x00, 0x00, 0x00,
   0x34, 0x35, 0x36, 0x37, 0x38, 0x39, 0x3a, 0x3b, 0x3c, 0x3d, 0x00, 0x00, 0x00, 0x00, 0x00, 0x00,
   0x00, 0x00, 0x01, 0x02, 0x03, 0x04, 0x05, 0x06, 0x07, 0x08, 0x09, 0x0a, 0x0b, 0x0c, 0x0d, 0x0e,
   0x0f, 0x10, 0x11, 0x12, 0x13, 0x14, 0x15, 0x16, 0x17, 0x18, 0x19, 0x00, 0x00, 0x00, 0x00, 0x3f,
   0x00, 0x1a, 0x1b, 0x1c, 0x1d, 0x1e, 0x1f, 0x20, 0x21, 0x22, 0x23, 0x24, 0x25, 0x26, 0x27, 0x28,
   0x29, 0x2a, 0x2b, 0x2c, 0x2d, 0x2e, 0x2f, 0x30, 0x31, 0x32, 0x33, 0x00, 0x00, 0x00, 0x00, 0x00,
   0x00, 0x00, 0x00, 0x00, 0x00, 0x00, 0x00, 0x00, 0x00, 0x00, 0x00, 0x00, 0x00, 0x00, 0x00, 0x00,
   0x00, 0x00, 0x00, 0x00, 0x00, 0x00, 0x00, 0x00, 0x00, 0x00, 0x00, 0x00, 0x00, 0x00, 0x00, 0x00,
   0x00, 0x00, 0x00, 0x00, 0x00, 0x00, 0x00, 0x00, 0x00, 0x00, 0x00, 0x00, 0x00, 0x00, 0x00, 0x00,
   0x00, 0x00, 0x00, 0x00, 0x00, 0x00, 0x00, 0x00, 0x00, 0x00, 0x00, 0x00, 0x00, 0x00, 0x00, 0x00,
   0x00, 0x00, 0x00, 0x00, 0x00, 0x00, 0x00, 0x00, 0x00, 0x00, 0x00, 0x00, 0x00, 0x00, 0x00, 0x00,
   0x00, 0x00, 0x00, 0x00, 0x00, 0x00, 0x00, 0x00, 0x00, 0x00, 0x00, 0x00, 0x00, 0x00, 0x00, 0x00,
   0x00, 0x00, 0x00, 0x00, 0x00, 0x00, 0x00, 0x00, 0x00, 0x00, 0x00, 0x00, 0x00, 0x00, 0x00, 0x00,
   0x00, 0x00, 0x00, 0x00, 0x00, 0x00, 0x00, 0x00, 0x00, 0x00, 0x00, 0x00, 0x00, 0x00, 0x00, 0x00]"

definition M_decoding_table_normal :: "8 word list" where
  "M_decoding_table_normal = [
   0x00, 0x00, 0x00, 0x00, 0x00, 0x00, 0x00, 0x00, 0x00, 0x00, 0x00, 0x00, 0x00, 0x00, 0x00, 0x00,
   0x00, 0x00, 0x00, 0x00, 0x00, 0x00, 0x00, 0x00, 0x00, 0x00, 0x00, 0x00, 0x00, 0x00, 0x00, 0x00,
   0x00, 0x00, 0x00, 0x00, 0x00, 0x00, 0x00, 0x00, 0x00, 0x00, 0x00, 0x3e, 0x00, 0x00, 0x00, 0x3f,
   0x34, 0x35, 0x36, 0x37, 0x38, 0x39, 0x3a, 0x3b, 0x3c, 0x3d, 0x00, 0x00, 0x00, 0x00, 0x00, 0x00,
   0x00, 0x00, 0x01, 0x02, 0x03, 0x04, 0x05, 0x06, 0x07, 0x08, 0x09, 0x0a, 0x0b, 0x0c, 0x0d, 0x0e,
   0x0f, 0x10, 0x11, 0x12, 0x13, 0x14, 0x15, 0x16, 0x17, 0x18, 0x19, 0x00, 0x00, 0x00, 0x00, 0x00,
   0x00, 0x1a, 0x1b, 0x1c, 0x1d, 0x1e, 0x1f, 0x20, 0x21, 0x22, 0x23, 0x24, 0x25, 0x26, 0x27, 0x28,
   0x29, 0x2a, 0x2b, 0x2c, 0x2d, 0x2e, 0x2f, 0x30, 0x31, 0x32, 0x33, 0x00, 0x00, 0x00, 0x00, 0x00,
   0x00, 0x00, 0x00, 0x00, 0x00, 0x00, 0x00, 0x00, 0x00, 0x00, 0x00, 0x00, 0x00, 0x00, 0x00, 0x00,
   0x00, 0x00, 0x00, 0x00, 0x00, 0x00, 0x00, 0x00, 0x00, 0x00, 0x00, 0x00, 0x00, 0x00, 0x00, 0x00,
   0x00, 0x00, 0x00, 0x00, 0x00, 0x00, 0x00, 0x00, 0x00, 0x00, 0x00, 0x00, 0x00, 0x00, 0x00, 0x00,
   0x00, 0x00, 0x00, 0x00, 0x00, 0x00, 0x00, 0x00, 0x00, 0x00, 0x00, 0x00, 0x00, 0x00, 0x00, 0x00,
   0x00, 0x00, 0x00, 0x00, 0x00, 0x00, 0x00, 0x00, 0x00, 0x00, 0x00, 0x00, 0x00, 0x00, 0x00, 0x00,
   0x00, 0x00, 0x00, 0x00, 0x00, 0x00, 0x00, 0x00, 0x00, 0x00, 0x00, 0x00, 0x00, 0x00, 0x00, 0x00,
   0x00, 0x00, 0x00, 0x00, 0x00, 0x00, 0x00, 0x00, 0x00, 0x00, 0x00, 0x00, 0x00, 0x00, 0x00, 0x00,
   0x00, 0x00, 0x00, 0x00, 0x00, 0x00, 0x00, 0x00, 0x00, 0x00, 0x00, 0x00, 0x00, 0x00, 0x00, 0x00]"

definition mod_table :: "nat list" where
  "mod_table = [0, 2, 1]"

section \<open>Encoder and decoder\<close>

definition EXEOS :: char where
  "EXEOS = CHR 0x00"

text \<open>A write to a buffer.\<close>

definition buf_put :: "nat \<Rightarrow> 'a \<Rightarrow> 'a list \<Rightarrow> 'a list option" where
  "buf_put j x buf = (if j < length buf then Some (buf[j := x]) else None)"

definition next_octet :: "8 word list \<Rightarrow> 8 word \<times> 8 word list" where
  "next_octet data = (case data of [] \<Rightarrow> (0, []) | x # xs \<Rightarrow> (x, xs))"

definition b64_triple :: "8 word \<Rightarrow> 8 word \<Rightarrow> 8 word \<Rightarrow> 32 word" where
  "b64_triple octet_a octet_b octet_c =
     push_bit 0x10 (ucast octet_a) + push_bit 0x08 (ucast octet_b) + ucast octet_c"

definition b64_char :: "string \<Rightarrow> 32 word \<Rightarrow> nat \<Rightarrow> char" where
  "b64_char encoding_table triple n = encoding_table ! unat (drop_bit (n * 6) triple AND 0x3F)"

function b64encode_loop :: "string \<Rightarrow> 8 word list \<Rightarrow> nat \<Rightarrow> string \<Rightarrow> string option" where
  "b64encode_loop encoding_table data j encoded_data =
    (if data = [] then Some encoded_data
     else let (octet_a, data1) = next_octet data; (octet_b, data2) = next_octet data1;
              (octet_c, data3) = next_octet data2;
              triple = b64_triple octet_a octet_b octet_c
          in do {
            e1 \<leftarrow> buf_put j (b64_char encoding_table triple 3) encoded_data;
            e2 \<leftarrow> buf_put (j + 1) (b64_char encoding_table triple 2) e1;
            e3 \<leftarrow> buf_put (j + 2) (b64_char encoding_table triple 1) e2;
            e4 \<leftarrow> buf_put (j + 3) (b64_char encoding_table triple 0) e3;
            b64encode_loop encoding_table data3 (j + 4) e4
          })"
  by pat_completeness auto
termination
  by (relation "measure (\<lambda>(_, data, _). length data)")
    (auto simp: next_octet_def split: list.splits prod.splits)

declare b64encode_loop.simps [simp del]

text \<open>The loop that puts the padding, from the end; \<open>k\<close> rounds are left.\<close>

fun b64_pad_loop :: "nat \<Rightarrow> nat \<Rightarrow> nat \<Rightarrow> string \<Rightarrow> string option" where
  "b64_pad_loop output_length 0 i encoded_data = Some encoded_data"
| "b64_pad_loop output_length (Suc k) i encoded_data = do {
     e \<leftarrow> buf_put (output_length - 1 - i) (CHR ''='') encoded_data;
     b64_pad_loop output_length k (i + 1) e
   }"

text \<open>The result says whether the buffer was returned (and not NULL), with the length and the
  buffer.\<close>

definition ndrx_b64encode :: "8 word list \<Rightarrow> nat \<Rightarrow> string \<Rightarrow> string \<Rightarrow> (bool \<times> nat \<times> string) option" where
  "ndrx_b64encode data output_length encoded_data encoding_table =
    (let input_length = length data; tmp_len = 4 * ((input_length + 2) div 3) in
     if output_length > 0 \<and> output_length < tmp_len + 1 then Some (False, output_length, encoded_data)
     else if int tmp_len > INT_MAX then None
     else do {
       e1 \<leftarrow> b64encode_loop encoding_table data 0 encoded_data;
       e2 \<leftarrow> b64_pad_loop tmp_len (mod_table ! (input_length mod 3)) 0 e1;
       e3 \<leftarrow> buf_put tmp_len EXEOS e2;
       Some (True, tmp_len + 1, e3)
     })"

definition b64_sextet :: "8 word list \<Rightarrow> char \<Rightarrow> 32 word" where
  "b64_sextet decoding_table c = (if c = CHR ''='' then 0 else ucast (decoding_table ! of_char c))"

definition b64_put_octet :: "nat \<Rightarrow> 32 word \<Rightarrow> nat \<times> 8 word list \<Rightarrow> (nat \<times> 8 word list) option" where
  "b64_put_octet output_length octet s = (case s of (j, decoded_data) \<Rightarrow>
     if j < output_length
     then map_option (Pair (j + 1)) (buf_put j (ucast (octet AND 0xFF)) decoded_data)
     else Some (j, decoded_data))"

fun b64decode_loop :: "8 word list \<Rightarrow> nat \<Rightarrow> string \<Rightarrow> nat \<times> 8 word list \<Rightarrow> (nat \<times> 8 word list) option" where
  "b64decode_loop decoding_table output_length (a # b # c # d # data) s =
    (let triple = push_bit (3 * 6) (b64_sextet decoding_table a) + push_bit (2 * 6) (b64_sextet decoding_table b) +
                  push_bit (1 * 6) (b64_sextet decoding_table c) + push_bit (0 * 6) (b64_sextet decoding_table d)
     in do {
       s1 \<leftarrow> b64_put_octet output_length (drop_bit (2 * 8) triple) s;
       s2 \<leftarrow> b64_put_octet output_length (drop_bit (1 * 8) triple) s1;
       s3 \<leftarrow> b64_put_octet output_length (drop_bit (0 * 8) triple) s2;
       b64decode_loop decoding_table output_length data s3
     })"
| "b64decode_loop decoding_table output_length [] s = Some s"
| "b64decode_loop decoding_table output_length data s = None"

definition ndrx_b64decode :: "string \<Rightarrow> nat \<Rightarrow> 8 word list \<Rightarrow> 8 word list \<Rightarrow> (bool \<times> nat \<times> 8 word list) option" where
  "ndrx_b64decode data output_length decoded_data decoding_table =
    (let input_length = length data in
     if input_length mod 4 \<noteq> 0 then Some (False, output_length, decoded_data)
     else if input_length \<le> 0 then Some (False, output_length, decoded_data)
     else let tmp_len = input_length div 4 * 3;
              tmp_len = (if data ! (input_length - 1) = CHR ''='' then tmp_len - 1 else tmp_len);
              tmp_len = (if data ! (input_length - 2) = CHR ''='' then tmp_len - 1 else tmp_len)
          in if output_length > 0 \<and> output_length < tmp_len then Some (False, output_length, decoded_data)
             else if int input_length > INT_MAX then None
             else do {
               (j, d) \<leftarrow> b64decode_loop decoding_table tmp_len data (0, decoded_data);
               Some (True, tmp_len, d)
             })"

definition ndrx_xa_base64_encode :: "8 word list \<Rightarrow> nat \<Rightarrow> string \<Rightarrow> (bool \<times> nat \<times> string) option" where
  "ndrx_xa_base64_encode data output_length encoded_data =
     ndrx_b64encode data output_length encoded_data M_encoding_table_xa"

definition ndrx_xa_base64_decode :: "string \<Rightarrow> nat \<Rightarrow> 8 word list \<Rightarrow> (bool \<times> nat \<times> 8 word list) option" where
  "ndrx_xa_base64_decode data output_length decoded_data =
     ndrx_b64decode data output_length decoded_data M_decoding_table_xa"

definition ndrx_base64_encode :: "8 word list \<Rightarrow> nat \<Rightarrow> string \<Rightarrow> (bool \<times> nat \<times> string) option" where
  "ndrx_base64_encode data output_length encoded_data =
     ndrx_b64encode data output_length encoded_data M_encoding_table_normal"

definition ndrx_base64_decode :: "string \<Rightarrow> nat \<Rightarrow> 8 word list \<Rightarrow> (bool \<times> nat \<times> 8 word list) option" where
  "ndrx_base64_decode data output_length decoded_data =
     ndrx_b64decode data output_length decoded_data M_decoding_table_normal"

section \<open>The reference\<close>

fun b64_text :: "string \<Rightarrow> 8 word list \<Rightarrow> string" where
  "b64_text tab [] = []"
| "b64_text tab [a] = [b64_char tab (b64_triple a 0 0) 3, b64_char tab (b64_triple a 0 0) 2, CHR ''='', CHR ''='']"
| "b64_text tab [a, b] = [b64_char tab (b64_triple a b 0) 3, b64_char tab (b64_triple a b 0) 2,
     b64_char tab (b64_triple a b 0) 1, CHR ''='']"
| "b64_text tab (a # b # c # ds) = [b64_char tab (b64_triple a b c) 3, b64_char tab (b64_triple a b c) 2,
     b64_char tab (b64_triple a b c) 1, b64_char tab (b64_triple a b c) 0] @ b64_text tab ds"

lemma div3: "(5 + n) div 3 = Suc (Suc (Suc n) div 3)" for n :: nat
  by presburger

lemma length_b64_text [simp]: "length (b64_text tab ds) = 4 * ((length ds + 2) div 3)"
  by (induction tab ds rule: b64_text.induct) (auto simp: div3)

lemma buf_put_here: "buf_put (length xs) y (xs @ x # ys) = Some (xs @ y # ys)"
  by (simp add: buf_put_def)

text \<open>The text before padding.\<close>

fun b64_raw :: "string \<Rightarrow> 8 word list \<Rightarrow> string" where
  "b64_raw tab [] = []"
| "b64_raw tab [a] = map (b64_char tab (b64_triple a 0 0)) [3, 2, 1, 0]"
| "b64_raw tab [a, b] = map (b64_char tab (b64_triple a b 0)) [3, 2, 1, 0]"
| "b64_raw tab (a # b # c # ds) = map (b64_char tab (b64_triple a b c)) [3, 2, 1, 0] @ b64_raw tab ds"

lemma length_b64_raw [simp]: "length (b64_raw tab ds) = 4 * ((length ds + 2) div 3)"
  by (induction tab ds rule: b64_raw.induct) (auto simp: div3)

lemma put4:
  assumes "length pre = j"
  shows "buf_put j w (pre @ x0 # x1 # x2 # x3 # ys) = Some (pre @ w # x1 # x2 # x3 # ys)"
    "buf_put (j + 1) w (pre @ x0 # x1 # x2 # x3 # ys) = Some (pre @ x0 # w # x2 # x3 # ys)"
    "buf_put (j + 2) w (pre @ x0 # x1 # x2 # x3 # ys) = Some (pre @ x0 # x1 # w # x3 # ys)"
    "buf_put (j + 3) w (pre @ x0 # x1 # x2 # x3 # ys) = Some (pre @ x0 # x1 # x2 # w # ys)"
  using assms by (auto simp: buf_put_def list_update_append numeral_3_eq_3 numeral_2_eq_2)

lemma split4: "4 \<le> length buf \<Longrightarrow> \<exists>x0 x1 x2 x3 ys. buf = x0 # x1 # x2 # x3 # ys"
  by (auto simp: numeral_eq_Suc Suc_le_length_iff)

lemma encode_round:
  assumes "length pre = j" "4 \<le> length buf" "data \<noteq> []"
    and "next_octet data = (a, d1)" "next_octet d1 = (b, d2)" "next_octet d2 = (c, d3)"
  shows "b64encode_loop tab data j (pre @ buf) =
    b64encode_loop tab d3 (j + 4) ((pre @ map (b64_char tab (b64_triple a b c)) [3, 2, 1, 0]) @ drop 4 buf)"
proof -
  obtain x0 x1 x2 x3 ys where "buf = x0 # x1 # x2 # x3 # ys" using split4[OF assms(2)] by blast
  then show ?thesis using assms by (subst b64encode_loop.simps) (simp add: put4 put4[simplified] Let_def)
qed

lemma drop4: "drop (Suc (Suc (Suc (Suc n)))) xs = drop (n + 4) xs"
  by (rule arg_cong[of _ _ "\<lambda>k. drop k xs"]) simp

lemma encode_loop_raw:
  "length pre = j \<Longrightarrow> length (b64_raw tab data) \<le> length buf \<Longrightarrow>
   b64encode_loop tab data j (pre @ buf) = Some (pre @ b64_raw tab data @ drop (length (b64_raw tab data)) buf)"
proof (induction tab data arbitrary: pre j buf rule: b64_raw.induct)
  case (1 tab)
  then show ?case by (simp add: b64encode_loop.simps)
next
  case (2 tab a)
  then show ?case
    by (subst encode_round[of pre j buf]) (auto simp: next_octet_def b64encode_loop.simps numeral_eq_Suc)
next
  case (3 tab a b)
  then show ?case
    by (subst encode_round[of pre j buf]) (auto simp: next_octet_def b64encode_loop.simps numeral_eq_Suc)
next
  case (4 tab a b c ds)
  let ?m = "map (b64_char tab (b64_triple a b c)) [3, 2, 1, 0]"
  have "b64encode_loop tab (a # b # c # ds) j (pre @ buf) = b64encode_loop tab ds (j + 4) ((pre @ ?m) @ drop 4 buf)"
    using 4 by (intro encode_round) (auto simp: next_octet_def)
  also have "\<dots> = Some ((pre @ ?m) @ b64_raw tab ds @ drop (length (b64_raw tab ds)) (drop 4 buf))"
    using 4(2,3) by (intro 4(1)) auto
  finally show ?case by (simp add: drop4)
qed

lemma raw_text:
  "\<exists>pre. b64_text tab ds = pre @ replicate (mod_table ! (length ds mod 3)) (CHR ''='') \<and>
     (\<exists>lst. b64_raw tab ds = pre @ lst \<and> length lst = mod_table ! (length ds mod 3))"
proof (induction tab ds rule: b64_text.induct)
  case (4 tab a b c ds)
  then obtain pre lst where "b64_text tab ds = pre @ replicate (mod_table ! (length ds mod 3)) (CHR ''='')"
      "b64_raw tab ds = pre @ lst" "length lst = mod_table ! (length ds mod 3)" by blast
  moreover have "length (a # b # c # ds) mod 3 = length ds mod 3" by simp
  ultimately show ?case
    by (intro exI[of _ "map (b64_char tab (b64_triple a b c)) [3, 2, 1, 0] @ pre"] conjI exI[of _ lst]) simp_all
next
  case (2 tab a)
  show ?case
    by (intro exI[of _ "map (b64_char tab (b64_triple a 0 0)) [3, 2]"] conjI
        exI[of _ "map (b64_char tab (b64_triple a 0 0)) [1, 0]"]) (simp_all add: mod_table_def numeral_2_eq_2)
next
  case (3 tab a b)
  show ?case
    by (intro exI[of _ "map (b64_char tab (b64_triple a b 0)) [3, 2, 1]"] conjI
        exI[of _ "map (b64_char tab (b64_triple a b 0)) [0]"]) (simp_all add: mod_table_def)
qed (simp add: mod_table_def)

lemma pad_loop:
  assumes "length lst = k" "k + i = n"
  shows "b64_pad_loop (length pre + n) k i (pre @ lst @ post) = Some (pre @ replicate k (CHR ''='') @ post)"
  using assms
proof (induction k arbitrary: i lst post)
  case (Suc k)
  then obtain l x where l: "lst = l @ [x]" "length l = k" by (metis length_Suc_conv_rev)
  have "length pre + n - 1 - i = length (pre @ l)" using Suc.prems l by simp
  then have "b64_pad_loop (length pre + n) (Suc k) i (pre @ lst @ post) =
      b64_pad_loop (length pre + n) k (i + 1) (pre @ l @ CHR ''='' # post)"
    using l buf_put_here[of "pre @ l" "CHR ''=''" x post] by simp
  also have "\<dots> = Some (pre @ replicate k (CHR ''='') @ CHR ''='' # post)"
    using Suc.IH[of l "i + 1" "CHR ''='' # post"] Suc.prems l by simp
  finally show ?case by (simp add: replicate_append_same[symmetric])
qed simp


lemma encode_text:
  assumes "length (b64_text tab data) < length buf" "output_length = 0 \<or> length (b64_text tab data) < output_length"
    and "int (length (b64_text tab data)) \<le> INT_MAX"
  shows "ndrx_b64encode data output_length buf tab =
    Some (True, length (b64_text tab data) + 1, b64_text tab data @ EXEOS # drop (length (b64_text tab data) + 1) buf)"
proof -
  let ?n = "4 * ((length data + 2) div 3)" and ?k = "mod_table ! (length data mod 3)"
  obtain pre lst where p: "b64_text tab data = pre @ replicate ?k (CHR ''='')" "b64_raw tab data = pre @ lst" "length lst = ?k"
    using raw_text by blast
  have n: "length pre + ?k = ?n" using arg_cong[OF p(2), of length] p(3) by simp
  have lb: "?n < length buf" using assms(1) by simp
  then obtain y ys where ys: "drop ?n buf = y # ys" by (metis Cons_nth_drop_Suc)
  then have y2: "drop (?n + 1) buf = ys" by (metis drop_Suc_Cons drop_drop drop0 One_nat_def add.commute)
  have 1: "b64encode_loop tab data 0 buf = Some (pre @ lst @ y # ys)"
    using encode_loop_raw[of "[]" 0 tab data buf, unfolded length_b64_raw] lb ys unfolding p(2) by simp
  have 2: "b64_pad_loop ?n ?k 0 (pre @ lst @ y # ys) = Some (pre @ replicate ?k (CHR ''='') @ y # ys)"
    using pad_loop[of lst ?k 0 ?k pre "y # ys"] p(3) n by simp
  have 3: "buf_put ?n EXEOS (pre @ replicate ?k (CHR ''='') @ y # ys) = Some (pre @ replicate ?k (CHR ''='') @ EXEOS # ys)"
    using buf_put_here[of "pre @ replicate ?k (CHR ''='')" EXEOS y ys] n by simp
  have "\<not> (output_length > 0 \<and> output_length < ?n + 1)" using assms(2) by auto
  moreover have "\<not> int ?n > INT_MAX" using assms(3) by simp
  ultimately show ?thesis using 1 2 3 y2 p(1) n[symmetric] by (simp add: ndrx_b64encode_def Let_def)
qed

section \<open>Round trip\<close>

lemma unat_byte: "unat a < 256" for a :: "8 word"
  using unsigned_less[of a, where 'a = nat] by simp

lemma unat_ucast_32: "unat (ucast w :: 32 word) = unat w" for w :: "8 word"
  using unat_byte[of w] by (simp add: unsigned_ucast_eq take_bit_nat_eq_self)

lemma unat_push: "unat w * 2 ^ n < 2 ^ 32 \<Longrightarrow> unat (push_bit n w) = unat w * 2 ^ n" for w :: "32 word"
  by (simp only: unsigned_push_bit_eq) (simp add: push_bit_eq_mult take_bit_nat_eq_self)

lemma unat_plus: "unat x + unat y < 2 ^ 32 \<Longrightarrow> unat (x + y) = unat x + unat y" for x y :: "32 word"
  by (simp add: unat_word_ariths)

lemma unat_triple: "unat (b64_triple a b c) = unat a * 65536 + unat b * 256 + unat c"
  using unat_byte[of a] unat_byte[of b] unat_byte[of c]
  by (simp add: b64_triple_def unat_plus unat_push unat_ucast_32)

lemma unat_field: "unat (drop_bit n t AND mask k) = unat t div 2 ^ n mod 2 ^ k" for t :: "32 word"
  using unsigned_less[of t, where 'a = nat]
  by (simp only: take_bit_eq_mask[symmetric] unsigned_take_bit_eq unsigned_drop_bit_eq)
    (simp add: drop_bit_eq_div take_bit_eq_mod)

lemma masks: "(0x3F :: 32 word) = mask 6" "(0xFF :: 32 word) = mask 8"
  by (simp_all add: mask_eq_exp_minus_1)

text \<open>Four sextets are put together again.\<close>

lemma digits4: "t = q1 * 64 + r0 \<Longrightarrow> q1 = q2 * 64 + r1 \<Longrightarrow> q2 = q3 * 64 + r2 \<Longrightarrow>
   q3 * 2 ^ 18 + r2 * 2 ^ 12 + r1 * 2 ^ 6 + r0 = t" for t :: nat
  by simp

lemma sextets: "t < 2 ^ 24 \<Longrightarrow>
  t div 2 ^ 18 mod 64 * 2 ^ 18 + t div 2 ^ 12 mod 64 * 2 ^ 12 + t div 2 ^ 6 mod 64 * 2 ^ 6 + t mod 64 = t" for t :: nat
proof -
  assume t: "t < 2 ^ 24"
  have "t div 2 ^ 12 = t div 64 div 64" "t div 2 ^ 18 = t div 64 div 64 div 64"
    by (simp_all add: div_mult2_eq[symmetric])
  moreover have "t div 64 div 64 div 64 mod 64 = t div 64 div 64 div 64"
    using t by (simp add: div_mult2_eq[symmetric])
  ultimately show ?thesis
    using digits4[of t "t div 64" "t mod 64" "t div 64 div 64" "t div 64 mod 64" "t div 64 div 64 div 64" "t div 64 div 64 mod 64"]
    by simp
qed

text \<open>A pair of tables that fit.\<close>

definition b64_tables :: "string \<Rightarrow> 8 word list \<Rightarrow> bool" where
  "b64_tables etab dtab \<longleftrightarrow> (\<forall>k < 64. etab ! k \<noteq> CHR ''='' \<and> dtab ! of_char (etab ! k) = word_of_nat k)"

lemma tables_xa: "b64_tables M_encoding_table_xa M_decoding_table_xa"
proof -
  have "list_all (\<lambda>k. M_encoding_table_xa ! k \<noteq> CHR ''='' \<and>
      M_decoding_table_xa ! of_char (M_encoding_table_xa ! k) = word_of_nat k) [0..<64]" by code_simp
  then show ?thesis by (simp only: b64_tables_def list_all_iff set_upt) auto
qed

lemma tables_normal: "b64_tables M_encoding_table_normal M_decoding_table_normal"
proof -
  have "list_all (\<lambda>k. M_encoding_table_normal ! k \<noteq> CHR ''='' \<and>
      M_decoding_table_normal ! of_char (M_encoding_table_normal ! k) = word_of_nat k) [0..<64]" by code_simp
  then show ?thesis by (simp only: b64_tables_def list_all_iff set_upt) auto
qed

lemma char_not_pad: "b64_tables etab dtab \<Longrightarrow> b64_char etab t n \<noteq> CHR ''=''"
  by (simp add: b64_tables_def b64_char_def masks unat_field)

lemma sextet_char:
  assumes "b64_tables etab dtab"
  shows "unat (b64_sextet dtab (b64_char etab t n)) = unat t div 2 ^ (n * 6) mod 64"
proof -
  have k: "unat (drop_bit (n * 6) t AND 0x3F) < 64" by (simp add: masks unat_field)
  then show ?thesis
    using assms char_not_pad[OF assms, of t n] unat_field[of "n * 6" t 6]
    by (simp add: b64_sextet_def b64_tables_def b64_char_def unat_ucast_32 unat_of_nat masks)
qed

definition b64_join :: "8 word list \<Rightarrow> char \<Rightarrow> char \<Rightarrow> char \<Rightarrow> char \<Rightarrow> 32 word" where
  "b64_join dtab a b c d =
     push_bit (3 * 6) (b64_sextet dtab a) + push_bit (2 * 6) (b64_sextet dtab b) +
     push_bit (1 * 6) (b64_sextet dtab c) + push_bit (0 * 6) (b64_sextet dtab d)"

lemma unat_join:
  assumes "unat (b64_sextet dtab a) < 64" "unat (b64_sextet dtab b) < 64" "unat (b64_sextet dtab c) < 64"
    "unat (b64_sextet dtab d) < 64"
  shows "unat (b64_join dtab a b c d) = unat (b64_sextet dtab a) * 2 ^ 18 + unat (b64_sextet dtab b) * 2 ^ 12 +
    unat (b64_sextet dtab c) * 2 ^ 6 + unat (b64_sextet dtab d)"
  using assms by (simp add: b64_join_def unat_plus unat_push)

text \<open>A group of characters gives the octets back, also with padding.\<close>

lemma sextet_pad [simp]: "b64_sextet dtab (CHR ''='') = 0"
  by (simp add: b64_sextet_def)

lemma triple_less: "unat (b64_triple a b c) < 2 ^ 24"
  using unat_byte[of a] unat_byte[of b] unat_byte[of c] by (simp add: unat_triple)

lemma join_eq:
  assumes "unat t < 2 ^ 24" "unat (b64_sextet dtab x3) = unat t div 2 ^ 18 mod 64" "unat (b64_sextet dtab x2) = unat t div 2 ^ 12 mod 64"
    "unat (b64_sextet dtab x1) = unat t div 2 ^ 6 mod 64" "unat (b64_sextet dtab x0) = unat t mod 64"
  shows "b64_join dtab x3 x2 x1 x0 = t"
proof -
  have "unat (b64_join dtab x3 x2 x1 x0) = unat (b64_sextet dtab x3) * 2 ^ 18 + unat (b64_sextet dtab x2) * 2 ^ 12 +
      unat (b64_sextet dtab x1) * 2 ^ 6 + unat (b64_sextet dtab x0)"
    by (rule unat_join) (unfold assms(2-5), simp_all)
  also have "\<dots> = unat t" unfolding assms(2-5) by (rule sextets[OF assms(1)])
  finally have "unat (b64_join dtab x3 x2 x1 x0) = unat t" .
  then show ?thesis by (simp add: word_unat_eq_iff)
qed

lemma join_triple:
  assumes "b64_tables etab dtab"
  shows "b64_join dtab (b64_char etab (b64_triple a b c) 3) (b64_char etab (b64_triple a b c) 2)
      (b64_char etab (b64_triple a b c) 1) (b64_char etab (b64_triple a b c) 0) = b64_triple a b c"
    "b64_join dtab (b64_char etab (b64_triple a b 0) 3) (b64_char etab (b64_triple a b 0) 2)
      (b64_char etab (b64_triple a b 0) 1) (CHR ''='') = b64_triple a b 0"
    "b64_join dtab (b64_char etab (b64_triple a 0 0) 3) (b64_char etab (b64_triple a 0 0) 2)
      (CHR ''='') (CHR ''='') = b64_triple a 0 0"
proof -
  have 1: "unat (b64_triple a b 0) mod 64 = 0" "unat (b64_triple a 0 0) div 2 ^ 6 mod 64 = 0" "unat (b64_triple a 0 0) mod 64 = 0"
    by (simp_all add: unat_triple)
  show "b64_join dtab (b64_char etab (b64_triple a b c) 3) (b64_char etab (b64_triple a b c) 2)
      (b64_char etab (b64_triple a b c) 1) (b64_char etab (b64_triple a b c) 0) = b64_triple a b c"
    by (rule join_eq[OF triple_less]) (simp_all add: sextet_char[OF assms])
  show "b64_join dtab (b64_char etab (b64_triple a b 0) 3) (b64_char etab (b64_triple a b 0) 2)
      (b64_char etab (b64_triple a b 0) 1) (CHR ''='') = b64_triple a b 0"
    by (rule join_eq[OF triple_less]) (simp_all add: sextet_char[OF assms] 1)
  show "b64_join dtab (b64_char etab (b64_triple a 0 0) 3) (b64_char etab (b64_triple a 0 0) 2)
      (CHR ''='') (CHR ''='') = b64_triple a 0 0"
    by (rule join_eq[OF triple_less]) (simp_all add: sextet_char[OF assms] 1[simplified])
qed

lemma octets:
  "ucast (drop_bit 16 (b64_triple a b c) AND 0xFF) = a"
  "ucast (drop_bit 8 (b64_triple a b c) AND 0xFF) = b"
  "ucast (b64_triple a b c AND 0xFF) = c"
proof -
  have u: "unat (ucast (drop_bit n t AND 0xFF) :: 8 word) = unat t div 2 ^ n mod 256" for n and t :: "32 word"
    by (simp add: unsigned_ucast_eq masks unat_field take_bit_eq_mod)
  have l: "unat a < 256" "unat b < 256" "unat c < 256" by (simp_all add: unat_byte)
  show "ucast (drop_bit 16 (b64_triple a b c) AND 0xFF) = a"
    using l by (intro word_unat_eq_iff[THEN iffD2]) (simp add: u unat_triple)
  have m: "(unat a * 65536 + unat b * 256 + unat c) div 256 = unat a * 256 + unat b"
    using l by (simp add: div_nat_eqI)
  show "ucast (drop_bit 8 (b64_triple a b c) AND 0xFF) = b"
    using l m by (intro word_unat_eq_iff[THEN iffD2]) (simp add: u unat_triple)
  show "ucast (b64_triple a b c AND 0xFF) = c"
    using l u[of 0 "b64_triple a b c"] mod_mult_self3[of "unat a * 256 + unat b" 256 "unat c"] by (intro word_unat_eq_iff[THEN iffD2]) (simp add: unat_triple algebra_simps)
qed

lemma put_octet:
  "length pre = j \<Longrightarrow> j < n \<Longrightarrow> b64_put_octet n w (j, pre @ x # ys) = Some (j + 1, pre @ ucast (w AND 0xFF) # ys)"
  "\<not> j < n \<Longrightarrow> b64_put_octet n w (j, buf) = Some (j, buf)"
  using buf_put_here[of pre] by (auto simp: b64_put_octet_def)

lemma decode_step:
  "b64decode_loop dtab n (a # b # c # d # data) s =
    (let triple = b64_join dtab a b c d in do {
       s1 \<leftarrow> b64_put_octet n (drop_bit 16 triple) s;
       s2 \<leftarrow> b64_put_octet n (drop_bit 8 triple) s1;
       s3 \<leftarrow> b64_put_octet n triple s2;
       b64decode_loop dtab n data s3
     })"
  by (simp add: b64_join_def)

declare b64decode_loop.simps(1) [simp del]

lemma decode_loop_text:
  "b64_tables etab dtab \<Longrightarrow> length pre = j \<Longrightarrow> n = j + length ds \<Longrightarrow> length ds \<le> length buf \<Longrightarrow>
   b64decode_loop dtab n (b64_text etab ds) (j, pre @ buf) = Some (n, pre @ ds @ drop (length ds) buf)"
proof (induction etab ds arbitrary: pre j buf rule: b64_text.induct)
  case (2 tab a)
  then obtain x ys where "buf = x # ys" by (cases buf) auto
  then show ?case using 2 join_triple(3)[OF 2(1), of a]
    by (simp add: put_octet octets Let_def decode_step)
next
  case (3 tab a b)
  then obtain x y ys where "buf = x # y # ys" by (auto simp: Suc_le_length_iff)
  then show ?case using 3 join_triple(2)[OF 3(1), of a b] put_octet(1)[of "pre @ [a]" "Suc j"]
    by (simp add: put_octet octets Let_def decode_step)
next
  case (4 tab a b c ds)
  then obtain x y z ys where "buf = x # y # z # ys" by (auto simp: Suc_le_length_iff)
  then show ?case using 4(2-5) join_triple(1)[OF 4(2), of a b c] put_octet(1)[of "pre @ [a]" "Suc j"]
      put_octet(1)[of "pre @ [a, b]" "Suc (Suc j)"] 4(1)[of "pre @ [a, b, c]" "Suc (Suc (Suc j))" ys]
    by (simp add: put_octet octets Let_def decode_step)
qed simp

lemma text_end:
  "b64_tables etab dtab \<Longrightarrow> ds \<noteq> [] \<Longrightarrow>
    (b64_text etab ds ! (length (b64_text etab ds) - 1) = CHR ''='') = (length ds mod 3 \<noteq> 0) \<and>
    (b64_text etab ds ! (length (b64_text etab ds) - 2) = CHR ''='') = (length ds mod 3 = 1)"
proof (induction etab ds rule: b64_text.induct)
  case (4 tab a b c ds)
  show ?case
  proof (cases "ds = []")
    case True
    then show ?thesis using char_not_pad[OF 4(2)] by simp
  next
    case False
    let ?pre = "map (b64_char tab (b64_triple a b c)) [3, 2, 1, 0]" and ?t = "b64_text tab ds"
    have t: "2 \<le> length ?t" using False by (cases ds) auto
    have "(?pre @ ?t) ! (length (?pre @ ?t) - k) = ?t ! (length ?t - k)" if "k \<le> length ?t" for k
      using that by (simp add: nth_append)
    from this[of 1] this[of 2] show ?thesis using 4 False t by simp
  qed
qed (simp_all add: char_not_pad)

lemma decode_text:
  assumes "b64_tables etab dtab" "data \<noteq> []" "length data \<le> length buf" "output_length = 0 \<or> length data \<le> output_length"
    and "int (length (b64_text etab data)) \<le> INT_MAX"
  shows "ndrx_b64decode (b64_text etab data) output_length buf dtab = Some (True, length data, data @ drop (length data) buf)"
proof -
  let ?t = "b64_text etab data"
  note e = text_end[OF assms(1,2)]
  have l: "length ?t mod 4 = 0" "0 < length ?t" using assms(2) by (cases data; simp)+
  define n where "n = (let m = length ?t div 4 * 3; m = (if ?t ! (length ?t - 1) = CHR ''='' then m - 1 else m) in
    if ?t ! (length ?t - 2) = CHR ''='' then m - 1 else m)"
  have n: "n = length data"
  proof -
    have "length ?t div 4 * 3 = (length data + 2) div 3 * 3" by simp
    also have "\<dots> = length data + (if length data mod 3 = 0 then 0 else 3 - length data mod 3)" by presburger
    finally have m: "length ?t div 4 * 3 = length data + (if length data mod 3 = 0 then 0 else 3 - length data mod 3)" .
    have "length data mod 3 < 3" by simp
    then show ?thesis unfolding n_def Let_def e[THEN conjunct1] e[THEN conjunct2] m by auto
  qed
  have "b64decode_loop dtab n ?t (0, buf) = Some (n, data @ drop (length data) buf)"
    using decode_loop_text[OF assms(1), of "[]" 0 n data buf] assms(3) n by simp
  then have "ndrx_b64decode ?t output_length buf dtab =
     (if output_length > 0 \<and> output_length < n then Some (False, output_length, buf) else Some (True, n, data @ drop (length data) buf))"
    using l assms(5) unfolding ndrx_b64decode_def n_def by (simp add: Let_def)
  then show ?thesis using n assms(4) by auto
qed

section \<open>Bounds\<close>

lemma put_octet_ok:
  "n \<le> length buf \<Longrightarrow> \<exists>j' buf'. b64_put_octet n w (j, buf) = Some (j', buf') \<and> length buf' = length buf"
  by (auto simp: b64_put_octet_def buf_put_def)

lemma decode_loop_ok:
  "length data mod 4 = 0 \<Longrightarrow> n \<le> length (snd s) \<Longrightarrow>
   \<exists>s'. b64decode_loop dtab n data s = Some s' \<and> length (snd s') = length (snd s)"
proof (induction dtab n data s rule: b64decode_loop.induct)
  case (1 dtab n a b c d data s)
  obtain j buf where s: "s = (j, buf)" by fastforce
  let ?t = "b64_join dtab a b c d"
  obtain s1 where 1: "b64_put_octet n (drop_bit 16 ?t) s = Some s1" "length (snd s1) = length buf"
    using put_octet_ok[of n buf] "1.prems" s by fastforce
  obtain s2 where 2: "b64_put_octet n (drop_bit 8 ?t) s1 = Some s2" "length (snd s2) = length buf"
    using put_octet_ok[of n "snd s1" _ "fst s1"] "1.prems" s 1(2) by fastforce
  obtain s3 where 3: "b64_put_octet n ?t s2 = Some s3" "length (snd s3) = length buf"
    using put_octet_ok[of n "snd s2" _ "fst s2"] "1.prems" s 2(2) by fastforce
  have "\<exists>s'. b64decode_loop dtab n data s3 = Some s' \<and> length (snd s') = length (snd s3)"
    by (rule "1.IH"[OF b64_join_def]) (use 1 2 3 "1.prems" s in simp_all)
  then show ?case using 1 2 3 s by (simp add: decode_step Let_def)
qed auto

lemma some_bool: "\<exists>ok. ok" "\<exists>ok. \<not> ok"
  by blast+

lemma decode_ok:
  assumes "0 < output_length" "output_length \<le> length buf" "int (length data) \<le> INT_MAX"
  shows "\<exists>ok n buf'. ndrx_b64decode data output_length buf dtab = Some (ok, n, buf') \<and>
    n \<le> output_length \<and> length buf' = length buf"
proof (cases "length data mod 4 = 0")
  case True
  define n where "n = (let m = length data div 4 * 3; m = (if data ! (length data - 1) = CHR ''='' then m - 1 else m) in
    if data ! (length data - 2) = CHR ''='' then m - 1 else m)"
  have r: "ndrx_b64decode data output_length buf dtab =
     (if length data \<le> 0 \<or> output_length > 0 \<and> output_length < n then Some (False, output_length, buf)
      else do { (j, d) \<leftarrow> b64decode_loop dtab n data (0, buf); Some (True, n, d) })"
    using True assms(3) unfolding ndrx_b64decode_def n_def by (simp add: Let_def)
  show ?thesis
    using decode_loop_ok[OF True, of n "(0, buf)" dtab] assms unfolding r by (auto simp: some_bool split: prod.splits)
qed (auto simp: ndrx_b64decode_def)

text \<open>The encoder refuses when the text and its end do not fit, and writes the text of the reference definition
  otherwise.\<close>

lemma encode_ok:
  assumes "0 < output_length" "output_length \<le> length encoded_data" "int output_length \<le> INT_MAX"
  shows "\<exists>ok n buf. ndrx_b64encode data output_length encoded_data tab = Some (ok, n, buf) \<and>
      n \<le> output_length \<and> length buf = length encoded_data \<and>
      (ok \<longrightarrow> n = length (b64_text tab data) + 1 \<and> take n buf = b64_text tab data @ [EXEOS]) \<and>
      (ok \<longleftrightarrow> length (b64_text tab data) < output_length)"
proof (cases "length (b64_text tab data) < output_length")
  case True
  then have "length (b64_text tab data) < length encoded_data" "int (length (b64_text tab data)) \<le> INT_MAX"
    using assms(2,3) by linarith+
  then show ?thesis using encode_text[of tab data encoded_data output_length] True
    by (intro exI[of _ True]) (simp del: length_b64_text)
next
  case False
  then show ?thesis using assms(1) by (simp add: ndrx_b64encode_def Let_def some_bool)
qed

text \<open>C27: Base64 encoding and decoding stay within the buffers they are given, and decoding undoes encoding, with either
  alphabet.  When the caller passes the sizes of the buffers, within an int, neither the encoder nor the decoder writes outside of them, whatever the data
  and the text are; the length they report is within the size.  The encoder refuses when the text and its end-of-string do not fit
  and otherwise writes the text of the reference definition and the end-of-string, the reported length counting both.  The decoder makes
  the data of such a text again, with their length, when the data are not empty and fit; what is behind them in the buffer stays.\<close>

theorem base64_within_buffer:
  assumes "(etab, dtab) \<in> {(M_encoding_table_xa, M_decoding_table_xa), (M_encoding_table_normal, M_decoding_table_normal)}"
    and "0 < output_length" "output_length \<le> length encoded_data" "int output_length \<le> INT_MAX"
    and "0 < decoded_size" "decoded_size \<le> length decoded_data" "int (length text_in) \<le> INT_MAX"
  shows "(\<exists>ok n buf. ndrx_b64encode data output_length encoded_data etab = Some (ok, n, buf) \<and>
      n \<le> output_length \<and> length buf = length encoded_data \<and>
      (ok \<longrightarrow> n = length (b64_text etab data) + 1 \<and> take n buf = b64_text etab data @ [EXEOS]) \<and>
      (ok \<longleftrightarrow> length (b64_text etab data) < output_length)) \<and>
    (\<exists>ok n buf. ndrx_b64decode text_in decoded_size decoded_data dtab = Some (ok, n, buf) \<and>
      n \<le> decoded_size \<and> length buf = length decoded_data) \<and>
    (data \<noteq> [] \<longrightarrow> length (b64_text etab data) < output_length \<longrightarrow> length data \<le> decoded_size \<longrightarrow>
      ndrx_b64decode (b64_text etab data) decoded_size decoded_data dtab = Some (True, length data, data @ drop (length data) decoded_data))"
proof (intro conjI impI)
  assume d: "data \<noteq> []" "length (b64_text etab data) < output_length" "length data \<le> decoded_size"
  then have "int (length (b64_text etab data)) \<le> INT_MAX" using assms(4) by linarith
  moreover have "b64_tables etab dtab" using assms(1) tables_xa tables_normal by auto
  ultimately show "ndrx_b64decode (b64_text etab data) decoded_size decoded_data dtab = Some (True, length data, data @ drop (length data) decoded_data)"
    using decode_text[of etab dtab data decoded_data decoded_size] d assms(6) by simp
qed (use encode_ok[OF assms(2-4)] decode_ok[OF assms(5-7)] in blast)+

theorem base64_within_buffer_witness:
  "(\<exists>n buf. ndrx_b64encode [1, 2] 8 (replicate 8 (CHR ''x'')) M_encoding_table_xa = Some (True, n, buf) \<and> n = 5) \<and>
   ndrx_b64decode (b64_text M_encoding_table_xa [1, 2]) 8 (replicate 8 0) M_decoding_table_xa = Some (True, 2, [1, 2, 0, 0, 0, 0, 0, 0])"
  using base64_within_buffer[of M_encoding_table_xa M_decoding_table_xa 8 "replicate 8 (CHR ''x'')" 8 "replicate 8 0" "''AQI=''" "[1, 2]"]
  by (auto simp: numeral_eq_Suc)

end
