(* ===== verification/Xid.thy ===== *)
theory Xid
  imports Base64
begin

unbundle bit_operations_syntax

text \<open>
  Transaction identifiers: how the transaction manager makes one (libnstd/cid.c, tmsrv/xasrvutil.c), how
  it is written as text and read back, and how the identifier of a branch is made of it
  (libatmi/xautils.c).  The text is the key of the transaction table and part of the name of the log
  file; the branch identifier is what a resource manager sees.  It is shown that the text gives the
  identifier back, that the ids of one process differ for 2 to the 24 calls, and that a branch identifier says
  which branch it is.
\<close>

section \<open>Memory\<close>

definition memcpy_at :: "int \<Rightarrow> 'a list \<Rightarrow> 'a list \<Rightarrow> 'a list option" where
  "memcpy_at off src dst = (if 0 \<le> off \<and> nat off + length src \<le> length dst
     then Some (take (nat off) dst @ src @ drop (nat off + length src) dst) else None)"

definition mem_read :: "int \<Rightarrow> nat \<Rightarrow> 'a list \<Rightarrow> 'a list option" where
  "mem_read off n src = (if 0 \<le> off \<and> nat off + n \<le> length src then Some (take n (drop (nat off) src)) else None)"

text \<open>Numbers in network byte order: htons and htonll with the copy into memory, and back.\<close>

definition be16 :: "int \<Rightarrow> 8 word list" where
  "be16 v = (let w = word_of_int v :: 16 word in [ucast (drop_bit 8 w), ucast w])"

definition be64 :: "int \<Rightarrow> 8 word list" where
  "be64 v = (let w = word_of_int v :: 64 word in map (\<lambda>n. ucast (drop_bit (8 * n) w)) [7, 6, 5, 4, 3, 2, 1, 0])"

definition un_be16 :: "8 word list \<Rightarrow> int" where
  "un_be16 bs = sint (foldl (\<lambda>acc b. push_bit 8 acc OR ucast b) (0 :: 16 word) bs)"

definition un_be64 :: "8 word list \<Rightarrow> int" where
  "un_be64 bs = sint (foldl (\<lambda>acc b. push_bit 8 acc OR ucast b) (0 :: 64 word) bs)"

text \<open>The text in a buffer.\<close>

definition cstr :: "string \<Rightarrow> string" where
  "cstr buf = takeWhile (\<lambda>c. c \<noteq> EXEOS) buf"

section \<open>Cluster ids\<close>

record cid_state =
  M_seedp :: "32 word"
  M_counter :: "32 word"

text \<open>Two calls of gettimeofday: the microseconds of the first, seconds and microseconds of the second.\<close>

record cid_time =
  ct_usec1 :: "64 word"
  ct_sec :: "64 word"
  ct_usec :: "64 word"

definition cid_rnd :: "(32 word \<Rightarrow> 32 word \<times> 32 word) \<Rightarrow> 32 word \<Rightarrow> 16 word \<times> 32 word" where
  "cid_rnd rand_r seedp =
    (let (r1, seedp1) = rand_r seedp; (r2, seedp2) = rand_r seedp1;
         rnd1 = push_bit 8 (0 :: 16 word) OR ucast (r1 AND 0xff);
         rnd2 = push_bit 8 rnd1 OR ucast (r2 AND 0xff)
     in (rnd2, seedp2))"

definition ndrx_cid_generate ::
  "(32 word \<Rightarrow> 32 word \<times> 32 word) \<Rightarrow> 32 word \<Rightarrow> cid_time \<Rightarrow> 8 word \<Rightarrow> cid_state \<Rightarrow> 8 word list \<times> cid_state" where
  "ndrx_cid_generate rand_r pid tv prefix s =
    (let counter = M_counter s + 1;
         (rnd, seedp) = cid_rnd rand_r (M_seedp s)
     in ([prefix,
          ucast (drop_bit 24 pid AND 0xff), ucast (drop_bit 16 pid AND 0xff),
          ucast (drop_bit 8 pid AND 0xff), ucast (pid AND 0xff),
          ucast (drop_bit 7 (ct_usec1 tv) AND 0xff),
          ucast (drop_bit 16 counter AND 0xff), ucast (drop_bit 8 counter AND 0xff), ucast (counter AND 0xff),
          ucast ((ct_usec tv AND 0xfe) OR (drop_bit 32 (ct_sec tv) AND 0xff)),
          ucast (drop_bit 24 (ct_sec tv) AND 0xff), ucast (drop_bit 16 (ct_sec tv) AND 0xff),
          ucast (drop_bit 8 (ct_sec tv) AND 0xff), ucast (ct_sec tv AND 0xff),
          ucast (drop_bit 8 rnd AND 0xff), ucast (rnd AND 0xff)],
         \<lparr>M_seedp = seedp, M_counter = counter\<rparr>))"

section \<open>Identifiers\<close>

record xid =
  formatID :: "64 word"
  gtrid_length :: int
  bqual_length :: int
  xid_data :: "8 word list"

definition NDRX_XID_FORMAT_ID :: "64 word" where
  "NDRX_XID_FORMAT_ID = 0x6194f7a1"

abbreviation XIDDATASIZE :: nat where "XIDDATASIZE \<equiv> 128"
abbreviation MAXGTRIDSIZE :: int where "MAXGTRIDSIZE \<equiv> 64"
abbreviation MAXBQUALSIZE :: int where "MAXBQUALSIZE \<equiv> 64"
abbreviation NDRX_XID_TRID_LEN :: int where "NDRX_XID_TRID_LEN \<equiv> 16"
abbreviation NDRX_XID_BQUAL_LEN :: int where "NDRX_XID_BQUAL_LEN \<equiv> 5"

text \<open>A new identifier, from the cluster id and the settings of the server.\<close>

definition atmi_xa_new_xid :: "8 word list \<Rightarrow> int \<Rightarrow> int \<Rightarrow> int \<Rightarrow> xid option" where
  "atmi_xa_new_xid uuid_val xa_rmid vnodeid srv_id = do {
     d1 \<leftarrow> memcpy_at 0 uuid_val (replicate XIDDATASIZE 0);
     d2 \<leftarrow> memcpy_at NDRX_XID_TRID_LEN [word_of_int xa_rmid] d1;
     d3 \<leftarrow> memcpy_at (NDRX_XID_TRID_LEN + 1) (be16 vnodeid) d2;
     d4 \<leftarrow> memcpy_at (NDRX_XID_TRID_LEN + 1 + 2) (be16 srv_id) d3;
     b \<leftarrow> mem_read 0 (nat MAXBQUALSIZE) d4;
     d5 \<leftarrow> memcpy_at MAXGTRIDSIZE b d4;
     Some \<lparr>formatID = NDRX_XID_FORMAT_ID, gtrid_length = MAXGTRIDSIZE, bqual_length = MAXBQUALSIZE, xid_data = d5\<rparr>
   }"

definition atmi_xa_serialize_xid :: "xid \<Rightarrow> string \<Rightarrow> string option" where
  "atmi_xa_serialize_xid x xid_str_out = do {
     a \<leftarrow> mem_read 0 (nat NDRX_XID_TRID_LEN) (xid_data x);
     b \<leftarrow> mem_read NDRX_XID_TRID_LEN (nat NDRX_XID_BQUAL_LEN) (xid_data x);
     (ok, out_len, out) \<leftarrow> ndrx_xa_base64_encode
       ([ucast (drop_bit 24 (formatID x) AND 0xff), ucast (drop_bit 16 (formatID x) AND 0xff),
         ucast (drop_bit 8 (formatID x) AND 0xff), ucast (formatID x AND 0xff),
         word_of_int (gtrid_length x), word_of_int (bqual_length x)] @ a @ b) 0 xid_str_out;
     Some out
   }"

text \<open>The buffer \<open>tmp\<close> on the stack has any content at first.\<close>

definition atmi_xa_deserialize_xid :: "8 word list \<Rightarrow> string \<Rightarrow> xid \<Rightarrow> xid option" where
  "atmi_xa_deserialize_xid tmp0 xid_str xid_out = do {
     (ok, tot_len, tmp) \<leftarrow> ndrx_xa_base64_decode (cstr xid_str) 0 tmp0;
     if \<not> ok then Some xid_out
     else do {
       b \<leftarrow> mem_read 6 (nat (NDRX_XID_TRID_LEN + NDRX_XID_BQUAL_LEN)) tmp;
       d1 \<leftarrow> memcpy_at 0 b (replicate XIDDATASIZE 0);
       d2 \<leftarrow> memcpy_at MAXGTRIDSIZE b d1;
       Some \<lparr>formatID = 0 OR push_bit 24 (ucast (tmp ! 0)) OR push_bit 16 (ucast (tmp ! 1)) OR
               push_bit 8 (ucast (tmp ! 2)) OR ucast (tmp ! 3),
             gtrid_length = uint (tmp ! 4), bqual_length = uint (tmp ! 5), xid_data = d2\<rparr>
     }
   }"

definition zero_xid :: xid where
  "zero_xid = \<lparr>formatID = 0, gtrid_length = 0, bqual_length = 0, xid_data = replicate XIDDATASIZE 0\<rparr>"

text \<open>The identifier of a branch, made in the buffer of the thread.\<close>

definition atmi_xa_get_branch_xid :: "int \<Rightarrow> bool \<Rightarrow> 8 word list \<Rightarrow> string \<Rightarrow> int \<Rightarrow> xid option" where
  "atmi_xa_get_branch_xid xa_rmid btight tmp0 tmxid btid = do {
     x \<leftarrow> atmi_xa_deserialize_xid tmp0 tmxid zero_xid;
     d1 \<leftarrow> memcpy_at (gtrid_length x - 8 - 1) [word_of_int xa_rmid] (xid_data x);
     d2 \<leftarrow> memcpy_at (gtrid_length x + bqual_length x - 8 - 1) [word_of_int xa_rmid] d1;
     d3 \<leftarrow> (if \<not> btight then memcpy_at (gtrid_length x - 8) (be64 btid) d2 else Some d2);
     d4 \<leftarrow> memcpy_at (gtrid_length x + bqual_length x - 8) (be64 btid) d3;
     Some (x\<lparr>xid_data := d4\<rparr>)
   }"

text \<open>What an identifier says: node, server, manager that began, current manager, branch.  The length
  of the global part of the identifier in the thread's buffer is a parameter, as the code uses it.\<close>

definition atmi_xa_xid_get_info :: "int \<Rightarrow> xid \<Rightarrow> (int \<times> int \<times> int \<times> int \<times> int) option" where
  "atmi_xa_xid_get_info tls_gtrid_length x = do {
     r \<leftarrow> mem_read NDRX_XID_TRID_LEN 1 (xid_data x);
     n \<leftarrow> mem_read (NDRX_XID_TRID_LEN + 1) 2 (xid_data x);
     s \<leftarrow> mem_read (NDRX_XID_TRID_LEN + 1 + 2) 2 (xid_data x);
     c \<leftarrow> mem_read (gtrid_length x - 8 - 1) 1 (xid_data x);
     b \<leftarrow> mem_read (gtrid_length x + tls_gtrid_length - 8) 8 (xid_data x);
     Some (un_be16 n, un_be16 s, uint (r ! 0), uint (c ! 0), un_be64 b)
   }"

text \<open>Message ids of the persistent queue (libatmi/qcommon.c) use the same text form.\<close>

abbreviation TMMSGIDLEN :: nat where "TMMSGIDLEN \<equiv> 32"

definition tmq_msgid_serialize :: "8 word list \<Rightarrow> string \<Rightarrow> string option" where
  "tmq_msgid_serialize msgid_in msgid_str_out = do {
     m \<leftarrow> mem_read 0 TMMSGIDLEN msgid_in;
     (ok, out_len, out) \<leftarrow> ndrx_xa_base64_encode m 0 msgid_str_out;
     Some out
   }"

definition tmq_msgid_deserialize :: "string \<Rightarrow> 8 word list \<Rightarrow> 8 word list option" where
  "tmq_msgid_deserialize msgid_str_in msgid_out = do {
     m \<leftarrow> memcpy_at 0 (replicate TMMSGIDLEN 0) msgid_out;
     (ok, tot_len, out) \<leftarrow> ndrx_xa_base64_decode (cstr msgid_str_in) 0 m;
     Some out
   }"

section \<open>Bytes\<close>

lemma length_be [simp]: "length (be16 v) = 2" "length (be64 v) = 8"
  by (simp_all add: be16_def be64_def Let_def)

lemma un_be16 [simp]: "un_be16 (be16 v) = signed_take_bit 15 v"
proof -
  let ?w = "word_of_int v :: 16 word"
  have "push_bit 8 (ucast (ucast (drop_bit 8 ?w) :: 8 word)) OR ucast (ucast ?w :: 8 word) = ?w"
    by (rule bit_word_eqI) (auto simp: bit_simps)
  then show ?thesis by (simp add: un_be16_def be16_def Let_def sint_sbintrunc')
qed

lemma be64_step: "push_bit 8 (drop_bit (k + 8) w) OR ucast (ucast (drop_bit k w) :: 8 word) = drop_bit k w" for w :: "64 word"
proof (rule bit_word_eqI)
  fix n
  assume "n < LENGTH(64)"
  then show "bit (push_bit 8 (drop_bit (k + 8) w) OR ucast (ucast (drop_bit k w) :: 8 word)) n = bit (drop_bit k w) n"
    by (cases "n < 8") (auto simp: bit_simps algebra_simps dest: bit_imp_le_length)
qed

lemma un_be64 [simp]: "un_be64 (be64 v) = signed_take_bit 63 v"
proof -
  let ?w = "word_of_int v :: 64 word"
  have "ucast (ucast (drop_bit 56 ?w) :: 8 word) = drop_bit 56 ?w"
    by (rule bit_word_eqI) (auto simp: bit_simps dest: bit_imp_le_length)
  then have "foldl (\<lambda>acc b. push_bit 8 acc OR ucast b) (0 :: 64 word) (be64 v) = ?w"
    using be64_step[of 48 ?w] be64_step[of 40 ?w] be64_step[of 32 ?w] be64_step[of 24 ?w] be64_step[of 16 ?w]
      be64_step[of 8 ?w] be64_step[of 0 ?w]
    by (simp add: be64_def Let_def)
  then show ?thesis by (simp add: un_be64_def sint_sbintrunc')
qed

section \<open>Text and back\<close>

text \<open>What the first part of an identifier says: cluster id, resource manager, node, server.\<close>

definition xid_part :: "8 word list \<Rightarrow> int \<Rightarrow> int \<Rightarrow> int \<Rightarrow> 8 word list" where
  "xid_part uuid rmid node srv = uuid @ [word_of_int rmid] @ be16 node @ be16 srv"

lemma length_xid_part [simp]: "length (xid_part uuid rmid node srv) = length uuid + 5"
  by (simp add: xid_part_def)

definition base_xid :: "8 word list \<Rightarrow> xid" where
  "base_xid part = \<lparr>formatID = NDRX_XID_FORMAT_ID, gtrid_length = 64, bqual_length = 64,
     xid_data = part @ replicate 43 0 @ part @ replicate 43 0\<rparr>"

lemma new_xid_eq:
  assumes "length uuid = 16"
  shows "atmi_xa_new_xid uuid rmid node srv = Some (base_xid (xid_part uuid rmid node srv))"
  using assms by (simp add: atmi_xa_new_xid_def memcpy_at_def mem_read_def base_xid_def xid_part_def)

definition xid_bytes :: "8 word list \<Rightarrow> 8 word list" where
  "xid_bytes part = [0x61, 0x94, 0xf7, 0xa1, 64, 64] @ part"

lemma table_no_eos: "c \<in> set (b64_text M_encoding_table_xa ds) \<Longrightarrow> c \<noteq> EXEOS"
proof -
  have "list_all (\<lambda>c. c \<noteq> EXEOS) M_encoding_table_xa" "length M_encoding_table_xa = 64" by code_simp+
  then have c: "b64_char M_encoding_table_xa t n \<noteq> EXEOS" for t n
    using unat_field[of "n * 6" t 6] by (simp add: b64_char_def list_all_length masks)
  moreover have "CHR ''='' \<noteq> EXEOS" by (simp add: EXEOS_def)
  ultimately show "c \<in> set (b64_text M_encoding_table_xa ds) \<Longrightarrow> c \<noteq> EXEOS"
    by (induction M_encoding_table_xa ds rule: b64_text.induct) (auto simp: c c[symmetric])
qed

lemma cstr_text: "cstr (b64_text M_encoding_table_xa ds @ EXEOS # rest) = b64_text M_encoding_table_xa ds"
  unfolding cstr_def using table_no_eos[of _ ds] by (subst takeWhile_append2) auto

lemma serialize_eq:
  assumes "length part = 21" "36 < length buf"
  shows "atmi_xa_serialize_xid (base_xid part) buf =
    Some (b64_text M_encoding_table_xa (xid_bytes part) @ EXEOS # drop 37 buf)"
proof -
  have "take 16 part @ take 5 (drop 16 part) = part"
    using assms(1) append_take_drop_id[of 16 part] by simp
  then show ?thesis
    using assms encode_text[of M_encoding_table_xa "xid_bytes part" buf 0]
    by (simp add: atmi_xa_serialize_xid_def mem_read_def base_xid_def ndrx_xa_base64_encode_def NDRX_XID_FORMAT_ID_def xid_bytes_def)
qed

lemma deserialize_eq:
  assumes "length part = 21" "27 \<le> length tmp0" "cstr str = b64_text M_encoding_table_xa (xid_bytes part)"
  shows "atmi_xa_deserialize_xid tmp0 str x0 = Some (base_xid part)"
  using decode_text[OF tables_xa, of "xid_bytes part" tmp0 0] assms
  by (simp add: atmi_xa_deserialize_xid_def ndrx_xa_base64_decode_def xid_bytes_def mem_read_def memcpy_at_def
      base_xid_def NDRX_XID_FORMAT_ID_def)

section \<open>Branches\<close>

definition branch_part :: "8 word list \<Rightarrow> int \<Rightarrow> 8 word list \<Rightarrow> 8 word list" where
  "branch_part part rmid b = part @ replicate 34 0 @ [word_of_int rmid] @ b"

lemma branch_xid_eq:
  assumes "length part = 21" "27 \<le> length tmp0" "cstr str = b64_text M_encoding_table_xa (xid_bytes part)"
  shows "atmi_xa_get_branch_xid rmid btight tmp0 str btid =
    Some (base_xid part\<lparr>xid_data := branch_part part rmid (if btight then replicate 8 0 else be64 btid) @
       branch_part part rmid (be64 btid)\<rparr>)"
proof -
  have z: "replicate 43 (0 :: 8 word) = replicate 34 0 @ [0] @ replicate 8 0" by code_simp
  have d: "memcpy_at 55 [r] (part @ replicate 43 0 @ rest) = Some (part @ replicate 34 0 @ [r] @ replicate 8 0 @ rest)"
      "memcpy_at 119 [r] (part @ mid @ part @ replicate 43 0) = Some (part @ mid @ part @ replicate 34 0 @ [r] @ replicate 8 0)"
      "memcpy_at 56 b8 (part @ replicate 34 0 @ [r] @ replicate 8 0 @ rest) = Some (part @ replicate 34 0 @ [r] @ b8 @ rest)"
      "memcpy_at 120 b8 (part @ mid @ part @ replicate 34 0 @ [r] @ replicate 8 0) = Some (part @ mid @ part @ replicate 34 0 @ [r] @ b8)"
    if "length mid = 43" "length b8 = 8" for rest :: "8 word list" and mid b8 r
    using assms(1) that by (simp_all add: memcpy_at_def z)
  show ?thesis
    using d(1)[of "replicate 43 0" "be64 btid" "word_of_int rmid" "part @ replicate 43 0"]
      d(2)[of "replicate 34 0 @ [word_of_int rmid] @ replicate 8 0" "be64 btid" "word_of_int rmid"]
      d(3)[of "replicate 43 0" "be64 btid" "word_of_int rmid" "part @ replicate 34 0 @ [word_of_int rmid] @ replicate 8 0"]
      d(4)[of "replicate 34 0 @ [word_of_int rmid] @ replicate 8 0" "be64 btid" "word_of_int rmid"]
      d(4)[of "replicate 34 0 @ [word_of_int rmid] @ be64 btid" "be64 btid" "word_of_int rmid"]
    by (simp add: atmi_xa_get_branch_xid_def deserialize_eq[OF assms] base_xid_def branch_part_def)
qed

lemma branch_info:
  assumes "length uuid = 16" "length b8 = 8"
  shows "atmi_xa_xid_get_info 64 (base_xid part\<lparr>xid_data := branch_part (xid_part uuid rmid0 node srv) rmid b8 @
      branch_part (xid_part uuid rmid0 node srv) rmid (be64 btid)\<rparr>) =
    Some (signed_take_bit 15 node, signed_take_bit 15 srv, take_bit 8 rmid0, take_bit 8 rmid, signed_take_bit 63 btid)"
  using assms
  by (simp add: atmi_xa_xid_get_info_def base_xid_def branch_part_def mem_read_def xid_part_def unsigned_of_int)

section \<open>Message ids\<close>

lemma msgid_round_trip:
  assumes "length msgid = 32" "44 < length buf" "length out = 32"
  shows "\<exists>str. tmq_msgid_serialize msgid buf = Some str \<and> length (cstr str) = 44 \<and>
    tmq_msgid_deserialize str out = Some msgid"
proof -
  have "msgid \<noteq> []" using assms(1) by auto
  then show ?thesis
    using assms encode_text[of M_encoding_table_xa msgid buf 0] decode_text[OF tables_xa, of msgid "replicate 32 0" 0]
    by (simp add: tmq_msgid_serialize_def tmq_msgid_deserialize_def mem_read_def memcpy_at_def ndrx_xa_base64_encode_def
        ndrx_xa_base64_decode_def cstr_text)
qed

text \<open>A text of 44 characters without padding has 33 bytes: the last one is written behind the
  buffer of 32 bytes.\<close>

lemma msgid_overrun: "tmq_msgid_deserialize (replicate 44 (CHR ''A'')) (replicate 32 0) = None"
  by code_simp

section \<open>Properties\<close>

text \<open>The whole way of a new identifier to its text.\<close>

definition new_tmxid :: "8 word list \<Rightarrow> int \<Rightarrow> int \<Rightarrow> int \<Rightarrow> string \<Rightarrow> string option" where
  "new_tmxid uuid rmid node srv buf = do {
     x \<leftarrow> atmi_xa_new_xid uuid rmid node srv;
     atmi_xa_serialize_xid x buf
   }"

lemma new_tmxid_eq:
  assumes "length uuid = 16" "36 < length buf"
  shows "new_tmxid uuid rmid node srv buf =
    Some (b64_text M_encoding_table_xa (xid_bytes (xid_part uuid rmid node srv)) @ EXEOS # drop 37 buf)"
  using assms by (simp add: new_tmxid_def new_xid_eq serialize_eq)

lemma text_Nil: "b64_text tab ds = [] \<longleftrightarrow> ds = []"
  by (induction tab ds rule: b64_text.induct) auto

lemma text_inj:
  assumes "b64_text M_encoding_table_xa xs = b64_text M_encoding_table_xa ys"
    and "int (length (b64_text M_encoding_table_xa xs)) \<le> INT_MAX"
  shows "xs = ys"
proof (cases "xs = []")
  case True
  then show ?thesis using assms text_Nil[of M_encoding_table_xa ys] by simp
next
  case False
  then have "ys \<noteq> []" using assms(1) text_Nil[of M_encoding_table_xa] by metis
  then show ?thesis
    using decode_text[OF tables_xa, of xs "replicate (length xs + length ys) 0" 0] assms
      decode_text[OF tables_xa, of ys "replicate (length xs + length ys) 0" 0] False
    by (auto simp: append_eq_append_conv)
qed

text \<open>C26: a transaction identifier survives its text form.  A new identifier is written as a text
  of 36 characters (it fits the field of 48), and reading the text gives the identifier back, byte by byte, whatever
  was in the buffers before.\<close>

theorem xid_round_trip:
  assumes "length uuid = 16" "36 < length buf" "27 \<le> length tmp0"
  shows "\<exists>x str. atmi_xa_new_xid uuid rmid node srv = Some x \<and> atmi_xa_serialize_xid x buf = Some str \<and>
    length (cstr str) = 36 \<and> atmi_xa_deserialize_xid tmp0 str x0 = Some x"
  using assms
  by (simp add: new_xid_eq serialize_eq cstr_text deserialize_eq xid_bytes_def[of "xid_part uuid rmid node srv", symmetric]
      del: append_Cons) (simp add: xid_bytes_def)

theorem xid_round_trip_witness:
  "\<exists>x str. atmi_xa_new_xid (replicate 16 7) 1 2 3 = Some x \<and>
     atmi_xa_serialize_xid x (replicate 49 (CHR 0x00)) = Some str \<and> length (cstr str) = 36 \<and>
     atmi_xa_deserialize_xid (replicate 192 9) str zero_xid = Some x"
  by (rule xid_round_trip) simp_all

text \<open>C25: a branch identifier says which branch it is.  The identifier that a resource manager gets for
  a branch is read back as the node and the server of the transaction manager, the resource manager that began,
  the current one and the branch id; and two branch identifiers are equal only when the
  transactions and the branches are.\<close>

theorem branch_xid_identifies:
  assumes "length uuid = 16" "36 < length buf" "27 \<le> length tmp" "length uuid' = 16" "36 < length buf'" "27 \<le> length tmp'"
    and "new_tmxid uuid rmid0 node srv buf = Some str" "new_tmxid uuid' rmid0' node' srv' buf' = Some str'"
    and "is_short node" "is_short srv" "is_short node'" "is_short srv'"
    and "rmid0 \<in> {0..255}" "rmid \<in> {0..255}" "rmid0' \<in> {0..255}" "rmid' \<in> {0..255}"
    and "btid \<in> {- (2 ^ 63) ..< 2 ^ 63}" "btid' \<in> {- (2 ^ 63) ..< 2 ^ 63}"
  shows "(\<exists>x. atmi_xa_get_branch_xid rmid btight tmp str btid = Some x \<and>
      atmi_xa_xid_get_info (gtrid_length x) x = Some (node, srv, rmid0, rmid, btid)) \<and>
    (atmi_xa_get_branch_xid rmid btight tmp str btid = atmi_xa_get_branch_xid rmid' btight tmp' str' btid' \<longleftrightarrow>
      (uuid, rmid0, node, srv, rmid, btid) = (uuid', rmid0', node', srv', rmid', btid'))"
proof -
  define part part' where "part = xid_part uuid rmid0 node srv" and "part' = xid_part uuid' rmid0' node' srv'"
  have l: "length part = 21" "length part' = 21" using assms(1,4) by (simp_all add: part_def part'_def)
  have "cstr str = b64_text M_encoding_table_xa (xid_bytes part)" "cstr str' = b64_text M_encoding_table_xa (xid_bytes part')"
    using assms(7,8) new_tmxid_eq[OF assms(1,2)] new_tmxid_eq[OF assms(4,5)] by (auto simp: cstr_text part_def part'_def)
  note eqs = branch_xid_eq[OF l(1) assms(3) this(1)] branch_xid_eq[OF l(2) assms(6) this(2)]
  define x x' where "x = base_xid part\<lparr>xid_data := branch_part part rmid (if btight then replicate 8 0 else be64 btid) @
       branch_part part rmid (be64 btid)\<rparr>"
    and "x' = base_xid part'\<lparr>xid_data := branch_part part' rmid' (if btight then replicate 8 0 else be64 btid') @
       branch_part part' rmid' (be64 btid')\<rparr>"
  have 1: "atmi_xa_get_branch_xid rmid btight tmp str btid = Some x" "atmi_xa_get_branch_xid rmid' btight tmp' str' btid' = Some x'"
    unfolding x_def x'_def by (rule eqs)+
  have r: "signed_take_bit 15 v = v" if "is_short v" for v using that by (simp add: is_short_def signed_take_bit_int_eq_self)
  have r8: "take_bit 8 v = v" if "v \<in> {0..255}" for v :: int using that by (simp add: take_bit_int_eq_self)
  have r63: "signed_take_bit 63 v = v" if "v \<in> {- (2 ^ 63) ..< 2 ^ 63}" for v :: int
    using that by (simp add: signed_take_bit_int_eq_self)
  have i: "atmi_xa_xid_get_info 64 x = Some (node, srv, rmid0, rmid, btid)"
    "atmi_xa_xid_get_info 64 x' = Some (node', srv', rmid0', rmid', btid')"
    unfolding x_def x'_def part_def part'_def using assms by (simp_all add: branch_info r r8 r63)
  have "gtrid_length x = 64" by (simp add: x_def base_xid_def)
  moreover have "uuid = take 16 (xid_data x)" "uuid' = take 16 (xid_data x')"
    using assms(1,4) by (simp_all add: x_def x'_def base_xid_def branch_part_def part_def part'_def xid_part_def)
  moreover have "x = x'" if "(uuid, rmid0, node, srv, rmid, btid) = (uuid', rmid0', node', srv', rmid', btid')"
    using that by (simp add: x_def x'_def part_def part'_def)
  ultimately have "x = x' \<longleftrightarrow> (uuid, rmid0, node, srv, rmid, btid) = (uuid', rmid0', node', srv', rmid', btid')"
    using i by (metis option.inject prod.inject)
  then show ?thesis unfolding 1 using i(1) \<open>gtrid_length x = 64\<close> by simp
qed

theorem branch_xid_identifies_witness:
  "\<exists>str x. new_tmxid (replicate 16 7) 1 2 (- 3) (replicate 49 (CHR 0x00)) = Some str \<and>
     atmi_xa_get_branch_xid 200 False (replicate 192 0) str (- 5) = Some x \<and>
     atmi_xa_xid_get_info (gtrid_length x) x = Some (2, - 3, 1, 200, - 5) \<and>
     atmi_xa_get_branch_xid 200 False (replicate 192 0) str (- 5) \<noteq> atmi_xa_get_branch_xid 200 False (replicate 192 0) str 5"
proof -
  let ?u = "replicate 16 (7 :: 8 word)" and ?b = "replicate 49 (CHR 0x00)" and ?t = "replicate 192 (0 :: 8 word)"
  obtain str where s: "new_tmxid ?u 1 2 (- 3) ?b = Some str" using new_tmxid_eq[of ?u ?b] by simp
  show ?thesis
    using branch_xid_identifies[of ?u ?b ?t ?u ?b ?t 1 2 "- 3" str 1 2 "- 3" str 200 200 "- 5" 5 False] s
    by (auto simp: is_short_def)
qed

text \<open>The ids one process makes, one after the other.\<close>

fun cids :: "(32 word \<Rightarrow> 32 word \<times> 32 word) \<Rightarrow> 32 word \<Rightarrow> 8 word \<Rightarrow> cid_time list \<Rightarrow> cid_state \<Rightarrow> 8 word list list" where
  "cids rand_r pid prefix [] s = []"
| "cids rand_r pid prefix (tv # tvs) s =
     (let (u, s') = ndrx_cid_generate rand_r pid tv prefix s in u # cids rand_r pid prefix tvs s')"

definition cid_counter :: "8 word list \<Rightarrow> nat" where
  "cid_counter u = unat (u ! 6) * 65536 + unat (u ! 7) * 256 + unat (u ! 8)"

lemma counter_bytes:
  "unat (ucast (drop_bit 16 c AND 0xff) :: 8 word) * 65536 + unat (ucast (drop_bit 8 c AND 0xff) :: 8 word) * 256 +
   unat (ucast (c AND 0xff) :: 8 word) = unat c mod 2 ^ 24" for c :: "32 word"
proof -
  have u: "unat (ucast (drop_bit n c AND 0xff) :: 8 word) = unat c div 2 ^ n mod 256" for n
    by (simp add: unsigned_ucast_eq masks unat_field take_bit_eq_mod)
  have "unat c mod 2 ^ 24 = unat c div 65536 mod 256 * 65536 + unat c div 256 mod 256 * 256 + unat c mod 256"
  proof -
    have "unat c mod (256 * 256 * 256) = 256 * 256 * (unat c div (256 * 256) mod 256) + 256 * (unat c div 256 mod 256) + unat c mod 256"
      by (simp only: mod_mult2_eq div_mult2_eq)
    then show ?thesis by simp
  qed
  then show ?thesis using u[of 16] u[of 8] u[of 0] by simp
qed

lemma cid_generate_counter:
  "ndrx_cid_generate rand_r pid tv prefix s = (u, s') \<Longrightarrow>
   length u = 16 \<and> cid_counter u = unat (M_counter s + 1) mod 2 ^ 24 \<and> M_counter s' = M_counter s + 1"
  by (auto simp: ndrx_cid_generate_def Let_def cid_counter_def counter_bytes split: prod.splits)

lemma cids_counter:
  "i < length tvs \<Longrightarrow> length (cids rand_r pid prefix tvs s ! i) = 16 \<and>
   cid_counter (cids rand_r pid prefix tvs s ! i) = unat (M_counter s + 1 + word_of_nat i) mod 2 ^ 24"
proof (induction tvs arbitrary: s i)
  case (Cons tv tvs)
  obtain u s' where u: "ndrx_cid_generate rand_r pid tv prefix s = (u, s')" by fastforce
  show ?case
    using Cons.IH[of _ s'] Cons.prems u cid_generate_counter[OF u] by (cases i) (simp_all add: algebra_simps)
qed simp

lemma length_cids [simp]: "length (cids rand_r pid prefix tvs s) = length tvs"
  by (induction tvs arbitrary: s) (simp_all split: prod.splits)

lemma unat_add_mod: "unat (c + word_of_nat i) mod 2 ^ 24 = (unat c + i) mod 2 ^ 24" for c :: "32 word"
proof -
  have "unat (c + word_of_nat i) = (unat c + i) mod 2 ^ 32"
    by (simp add: unat_word_ariths unat_of_nat mod_add_right_eq)
  then show ?thesis by (simp add: mod_mod_cancel)
qed

lemma add_mod_neq:
  fixes c :: nat
  assumes "i < n" "j < n" "i \<noteq> j"
  shows "(c + i) mod n \<noteq> (c + j) mod n"
proof
  assume "(c + i) mod n = (c + j) mod n"
  then have "(int c + int i) mod int n = (int c + int j) mod int n"
    by (metis of_nat_add of_nat_mod)
  then have "int i mod int n = int j mod int n" by (metis add_diff_cancel_left' mod_diff_left_eq)
  then show False using assms by simp
qed

lemma cids_distinct:
  assumes "length tvs \<le> 2 ^ 24"
  shows "distinct (cids rand_r pid prefix tvs s)"
proof (unfold distinct_conv_nth, intro allI impI)
  fix i j
  assume ij: "i < length (cids rand_r pid prefix tvs s)" "j < length (cids rand_r pid prefix tvs s)" "i \<noteq> j"
  let ?c = "unat (M_counter s + 1)"
  have "(?c + i) mod 2 ^ 24 \<noteq> (?c + j) mod 2 ^ 24"
    using ij assms by (intro add_mod_neq) auto
  then show "cids rand_r pid prefix tvs s ! i \<noteq> cids rand_r pid prefix tvs s ! j"
    using cids_counter[of i tvs rand_r pid prefix s] cids_counter[of j tvs rand_r pid prefix s] ij
    by (auto simp: unat_add_mod[simplified])
qed

text \<open>C24: the transaction identifiers of a process are different.  Whatever the clock and the random numbers
  are, and also across a wrap-around of the counter, the texts of up to 2 to the 24 identifiers made one after
  the other are pairwise different.\<close>

theorem new_xids_distinct:
  assumes "length tvs \<le> 2 ^ 24" "36 < length buf"
  shows "distinct (map (\<lambda>uuid. map_option cstr (new_tmxid uuid rmid node srv buf)) (cids rand_r pid prefix tvs s))"
proof (subst distinct_map, intro conjI inj_onI)
  show "distinct (cids rand_r pid prefix tvs s)" by (rule cids_distinct[OF assms(1)])
  fix u v
  assume uv: "u \<in> set (cids rand_r pid prefix tvs s)" "v \<in> set (cids rand_r pid prefix tvs s)"
    and eq: "map_option cstr (new_tmxid u rmid node srv buf) = map_option cstr (new_tmxid v rmid node srv buf)"
  have "length w = 16" if "w \<in> set (cids rand_r pid prefix tvs s)" for w
    using that cids_counter[of _ tvs rand_r pid prefix s] by (auto simp: in_set_conv_nth)
  with uv have l: "length u = 16" "length v = 16" by auto
  have "xid_bytes (xid_part u rmid node srv) = xid_bytes (xid_part v rmid node srv)"
    using eq l by (intro text_inj) (simp add: new_tmxid_eq assms(2) cstr_text, simp add: xid_bytes_def)
  then show "u = v" by (simp add: xid_bytes_def xid_part_def)
qed

theorem new_xids_distinct_witness:
  "distinct (map (\<lambda>uuid. map_option cstr (new_tmxid uuid 1 2 3 (replicate 49 (CHR 0x00))))
     (cids (\<lambda>s. (7, s)) 100 2 [\<lparr>ct_usec1 = 5, ct_sec = 6, ct_usec = 5\<rparr>, \<lparr>ct_usec1 = 5, ct_sec = 6, ct_usec = 5\<rparr>]
       \<lparr>M_seedp = 0, M_counter = - 1\<rparr>))"
  by (rule new_xids_distinct) simp_all

end
