(* ===== verification/Exhash_Buckets.thy ===== *)
theory Exhash_Buckets
  imports Exhash
begin

unbundle bit_operations_syntax

text \<open>
  The hash tables of include/exhash.h as they are: an array of buckets with a chain of elements each, Jenkins'
  hash function, and the doubling of the array when a chain gets long.  The links of an element (prev and next in
  application order, hh_prev and hh_next in its chain) are lists, an element stands at the place of its links.  It is shown
  that a table does what the list of theory \<open>Exhash\<close> does, whatever was added and removed and however
  often the array was doubled.  The counters of elements and buckets are naturals where the code has unsigned ints, and allocation does not fail: exhash_fatal, which ends the process, is left out.
\<close>

section \<open>Jenkins' hash function\<close>

text \<open>A \<^verbatim>\<open>char\<close> is signed: it is extended with its sign.\<close>

definition char_u32 :: "char \<Rightarrow> 32 word" where
  "char_u32 c = scast (word_of_nat (of_char c) :: 8 word)"

definition EXEXHASH_JEN_MIX :: "32 word \<times> 32 word \<times> 32 word \<Rightarrow> 32 word \<times> 32 word \<times> 32 word" where
  "EXEXHASH_JEN_MIX abc = (case abc of (a, b, c) \<Rightarrow>
     let a = (a - b - c) XOR drop_bit 13 c; b = (b - c - a) XOR push_bit 8 a; c = (c - a - b) XOR drop_bit 13 b;
         a = (a - b - c) XOR drop_bit 12 c; b = (b - c - a) XOR push_bit 16 a; c = (c - a - b) XOR drop_bit 5 b;
         a = (a - b - c) XOR drop_bit 3 c; b = (b - c - a) XOR push_bit 10 a; c = (c - a - b) XOR drop_bit 15 b
     in (a, b, c))"

definition jen4 :: "string \<Rightarrow> nat \<Rightarrow> 32 word" where
  "jen4 key i = char_u32 (key ! i) + push_bit 8 (char_u32 (key ! (i + 1))) +
     push_bit 16 (char_u32 (key ! (i + 2))) + push_bit 24 (char_u32 (key ! (i + 3)))"

text \<open>The loop over blocks of 12 characters.\<close>

function jen_loop :: "string \<Rightarrow> 32 word \<times> 32 word \<times> 32 word \<Rightarrow> string \<times> 32 word \<times> 32 word \<times> 32 word" where
  "jen_loop key abc = (if length key \<ge> 12
     then (case abc of (i, j, hashv) \<Rightarrow>
       jen_loop (drop 12 key) (EXEXHASH_JEN_MIX (i + jen4 key 0, j + jen4 key 4, hashv + jen4 key 8)))
     else (key, abc))"
  by pat_completeness auto
termination
  by (relation "measure (\<lambda>(key, _). length key)") auto

declare jen_loop.simps [simp del]

text \<open>A case of the switch over the rest: taken when the rest is that long, then falling through.\<close>

definition jen_case :: "string \<Rightarrow> nat \<Rightarrow> nat \<Rightarrow> 32 word" where
  "jen_case key n sh = (if length key \<ge> n then push_bit sh (char_u32 (key ! (n - 1))) else 0)"

definition EXHASH_JEN :: "string \<Rightarrow> 32 word" where
  "EXHASH_JEN key =
    (case jen_loop key (0x9e3779b9, 0x9e3779b9, 0xfeedbeef) of (rest, i, j, hashv) \<Rightarrow>
      let hashv = hashv + word_of_nat (length key);
          hashv = hashv + jen_case rest 11 24 + jen_case rest 10 16 + jen_case rest 9 8;
          j = j + jen_case rest 8 24 + jen_case rest 7 16 + jen_case rest 6 8 + jen_case rest 5 0;
          i = i + jen_case rest 4 24 + jen_case rest 3 16 + jen_case rest 2 8 + jen_case rest 1 0
      in snd (snd (EXEXHASH_JEN_MIX (i, j, hashv))))"

section \<open>Tables\<close>

record 'e hash_handle =
  hh_elmt :: 'e
  hh_hashv :: "32 word"

record 'e hash_bucket =
  hb_chain :: "'e hash_handle list"
  hb_count :: nat
  hb_expand_mult :: nat

record 'e hash_tbl =
  ht_buckets :: "'e hash_bucket list"
  ht_num_buckets :: nat
  ht_log2_num_buckets :: nat
  ht_num_items :: nat
  ht_ideal_chain_maxlen :: nat
  ht_nonideal_items :: nat
  ht_ineff_expands :: nat
  ht_noexpand :: nat
  ht_items :: "'e hash_handle list"

text \<open>The head of a table is NULL when the table is empty.\<close>

type_synonym 'e exh = "'e hash_tbl option"

abbreviation EXHASH_INITIAL_NUM_BUCKETS :: nat where "EXHASH_INITIAL_NUM_BUCKETS \<equiv> 32"
abbreviation EXHASH_INITIAL_NUM_BUCKETS_LOG2 :: nat where "EXHASH_INITIAL_NUM_BUCKETS_LOG2 \<equiv> 5"
abbreviation EXHASH_BKT_CAPACITY_THRESH :: nat where "EXHASH_BKT_CAPACITY_THRESH \<equiv> 10"

definition empty_bucket :: "'e hash_bucket" where
  "empty_bucket = \<lparr>hb_chain = [], hb_count = 0, hb_expand_mult = 0\<rparr>"

definition EXHASH_TO_BKT :: "32 word \<Rightarrow> nat \<Rightarrow> nat" where
  "EXHASH_TO_BKT hashv num_bkts = unat (hashv AND word_of_nat (num_bkts - 1))"

definition EXHASH_MAKE_TABLE :: "'e hash_tbl" where
  "EXHASH_MAKE_TABLE = \<lparr>ht_buckets = replicate EXHASH_INITIAL_NUM_BUCKETS empty_bucket,
     ht_num_buckets = EXHASH_INITIAL_NUM_BUCKETS, ht_log2_num_buckets = EXHASH_INITIAL_NUM_BUCKETS_LOG2,
     ht_num_items = 0, ht_ideal_chain_maxlen = 0, ht_nonideal_items = 0, ht_ineff_expands = 0,
     ht_noexpand = 0, ht_items = []\<rparr>"

text \<open>Moving an element to the doubled array: the new array and the number of elements that are too
  far from the head of their chain.\<close>

definition expand_move :: "nat \<Rightarrow> nat \<Rightarrow> 'e hash_handle \<Rightarrow> 'e hash_bucket list \<times> nat \<Rightarrow> 'e hash_bucket list \<times> nat" where
  "expand_move num2 ideal hh s = (case s of (new_buckets, nonideal) \<Rightarrow>
     let b = EXHASH_TO_BKT (hh_hashv hh) num2;
         newbkt = new_buckets ! b;
         count = hb_count newbkt + 1;
         (mult, nonideal) = (if count > ideal then (count div ideal, nonideal + 1) else (hb_expand_mult newbkt, nonideal))
     in (new_buckets[b := \<lparr>hb_chain = hh # hb_chain newbkt, hb_count = count, hb_expand_mult = mult\<rparr>], nonideal))"

definition EXHASH_EXPAND_BUCKETS :: "'e hash_tbl \<Rightarrow> 'e hash_tbl" where
  "EXHASH_EXPAND_BUCKETS tbl =
    (let num2 = 2 * ht_num_buckets tbl;
         ideal = ht_num_items tbl div 2 ^ (ht_log2_num_buckets tbl + 1) + (if ht_num_items tbl mod num2 \<noteq> 0 then 1 else 0);
         (new_buckets, nonideal) =
           fold (\<lambda>bkt. fold (expand_move num2 ideal) (hb_chain bkt)) (ht_buckets tbl) (replicate num2 empty_bucket, 0);
         ineff = (if nonideal > ht_num_items tbl div 2 then ht_ineff_expands tbl + 1 else 0)
     in tbl\<lparr>ht_buckets := new_buckets, ht_num_buckets := num2, ht_log2_num_buckets := ht_log2_num_buckets tbl + 1,
            ht_ideal_chain_maxlen := ideal, ht_nonideal_items := nonideal, ht_ineff_expands := ineff,
            ht_noexpand := (if ineff > 1 then 1 else ht_noexpand tbl)\<rparr>)"

definition EXHASH_ADD_TO_BKT :: "nat \<Rightarrow> 'e hash_handle \<Rightarrow> 'e hash_tbl \<Rightarrow> 'e hash_tbl" where
  "EXHASH_ADD_TO_BKT b addhh tbl =
    (let head = ht_buckets tbl ! b;
         head1 = head\<lparr>hb_count := hb_count head + 1, hb_chain := addhh # hb_chain head\<rparr>;
         tbl1 = tbl\<lparr>ht_buckets := (ht_buckets tbl)[b := head1]\<rparr>
     in if hb_count head1 \<ge> (hb_expand_mult head1 + 1) * EXHASH_BKT_CAPACITY_THRESH \<and> ht_noexpand tbl1 \<noteq> 1
        then EXHASH_EXPAND_BUCKETS tbl1 else tbl1)"

definition EXHASH_ADD :: "('e \<Rightarrow> string) \<Rightarrow> 'e \<Rightarrow> 'e exh \<Rightarrow> 'e exh" where
  "EXHASH_ADD key e head =
    (let tbl = (case head of None \<Rightarrow> EXHASH_MAKE_TABLE | Some tbl \<Rightarrow> tbl);
         hashv = EXHASH_JEN (key e);
         hh = \<lparr>hh_elmt = e, hh_hashv = hashv\<rparr>;
         tbl1 = tbl\<lparr>ht_items := ht_items tbl @ [hh], ht_num_items := ht_num_items tbl + 1\<rparr>
     in Some (EXHASH_ADD_TO_BKT (EXHASH_TO_BKT hashv (ht_num_buckets tbl1)) hh tbl1))"

definition EXHASH_FIND :: "('e \<Rightarrow> string) \<Rightarrow> string \<Rightarrow> 'e exh \<Rightarrow> 'e option" where
  "EXHASH_FIND key k head = (case head of None \<Rightarrow> None | Some tbl \<Rightarrow>
     map_option hh_elmt (find (\<lambda>hh. key (hh_elmt hh) = k)
       (hb_chain (ht_buckets tbl ! EXHASH_TO_BKT (EXHASH_JEN k) (ht_num_buckets tbl)))))"

text \<open>Unlinking the element with a key from a chain.\<close>

fun unlink :: "('e \<Rightarrow> string) \<Rightarrow> string \<Rightarrow> 'e hash_handle list \<Rightarrow> 'e hash_handle list" where
  "unlink key k [] = []"
| "unlink key k (hh # hhs) = (if key (hh_elmt hh) = k then hhs else hh # unlink key k hhs)"

definition EXHASH_DELETE :: "('e \<Rightarrow> string) \<Rightarrow> 'e hash_handle \<Rightarrow> 'e hash_tbl \<Rightarrow> 'e exh" where
  "EXHASH_DELETE key del tbl =
    (if length (ht_items tbl) = 1 then None
     else let b = EXHASH_TO_BKT (hh_hashv del) (ht_num_buckets tbl);
              head = ht_buckets tbl ! b;
              head1 = head\<lparr>hb_count := hb_count head - 1, hb_chain := unlink key (key (hh_elmt del)) (hb_chain head)\<rparr>
          in Some (tbl\<lparr>ht_items := unlink key (key (hh_elmt del)) (ht_items tbl),
                       ht_buckets := (ht_buckets tbl)[b := head1], ht_num_items := ht_num_items tbl - 1\<rparr>))"

text \<open>The clients find an element before they delete it, and change it through the pointer they found.\<close>

definition exh_del :: "('e \<Rightarrow> string) \<Rightarrow> string \<Rightarrow> 'e exh \<Rightarrow> 'e exh" where
  "exh_del key k head = (case head of None \<Rightarrow> None | Some tbl \<Rightarrow>
     (case find (\<lambda>hh. key (hh_elmt hh) = k) (hb_chain (ht_buckets tbl ! EXHASH_TO_BKT (EXHASH_JEN k) (ht_num_buckets tbl))) of
        None \<Rightarrow> Some tbl | Some del \<Rightarrow> EXHASH_DELETE key del tbl))"

definition hh_upd :: "('e \<Rightarrow> string) \<Rightarrow> string \<Rightarrow> ('e \<Rightarrow> 'e) \<Rightarrow> 'e hash_handle \<Rightarrow> 'e hash_handle" where
  "hh_upd key k f hh = (if key (hh_elmt hh) = k then hh\<lparr>hh_elmt := f (hh_elmt hh)\<rparr> else hh)"

definition exh_upd :: "('e \<Rightarrow> string) \<Rightarrow> string \<Rightarrow> ('e \<Rightarrow> 'e) \<Rightarrow> 'e exh \<Rightarrow> 'e exh" where
  "exh_upd key k f head = map_option (\<lambda>tbl. tbl\<lparr>ht_items := map (hh_upd key k f) (ht_items tbl),
     ht_buckets := map (\<lambda>b. b\<lparr>hb_chain := map (hh_upd key k f) (hb_chain b)\<rparr>) (ht_buckets tbl)\<rparr>) head"

section \<open>Invariant\<close>

text \<open>A chain holds, once each, the elements whose hash value leads to it, and the counters are right.\<close>

definition chain_ok :: "('e \<Rightarrow> string) \<Rightarrow> nat \<Rightarrow> 'e hash_handle set \<Rightarrow> nat \<Rightarrow> 'e hash_bucket \<Rightarrow> bool" where
  "chain_ok key n H i b \<longleftrightarrow> hb_count b = length (hb_chain b) \<and> distinct (hb_chain b) \<and>
     set (hb_chain b) = {hh \<in> H. EXHASH_TO_BKT (hh_hashv hh) n = i}"

definition tbl_ok :: "('e \<Rightarrow> string) \<Rightarrow> 'e hash_tbl \<Rightarrow> bool" where
  "tbl_ok key tbl \<longleftrightarrow> ht_num_buckets tbl = 2 ^ ht_log2_num_buckets tbl \<and> length (ht_buckets tbl) = ht_num_buckets tbl \<and>
     ht_num_items tbl = length (ht_items tbl) \<and> distinct (map (key \<circ> hh_elmt) (ht_items tbl)) \<and>
     (\<forall>hh \<in> set (ht_items tbl). hh_hashv hh = EXHASH_JEN (key (hh_elmt hh))) \<and>
     (\<forall>i < ht_num_buckets tbl. chain_ok key (ht_num_buckets tbl) (set (ht_items tbl)) i (ht_buckets tbl ! i))"

definition exh_ok :: "('e \<Rightarrow> string) \<Rightarrow> 'e exh \<Rightarrow> bool" where
  "exh_ok key head = (case head of None \<Rightarrow> True | Some tbl \<Rightarrow> tbl_ok key tbl \<and> ht_items tbl \<noteq> [])"

definition exh_elems :: "'e exh \<Rightarrow> 'e list" where
  "exh_elems head = (case head of None \<Rightarrow> [] | Some tbl \<Rightarrow> map hh_elmt (ht_items tbl))"

lemma to_bkt_less: "EXHASH_TO_BKT h (2 ^ n) < 2 ^ n"
proof -
  have "unat (h AND w) \<le> unat w" for w :: "32 word" using word_and_le1[of h w] by (simp add: word_le_nat_alt)
  then have "EXHASH_TO_BKT h (2 ^ n) \<le> unat (word_of_nat (2 ^ n - 1) :: 32 word)" by (simp add: EXHASH_TO_BKT_def)
  also have "\<dots> \<le> 2 ^ n - 1" by (simp only: unsigned_of_nat of_nat_id take_bit_nat_less_eq_self)
  also have "\<dots> < 2 ^ n" by simp
  finally show ?thesis .
qed

section \<open>Doubling\<close>

definition array_ok :: "('e \<Rightarrow> string) \<Rightarrow> nat \<Rightarrow> 'e hash_handle set \<Rightarrow> 'e hash_bucket list \<Rightarrow> bool" where
  "array_ok key n H bs \<longleftrightarrow> length bs = 2 ^ n \<and> (\<forall>i < 2 ^ n. chain_ok key (2 ^ n) H i (bs ! i))"

lemma array_ok_empty: "array_ok key n {} (replicate (2 ^ n) empty_bucket)"
  by (simp add: array_ok_def chain_ok_def empty_bucket_def)

lemma array_ok_push:
  assumes "array_ok key n H bs" "hh \<notin> H" "b = EXHASH_TO_BKT (hh_hashv hh) (2 ^ n)"
    and "hb_chain nb = hh # hb_chain (bs ! b)" "hb_count nb = hb_count (bs ! b) + 1"
  shows "array_ok key n (insert hh H) (bs[b := nb])"
proof -
  have b: "b < 2 ^ n" using to_bkt_less assms(3) by simp
  have "chain_ok key (2 ^ n) (insert hh H) i (bs[b := nb] ! i)" if "i < 2 ^ n" for i
  proof (cases "i = b")
    case True
    then show ?thesis using assms b by (auto simp: array_ok_def chain_ok_def)
  next
    case False
    then have "{x \<in> insert hh H. EXHASH_TO_BKT (hh_hashv x) (2 ^ n) = i} = {x \<in> H. EXHASH_TO_BKT (hh_hashv x) (2 ^ n) = i}"
      using assms(3) by auto
    then show ?thesis using assms(1) False that by (simp add: array_ok_def chain_ok_def)
  qed
  then show ?thesis using assms(1) by (simp add: array_ok_def)
qed

lemma move_ok:
  assumes "array_ok key n H (fst s)" "hh \<notin> H"
  shows "array_ok key n (insert hh H) (fst (expand_move (2 ^ n) ideal hh s))"
proof -
  obtain bs k where s: "s = (bs, k)" by fastforce
  show ?thesis
    unfolding s expand_move_def Let_def
    by (auto simp: s intro!: array_ok_push[OF _ assms(2) refl] assms(1)[unfolded s fst_conv] split: if_splits)
qed

lemma moves_ok:
  "array_ok key n H (fst s) \<Longrightarrow> distinct hs \<Longrightarrow> set hs \<inter> H = {} \<Longrightarrow>
   array_ok key n (set hs \<union> H) (fst (fold (expand_move (2 ^ n) ideal) hs s))"
proof (induction hs arbitrary: H s)
  case (Cons hh hs)
  have "array_ok key n (set hs \<union> insert hh H) (fst (fold (expand_move (2 ^ n) ideal) hs (expand_move (2 ^ n) ideal hh s)))"
    using Cons.prems by (intro Cons.IH move_ok) auto
  then show ?case by simp
qed simp

lemma fold_chains:
  "fold (\<lambda>bkt. fold f (hb_chain bkt)) bs s = fold f (concat (map hb_chain bs)) s"
  by (induction bs arbitrary: s) simp_all

text \<open>The chains hold every element once.\<close>

lemma chains_distinct:
  assumes "array_ok key n H bs"
  shows "distinct (concat (map hb_chain bs)) \<and> set (concat (map hb_chain bs)) = H"
proof -
  have c: "distinct (hb_chain (bs ! i))" "set (hb_chain (bs ! i)) = {hh \<in> H. EXHASH_TO_BKT (hh_hashv hh) (2 ^ n) = i}"
    if "i < length bs" for i using assms that by (auto simp: array_ok_def chain_ok_def)
  have "distinct (concat (map hb_chain (take k bs))) \<and>
      set (concat (map hb_chain (take k bs))) = {hh \<in> H. EXHASH_TO_BKT (hh_hashv hh) (2 ^ n) < k}" if "k \<le> length bs" for k
    using that
  proof (induction k)
    case (Suc k)
    then have "take (Suc k) bs = take k bs @ [bs ! k]" by (simp add: take_Suc_conv_app_nth)
    moreover have "{hh \<in> H. EXHASH_TO_BKT (hh_hashv hh) (2 ^ n) < Suc k} =
        {hh \<in> H. EXHASH_TO_BKT (hh_hashv hh) (2 ^ n) < k} \<union> {hh \<in> H. EXHASH_TO_BKT (hh_hashv hh) (2 ^ n) = k}" by auto
    ultimately show ?case using Suc c[of k] by auto
  qed simp
  from this[of "length bs"] show ?thesis using assms to_bkt_less[where n = n] by (auto simp: array_ok_def)
qed

lemma tbl_ok_array:
  "tbl_ok key tbl \<longleftrightarrow> ht_num_buckets tbl = 2 ^ ht_log2_num_buckets tbl \<and>
     ht_num_items tbl = length (ht_items tbl) \<and> distinct (map (key \<circ> hh_elmt) (ht_items tbl)) \<and>
     (\<forall>hh \<in> set (ht_items tbl). hh_hashv hh = EXHASH_JEN (key (hh_elmt hh))) \<and>
     array_ok key (ht_log2_num_buckets tbl) (set (ht_items tbl)) (ht_buckets tbl)"
  by (auto simp: tbl_ok_def array_ok_def)

lemma expand_ok:
  assumes "tbl_ok key tbl"
  shows "tbl_ok key (EXHASH_EXPAND_BUCKETS tbl) \<and> ht_items (EXHASH_EXPAND_BUCKETS tbl) = ht_items tbl"
proof -
  define ideal where "ideal = ht_num_items tbl div 2 ^ (ht_log2_num_buckets tbl + 1) +
    (if ht_num_items tbl mod (2 * ht_num_buckets tbl) \<noteq> 0 then 1 else 0)"
  let ?n = "ht_log2_num_buckets tbl + 1"
  let ?r = "fold (\<lambda>bkt. fold (expand_move (2 ^ ?n) ideal) (hb_chain bkt)) (ht_buckets tbl) (replicate (2 ^ ?n) empty_bucket, 0)"
  have n2: "2 * ht_num_buckets tbl = 2 ^ ?n" using assms by (simp add: tbl_ok_def)
  have d: "distinct (concat (map hb_chain (ht_buckets tbl)))" "set (concat (map hb_chain (ht_buckets tbl))) = set (ht_items tbl)"
    using chains_distinct assms unfolding tbl_ok_array by blast+
  have "array_ok key ?n (set (ht_items tbl)) (fst ?r)"
    unfolding fold_chains using moves_ok[of key ?n "{}" "(replicate (2 ^ ?n) empty_bucket, 0)", OF _ d(1)] array_ok_empty[of key ?n] d(2) by simp
  then show ?thesis
    using assms unfolding tbl_ok_array EXHASH_EXPAND_BUCKETS_def Let_def n2 ideal_def[symmetric, unfolded n2]
    by (auto split: prod.splits)
qed

text \<open>The ideal length of a chain is not zero when the array is doubled: the division by it is
  defined.\<close>

lemma ideal_nonzero:
  assumes "tbl_ok key tbl" "ht_items tbl \<noteq> []"
  shows "ht_ideal_chain_maxlen (EXHASH_EXPAND_BUCKETS tbl) \<noteq> 0"
proof (cases "ht_num_items tbl mod (2 * ht_num_buckets tbl) = 0")
  case True
  have "0 < ht_num_items tbl" "2 * ht_num_buckets tbl = 2 ^ (ht_log2_num_buckets tbl + 1)"
    using assms by (simp_all add: tbl_ok_def)
  then have "ht_num_items tbl div 2 ^ (ht_log2_num_buckets tbl + 1) \<noteq> 0" using True by fastforce
  then show ?thesis by (simp add: EXHASH_EXPAND_BUCKETS_def Let_def split: prod.splits)
qed (simp add: EXHASH_EXPAND_BUCKETS_def Let_def split: prod.splits)

section \<open>The operations\<close>

lemma make_ok: "tbl_ok key EXHASH_MAKE_TABLE" "ht_items EXHASH_MAKE_TABLE = []"
  using array_ok_empty[of key 5] by (simp_all add: tbl_ok_array EXHASH_MAKE_TABLE_def)

lemma add_to_bkt_ok:
  assumes "tbl_ok key tbl" "key (hh_elmt hh) \<notin> key ` hh_elmt ` set (ht_items tbl)" "hh_hashv hh = EXHASH_JEN (key (hh_elmt hh))"
    and "tbl1 = tbl\<lparr>ht_items := ht_items tbl @ [hh], ht_num_items := ht_num_items tbl + 1\<rparr>"
    and "b = EXHASH_TO_BKT (hh_hashv hh) (ht_num_buckets tbl1)"
  shows "tbl_ok key (EXHASH_ADD_TO_BKT b hh tbl1) \<and> ht_items (EXHASH_ADD_TO_BKT b hh tbl1) = ht_items tbl @ [hh]"
proof -
  let ?head = "ht_buckets tbl ! b"
  let ?head1 = "?head\<lparr>hb_count := hb_count ?head + 1, hb_chain := hh # hb_chain ?head\<rparr>"
  let ?t = "tbl1\<lparr>ht_buckets := (ht_buckets tbl)[b := ?head1]\<rparr>"
  have "hh \<notin> set (ht_items tbl)" using assms(2) by auto
  then have "array_ok key (ht_log2_num_buckets tbl) (insert hh (set (ht_items tbl))) ((ht_buckets tbl)[b := ?head1])"
    using assms(1,4,5) unfolding tbl_ok_array by (intro array_ok_push) auto
  then have t: "tbl_ok key ?t" "ht_items ?t = ht_items tbl @ [hh]"
    using assms unfolding tbl_ok_array by (auto simp: image_comp)
  have "EXHASH_ADD_TO_BKT b hh tbl1 = EXHASH_EXPAND_BUCKETS ?t \<or> EXHASH_ADD_TO_BKT b hh tbl1 = ?t"
    using assms(4) by (simp add: EXHASH_ADD_TO_BKT_def Let_def)
  then show ?thesis using t expand_ok[OF t(1)] by auto
qed

lemma exh_add_ok:
  assumes "exh_ok key head" "key e \<notin> key ` set (exh_elems head)"
  shows "exh_ok key (EXHASH_ADD key e head) \<and> exh_elems (EXHASH_ADD key e head) = exh_elems head @ [e]"
proof -
  define tbl where "tbl = (case head of None \<Rightarrow> EXHASH_MAKE_TABLE | Some tbl \<Rightarrow> tbl)"
  have t: "tbl_ok key tbl" "map hh_elmt (ht_items tbl) = exh_elems head"
    using assms(1) make_ok(1)[of key] make_ok(2) by (auto simp: tbl_def exh_ok_def exh_elems_def split: option.splits)
  let ?hh = "\<lparr>hh_elmt = e, hh_hashv = EXHASH_JEN (key e)\<rparr>"
  let ?t1 = "tbl\<lparr>ht_items := ht_items tbl @ [?hh], ht_num_items := ht_num_items tbl + 1\<rparr>"
  have "key (hh_elmt ?hh) \<notin> key ` hh_elmt ` set (ht_items tbl)"
    using assms(2) t(2) by (metis hash_handle.select_convs(1) set_map)
  note r = add_to_bkt_ok[OF t(1) this _ refl refl]
  have "EXHASH_ADD key e head = Some (EXHASH_ADD_TO_BKT (EXHASH_TO_BKT (hh_hashv ?hh) (ht_num_buckets ?t1)) ?hh ?t1)"
    by (simp add: EXHASH_ADD_def tbl_def Let_def)
  then show ?thesis using r t(2) by (auto simp: exh_ok_def exh_elems_def)
qed

text \<open>The search in the chain finds what a search in all elements finds.\<close>

lemma find_unique:
  assumes "inj_on f A" "set xs \<subseteq> A" "set ys \<subseteq> A" "\<And>x. x \<in> A \<Longrightarrow> f x = k \<Longrightarrow> x \<in> set xs \<longleftrightarrow> x \<in> set ys"
  shows "find (\<lambda>x. f x = k) xs = find (\<lambda>x. f x = k) ys"
proof (cases "find (\<lambda>x. f x = k) xs")
  case None
  then have "\<forall>y \<in> set ys. f y \<noteq> k" using assms(3,4) by (auto simp: find_None_iff)
  then show ?thesis using None by (metis (mono_tags, lifting) find_None_iff)
next
  case (Some x)
  then have x: "x \<in> set xs" "f x = k" by (auto dest: find_Some_in)
  then have "x \<in> set ys" using assms(2,4) by auto
  then obtain y where y: "find (\<lambda>x. f x = k) ys = Some y" using x by (metis (mono_tags, lifting) find_None_iff not_Some_eq)
  then have "y \<in> set ys" "f y = k" by (auto dest: find_Some_in)
  then have "y = x" using x assms(1-3) by (metis inj_onD subsetD)
  then show ?thesis using Some y by simp
qed

lemma chain_find:
  assumes "tbl_ok key tbl"
  shows "find (\<lambda>hh. key (hh_elmt hh) = k) (hb_chain (ht_buckets tbl ! EXHASH_TO_BKT (EXHASH_JEN k) (ht_num_buckets tbl))) =
    find (\<lambda>hh. key (hh_elmt hh) = k) (ht_items tbl)"
proof (rule find_unique[where f = "\<lambda>hh. key (hh_elmt hh)" and A = "set (ht_items tbl)"])
  show "inj_on (\<lambda>hh. key (hh_elmt hh)) (set (ht_items tbl))"
    using assms by (simp add: tbl_ok_def distinct_map comp_def)
  have "EXHASH_TO_BKT (EXHASH_JEN k) (ht_num_buckets tbl) < ht_num_buckets tbl"
    using assms to_bkt_less by (auto simp: tbl_ok_def)
  then have c: "set (hb_chain (ht_buckets tbl ! EXHASH_TO_BKT (EXHASH_JEN k) (ht_num_buckets tbl))) =
      {hh \<in> set (ht_items tbl). EXHASH_TO_BKT (hh_hashv hh) (ht_num_buckets tbl) = EXHASH_TO_BKT (EXHASH_JEN k) (ht_num_buckets tbl)}"
    using assms by (auto simp: tbl_ok_def chain_ok_def)
  then show "set (hb_chain (ht_buckets tbl ! EXHASH_TO_BKT (EXHASH_JEN k) (ht_num_buckets tbl))) \<subseteq> set (ht_items tbl)" by auto
  fix hh
  assume "hh \<in> set (ht_items tbl)" "key (hh_elmt hh) = k"
  then show "hh \<in> set (hb_chain (ht_buckets tbl ! EXHASH_TO_BKT (EXHASH_JEN k) (ht_num_buckets tbl))) \<longleftrightarrow> hh \<in> set (ht_items tbl)"
    using c assms by (auto simp: tbl_ok_def)
qed simp

lemma find_map: "map_option f (find (\<lambda>x. P (f x)) xs) = find P (map f xs)"
  by (induction xs) auto

lemma exh_find: "exh_ok key head \<Longrightarrow> EXHASH_FIND key k head = ex_find key k (exh_elems head)"
  using find_map[of hh_elmt "\<lambda>e. key e = k"]
  by (auto simp: EXHASH_FIND_def exh_ok_def exh_elems_def ex_find_def chain_find find_None_iff split: option.splits)

lemma unlink_elems: "map hh_elmt (unlink key k hs) = ex_del key k (map hh_elmt hs)"
  by (induction hs) auto

lemma unlink_filter:
  "distinct (map (key \<circ> hh_elmt) hs) \<Longrightarrow> unlink key k hs = filter (\<lambda>hh. key (hh_elmt hh) \<noteq> k) hs"
  by (induction hs) (auto simp: image_iff intro!: filter_True[symmetric])

lemma unlink_notin: "\<forall>hh \<in> set hs. key (hh_elmt hh) \<noteq> k \<Longrightarrow> unlink key k hs = hs"
  by (induction hs) auto

lemma array_ok_pop:
  assumes "array_ok key n H bs" "d \<in> H" "inj_on (\<lambda>hh. key (hh_elmt hh)) H" "b = EXHASH_TO_BKT (hh_hashv d) (2 ^ n)"
    and "hb_chain nb = unlink key (key (hh_elmt d)) (hb_chain (bs ! b))" "hb_count nb = hb_count (bs ! b) - 1"
  shows "array_ok key n {hh \<in> H. key (hh_elmt hh) \<noteq> key (hh_elmt d)} (bs[b := nb])"
proof -
  let ?H = "{hh \<in> H. key (hh_elmt hh) \<noteq> key (hh_elmt d)}"
  have b: "b < 2 ^ n" using to_bkt_less assms(4) by simp
  have H: "?H = H - {d}" using assms(2,3) by (auto dest: inj_onD)
  have c: "hb_count (bs ! b) = length (hb_chain (bs ! b))" "distinct (hb_chain (bs ! b))"
      "set (hb_chain (bs ! b)) = {hh \<in> H. EXHASH_TO_BKT (hh_hashv hh) (2 ^ n) = b}"
    using assms(1) b by (auto simp: array_ok_def chain_ok_def)
  have "inj_on (\<lambda>hh. key (hh_elmt hh)) (set (hb_chain (bs ! b)))" using assms(3) c(3) by (auto intro: inj_on_subset)
  then have "distinct (map (key \<circ> hh_elmt) (hb_chain (bs ! b)))" using c(2) by (simp add: distinct_map comp_def)
  then have u: "hb_chain nb = filter (\<lambda>hh. key (hh_elmt hh) \<noteq> key (hh_elmt d)) (hb_chain (bs ! b))"
    using assms(5) unlink_filter by simp
  have s: "set (hb_chain nb) = {hh \<in> ?H. EXHASH_TO_BKT (hh_hashv hh) (2 ^ n) = b}" using u c(3) by auto
  have "d \<in> set (hb_chain (bs ! b))" using c(3) assms(2,4) by simp
  moreover have "set (hb_chain nb) = set (hb_chain (bs ! b)) - {d}" using s c(3) H by auto
  moreover have "distinct (hb_chain nb)" using u c(2) by simp
  ultimately have "length (hb_chain nb) = length (hb_chain (bs ! b)) - 1"
    using c(2) by (metis card_Diff_singleton distinct_card)
  then have "chain_ok key (2 ^ n) ?H b nb" using s u c(1,2) assms(6) by (simp add: chain_ok_def)
  moreover have "chain_ok key (2 ^ n) ?H i (bs ! i)" if "i < 2 ^ n" "i \<noteq> b" for i
  proof -
    have "{hh \<in> ?H. EXHASH_TO_BKT (hh_hashv hh) (2 ^ n) = i} = {hh \<in> H. EXHASH_TO_BKT (hh_hashv hh) (2 ^ n) = i}"
      using that(2) assms(4) unfolding H by auto
    then show ?thesis using assms(1) that(1) by (simp add: array_ok_def chain_ok_def)
  qed
  ultimately show ?thesis using assms(1) b by (auto simp: array_ok_def nth_list_update)
qed

lemma delete_ok:
  assumes "tbl_ok key tbl" "d \<in> set (ht_items tbl)"
  shows "exh_ok key (EXHASH_DELETE key d tbl) \<and>
    exh_elems (EXHASH_DELETE key d tbl) = ex_del key (key (hh_elmt d)) (map hh_elmt (ht_items tbl))"
proof (cases "length (ht_items tbl) = 1")
  case True
  then obtain x where "ht_items tbl = [x]" by (auto simp: length_Suc_conv)
  then show ?thesis using assms(2) by (simp add: EXHASH_DELETE_def exh_ok_def exh_elems_def)
next
  case False
  let ?b = "EXHASH_TO_BKT (hh_hashv d) (ht_num_buckets tbl)"
  let ?head = "ht_buckets tbl ! ?b"
  let ?head1 = "?head\<lparr>hb_count := hb_count ?head - 1, hb_chain := unlink key (key (hh_elmt d)) (hb_chain ?head)\<rparr>"
  let ?t = "tbl\<lparr>ht_items := unlink key (key (hh_elmt d)) (ht_items tbl),
                       ht_buckets := (ht_buckets tbl)[?b := ?head1], ht_num_items := ht_num_items tbl - 1\<rparr>"
  have D: "EXHASH_DELETE key d tbl = Some ?t" using False by (simp add: EXHASH_DELETE_def Let_def)
  have dk: "distinct (map (key \<circ> hh_elmt) (ht_items tbl))" using assms(1) by (simp add: tbl_ok_def)
  then have inj: "inj_on (\<lambda>hh. key (hh_elmt hh)) (set (ht_items tbl))" by (simp add: distinct_map comp_def)
  note u = unlink_filter[OF dk, of "key (hh_elmt d)"]
  have su: "set (unlink key (key (hh_elmt d)) (ht_items tbl)) = set (ht_items tbl) - {d}"
    using u inj assms(2) by (auto dest: inj_onD)
  have "distinct (ht_items tbl)" using dk by (simp add: distinct_map)
  then have len: "length (unlink key (key (hh_elmt d)) (ht_items tbl)) = length (ht_items tbl) - 1"
    using su u assms(2) by (metis card_Diff_singleton distinct_card distinct_filter)
  have "array_ok key (ht_log2_num_buckets tbl) {hh \<in> set (ht_items tbl). key (hh_elmt hh) \<noteq> key (hh_elmt d)}
      ((ht_buckets tbl)[?b := ?head1])"
    using assms inj unfolding tbl_ok_array by (intro array_ok_pop[of key _ "set (ht_items tbl)"]) auto
  then have "tbl_ok key ?t"
    using assms len u dk unfolding tbl_ok_array by (auto simp: distinct_map_filter comp_def)
  moreover have "ht_items ?t \<noteq> []" using len False assms(2) by (cases "ht_items tbl") auto
  ultimately show ?thesis unfolding D by (simp add: exh_ok_def exh_elems_def unlink_elems)
qed

lemma ex_del_notin: "k \<notin> key ` set h \<Longrightarrow> ex_del key k h = h"
  by (induction h) auto

lemma exh_del_ok:
  assumes "exh_ok key head"
  shows "exh_ok key (exh_del key k head) \<and> exh_elems (exh_del key k head) = ex_del key k (exh_elems head)"
proof (cases head)
  case (Some tbl)
  then have t: "tbl_ok key tbl" using assms by (simp add: exh_ok_def)
  show ?thesis
  proof (cases "find (\<lambda>hh. key (hh_elmt hh) = k) (ht_items tbl)")
    case None
    then have "k \<notin> key ` set (map hh_elmt (ht_items tbl))" by (auto simp: find_None_iff)
    then show ?thesis using None Some assms ex_del_notin[of k key] by (simp add: exh_del_def chain_find[OF t] exh_elems_def)
  next
    case (Some d)
    then have "d \<in> set (ht_items tbl)" "key (hh_elmt d) = k" by (auto dest: find_Some_in)
    then show ?thesis using Some \<open>head = Some tbl\<close> delete_ok[OF t] by (simp add: exh_del_def chain_find[OF t] exh_elems_def)
  qed
qed (simp add: exh_del_def exh_elems_def exh_ok_def)

lemma chain_ok_map:
  assumes "chain_ok key n H i b" "inj_on g H" "\<And>hh. hh_hashv (g hh) = hh_hashv hh"
  shows "chain_ok key n (g ` H) i (b\<lparr>hb_chain := map g (hb_chain b)\<rparr>)"
proof -
  have "set (hb_chain b) \<subseteq> H" using assms(1) by (auto simp: chain_ok_def)
  then have "inj_on g (set (hb_chain b))" using assms(2) inj_on_subset by blast
  then show ?thesis using assms(1,3) by (auto simp: chain_ok_def distinct_map)
qed

lemma exh_upd_ok:
  assumes "exh_ok key head" "\<And>e. key (f e) = key e"
  shows "exh_ok key (exh_upd key k f head) \<and> exh_elems (exh_upd key k f head) = ex_upd key k f (exh_elems head)"
proof (cases head)
  case (Some tbl)
  let ?g = "hh_upd key k f"
  have t: "tbl_ok key tbl" "ht_items tbl \<noteq> []" using assms(1) Some by (auto simp: exh_ok_def)
  have g: "hh_hashv (?g hh) = hh_hashv hh" "key (hh_elmt (?g hh)) = key (hh_elmt hh)" for hh
    using assms(2) by (auto simp: hh_upd_def)
  have inj: "inj_on ?g (set (ht_items tbl))"
    using t(1) g(2) by (auto simp: tbl_ok_def distinct_map inj_on_def) metis
  have "tbl_ok key (the (exh_upd key k f head))"
    using t(1) chain_ok_map[OF _ inj g(1)] g unfolding Some
    by (auto simp: tbl_ok_def exh_upd_def comp_def)
  moreover have "distinct (map key (map hh_elmt hs)) \<Longrightarrow> map hh_elmt (map ?g hs) = ex_upd key k f (map hh_elmt hs)" for hs
  proof (induction hs)
    case (Cons a hs)
    show ?case
    proof (cases "key (hh_elmt a) = k")
      case True
      then have m: "map ?g hs = hs" using Cons.prems by (intro map_idI) (auto simp: hh_upd_def image_iff)
      show ?thesis unfolding list.map m using True by (simp add: ex_upd_def hh_upd_def)
    next
      case False
      then show ?thesis using Cons by (simp add: ex_upd_def hh_upd_def)
    qed
  qed (simp add: ex_upd_def)
  moreover have "distinct (map key (map hh_elmt (ht_items tbl)))" using t(1) by (simp add: tbl_ok_def)
  ultimately show ?thesis using t(2) Some by (simp add: exh_ok_def exh_elems_def exh_upd_def)
qed (simp add: exh_upd_def exh_ok_def exh_elems_def ex_upd_def)

lemma exh_elems_inv: "exh_ok key head \<Longrightarrow> ex_inv key (exh_elems head)"
  by (auto simp: exh_ok_def exh_elems_def tbl_ok_def ex_inv_def split: option.splits)

section \<open>The contract\<close>

interpretation exh: keyed_table key "EXHASH_FIND key" "EXHASH_ADD key" "exh_del key" "exh_upd key" exh_elems "exh_ok key"
  for key :: "'e \<Rightarrow> string"
proof unfold_locales
  show "exh_ok key h \<Longrightarrow> EXHASH_FIND key k h = Some e \<Longrightarrow> key e = k \<and> e \<in> set (exh_elems h)" for h k e
    by (auto simp: exh_find dest: ex_find_Some)
  show "exh_ok key h \<Longrightarrow> e \<in> set (exh_elems h) \<Longrightarrow> EXHASH_FIND key (key e) h = Some e" for h e
    using ex_find_elem[OF exh_elems_inv, of key h e] by (simp add: exh_find)
  show "exh_ok key h \<Longrightarrow> EXHASH_FIND key (key e) h = None \<Longrightarrow> exh_ok key (EXHASH_ADD key e h)" for h e
    using exh_add_ok[of key h e] by (simp add: exh_find ex_find_None)
  show "exh_ok key h \<Longrightarrow> EXHASH_FIND key (key e) h = None \<Longrightarrow>
      EXHASH_FIND key k (EXHASH_ADD key e h) = (if k = key e then Some e else EXHASH_FIND key k h)" for h e k
    using exh_add_ok[of key h e] ex_find_add[of key e "exh_elems h" k] by (simp add: exh_find ex_find_None ex_add_def)
  show "exh_ok key h \<Longrightarrow> exh_ok key (exh_del key k h)" for h k
    by (simp add: exh_del_ok)
  show "exh_ok key h \<Longrightarrow> EXHASH_FIND key k (exh_del key k' h) = (if k = k' then None else EXHASH_FIND key k h)" for h k k'
    using exh_del_ok[of key h k'] ex_find_del[of key "exh_elems h" k k'] exh_elems_inv[of key h] by (simp add: exh_find)
  show "exh_ok key h \<Longrightarrow> (\<And>e. key (f e) = key e) \<Longrightarrow> exh_ok key (exh_upd key k f h)" for h f k
    by (simp add: exh_upd_ok)
  show "exh_ok key h \<Longrightarrow> (\<And>e. key (f e) = key e) \<Longrightarrow>
      EXHASH_FIND key k (exh_upd key k' f h) = (if k = k' then map_option f (EXHASH_FIND key k h) else EXHASH_FIND key k h)" for h f k k'
    using exh_upd_ok[of key h f k'] ex_find_upd[of key f k k' "exh_elems h"] by (simp add: exh_find)
qed

section \<open>Sequences of operations\<close>

datatype 'e exh_op = OpAdd 'e | OpDel string | OpUpd string "'e \<Rightarrow> 'e" | OpFind string

text \<open>A client adds an element when there is none with its key.\<close>

fun exh_run :: "('e \<Rightarrow> string) \<Rightarrow> 'e exh_op list \<Rightarrow> 'e exh \<Rightarrow> 'e option list \<times> 'e exh" where
  "exh_run key [] h = ([], h)"
| "exh_run key (OpAdd e # ops) h = exh_run key ops (if EXHASH_FIND key (key e) h = None then EXHASH_ADD key e h else h)"
| "exh_run key (OpDel k # ops) h = exh_run key ops (exh_del key k h)"
| "exh_run key (OpUpd k f # ops) h = exh_run key ops (exh_upd key k f h)"
| "exh_run key (OpFind k # ops) h = apfst (Cons (EXHASH_FIND key k h)) (exh_run key ops h)"

fun list_run :: "('e \<Rightarrow> string) \<Rightarrow> 'e exh_op list \<Rightarrow> 'e list \<Rightarrow> 'e option list \<times> 'e list" where
  "list_run key [] h = ([], h)"
| "list_run key (OpAdd e # ops) h = list_run key ops (if ex_find key (key e) h = None then ex_add e h else h)"
| "list_run key (OpDel k # ops) h = list_run key ops (ex_del key k h)"
| "list_run key (OpUpd k f # ops) h = list_run key ops (ex_upd key k f h)"
| "list_run key (OpFind k # ops) h = apfst (Cons (ex_find key k h)) (list_run key ops h)"

definition keeps_key :: "('e \<Rightarrow> string) \<Rightarrow> 'e exh_op \<Rightarrow> bool" where
  "keeps_key key op = (case op of OpUpd k f \<Rightarrow> (\<forall>e. key (f e) = key e) | _ \<Rightarrow> True)"

lemma run_refines:
  "exh_ok key h \<Longrightarrow> list_all (keeps_key key) ops \<Longrightarrow>
   exh_ok key (snd (exh_run key ops h)) \<and>
   list_run key ops (exh_elems h) = (fst (exh_run key ops h), exh_elems (snd (exh_run key ops h)))"
proof (induction key ops h rule: exh_run.induct)
  case (2 key e ops h)
  then show ?case using exh_add_ok[of key h e] by (auto simp: exh_find ex_find_None ex_add_def)
next
  case (3 key k ops h)
  then show ?case using exh_del_ok[of key h k] by auto
next
  case (4 key k f ops h)
  then show ?case using exh_upd_ok[of key h f k] by (auto simp: keeps_key_def)
next
  case (5 key k ops h)
  then show ?case by (auto simp: exh_find apfst_def map_prod_def split: prod.splits)
qed simp

text \<open>C22: the hash tables do what a list does.  Whatever is added, deleted, changed and looked for,
  in any order and however often the array of buckets is doubled on the way, every lookup gives the result of a search in the
  list of elements, the elements are kept in the order in which they were added, and the chains and counters stay
  consistent.\<close>

theorem exhash_refines_list:
  assumes "list_all (keeps_key key) ops" "exh_run key ops None = (outs, h)"
  shows "list_run key ops [] = (outs, exh_elems h) \<and> exh_ok key h"
  using run_refines[of key None ops] assms by (simp add: exh_ok_def exh_elems_def)

theorem exhash_refines_list_witness:
  "\<exists>outs h. exh_run (\<lambda>e. e) [OpAdd ''a'', OpAdd ''b'', OpFind ''b'', OpDel ''a'', OpFind ''a''] None = (outs, h) \<and>
     list_run (\<lambda>e. e) [OpAdd ''a'', OpAdd ''b'', OpFind ''b'', OpDel ''a'', OpFind ''a''] [] = (outs, exh_elems h) \<and>
     outs = [Some ''b'', None] \<and> exh_elems h = [''b'']"
proof -
  let ?ops = "[OpAdd ''a'', OpAdd ''b'', OpFind ''b'', OpDel ''a'', OpFind ''a'']"
  obtain outs h where r: "exh_run (\<lambda>e. e) ?ops None = (outs, h)" by fastforce
  have "list_all (keeps_key (\<lambda>e. e)) ?ops" by (simp add: keeps_key_def)
  then have l: "list_run (\<lambda>e. e) ?ops [] = (outs, exh_elems h)" using exhash_refines_list[OF _ r] by blast
  have "list_run (\<lambda>e. e) ?ops [] = ([Some ''b'', None], [''b''])" by (simp add: ex_find_def ex_add_def)
  then have "outs = [Some ''b'', None]" "exh_elems h = [''b'']" unfolding l by simp_all
  then show ?thesis using r l by blast
qed

end
