(* ===== verification/Linear_Hash.thy ===== *)
theory Linear_Hash
  imports Prelude "HOL-Library.Monad_Syntax"
begin

unbundle bit_operations_syntax

text \<open>
  The hash tables in shared memory (libnstd/linearhash.c): a fixed array of cells that is probed linearly.
  A cell that was given up stays marked as used, so that the search goes on behind it.  The configuration
  has the callbacks of the table; the search loop returns for every table whose hash values are within the array, and on well-formed
  tables it finds a key exactly when it is there, and a free cell when there is one.
\<close>

section \<open>The search\<close>

abbreviation NDRX_LH_FLAG_ISUSED :: "16 word" where "NDRX_LH_FLAG_ISUSED \<equiv> 0x0001"
abbreviation NDRX_LH_FLAG_WASUSED :: "16 word" where "NDRX_LH_FLAG_WASUSED \<equiv> 0x0002"

record 'k lh_config =
  elmmax :: nat
  GET_FLAGS :: "nat \<Rightarrow> 16 word"
  p_key_hash :: "'k \<Rightarrow> nat"
  p_compare :: "'k \<Rightarrow> nat \<Rightarrow> bool"

datatype lh_ent = NDRX_LH_ENT_NONE | NDRX_LH_ENT_MATCH | NDRX_LH_ENT_OLD

definition is_used :: "16 word \<Rightarrow> bool" where
  "is_used flags \<longleftrightarrow> flags AND NDRX_LH_FLAG_ISUSED \<noteq> 0"

definition was_used :: "16 word \<Rightarrow> bool" where
  "was_used flags \<longleftrightarrow> flags AND NDRX_LH_FLAG_WASUSED \<noteq> 0"

partial_function (option) lh_loop ::
  "'k lh_config \<Rightarrow> 'k \<Rightarrow> bool \<Rightarrow> nat \<Rightarrow> nat \<Rightarrow> bool \<Rightarrow> (lh_ent \<times> nat \<times> 16 word) option" where
  "lh_loop conf key_get creat start try overflow =
    (let flags = GET_FLAGS conf try in
     if was_used flags \<and> (\<not> overflow \<or> overflow \<and> try < start)
     then if p_compare conf key_get try
          then Some (if is_used flags then NDRX_LH_ENT_MATCH else NDRX_LH_ENT_OLD, try, flags)
          else if creat \<and> \<not> is_used flags then Some (NDRX_LH_ENT_OLD, try, flags)
          else if try + 1 \<ge> elmmax conf then lh_loop conf key_get creat start 0 True
          else lh_loop conf key_get creat start (try + 1) overflow
     else Some (NDRX_LH_ENT_NONE, try, flags))"

text \<open>The search from a cell: whether there is a position, the position, and whether it has a value.\<close>

definition lh_search :: "'k lh_config \<Rightarrow> 'k \<Rightarrow> bool \<Rightarrow> nat \<Rightarrow> (bool \<times> nat \<times> bool) option" where
  "lh_search conf key_get creat start = do {
     (ret, try, flags) \<leftarrow> lh_loop conf key_get creat start start False;
     Some (case ret of
         NDRX_LH_ENT_OLD \<Rightarrow> (True, try, False)
       | NDRX_LH_ENT_NONE \<Rightarrow> (\<not> was_used flags, try, False)
       | NDRX_LH_ENT_MATCH \<Rightarrow> (True, try, True))
   }"

definition ndrx_lh_position_get :: "'k lh_config \<Rightarrow> 'k \<Rightarrow> bool \<Rightarrow> (bool \<times> nat \<times> bool) option" where
  "ndrx_lh_position_get conf key_get creat = do {
     try \<leftarrow> (if creat
       then do {
         (found, try_read, read_have_value) \<leftarrow> lh_search conf key_get False (p_key_hash conf key_get);
         Some (if found \<and> read_have_value then Some try_read else None)
       }
       else Some None);
     lh_search conf key_get creat (case try of None \<Rightarrow> p_key_hash conf key_get | Some p \<Rightarrow> p)
   }"

text \<open>The hash of a string (libnstd/nstd_shmsv.c).\<close>

definition ndrx_hash_fn :: "string \<Rightarrow> 32 word" where
  "ndrx_hash_fn k = foldl (\<lambda>hash c. (push_bit 5 hash + hash) + scast (word_of_nat (of_char c) :: 8 word)) 5381 k"

section \<open>The loop ends\<close>

definition lh_stop :: "'k lh_config \<Rightarrow> 'k \<Rightarrow> bool \<Rightarrow> nat \<Rightarrow> bool" where
  "lh_stop conf k creat p \<longleftrightarrow> \<not> was_used (GET_FLAGS conf p) \<or> p_compare conf k p \<or> creat \<and> \<not> is_used (GET_FLAGS conf p)"

definition lh_at :: "'k lh_config \<Rightarrow> 'k \<Rightarrow> nat \<Rightarrow> lh_ent \<times> nat \<times> 16 word" where
  "lh_at conf k p = (let flags = GET_FLAGS conf p in
     (if \<not> was_used flags then NDRX_LH_ENT_NONE
      else if p_compare conf k p \<and> is_used flags then NDRX_LH_ENT_MATCH else NDRX_LH_ENT_OLD, p, flags))"

definition probe :: "nat \<Rightarrow> nat \<Rightarrow> nat \<Rightarrow> nat" where
  "probe n start j = (start + j) mod n"

lemma loop_eq:
  assumes "start < elmmax conf" "j \<le> elmmax conf"
  shows "lh_loop conf k creat start (probe (elmmax conf) start j) (start + j \<ge> elmmax conf) =
    Some (case find (lh_stop conf k creat) (map (probe (elmmax conf) start) [j..<elmmax conf]) of
        None \<Rightarrow> (NDRX_LH_ENT_NONE, start, GET_FLAGS conf start) | Some p \<Rightarrow> lh_at conf k p)"
  using assms(2)
proof (induction "elmmax conf - j" arbitrary: j)
  case 0
  then show ?case using assms(1) by (subst lh_loop.simps) (simp add: probe_def Let_def)
next
  case (Suc m)
  let ?n = "elmmax conf" and ?p = "probe (elmmax conf) start j"
  have j: "j < ?n" using Suc.hyps(2) by simp
  then have up: "[j..<?n] = j # [Suc j..<?n]" by (rule upt_conv_Cons)
  have go: "\<not> start + j \<ge> ?n \<or> start + j \<ge> ?n \<and> ?p < start"
    using j assms(1) by (cases "start + j < ?n") (auto simp: probe_def mod_if)
  show ?case
  proof (cases "lh_stop conf k creat ?p")
    case True
    then show ?thesis using go by (subst lh_loop.simps) (auto simp: up lh_stop_def lh_at_def Let_def)
  next
    case False
    have "lh_loop conf k creat start ?p (start + j \<ge> ?n) =
        lh_loop conf k creat start (probe ?n start (Suc j)) (start + Suc j \<ge> ?n)"
    proof (cases "?p + 1 \<ge> ?n")
      case True
      have "?p < ?n" using assms(1) by (simp add: probe_def)
      then have p: "Suc ?p = ?n" using True by simp
      then have "probe ?n start (Suc j) = 0" by (simp add: probe_def mod_Suc)
      moreover have "start + Suc j \<ge> ?n" using p mod_less_eq_dividend[of "start + j" ?n] unfolding probe_def by linarith
      ultimately show ?thesis
        using False go True by (subst lh_loop.simps) (auto simp: lh_stop_def Let_def)
    next
      case np: False
      then have "probe ?n start (Suc j) = Suc ?p" by (simp add: probe_def mod_Suc)
      moreover have "(start + Suc j \<ge> ?n) = (start + j \<ge> ?n)"
      proof (rule ccontr)
        assume "\<not> ?thesis"
        then have "start + j = ?n - 1" by auto
        then show False using np assms(1) by (simp add: probe_def)
      qed
      ultimately show ?thesis
        using False go np by (subst lh_loop.simps) (auto simp: lh_stop_def Let_def)
    qed
    also have "\<dots> = Some (case find (lh_stop conf k creat) (map (probe ?n start) [Suc j..<?n]) of
        None \<Rightarrow> (NDRX_LH_ENT_NONE, start, GET_FLAGS conf start) | Some p \<Rightarrow> lh_at conf k p)"
      using Suc by (intro Suc.hyps(1)) auto
    finally show ?thesis using False by (simp add: up)
  qed
qed

lemma search_eq:
  assumes "start < elmmax conf"
  shows "lh_search conf k creat start =
    Some (case find (lh_stop conf k creat) (map (probe (elmmax conf) start) [0..<elmmax conf]) of
        None \<Rightarrow> (False, start, False)
      | Some p \<Rightarrow> (True, p, was_used (GET_FLAGS conf p) \<and> p_compare conf k p \<and> is_used (GET_FLAGS conf p)))"
proof -
  have "was_used (GET_FLAGS conf start)" if "find (lh_stop conf k creat) (map (probe (elmmax conf) start) [0..<elmmax conf]) = None"
  proof -
    have "start \<in> set (map (probe (elmmax conf) start) [0..<elmmax conf])"
      using assms by (auto simp: probe_def intro!: image_eqI[of _ _ 0])
    then have "\<not> lh_stop conf k creat start" using that by (auto simp: find_None_iff simp del: set_map)
    then show ?thesis by (simp add: lh_stop_def)
  qed
  then show ?thesis
    using loop_eq[OF assms, of 0 k creat] assms
    by (auto simp: lh_search_def probe_def lh_at_def Let_def split: option.splits)
qed

section \<open>Well-formed tables\<close>

text \<open>A cell in use is reached from the hash value of its key over cells that are or were in use and have other
  keys.\<close>

definition reached :: "'k lh_config \<Rightarrow> (nat \<Rightarrow> 'k) \<Rightarrow> 'k \<Rightarrow> nat \<Rightarrow> bool" where
  "reached conf cell_key k i \<longleftrightarrow> (\<exists>j < elmmax conf. i = probe (elmmax conf) (p_key_hash conf k) j \<and>
     (\<forall>l < j. was_used (GET_FLAGS conf (probe (elmmax conf) (p_key_hash conf k) l)) \<and>
        cell_key (probe (elmmax conf) (p_key_hash conf k) l) \<noteq> k))"

definition lh_ok :: "'k lh_config \<Rightarrow> (nat \<Rightarrow> 'k) \<Rightarrow> bool" where
  "lh_ok conf cell_key \<longleftrightarrow> (\<forall>k. p_key_hash conf k < elmmax conf) \<and>
     (\<forall>k i. p_compare conf k i \<longleftrightarrow> cell_key i = k) \<and>
     (\<forall>i < elmmax conf. is_used (GET_FLAGS conf i) \<longrightarrow> was_used (GET_FLAGS conf i) \<and> reached conf cell_key (cell_key i) i)"

definition lives :: "'k lh_config \<Rightarrow> (nat \<Rightarrow> 'k) \<Rightarrow> 'k \<Rightarrow> nat \<Rightarrow> bool" where
  "lives conf cell_key k i \<longleftrightarrow> i < elmmax conf \<and> is_used (GET_FLAGS conf i) \<and> cell_key i = k"

text \<open>The first hit of a search over a range.\<close>

lemma find_upt:
  assumes "j < n" "P (f j)" "\<forall>l < j. \<not> P (f l)"
  shows "find P (map f [0..<n]) = Some (f j)"
proof -
  have "[0..<n] = [0..<j] @ j # [Suc j..<n]" using assms(1) by (metis le_add1 add_0 less_imp_add_positive upt_add_eq_append upt_conv_Cons)
  moreover have "find P (map f [0..<j]) = None" using assms(3) by (auto simp: find_None_iff)
  ultimately show ?thesis using assms(2) by (simp add: find_append)
qed

lemma find_upt_Some:
  assumes "find P (map f [0..<n]) = Some p"
  shows "\<exists>j < n. p = f j \<and> P p \<and> (\<forall>l < j. \<not> P (f l))"
proof -
  obtain j where "j < length (map f [0..<n])" "P (map f [0..<n] ! j)" "p = map f [0..<n] ! j" "\<forall>l < j. \<not> P (map f [0..<n] ! l)"
    using assms by (metis find_Some_iff)
  then show ?thesis by (intro exI[of _ j]) auto
qed

lemma probe_onto: "i < n \<Longrightarrow> start < n \<Longrightarrow> \<exists>j < n. probe n start j = i"
  by (rule exI[of _ "(n - start + i) mod n"]) (auto simp: probe_def mod_add_right_eq)

text \<open>A search without creating finds a key exactly when it is in the table.\<close>

lemma search_read:
  assumes "lh_ok conf cell_key"
  shows "\<exists>found p. lh_search conf k False (p_key_hash conf k) = Some (found, p, \<exists>i. lives conf cell_key k i) \<and>
    (\<forall>i. lives conf cell_key k i \<longrightarrow> found \<and> p = i) \<and>
    (found \<longrightarrow> p < elmmax conf \<and> (was_used (GET_FLAGS conf p) \<longrightarrow> cell_key p = k))"
proof -
  let ?n = "elmmax conf" and ?h = "p_key_hash conf k"
  have h: "?h < ?n" and cmp: "p_compare conf k i \<longleftrightarrow> cell_key i = k" for i using assms by (auto simp: lh_ok_def)
  note eq = search_eq[OF h, of k False]
  show ?thesis
  proof (cases "\<exists>i. lives conf cell_key k i")
    case True
    have "lh_search conf k False ?h = Some (True, i, True)" if i: "lives conf cell_key k i" for i
    proof -
      obtain j where j: "j < ?n" "i = probe ?n ?h j" "\<forall>l < j. was_used (GET_FLAGS conf (probe ?n ?h l)) \<and> cell_key (probe ?n ?h l) \<noteq> k"
        using i assms by (auto simp: lives_def lh_ok_def reached_def)
      have u: "is_used (GET_FLAGS conf i)" "was_used (GET_FLAGS conf i)" "cell_key i = k"
        using i assms by (auto simp: lives_def lh_ok_def)
      have "find (lh_stop conf k False) (map (probe ?n ?h) [0..<?n]) = Some i"
        unfolding j(2) using j u cmp by (intro find_upt) (auto simp: lh_stop_def)
      then show ?thesis using eq u cmp by simp
    qed
    note all = this
    obtain i where i: "lives conf cell_key k i" using True by blast
    have "p = i" if "lives conf cell_key k p" for p using all[OF i] all[OF that] by simp
    moreover have "i < ?n" "cell_key i = k" using i by (simp_all add: lives_def)
    ultimately show ?thesis using all[OF i] True by (intro exI[of _ True] exI[of _ i]) simp
  next
    case False
    show ?thesis
    proof (cases "find (lh_stop conf k False) (map (probe ?n ?h) [0..<?n])")
      case None
      then show ?thesis using eq False by (intro exI[of _ False] exI[of _ ?h]) simp
    next
      case (Some p)
      have "p < ?n" "lh_stop conf k False p" using find_upt_Some[OF Some] h by (auto simp: probe_def)
      then show ?thesis using eq Some False cmp by (auto simp: lh_stop_def lives_def)
    qed
  qed
qed

text \<open>Creating gives the cell of the key, or else the first cell that is free, if there is one.\<close>

lemma position_create:
  assumes "lh_ok conf cell_key"
  shows "\<exists>found p. ndrx_lh_position_get conf k True = Some (found, p, \<exists>i. lives conf cell_key k i) \<and>
    (found \<longleftrightarrow> (\<exists>i. lives conf cell_key k i) \<or> (\<exists>i < elmmax conf. \<not> is_used (GET_FLAGS conf i))) \<and>
    (\<forall>i. lives conf cell_key k i \<longrightarrow> p = i) \<and>
    (found \<longrightarrow> p < elmmax conf \<and> (\<not> (\<exists>i. lives conf cell_key k i) \<longrightarrow> \<not> is_used (GET_FLAGS conf p)) \<and> reached conf cell_key k p)"
proof -
  let ?n = "elmmax conf" and ?h = "p_key_hash conf k"
  have h: "?h < ?n" and cmp: "p_compare conf k i \<longleftrightarrow> cell_key i = k" for i using assms by (auto simp: lh_ok_def)
  obtain f0 p0 where r: "lh_search conf k False ?h = Some (f0, p0, \<exists>i. lives conf cell_key k i)"
      "\<forall>i. lives conf cell_key k i \<longrightarrow> f0 \<and> p0 = i"
    using search_read[OF assms, of k] by blast
  show ?thesis
  proof (cases "\<exists>i. lives conf cell_key k i")
    case True
    then obtain i where i: "lives conf cell_key k i" by blast
    then have u: "i < ?n" "is_used (GET_FLAGS conf i)" "was_used (GET_FLAGS conf i)" "cell_key i = k" "reached conf cell_key k i"
      using assms by (auto simp: lives_def lh_ok_def)
    have pr: "probe ?n i 0 = i" using u(1) by (simp add: probe_def)
    have "find (lh_stop conf k True) (map (probe ?n i) [0..<?n]) = Some (probe ?n i 0)"
      using u cmp pr by (intro find_upt) (auto simp: lh_stop_def)
    then have "lh_search conf k True i = Some (True, i, True)" using search_eq[OF u(1), of k True] u cmp pr by simp
    moreover have "ndrx_lh_position_get conf k True = lh_search conf k True i"
      using r i True by (auto simp: ndrx_lh_position_get_def)
    moreover have "i' = i" if "lives conf cell_key k i'" for i' using r(2) i that by auto
    ultimately show ?thesis using u True by (intro exI[of _ True] exI[of _ i]) simp
  next
    case False
    have eq: "ndrx_lh_position_get conf k True = lh_search conf k True ?h"
      using r False by (simp add: ndrx_lh_position_get_def)
    have used: "was_used (GET_FLAGS conf i)" if "i < ?n" "is_used (GET_FLAGS conf i)" for i using assms that by (simp add: lh_ok_def)
    have stop: "lh_stop conf k True p \<longleftrightarrow> \<not> is_used (GET_FLAGS conf p)" if "p < ?n" for p
      using that used[OF that] cmp False by (auto simp: lh_stop_def lives_def)
    show ?thesis
    proof (cases "find (lh_stop conf k True) (map (probe ?n ?h) [0..<?n])")
      case None
      have "is_used (GET_FLAGS conf i)" if i: "i < ?n" for i
      proof -
        obtain j where "j < ?n" "probe ?n ?h j = i" using probe_onto[OF i h] by blast
        then show ?thesis using None stop[OF i] by (auto simp: find_None_iff)
      qed
      then show ?thesis using eq search_eq[OF h, of k True] None False by (intro exI[of _ False] exI[of _ ?h]) simp
    next
      case (Some p)
      obtain j where j: "j < ?n" "p = probe ?n ?h j" "lh_stop conf k True p" "\<forall>l < j. \<not> lh_stop conf k True (probe ?n ?h l)"
        using find_upt_Some[OF Some] by blast
      have p: "p < ?n" using j(2) h by (simp add: probe_def)
      have "was_used (GET_FLAGS conf (probe ?n ?h l)) \<and> cell_key (probe ?n ?h l) \<noteq> k" if "l < j" for l
        using j(4) that cmp by (auto simp: lh_stop_def)
      then have "reached conf cell_key k p" using j by (auto simp: reached_def)
      moreover have nu: "\<not> is_used (GET_FLAGS conf p)" using j(3) stop[OF p] by simp
      moreover have "ndrx_lh_position_get conf k True = Some (True, p, False)"
        using eq search_eq[OF h, of k True] Some nu by simp
      ultimately show ?thesis using False p by (intro exI[of _ True] exI[of _ p]) auto
    qed
  qed
qed

lemma lives_unique:
  assumes "lh_ok conf cell_key" "lives conf cell_key k i" "lives conf cell_key k i'"
  shows "i = i'"
  using search_read[OF assms(1), of k] assms(2,3) by metis

lemma probe_inj: "probe n h l = probe n h j \<Longrightarrow> l < j \<Longrightarrow> j < n \<Longrightarrow> h < n \<Longrightarrow> False"
  by (auto simp: probe_def mod_if split: if_splits)

text \<open>Writing a key into the cell that a search for creating gave, and giving up a cell.\<close>

lemma lh_ok_write:
  assumes ok: "lh_ok conf ck" and p: "p < elmmax conf" "reached conf ck k p" "\<And>i. lives conf ck k i \<Longrightarrow> i = p"
    and fl: "is_used fl" "was_used fl"
    and new: "elmmax conf' = elmmax conf" "p_key_hash conf' = p_key_hash conf" "GET_FLAGS conf' = (GET_FLAGS conf)(p := fl)"
      "ck' = ck(p := k)" "\<And>k i. p_compare conf' k i \<longleftrightarrow> ck' i = k"
  shows "lh_ok conf' ck'"
proof -
  have "reached conf' ck' (ck' i) i" if i: "i < elmmax conf" "i = p \<or> is_used (GET_FLAGS conf i)" for i
  proof (cases "i = p")
    case True
    obtain j where j: "j < elmmax conf" "p = probe (elmmax conf) (p_key_hash conf k) j"
        "\<forall>l < j. was_used (GET_FLAGS conf (probe (elmmax conf) (p_key_hash conf k) l)) \<and> ck (probe (elmmax conf) (p_key_hash conf k) l) \<noteq> k"
      using p(2) by (auto simp: reached_def)
    have "probe (elmmax conf) (p_key_hash conf k) l \<noteq> p" if "l < j" for l
      using probe_inj[of "elmmax conf" _ l j] that j(1,2) ok by (auto simp: lh_ok_def)
    then show ?thesis using j True by (auto simp: reached_def new)
  next
    case False
    then have "ck i \<noteq> k" using p(3)[of i] i by (auto simp: lives_def)
    moreover have "reached conf ck (ck i) i" using ok i False by (auto simp: lh_ok_def)
    ultimately show ?thesis using False fl by (auto simp: reached_def new(1-4))
  qed
  then show ?thesis using ok fl new(5) by (auto simp: lh_ok_def new(1-3) split: if_splits)
qed

lemma lh_ok_drop:
  assumes ok: "lh_ok conf ck" and fl: "\<not> is_used fl" "was_used fl"
    and new: "elmmax conf' = elmmax conf" "p_key_hash conf' = p_key_hash conf" "GET_FLAGS conf' = (GET_FLAGS conf)(p := fl)"
      "\<And>k i. p_compare conf' k i \<longleftrightarrow> ck i = k"
  shows "lh_ok conf' ck"
proof -
  have "reached conf' ck (ck i) i" if "reached conf ck (ck i) i" for i
    using that fl(2) by (auto simp: reached_def new(1-3))
  then show ?thesis using ok fl new(4) by (auto simp: lh_ok_def new(1-3))
qed

end
