(* ===== verification/Cltshm.thy ===== *)
theory Cltshm
  imports Linear_Hash
begin

unbundle bit_operations_syntax

text \<open>
  The table of client processes in shared memory (libatmi/cltshm.c), kept by the client process monitor
  (cpmsrv): a table of theory \<open>Linear_Hash\<close> from client keys to process ids.  It is shown to be a map
  from keys to process ids with room for as many clients as there are cells.
\<close>

section \<open>The table\<close>

abbreviation NDRX_MAX_Q_SIZE :: nat where "NDRX_MAX_Q_SIZE \<equiv> 128"
abbreviation NDRX_CPM_CMDMIN :: nat where "NDRX_CPM_CMDMIN \<equiv> 32"

record clt_shm =
  clt_key :: string
  clt_pid :: int
  clt_flags :: "16 word"
  clt_stattime :: int
  clt_procname :: string

definition cltkey_key_hash :: "nat \<Rightarrow> string \<Rightarrow> nat" where
  "cltkey_key_hash max_clts key_get = unat (ndrx_hash_fn key_get) mod max_clts"

definition cltkey_compare :: "clt_shm list \<Rightarrow> string \<Rightarrow> nat \<Rightarrow> bool" where
  "cltkey_compare mem key_get idx = (clt_key (mem ! idx) = key_get)"

definition clt_conf :: "clt_shm list \<Rightarrow> string lh_config" where
  "clt_conf mem = \<lparr>elmmax = length mem, GET_FLAGS = (\<lambda>i. clt_flags (mem ! i)),
     p_key_hash = cltkey_key_hash (length mem), p_compare = cltkey_compare mem\<rparr>"

definition ndrx_cltshm_get_key :: "clt_shm list \<Rightarrow> string \<Rightarrow> bool \<Rightarrow> (bool \<times> nat \<times> bool) option" where
  "ndrx_cltshm_get_key mem key creat = ndrx_lh_position_get (clt_conf mem) key creat"

text \<open>The process id of a client, with its entry for name and time.\<close>

definition ndrx_cltshm_getpid :: "bool \<Rightarrow> clt_shm list \<Rightarrow> string \<Rightarrow> (int \<times> clt_shm option) option" where
  "ndrx_cltshm_getpid lock_ok mem key =
    (if \<not> lock_ok then Some (EXFAIL, None)
     else do {
       (found, pos, have_value) \<leftarrow> ndrx_cltshm_get_key mem key False;
       Some (if found \<and> have_value then (clt_pid (mem ! pos), Some (mem ! pos)) else (EXFAIL, None))
     })"

definition ndrx_cltshm_setpos ::
  "bool \<Rightarrow> int \<Rightarrow> clt_shm list \<Rightarrow> string \<Rightarrow> int \<Rightarrow> 16 word \<Rightarrow> string \<Rightarrow> (int \<times> clt_shm list) option" where
  "ndrx_cltshm_setpos lock_ok now mem key pid flags procname =
    (let oflag = is_used flags in
     if \<not> lock_ok then Some (EXFAIL, mem)
     else do {
       (found, pos, have_value) \<leftarrow> ndrx_cltshm_get_key mem key oflag;
       Some (if found
         then (EXSUCCEED,
               if oflag
               then mem[pos := \<lparr>clt_key = take NDRX_MAX_Q_SIZE key, clt_pid = pid, clt_flags = flags,
                                 clt_stattime = now, clt_procname = take NDRX_CPM_CMDMIN procname\<rparr>]
               else mem[pos := (mem ! pos)\<lparr>clt_flags := flags\<rparr>])
         else (EXFAIL, mem))
     })"

section \<open>The map\<close>

definition clt_ok :: "clt_shm list \<Rightarrow> bool" where
  "clt_ok mem \<longleftrightarrow> lh_ok (clt_conf mem) (\<lambda>i. clt_key (mem ! i))"

definition clt_map :: "clt_shm list \<Rightarrow> string \<rightharpoonup> int" where
  "clt_map mem k = map_option clt_pid (find (\<lambda>c. is_used (clt_flags c) \<and> clt_key c = k) mem)"

definition clt_lives :: "clt_shm list \<Rightarrow> string \<Rightarrow> nat \<Rightarrow> bool" where
  "clt_lives mem k i \<longleftrightarrow> i < length mem \<and> is_used (clt_flags (mem ! i)) \<and> clt_key (mem ! i) = k"

lemma lives_conf: "lives (clt_conf mem) (\<lambda>i. clt_key (mem ! i)) = clt_lives mem"
  by (simp add: lives_def clt_lives_def clt_conf_def fun_eq_iff)

lemma clt_map_lives: "clt_ok mem \<Longrightarrow> clt_lives mem k i \<Longrightarrow> clt_map mem k = Some (clt_pid (mem ! i))"
proof -
  assume ok: "clt_ok mem" and i: "clt_lives mem k i"
  have u: "l = i" if "clt_lives mem k l" for l
    using lives_unique[of "clt_conf mem" "\<lambda>i. clt_key (mem ! i)" k l i] ok i that unfolding lives_conf clt_ok_def by blast
  have "\<exists>c. find (\<lambda>c. is_used (clt_flags c) \<and> clt_key c = k) mem = Some c"
    using i by (metis (mono_tags, lifting) clt_lives_def find_None_iff not_Some_eq nth_mem)
  then obtain c where c: "find (\<lambda>c. is_used (clt_flags c) \<and> clt_key c = k) mem = Some c" by blast
  then obtain l where "l < length mem" "c = mem ! l" "clt_lives mem k l"
    by (auto simp: clt_lives_def in_set_conv_nth dest!: find_Some_in)
  then show ?thesis using c u by (auto simp: clt_map_def)
qed

lemma clt_map_None: "clt_map mem k = None \<longleftrightarrow> (\<nexists>i. clt_lives mem k i)"
  by (auto simp: clt_map_def clt_lives_def find_None_iff in_set_conv_nth)

lemma conf_fields [simp]:
  "elmmax (clt_conf mem) = length mem" "GET_FLAGS (clt_conf mem) i = clt_flags (mem ! i)"
  by (simp_all add: clt_conf_def)

lemma getpid_map:
  assumes "clt_ok mem"
  shows "\<exists>el. ndrx_cltshm_getpid True mem key = Some (case clt_map mem key of None \<Rightarrow> EXFAIL | Some pid \<Rightarrow> pid, el)"
proof -
  let ?ck = "\<lambda>i. clt_key (mem ! i)"
  obtain found p where r: "lh_search (clt_conf mem) key False (p_key_hash (clt_conf mem) key) = Some (found, p, \<exists>i. clt_lives mem key i)"
      "\<forall>i. clt_lives mem key i \<longrightarrow> found \<and> p = i"
    using search_read[of "clt_conf mem" ?ck key] assms unfolding lives_conf clt_ok_def by blast
  show ?thesis
  proof (cases "\<exists>i. clt_lives mem key i")
    case True
    then obtain i where i: "clt_lives mem key i" by blast
    then show ?thesis using r clt_map_lives[OF assms i] True
      by (simp add: ndrx_cltshm_getpid_def ndrx_cltshm_get_key_def ndrx_lh_position_get_def)
  next
    case False
    then have "clt_map mem key = None" by (simp add: clt_map_None)
    then show ?thesis using r False by (simp add: ndrx_cltshm_getpid_def ndrx_cltshm_get_key_def ndrx_lh_position_get_def)
  qed
qed

lemma nth_upd_flags: "p < length mem \<Longrightarrow> (\<lambda>i. g (mem[p := c] ! i)) = (\<lambda>i. g (mem ! i))(p := g c)"
  by (auto simp: fun_eq_iff)

lemma hash_conf: "length mem' = length mem \<Longrightarrow> p_key_hash (clt_conf mem') = p_key_hash (clt_conf mem)"
  by (simp add: clt_conf_def)

lemma compare_conf: "p_compare (clt_conf mem) k i \<longleftrightarrow> clt_key (mem ! i) = k"
  by (simp add: clt_conf_def cltkey_compare_def)

lemma flags_conf: "p < length mem \<Longrightarrow> GET_FLAGS (clt_conf (mem[p := c])) = (GET_FLAGS (clt_conf mem))(p := clt_flags c)"
  by (auto simp: clt_conf_def nth_upd_flags fun_eq_iff)

text \<open>Installing.\<close>

lemma install_map:
  assumes "clt_ok mem" "is_used flags" "was_used flags" "length key \<le> NDRX_MAX_Q_SIZE"
  shows "\<exists>ret mem'. ndrx_cltshm_setpos True now mem key pid flags procname = Some (ret, mem') \<and> clt_ok mem' \<and>
    length mem' = length mem \<and>
    (if clt_map mem key \<noteq> None \<or> (\<exists>i < length mem. \<not> is_used (clt_flags (mem ! i)))
     then ret = EXSUCCEED \<and> clt_map mem' = (clt_map mem)(key \<mapsto> pid) else ret = EXFAIL \<and> mem' = mem)"
proof -
  let ?ck = "\<lambda>i. clt_key (mem ! i)" and ?conf = "clt_conf mem"
  obtain found p where r: "ndrx_lh_position_get ?conf key True = Some (found, p, \<exists>i. clt_lives mem key i)"
      "found \<longleftrightarrow> (\<exists>i. clt_lives mem key i) \<or> (\<exists>i < length mem. \<not> is_used (clt_flags (mem ! i)))"
      "\<forall>i. clt_lives mem key i \<longrightarrow> p = i"
      "found \<longrightarrow> p < length mem \<and> (\<not> (\<exists>i. clt_lives mem key i) \<longrightarrow> \<not> is_used (clt_flags (mem ! p))) \<and> reached ?conf ?ck key p"
    using position_create[of ?conf ?ck key] assms(1) unfolding lives_conf clt_ok_def conf_fields by blast
  have free: "found \<longleftrightarrow> clt_map mem key \<noteq> None \<or> (\<exists>i < length mem. \<not> is_used (clt_flags (mem ! i)))"
    using r(2) clt_map_None[of mem key] by simp
  let ?c = "\<lparr>clt_key = take NDRX_MAX_Q_SIZE key, clt_pid = pid, clt_flags = flags, clt_stattime = now,
    clt_procname = take NDRX_CPM_CMDMIN procname\<rparr>"
  let ?mem = "mem[p := ?c]"
  have set: "ndrx_cltshm_setpos True now mem key pid flags procname = Some (if found then (EXSUCCEED, ?mem) else (EXFAIL, mem))"
    using r(1) assms(2) by (simp add: ndrx_cltshm_setpos_def ndrx_cltshm_get_key_def Let_def)
  show ?thesis
  proof (cases found)
    case True
    then have p: "p < length mem" "reached ?conf ?ck key p" "\<not> (\<exists>i. clt_lives mem key i) \<longrightarrow> \<not> is_used (clt_flags (mem ! p))"
      using r(4) by auto
    have ok: "clt_ok ?mem" unfolding clt_ok_def
    proof (rule lh_ok_write[where conf = ?conf and ck = ?ck and p = p and k = key and fl = flags])
      show "lh_ok ?conf ?ck" using assms(1) by (simp add: clt_ok_def)
      show "i = p" if "lives ?conf ?ck key i" for i using r(3) that by (simp add: lives_conf)
      show "(\<lambda>i. clt_key (?mem ! i)) = ?ck(p := key)" using p(1) assms(4) by (auto simp: fun_eq_iff)
      show "reached ?conf ?ck key p" by (rule p(2))
      show "p < elmmax ?conf" using p(1) by simp
      show "GET_FLAGS (clt_conf ?mem) = (GET_FLAGS ?conf)(p := flags)" using p(1) by (simp add: flags_conf)
      show "p_key_hash (clt_conf ?mem) = p_key_hash ?conf" by (rule hash_conf) simp
      show "p_compare (clt_conf ?mem) k i \<longleftrightarrow> clt_key (?mem ! i) = k" for k i by (rule compare_conf)
    qed (use assms(2,3) in simp_all)
    have "clt_map ?mem k = ((clt_map mem)(key \<mapsto> pid)) k" for k
    proof (cases "k = key")
      case True
      have "clt_lives ?mem key p" using p(1) assms by (simp add: clt_lives_def)
      then show ?thesis using True clt_map_lives[OF ok] p(1) by simp
    next
      case False
      have same: "clt_lives ?mem k i \<longleftrightarrow> clt_lives mem k i" for i
      proof (cases "i = p")
        case True
        have "\<not> clt_lives mem k p" using False r(3) p(3) by (auto simp: clt_lives_def)
        then show ?thesis using True False p(1) assms(4) by (auto simp: clt_lives_def)
      qed (simp add: clt_lives_def)
      show ?thesis
      proof (cases "\<exists>i. clt_lives mem k i")
        case True
        then obtain i where i: "clt_lives mem k i" by blast
        then have "i \<noteq> p" using False same[of p] p(1) assms(4) by (auto simp: clt_lives_def)
        then show ?thesis using False clt_map_lives[OF assms(1) i] clt_map_lives[OF ok] i same by simp
      next
        case none: False
        then have "clt_map mem k = None" "clt_map ?mem k = None" using same by (simp_all add: clt_map_None)
        then show ?thesis using False by simp
      qed
    qed
    then have "clt_map ?mem = (clt_map mem)(key \<mapsto> pid)" by (rule ext)
    moreover have "clt_map mem key \<noteq> None \<or> (\<exists>i < length mem. \<not> is_used (clt_flags (mem ! i)))" using free True by blast
    ultimately show ?thesis unfolding if_P[OF \<open>_ \<or> _\<close>] using set True ok by simp
  next
    case False
    then have "\<not> (clt_map mem key \<noteq> None \<or> (\<exists>i < length mem. \<not> is_used (clt_flags (mem ! i))))" using free by blast
    then show ?thesis unfolding if_not_P[OF \<open>\<not> (_ \<or> _)\<close>] using set assms(1) False by simp
  qed
qed

text \<open>Removing.\<close>

lemma remove_map:
  assumes "clt_ok mem" "\<not> is_used flags" "was_used flags"
  shows "\<exists>ret mem'. ndrx_cltshm_setpos True now mem key pid flags procname = Some (ret, mem') \<and> clt_ok mem' \<and>
    length mem' = length mem \<and> clt_map mem' = (clt_map mem)(key := None)"
proof -
  let ?ck = "\<lambda>i. clt_key (mem ! i)" and ?conf = "clt_conf mem"
  obtain found p where r: "lh_search ?conf key False (p_key_hash ?conf key) = Some (found, p, \<exists>i. clt_lives mem key i)"
      "\<forall>i. clt_lives mem key i \<longrightarrow> found \<and> p = i" "found \<longrightarrow> p < length mem \<and> (was_used (clt_flags (mem ! p)) \<longrightarrow> ?ck p = key)"
    using search_read[of ?conf ?ck key] assms(1) unfolding lives_conf clt_ok_def conf_fields by blast
  let ?mem = "mem[p := (mem ! p)\<lparr>clt_flags := flags\<rparr>]"
  have set: "ndrx_cltshm_setpos True now mem key pid flags procname = Some (if found then (EXSUCCEED, ?mem) else (EXFAIL, mem))"
    using r(1) assms(2) by (simp add: ndrx_cltshm_setpos_def ndrx_cltshm_get_key_def ndrx_lh_position_get_def Let_def)
  show ?thesis
  proof (cases found)
    case True
    then have p: "p < length mem" "was_used (clt_flags (mem ! p)) \<longrightarrow> ?ck p = key" using r(3) by auto
    have ck: "(\<lambda>i. clt_key (?mem ! i)) = ?ck" using p(1) by (simp add: nth_upd_flags fun_upd_idem)
    have ok: "clt_ok ?mem" unfolding clt_ok_def ck
    proof (rule lh_ok_drop[where conf = ?conf and p = p and fl = flags])
      show "p_compare (clt_conf ?mem) k i \<longleftrightarrow> ?ck i = k" for k i
        unfolding compare_conf using fun_cong[OF ck, of i] by simp
      show "lh_ok ?conf ?ck" using assms(1) by (simp add: clt_ok_def)
      show "GET_FLAGS (clt_conf ?mem) = (GET_FLAGS ?conf)(p := flags)" using p(1) by (simp add: flags_conf)
      show "p_key_hash (clt_conf ?mem) = p_key_hash ?conf" by (rule hash_conf) simp
    qed (use assms in simp_all)
    have used: "?ck p = key" if "is_used (clt_flags (mem ! p))"
      using that p assms(1) by (auto simp: clt_ok_def lh_ok_def)
    have same: "clt_lives ?mem k i \<longleftrightarrow> clt_lives mem k i \<and> k \<noteq> key" for k i
      using used r(2) p(1) assms(2) by (cases "i = p") (auto simp: clt_lives_def)
    have "clt_map ?mem k = ((clt_map mem)(key := None)) k" for k
    proof (cases "\<exists>i. clt_lives ?mem k i")
      case True
      then obtain i where i: "clt_lives ?mem k i" by blast
      then have "clt_pid (?mem ! i) = clt_pid (mem ! i)" by (cases "i = p") (auto simp: clt_lives_def)
      moreover have "clt_lives mem k i" "k \<noteq> key" using i same by auto
      ultimately show ?thesis using clt_map_lives[OF ok i] clt_map_lives[OF assms(1), of k i] by simp
    next
      case False
      then have "clt_map ?mem k = None" by (simp add: clt_map_None)
      moreover have "clt_map mem k = None" if "k \<noteq> key" using False same that by (simp add: clt_map_None)
      ultimately show ?thesis by simp
    qed
    then have "clt_map ?mem = (clt_map mem)(key := None)" by (rule ext)
    then show ?thesis using set True ok by simp
  next
    case False
    then have "clt_map mem key = None" using r(2) by (auto simp: clt_map_None)
    then show ?thesis using set assms(1) False by (auto simp: fun_upd_idem)
  qed
qed

lemma used_injective: "clt_ok mem \<Longrightarrow> inj_on (\<lambda>i. clt_key (mem ! i)) {i. i < length mem \<and> is_used (clt_flags (mem ! i))}"
proof (rule inj_onI)
  fix i j
  assume ok: "clt_ok mem" and "i \<in> {i. i < length mem \<and> is_used (clt_flags (mem ! i))}"
    "j \<in> {i. i < length mem \<and> is_used (clt_flags (mem ! i))}" "clt_key (mem ! i) = clt_key (mem ! j)"
  then have "clt_lives mem (clt_key (mem ! i)) i" "clt_lives mem (clt_key (mem ! i)) j" by (auto simp: clt_lives_def)
  then show "i = j" 
    using lives_unique[of "clt_conf mem" "\<lambda>i. clt_key (mem ! i)"] ok unfolding clt_ok_def lives_conf by blast
qed

lemma card_below: "card {i. i < n \<and> P i} < n \<longleftrightarrow> (\<exists>i < n. \<not> P i)" for n :: nat
proof (cases "\<exists>i < n. \<not> P i")
  case True
  then have "{i. i < n \<and> P i} \<subset> {..<n}" by blast
  then show ?thesis using True psubset_card_mono[of "{..<n}" "{i. i < n \<and> P i}"] by simp
next
  case False
  then have "{i. i < n \<and> P i} = {..<n}" by blast
  then show ?thesis using False by simp
qed

text \<open>There is a free cell exactly when there are fewer clients than cells.\<close>

lemma free_cell:
  assumes "clt_ok mem"
  shows "(\<exists>i < length mem. \<not> is_used (clt_flags (mem ! i))) \<longleftrightarrow> card (dom (clt_map mem)) < length mem"
proof -
  let ?U = "{i. i < length mem \<and> is_used (clt_flags (mem ! i))}"
  have "dom (clt_map mem) = (\<lambda>i. clt_key (mem ! i)) ` ?U"
  proof (rule set_eqI)
    fix k
    have "k \<in> dom (clt_map mem) \<longleftrightarrow> (\<exists>i. clt_lives mem k i)" using clt_map_None[of mem k] by (simp only: domIff) blast
    also have "\<dots> \<longleftrightarrow> (\<exists>i \<in> ?U. k = clt_key (mem ! i))" by (simp only: clt_lives_def Bex_def mem_Collect_eq) (simp only: conj_assoc eq_commute)
    finally show "k \<in> dom (clt_map mem) \<longleftrightarrow> k \<in> (\<lambda>i. clt_key (mem ! i)) ` ?U" by (simp only: image_iff)
  qed
  then have c: "card (dom (clt_map mem)) = card ?U" using card_image[OF used_injective[OF assms]] by simp
  show ?thesis unfolding c by (simp only: card_below)
qed

lemma zero_ok:
  assumes "0 < n" "clt_flags c = 0"
  shows "clt_ok (replicate n c)" "clt_map (replicate n c) = Map.empty"
proof -
  have u: "\<not> is_used (clt_flags c)" using assms(2) by (simp add: is_used_def)
  have "p_key_hash (clt_conf (replicate n c)) k < n" for k using assms(1) by (simp add: clt_conf_def cltkey_key_hash_def)
  then show "clt_ok (replicate n c)" using u by (simp add: clt_ok_def lh_ok_def compare_conf)
  show "clt_map (replicate n c) = Map.empty" using u by (simp add: clt_map_def find_None_iff fun_eq_iff)
qed

section \<open>Sequences of operations\<close>

datatype clt_op = CltInstall string int "16 word" string | CltRemove string "16 word" | CltGet string

text \<open>The replies are the results of installations and the process ids found.\<close>

fun clt_run :: "clt_op list \<Rightarrow> int \<Rightarrow> clt_shm list \<Rightarrow> (int list \<times> clt_shm list) option" where
  "clt_run [] now mem = Some ([], mem)"
| "clt_run (CltInstall key pid flags procname # ops) now mem = do {
     (ret, mem1) \<leftarrow> ndrx_cltshm_setpos True now mem key pid flags procname;
     (outs, mem2) \<leftarrow> clt_run ops (now + 1) mem1;
     Some (ret # outs, mem2)
   }"
| "clt_run (CltRemove key flags # ops) now mem = do {
     (ret, mem1) \<leftarrow> ndrx_cltshm_setpos True now mem key EXFAIL flags [];
     clt_run ops (now + 1) mem1
   }"
| "clt_run (CltGet key # ops) now mem = do {
     (pid, el) \<leftarrow> ndrx_cltshm_getpid True mem key;
     (outs, mem2) \<leftarrow> clt_run ops (now + 1) mem;
     Some (pid # outs, mem2)
   }"

fun map_run :: "nat \<Rightarrow> clt_op list \<Rightarrow> (string \<rightharpoonup> int) \<Rightarrow> int list \<times> (string \<rightharpoonup> int)" where
  "map_run n [] m = ([], m)"
| "map_run n (CltInstall key pid flags procname # ops) m =
     (if m key \<noteq> None \<or> card (dom m) < n then apfst (Cons EXSUCCEED) (map_run n ops (m(key \<mapsto> pid)))
      else apfst (Cons EXFAIL) (map_run n ops m))"
| "map_run n (CltRemove key flags # ops) m = map_run n ops (m(key := None))"
| "map_run n (CltGet key # ops) m = apfst (Cons (case m key of None \<Rightarrow> EXFAIL | Some pid \<Rightarrow> pid)) (map_run n ops m)"

definition clt_op_ok :: "clt_op \<Rightarrow> bool" where
  "clt_op_ok op = (case op of
      CltInstall key pid flags procname \<Rightarrow> is_used flags \<and> was_used flags \<and> length key \<le> NDRX_MAX_Q_SIZE
    | CltRemove key flags \<Rightarrow> \<not> is_used flags \<and> was_used flags
    | CltGet key \<Rightarrow> True)"

lemma run_map:
  "clt_ok mem \<Longrightarrow> list_all clt_op_ok ops \<Longrightarrow>
   \<exists>outs mem'. clt_run ops now mem = Some (outs, mem') \<and> clt_ok mem' \<and> length mem' = length mem \<and>
     map_run (length mem) ops (clt_map mem) = (outs, clt_map mem')"
proof (induction ops arbitrary: now mem)
  case (Cons op ops)
  have ops: "list_all clt_op_ok ops" using Cons.prems(2) by simp
  show ?case
  proof (cases op)
    case (CltInstall key pid flags procname)
    obtain ret mem1 where s: "ndrx_cltshm_setpos True now mem key pid flags procname = Some (ret, mem1)" "clt_ok mem1"
        "length mem1 = length mem"
        "if clt_map mem key \<noteq> None \<or> card (dom (clt_map mem)) < length mem
         then ret = EXSUCCEED \<and> clt_map mem1 = (clt_map mem)(key \<mapsto> pid) else ret = EXFAIL \<and> mem1 = mem"
      using install_map[OF Cons.prems(1), of flags key now pid procname] Cons.prems(2) CltInstall
      unfolding free_cell[OF Cons.prems(1)] by (auto simp: clt_op_ok_def)
    obtain outs mem2 where "clt_run ops (now + 1) mem1 = Some (outs, mem2)" "clt_ok mem2" "length mem2 = length mem"
        "map_run (length mem) ops (clt_map mem1) = (outs, clt_map mem2)"
      using Cons.IH[OF s(2) ops, of "now + 1"] s(3) by auto
    then show ?thesis using s CltInstall by (auto split: if_splits)
  next
    case (CltRemove key flags)
    obtain ret mem1 where s: "ndrx_cltshm_setpos True now mem key EXFAIL flags [] = Some (ret, mem1)" "clt_ok mem1"
        "length mem1 = length mem" "clt_map mem1 = (clt_map mem)(key := None)"
      using remove_map[OF Cons.prems(1), of flags now key EXFAIL "[]"] Cons.prems(2) CltRemove by (auto simp: clt_op_ok_def)
    then show ?thesis using Cons.IH[OF s(2) ops, of "now + 1"] CltRemove by (simp del: fun_upd_apply)
  next
    case (CltGet key)
    obtain el where "ndrx_cltshm_getpid True mem key = Some (case clt_map mem key of None \<Rightarrow> EXFAIL | Some pid \<Rightarrow> pid, el)"
      using getpid_map[OF Cons.prems(1)] by blast
    then show ?thesis using Cons.IH[OF Cons.prems(1) ops, of "now + 1"] CltGet by auto
  qed
qed simp

text \<open>C23: the table of clients is a map.  Starting with zeroed memory for any number of cells, every sequence of
  installations, removals and lookups returns, every lookup gives the process id that was installed last for the key (or the
  failure code after a removal), and an installation fails exactly when the key is new and as many clients as there are cells
  are registered: cells that were given up never hide a client and are used again.\<close>

theorem client_table_is_map:
  assumes "0 < n" "list_all clt_op_ok ops"
  shows "\<exists>outs mem. clt_run ops now (replicate n \<lparr>clt_key = [], clt_pid = 0, clt_flags = 0, clt_stattime = 0, clt_procname = []\<rparr>) =
      Some (outs, mem) \<and> map_run n ops Map.empty = (outs, clt_map mem)"
proof -
  let ?c = "\<lparr>clt_key = [], clt_pid = 0, clt_flags = 0, clt_stattime = 0, clt_procname = []\<rparr>"
  have "clt_ok (replicate n ?c)" "clt_map (replicate n ?c) = Map.empty" using zero_ok[OF assms(1), of ?c] by simp_all
  then show ?thesis using run_map[of "replicate n ?c" ops now] assms(2) by auto
qed

theorem client_table_is_map_witness:
  "\<exists>mem. clt_run [CltInstall ''a'' 5 3 ''p'', CltInstall ''b'' 6 3 ''p'', CltRemove ''a'' 2, CltGet ''b'', CltGet ''a'',
       CltInstall ''c'' 7 3 ''p'', CltInstall ''d'' 8 3 ''p''] 0
     (replicate 2 \<lparr>clt_key = [], clt_pid = 0, clt_flags = 0, clt_stattime = 0, clt_procname = []\<rparr>) =
   Some ([0, 0, 6, -1, 0, -1], mem)"
proof -
  let ?ops = "[CltInstall ''a'' 5 3 ''p'', CltInstall ''b'' 6 3 ''p'', CltRemove ''a'' 2, CltGet ''b'', CltGet ''a'',
       CltInstall ''c'' 7 3 ''p'', CltInstall ''d'' 8 3 ''p'']"
  have ok: "list_all clt_op_ok ?ops" by (simp add: clt_op_ok_def is_used_def was_used_def)
  have "fst (map_run 2 ?ops Map.empty) = [0, 0, 6, -1, 0, -1]" by simp
  then show ?thesis using client_table_is_map[OF _ ok, of 2 0] by auto
qed

end
