(* ===== verification/Rbtree.thy ===== *)
theory Rbtree
  imports Prelude "HOL-Library.Tree" "HOL-Library.Monad_Syntax"
begin

text \<open>
  The red-black trees of libnstd/rbtree.c with their pointers.  The memory has one function per field of a
  node.  All leaves are the one static sentinel \<open>RBTNIL\<close>, whose parent field is
  written by deletions; \<open>NULL\<close> is \<open>None\<close> and occurs as a parent only.  A function gives \<open>None\<close> when it follows a
  NULL pointer or does not return.  A tree in memory is described by a tree of node
  addresses with colours.
\<close>

section \<open>Memory\<close>

datatype rbt_color = RBTBLACK | RBTRED

datatype 'p node = RBTNIL | Nd 'p

record 'p rbt =
  rb_color :: "'p node \<Rightarrow> rbt_color"
  rb_left :: "'p node \<Rightarrow> 'p node"
  rb_right :: "'p node \<Rightarrow> 'p node"
  rb_parent :: "'p node \<Rightarrow> 'p node option"
  rb_root :: "'p node"

definition set_color :: "'p node \<Rightarrow> rbt_color \<Rightarrow> 'p rbt \<Rightarrow> 'p rbt" where
  "set_color x c s = s\<lparr>rb_color := (rb_color s)(x := c)\<rparr>"

definition set_left :: "'p node \<Rightarrow> 'p node \<Rightarrow> 'p rbt \<Rightarrow> 'p rbt" where
  "set_left x v s = s\<lparr>rb_left := (rb_left s)(x := v)\<rparr>"

definition set_right :: "'p node \<Rightarrow> 'p node \<Rightarrow> 'p rbt \<Rightarrow> 'p rbt" where
  "set_right x v s = s\<lparr>rb_right := (rb_right s)(x := v)\<rparr>"

definition set_parent :: "'p node \<Rightarrow> 'p node option \<Rightarrow> 'p rbt \<Rightarrow> 'p rbt" where
  "set_parent x v s = s\<lparr>rb_parent := (rb_parent s)(x := v)\<rparr>"

lemmas set_defs = set_color_def set_left_def set_right_def set_parent_def

section \<open>Search\<close>

definition ndrx_rbt_init :: "'p rbt \<Rightarrow> 'p rbt" where
  "ndrx_rbt_init tree = tree\<lparr>rb_root := RBTNIL\<rparr>"

definition ndrx_rbt_is_empty :: "'p rbt \<Rightarrow> bool" where
  "ndrx_rbt_is_empty rbt \<longleftrightarrow> rb_root rbt = RBTNIL"

partial_function (option) rbt_find_loop :: "('p node \<Rightarrow> 'p node \<Rightarrow> int) \<Rightarrow> 'p node \<Rightarrow> 'p rbt \<Rightarrow> 'p node \<Rightarrow> 'p node option option" where
  "rbt_find_loop comparator data s node =
    (if node = RBTNIL then Some None
     else let cmp = comparator data node in
       if cmp = 0 then Some (Some node)
       else if cmp < 0 then rbt_find_loop comparator data s (rb_left s node)
       else rbt_find_loop comparator data s (rb_right s node))"

definition ndrx_rbt_find :: "('p node \<Rightarrow> 'p node \<Rightarrow> int) \<Rightarrow> 'p rbt \<Rightarrow> 'p node \<Rightarrow> 'p node option option" where
  "ndrx_rbt_find comparator rbt data = rbt_find_loop comparator data rbt (rb_root rbt)"

partial_function (option) rbt_great_loop ::
  "('p node \<Rightarrow> 'p node \<Rightarrow> int) \<Rightarrow> 'p node \<Rightarrow> bool \<Rightarrow> 'p rbt \<Rightarrow> 'p node \<Rightarrow> 'p node option \<Rightarrow> 'p node option option" where
  "rbt_great_loop comparator data equal_match s node greater1 =
    (if node = RBTNIL then Some greater1
     else let cmp = comparator data node in
       if equal_match \<and> cmp = 0 then Some (Some node)
       else if cmp < 0 then rbt_great_loop comparator data equal_match s (rb_left s node) (Some node)
       else rbt_great_loop comparator data equal_match s (rb_right s node) greater1)"

definition ndrx_rbt_find_great ::
  "('p node \<Rightarrow> 'p node \<Rightarrow> int) \<Rightarrow> 'p rbt \<Rightarrow> 'p node \<Rightarrow> bool \<Rightarrow> 'p node option option" where
  "ndrx_rbt_find_great comparator rbt data equal_match = rbt_great_loop comparator data equal_match rbt (rb_root rbt) None"

partial_function (option) rbt_less_loop ::
  "('p node \<Rightarrow> 'p node \<Rightarrow> int) \<Rightarrow> 'p node \<Rightarrow> bool \<Rightarrow> 'p rbt \<Rightarrow> 'p node \<Rightarrow> 'p node option \<Rightarrow> 'p node option option" where
  "rbt_less_loop comparator data equal_match s node lesser =
    (if node = RBTNIL then Some lesser
     else let cmp = comparator data node in
       if equal_match \<and> cmp = 0 then Some (Some node)
       else if cmp > 0 then rbt_less_loop comparator data equal_match s (rb_right s node) (Some node)
       else rbt_less_loop comparator data equal_match s (rb_left s node) lesser)"

definition ndrx_rbt_find_less ::
  "('p node \<Rightarrow> 'p node \<Rightarrow> int) \<Rightarrow> 'p rbt \<Rightarrow> 'p node \<Rightarrow> bool \<Rightarrow> 'p node option option" where
  "ndrx_rbt_find_less comparator rbt data equal_match = rbt_less_loop comparator data equal_match rbt (rb_root rbt) None"

partial_function (option) rbt_leftmost_loop :: "'p rbt \<Rightarrow> 'p node \<Rightarrow> 'p node \<Rightarrow> 'p node option" where
  "rbt_leftmost_loop s node leftmost =
    (if node \<noteq> RBTNIL then rbt_leftmost_loop s (rb_left s node) node else Some leftmost)"

definition ndrx_rbt_leftmost :: "'p rbt \<Rightarrow> 'p node option option" where
  "ndrx_rbt_leftmost rbt = do {
     leftmost \<leftarrow> rbt_leftmost_loop rbt (rb_root rbt) (rb_root rbt);
     Some (if leftmost \<noteq> RBTNIL then Some leftmost else None)
   }"

partial_function (option) rbt_rightmost_loop :: "'p rbt \<Rightarrow> 'p node \<Rightarrow> 'p node \<Rightarrow> 'p node option" where
  "rbt_rightmost_loop s node rightmost =
    (if node \<noteq> RBTNIL then rbt_rightmost_loop s (rb_right s node) node else Some rightmost)"

definition ndrx_rbt_rightmost :: "'p rbt \<Rightarrow> 'p node option option" where
  "ndrx_rbt_rightmost rbt = do {
     rightmost \<leftarrow> rbt_rightmost_loop rbt (rb_root rbt) (rb_root rbt);
     Some (if rightmost \<noteq> RBTNIL then Some rightmost else None)
   }"

section \<open>Insertion\<close>

definition ndrx_rbt_rotate_left :: "'p node \<Rightarrow> 'p rbt \<Rightarrow> 'p rbt" where
  "ndrx_rbt_rotate_left x s =
    (let y = rb_right s x;
         s1 = set_right x (rb_left s y) s;
         s2 = (if rb_left s1 y \<noteq> RBTNIL then set_parent (rb_left s1 y) (Some x) s1 else s1);
         s3 = (if y \<noteq> RBTNIL then set_parent y (rb_parent s2 x) s2 else s2);
         s4 = (case rb_parent s3 x of
                 Some p \<Rightarrow> if x = rb_left s3 p then set_left p y s3 else set_right p y s3
               | None \<Rightarrow> s3\<lparr>rb_root := y\<rparr>);
         s5 = set_left y x s4
     in if x \<noteq> RBTNIL then set_parent x (Some y) s5 else s5)"

definition ndrx_rbt_rotate_right :: "'p node \<Rightarrow> 'p rbt \<Rightarrow> 'p rbt" where
  "ndrx_rbt_rotate_right x s =
    (let y = rb_left s x;
         s1 = set_left x (rb_right s y) s;
         s2 = (if rb_right s1 y \<noteq> RBTNIL then set_parent (rb_right s1 y) (Some x) s1 else s1);
         s3 = (if y \<noteq> RBTNIL then set_parent y (rb_parent s2 x) s2 else s2);
         s4 = (case rb_parent s3 x of
                 Some p \<Rightarrow> if x = rb_right s3 p then set_right p y s3 else set_left p y s3
               | None \<Rightarrow> s3\<lparr>rb_root := y\<rparr>);
         s5 = set_right y x s4
     in if x \<noteq> RBTNIL then set_parent x (Some y) s5 else s5)"

partial_function (option) ndrx_rbt_insert_fixup :: "'p node \<Rightarrow> 'p rbt \<Rightarrow> 'p rbt option" where
  "ndrx_rbt_insert_fixup x s =
    (if x = rb_root s then Some (set_color (rb_root s) RBTBLACK s)
     else do {
       p \<leftarrow> rb_parent s x;
       if rb_color s p = RBTRED
       then do {
         g \<leftarrow> rb_parent s p;
         if p = rb_left s g
         then let y = rb_right s g in
           if rb_color s y = RBTRED
           then ndrx_rbt_insert_fixup g (set_color g RBTRED (set_color y RBTBLACK (set_color p RBTBLACK s)))
           else let inner = (x = rb_right s p);
                    x1 = (if inner then p else x);
                    s1 = (if inner then ndrx_rbt_rotate_left x1 s else s)
             in do {
               p1 \<leftarrow> rb_parent s1 x1;
               let s2 = set_color p1 RBTBLACK s1;
               g1 \<leftarrow> rb_parent s2 p1;
               let s3 = set_color g1 RBTRED s2;
               ndrx_rbt_insert_fixup x1 (ndrx_rbt_rotate_right g1 s3)
             }
         else let y = rb_left s g in
           if rb_color s y = RBTRED
           then ndrx_rbt_insert_fixup g (set_color g RBTRED (set_color y RBTBLACK (set_color p RBTBLACK s)))
           else let inner = (x = rb_left s p);
                    x1 = (if inner then p else x);
                    s1 = (if inner then ndrx_rbt_rotate_right x1 s else s)
             in do {
               p1 \<leftarrow> rb_parent s1 x1;
               let s2 = set_color p1 RBTBLACK s1;
               g1 \<leftarrow> rb_parent s2 p1;
               let s3 = set_color g1 RBTRED s2;
               ndrx_rbt_insert_fixup x1 (ndrx_rbt_rotate_left g1 s3)
             }
       }
       else Some (set_color (rb_root s) RBTBLACK s)
     })"

text \<open>The place of a key: the node with it, or the parent for a new node with the last comparison.\<close>

partial_function (option) rbt_place ::
  "('p node \<Rightarrow> 'p node \<Rightarrow> int) \<Rightarrow> 'p node \<Rightarrow> 'p rbt \<Rightarrow> 'p node \<Rightarrow> 'p node option \<Rightarrow> int \<Rightarrow> ('p node \<times> 'p node option \<times> int) option" where
  "rbt_place comparator data s current parent cmp0 =
    (if current \<noteq> RBTNIL
     then let cmp = comparator data current in
       if cmp = 0 then Some (current, parent, cmp)
       else rbt_place comparator data s (if cmp < 0 then rb_left s current else rb_right s current) (Some current) cmp
     else Some (RBTNIL, parent, cmp0))"

definition ndrx_rbt_insert ::
  "('p node \<Rightarrow> 'p node \<Rightarrow> int) \<Rightarrow> ('p node \<Rightarrow> 'p node \<Rightarrow> 'p rbt \<Rightarrow> 'p rbt option) \<Rightarrow> 'p rbt \<Rightarrow> 'p node \<Rightarrow>
   ('p node \<times> bool \<times> 'p rbt) option" where
  "ndrx_rbt_insert comparator combiner rbt data = do {
     (current, parent, cmp) \<leftarrow> rbt_place comparator data rbt (rb_root rbt) None 0;
     if current \<noteq> RBTNIL
     then do {
       s \<leftarrow> combiner current data rbt;
       Some (current, False, s)
     }
     else do {
       let s1 = set_parent data parent (set_right data RBTNIL (set_left data RBTNIL (set_color data RBTRED rbt)));
       let s2 = (case parent of
           Some p \<Rightarrow> if cmp < 0 then set_left p data s1 else set_right p data s1
         | None \<Rightarrow> s1\<lparr>rb_root := data\<rparr>);
       s3 \<leftarrow> ndrx_rbt_insert_fixup data s2;
       Some (data, True, s3)
     }
   }"

section \<open>Deletion\<close>

partial_function (option) ndrx_rbt_delete_fixup :: "'p node \<Rightarrow> 'p rbt \<Rightarrow> 'p rbt option" where
  "ndrx_rbt_delete_fixup x s =
    (if x \<noteq> rb_root s \<and> rb_color s x = RBTBLACK
     then do {
       p \<leftarrow> rb_parent s x;
       if x = rb_left s p
       then do {
         let w0 = rb_right s p;
         let red = (rb_color s w0 = RBTRED);
         let s1 = (if red then ndrx_rbt_rotate_left p (set_color p RBTRED (set_color w0 RBTBLACK s)) else s);
         p1 \<leftarrow> rb_parent s1 x;
         let w = (if red then rb_right s1 p1 else w0);
         if rb_color s1 (rb_left s1 w) = RBTBLACK \<and> rb_color s1 (rb_right s1 w) = RBTBLACK
         then ndrx_rbt_delete_fixup p1 (set_color w RBTRED s1)
         else do {
           let near = (rb_color s1 (rb_right s1 w) = RBTBLACK);
           let s2 = (if near then ndrx_rbt_rotate_right w (set_color w RBTRED (set_color (rb_left s1 w) RBTBLACK s1)) else s1);
           p2 \<leftarrow> rb_parent s2 x;
           let w1 = (if near then rb_right s2 p2 else w);
           let s3 = set_color w1 (rb_color s2 p2) s2;
           let s4 = set_color p2 RBTBLACK s3;
           let s5 = set_color (rb_right s4 w1) RBTBLACK s4;
           let s6 = ndrx_rbt_rotate_left p2 s5;
           ndrx_rbt_delete_fixup (rb_root s6) s6
         }
       }
       else do {
         let w0 = rb_left s p;
         let red = (rb_color s w0 = RBTRED);
         let s1 = (if red then ndrx_rbt_rotate_right p (set_color p RBTRED (set_color w0 RBTBLACK s)) else s);
         p1 \<leftarrow> rb_parent s1 x;
         let w = (if red then rb_left s1 p1 else w0);
         if rb_color s1 (rb_right s1 w) = RBTBLACK \<and> rb_color s1 (rb_left s1 w) = RBTBLACK
         then ndrx_rbt_delete_fixup p1 (set_color w RBTRED s1)
         else do {
           let near = (rb_color s1 (rb_left s1 w) = RBTBLACK);
           let s2 = (if near then ndrx_rbt_rotate_left w (set_color w RBTRED (set_color (rb_right s1 w) RBTBLACK s1)) else s1);
           p2 \<leftarrow> rb_parent s2 x;
           let w1 = (if near then rb_left s2 p2 else w);
           let s3 = set_color w1 (rb_color s2 p2) s2;
           let s4 = set_color p2 RBTBLACK s3;
           let s5 = set_color (rb_left s4 w1) RBTBLACK s4;
           let s6 = ndrx_rbt_rotate_right p2 s5;
           ndrx_rbt_delete_fixup (rb_root s6) s6
         }
       }
     }
     else Some (set_color x RBTBLACK s))"

partial_function (option) ndrx_rbt_tree_minimum :: "'p rbt \<Rightarrow> 'p node \<Rightarrow> 'p node option" where
  "ndrx_rbt_tree_minimum s x = (if rb_left s x \<noteq> RBTNIL then ndrx_rbt_tree_minimum s (rb_left s x) else Some x)"

definition ndx_rbt_transplant :: "'p node \<Rightarrow> 'p node \<Rightarrow> 'p rbt \<Rightarrow> 'p rbt" where
  "ndx_rbt_transplant u v s =
    (let s1 = (case rb_parent s u of
           None \<Rightarrow> s\<lparr>rb_root := v\<rparr>
         | Some p \<Rightarrow> if u = rb_left s p then set_left p v s else set_right p v s)
     in set_parent v (rb_parent s1 u) s1)"

definition ndrx_rbt_delete_node :: "('p node \<Rightarrow> 'p rbt \<Rightarrow> 'p rbt) option \<Rightarrow> 'p rbt \<Rightarrow> 'p node \<Rightarrow> 'p rbt option" where
  "ndrx_rbt_delete_node freefunc s z = do {
     (y_original_color, x, s1) \<leftarrow>
       (if rb_left s z = RBTNIL
        then Some (rb_color s z, rb_right s z, ndx_rbt_transplant z (rb_right s z) s)
        else if rb_right s z = RBTNIL
        then Some (rb_color s z, rb_left s z, ndx_rbt_transplant z (rb_left s z) s)
        else do {
          y \<leftarrow> ndrx_rbt_tree_minimum s (rb_right s z);
          let x = rb_right s y;
          let t1 = (if rb_parent s y = Some z then set_parent x (Some y) s
            else let u1 = ndx_rbt_transplant y (rb_right s y) s;
                     u2 = set_right y (rb_right u1 z) u1
              in set_parent (rb_right u2 y) (Some y) u2);
          let t2 = ndx_rbt_transplant z y t1;
          let t3 = set_left y (rb_left t2 z) t2;
          let t4 = set_parent (rb_left t3 y) (Some y) t3;
          Some (rb_color s y, x, set_color y (rb_color t4 z) t4)
        });
     s2 \<leftarrow> (if y_original_color = RBTBLACK then ndrx_rbt_delete_fixup x s1 else Some s1);
     Some (case freefunc of Some f \<Rightarrow> f z s2 | None \<Rightarrow> s2)
   }"

definition ndrx_rbt_delete :: "('p node \<Rightarrow> 'p rbt \<Rightarrow> 'p rbt) option \<Rightarrow> 'p rbt \<Rightarrow> 'p node \<Rightarrow> 'p rbt option" where
  "ndrx_rbt_delete freefunc rbt node = ndrx_rbt_delete_node freefunc rbt node"

section \<open>Walks\<close>

text \<open>A step down to the end of a chain of children, and a step up until the side of arrival is the given one.\<close>

partial_function (option) iter_down :: "('p node \<Rightarrow> 'p node) \<Rightarrow> 'p node \<Rightarrow> 'p node option" where
  "iter_down child v = (if child v \<noteq> RBTNIL then iter_down child (child v) else Some v)"

partial_function (option) iter_up ::
  "('p node \<Rightarrow> 'p node) \<Rightarrow> ('p node \<Rightarrow> 'p node option) \<Rightarrow> 'p node \<Rightarrow> 'p node option option" where
  "iter_up child par came_from =
    (if par came_from = None then Some None
     else if child (the (par came_from)) = came_from then Some (par came_from)
     else iter_up child par (the (par came_from)))"

datatype order_control = LeftRightWalk | RightLeftWalk

record 'p rbt_iter =
  it_order :: order_control
  it_last_visited :: "'p node option"
  it_is_over :: bool

definition rbt_left_right_iterator :: "'p rbt \<Rightarrow> 'p rbt_iter \<Rightarrow> ('p node option \<times> 'p rbt_iter) option" where
  "rbt_left_right_iterator s iter =
    (case it_last_visited iter of
       None \<Rightarrow> do {
         v \<leftarrow> iter_down (rb_left s) (rb_root s);
         Some (Some v, iter\<lparr>it_last_visited := Some v\<rparr>)
       }
     | Some u \<Rightarrow>
         if rb_right s u \<noteq> RBTNIL
         then do {
           v \<leftarrow> iter_down (rb_left s) (rb_right s u);
           Some (Some v, iter\<lparr>it_last_visited := Some v\<rparr>)
         }
         else do {
           v \<leftarrow> iter_up (rb_left s) (rb_parent s) u;
           Some (v, iter\<lparr>it_last_visited := v, it_is_over := (if v = None then True else it_is_over iter)\<rparr>)
         })"

definition rbt_right_left_iterator :: "'p rbt \<Rightarrow> 'p rbt_iter \<Rightarrow> ('p node option \<times> 'p rbt_iter) option" where
  "rbt_right_left_iterator s iter =
    (case it_last_visited iter of
       None \<Rightarrow> do {
         v \<leftarrow> iter_down (rb_right s) (rb_root s);
         Some (Some v, iter\<lparr>it_last_visited := Some v\<rparr>)
       }
     | Some u \<Rightarrow>
         if rb_left s u \<noteq> RBTNIL
         then do {
           v \<leftarrow> iter_down (rb_right s) (rb_left s u);
           Some (Some v, iter\<lparr>it_last_visited := Some v\<rparr>)
         }
         else do {
           v \<leftarrow> iter_up (rb_right s) (rb_parent s) u;
           Some (v, iter\<lparr>it_last_visited := v, it_is_over := (if v = None then True else it_is_over iter)\<rparr>)
         })"

definition ndrx_rbt_begin_iterate :: "'p rbt \<Rightarrow> order_control \<Rightarrow> 'p rbt_iter" where
  "ndrx_rbt_begin_iterate rbt ctrl = \<lparr>it_order = ctrl, it_last_visited = None, it_is_over = (rb_root rbt = RBTNIL)\<rparr>"

definition ndrx_rbt_iterate :: "'p rbt \<Rightarrow> 'p rbt_iter \<Rightarrow> ('p node option \<times> 'p rbt_iter) option" where
  "ndrx_rbt_iterate s iter =
    (if it_is_over iter then Some (None, iter)
     else case it_order iter of
         LeftRightWalk \<Rightarrow> rbt_left_right_iterator s iter
       | RightLeftWalk \<Rightarrow> rbt_right_left_iterator s iter)"

text \<open>The loop of the callers: iterate until NULL.\<close>

partial_function (option) rbt_walk :: "'p rbt \<Rightarrow> 'p rbt_iter \<Rightarrow> 'p node list option" where
  "rbt_walk s iter = do {
     (v, iter1) \<leftarrow> ndrx_rbt_iterate s iter;
     if v = None then Some []
     else do {
       vs \<leftarrow> rbt_walk s iter1;
       Some (the v # vs)
     }
   }"

end
