(* ===== verification/Rbtree_Rep.thy ===== *)
theory Rbtree_Rep
  imports Rbtree "HOL-Library.Multiset"
begin

text \<open>
  Trees of node addresses that describe red-black trees in memory, contexts for a node inside a tree, and what rotations,
  colour changes and the red-black invariant are on them.
\<close>

section \<open>Trees in memory\<close>

type_synonym 'p rtree = "('p \<times> rbt_color) tree"

fun ptr :: "'p rtree \<Rightarrow> 'p node" where
  "ptr Leaf = RBTNIL"
| "ptr (Node l (p, c) r) = Nd p"

fun nodes :: "'p rtree \<Rightarrow> 'p list" where
  "nodes Leaf = []"
| "nodes (Node l (p, c) r) = nodes l @ p # nodes r"

text \<open>The fields are separate arguments, so that a write to one of them is seen as such.\<close>

fun rep :: "('p node \<Rightarrow> rbt_color) \<Rightarrow> ('p node \<Rightarrow> 'p node) \<Rightarrow> ('p node \<Rightarrow> 'p node) \<Rightarrow> ('p node \<Rightarrow> 'p node option) \<Rightarrow>
    'p node option \<Rightarrow> 'p rtree \<Rightarrow> bool" where
  "rep co le ri pa up Leaf = True"
| "rep co le ri pa up (Node l (p, c) r) = (co (Nd p) = c \<and> pa (Nd p) = up \<and> le (Nd p) = ptr l \<and> ri (Nd p) = ptr r \<and>
     rep co le ri pa (Some (Nd p)) l \<and> rep co le ri pa (Some (Nd p)) r)"

abbreviation rep_in :: "'p rbt \<Rightarrow> 'p node option \<Rightarrow> 'p rtree \<Rightarrow> bool" where
  "rep_in s \<equiv> rep (rb_color s) (rb_left s) (rb_right s) (rb_parent s)"

definition tree_ok :: "'p rbt \<Rightarrow> 'p rtree \<Rightarrow> bool" where
  "tree_ok s t \<longleftrightarrow> rep_in s None t \<and> rb_root s = ptr t \<and> distinct (nodes t) \<and> rb_color s RBTNIL = RBTBLACK"

text \<open>A node in a tree: the subtree there and the way up, with what is on the other side.\<close>

datatype 'p frame = InLeft 'p rbt_color "'p rtree" | InRight "'p rtree" 'p rbt_color

fun plug :: "'p rtree \<Rightarrow> 'p frame list \<Rightarrow> 'p rtree" where
  "plug t [] = t"
| "plug t (InLeft p c r # fs) = plug (Node t (p, c) r) fs"
| "plug t (InRight l p c # fs) = plug (Node l (p, c) t) fs"

fun par_of :: "'p frame list \<Rightarrow> 'p node option" where
  "par_of [] = None"
| "par_of (InLeft p c r # fs) = Some (Nd p)"
| "par_of (InRight l p c # fs) = Some (Nd p)"

fun repc :: "('p node \<Rightarrow> rbt_color) \<Rightarrow> ('p node \<Rightarrow> 'p node) \<Rightarrow> ('p node \<Rightarrow> 'p node) \<Rightarrow> ('p node \<Rightarrow> 'p node option) \<Rightarrow>
    'p node \<Rightarrow> 'p node \<Rightarrow> 'p frame list \<Rightarrow> bool" where
  "repc co le ri pa ro x [] = (ro = x)"
| "repc co le ri pa ro x (InLeft p c r # fs) = (co (Nd p) = c \<and> pa (Nd p) = par_of fs \<and> le (Nd p) = x \<and> ri (Nd p) = ptr r \<and>
     rep co le ri pa (Some (Nd p)) r \<and> repc co le ri pa ro (Nd p) fs)"
| "repc co le ri pa ro x (InRight l p c # fs) = (co (Nd p) = c \<and> pa (Nd p) = par_of fs \<and> ri (Nd p) = x \<and> le (Nd p) = ptr l \<and>
     rep co le ri pa (Some (Nd p)) l \<and> repc co le ri pa ro (Nd p) fs)"

abbreviation repc_in :: "'p rbt \<Rightarrow> 'p node \<Rightarrow> 'p frame list \<Rightarrow> bool" where
  "repc_in s \<equiv> repc (rb_color s) (rb_left s) (rb_right s) (rb_parent s) (rb_root s)"

fun nodesc :: "'p frame list \<Rightarrow> 'p list" where
  "nodesc [] = []"
| "nodesc (InLeft p c r # fs) = p # nodes r @ nodesc fs"
| "nodesc (InRight l p c # fs) = p # nodes l @ nodesc fs"

lemma plug_append: "plug t (fs @ gs) = plug (plug t fs) gs"
  by (induction t fs rule: plug.induct) auto

lemma nodes_plug: "mset (nodes (plug t fs)) = mset (nodes t) + mset (nodesc fs)"
  by (induction t fs rule: plug.induct) auto

lemma set_nodes_plug: "set (nodes (plug t fs)) = set (nodes t) \<union> set (nodesc fs)"
  by (metis nodes_plug set_mset_mset set_mset_union)

lemma distinct_plug: "distinct (nodes (plug t fs)) \<longleftrightarrow> distinct (nodes t @ nodesc fs)"
  by (metis mset_append mset_eq_imp_distinct_iff nodes_plug)

lemma rep_plug: "rep_in s None (plug t fs) \<and> rb_root s = ptr (plug t fs) \<longleftrightarrow> rep_in s (par_of fs) t \<and> repc_in s (ptr t) fs"
proof (induction t fs rule: plug.induct)
  case (1 t)
  then show ?case by auto
next
  case (2 t p c r fs)
  then show ?case by (auto)
next
  case (3 t l p c fs)
  then show ?case by auto
qed

lemma tree_ok_plug:
  "tree_ok s (plug t fs) \<longleftrightarrow> rep_in s (par_of fs) t \<and> repc_in s (ptr t) fs \<and> distinct (nodes t @ nodesc fs) \<and>
     rb_color s RBTNIL = RBTBLACK"
  using rep_plug[of s t fs] unfolding tree_ok_def distinct_plug by blast

text \<open>Every node has a place.\<close>

lemma node_place: "p \<in> set (nodes t) \<Longrightarrow> \<exists>l c r fs. t = plug (Node l (p, c) r) fs"
proof (induction t)
  case (Node l a r)
  obtain q c where a: "a = (q, c)" by (cases a)
  consider "p = q" | "p \<in> set (nodes l)" | "p \<in> set (nodes r)" using Node.prems a by auto
  then show ?case
  proof cases
    case 1
    then show ?thesis using a by (metis plug.simps(1))
  next
    case 2
    then obtain l' c' r' fs where "l = plug (Node l' (p, c') r') fs" using Node.IH(1) by blast
    then have "Node l a r = plug (Node l' (p, c') r') (fs @ [InLeft q c r])" by (simp add: plug_append a)
    then show ?thesis by blast
  next
    case 3
    then obtain l' c' r' fs where "r = plug (Node l' (p, c') r') fs" using Node.IH(2) by blast
    then have "Node l a r = plug (Node l' (p, c') r') (fs @ [InRight l q c])" by (simp add: plug_append a)
    then show ?thesis by blast
  qed
qed simp

section \<open>Writes elsewhere\<close>

lemma rep_set [simp]:
  "p \<notin> set (nodes t) \<Longrightarrow> rep (co(Nd p := c)) le ri pa up t = rep co le ri pa up t"
  "p \<notin> set (nodes t) \<Longrightarrow> rep co (le(Nd p := x)) ri pa up t = rep co le ri pa up t"
  "p \<notin> set (nodes t) \<Longrightarrow> rep co le (ri(Nd p := x)) pa up t = rep co le ri pa up t"
  "p \<notin> set (nodes t) \<Longrightarrow> rep co le ri (pa(Nd p := v)) up t = rep co le ri pa up t"
  "rep (co(RBTNIL := c)) le ri pa up t = rep co le ri pa up t"
  "rep co le ri (pa(RBTNIL := v)) up t = rep co le ri pa up t"
  by (induction t arbitrary: up rule: nodes.induct) auto

lemma repc_set [simp]:
  "p \<notin> set (nodesc fs) \<Longrightarrow> repc (co(Nd p := c)) le ri pa ro y fs = repc co le ri pa ro y fs"
  "p \<notin> set (nodesc fs) \<Longrightarrow> repc co (le(Nd p := x)) ri pa ro y fs = repc co le ri pa ro y fs"
  "p \<notin> set (nodesc fs) \<Longrightarrow> repc co le (ri(Nd p := x)) pa ro y fs = repc co le ri pa ro y fs"
  "p \<notin> set (nodesc fs) \<Longrightarrow> repc co le ri (pa(Nd p := v)) ro y fs = repc co le ri pa ro y fs"
  "repc (co(RBTNIL := c)) le ri pa ro y fs = repc co le ri pa ro y fs"
  "repc co le ri (pa(RBTNIL := v)) ro y fs = repc co le ri pa ro y fs"
  by (induction fs arbitrary: y rule: nodesc.induct) auto

section \<open>What a node says\<close>

fun colr :: "'p rtree \<Rightarrow> rbt_color" where
  "colr Leaf = RBTBLACK"
| "colr (Node l (p, c) r) = c"

lemma at_node:
  assumes "tree_ok s (plug (Node l (p, c) r) fs)"
  shows "rb_color s (Nd p) = c" "rb_left s (Nd p) = ptr l" "rb_right s (Nd p) = ptr r" "rb_parent s (Nd p) = par_of fs"
  using assms unfolding tree_ok_plug by auto

lemma color_ptr:
  assumes "tree_ok s (plug t fs)"
  shows "rb_color s (ptr t) = colr t"
  using assms unfolding tree_ok_plug by (cases t rule: nodes.cases) auto

lemma ptr_Nd: "ptr t = Nd p \<Longrightarrow> p \<in> set (nodes t)"
  by (cases t rule: nodes.cases) auto

lemma ptr_NIL [simp]: "ptr t = RBTNIL \<longleftrightarrow> t = Leaf"
  by (cases t rule: nodes.cases) auto

lemma children_differ:
  assumes "tree_ok s (plug (Node l (p, c) r) fs)" "l \<noteq> Leaf \<or> r \<noteq> Leaf"
  shows "ptr l \<noteq> ptr r"
proof
  assume eq: "ptr l = ptr r"
  obtain q where "ptr r = Nd q" "ptr l = Nd q" using assms(2) eq by (metis ptr_NIL node.exhaust)
  then have "q \<in> set (nodes l) \<inter> set (nodes r)" by (simp add: ptr_Nd)
  then show False using assms(1) unfolding tree_ok_plug by auto
qed

lemma nodesc_root: "repc co le ri pa ro x fs \<Longrightarrow> fs \<noteq> [] \<Longrightarrow> \<exists>p \<in> set (nodesc fs). ro = Nd p"
proof (induction fs arbitrary: x rule: nodesc.induct)
  case (2 p c r fs)
  then show ?case by (cases "fs = []") auto
next
  case (3 l p c fs)
  then show ?case by (cases "fs = []") auto
qed simp

lemma root_iff:
  assumes "tree_ok s (plug t fs)"
  shows "rb_root s = ptr t \<longleftrightarrow> fs = []"
proof (cases "fs = []")
  case False
  have r: "repc_in s (ptr t) fs" "distinct (nodes t @ nodesc fs)" using assms unfolding tree_ok_plug by auto
  obtain p where p: "p \<in> set (nodesc fs)" "rb_root s = Nd p" using nodesc_root[OF r(1) False] by blast
  have "ptr t \<noteq> Nd p" using p(1) r(2) ptr_Nd[of t p] by auto
  then show ?thesis using False p(2) by auto
qed (use assms in \<open>simp add: tree_ok_def\<close>)

section \<open>Writes inside\<close>

text \<open>Nothing changes outside of a set of nodes.\<close>

definition same_out :: "'p set \<Rightarrow> 'p rbt \<Rightarrow> 'p rbt \<Rightarrow> bool" where
  "same_out N s s' \<longleftrightarrow> (\<forall>q. q \<notin> N \<longrightarrow> rb_color s' (Nd q) = rb_color s (Nd q) \<and> rb_left s' (Nd q) = rb_left s (Nd q) \<and>
     rb_right s' (Nd q) = rb_right s (Nd q) \<and> rb_parent s' (Nd q) = rb_parent s (Nd q))"

lemma same_out_refl [simp]: "same_out N s s"
  by (simp add: same_out_def)

lemma same_out_trans [trans]: "same_out N s s' \<Longrightarrow> same_out N s' s'' \<Longrightarrow> same_out N s s''"
  by (simp add: same_out_def)

lemma same_out_mono: "same_out N s s' \<Longrightarrow> N \<subseteq> M \<Longrightarrow> same_out M s s'"
  by (auto simp: same_out_def)

lemma recolor:
  assumes "tree_ok s (plug (Node l (p, c) r) fs)"
  shows "tree_ok (set_color (Nd p) c' s) (plug (Node l (p, c') r) fs)"
    "same_out (set (nodes (plug (Node l (p, c) r) fs))) s (set_color (Nd p) c' s)"
    "rb_parent (set_color (Nd p) c' s) = rb_parent s"
  using assms unfolding tree_ok_plug by (auto simp: set_defs same_out_def set_nodes_plug)

section \<open>Rotations\<close>

definition reparent :: "'p node \<Rightarrow> 'p node option \<Rightarrow> ('p node \<Rightarrow> 'p node option) \<Rightarrow> 'p node \<Rightarrow> 'p node option" where
  "reparent x v pa = (if x \<noteq> RBTNIL then pa(x := v) else pa)"

lemma reparent_simps [simp]: "reparent RBTNIL v pa = pa" "reparent (Nd p) v pa = pa(Nd p := v)"
  by (simp_all add: reparent_def)

lemma rotate_left_eq:
  assumes "rb_right s (Nd x) = Nd y" "rb_left s (Nd y) = b" "x \<noteq> y" "b \<noteq> Nd x"
  shows "rb_parent s (Nd x) = None \<Longrightarrow> ndrx_rbt_rotate_left (Nd x) s =
      s\<lparr>rb_right := (rb_right s)(Nd x := b), rb_left := (rb_left s)(Nd y := Nd x),
        rb_parent := (reparent b (Some (Nd x)) (rb_parent s))(Nd y := None, Nd x := Some (Nd y)), rb_root := Nd y\<rparr>"
    "rb_parent s (Nd x) = Some (Nd p) \<Longrightarrow> rb_left s (Nd p) = Nd x \<Longrightarrow> ndrx_rbt_rotate_left (Nd x) s =
      s\<lparr>rb_right := (rb_right s)(Nd x := b), rb_left := (rb_left s)(Nd p := Nd y, Nd y := Nd x),
        rb_parent := (reparent b (Some (Nd x)) (rb_parent s))(Nd y := Some (Nd p), Nd x := Some (Nd y))\<rparr>"
    "rb_parent s (Nd x) = Some (Nd p) \<Longrightarrow> rb_left s (Nd p) \<noteq> Nd x \<Longrightarrow> ndrx_rbt_rotate_left (Nd x) s =
      s\<lparr>rb_right := (rb_right s)(Nd x := b, Nd p := Nd y), rb_left := (rb_left s)(Nd y := Nd x),
        rb_parent := (reparent b (Some (Nd x)) (rb_parent s))(Nd y := Some (Nd p), Nd x := Some (Nd y))\<rparr>"
  using assms by (auto simp: ndrx_rbt_rotate_left_def Let_def set_defs reparent_def)

lemma rotate_left_plug:
  assumes "tree_ok s (plug (Node a (x, c) (Node b (y, d) e)) fs)"
  shows "tree_ok (ndrx_rbt_rotate_left (Nd x) s) (plug (Node (Node a (x, c) b) (y, d) e) fs) \<and>
    rb_parent (ndrx_rbt_rotate_left (Nd x) s) RBTNIL = rb_parent s RBTNIL \<and>
    same_out (set (nodes (plug (Node a (x, c) (Node b (y, d) e)) fs))) s (ndrx_rbt_rotate_left (Nd x) s)"
    (is "?ok \<and> ?nil \<and> same_out ?N s _")
proof -
  have f: "rb_right s (Nd x) = Nd y" "rb_left s (Nd y) = ptr b" "x \<noteq> y" "ptr b \<noteq> Nd x" "rb_parent s (Nd x) = par_of fs"
    using assms unfolding tree_ok_plug by (cases b rule: nodes.cases; clarsimp)+
  have N: "?N = {x, y} \<union> set (nodes a) \<union> set (nodes b) \<union> set (nodes e) \<union> set (nodesc fs)"
    by (auto simp: set_nodes_plug)
  show ?thesis
  proof (cases fs rule: nodesc.cases)
    case 1
    then show ?thesis using assms rotate_left_eq(1)[OF f(1-4)] f(5) unfolding tree_ok_plug N
      by (cases b rule: nodes.cases; clarsimp simp: same_out_def)
  next
    case (2 p c r fs')
    then have "rb_left s (Nd p) = Nd x" using assms unfolding tree_ok_plug by simp
    then show ?thesis using assms rotate_left_eq(2)[OF f(1-4), of p] f(5) 2 unfolding tree_ok_plug N
      by (cases b rule: nodes.cases; clarsimp simp: same_out_def)
  next
    case (3 l p c fs')
    then have "rb_left s (Nd p) \<noteq> Nd x" using assms unfolding tree_ok_plug by (cases l rule: nodes.cases) auto
    then show ?thesis using assms rotate_left_eq(3)[OF f(1-4), of p] f(5) 3 unfolding tree_ok_plug N
      by (cases b rule: nodes.cases; clarsimp simp: same_out_def)
  qed
qed

section \<open>Mirror images\<close>

definition mir :: "'p rbt \<Rightarrow> 'p rbt" where
  "mir s = s\<lparr>rb_left := rb_right s, rb_right := rb_left s\<rparr>"

fun mirf :: "'p frame \<Rightarrow> 'p frame" where
  "mirf (InLeft p c r) = InRight (mirror r) p c"
| "mirf (InRight l p c) = InLeft p c (mirror l)"

lemma mir_simps [simp]:
  "rb_color (mir s) = rb_color s" "rb_left (mir s) = rb_right s" "rb_right (mir s) = rb_left s" "rb_parent (mir s) = rb_parent s"
  "rb_root (mir s) = rb_root s" "mir (mir s) = s"
  by (simp_all add: mir_def)

lemma ptr_mirror [simp]: "ptr (mirror t) = ptr t"
  by (cases t rule: nodes.cases) auto

lemma nodes_mirror [simp]: "nodes (mirror t) = rev (nodes t)"
  by (induction t rule: nodes.induct) auto

lemma rep_mirror: "rep co le ri pa up (mirror t) = rep co ri le pa up t"
  by (induction t arbitrary: up rule: nodes.induct) auto

lemma plug_mirror: "plug (mirror t) (map mirf fs) = mirror (plug t fs)"
  by (induction t fs rule: plug.induct) auto

lemma tree_ok_mirror [simp]: "tree_ok (mir s) (mirror t) = tree_ok s t"
  by (simp add: tree_ok_def rep_mirror)

lemma same_out_mir [simp]: "same_out N (mir s) (mir s') = same_out N s s'"
  by (auto simp: same_out_def)

lemma mir_set [simp]:
  "mir (set_left x v s) = set_right x v (mir s)" "mir (set_right x v s) = set_left x v (mir s)"
  "mir (set_parent x u s) = set_parent x u (mir s)" "mir (set_color x c s) = set_color x c (mir s)"
  "mir (s\<lparr>rb_root := x\<rparr>) = (mir s)\<lparr>rb_root := x\<rparr>"
  by (simp_all add: mir_def set_defs)

lemma rotate_right_mir: "ndrx_rbt_rotate_right x s = mir (ndrx_rbt_rotate_left x (mir s))"
proof -
  define y where "y = rb_left s x"
  define s1 where "s1 = set_left x (rb_right s y) s"
  define s2 where "s2 = (if rb_right s1 y \<noteq> RBTNIL then set_parent (rb_right s1 y) (Some x) s1 else s1)"
  define s3 where "s3 = (if y \<noteq> RBTNIL then set_parent y (rb_parent s2 x) s2 else s2)"
  define s4 where "s4 = (case rb_parent s3 x of
     Some p \<Rightarrow> if x = rb_right s3 p then set_right p y s3 else set_left p y s3 | None \<Rightarrow> s3\<lparr>rb_root := y\<rparr>)"
  have m1: "set_right x (rb_left (mir s) y) (mir s) = mir s1" by (simp add: s1_def)
  have m2: "(if rb_left (mir s1) y \<noteq> RBTNIL then set_parent (rb_left (mir s1) y) (Some x) (mir s1) else mir s1) = mir s2"
    by (simp add: s2_def)
  have m3: "(if y \<noteq> RBTNIL then set_parent y (rb_parent (mir s2) x) (mir s2) else mir s2) = mir s3" by (simp add: s3_def)
  have m4: "(case rb_parent (mir s3) x of
     Some p \<Rightarrow> if x = rb_left (mir s3) p then set_left p y (mir s3) else set_right p y (mir s3) | None \<Rightarrow> (mir s3)\<lparr>rb_root := y\<rparr>) = mir s4"
    by (simp add: s4_def split: option.split)
  have "ndrx_rbt_rotate_right x s = (if x \<noteq> RBTNIL then set_parent x (Some y) (set_right y x s4) else set_right y x s4)"
    unfolding ndrx_rbt_rotate_right_def y_def[symmetric] Let_def s1_def[symmetric] s2_def[symmetric] s3_def[symmetric] s4_def[symmetric] ..
  moreover have "ndrx_rbt_rotate_left x (mir s) = mir (if x \<noteq> RBTNIL then set_parent x (Some y) (set_right y x s4) else set_right y x s4)"
    unfolding ndrx_rbt_rotate_left_def mir_simps(3) y_def[symmetric] Let_def m1 m2 m3 m4 by simp
  ultimately show ?thesis by simp
qed

lemma rotate_right_plug:
  assumes "tree_ok s (plug (Node (Node a (x, c) b) (y, d) e) fs)"
  shows "tree_ok (ndrx_rbt_rotate_right (Nd y) s) (plug (Node a (x, c) (Node b (y, d) e)) fs) \<and>
    rb_parent (ndrx_rbt_rotate_right (Nd y) s) RBTNIL = rb_parent s RBTNIL \<and>
    same_out (set (nodes (plug (Node (Node a (x, c) b) (y, d) e) fs))) s (ndrx_rbt_rotate_right (Nd y) s)"
proof -
  have "tree_ok (mir s) (plug (Node (mirror e) (y, d) (Node (mirror b) (x, c) (mirror a))) (map mirf fs))"
    using assms tree_ok_mirror[of s] plug_mirror[of "Node (Node a (x, c) b) (y, d) e" fs] by simp
  from rotate_left_plug[OF this]
  have r: "tree_ok (ndrx_rbt_rotate_left (Nd y) (mir s)) (mirror (plug (Node a (x, c) (Node b (y, d) e)) fs))"
    "rb_parent (ndrx_rbt_rotate_left (Nd y) (mir s)) RBTNIL = rb_parent s RBTNIL"
    "same_out (set (nodes (mirror (plug (Node (Node a (x, c) b) (y, d) e) fs)))) (mir s) (ndrx_rbt_rotate_left (Nd y) (mir s))"
    using plug_mirror[of "Node (Node a (x, c) b) (y, d) e" fs] plug_mirror[of "Node a (x, c) (Node b (y, d) e)" fs] by simp_all
  have "tree_ok (ndrx_rbt_rotate_right (Nd y) s) (plug (Node a (x, c) (Node b (y, d) e)) fs)"
    using r(1) tree_ok_mirror[of "mir (ndrx_rbt_rotate_left (Nd y) (mir s))"] unfolding rotate_right_mir by simp
  moreover have "same_out (set (nodes (plug (Node (Node a (x, c) b) (y, d) e) fs))) s (ndrx_rbt_rotate_right (Nd y) s)"
    using r(3) same_out_mir[of _ "mir s" "ndrx_rbt_rotate_left (Nd y) (mir s)"] unfolding rotate_right_mir by simp
  ultimately show ?thesis using r(2) by (simp add: rotate_right_mir)
qed

section \<open>Balance\<close>

fun bh :: "'p rtree \<Rightarrow> nat" where
  "bh Leaf = 0"
| "bh (Node l (p, c) r) = (if c = RBTBLACK then bh l + 1 else bh l)"

fun invh :: "'p rtree \<Rightarrow> bool" where
  "invh Leaf = True"
| "invh (Node l (p, c) r) = (bh l = bh r \<and> invh l \<and> invh r)"

fun invc :: "'p rtree \<Rightarrow> bool" where
  "invc Leaf = True"
| "invc (Node l (p, c) r) = (invc l \<and> invc r \<and> (c = RBTRED \<longrightarrow> colr l = RBTBLACK \<and> colr r = RBTBLACK))"

definition balanced :: "'p rtree \<Rightarrow> bool" where
  "balanced t \<longleftrightarrow> invh t \<and> invc t \<and> colr t = RBTBLACK"

text \<open>A way up that fits a subtree of a black height and colour.\<close>

fun okc :: "nat \<Rightarrow> rbt_color \<Rightarrow> 'p frame list \<Rightarrow> bool" where
  "okc h c [] = (c = RBTBLACK)"
| "okc h c (InLeft p d r # fs) = (bh r = h \<and> invh r \<and> invc r \<and> (d = RBTRED \<longrightarrow> c = RBTBLACK \<and> colr r = RBTBLACK) \<and>
     okc (if d = RBTBLACK then h + 1 else h) d fs)"
| "okc h c (InRight l p d # fs) = (bh l = h \<and> invh l \<and> invc l \<and> (d = RBTRED \<longrightarrow> c = RBTBLACK \<and> colr l = RBTBLACK) \<and>
     okc (if d = RBTBLACK then h + 1 else h) d fs)"

lemma balanced_plug: "balanced (plug t fs) \<longleftrightarrow> invh t \<and> invc t \<and> okc (bh t) (colr t) fs"
  by (induction t fs rule: plug.induct) (auto simp: balanced_def)

lemma okc_black: "okc h c fs \<Longrightarrow> okc h RBTBLACK fs"
  by (cases fs rule: nodesc.cases) auto

lemma nodes_plug_cong: "nodes t = nodes t' \<Longrightarrow> nodes (plug t fs) = nodes (plug t' fs)"
proof (induction t fs arbitrary: t' rule: plug.induct)
  case (2 t p c r fs)
  then show ?case using "2.IH"[of "Node t' (p, c) r"] by simp
next
  case (3 t l p c fs)
  then show ?case using "3.IH"[of "Node l (p, c) t'"] by simp
qed simp

end
