(* ===== verification/Rbtree_Insert.thy ===== *)
theory Rbtree_Insert
  imports Rbtree_Rep
begin

text \<open>
  Insertion into a red-black tree: the loop that repairs the colours ends and gives a balanced tree with
  the same nodes in the same order; the search for the place finds the node with the key or the leaf
  where it belongs.
\<close>

section \<open>Repairing the colours\<close>

lemma root_black:
  assumes "tree_ok s (plug (Node l (x, c) r) fs)" "invh (Node l (x, c) r)" "invc (Node l (x, c) r)"
    "fs = [] \<or> okc (bh (Node l (x, c) r)) c fs"
  shows "\<exists>T. tree_ok (set_color (rb_root s) RBTBLACK s) T \<and> balanced T \<and> nodes T = nodes (plug (Node l (x, c) r) fs) \<and>
    same_out (set (nodes T)) s (set_color (rb_root s) RBTBLACK s)"
proof (cases "fs = []")
  case True
  have ok: "tree_ok s (plug (Node l (x, c) r) [])" using assms(1) True by simp
  have "rb_root s = Nd x" using ok by (simp add: tree_ok_def)
  moreover have "balanced (Node l (x, RBTBLACK) r)" using assms(2,3) by (simp add: balanced_def)
  ultimately show ?thesis using recolor(1,2)[OF ok, of RBTBLACK] True by (intro exI[of _ "Node l (x, RBTBLACK) r"]) auto
next
  case False
  have b: "balanced (plug (Node l (x, c) r) fs)" using assms(2-4) False by (simp add: balanced_plug)
  have "rb_color s (rb_root s) = RBTBLACK"
    using b color_ptr[of s "plug (Node l (x, c) r) fs" "[]"] assms(1) by (simp add: balanced_def tree_ok_def)
  then have "set_color (rb_root s) RBTBLACK s = s" by (simp add: set_color_def fun_upd_idem)
  then show ?thesis using b assms(1) by (intro exI[of _ "plug (Node l (x, c) r) fs"]) simp
qed

text \<open>One round for a parent that is a left child.\<close>

lemma red_uncle:
  assumes "tree_ok s (plug (Node u (p, RBTRED) v) (InLeft g gc (Node a (y, RBTRED) b) # fs))"
  shows "tree_ok (set_color (Nd g) RBTRED (set_color (Nd y) RBTBLACK (set_color (Nd p) RBTBLACK s)))
      (plug (Node (Node u (p, RBTBLACK) v) (g, RBTRED) (Node a (y, RBTBLACK) b)) fs)"
    "same_out (set (nodes (plug (Node u (p, RBTRED) v) (InLeft g gc (Node a (y, RBTRED) b) # fs)))) s
      (set_color (Nd g) RBTRED (set_color (Nd y) RBTBLACK (set_color (Nd p) RBTBLACK s)))"
proof -
  note r1 = recolor[OF assms, of RBTBLACK]
  have "tree_ok (set_color (Nd p) RBTBLACK s) (plug (Node a (y, RBTRED) b) (InRight (Node u (p, RBTBLACK) v) g gc # fs))"
    using r1(1) by simp
  note r2 = recolor[OF this, of RBTBLACK]
  have "tree_ok (set_color (Nd y) RBTBLACK (set_color (Nd p) RBTBLACK s)) (plug (Node (Node u (p, RBTBLACK) v) (g, gc) (Node a (y, RBTBLACK) b)) fs)"
    using r2(1) by simp
  note r3 = recolor[OF this, of RBTRED]
  show "tree_ok (set_color (Nd g) RBTRED (set_color (Nd y) RBTBLACK (set_color (Nd p) RBTBLACK s)))
      (plug (Node (Node u (p, RBTBLACK) v) (g, RBTRED) (Node a (y, RBTBLACK) b)) fs)" by (rule r3(1))
  show "same_out (set (nodes (plug (Node u (p, RBTRED) v) (InLeft g gc (Node a (y, RBTRED) b) # fs)))) s
      (set_color (Nd g) RBTRED (set_color (Nd y) RBTBLACK (set_color (Nd p) RBTBLACK s)))"
    using same_out_trans[OF same_out_trans[OF r1(2) r2(2)[THEN same_out_mono]] r3(2)[THEN same_out_mono]]
    by (simp add: set_nodes_plug)
qed

lemma black_uncle:
  assumes "tree_ok s (plug (Node (Node (Node a (x, RBTRED) b) (p, RBTRED) d) (g, RBTBLACK) y) fs)"
  shows "rb_parent s (Nd x) = Some (Nd p)" "rb_parent (set_color (Nd p) RBTBLACK s) (Nd p) = Some (Nd g)"
    "tree_ok (ndrx_rbt_rotate_right (Nd g) (set_color (Nd g) RBTRED (set_color (Nd p) RBTBLACK s)))
      (plug (Node (Node a (x, RBTRED) b) (p, RBTBLACK) (Node d (g, RBTRED) y)) fs)"
    "same_out (set (nodes (plug (Node (Node (Node a (x, RBTRED) b) (p, RBTRED) d) (g, RBTBLACK) y) fs))) s
      (ndrx_rbt_rotate_right (Nd g) (set_color (Nd g) RBTRED (set_color (Nd p) RBTBLACK s)))"
proof -
  have xp: "tree_ok s (plug (Node a (x, RBTRED) b) (InLeft p RBTRED d # InLeft g RBTBLACK y # fs))"
    and pp: "tree_ok s (plug (Node (Node a (x, RBTRED) b) (p, RBTRED) d) (InLeft g RBTBLACK y # fs))" using assms by simp_all
  show "rb_parent s (Nd x) = Some (Nd p)" using at_node(4)[OF xp] by simp
  show "rb_parent (set_color (Nd p) RBTBLACK s) (Nd p) = Some (Nd g)" using at_node(4)[OF pp] by (simp add: set_color_def)
  note r1 = recolor[OF pp, of RBTBLACK]
  have "tree_ok (set_color (Nd p) RBTBLACK s) (plug (Node (Node (Node a (x, RBTRED) b) (p, RBTBLACK) d) (g, RBTBLACK) y) fs)"
    using r1(1) by simp
  note r2 = recolor[OF this, of RBTRED]
  note r3 = rotate_right_plug[OF r2(1)]
  show "tree_ok (ndrx_rbt_rotate_right (Nd g) (set_color (Nd g) RBTRED (set_color (Nd p) RBTBLACK s)))
      (plug (Node (Node a (x, RBTRED) b) (p, RBTBLACK) (Node d (g, RBTRED) y)) fs)" using r3 by blast
  show "same_out (set (nodes (plug (Node (Node (Node a (x, RBTRED) b) (p, RBTRED) d) (g, RBTBLACK) y) fs))) s
      (ndrx_rbt_rotate_right (Nd g) (set_color (Nd g) RBTRED (set_color (Nd p) RBTBLACK s)))"
    using same_out_trans[OF same_out_trans[OF r1(2) r2(2)[THEN same_out_mono]] conjunct2[OF conjunct2[OF r3], THEN same_out_mono]]
    by (simp add: set_nodes_plug)
qed

text \<open>The same for a right child.\<close>

lemma rotate_left_mir: "ndrx_rbt_rotate_left x s = mir (ndrx_rbt_rotate_right x (mir s))"
  by (simp add: rotate_right_mir)

lemma mirror_plug_ok: "tree_ok (mir s) (plug (mirror t) (map mirf fs)) = tree_ok s (plug t fs)"
  by (simp add: plug_mirror)

lemma nodesc_mirf [simp]: "set (nodesc (map mirf fs)) = set (nodesc fs)"
  by (induction fs rule: nodesc.induct) auto

lemma same_out_mirD: "same_out N (mir s) s' \<Longrightarrow> s' = mir s'' \<Longrightarrow> same_out N s s''"
  by simp

lemma red_uncle_right:
  assumes "tree_ok s (plug (Node u (p, RBTRED) v) (InRight (Node a (y, RBTRED) b) g gc # fs))"
  shows "tree_ok (set_color (Nd g) RBTRED (set_color (Nd y) RBTBLACK (set_color (Nd p) RBTBLACK s)))
      (plug (Node (Node a (y, RBTBLACK) b) (g, RBTRED) (Node u (p, RBTBLACK) v)) fs)"
    "same_out (set (nodes (plug (Node u (p, RBTRED) v) (InRight (Node a (y, RBTRED) b) g gc # fs)))) s
      (set_color (Nd g) RBTRED (set_color (Nd y) RBTBLACK (set_color (Nd p) RBTBLACK s)))"
proof -
  let ?s = "set_color (Nd g) RBTRED (set_color (Nd y) RBTBLACK (set_color (Nd p) RBTBLACK s))"
  have "tree_ok (mir s) (plug (Node (mirror v) (p, RBTRED) (mirror u)) (InLeft g gc (Node (mirror b) (y, RBTRED) (mirror a)) # map mirf fs))"
    using assms mirror_plug_ok[of s "Node u (p, RBTRED) v" "InRight (Node a (y, RBTRED) b) g gc # fs"] by simp
  note r = red_uncle[OF this]
  show "tree_ok ?s (plug (Node (Node a (y, RBTBLACK) b) (g, RBTRED) (Node u (p, RBTBLACK) v)) fs)"
    using r(1) mirror_plug_ok[of ?s "Node (Node a (y, RBTBLACK) b) (g, RBTRED) (Node u (p, RBTBLACK) v)" fs] by simp
  show "same_out (set (nodes (plug (Node u (p, RBTRED) v) (InRight (Node a (y, RBTRED) b) g gc # fs)))) s ?s"
    by (rule same_out_mono[OF same_out_mirD[OF r(2)]]) (auto simp: set_nodes_plug)
qed

lemma black_uncle_right:
  assumes "tree_ok s (plug (Node y (g, RBTBLACK) (Node d (p, RBTRED) (Node a (x, RBTRED) b))) fs)"
  shows "rb_parent s (Nd x) = Some (Nd p)" "rb_parent (set_color (Nd p) RBTBLACK s) (Nd p) = Some (Nd g)"
    "tree_ok (ndrx_rbt_rotate_left (Nd g) (set_color (Nd g) RBTRED (set_color (Nd p) RBTBLACK s)))
      (plug (Node (Node y (g, RBTRED) d) (p, RBTBLACK) (Node a (x, RBTRED) b)) fs)"
    "same_out (set (nodes (plug (Node y (g, RBTBLACK) (Node d (p, RBTRED) (Node a (x, RBTRED) b))) fs))) s
      (ndrx_rbt_rotate_left (Nd g) (set_color (Nd g) RBTRED (set_color (Nd p) RBTBLACK s)))"
proof -
  let ?s = "ndrx_rbt_rotate_left (Nd g) (set_color (Nd g) RBTRED (set_color (Nd p) RBTBLACK s))"
  have "tree_ok (mir s) (plug (Node (Node (Node (mirror b) (x, RBTRED) (mirror a)) (p, RBTRED) (mirror d)) (g, RBTBLACK) (mirror y)) (map mirf fs))"
    using assms mirror_plug_ok[of s "Node y (g, RBTBLACK) (Node d (p, RBTRED) (Node a (x, RBTRED) b))" fs] by simp
  note r = black_uncle[OF this]
  have m: "ndrx_rbt_rotate_right (Nd g) (set_color (Nd g) RBTRED (set_color (Nd p) RBTBLACK (mir s))) = mir ?s"
    by (simp add: rotate_left_mir)
  show "rb_parent s (Nd x) = Some (Nd p)" using r(1) by simp
  show "rb_parent (set_color (Nd p) RBTBLACK s) (Nd p) = Some (Nd g)" using r(2) by (simp add: set_color_def)
  show "tree_ok ?s (plug (Node (Node y (g, RBTRED) d) (p, RBTBLACK) (Node a (x, RBTRED) b)) fs)"
    using r(3) mirror_plug_ok[of ?s "Node (Node y (g, RBTRED) d) (p, RBTBLACK) (Node a (x, RBTRED) b)" fs] unfolding m by simp
  show "same_out (set (nodes (plug (Node y (g, RBTBLACK) (Node d (p, RBTRED) (Node a (x, RBTRED) b))) fs))) s ?s"
    by (rule same_out_mono[OF same_out_mirD[OF r(4)]]) (auto simp: set_nodes_plug m)
qed

lemma fixup_stop:
  assumes "tree_ok s (plug (Node l (x, c) r) fs)" "fs = [] \<or> (\<exists>p. par_of fs = Some p \<and> rb_color s p = RBTBLACK)"
  shows "ndrx_rbt_insert_fixup (Nd x) s = Some (set_color (rb_root s) RBTBLACK s)"
  using assms root_iff[OF assms(1)] at_node(4)[OF assms(1)] by (subst ndrx_rbt_insert_fixup.simps) auto

definition repaired :: "'p rbt \<Rightarrow> 'p list \<Rightarrow> 'p rbt \<Rightarrow> bool" where
  "repaired s N s' \<longleftrightarrow> (\<exists>T. tree_ok s' T \<and> balanced T \<and> nodes T = N \<and> same_out (set N) s s')"

lemma repaired_trans: "same_out (set N) s s' \<Longrightarrow> repaired s' N s'' \<Longrightarrow> repaired s N s''"
  unfolding repaired_def by (blast intro: same_out_trans)

lemma fixup_stop_repaired:
  assumes "tree_ok s (plug (Node l (x, c) r) fs)" "invh (Node l (x, c) r)" "invc (Node l (x, c) r)"
    "fs = [] \<or> okc (bh (Node l (x, c) r)) c fs \<and> (\<exists>p. par_of fs = Some p \<and> rb_color s p = RBTBLACK)"
  shows "\<exists>s'. ndrx_rbt_insert_fixup (Nd x) s = Some s' \<and> repaired s (nodes (plug (Node l (x, c) r) fs)) s'"
proof -
  have "fs = [] \<or> okc (bh (Node l (x, c) r)) c fs" "fs = [] \<or> (\<exists>p. par_of fs = Some p \<and> rb_color s p = RBTBLACK)" using assms(4) by auto
  then show ?thesis using root_black[OF assms(1-3)] fixup_stop[OF assms(1)] unfolding repaired_def by metis
qed

text \<open>The uncle is black and the node an outer grandchild.\<close>

lemma finish_left:
  assumes ok: "tree_ok s (plug (Node (Node (Node a (x, RBTRED) b) (p, RBTRED) d) (g, RBTBLACK) y) fs)"
    and h: "bh a = bh y" "bh b = bh y" "bh d = bh y" "invh a" "invh b" "invh d" "invh y" "okc (bh y + 1) RBTBLACK fs"
    and c: "invc a" "invc b" "invc d" "invc y" "colr a = RBTBLACK" "colr b = RBTBLACK" "colr d = RBTBLACK" "colr y = RBTBLACK"
  shows "\<exists>s'. do {
      p1 \<leftarrow> rb_parent s (Nd x);
      let s2 = set_color p1 RBTBLACK s;
      g1 \<leftarrow> rb_parent s2 p1;
      let s3 = set_color g1 RBTRED s2;
      ndrx_rbt_insert_fixup (Nd x) (ndrx_rbt_rotate_right g1 s3)
    } = Some s' \<and> repaired s (nodes (plug (Node (Node (Node a (x, RBTRED) b) (p, RBTRED) d) (g, RBTBLACK) y) fs)) s'"
proof -
  let ?s = "ndrx_rbt_rotate_right (Nd g) (set_color (Nd g) RBTRED (set_color (Nd p) RBTBLACK s))"
  let ?fs = "InLeft p RBTBLACK (Node d (g, RBTRED) y) # fs"
  note u = black_uncle[OF ok]
  have t: "tree_ok ?s (plug (Node a (x, RBTRED) b) ?fs)" using u(3) by simp
  have pb: "rb_color ?s (Nd p) = RBTBLACK" using at_node(1)[OF u(3)] .
  obtain s' where s': "ndrx_rbt_insert_fixup (Nd x) ?s = Some s'" "repaired ?s (nodes (plug (Node a (x, RBTRED) b) ?fs)) s'"
    using fixup_stop_repaired[OF t] h c pb by auto
  have "nodes (plug (Node a (x, RBTRED) b) ?fs) = nodes (plug (Node (Node (Node a (x, RBTRED) b) (p, RBTRED) d) (g, RBTBLACK) y) fs)"
    by (auto intro: nodes_plug_cong)
  then show ?thesis using s' repaired_trans[OF u(4)] u(1,2) by (simp add: Let_def)
qed

lemma finish_right:
  assumes ok: "tree_ok s (plug (Node y (g, RBTBLACK) (Node d (p, RBTRED) (Node a (x, RBTRED) b))) fs)"
    and h: "bh a = bh y" "bh b = bh y" "bh d = bh y" "invh a" "invh b" "invh d" "invh y" "okc (bh y + 1) RBTBLACK fs"
    and c: "invc a" "invc b" "invc d" "invc y" "colr a = RBTBLACK" "colr b = RBTBLACK" "colr d = RBTBLACK" "colr y = RBTBLACK"
  shows "\<exists>s'. do {
      p1 \<leftarrow> rb_parent s (Nd x);
      let s2 = set_color p1 RBTBLACK s;
      g1 \<leftarrow> rb_parent s2 p1;
      let s3 = set_color g1 RBTRED s2;
      ndrx_rbt_insert_fixup (Nd x) (ndrx_rbt_rotate_left g1 s3)
    } = Some s' \<and> repaired s (nodes (plug (Node y (g, RBTBLACK) (Node d (p, RBTRED) (Node a (x, RBTRED) b))) fs)) s'"
proof -
  let ?s = "ndrx_rbt_rotate_left (Nd g) (set_color (Nd g) RBTRED (set_color (Nd p) RBTBLACK s))"
  let ?fs = "InRight (Node y (g, RBTRED) d) p RBTBLACK # fs"
  note u = black_uncle_right[OF ok]
  have t: "tree_ok ?s (plug (Node a (x, RBTRED) b) ?fs)" using u(3) by simp
  have pb: "rb_color ?s (Nd p) = RBTBLACK" using at_node(1)[OF u(3)] .
  obtain s' where s': "ndrx_rbt_insert_fixup (Nd x) ?s = Some s'" "repaired ?s (nodes (plug (Node a (x, RBTRED) b) ?fs)) s'"
    using fixup_stop_repaired[OF t] h c pb by auto
  have "nodes (plug (Node a (x, RBTRED) b) ?fs) = nodes (plug (Node y (g, RBTBLACK) (Node d (p, RBTRED) (Node a (x, RBTRED) b))) fs)"
    by (auto intro: nodes_plug_cong)
  then show ?thesis using s' repaired_trans[OF u(4)] u(1,2) by (simp add: Let_def)
qed

text \<open>A round of the loop for a parent that is a left child.\<close>

lemma fixup_red_left:
  assumes ok: "tree_ok s (plug (Node u (p, RBTRED) v) (InLeft g gc (Node a (y, RBTRED) b) # fs))"
    and x: "rb_parent s x = Some (Nd p)" "x \<noteq> rb_root s"
  shows "ndrx_rbt_insert_fixup x s =
    ndrx_rbt_insert_fixup (Nd g) (set_color (Nd g) RBTRED (set_color (Nd y) RBTBLACK (set_color (Nd p) RBTBLACK s)))"
proof -
  have "tree_ok s (plug (Node (Node u (p, RBTRED) v) (g, gc) (Node a (y, RBTRED) b)) fs)"
    "tree_ok s (plug (Node a (y, RBTRED) b) (InRight (Node u (p, RBTRED) v) g gc # fs))" using ok by simp_all
  note n = at_node[OF ok] at_node[OF this(1)] at_node[OF this(2)]
  show ?thesis using x n by (subst ndrx_rbt_insert_fixup.simps) (simp add: Let_def)
qed

lemma fixup_black_left:
  assumes ok: "tree_ok s (plug (Node u (p, RBTRED) v) (InLeft g gc y # fs))" "colr y = RBTBLACK"
    and x: "rb_parent s x = Some (Nd p)" "x \<noteq> rb_root s"
  shows "ndrx_rbt_insert_fixup x s =
    (let inner = (x = ptr v); x1 = (if inner then Nd p else x); s1 = (if inner then ndrx_rbt_rotate_left x1 s else s) in do {
      p1 \<leftarrow> rb_parent s1 x1;
      let s2 = set_color p1 RBTBLACK s1;
      g1 \<leftarrow> rb_parent s2 p1;
      let s3 = set_color g1 RBTRED s2;
      ndrx_rbt_insert_fixup x1 (ndrx_rbt_rotate_right g1 s3)
    })"
proof -
  have "tree_ok s (plug (Node (Node u (p, RBTRED) v) (g, gc) y) fs)" "tree_ok s (plug y (InRight (Node u (p, RBTRED) v) g gc # fs))"
    using ok by simp_all
  note n = at_node[OF ok(1)] at_node[OF this(1)] color_ptr[OF this(2)]
  show ?thesis using x n ok(2) by (subst ndrx_rbt_insert_fixup.simps) simp
qed

text \<open>And for a right child.\<close>

lemma fixup_red_right:
  assumes ok: "tree_ok s (plug (Node u (p, RBTRED) v) (InRight (Node a (y, RBTRED) b) g gc # fs))"
    and x: "rb_parent s x = Some (Nd p)" "x \<noteq> rb_root s"
  shows "ndrx_rbt_insert_fixup x s =
    ndrx_rbt_insert_fixup (Nd g) (set_color (Nd g) RBTRED (set_color (Nd y) RBTBLACK (set_color (Nd p) RBTBLACK s)))"
proof -
  have g: "tree_ok s (plug (Node (Node a (y, RBTRED) b) (g, gc) (Node u (p, RBTRED) v)) fs)"
    and y: "tree_ok s (plug (Node a (y, RBTRED) b) (InLeft g gc (Node u (p, RBTRED) v) # fs))" using ok by simp_all
  note n = at_node[OF ok] at_node[OF g] at_node[OF y] children_differ[OF g]
  show ?thesis using x n by (subst ndrx_rbt_insert_fixup.simps) (simp add: Let_def)
qed

lemma fixup_black_right:
  assumes ok: "tree_ok s (plug (Node u (p, RBTRED) v) (InRight y g gc # fs))" "colr y = RBTBLACK"
    and x: "rb_parent s x = Some (Nd p)" "x \<noteq> rb_root s"
  shows "ndrx_rbt_insert_fixup x s =
    (let inner = (x = ptr u); x1 = (if inner then Nd p else x); s1 = (if inner then ndrx_rbt_rotate_right x1 s else s) in do {
      p1 \<leftarrow> rb_parent s1 x1;
      let s2 = set_color p1 RBTBLACK s1;
      g1 \<leftarrow> rb_parent s2 p1;
      let s3 = set_color g1 RBTRED s2;
      ndrx_rbt_insert_fixup x1 (ndrx_rbt_rotate_left g1 s3)
    })"
proof -
  have g: "tree_ok s (plug (Node y (g, gc) (Node u (p, RBTRED) v)) fs)" and y: "tree_ok s (plug y (InLeft g gc (Node u (p, RBTRED) v) # fs))"
    using ok by simp_all
  have "ptr y \<noteq> Nd p" using children_differ[OF g] by simp
  then show ?thesis using x at_node[OF ok(1)] at_node[OF g] color_ptr[OF y] ok(2)
    by (subst ndrx_rbt_insert_fixup.simps) simp
qed

text \<open>The four positions of a red node below a red parent and a black uncle.\<close>

lemma fixup_left_left:
  assumes ok: "tree_ok s (plug (Node (Node (Node l (x, RBTRED) r) (p, RBTRED) d) (g, RBTBLACK) y) fs)"
    and i: "invh (Node l (x, RBTRED) r)" "invc (Node l (x, RBTRED) r)" "okc (bh l) RBTBLACK (InLeft p RBTRED d # InLeft g RBTBLACK y # fs)"
      "colr y = RBTBLACK"
  shows "\<exists>s'. ndrx_rbt_insert_fixup (Nd x) s = Some s' \<and>
    repaired s (nodes (plug (Node (Node (Node l (x, RBTRED) r) (p, RBTRED) d) (g, RBTBLACK) y) fs)) s'"
proof -
  have px: "tree_ok s (plug (Node (Node l (x, RBTRED) r) (p, RBTRED) d) (InLeft g RBTBLACK y # fs))"
    and xx: "tree_ok s (plug (Node l (x, RBTRED) r) (InLeft p RBTRED d # InLeft g RBTBLACK y # fs))" using ok by simp_all
  have "Nd x \<noteq> ptr d" using children_differ[OF px] by simp
  moreover have "Nd x \<noteq> rb_root s" using root_iff[OF xx] by auto
  moreover have "rb_parent s (Nd x) = Some (Nd p)" using at_node(4)[OF xx] by simp
  moreover have "bh l = bh y" "bh r = bh y" "bh d = bh y" "invh l" "invh r" "invh d" "invh y" "okc (bh y + 1) RBTBLACK fs"
    "invc l" "invc r" "invc d" "invc y" "colr l = RBTBLACK" "colr r = RBTBLACK" "colr d = RBTBLACK" using i by auto
  ultimately show ?thesis using finish_left[OF ok] i(4) fixup_black_left[OF px, of "Nd x"] by simp
qed

lemma fixup_right_right:
  assumes ok: "tree_ok s (plug (Node y (g, RBTBLACK) (Node d (p, RBTRED) (Node l (x, RBTRED) r))) fs)"
    and i: "invh (Node l (x, RBTRED) r)" "invc (Node l (x, RBTRED) r)" "okc (bh l) RBTBLACK (InRight d p RBTRED # InRight y g RBTBLACK # fs)"
      "colr y = RBTBLACK"
  shows "\<exists>s'. ndrx_rbt_insert_fixup (Nd x) s = Some s' \<and>
    repaired s (nodes (plug (Node y (g, RBTBLACK) (Node d (p, RBTRED) (Node l (x, RBTRED) r))) fs)) s'"
proof -
  have px: "tree_ok s (plug (Node d (p, RBTRED) (Node l (x, RBTRED) r)) (InRight y g RBTBLACK # fs))"
    and xx: "tree_ok s (plug (Node l (x, RBTRED) r) (InRight d p RBTRED # InRight y g RBTBLACK # fs))" using ok by simp_all
  have "Nd x \<noteq> ptr d" using children_differ[OF px] by simp
  moreover have "Nd x \<noteq> rb_root s" using root_iff[OF xx] by auto
  moreover have "rb_parent s (Nd x) = Some (Nd p)" using at_node(4)[OF xx] by simp
  moreover have "bh l = bh y" "bh r = bh y" "bh d = bh y" "invh l" "invh r" "invh d" "invh y" "okc (bh y + 1) RBTBLACK fs"
    "invc l" "invc r" "invc d" "invc y" "colr l = RBTBLACK" "colr r = RBTBLACK" "colr d = RBTBLACK" using i by auto
  ultimately show ?thesis using finish_right[OF ok] i(4) fixup_black_right[OF px, of "Nd x"] by simp
qed

lemma fixup_left_right:
  assumes ok: "tree_ok s (plug (Node (Node d (p, RBTRED) (Node l (x, RBTRED) r)) (g, RBTBLACK) y) fs)"
    and i: "invh (Node l (x, RBTRED) r)" "invc (Node l (x, RBTRED) r)" "okc (bh l) RBTBLACK (InRight d p RBTRED # InLeft g RBTBLACK y # fs)"
      "colr y = RBTBLACK"
  shows "\<exists>s'. ndrx_rbt_insert_fixup (Nd x) s = Some s' \<and>
    repaired s (nodes (plug (Node (Node d (p, RBTRED) (Node l (x, RBTRED) r)) (g, RBTBLACK) y) fs)) s'"
proof -
  have px: "tree_ok s (plug (Node d (p, RBTRED) (Node l (x, RBTRED) r)) (InLeft g RBTBLACK y # fs))"
    and xx: "tree_ok s (plug (Node l (x, RBTRED) r) (InRight d p RBTRED # InLeft g RBTBLACK y # fs))" using ok by simp_all
  note rot = rotate_left_plug[OF px]
  have t: "tree_ok (ndrx_rbt_rotate_left (Nd p) s) (plug (Node (Node (Node d (p, RBTRED) l) (x, RBTRED) r) (g, RBTBLACK) y) fs)"
    using rot by simp
  have N: "nodes (plug (Node (Node (Node d (p, RBTRED) l) (x, RBTRED) r) (g, RBTBLACK) y) fs) =
      nodes (plug (Node (Node d (p, RBTRED) (Node l (x, RBTRED) r)) (g, RBTBLACK) y) fs)" by (rule nodes_plug_cong) simp
  have "Nd x \<noteq> rb_root s" using root_iff[OF xx] by auto
  moreover have "rb_parent s (Nd x) = Some (Nd p)" using at_node(4)[OF xx] by simp
  moreover have "bh l = bh y" "bh r = bh y" "bh d = bh y" "invh l" "invh r" "invh d" "invh y" "okc (bh y + 1) RBTBLACK fs"
    "invc l" "invc r" "invc d" "invc y" "colr l = RBTBLACK" "colr r = RBTBLACK" "colr d = RBTBLACK" using i by auto
  ultimately show ?thesis
    using finish_left[OF t] i(4) fixup_black_left[OF px, of "Nd x"] repaired_trans[OF rot[THEN conjunct2, THEN conjunct2]] N by auto
qed

lemma fixup_right_left:
  assumes ok: "tree_ok s (plug (Node y (g, RBTBLACK) (Node (Node l (x, RBTRED) r) (p, RBTRED) d)) fs)"
    and i: "invh (Node l (x, RBTRED) r)" "invc (Node l (x, RBTRED) r)" "okc (bh l) RBTBLACK (InLeft p RBTRED d # InRight y g RBTBLACK # fs)"
      "colr y = RBTBLACK"
  shows "\<exists>s'. ndrx_rbt_insert_fixup (Nd x) s = Some s' \<and>
    repaired s (nodes (plug (Node y (g, RBTBLACK) (Node (Node l (x, RBTRED) r) (p, RBTRED) d)) fs)) s'"
proof -
  have px: "tree_ok s (plug (Node (Node l (x, RBTRED) r) (p, RBTRED) d) (InRight y g RBTBLACK # fs))"
    and xx: "tree_ok s (plug (Node l (x, RBTRED) r) (InLeft p RBTRED d # InRight y g RBTBLACK # fs))" using ok by simp_all
  note rot = rotate_right_plug[OF px]
  have t: "tree_ok (ndrx_rbt_rotate_right (Nd p) s) (plug (Node y (g, RBTBLACK) (Node l (x, RBTRED) (Node r (p, RBTRED) d))) fs)"
    using rot by simp
  have N: "nodes (plug (Node y (g, RBTBLACK) (Node l (x, RBTRED) (Node r (p, RBTRED) d))) fs) =
      nodes (plug (Node y (g, RBTBLACK) (Node (Node l (x, RBTRED) r) (p, RBTRED) d)) fs)" by (rule nodes_plug_cong) simp
  have "Nd x \<noteq> rb_root s" using root_iff[OF xx] by auto
  moreover have "rb_parent s (Nd x) = Some (Nd p)" using at_node(4)[OF xx] by simp
  moreover have "bh l = bh y" "bh r = bh y" "bh d = bh y" "invh l" "invh r" "invh d" "invh y" "okc (bh y + 1) RBTBLACK fs"
    "invc l" "invc r" "invc d" "invc y" "colr l = RBTBLACK" "colr r = RBTBLACK" "colr d = RBTBLACK" using i by auto
  ultimately show ?thesis
    using finish_right[OF t] i(4) fixup_black_right[OF px, of "Nd x"] repaired_trans[OF rot[THEN conjunct2, THEN conjunct2]] N by auto
qed

text \<open>With a red uncle the problem moves up by two.\<close>

lemma fixup_red:
  assumes x: "rb_parent s x = Some (Nd p)" "x \<noteq> rb_root s" and i: "bh u = bh v" "invh u" "invh v" "invc u" "invc v"
    and y: "bh y = bh u" "invh y" "invc y" "colr y = RBTRED" and fs: "okc (bh u + 1) RBTBLACK fs"
    and ok: "F = InLeft g RBTBLACK y \<or> F = InRight y g RBTBLACK" "tree_ok s (plug (Node u (p, RBTRED) v) (F # fs))"
  shows "\<exists>s1 l r. ndrx_rbt_insert_fixup x s = ndrx_rbt_insert_fixup (Nd g) s1 \<and>
    same_out (set (nodes (plug (Node u (p, RBTRED) v) (F # fs)))) s s1 \<and>
    tree_ok s1 (plug (Node l (g, RBTRED) r) fs) \<and> nodes (plug (Node l (g, RBTRED) r) fs) = nodes (plug (Node u (p, RBTRED) v) (F # fs)) \<and>
    invh (Node l (g, RBTRED) r) \<and> invc (Node l (g, RBTRED) r) \<and> okc (bh l) RBTBLACK fs"
proof -
  obtain a yy b where yy: "y = Node a (yy, RBTRED) b" using y(4) by (cases y rule: nodes.cases) auto
  let ?s = "set_color (Nd g) RBTRED (set_color (Nd yy) RBTBLACK (set_color (Nd p) RBTBLACK s))"
  let ?p = "Node u (p, RBTBLACK) v" and ?y = "Node a (yy, RBTBLACK) b"
  show ?thesis
  proof (cases "F = InLeft g RBTBLACK y")
    case True
    have t: "tree_ok s (plug (Node u (p, RBTRED) v) (InLeft g RBTBLACK (Node a (yy, RBTRED) b) # fs))" using ok(2) True yy by simp
    have "nodes (plug (Node ?p (g, RBTRED) ?y) fs) = nodes (plug (Node (Node u (p, RBTRED) v) (g, RBTBLACK) y) fs)"
      using yy by (intro nodes_plug_cong) simp
    then show ?thesis using fixup_red_left[OF t x] red_uncle[OF t] i y fs True yy
      by (intro exI[of _ ?s] exI[of _ ?p] exI[of _ ?y]) simp
  next
    case False
    then have F: "F = InRight y g RBTBLACK" using ok(1) by simp
    have t: "tree_ok s (plug (Node u (p, RBTRED) v) (InRight (Node a (yy, RBTRED) b) g RBTBLACK # fs))" using ok(2) F yy by simp
    have "nodes (plug (Node ?y (g, RBTRED) ?p) fs) = nodes (plug (Node y (g, RBTBLACK) (Node u (p, RBTRED) v)) fs)"
      using yy by (intro nodes_plug_cong) simp
    then show ?thesis using fixup_red_right[OF t x] red_uncle_right[OF t] i y fs F yy
      by (intro exI[of _ ?s] exI[of _ ?y] exI[of _ ?p]) simp
  qed
qed

text \<open>Below a red parent there are two frames, and the upper one is black.\<close>

lemma red_parent_frames:
  assumes "fs = InLeft p RBTRED d # gs0 \<or> fs = InRight d p RBTRED # gs0" "okc n RBTBLACK fs"
  obtains g y gs where "fs = InLeft p RBTRED d # InLeft g RBTBLACK y # gs"
  | g y gs where "fs = InLeft p RBTRED d # InRight y g RBTBLACK # gs"
  | g y gs where "fs = InRight d p RBTRED # InLeft g RBTBLACK y # gs"
  | g y gs where "fs = InRight d p RBTRED # InRight y g RBTBLACK # gs"
proof -
  have up: "okc n RBTRED gs0" using assms by auto
  then obtain F gs where gs: "gs0 = F # gs" by (cases gs0) auto
  have "(\<exists>g y. F = InLeft g RBTBLACK y) \<or> (\<exists>g y. F = InRight y g RBTBLACK)"
  proof (cases F)
    case (InLeft g c y)
    then show ?thesis using up gs by (cases c) auto
  next
    case (InRight y g c)
    then show ?thesis using up gs by (cases c) auto
  qed
  then show thesis using that gs assms(1) by blast
qed

lemma fixup_black_uncle:
  assumes ok: "tree_ok s (plug (Node l (x, RBTRED) r) fs)" and i: "invh (Node l (x, RBTRED) r)" "invc (Node l (x, RBTRED) r)" "okc (bh l) RBTBLACK fs"
    and fs: "fs = F0 # F # gs" "F0 = InLeft p RBTRED d \<or> F0 = InRight d p RBTRED" "F = InLeft g RBTBLACK y \<or> F = InRight y g RBTBLACK"
    and y: "colr y = RBTBLACK"
  shows "\<exists>s'. ndrx_rbt_insert_fixup (Nd x) s = Some s' \<and> repaired s (nodes (plug (Node l (x, RBTRED) r) fs)) s'"
proof -
  from fs consider "fs = InLeft p RBTRED d # InLeft g RBTBLACK y # gs" | "fs = InLeft p RBTRED d # InRight y g RBTBLACK # gs"
    | "fs = InRight d p RBTRED # InLeft g RBTBLACK y # gs" | "fs = InRight d p RBTRED # InRight y g RBTBLACK # gs" by blast
  then show ?thesis
  proof cases
    case 1
    then show ?thesis using fixup_left_left[of s l x r p d g y gs] ok i y by simp
  next
    case 2
    then show ?thesis using fixup_right_left[of s y g l x r p d gs] ok i y by simp
  next
    case 3
    then show ?thesis using fixup_left_right[of s d p l x r g y gs] ok i y by simp
  next
    case 4
    then show ?thesis using fixup_right_right[of s y g d p l x r gs] ok i y by simp
  qed
qed

lemma fixup_red_uncle:
  assumes ok: "tree_ok s (plug (Node l (x, RBTRED) r) fs)" and i: "invh (Node l (x, RBTRED) r)" "invc (Node l (x, RBTRED) r)" "okc (bh l) RBTBLACK fs"
    and fs: "fs = F0 # F # gs" "F0 = InLeft p RBTRED d \<or> F0 = InRight d p RBTRED" "F = InLeft g RBTBLACK y \<or> F = InRight y g RBTBLACK"
    and y: "colr y = RBTRED"
  shows "\<exists>s1 l1 r1. ndrx_rbt_insert_fixup (Nd x) s = ndrx_rbt_insert_fixup (Nd g) s1 \<and>
    same_out (set (nodes (plug (Node l (x, RBTRED) r) fs))) s s1 \<and> tree_ok s1 (plug (Node l1 (g, RBTRED) r1) gs) \<and>
    nodes (plug (Node l1 (g, RBTRED) r1) gs) = nodes (plug (Node l (x, RBTRED) r) fs) \<and>
    invh (Node l1 (g, RBTRED) r1) \<and> invc (Node l1 (g, RBTRED) r1) \<and> okc (bh l1) RBTBLACK gs"
proof -
  let ?x = "Node l (x, RBTRED) r"
  have x: "rb_parent s (Nd x) = Some (Nd p)" "Nd x \<noteq> rb_root s" using at_node(4)[OF ok] root_iff[OF ok] fs by auto
  have b: "bh y = bh l" "invh y" "invc y" "bh d = bh l" "invh d" "invc d" "okc (bh l + 1) RBTBLACK gs" using fs i by auto
  from fs(2) show ?thesis
  proof
    assume F0: "F0 = InLeft p RBTRED d"
    then have "tree_ok s (plug (Node ?x (p, RBTRED) d) (F # gs))" "plug ?x fs = plug (Node ?x (p, RBTRED) d) (F # gs)"
      using ok fs(1) by simp_all
    then show ?thesis using fixup_red[OF x, of ?x d y gs F g] b i y fs(3) by simp
  next
    assume F0: "F0 = InRight d p RBTRED"
    then have "tree_ok s (plug (Node d (p, RBTRED) ?x) (F # gs))" "plug ?x fs = plug (Node d (p, RBTRED) ?x) (F # gs)"
      using ok fs(1) by simp_all
    then show ?thesis using fixup_red[OF x, of d ?x y gs F g] b i y fs(3) by simp
  qed
qed

lemma fixup_black_parent:
  assumes ok: "tree_ok s (plug (Node l (x, RBTRED) r) fs)" and i: "invh (Node l (x, RBTRED) r)" "invc (Node l (x, RBTRED) r)" "okc (bh l) RBTBLACK fs"
    and fs: "fs = [] \<or> fs = InLeft p RBTBLACK d # gs \<or> fs = InRight d p RBTBLACK # gs"
  shows "\<exists>s'. ndrx_rbt_insert_fixup (Nd x) s = Some s' \<and> repaired s (nodes (plug (Node l (x, RBTRED) r) fs)) s'"
proof -
  have "rb_color s (Nd p) = RBTBLACK" if "fs \<noteq> []"
    using ok fs that at_node(1)[of s "Node l (x, RBTRED) r" p RBTBLACK d gs] at_node(1)[of s d p RBTBLACK "Node l (x, RBTRED) r" gs] by auto
  then show ?thesis using fixup_stop_repaired[OF ok i(1,2)] fs i(3) by auto
qed

lemma parent_frame:
  obtains "fs = []" | p d gs where "fs = InLeft p RBTBLACK d # gs \<or> fs = InRight d p RBTBLACK # gs"
  | p d gs where "fs = InLeft p RBTRED d # gs \<or> fs = InRight d p RBTRED # gs"
  by (cases fs rule: nodesc.cases) (metis rbt_color.exhaust)+

lemma insert_fixup_repairs:
  assumes "tree_ok s (plug (Node l (x, RBTRED) r) fs)" "invh (Node l (x, RBTRED) r)" "invc (Node l (x, RBTRED) r)" "okc (bh l) RBTBLACK fs"
  shows "\<exists>s'. ndrx_rbt_insert_fixup (Nd x) s = Some s' \<and> repaired s (nodes (plug (Node l (x, RBTRED) r) fs)) s'"
  using assms
proof (induction "length fs" arbitrary: s l x r fs rule: less_induct)
  case less
  show ?case
  proof (cases fs rule: parent_frame)
    case 1
    then show ?thesis using fixup_black_parent[OF less.prems] by blast
  next
    case (2 p d gs)
    then show ?thesis using fixup_black_parent[OF less.prems] by blast
  next
    case (3 p d gs0)
    obtain F0 F gs g y where fs: "fs = F0 # F # gs" "F0 = InLeft p RBTRED d \<or> F0 = InRight d p RBTRED" "F = InLeft g RBTBLACK y \<or> F = InRight y g RBTBLACK"
      by (rule red_parent_frames[OF 3 less.prems(4)]) blast+
    show ?thesis
    proof (cases "colr y")
      case RBTBLACK
      then show ?thesis using fixup_black_uncle[OF less.prems fs] by blast
    next
      case RBTRED
      obtain s1 l1 r1 where r: "ndrx_rbt_insert_fixup (Nd x) s = ndrx_rbt_insert_fixup (Nd g) s1"
          "same_out (set (nodes (plug (Node l (x, RBTRED) r) fs))) s s1" "tree_ok s1 (plug (Node l1 (g, RBTRED) r1) gs)"
          "nodes (plug (Node l1 (g, RBTRED) r1) gs) = nodes (plug (Node l (x, RBTRED) r) fs)"
          "invh (Node l1 (g, RBTRED) r1)" "invc (Node l1 (g, RBTRED) r1)" "okc (bh l1) RBTBLACK gs"
        using fixup_red_uncle[OF less.prems fs RBTRED] by blast
      have "length gs < length fs" using fs(1) by simp
      from less.hyps[OF this r(3,5,6,7)] show ?thesis using r(1,2,4) repaired_trans by metis
    qed
  qed
qed

section \<open>Linking a new node\<close>

fun lefts :: "'p frame list \<Rightarrow> 'p list" where
  "lefts [] = []"
| "lefts (InLeft p c r # fs) = lefts fs"
| "lefts (InRight l p c # fs) = lefts fs @ nodes l @ [p]"

fun rights :: "'p frame list \<Rightarrow> 'p list" where
  "rights [] = []"
| "rights (InLeft p c r # fs) = p # nodes r @ rights fs"
| "rights (InRight l p c # fs) = rights fs"

lemma nodes_plug_eq: "nodes (plug t fs) = lefts fs @ nodes t @ rights fs"
  by (induction t fs rule: plug.induct) auto

fun is_left :: "'p frame list \<Rightarrow> bool" where
  "is_left (InLeft p c r # fs) = True"
| "is_left fs = False"

definition rbt_link :: "'p node \<Rightarrow> 'p node option \<Rightarrow> int \<Rightarrow> 'p rbt \<Rightarrow> 'p rbt" where
  "rbt_link data parent cmp rbt =
    (let s1 = set_parent data parent (set_right data RBTNIL (set_left data RBTNIL (set_color data RBTRED rbt)))
     in case parent of
          Some p \<Rightarrow> if cmp < 0 then set_left p data s1 else set_right p data s1
        | None \<Rightarrow> s1\<lparr>rb_root := data\<rparr>)"

lemma link_ok:
  assumes "tree_ok s (plug Leaf gs)" "x \<notin> set (nodes (plug Leaf gs))" "gs \<noteq> [] \<Longrightarrow> (c < 0) = is_left gs"
  shows "tree_ok (rbt_link (Nd x) (par_of gs) c s) (plug (Node Leaf (x, RBTRED) Leaf) gs)"
    "same_out (insert x (set (nodes (plug Leaf gs)))) s (rbt_link (Nd x) (par_of gs) c s)"
  using assms unfolding tree_ok_plug set_nodes_plug
  by (cases gs rule: nodesc.cases; clarsimp simp: rbt_link_def set_defs Let_def same_out_def)+

section \<open>The order\<close>

text \<open>What a comparator promises on the nodes it is used for.\<close>

definition ordered :: "('p \<Rightarrow> 'k::linorder) \<Rightarrow> 'p set \<Rightarrow> 'p list \<Rightarrow> bool" where
  "ordered key C ps \<longleftrightarrow> sorted_wrt (\<lambda>a b. key a < key b) ps \<and> set ps \<subseteq> C"

locale rbt_order =
  fixes cmp :: "'p node \<Rightarrow> 'p node \<Rightarrow> int" and key :: "'p \<Rightarrow> 'k :: linorder" and C :: "'p set"
  assumes cmp_less: "a \<in> C \<Longrightarrow> b \<in> C \<Longrightarrow> cmp (Nd a) (Nd b) < 0 \<longleftrightarrow> key a < key b"
    and cmp_zero: "a \<in> C \<Longrightarrow> b \<in> C \<Longrightarrow> cmp (Nd a) (Nd b) = 0 \<longleftrightarrow> key a = key b"
begin

lemma place_found:
  assumes "rep_in s up t" "ordered key C (nodes t)" "x \<in> C" "q \<in> set (nodes t)" "key q = key x"
  shows "\<exists>par c. rbt_place cmp (Nd x) s (ptr t) par0 c0 = Some (Nd q, par, c)"
  using assms
proof (induction t arbitrary: up par0 c0 rule: nodes.induct)
  case (2 l p cc r)
  have C: "p \<in> C" "q \<in> C" using "2.prems"(2,4) by (auto simp: ordered_def)
  have o: "ordered key C (nodes l)" "ordered key C (nodes r)" "\<forall>a \<in> set (nodes l). key a < key p" "\<forall>a \<in> set (nodes r). key p < key a"
    using "2.prems"(2) by (auto simp: ordered_def sorted_wrt_append)
  have child: "rep_in s (Some (Nd p)) l" "rep_in s (Some (Nd p)) r" "rb_left s (Nd p) = ptr l" "rb_right s (Nd p) = ptr r"
    using "2.prems"(1) by auto
  consider "q = p" | "q \<in> set (nodes l)" "key x < key p" | "q \<in> set (nodes r)" "key p < key x" using "2.prems"(4,5) o by auto
  then show ?case
  proof cases
    case 1
    then show ?thesis using "2.prems"(3,5) C cmp_zero by (subst rbt_place.simps) (simp add: Let_def)
  next
    case 2
    then show ?thesis using "2.IH"(1)[OF child(1) o(1) "2.prems"(3) _ "2.prems"(5)] child(3) "2.prems"(3) C cmp_zero[of x p] cmp_less[of x p]
      by (subst rbt_place.simps) (auto simp: Let_def)
  next
    case 3
    then show ?thesis using "2.IH"(2)[OF child(2) o(2) "2.prems"(3) _ "2.prems"(5)] child(4) "2.prems"(3) C cmp_zero[of x p] cmp_less[of x p]
      by (subst rbt_place.simps) (auto simp: Let_def)
  qed
qed simp

lemma place_new:
  assumes "rep_in s (par_of fs) t" "ordered key C (nodes t)" "x \<in> C" "\<forall>q \<in> set (nodes t). key q \<noteq> key x"
    "\<forall>a \<in> set (lefts fs). key a < key x" "\<forall>a \<in> set (rights fs). key x < key a" "fs \<noteq> [] \<Longrightarrow> (c0 < 0) = is_left fs"
  shows "\<exists>gs c. rbt_place cmp (Nd x) s (ptr t) (par_of fs) c0 = Some (RBTNIL, par_of gs, c) \<and> plug t fs = plug Leaf gs \<and>
    (\<forall>a \<in> set (lefts gs). key a < key x) \<and> (\<forall>a \<in> set (rights gs). key x < key a) \<and> (gs \<noteq> [] \<longrightarrow> (c < 0) = is_left gs)"
  using assms
proof (induction t arbitrary: fs c0 rule: nodes.induct)
  case 1
  then show ?case by (intro exI[of _ fs] exI[of _ c0]) (subst rbt_place.simps, simp)
next
  case (2 l p cc r)
  have C: "p \<in> C" using "2.prems"(2) by (auto simp: ordered_def)
  have o: "ordered key C (nodes l)" "ordered key C (nodes r)" "\<forall>a \<in> set (nodes l). key a < key p" "\<forall>a \<in> set (nodes r). key p < key a"
    using "2.prems"(2) by (auto simp: ordered_def sorted_wrt_append)
  have child: "rep_in s (Some (Nd p)) l" "rep_in s (Some (Nd p)) r" "rb_left s (Nd p) = ptr l" "rb_right s (Nd p) = ptr r"
    using "2.prems"(1) by auto
  consider "key x < key p" | "key p < key x" using "2.prems"(4) by force
  then show ?case
  proof cases
    case 1
    let ?c = "cmp (Nd x) (Nd p)" and ?fs = "InLeft p cc r # fs"
    have c: "?c < 0" "rbt_place cmp (Nd x) s (ptr (Node l (p, cc) r)) (par_of fs) c0 = rbt_place cmp (Nd x) s (ptr l) (par_of ?fs) ?c"
      using 1 C "2.prems"(3) cmp_less[of x p] child(3) by (simp, subst rbt_place.simps) (simp add: Let_def)
    have "\<forall>a \<in> set (rights ?fs). key x < key a" using 1 o(4) "2.prems"(6) by auto
    then show ?thesis using "2.IH"(1)[of ?fs ?c] child(1) o(1) "2.prems"(3-5) c by simp
  next
    case 2
    let ?c = "cmp (Nd x) (Nd p)" and ?fs = "InRight l p cc # fs"
    have n: "\<not> ?c < 0" "?c \<noteq> 0" using 2 C "2.prems"(3) cmp_less[of x p] cmp_zero[of x p] by simp_all
    then have c: "rbt_place cmp (Nd x) s (ptr (Node l (p, cc) r)) (par_of fs) c0 = rbt_place cmp (Nd x) s (ptr r) (par_of ?fs) ?c"
      using child(4) by (subst rbt_place.simps) (simp add: Let_def)
    have "\<forall>a \<in> set (lefts ?fs). key a < key x" using 2 o(3) "2.prems"(5) by auto
    then show ?thesis using "2.IH"(2)[of ?fs ?c] child(2) o(2) "2.prems"(3,4,6) c n by simp
  qed
qed

lemma insort_between:
  assumes "\<forall>a \<in> set as. key a < key x" "\<forall>b \<in> set bs. key x < key b"
  shows "insort_key key x (as @ bs) = as @ x # bs"
  using assms
proof (induction as)
  case Nil
  then show ?case by (cases bs) auto
qed auto

lemma insert_found:
  assumes "tree_ok s T" "ordered key C (nodes T)" "x \<in> C" "q \<in> set (nodes T)" "key q = key x"
  shows "ndrx_rbt_insert cmp combiner s (Nd x) = map_option (\<lambda>s'. (Nd q, False, s')) (combiner (Nd q) (Nd x) s)"
proof -
  obtain par c where "rbt_place cmp (Nd x) s (rb_root s) None 0 = Some (Nd q, par, c)"
    using place_found[of s None T x q None 0] assms by (auto simp: tree_ok_def)
  then show ?thesis by (simp add: ndrx_rbt_insert_def map_conv_bind_option comp_def)
qed

lemma insert_new:
  assumes "tree_ok s T" "balanced T" "ordered key C (nodes T)" "x \<in> C" "\<forall>q \<in> set (nodes T). key q \<noteq> key x"
  shows "\<exists>s' T'. ndrx_rbt_insert cmp combiner s (Nd x) = Some (Nd x, True, s') \<and> tree_ok s' T' \<and> balanced T' \<and>
    ordered key C (nodes T') \<and> nodes T' = insort_key key x (nodes T) \<and> same_out (insert x (set (nodes T))) s s'"
proof -
  obtain gs c where p: "rbt_place cmp (Nd x) s (rb_root s) None 0 = Some (RBTNIL, par_of gs, c)" "T = plug Leaf gs"
      "\<forall>a \<in> set (lefts gs). key a < key x" "\<forall>a \<in> set (rights gs). key x < key a" "gs \<noteq> [] \<longrightarrow> (c < 0) = is_left gs"
    using place_new[of s "[]" T x 0] assms by (auto simp: tree_ok_def)
  have x: "x \<notin> set (nodes (plug Leaf gs))" using assms(5) p(2) by auto
  let ?s = "rbt_link (Nd x) (par_of gs) c s" and ?t = "plug (Node Leaf (x, RBTRED) Leaf) gs"
  have link: "tree_ok ?s ?t" "same_out (insert x (set (nodes T))) s ?s" using link_ok[of s gs x c] assms(1) p(2,5) x by auto
  have "okc 0 RBTBLACK gs" using assms(2) by (simp add: p(2) balanced_plug)
  then obtain s' where s': "ndrx_rbt_insert_fixup (Nd x) ?s = Some s'" "repaired ?s (nodes ?t) s'"
    using insert_fixup_repairs[OF link(1)] by auto
  have n: "nodes ?t = insort_key key x (nodes T)"
    using insort_between[OF p(3,4)] by (simp add: nodes_plug_eq p(2))
  have set: "set (nodes ?t) = insert x (set (nodes T))" by (auto simp: nodes_plug_eq p(2))
  obtain T' where T': "tree_ok s' T'" "balanced T'" "nodes T' = nodes ?t" "same_out (set (nodes ?t)) ?s s'"
    using s'(2) by (auto simp: repaired_def)
  have "ordered key C (nodes T')" using assms(3,4) p(2-4) by (auto simp: T'(3) nodes_plug_eq ordered_def sorted_wrt_append)
  moreover have "ndrx_rbt_insert cmp combiner s (Nd x) = Some (Nd x, True, s')"
    using p(1) s'(1) by (simp add: ndrx_rbt_insert_def rbt_link_def Let_def)
  ultimately show ?thesis using T' n link(2) set same_out_trans by (intro exI[of _ s'] exI[of _ T']) auto
qed

end

end
