(* ===== verification/Rbtree_Delete.thy ===== *)
theory Rbtree_Delete
  imports Rbtree_Insert
begin

text \<open>
  Deletion from a red-black tree: unlinking a node, possibly with its successor in its place, and the loop that
  repairs the heights.
\<close>

section \<open>Repairing the heights\<close>

fun black :: "'p rtree \<Rightarrow> 'p rtree" where
  "black Leaf = Leaf"
| "black (Node l (p, c) r) = Node l (p, RBTBLACK) r"

lemma nodes_black [simp]: "nodes (black t) = nodes t"
  by (cases t rule: nodes.cases) auto

lemma color_stop:
  assumes "tree_ok s (plug t fs)" "invh t" "invc (black t)" "okc (bh t + 1) RBTBLACK fs" "fs = [] \<or> colr t = RBTRED"
  shows "ndrx_rbt_delete_fixup (ptr t) s = Some (set_color (ptr t) RBTBLACK s)"
    "repaired s (nodes (plug t fs)) (set_color (ptr t) RBTBLACK s)"
proof -
  show "ndrx_rbt_delete_fixup (ptr t) s = Some (set_color (ptr t) RBTBLACK s)"
    using assms(5) root_iff[OF assms(1)] color_ptr[OF assms(1)] by (subst ndrx_rbt_delete_fixup.simps) auto
  have ok: "tree_ok (set_color (ptr t) RBTBLACK s) (plug (black t) fs) \<and> same_out (set (nodes (plug t fs))) s (set_color (ptr t) RBTBLACK s)"
  proof (cases t rule: nodes.cases)
    case 1
    then have "set_color (ptr t) RBTBLACK s = s" using assms(1) by (simp add: set_color_def fun_upd_idem tree_ok_plug)
    then show ?thesis using assms(1) 1 by simp
  next
    case (2 l p c r)
    then show ?thesis using recolor[of s l p c r fs RBTBLACK] assms(1) by simp
  qed
  have "balanced (plug (black t) fs)"
    unfolding balanced_plug using assms(2-5) by (cases t rule: nodes.cases) auto
  moreover have "nodes (plug (black t) fs) = nodes (plug t fs)" by (rule nodes_plug_cong) simp
  ultimately show "repaired s (nodes (plug t fs)) (set_color (ptr t) RBTBLACK s)" using ok unfolding repaired_def by auto
qed

text \<open>A round for a left child: a red sibling is turned into a black one, then there are three cases.\<close>

lemma sibling_red:
  assumes "tree_ok s (plug t (InLeft p d (Node a (w, RBTRED) b) # fs))"
  shows "tree_ok (ndrx_rbt_rotate_left (Nd p) (set_color (Nd p) RBTRED (set_color (Nd w) RBTBLACK s)))
      (plug t (InLeft p RBTRED a # InLeft w RBTBLACK b # fs)) \<and>
    rb_parent (ndrx_rbt_rotate_left (Nd p) (set_color (Nd p) RBTRED (set_color (Nd w) RBTBLACK s))) RBTNIL = rb_parent s RBTNIL \<and>
    same_out (set (nodes (plug t (InLeft p d (Node a (w, RBTRED) b) # fs)))) s
      (ndrx_rbt_rotate_left (Nd p) (set_color (Nd p) RBTRED (set_color (Nd w) RBTBLACK s)))"
proof -
  have "tree_ok s (plug (Node a (w, RBTRED) b) (InRight t p d # fs))" using assms by simp
  note r1 = recolor[OF this, of RBTBLACK]
  have "tree_ok (set_color (Nd w) RBTBLACK s) (plug (Node t (p, d) (Node a (w, RBTBLACK) b)) fs)" using r1(1) by simp
  note r2 = recolor[OF this, of RBTRED]
  note r3 = rotate_left_plug[OF r2(1)]
  show ?thesis
    using r3 r1(3) r2(3) same_out_trans[OF same_out_trans[OF r1(2) r2(2)[THEN same_out_mono]] conjunct2[OF conjunct2[OF r3], THEN same_out_mono]]
    by (simp add: set_nodes_plug)
qed

lemma sibling_near:
  assumes "tree_ok s (plug t (InLeft p d (Node (Node a (q, RBTRED) b) (w, RBTBLACK) e) # fs))"
  shows "tree_ok (ndrx_rbt_rotate_right (Nd w) (set_color (Nd w) RBTRED (set_color (Nd q) RBTBLACK s)))
      (plug t (InLeft p d (Node a (q, RBTBLACK) (Node b (w, RBTRED) e)) # fs)) \<and>
    rb_parent (ndrx_rbt_rotate_right (Nd w) (set_color (Nd w) RBTRED (set_color (Nd q) RBTBLACK s))) RBTNIL = rb_parent s RBTNIL \<and>
    same_out (set (nodes (plug t (InLeft p d (Node (Node a (q, RBTRED) b) (w, RBTBLACK) e) # fs)))) s
      (ndrx_rbt_rotate_right (Nd w) (set_color (Nd w) RBTRED (set_color (Nd q) RBTBLACK s)))"
proof -
  have "tree_ok s (plug (Node a (q, RBTRED) b) (InLeft w RBTBLACK e # InRight t p d # fs))" using assms by simp
  note r1 = recolor[OF this, of RBTBLACK]
  have "tree_ok (set_color (Nd q) RBTBLACK s) (plug (Node (Node a (q, RBTBLACK) b) (w, RBTBLACK) e) (InRight t p d # fs))" using r1(1) by simp
  note r2 = recolor[OF this, of RBTRED]
  note r3 = rotate_right_plug[OF r2(1)]
  show ?thesis
    using r3 r1(3) r2(3) same_out_trans[OF same_out_trans[OF r1(2) r2(2)[THEN same_out_mono]] conjunct2[OF conjunct2[OF r3], THEN same_out_mono]]
    by (simp add: set_nodes_plug)
qed

lemma sibling_far:
  assumes "tree_ok s (plug t (InLeft p d (Node a (w, wc) (Node b (q, RBTRED) e)) # fs))"
  shows "tree_ok (ndrx_rbt_rotate_left (Nd p) (set_color (Nd q) RBTBLACK (set_color (Nd p) RBTBLACK (set_color (Nd w) d s))))
      (plug (Node (Node t (p, RBTBLACK) a) (w, d) (Node b (q, RBTBLACK) e)) fs) \<and>
    same_out (set (nodes (plug t (InLeft p d (Node a (w, wc) (Node b (q, RBTRED) e)) # fs)))) s
      (ndrx_rbt_rotate_left (Nd p) (set_color (Nd q) RBTBLACK (set_color (Nd p) RBTBLACK (set_color (Nd w) d s))))"
proof -
  have "tree_ok s (plug (Node a (w, wc) (Node b (q, RBTRED) e)) (InRight t p d # fs))" using assms by simp
  note r1 = recolor[OF this, of d]
  have "tree_ok (set_color (Nd w) d s) (plug (Node t (p, d) (Node a (w, d) (Node b (q, RBTRED) e))) fs)" using r1(1) by simp
  note r2 = recolor[OF this, of RBTBLACK]
  have "tree_ok (set_color (Nd p) RBTBLACK (set_color (Nd w) d s))
      (plug (Node b (q, RBTRED) e) (InRight a w d # InRight t p RBTBLACK # fs))" using r2(1) by simp
  note r3 = recolor[OF this, of RBTBLACK]
  have "tree_ok (set_color (Nd q) RBTBLACK (set_color (Nd p) RBTBLACK (set_color (Nd w) d s)))
      (plug (Node t (p, RBTBLACK) (Node a (w, d) (Node b (q, RBTBLACK) e))) fs)" using r3(1) by simp
  note r4 = rotate_left_plug[OF this]
  show ?thesis
    using r4 same_out_trans[OF same_out_trans[OF same_out_trans[OF r1(2) r2(2)[THEN same_out_mono]] r3(2)[THEN same_out_mono]]
        conjunct2[OF conjunct2[OF r4], THEN same_out_mono]]
    by (simp add: set_nodes_plug)
qed

text \<open>The rest of a round, once the sibling is black.\<close>

definition del_left_end :: "('p node \<Rightarrow> 'p rbt \<Rightarrow> 'p rbt option) \<Rightarrow> 'p node \<Rightarrow> 'p rbt \<Rightarrow> 'p rbt option" where
  "del_left_end K x s2 = do {
     p2 \<leftarrow> rb_parent s2 x;
     let w1 = rb_right s2 p2;
     let s3 = set_color w1 (rb_color s2 p2) s2;
     let s4 = set_color p2 RBTBLACK s3;
     let s5 = set_color (rb_right s4 w1) RBTBLACK s4;
     let s6 = ndrx_rbt_rotate_left p2 s5;
     K (rb_root s6) s6
   }"

definition del_left :: "('p node \<Rightarrow> 'p rbt \<Rightarrow> 'p rbt option) \<Rightarrow> 'p node \<Rightarrow> 'p rbt \<Rightarrow> 'p rbt option" where
  "del_left K x s1 = do {
     p1 \<leftarrow> rb_parent s1 x;
     let w = rb_right s1 p1;
     if rb_color s1 (rb_left s1 w) = RBTBLACK \<and> rb_color s1 (rb_right s1 w) = RBTBLACK
     then K p1 (set_color w RBTRED s1)
     else del_left_end K x (if rb_color s1 (rb_right s1 w) = RBTBLACK
       then ndrx_rbt_rotate_right w (set_color w RBTRED (set_color (rb_left s1 w) RBTBLACK s1)) else s1)
   }"

lemma delete_fixup_left:
  assumes ok: "tree_ok s (plug t (InLeft p d w # fs))" "colr t = RBTBLACK" "rb_parent s (ptr t) = Some (Nd p)" "w \<noteq> Leaf"
  shows "ndrx_rbt_delete_fixup (ptr t) s =
    del_left ndrx_rbt_delete_fixup (ptr t) (if colr w = RBTRED then ndrx_rbt_rotate_left (Nd p) (set_color (Nd p) RBTRED (set_color (ptr w) RBTBLACK s)) else s)"
proof -
  have p: "tree_ok s (plug (Node t (p, d) w) fs)" and w: "tree_ok s (plug w (InRight t p d # fs))" using ok(1) by simp_all
  obtain a q c b where wn: "w = Node a (q, c) b" using ok(4) by (cases w rule: nodes.cases) auto
  have wq: "tree_ok s (plug (Node a (q, c) b) (InRight t p d # fs))" using w wn by simp
  have root: "ptr t \<noteq> rb_root s" using root_iff[OF ok(1)] by auto
  note n = at_node[OF p] at_node[OF wq] color_ptr[OF ok(1)] color_ptr[OF w]
  show ?thesis
  proof (cases "colr w = RBTRED")
    case True
    have red: "rb_parent (ndrx_rbt_rotate_left (Nd p) (set_color (Nd p) RBTRED (set_color (Nd q) RBTBLACK s))) (ptr t) = Some (Nd p)"
    proof -
      have t: "tree_ok s (plug t (InLeft p d (Node a (q, RBTRED) b) # fs))" using ok(1) wn True by simp
      note r = sibling_red[OF t]
      show ?thesis
      proof (cases t rule: nodes.cases)
        case 1
        then show ?thesis using r ok(3) by simp
      next
        case (2 l x e r')
        then show ?thesis using r at_node(4)[of _ l x e r' "InLeft p RBTRED a # InLeft q RBTBLACK b # fs"] by simp
      qed
    qed
    show ?thesis using n root ok(2,3) True wn red
      by (subst ndrx_rbt_delete_fixup.simps) (simp add: del_left_def del_left_end_def Let_def)
  next
    case False
    then show ?thesis using n root ok(2,3) wn by (subst ndrx_rbt_delete_fixup.simps) (simp add: del_left_def del_left_end_def Let_def)
  qed
qed

lemma parent_kept:
  assumes "tree_ok s' (plug t fs)" "rb_parent s' RBTNIL = rb_parent s RBTNIL" "t = Leaf \<Longrightarrow> rb_parent s RBTNIL = par_of fs"
  shows "rb_parent s' (ptr t) = par_of fs"
  using assms at_node(4) by (cases t rule: nodes.cases) auto

text \<open>Both children of the sibling are black: the problem moves up.\<close>

lemma del_left_up:
  assumes ok: "tree_ok s (plug t (InLeft p d (Node a (w, RBTBLACK) b) # fs))" "rb_parent s (ptr t) = Some (Nd p)"
    and ab: "colr a = RBTBLACK" "colr b = RBTBLACK"
  shows "del_left K (ptr t) s = K (Nd p) (set_color (Nd w) RBTRED s)"
    "tree_ok (set_color (Nd w) RBTRED s) (plug (Node t (p, d) (Node a (w, RBTRED) b)) fs)"
    "same_out (set (nodes (plug t (InLeft p d (Node a (w, RBTBLACK) b) # fs)))) s (set_color (Nd w) RBTRED s)"
proof -
  have p: "tree_ok s (plug (Node t (p, d) (Node a (w, RBTBLACK) b)) fs)"
    and w: "tree_ok s (plug (Node a (w, RBTBLACK) b) (InRight t p d # fs))"
    and a: "tree_ok s (plug a (InLeft w RBTBLACK b # InRight t p d # fs))"
    and b: "tree_ok s (plug b (InRight a w RBTBLACK # InRight t p d # fs))" using ok(1) by simp_all
  show "del_left K (ptr t) s = K (Nd p) (set_color (Nd w) RBTRED s)"
    using ok(2) ab at_node[OF p] at_node[OF w] color_ptr[OF a] color_ptr[OF b] by (simp add: del_left_def del_left_end_def Let_def)
  show "tree_ok (set_color (Nd w) RBTRED s) (plug (Node t (p, d) (Node a (w, RBTRED) b)) fs)"
    "same_out (set (nodes (plug t (InLeft p d (Node a (w, RBTBLACK) b) # fs)))) s (set_color (Nd w) RBTRED s)"
    using recolor[OF w, of RBTRED] by simp_all
qed

text \<open>The child of the sibling further away is red: the round ends the loop.\<close>

definition stops :: "('p node \<Rightarrow> 'p rbt \<Rightarrow> 'p rbt option) \<Rightarrow> bool" where
  "stops K \<longleftrightarrow> (\<forall>s T. tree_ok s T \<longrightarrow> balanced T \<longrightarrow> K (rb_root s) s = Some s)"

lemma delete_fixup_stops: "stops ndrx_rbt_delete_fixup"
  unfolding stops_def
proof (intro allI impI)
  fix s :: "'p rbt" and T
  assume "tree_ok s T" "balanced T"
  then have "rb_color s (rb_root s) = RBTBLACK" using color_ptr[of s T "[]"] by (simp add: balanced_def tree_ok_def)
  then have "set_color (rb_root s) RBTBLACK s = s" by (simp add: set_color_def fun_upd_idem)
  then show "ndrx_rbt_delete_fixup (rb_root s) s = Some s" by (subst ndrx_rbt_delete_fixup.simps) simp
qed

lemma del_left_far:
  assumes ok: "tree_ok s (plug t (InLeft p d (Node a (w, wc) (Node b (q, RBTRED) e)) # fs))" "rb_parent s (ptr t) = Some (Nd p)"
    and i: "invh t" "invc t" "invh a" "invc a" "invh b" "invc b" "invh e" "invc e" "bh a = bh t" "bh b = bh t" "bh e = bh t"
      "okc (if d = RBTBLACK then bh t + 2 else bh t + 1) d fs"
    and K: "stops K"
  shows "\<exists>s'. del_left_end K (ptr t) s = Some s' \<and>
    repaired s (nodes (plug t (InLeft p d (Node a (w, wc) (Node b (q, RBTRED) e)) # fs))) s'"
proof -
  let ?s6 = "ndrx_rbt_rotate_left (Nd p) (set_color (Nd q) RBTBLACK (set_color (Nd p) RBTBLACK (set_color (Nd w) d s)))"
  let ?T = "plug (Node (Node t (p, RBTBLACK) a) (w, d) (Node b (q, RBTBLACK) e)) fs"
  have p: "tree_ok s (plug (Node t (p, d) (Node a (w, wc) (Node b (q, RBTRED) e))) fs)"
    and w: "tree_ok s (plug (Node a (w, wc) (Node b (q, RBTRED) e)) (InRight t p d # fs))" using ok(1) by simp_all
  note r = sibling_far[OF ok(1)]
  have bal: "balanced ?T" using i by (cases d) (auto simp: balanced_plug)
  have "rb_right (set_color (Nd p) RBTBLACK (set_color (Nd w) d s)) (Nd w) = Nd q"
    using at_node(3)[OF w] by (simp add: set_color_def)
  then have "del_left_end K (ptr t) s = K (rb_root ?s6) ?s6"
    using ok(2) at_node(1,3)[OF p] by (simp add: del_left_end_def Let_def)
  also have "\<dots> = Some ?s6" using K r bal unfolding stops_def by blast
  finally have e: "del_left_end K (ptr t) s = Some ?s6" .
  have "nodes ?T = nodes (plug t (InLeft p d (Node a (w, wc) (Node b (q, RBTRED) e)) # fs))"
    by (simp, rule nodes_plug_cong, simp)
  then show ?thesis using e r bal unfolding repaired_def by auto
qed

lemma del_left_near:
  assumes ok: "tree_ok s (plug t (InLeft p d (Node a (w, RBTBLACK) b) # fs))" "rb_parent s (ptr t) = Some (Nd p)"
    and i: "invh t" "invc t" "invh (Node a (w, RBTBLACK) b)" "invc (Node a (w, RBTBLACK) b)" "bh a = bh t"
      "okc (if d = RBTBLACK then bh t + 2 else bh t + 1) d fs"
    and red: "colr a = RBTRED \<or> colr b = RBTRED"
    and K: "stops K"
  shows "\<exists>s'. del_left K (ptr t) s = Some s' \<and> repaired s (nodes (plug t (InLeft p d (Node a (w, RBTBLACK) b) # fs))) s'"
proof -
  have p: "tree_ok s (plug (Node t (p, d) (Node a (w, RBTBLACK) b)) fs)"
    and w: "tree_ok s (plug (Node a (w, RBTBLACK) b) (InRight t p d # fs))"
    and a: "tree_ok s (plug a (InLeft w RBTBLACK b # InRight t p d # fs))"
    and b: "tree_ok s (plug b (InRight a w RBTBLACK # InRight t p d # fs))" using ok(1) by simp_all
  note n = at_node[OF p] at_node[OF w] color_ptr[OF a] color_ptr[OF b]
  show ?thesis
  proof (cases "colr b = RBTRED")
    case True
    then obtain b1 q b2 where bq: "b = Node b1 (q, RBTRED) b2" by (cases b rule: nodes.cases) auto
    have "del_left K (ptr t) s = del_left_end K (ptr t) s" using ok(2) n True red by (simp add: del_left_def del_left_end_def Let_def)
    moreover have t: "tree_ok s (plug t (InLeft p d (Node a (w, RBTBLACK) (Node b1 (q, RBTRED) b2)) # fs))" using ok(1) bq by simp
    moreover have "invh a" "invc a" "invh b1" "invc b1" "invh b2" "invc b2" "bh a = bh t" "bh b1 = bh t" "bh b2 = bh t"
      using i(3-5) bq by simp_all
    ultimately show ?thesis using del_left_far[OF t ok(2) i(1,2) _ _ _ _ _ _ _ _ _ i(6), of K] K bq by simp
  next
    case False
    then have "colr b = RBTBLACK" by (cases "colr b") auto
    moreover obtain a1 q a2 where aq: "a = Node a1 (q, RBTRED) a2" using False red by (cases a rule: nodes.cases) auto
    ultimately have bb: "colr b = RBTBLACK" "colr a = RBTRED" by auto
    let ?s = "ndrx_rbt_rotate_right (Nd w) (set_color (Nd w) RBTRED (set_color (Nd q) RBTBLACK s))"
    have t: "tree_ok s (plug t (InLeft p d (Node (Node a1 (q, RBTRED) a2) (w, RBTBLACK) b) # fs))" using ok(1) aq by simp
    note r = sibling_near[OF t]
    have "t = Leaf \<Longrightarrow> rb_parent s RBTNIL = Some (Nd p)" using ok(2) by simp
    then have par: "rb_parent ?s (ptr t) = Some (Nd p)" using parent_kept[OF r[THEN conjunct1] r[THEN conjunct2, THEN conjunct1]] by simp
    have "del_left K (ptr t) s = del_left_end K (ptr t) ?s" using ok(2) n bb aq by (simp add: del_left_def del_left_end_def Let_def)
    moreover obtain s' where "del_left_end K (ptr t) ?s = Some s'"
        "repaired ?s (nodes (plug t (InLeft p d (Node a1 (q, RBTBLACK) (Node a2 (w, RBTRED) b)) # fs))) s'"
    proof -
      have "invh a1" "invc a1" "invh a2" "invc a2" "invh b" "invc b" "bh a1 = bh t" "bh a2 = bh t" "bh b = bh t"
        using i(3-5) aq by simp_all
      then show ?thesis using that del_left_far[OF r[THEN conjunct1] par i(1,2) _ _ _ _ _ _ _ _ _ i(6), of K] K by blast
    qed
    moreover have "nodes (plug t (InLeft p d (Node a1 (q, RBTBLACK) (Node a2 (w, RBTRED) b)) # fs)) =
        nodes (plug t (InLeft p d (Node a (w, RBTBLACK) b) # fs))" unfolding aq by (simp, rule nodes_plug_cong, simp)
    ultimately show ?thesis using repaired_trans r aq by metis
  qed
qed

text \<open>The same for a right child.\<close>

definition del_right_end :: "('p node \<Rightarrow> 'p rbt \<Rightarrow> 'p rbt option) \<Rightarrow> 'p node \<Rightarrow> 'p rbt \<Rightarrow> 'p rbt option" where
  "del_right_end K x s2 = do {
     p2 \<leftarrow> rb_parent s2 x;
     let w1 = rb_left s2 p2;
     let s3 = set_color w1 (rb_color s2 p2) s2;
     let s4 = set_color p2 RBTBLACK s3;
     let s5 = set_color (rb_left s4 w1) RBTBLACK s4;
     let s6 = ndrx_rbt_rotate_right p2 s5;
     K (rb_root s6) s6
   }"

definition del_right :: "('p node \<Rightarrow> 'p rbt \<Rightarrow> 'p rbt option) \<Rightarrow> 'p node \<Rightarrow> 'p rbt \<Rightarrow> 'p rbt option" where
  "del_right K x s1 = do {
     p1 \<leftarrow> rb_parent s1 x;
     let w = rb_left s1 p1;
     if rb_color s1 (rb_right s1 w) = RBTBLACK \<and> rb_color s1 (rb_left s1 w) = RBTBLACK
     then K p1 (set_color w RBTRED s1)
     else del_right_end K x (if rb_color s1 (rb_left s1 w) = RBTBLACK
       then ndrx_rbt_rotate_left w (set_color w RBTRED (set_color (rb_right s1 w) RBTBLACK s1)) else s1)
   }"

definition mirk :: "('p node \<Rightarrow> 'p rbt \<Rightarrow> 'p rbt option) \<Rightarrow> 'p node \<Rightarrow> 'p rbt \<Rightarrow> 'p rbt option" where
  "mirk K p s = map_option mir (K p (mir s))"

lemma mirk_mir: "map_option mir (mirk K p s) = K p (mir s)"
  by (cases "K p (mir s)") (simp_all add: mirk_def)

lemma set_color_fields [simp]:
  "rb_left (set_color x c s) = rb_left s" "rb_right (set_color x c s) = rb_right s" "rb_parent (set_color x c s) = rb_parent s"
  "rb_root (set_color x c s) = rb_root s"
  by (simp_all add: set_color_def)

lemma del_right_end_mir: "del_right_end K x s = map_option mir (del_left_end (mirk K) x (mir s))"
  by (cases "rb_parent s x") (simp_all add: del_right_end_def del_left_end_def mirk_mir rotate_right_mir Let_def)

lemma del_right_mir: "del_right K x s = map_option mir (del_left (mirk K) x (mir s))"
  by (cases "rb_parent s x") (simp_all add: del_right_def del_left_def del_right_end_mir mirk_mir rotate_right_mir Let_def conj_commute)

section \<open>The loop\<close>

text \<open>A subtree whose black height is one too small.\<close>

definition short :: "'p rbt \<Rightarrow> 'p rtree \<Rightarrow> 'p frame list \<Rightarrow> bool" where
  "short s t fs \<longleftrightarrow> tree_ok s (plug t fs) \<and> rb_parent s (ptr t) = par_of fs \<and> invh t \<and> invc (black t) \<and> okc (bh t + 1) RBTBLACK fs"

lemma black_black: "colr t = RBTBLACK \<Longrightarrow> black t = t"
  by (cases t rule: nodes.cases) auto

lemma round_left:
  assumes s: "short s t (InLeft p d w # fs)" "colr t = RBTBLACK" "colr w = RBTBLACK"
    and K: "stops K"
  shows "(\<exists>s'. del_left K (ptr t) s = Some s' \<and> repaired s (nodes (plug t (InLeft p d w # fs))) s') \<or>
    (\<exists>s1 t'. del_left K (ptr t) s = K (ptr t') s1 \<and> short s1 t' fs \<and> colr t' = d \<and>
      nodes (plug t' fs) = nodes (plug t (InLeft p d w # fs)) \<and> same_out (set (nodes (plug t (InLeft p d w # fs)))) s s1)"
proof -
  have i: "tree_ok s (plug t (InLeft p d w # fs))" "rb_parent s (ptr t) = Some (Nd p)" "invh t" "invc t"
      "bh w = bh t + 1" "invh w" "invc w" "okc (if d = RBTBLACK then bh t + 2 else bh t + 1) d fs"
    using s(1,2) by (auto simp: short_def black_black split: if_splits)
  obtain a q b where w: "w = Node a (q, RBTBLACK) b" using i(5) s(3) by (cases w rule: nodes.cases) auto
  have ok: "tree_ok s (plug t (InLeft p d (Node a (q, RBTBLACK) b) # fs))" using i(1) w by simp
  show ?thesis
  proof (cases "colr a = RBTBLACK \<and> colr b = RBTBLACK")
    case True
    let ?t = "Node t (p, d) (Node a (q, RBTRED) b)"
    have ab: "colr a = RBTBLACK" "colr b = RBTBLACK" using True by auto
    note up = del_left_up[OF ok i(2) ab]
    have "rb_parent (set_color (Nd q) RBTRED s) (ptr ?t) = par_of fs" using at_node(4)[OF up(2)] by simp
    moreover have "invh ?t" "invc (black ?t)" "okc (bh ?t + 1) RBTBLACK fs" using i(3-8) w True by (auto intro: okc_black split: if_splits)
    ultimately have "short (set_color (Nd q) RBTRED s) ?t fs" using up(2) True by (simp add: short_def)
    moreover have "nodes (plug ?t fs) = nodes (plug t (InLeft p d w # fs))" using w by (simp, intro nodes_plug_cong) simp
    ultimately show ?thesis using up(1,3) True w by (intro disjI2 exI[of _ "set_color (Nd q) RBTRED s"] exI[of _ ?t]) simp
  next
    case False
    then have red: "colr a = RBTRED \<or> colr b = RBTRED" using rbt_color.exhaust by metis
    have h: "invh (Node a (q, RBTBLACK) b)" "invc (Node a (q, RBTBLACK) b)" "bh a = bh t" "okc (if d = RBTBLACK then bh t + 2 else bh t + 1) d fs" using i(5-8) w by auto
    show ?thesis using del_left_near[OF ok i(2-4) h red K] w by simp
  qed
qed

lemma mirror_invs: "invh t \<Longrightarrow> bh (mirror t) = bh t \<and> invh (mirror t)" "colr (mirror t) = colr t" "invc (mirror t) = invc t"
    "black (mirror t) = mirror (black t)"
proof -
  show c: "colr (mirror t) = colr t" for t :: "'a rtree" by (cases t rule: nodes.cases) auto
  show "invh t \<Longrightarrow> bh (mirror t) = bh t \<and> invh (mirror t)" by (induction t rule: nodes.induct) auto
  show "invc (mirror t) = invc t" by (induction t rule: nodes.induct) (auto simp: c)
  show "black (mirror t) = mirror (black t)" by (cases t rule: nodes.cases) auto
qed

lemma mirk_stops: "stops K \<Longrightarrow> stops (mirk K)"
proof -
  assume K: "stops K"
  have "mirk K (rb_root s) s = Some s" if "tree_ok s T" "balanced T" for s T
  proof -
    have "tree_ok (mir s) (mirror T)" "balanced (mirror T)" using that by (simp_all add: balanced_def mirror_invs)
    then have "K (rb_root (mir s)) (mir s) = Some (mir s)" using K unfolding stops_def by blast
    then show ?thesis by (simp add: mirk_def)
  qed
  then show ?thesis by (simp add: stops_def)
qed

lemma okc_mirror: "okc h c fs \<Longrightarrow> okc h c (map mirf fs)"
  by (induction h c fs rule: okc.induct) (auto simp: mirror_invs)

lemma par_of_mirf [simp]: "par_of (map mirf fs) = par_of fs"
  by (cases fs rule: nodesc.cases) auto

lemma short_mirror: "short s t fs \<Longrightarrow> short (mir s) (mirror t) (map mirf fs)"
  by (simp add: short_def mirror_plug_ok mirror_invs okc_mirror)

lemma mirf_mirf [simp]: "map (mirf \<circ> mirf) fs = fs"
  by (induction fs rule: nodesc.induct) auto

lemma repaired_mirror: "repaired (mir s) N s' \<Longrightarrow> repaired s (rev N) (mir s')"
proof -
  assume "repaired (mir s) N s'"
  then obtain T where T: "tree_ok s' T" "balanced T" "nodes T = N" "same_out (set N) (mir s) s'" by (auto simp: repaired_def)
  have "tree_ok (mir s') (mirror T)" "balanced (mirror T)" "nodes (mirror T) = rev N"
    using T by (simp_all add: balanced_def mirror_invs)
  moreover have "same_out (set N) s (mir s')" using T(4) by (auto simp: same_out_def)
  ultimately show ?thesis unfolding repaired_def by (intro exI[of _ "mirror T"]) simp
qed

lemma round_right:
  assumes s: "short s t (InRight w p d # fs)" "colr t = RBTBLACK" "colr w = RBTBLACK"
    and K: "stops K"
  shows "(\<exists>s'. del_right K (ptr t) s = Some s' \<and> repaired s (nodes (plug t (InRight w p d # fs))) s') \<or>
    (\<exists>s1 t'. del_right K (ptr t) s = K (ptr t') s1 \<and> short s1 t' fs \<and> colr t' = d \<and>
      nodes (plug t' fs) = nodes (plug t (InRight w p d # fs)) \<and> same_out (set (nodes (plug t (InRight w p d # fs)))) s s1)"
proof -
  let ?N = "nodes (plug t (InRight w p d # fs))"
  have m: "short (mir s) (mirror t) (InLeft p d (mirror w) # map mirf fs)" using short_mirror[OF s(1)] by simp
  have N: "nodes (plug (mirror t) (InLeft p d (mirror w) # map mirf fs)) = rev ?N"
    using plug_mirror[of t "InRight w p d # fs"] nodes_mirror[of "plug t (InRight w p d # fs)"] by simp
  have c: "colr (mirror t) = RBTBLACK" "colr (mirror w) = RBTBLACK" using s(2,3) by (simp_all add: mirror_invs)
  from round_left[OF m c mirk_stops[OF K]]
  consider s' where "del_left (mirk K) (ptr t) (mir s) = Some s'" "repaired (mir s) (rev ?N) s'"
    | s1 t' where "del_left (mirk K) (ptr t) (mir s) = mirk K (ptr t') s1" "short s1 t' (map mirf fs)" "colr t' = d"
      "nodes (plug t' (map mirf fs)) = rev ?N" "same_out (set ?N) (mir s) s1"
    unfolding N ptr_mirror set_rev by blast
  then show ?thesis
  proof cases
    case 1
    then show ?thesis using repaired_mirror[OF 1(2)] by (simp add: del_right_mir)
  next
    case 2
    have "short (mir s1) (mirror t') fs" using short_mirror[OF 2(2)] by simp
    moreover have "nodes (plug (mirror t') fs) = ?N"
      using plug_mirror[of t' "map mirf fs"] nodes_mirror[of "plug t' (map mirf fs)"] 2(4) by simp
    moreover have "same_out (set ?N) s (mir s1)" using 2(5) by (auto simp: same_out_def)
    moreover have "del_right K (ptr t) s = K (ptr (mirror t')) (mir s1)" using 2(1) by (simp add: del_right_mir mirk_mir)
    ultimately show ?thesis using 2(3) mirror_invs(2) by blast
  qed
qed

lemma sibling_red_right:
  assumes "tree_ok s (plug t (InRight (Node a (w, RBTRED) b) p d # fs))"
  shows "tree_ok (ndrx_rbt_rotate_right (Nd p) (set_color (Nd p) RBTRED (set_color (Nd w) RBTBLACK s)))
      (plug t (InRight b p RBTRED # InRight a w RBTBLACK # fs)) \<and>
    rb_parent (ndrx_rbt_rotate_right (Nd p) (set_color (Nd p) RBTRED (set_color (Nd w) RBTBLACK s))) RBTNIL = rb_parent s RBTNIL \<and>
    same_out (set (nodes (plug t (InRight (Node a (w, RBTRED) b) p d # fs)))) s
      (ndrx_rbt_rotate_right (Nd p) (set_color (Nd p) RBTRED (set_color (Nd w) RBTBLACK s)))"
proof -
  let ?s = "ndrx_rbt_rotate_right (Nd p) (set_color (Nd p) RBTRED (set_color (Nd w) RBTBLACK s))"
  have "tree_ok (mir s) (plug (mirror t) (InLeft p d (Node (mirror b) (w, RBTRED) (mirror a)) # map mirf fs))"
    using assms mirror_plug_ok[of s t "InRight (Node a (w, RBTRED) b) p d # fs"] by simp
  note r = sibling_red[OF this]
  have m: "ndrx_rbt_rotate_left (Nd p) (set_color (Nd p) RBTRED (set_color (Nd w) RBTBLACK (mir s))) = mir ?s"
    by (simp add: rotate_left_mir)
  have "tree_ok ?s (plug t (InRight b p RBTRED # InRight a w RBTBLACK # fs))"
    using r mirror_plug_ok[of ?s t "InRight b p RBTRED # InRight a w RBTBLACK # fs"] unfolding m by simp
  moreover have "same_out (set (nodes (plug t (InRight (Node a (w, RBTRED) b) p d # fs)))) s ?s"
    by (rule same_out_mono[OF same_out_mirD[OF r[THEN conjunct2, THEN conjunct2]]]) (auto simp: set_nodes_plug m)
  ultimately show ?thesis using r unfolding m by simp
qed

lemma delete_fixup_right:
  assumes ok: "tree_ok s (plug t (InRight w p d # fs))" "colr t = RBTBLACK" "rb_parent s (ptr t) = Some (Nd p)" "w \<noteq> Leaf"
  shows "ndrx_rbt_delete_fixup (ptr t) s = del_right ndrx_rbt_delete_fixup (ptr t)
    (if colr w = RBTRED then ndrx_rbt_rotate_right (Nd p) (set_color (Nd p) RBTRED (set_color (ptr w) RBTBLACK s)) else s)"
proof -
  have p: "tree_ok s (plug (Node w (p, d) t) fs)" and w: "tree_ok s (plug w (InLeft p d t # fs))" using ok(1) by simp_all
  obtain a q c b where wn: "w = Node a (q, c) b" using ok(4) by (cases w rule: nodes.cases) auto
  have wq: "tree_ok s (plug (Node a (q, c) b) (InLeft p d t # fs))" using w wn by simp
  have root: "ptr t \<noteq> rb_root s" using root_iff[OF ok(1)] by auto
  have other: "ptr t \<noteq> ptr w" using children_differ[OF p] ok(4) by auto
  note n = at_node[OF p] at_node[OF wq] color_ptr[OF ok(1)] color_ptr[OF w]
  show ?thesis
  proof (cases "colr w = RBTRED")
    case True
    let ?s = "ndrx_rbt_rotate_right (Nd p) (set_color (Nd p) RBTRED (set_color (Nd q) RBTBLACK s))"
    have t: "tree_ok s (plug t (InRight (Node a (q, RBTRED) b) p d # fs))" using ok(1) wn True by simp
    have "t = Leaf \<Longrightarrow> rb_parent s RBTNIL = Some (Nd p)" using ok(3) by simp
    then have "rb_parent ?s (ptr t) = Some (Nd p)"
      using parent_kept[OF sibling_red_right[OF t, THEN conjunct1] sibling_red_right[OF t, THEN conjunct2, THEN conjunct1]] by simp
    then show ?thesis using n root other ok(2,3) True wn
      by (subst ndrx_rbt_delete_fixup.simps) (simp add: del_right_def del_right_end_def Let_def)
  next
    case False
    then show ?thesis using n root other ok(2,3) wn
      by (subst ndrx_rbt_delete_fixup.simps) (simp add: del_right_def del_right_end_def Let_def)
  qed
qed

text \<open>One round: it ends the loop, or leaves a shorter way up, or a red node.  A red sibling is first made a black one.\<close>

lemma round_resume:
  assumes so: "same_out (set N) s s0"
    and r: "(\<exists>s'. X = Some s' \<and> repaired s0 N s') \<or>
      (\<exists>s1 t'. X = K t' s1 \<and> short s1 t' hs \<and> colr t' = RBTRED \<and> nodes (plug t' hs) = N \<and> same_out (set N) s0 s1)"
  shows "(\<exists>s'. X = Some s' \<and> repaired s N s') \<or>
    (\<exists>s1 t' gs. X = K t' s1 \<and> short s1 t' gs \<and> (gs = fs \<or> colr t' = RBTRED) \<and> nodes (plug t' gs) = N \<and> same_out (set N) s s1)"
  using r
proof
  assume "\<exists>s'. X = Some s' \<and> repaired s0 N s'"
  then show ?thesis using repaired_trans[OF so] by blast
next
  assume "\<exists>s1 t'. X = K t' s1 \<and> short s1 t' hs \<and> colr t' = RBTRED \<and> nodes (plug t' hs) = N \<and> same_out (set N) s0 s1"
  then show ?thesis using same_out_trans[OF so] by blast
qed

lemma fixup_round_left:
  assumes s: "short s t (InLeft p d w # fs)" "colr t = RBTBLACK"
  shows "(\<exists>s'. ndrx_rbt_delete_fixup (ptr t) s = Some s' \<and> repaired s (nodes (plug t (InLeft p d w # fs))) s') \<or>
    (\<exists>s1 t' gs. ndrx_rbt_delete_fixup (ptr t) s = ndrx_rbt_delete_fixup (ptr t') s1 \<and> short s1 t' gs \<and>
      (gs = fs \<or> colr t' = RBTRED) \<and> nodes (plug t' gs) = nodes (plug t (InLeft p d w # fs)) \<and> same_out (set (nodes (plug t (InLeft p d w # fs)))) s s1)"
proof -
  have ok: "tree_ok s (plug t (InLeft p d w # fs))" and par: "rb_parent s (ptr t) = Some (Nd p)" and w: "bh w = bh t + 1"
    using s by (simp_all add: short_def)
  have wl: "w \<noteq> Leaf" using w by auto
  show ?thesis
  proof (cases "colr w = RBTRED")
    case False
    then have "colr w = RBTBLACK" by (cases "colr w") auto
    then have "colr w = RBTBLACK" "ndrx_rbt_delete_fixup (ptr t) s = del_left ndrx_rbt_delete_fixup (ptr t) s"
      using delete_fixup_left[OF ok s(2) par wl] by simp_all
    then show ?thesis using round_left[OF s(1) s(2) _ delete_fixup_stops] by metis
  next
    case True
    then obtain a q b where wn: "w = Node a (q, RBTRED) b" by (cases w rule: nodes.cases) auto
    have t: "tree_ok s (plug t (InLeft p d (Node a (q, RBTRED) b) # fs))" using ok wn by simp
    let ?s = "ndrx_rbt_rotate_left (Nd p) (set_color (Nd p) RBTRED (set_color (Nd q) RBTBLACK s))" and ?fs = "InLeft q RBTBLACK b # fs"
    note r = sibling_red[OF t]
    have dB: "d = RBTBLACK" using s wn by (cases d) (auto simp: short_def)
    have "t = Leaf \<Longrightarrow> rb_parent s RBTNIL = Some (Nd p)" using par by simp
    then have "rb_parent ?s (ptr t) = Some (Nd p)" using parent_kept[OF r[THEN conjunct1] r[THEN conjunct2, THEN conjunct1]] by simp
    then have sh: "short ?s t (InLeft p RBTRED a # ?fs)" and ca: "colr a = RBTBLACK"
      using r s wn dB by (auto simp: short_def)
    have N: "nodes (plug t (InLeft p RBTRED a # ?fs)) = nodes (plug t (InLeft p d w # fs))"
      using wn by (simp, intro nodes_plug_cong) simp
    have so: "same_out (set (nodes (plug t (InLeft p d w # fs)))) s ?s" using r wn by simp
    have eq: "ndrx_rbt_delete_fixup (ptr t) s = del_left ndrx_rbt_delete_fixup (ptr t) ?s"
      using delete_fixup_left[OF ok s(2) par wl] True wn by simp
    show ?thesis using round_resume[OF so, of "ndrx_rbt_delete_fixup (ptr t) s" "\<lambda>t'. ndrx_rbt_delete_fixup (ptr t')" ?fs fs] round_left[OF sh s(2) ca delete_fixup_stops, unfolded N eq[symmetric]] by simp
  qed
qed

lemma fixup_round_right:
  assumes s: "short s t (InRight w p d # fs)" "colr t = RBTBLACK"
  shows "(\<exists>s'. ndrx_rbt_delete_fixup (ptr t) s = Some s' \<and> repaired s (nodes (plug t (InRight w p d # fs))) s') \<or>
    (\<exists>s1 t' gs. ndrx_rbt_delete_fixup (ptr t) s = ndrx_rbt_delete_fixup (ptr t') s1 \<and> short s1 t' gs \<and>
      (gs = fs \<or> colr t' = RBTRED) \<and> nodes (plug t' gs) = nodes (plug t (InRight w p d # fs)) \<and> same_out (set (nodes (plug t (InRight w p d # fs)))) s s1)"
proof -
  have ok: "tree_ok s (plug t (InRight w p d # fs))" and par: "rb_parent s (ptr t) = Some (Nd p)" and w: "bh w = bh t + 1"
    using s by (simp_all add: short_def)
  have wl: "w \<noteq> Leaf" using w by auto
  show ?thesis
  proof (cases "colr w = RBTRED")
    case False
    then have "colr w = RBTBLACK" by (cases "colr w") auto
    then have "colr w = RBTBLACK" "ndrx_rbt_delete_fixup (ptr t) s = del_right ndrx_rbt_delete_fixup (ptr t) s"
      using delete_fixup_right[OF ok s(2) par wl] by simp_all
    then show ?thesis using round_right[OF s(1) s(2) _ delete_fixup_stops] by metis
  next
    case True
    then obtain a q b where wn: "w = Node a (q, RBTRED) b" by (cases w rule: nodes.cases) auto
    have t: "tree_ok s (plug t (InRight (Node a (q, RBTRED) b) p d # fs))" using ok wn by simp
    let ?s = "ndrx_rbt_rotate_right (Nd p) (set_color (Nd p) RBTRED (set_color (Nd q) RBTBLACK s))" and ?fs = "InRight a q RBTBLACK # fs"
    note r = sibling_red_right[OF t]
    have dB: "d = RBTBLACK" using s wn by (cases d) (auto simp: short_def)
    have "t = Leaf \<Longrightarrow> rb_parent s RBTNIL = Some (Nd p)" using par by simp
    then have "rb_parent ?s (ptr t) = Some (Nd p)" using parent_kept[OF r[THEN conjunct1] r[THEN conjunct2, THEN conjunct1]] by simp
    then have sh: "short ?s t (InRight b p RBTRED # ?fs)" and ca: "colr b = RBTBLACK"
      using r s wn dB by (auto simp: short_def)
    have N: "nodes (plug t (InRight b p RBTRED # ?fs)) = nodes (plug t (InRight w p d # fs))"
      using wn by (simp, intro nodes_plug_cong) simp
    have so: "same_out (set (nodes (plug t (InRight w p d # fs)))) s ?s" using r wn by simp
    have eq: "ndrx_rbt_delete_fixup (ptr t) s = del_right ndrx_rbt_delete_fixup (ptr t) ?s"
      using delete_fixup_right[OF ok s(2) par wl] True wn by simp
    show ?thesis using round_resume[OF so, of "ndrx_rbt_delete_fixup (ptr t) s" "\<lambda>t'. ndrx_rbt_delete_fixup (ptr t')" ?fs fs] round_right[OF sh s(2) ca delete_fixup_stops, unfolded N eq[symmetric]] by simp
  qed
qed

lemma delete_fixup_round:
  assumes s: "short s t (F # fs)" "colr t = RBTBLACK"
  shows "(\<exists>s'. ndrx_rbt_delete_fixup (ptr t) s = Some s' \<and> repaired s (nodes (plug t (F # fs))) s') \<or>
    (\<exists>s1 t' gs. ndrx_rbt_delete_fixup (ptr t) s = ndrx_rbt_delete_fixup (ptr t') s1 \<and> short s1 t' gs \<and>
      (gs = fs \<or> colr t' = RBTRED) \<and> nodes (plug t' gs) = nodes (plug t (F # fs)) \<and> same_out (set (nodes (plug t (F # fs)))) s s1)"
proof (cases F)
  case (InLeft p d w)
  show ?thesis using fixup_round_left[OF s[unfolded InLeft]] unfolding InLeft .
next
  case (InRight w p d)
  show ?thesis using fixup_round_right[OF s[unfolded InRight]] unfolding InRight .
qed

lemma delete_fixup_repairs:
  "short s t fs \<Longrightarrow> \<exists>s'. ndrx_rbt_delete_fixup (ptr t) s = Some s' \<and> repaired s (nodes (plug t fs)) s'"
proof (induction "length fs" arbitrary: s t fs rule: less_induct)
  case less
  have stop: "\<exists>s'. ndrx_rbt_delete_fixup (ptr t) s = Some s' \<and> repaired s (nodes (plug t fs)) s'"
    if "short s t fs" "fs = [] \<or> colr t = RBTRED" for s and t :: "'a rtree" and fs
    using color_stop[of s t fs] that by (simp add: short_def)
  show ?case
  proof (cases "fs = [] \<or> colr t = RBTRED")
    case True
    then show ?thesis using stop less.prems by blast
  next
    case False
    then obtain F gs where fs: "fs = F # gs" "colr t = RBTBLACK" by (cases fs; cases "colr t") auto
    from delete_fixup_round[of s t F gs] less.prems fs
    consider "\<exists>s'. ndrx_rbt_delete_fixup (ptr t) s = Some s' \<and> repaired s (nodes (plug t fs)) s'"
      | s1 t' hs where "ndrx_rbt_delete_fixup (ptr t) s = ndrx_rbt_delete_fixup (ptr t') s1" "short s1 t' hs" "hs = gs \<or> colr t' = RBTRED"
        "nodes (plug t' hs) = nodes (plug t fs)" "same_out (set (nodes (plug t fs))) s s1" by blast
    then show ?thesis
    proof cases
      case 2
      have "\<exists>s'. ndrx_rbt_delete_fixup (ptr t') s1 = Some s' \<and> repaired s1 (nodes (plug t' hs)) s'"
        using stop[OF 2(2)] less.hyps[of hs s1 t'] 2(2,3) fs by auto
      then show ?thesis using 2 repaired_trans by metis
    qed
  qed
qed

end
