(* ===== verification/Rbtree_Unlink.thy ===== *)
theory Rbtree_Unlink
  imports Rbtree_Delete
begin

text \<open>
  Deletion from a red-black tree: the node, or its successor, is unlinked; with the repair of the heights this
  removes exactly the node from the order of the tree.
\<close>

section \<open>Unlinking\<close>

lemma transplant_eq:
  "rb_parent s u = None \<Longrightarrow> ndx_rbt_transplant u v s = s\<lparr>rb_root := v, rb_parent := (rb_parent s)(v := None)\<rparr>"
  "rb_parent s u = Some p \<Longrightarrow> rb_left s p = u \<Longrightarrow>
     ndx_rbt_transplant u v s = s\<lparr>rb_left := (rb_left s)(p := v), rb_parent := (rb_parent s)(v := Some p)\<rparr>"
  "rb_parent s u = Some p \<Longrightarrow> rb_left s p \<noteq> u \<Longrightarrow>
     ndx_rbt_transplant u v s = s\<lparr>rb_right := (rb_right s)(p := v), rb_parent := (rb_parent s)(v := Some p)\<rparr>"
  by (auto simp: ndx_rbt_transplant_def Let_def set_defs)

text \<open>A subtree takes the place of a node.\<close>

lemma transplant_ok:
  assumes t: "rep_in s up t" and fs: "repc_in s (Nd u) fs" "rb_parent s (Nd u) = par_of fs" "rb_color s RBTNIL = RBTBLACK"
    and d: "distinct (nodes t @ nodesc fs)" "u \<notin> set (nodesc fs)"
  defines "s' \<equiv> ndx_rbt_transplant (Nd u) (ptr t) s"
  shows "tree_ok s' (plug t fs) \<and> rb_parent s' (ptr t) = par_of fs \<and> same_out (set (nodes t) \<union> set (nodesc fs)) s s' \<and>
    (t \<noteq> Leaf \<longrightarrow> rb_parent s' RBTNIL = rb_parent s RBTNIL)"
proof (cases fs rule: nodesc.cases)
  case 1
  then show ?thesis using assms(1-6) transplant_eq(1)[of s "Nd u" "ptr t"] unfolding s'_def tree_ok_plug
    by (cases t rule: nodes.cases; clarsimp simp: same_out_def)
next
  case (2 p e w gs)
  then show ?thesis using assms(1-6) transplant_eq(2)[of s "Nd u" "Nd p" "ptr t"] unfolding s'_def tree_ok_plug
    by (cases t rule: nodes.cases; clarsimp simp: same_out_def)
next
  case (3 w p e gs)
  have "ptr w \<noteq> Nd u" using d(2) 3 ptr_Nd[of w u] by auto
  then show ?thesis using 3 assms(1-6) transplant_eq(3)[of s "Nd u" "Nd p" "ptr t"] unfolding s'_def tree_ok_plug
    by (cases t rule: nodes.cases; clarsimp simp: same_out_def)
qed

lemma plug_not_Leaf: "fs \<noteq> [] \<Longrightarrow> plug t fs \<noteq> Leaf"
proof (induction t fs rule: plug.induct)
  case (2 t p c r fs)
  then show ?case by (cases "fs = []") auto
next
  case (3 t l p c fs)
  then show ?case by (cases "fs = []") auto
qed simp

lemma par_of_append: "par_of (fs @ gs) = (if fs = [] then par_of gs else par_of fs)"
  by (cases fs rule: nodesc.cases) auto

lemma nodesc_append: "nodesc (fs @ gs) = nodesc fs @ nodesc gs"
  by (induction fs rule: nodesc.induct) auto

lemma unlink_right:
  assumes "tree_ok s (plug (Node l (u, c) r) fs)"
  shows "tree_ok (ndx_rbt_transplant (Nd u) (ptr r) s) (plug r fs) \<and> rb_parent (ndx_rbt_transplant (Nd u) (ptr r) s) (ptr r) = par_of fs \<and>
    same_out (set (nodes r) \<union> set (nodesc fs)) s (ndx_rbt_transplant (Nd u) (ptr r) s)"
  using transplant_ok[of s "Some (Nd u)" r u fs] assms by (simp add: tree_ok_plug)

lemma unlink_left:
  assumes "tree_ok s (plug (Node l (u, c) r) fs)"
  shows "tree_ok (ndx_rbt_transplant (Nd u) (ptr l) s) (plug l fs) \<and> rb_parent (ndx_rbt_transplant (Nd u) (ptr l) s) (ptr l) = par_of fs \<and>
    same_out (set (nodes l) \<union> set (nodesc fs)) s (ndx_rbt_transplant (Nd u) (ptr l) s)"
  using transplant_ok[of s "Some (Nd u)" l u fs] assms by (simp add: tree_ok_plug Int_Un_distrib)

text \<open>A left subtree is hung below a node that has none.\<close>

lemma attach_left:
  assumes "tree_ok s (plug (Node Leaf (y, c) r) fs)" "rep_in s up l" "distinct (nodes l)" "l \<noteq> Leaf"
    "set (nodes l) \<inter> (insert y (set (nodes r) \<union> set (nodesc fs))) = {}"
  defines "s' \<equiv> set_parent (ptr l) (Some (Nd y)) (set_left (Nd y) (ptr l) s)"
  shows "tree_ok s' (plug (Node l (y, c) r) fs) \<and> same_out (insert y (set (nodes l))) s s' \<and> rb_parent s' RBTNIL = rb_parent s RBTNIL"
  using assms(1-5) unfolding s'_def tree_ok_plug by (cases l rule: nodes.cases; clarsimp simp: set_defs same_out_def Int_Un_distrib Int_Un_distrib2)

text \<open>The successor takes the place of a node with two children.\<close>

definition put_succ :: "'p node \<Rightarrow> 'p node \<Rightarrow> 'p rbt \<Rightarrow> 'p rbt" where
  "put_succ z y t1 =
    (let t2 = ndx_rbt_transplant z y t1;
         t3 = set_left y (rb_left t2 z) t2;
         t4 = set_parent (rb_left t3 y) (Some y) t3
     in set_color y (rb_color t4 z) t4)"

lemma rep_same:
  assumes "same_out N s s'" "set (nodes t) \<inter> N = {}"
  shows "rep_in s' up t = rep_in s up t"
  using assms(2)
proof (induction t arbitrary: up rule: nodes.induct)
  case (2 l p c r)
  then have "p \<notin> N" "set (nodes l) \<inter> N = {}" "set (nodes r) \<inter> N = {}" by auto
  then show ?case using 2 assms(1) by (simp add: same_out_def)
qed simp

lemma put_succ_ok:
  assumes y: "rep_in s up (Node Leaf (y, cy) r)" and z: "repc_in s (Nd z) fs" "rb_parent s (Nd z) = par_of fs" "rb_color s RBTNIL = RBTBLACK"
      "rb_left s (Nd z) = ptr l" "rb_color s (Nd z) = c" "rep_in s up' l" "l \<noteq> Leaf"
    and d: "distinct (y # z # nodes r @ nodes l @ nodesc fs)"
  shows "tree_ok (put_succ (Nd z) (Nd y) s) (plug (Node l (y, c) r) fs) \<and> rb_parent (put_succ (Nd z) (Nd y) s) RBTNIL = rb_parent s RBTNIL \<and>
    same_out (insert y (set (nodes r) \<union> set (nodes l) \<union> set (nodesc fs))) s (put_succ (Nd z) (Nd y) s)"
proof -
  let ?N = "insert y (set (nodes r) \<union> set (nodes l) \<union> set (nodesc fs))"
  define t2 where "t2 = ndx_rbt_transplant (Nd z) (Nd y) s"
  define t4 where "t4 = set_parent (ptr l) (Some (Nd y)) (set_left (Nd y) (ptr l) t2)"
  have T: "tree_ok t2 (plug (Node Leaf (y, cy) r) fs)" "same_out (insert y (set (nodes r) \<union> set (nodesc fs))) s t2" "rb_parent t2 RBTNIL = rb_parent s RBTNIL"
    using transplant_ok[OF y z(1-3)] d by (auto simp: t2_def)
  have L: "rep_in t2 up' l" using rep_same[OF T(2), of l up'] d z(6) by auto
  have A: "tree_ok t4 (plug (Node l (y, cy) r) fs)" "same_out (insert y (set (nodes l))) t2 t4" "rb_parent t4 RBTNIL = rb_parent t2 RBTNIL"
    using attach_left[OF T(1) L _ z(7)] d by (auto simp: t4_def)
  have zf: "rb_left t2 (Nd z) = ptr l" "rb_color t4 (Nd z) = c" using T(2) A(2) d z(4,5) by (auto simp: same_out_def)
  have e: "put_succ (Nd z) (Nd y) s = set_color (Nd y) c t4"
    using zf by (simp add: put_succ_def Let_def t2_def[symmetric] t4_def) (simp add: set_defs)
  have "same_out ?N s t4" using same_out_trans[OF same_out_mono[OF T(2), of ?N] same_out_mono[OF A(2), of ?N]] by auto
  then have "same_out ?N s (set_color (Nd y) c t4)" using same_out_trans[of ?N s t4] by (auto simp: same_out_def set_color_def)
  then show ?thesis using recolor(1)[OF A(1), of c] A(3) T(3) unfolding e by simp
qed

lemma minimum_ok:
  assumes "rep_in s up r" "r \<noteq> Leaf"
  shows "\<exists>y cy yr gs. r = plug (Node Leaf (y, cy) yr) gs \<and> lefts gs = [] \<and> ndrx_rbt_tree_minimum s (ptr r) = Some (Nd y)"
  using assms
proof (induction r arbitrary: up rule: nodes.induct)
  case (2 l p c r)
  show ?case
  proof (cases "l = Leaf")
    case True
    then have "ndrx_rbt_tree_minimum s (Nd p) = Some (Nd p)" using 2(3) by (subst ndrx_rbt_tree_minimum.simps) simp
    then show ?thesis using True by (intro exI[of _ p] exI[of _ c] exI[of _ r] exI[of _ "[]"]) simp
  next
    case False
    have l: "rep_in s (Some (Nd p)) l" "rb_left s (Nd p) = ptr l" using 2(3) by auto
    obtain y cy yr gs where "l = plug (Node Leaf (y, cy) yr) gs" "lefts gs = []" "ndrx_rbt_tree_minimum s (ptr l) = Some (Nd y)"
      using "2.IH"(1)[OF l(1) False] by blast
    moreover have "ndrx_rbt_tree_minimum s (Nd p) = ndrx_rbt_tree_minimum s (ptr l)"
      using l(2) False by (subst ndrx_rbt_tree_minimum.simps) simp
    moreover have "lefts (gs @ [InLeft p c r]) = lefts gs" by (induction gs rule: lefts.induct) auto
    ultimately show ?thesis by (intro exI[of _ y] exI[of _ cy] exI[of _ yr] exI[of _ "gs @ [InLeft p c r]"]) (simp add: plug_append)
  qed
qed simp

text \<open>The first part of a deletion: the colour that went, the subtree that moved, and the memory.\<close>

definition rbt_unlink :: "'p rbt \<Rightarrow> 'p node \<Rightarrow> (rbt_color \<times> 'p node \<times> 'p rbt) option" where
  "rbt_unlink s z =
    (if rb_left s z = RBTNIL
     then Some (rb_color s z, rb_right s z, ndx_rbt_transplant z (rb_right s z) s)
     else if rb_right s z = RBTNIL
     then Some (rb_color s z, rb_left s z, ndx_rbt_transplant z (rb_left s z) s)
     else do {
       y \<leftarrow> ndrx_rbt_tree_minimum s (rb_right s z);
       let t1 = (if rb_parent s y = Some z then set_parent (rb_right s y) (Some y) s
         else let u1 = ndx_rbt_transplant y (rb_right s y) s;
                  u2 = set_right y (rb_right u1 z) u1
           in set_parent (rb_right u2 y) (Some y) u2);
       Some (rb_color s y, rb_right s y, put_succ z y t1)
     })"

lemma delete_node_unlink:
  "ndrx_rbt_delete_node freefunc s z = do {
     (y_original_color, x, s1) \<leftarrow> rbt_unlink s z;
     s2 \<leftarrow> (if y_original_color = RBTBLACK then ndrx_rbt_delete_fixup x s1 else Some s1);
     Some (case freefunc of Some f \<Rightarrow> f z s2 | None \<Rightarrow> s2)
   }"
  unfolding ndrx_rbt_delete_node_def rbt_unlink_def put_succ_def Let_def by (rule refl)

definition unlinked :: "'p rbt \<Rightarrow> 'p list \<Rightarrow> 'p set \<Rightarrow> rbt_color \<Rightarrow> 'p node \<Rightarrow> 'p rbt \<Rightarrow> bool" where
  "unlinked s N M col x s1 \<longleftrightarrow> (\<exists>t gs. x = ptr t \<and> tree_ok s1 (plug t gs) \<and> nodes (plug t gs) = N \<and> same_out M s s1 \<and>
     (col = RBTBLACK \<longrightarrow> short s1 t gs) \<and> (col = RBTRED \<longrightarrow> balanced (plug t gs)))"

lemma invc_black: "invc t \<Longrightarrow> invc (black t)"
  by (cases t rule: nodes.cases) auto

lemma unlink_single:
  assumes ok: "tree_ok s (plug (Node l (z, c) r) fs)" and b: "balanced (plug (Node l (z, c) r) fs)" and t: "t = r \<and> l = Leaf \<or> t = l \<and> r = Leaf"
  shows "unlinked s (lefts fs @ nodes l @ nodes r @ rights fs) (set (nodes (plug (Node l (z, c) r) fs))) c (ptr t) (ndx_rbt_transplant (Nd z) (ptr t) s)"
proof -
  let ?s = "ndx_rbt_transplant (Nd z) (ptr t) s"
  have u: "tree_ok ?s (plug t fs)" "rb_parent ?s (ptr t) = par_of fs" "same_out (set (nodes (plug (Node l (z, c) r) fs))) s ?s"
    using unlink_right[OF ok] unlink_left[OF ok] t same_out_mono[of _ s ?s "set (nodes (plug (Node l (z, c) r) fs))"]
    by (auto simp: set_nodes_plug)
  have i: "invh t" "invc t" "okc (bh (Node l (z, c) r)) c fs" "bh (Node l (z, c) r) = (if c = RBTBLACK then bh t + 1 else bh t)"
    "c = RBTRED \<longrightarrow> colr t = RBTBLACK" using b t by (auto simp: balanced_plug)
  then have "c = RBTBLACK \<longrightarrow> short ?s t fs" "c = RBTRED \<longrightarrow> balanced (plug t fs)"
    using u by (auto simp: short_def balanced_plug intro: okc_black invc_black)
  moreover have "nodes (plug t fs) = lefts fs @ nodes l @ nodes r @ rights fs" using t by (auto simp: nodes_plug_eq)
  ultimately show ?thesis unfolding unlinked_def using u by blast
qed

lemma okc_rename: "okc h e (gs @ InRight l z c # fs) = okc h e (gs @ InRight l y c # fs)"
  by (induction h e gs rule: okc.induct) auto

text \<open>Before the successor is put in its place.\<close>

lemma succ_ready:
  assumes ok: "tree_ok s (plug (Node Leaf (y, cy) yr) (gs @ InRight l z c # fs))"
  defines "t1 \<equiv> (if rb_parent s (Nd y) = Some (Nd z) then set_parent (rb_right s (Nd y)) (Some (Nd y)) s
         else let u1 = ndx_rbt_transplant (Nd y) (rb_right s (Nd y)) s;
                  u2 = set_right (Nd y) (rb_right u1 (Nd z)) u1
           in set_parent (rb_right u2 (Nd y)) (Some (Nd y)) u2)"
  shows "(\<exists>up. rep_in t1 up (Node Leaf (y, cy) (plug yr gs))) \<and> repc_in t1 (Nd z) fs \<and> rb_parent t1 (Nd z) = par_of fs \<and>
    rb_color t1 RBTNIL = RBTBLACK \<and> rb_left t1 (Nd z) = ptr l \<and> rb_color t1 (Nd z) = c \<and> rep_in t1 (Some (Nd z)) l \<and>
    (yr = Leaf \<longrightarrow> rb_parent t1 RBTNIL = par_of (gs @ [InRight l y c])) \<and>
    same_out (set (nodes (plug (Node Leaf (y, cy) yr) (gs @ InRight l z c # fs)))) s t1"
proof (cases "gs = []")
  case True
  have n: "rb_parent s (Nd y) = Some (Nd z)" "rb_right s (Nd y) = ptr yr" using at_node[OF ok] True by simp_all
  have z: "tree_ok s (plug (Node l (z, c) (Node Leaf (y, cy) yr)) fs)" using ok True by simp
  have t1: "t1 = set_parent (ptr yr) (Some (Nd y)) s" using n by (simp add: t1_def)
  have so: "same_out (set (nodes (plug (Node Leaf (y, cy) yr) (gs @ InRight l z c # fs)))) s t1"
    unfolding t1 using True by (cases yr rule: nodes.cases) (auto simp: same_out_def set_defs set_nodes_plug)
  have "t1 = s" if "yr \<noteq> Leaf"
    using that z unfolding t1 tree_ok_plug by (cases yr rule: nodes.cases) (auto simp: set_defs fun_upd_idem)
  then show ?thesis using z so True unfolding tree_ok_plug
    by (cases "yr = Leaf") (auto simp: t1 set_defs)
next
  case False
  let ?F = "gs @ InRight l z c # fs"
  define r' where "r' = plug yr gs"
  have r': "r' \<noteq> Leaf" using False unfolding r'_def by (rule plug_not_Leaf)
  have y: "rb_right s (Nd y) = ptr yr" "rb_left s (Nd y) = RBTNIL" "rb_color s (Nd y) = cy" "rb_parent s (Nd y) = par_of gs"
    using at_node[OF ok] False by (simp_all add: par_of_append)
  have d: "distinct (y # nodes yr @ nodesc ?F)" using ok unfolding tree_ok_plug by simp
  then have up: "par_of gs \<noteq> Some (Nd z)" using False by (cases gs rule: nodesc.cases) (auto simp: nodesc_append)
  define u1 where "u1 = ndx_rbt_transplant (Nd y) (ptr yr) s"
  have u: "tree_ok u1 (plug yr ?F)" "rb_parent u1 (ptr yr) = par_of ?F" "same_out (set (nodes yr) \<union> set (nodesc ?F)) s u1"
    using unlink_right[OF ok] by (auto simp: u1_def)
  have z: "tree_ok u1 (plug (Node l (z, c) r') fs)" using u(1) by (simp add: plug_append r'_def)
  have y1: "rb_left u1 (Nd y) = RBTNIL" "rb_color u1 (Nd y) = cy" using u(3) y d by (simp_all add: same_out_def)
  have n: "set (nodes r') = set (nodes yr) \<union> set (nodesc gs)" by (simp add: r'_def set_nodes_plug)
  then have yn: "y \<notin> set (nodes r')" "y \<noteq> z" "y \<notin> set (nodes l)" "y \<notin> set (nodesc fs)" using d by (auto simp: nodesc_append)
  have t1: "t1 = set_parent (ptr r') (Some (Nd y)) (set_right (Nd y) (ptr r') u1)"
    using y up at_node(3)[OF z] by (simp add: t1_def Let_def u1_def[symmetric] set_right_def)
  have so: "same_out (set (nodes (plug (Node Leaf (y, cy) yr) ?F))) s t1"
  proof -
    have "same_out (set (nodes (plug (Node Leaf (y, cy) yr) ?F))) s u1"
      by (rule same_out_mono[OF u(3)]) (auto simp: set_nodes_plug)
    moreover have "same_out (insert y (set (nodes r'))) u1 t1"
      unfolding t1 using r' by (cases r' rule: nodes.cases) (auto simp: same_out_def set_defs)
    ultimately show ?thesis
      by (rule same_out_trans[OF _ same_out_mono]) (auto simp: n set_nodes_plug nodesc_append)
  qed
  have "yr = Leaf \<longrightarrow> rb_parent t1 RBTNIL = par_of (gs @ [InRight l y c])"
    unfolding t1 using r' u(2) False by (cases r' rule: nodes.cases) (auto simp: set_defs par_of_append)
  then show ?thesis using z so r' yn y1 unfolding r'_def[symmetric] tree_ok_plug t1
    by (cases r' rule: nodes.cases; clarsimp simp: set_defs)
qed

lemma unlink_two:
  assumes ok: "tree_ok s (plug (Node l (z, c) r) fs)" and b: "balanced (plug (Node l (z, c) r) fs)" and lr: "l \<noteq> Leaf" "r \<noteq> Leaf"
  shows "\<exists>col x s1. rbt_unlink s (Nd z) = Some (col, x, s1) \<and>
    unlinked s (lefts fs @ nodes l @ nodes r @ rights fs) (set (nodes (plug (Node l (z, c) r) fs))) col x s1"
proof -
  let ?M = "set (nodes (plug (Node l (z, c) r) fs))"
  note n = at_node[OF ok]
  have "rep_in s (Some (Nd z)) r" using ok unfolding tree_ok_plug by simp
  then obtain y cy yr gs where y: "r = plug (Node Leaf (y, cy) yr) gs" "lefts gs = []" "ndrx_rbt_tree_minimum s (ptr r) = Some (Nd y)"
    using minimum_ok lr(2) by blast
  have ok': "tree_ok s (plug (Node Leaf (y, cy) yr) (gs @ InRight l z c # fs))" using ok y(1) by (simp add: plug_append)
  define t1 where "t1 = (if rb_parent s (Nd y) = Some (Nd z) then set_parent (rb_right s (Nd y)) (Some (Nd y)) s
         else let u1 = ndx_rbt_transplant (Nd y) (rb_right s (Nd y)) s;
                  u2 = set_right (Nd y) (rb_right u1 (Nd z)) u1
           in set_parent (rb_right u2 (Nd y)) (Some (Nd y)) u2)"
  note ready = succ_ready[OF ok', folded t1_def]
  obtain up where up: "rep_in t1 up (Node Leaf (y, cy) (plug yr gs))" using ready by blast
  have "distinct (nodes (Node l (z, c) r) @ nodesc fs)" using ok unfolding tree_ok_plug by simp
  then have d: "distinct (y # z # nodes (plug yr gs) @ nodes l @ nodesc fs)" by (auto simp: y(1,2) nodes_plug_eq)
  let ?s = "put_succ (Nd z) (Nd y) t1" and ?F = "gs @ InRight l y c # fs"
  have put: "tree_ok ?s (plug (Node l (y, c) (plug yr gs)) fs)" "rb_parent ?s RBTNIL = rb_parent t1 RBTNIL"
    "same_out (insert y (set (nodes (plug yr gs)) \<union> set (nodes l) \<union> set (nodesc fs))) t1 ?s"
    using put_succ_ok[OF up, of z fs l c "Some (Nd z)"] ready lr(1) d by auto
  have t: "tree_ok ?s (plug yr ?F)" using put(1) by (simp add: plug_append)
  have "yr = Leaf \<Longrightarrow> rb_parent t1 RBTNIL = par_of ?F" using ready by (simp add: par_of_append split: if_splits)
  then have par: "rb_parent ?s (ptr yr) = par_of ?F" using parent_kept[OF t put(2)] by simp
  have so: "same_out ?M s ?s"
    using ready same_out_trans[OF _ same_out_mono[OF put(3)], of ?M s] by (auto simp: y(1) plug_append set_nodes_plug)
  have bal: "balanced (plug (Node Leaf (y, cy) yr) (gs @ InRight l z c # fs))" using b y(1) by (simp add: plug_append)
  have "cy = RBTBLACK \<longrightarrow> short ?s yr ?F" "cy = RBTRED \<longrightarrow> balanced (plug yr ?F)"
    using bal t par unfolding short_def balanced_plug okc_rename[of _ _ gs l z c fs y] by (auto intro: okc_black invc_black)
  moreover have "nodes (plug yr ?F) = lefts fs @ nodes l @ nodes r @ rights fs"
    by (simp add: plug_append nodes_plug_eq y(1,2))
  ultimately have "unlinked s (lefts fs @ nodes l @ nodes r @ rights fs) ?M cy (ptr yr) ?s"
    unfolding unlinked_def using t so by blast
  moreover have "rbt_unlink s (Nd z) = Some (cy, ptr yr, ?s)"
    using n lr y(3) at_node[OF ok'] by (simp add: rbt_unlink_def t1_def)
  ultimately show ?thesis by blast
qed

lemma rbt_delete_ok:
  assumes ok: "tree_ok s T" and b: "balanced T" and z: "z \<in> set (nodes T)"
  shows "\<exists>s' T'. ndrx_rbt_delete None s (Nd z) = Some s' \<and> tree_ok s' T' \<and> balanced T' \<and> nodes T' = remove1 z (nodes T) \<and>
    same_out (set (nodes T)) s s'"
proof -
  obtain l c r fs where T: "T = plug (Node l (z, c) r) fs" using node_place[OF z] by blast
  let ?N = "lefts fs @ nodes l @ nodes r @ rights fs"
  note ok' = ok[unfolded T] and b' = b[unfolded T]
  note n = at_node[OF ok']
  have "\<exists>col x s1. rbt_unlink s (Nd z) = Some (col, x, s1) \<and> unlinked s ?N (set (nodes T)) col x s1"
  proof (cases "l = Leaf \<or> r = Leaf")
    case True
    then show ?thesis using n unlink_single[OF ok' b', of r] unlink_single[OF ok' b', of l] unfolding T
      by (cases "l = Leaf") (auto simp: rbt_unlink_def)
  next
    case False
    then show ?thesis using unlink_two[OF ok' b'] unfolding T by simp
  qed
  then obtain col x s1 t gs where u: "rbt_unlink s (Nd z) = Some (col, x, s1)" "x = ptr t" "tree_ok s1 (plug t gs)" "nodes (plug t gs) = ?N"
      "same_out (set (nodes T)) s s1" "col = RBTBLACK \<longrightarrow> short s1 t gs" "col = RBTRED \<longrightarrow> balanced (plug t gs)"
    by (auto simp: unlinked_def)
  have "distinct (nodes T)" using ok by (simp add: tree_ok_def)
  then have N: "?N = remove1 z (nodes T)" "set ?N \<subseteq> set (nodes T)" by (auto simp: T nodes_plug_eq remove1_append)
  have "\<exists>s2. (if col = RBTBLACK then ndrx_rbt_delete_fixup x s1 else Some s1) = Some s2 \<and> repaired s1 ?N s2"
  proof (cases col)
    case RBTBLACK
    then show ?thesis using delete_fixup_repairs[of s1 t gs] u by simp
  next
    case RBTRED
    then show ?thesis using u by (auto simp: repaired_def)
  qed
  then obtain s2 T' where r: "(if col = RBTBLACK then ndrx_rbt_delete_fixup x s1 else Some s1) = Some s2" "tree_ok s2 T'" "balanced T'" "nodes T' = ?N"
      "same_out (set ?N) s1 s2" by (auto simp: repaired_def)
  have "ndrx_rbt_delete None s (Nd z) = Some s2"
    using u(1) r(1) by (simp add: ndrx_rbt_delete_def delete_node_unlink)
  then show ?thesis using r(2-4) N same_out_trans[OF u(5) same_out_mono[OF r(5) N(2)]] by (intro exI[of _ s2] exI[of _ T']) simp
qed

end
