(* ===== verification/Rbtree_Walk.thy ===== *)
theory Rbtree_Walk
  imports Rbtree_Unlink
begin

text \<open>
  Reading a red-black tree: searches, the first and the last node, and walks in both directions.
\<close>

section \<open>The ends\<close>

lemma nodes_Nil [simp]: "nodes t = [] \<longleftrightarrow> t = Leaf"
  by (cases t rule: nodes.cases) auto

lemma leftmost_loop: "rep_in s up t \<Longrightarrow> rbt_leftmost_loop s (ptr t) m = Some (if t = Leaf then m else Nd (hd (nodes t)))"
proof (induction t arbitrary: up m rule: nodes.induct)
  case 1
  then show ?case by (subst rbt_leftmost_loop.simps) simp
next
  case (2 l p c r)
  have "rep_in s (Some (Nd p)) l" "rb_left s (Nd p) = ptr l" using 2(3) by auto
  then show ?case using "2.IH"(1)[of "Some (Nd p)" "Nd p"] by (subst rbt_leftmost_loop.simps) (simp add: hd_append)
qed

lemma rightmost_loop: "rep_in s up t \<Longrightarrow> rbt_rightmost_loop s (ptr t) m = Some (if t = Leaf then m else Nd (last (nodes t)))"
proof (induction t arbitrary: up m rule: nodes.induct)
  case 1
  then show ?case by (subst rbt_rightmost_loop.simps) simp
next
  case (2 l p c r)
  have "rep_in s (Some (Nd p)) r" "rb_right s (Nd p) = ptr r" using 2(3) by auto
  then show ?case using "2.IH"(2)[of "Some (Nd p)" "Nd p"] by (subst rbt_rightmost_loop.simps) simp
qed

lemma leftmost_ok:
  assumes "tree_ok s T"
  shows "ndrx_rbt_leftmost s = Some (if nodes T = [] then None else Some (Nd (hd (nodes T))))"
  using leftmost_loop[of s None T RBTNIL] leftmost_loop[of s None T "ptr T"] assms
  by (auto simp: tree_ok_def ndrx_rbt_leftmost_def)

lemma rightmost_ok:
  assumes "tree_ok s T"
  shows "ndrx_rbt_rightmost s = Some (if nodes T = [] then None else Some (Nd (last (nodes T))))"
  using rightmost_loop[of s None T "ptr T"] assms by (auto simp: tree_ok_def ndrx_rbt_rightmost_def)

lemma empty_ok: "tree_ok s T \<Longrightarrow> ndrx_rbt_is_empty s \<longleftrightarrow> nodes T = []"
  by (simp add: tree_ok_def ndrx_rbt_is_empty_def)

lemma init_ok: "rb_color s RBTNIL = RBTBLACK \<Longrightarrow> tree_ok (ndrx_rbt_init s) Leaf"
  by (simp add: tree_ok_def ndrx_rbt_init_def)

section \<open>Searches\<close>

lemma find_none: "\<forall>q \<in> set xs. \<not> P q \<Longrightarrow> find P xs = None"
  by (simp add: find_None_iff)

definition key_above :: "('p \<Rightarrow> 'k::linorder) \<Rightarrow> bool \<Rightarrow> 'p \<Rightarrow> 'p \<Rightarrow> bool" where
  "key_above key eq x q \<longleftrightarrow> key x < key q \<or> eq \<and> key x = key q"

definition key_below :: "('p \<Rightarrow> 'k::linorder) \<Rightarrow> bool \<Rightarrow> 'p \<Rightarrow> 'p \<Rightarrow> bool" where
  "key_below key eq x q \<longleftrightarrow> key q < key x \<or> eq \<and> key x = key q"

context rbt_order
begin

lemma ordered_node:
  assumes "ordered key C (nodes (Node l (p, c) r))"
  shows "p \<in> C" "ordered key C (nodes l)" "ordered key C (nodes r)" "\<forall>a \<in> set (nodes l). key a < key p" "\<forall>a \<in> set (nodes r). key p < key a"
  using assms by (auto simp: ordered_def sorted_wrt_append)

lemma find_loop:
  assumes "rep_in s up t" "ordered key C (nodes t)" "x \<in> C"
  shows "rbt_find_loop cmp (Nd x) s (ptr t) = Some (map_option Nd (find (\<lambda>q. key q = key x) (nodes t)))"
  using assms
proof (induction t arbitrary: up rule: nodes.induct)
  case 1
  then show ?case by (subst rbt_find_loop.simps) simp
next
  case (2 l p c r)
  note o = ordered_node[OF "2.prems"(2)]
  have ch: "rep_in s (Some (Nd p)) l" "rep_in s (Some (Nd p)) r" "rb_left s (Nd p) = ptr l" "rb_right s (Nd p) = ptr r"
    using "2.prems"(1) by auto
  note IH = "2.IH"(1)[OF ch(1) o(2) "2.prems"(3)] "2.IH"(2)[OF ch(2) o(3) "2.prems"(3)]
  note law = cmp_less[OF "2.prems"(3) o(1)] cmp_zero[OF "2.prems"(3) o(1)]
  consider "key x = key p" | "key x < key p" | "key p < key x" by force
  then show ?case
  proof cases
    case 1
    then have "find (\<lambda>q. key q = key x) (nodes l) = None" using o(4) by (intro find_none) auto
    then show ?thesis using 1 law by (subst rbt_find_loop.simps) (simp add: Let_def find_append)
  next
    case 2
    then have "find (\<lambda>q. key q = key x) (nodes r) = None" using o(5) by (intro find_none) auto
    then show ?thesis using 2 law IH ch(3) by (subst rbt_find_loop.simps) (simp add: Let_def find_append split: option.split)
  next
    case 3
    then have n: "find (\<lambda>q. key q = key x) (nodes l) = None" using o(4) by (intro find_none) auto
    have "\<not> cmp (Nd x) (Nd p) < 0" "cmp (Nd x) (Nd p) \<noteq> 0" "key p \<noteq> key x" using 3 law by auto
    then show ?thesis using n IH ch(4) by (subst rbt_find_loop.simps) (simp add: Let_def find_append)
  qed
qed

lemma find_ok:
  assumes "tree_ok s T" "ordered key C (nodes T)" "x \<in> C"
  shows "ndrx_rbt_find cmp s (Nd x) = Some (map_option Nd (find (\<lambda>q. key q = key x) (nodes T)))"
  using find_loop[of s None T x] assms by (simp add: tree_ok_def ndrx_rbt_find_def)

lemma great_loop:
  assumes "rep_in s up t" "ordered key C (nodes t)" "x \<in> C"
  shows "rbt_great_loop cmp (Nd x) eq s (ptr t) g =
    Some (case find (key_above key eq x) (nodes t) of Some q \<Rightarrow> Some (Nd q) | None \<Rightarrow> g)"
  using assms
proof (induction t arbitrary: up g rule: nodes.induct)
  case 1
  then show ?case by (subst rbt_great_loop.simps) simp
next
  case (2 l p c r)
  note o = ordered_node[OF "2.prems"(2)]
  have ch: "rep_in s (Some (Nd p)) l" "rep_in s (Some (Nd p)) r" "rb_left s (Nd p) = ptr l" "rb_right s (Nd p) = ptr r"
    using "2.prems"(1) by auto
  note IH = "2.IH"(1)[OF ch(1) o(2) "2.prems"(3)] "2.IH"(2)[OF ch(2) o(3) "2.prems"(3)]
  note law = cmp_less[OF "2.prems"(3) o(1)] cmp_zero[OF "2.prems"(3) o(1)]
  consider "key x < key p" | "\<not> key x < key p" "eq \<and> key x = key p" | "\<not> key x < key p" "\<not> (eq \<and> key x = key p)" by blast
  then show ?case
  proof cases
    case 1
    then have "key_above key eq x p" "cmp (Nd x) (Nd p) < 0" using law by (auto simp: key_above_def)
    then show ?thesis using IH ch(3) by (subst rbt_great_loop.simps) (simp add: Let_def find_append split: option.split)
  next
    case 2
    then have "find (key_above key eq x) (nodes l) = None" using o(4) by (intro find_none) (auto simp: key_above_def)
    moreover have "key_above key eq x p" "cmp (Nd x) (Nd p) = 0" using 2 law by (auto simp: key_above_def)
    ultimately show ?thesis using 2 by (subst rbt_great_loop.simps) (simp add: Let_def find_append)
  next
    case 3
    then have "find (key_above key eq x) (nodes l) = None" using o(4) by (intro find_none) (auto simp: key_above_def)
    moreover have "\<not> key_above key eq x p" "\<not> cmp (Nd x) (Nd p) < 0" "eq \<longrightarrow> cmp (Nd x) (Nd p) \<noteq> 0" using 3 law by (auto simp: key_above_def)
    ultimately show ?thesis using IH ch(4) by (subst rbt_great_loop.simps) (auto simp: Let_def find_append)
  qed
qed

lemma less_loop:
  assumes "rep_in s up t" "ordered key C (nodes t)" "x \<in> C"
  shows "rbt_less_loop cmp (Nd x) eq s (ptr t) g =
    Some (case find (key_below key eq x) (rev (nodes t)) of Some q \<Rightarrow> Some (Nd q) | None \<Rightarrow> g)"
  using assms
proof (induction t arbitrary: up g rule: nodes.induct)
  case 1
  then show ?case by (subst rbt_less_loop.simps) simp
next
  case (2 l p c r)
  note o = ordered_node[OF "2.prems"(2)]
  have ch: "rep_in s (Some (Nd p)) l" "rep_in s (Some (Nd p)) r" "rb_left s (Nd p) = ptr l" "rb_right s (Nd p) = ptr r"
    using "2.prems"(1) by auto
  note IH = "2.IH"(1)[OF ch(1) o(2) "2.prems"(3)] "2.IH"(2)[OF ch(2) o(3) "2.prems"(3)]
  note law = cmp_less[OF "2.prems"(3) o(1)] cmp_zero[OF "2.prems"(3) o(1)]
  consider "key p < key x" | "\<not> key p < key x" "eq \<and> key x = key p" | "\<not> key p < key x" "\<not> (eq \<and> key x = key p)" by blast
  then show ?case
  proof cases
    case 1
    then have "key_below key eq x p" "\<not> cmp (Nd x) (Nd p) < 0" "cmp (Nd x) (Nd p) \<noteq> 0" using law by (auto simp: key_below_def)
    then show ?thesis using IH ch(4) by (subst rbt_less_loop.simps) (simp add: Let_def find_append split: option.split)
  next
    case 2
    then have "find (key_below key eq x) (rev (nodes r)) = None" using o(5) by (intro find_none) (auto simp: key_below_def)
    moreover have "key_below key eq x p" "cmp (Nd x) (Nd p) = 0" using 2 law by (auto simp: key_below_def)
    ultimately show ?thesis using 2 by (subst rbt_less_loop.simps) (simp add: Let_def find_append)
  next
    case 3
    then have "find (key_below key eq x) (rev (nodes r)) = None" using o(5) by (intro find_none) (auto simp: key_below_def)
    moreover have "\<not> key_below key eq x p" "\<not> cmp (Nd x) (Nd p) > 0" "eq \<longrightarrow> cmp (Nd x) (Nd p) \<noteq> 0" using 3 law by (auto simp: key_below_def)
    ultimately show ?thesis using IH ch(3) by (subst rbt_less_loop.simps) (auto simp: Let_def find_append)
  qed
qed

lemma find_great_ok:
  assumes "tree_ok s T" "ordered key C (nodes T)" "x \<in> C"
  shows "ndrx_rbt_find_great cmp s (Nd x) eq = Some (map_option Nd (find (key_above key eq x) (nodes T)))"
  using great_loop[of s None T x eq None] assms by (simp add: tree_ok_def ndrx_rbt_find_great_def split: option.split)

lemma find_less_ok:
  assumes "tree_ok s T" "ordered key C (nodes T)" "x \<in> C"
  shows "ndrx_rbt_find_less cmp s (Nd x) eq = Some (map_option Nd (find (key_below key eq x) (rev (nodes T))))"
  using less_loop[of s None T x eq None] assms by (simp add: tree_ok_def ndrx_rbt_find_less_def split: option.split)

end

section \<open>Walks\<close>

lemma iter_down_ok: "rep_in s up t \<Longrightarrow> t \<noteq> Leaf \<Longrightarrow> iter_down (rb_left s) (ptr t) = Some (Nd (hd (nodes t)))"
proof (induction t arbitrary: up rule: nodes.induct)
  case (2 l p c r)
  have "rep_in s (Some (Nd p)) l" "rb_left s (Nd p) = ptr l" using 2(3) by auto
  then show ?case using "2.IH"(1)[of "Some (Nd p)"] by (subst iter_down.simps) (auto simp: hd_append)
qed simp

lemma iter_up_ok:
  assumes "tree_ok s (plug t fs)" "t \<noteq> Leaf"
  shows "iter_up (rb_left s) (rb_parent s) (ptr t) = Some (case rights fs of [] \<Rightarrow> None | q # _ \<Rightarrow> Some (Nd q))"
  using assms
proof (induction t fs rule: plug.induct)
  case (1 t)
  obtain l p c r where "t = Node l (p, c) r" using "1.prems"(2) by (cases t rule: nodes.cases) auto
  then have "rb_parent s (ptr t) = None" using "1.prems"(1) at_node(4)[of s l p c r "[]"] by simp
  then show ?case by (subst iter_up.simps) simp
next
  case (2 t p c r fs)
  obtain l q d r' where t: "t = Node l (q, d) r'" using "2.prems"(2) by (cases t rule: nodes.cases) auto
  have "rb_parent s (ptr t) = Some (Nd p)" using "2.prems"(1) at_node(4)[of s l q d r' "InLeft p c r # fs"] t by simp
  moreover have "rb_left s (Nd p) = ptr t" using "2.prems"(1) at_node(2)[of s t p c r fs] by simp
  ultimately show ?case by (subst iter_up.simps) simp
next
  case (3 t l p c fs)
  obtain l' q d r' where t: "t = Node l' (q, d) r'" using "3.prems"(2) by (cases t rule: nodes.cases) auto
  have ok: "tree_ok s (plug (Node l (p, c) t) fs)" using "3.prems"(1) by simp
  have "rb_parent s (ptr t) = Some (Nd p)" using "3.prems"(1) at_node(4)[of s l' q d r' "InRight l p c # fs"] t by simp
  moreover have "rb_left s (Nd p) \<noteq> ptr t" using at_node(2)[OF ok] children_differ[OF ok] "3.prems"(2) by simp
  ultimately show ?case using "3.IH"[OF ok] by (subst iter_up.simps) simp
qed

definition iter_at :: "'p list \<Rightarrow> 'p rbt_iter \<Rightarrow> 'p node option \<times> 'p rbt_iter" where
  "iter_at ys iter = (case ys of
     [] \<Rightarrow> (None, iter\<lparr>it_last_visited := None, it_is_over := True\<rparr>)
   | q # _ \<Rightarrow> (Some (Nd q), iter\<lparr>it_last_visited := Some (Nd q)\<rparr>))"

lemma next_ok:
  assumes "tree_ok s T" "nodes T = xs @ p # ys" "it_last_visited iter = Some (Nd p)"
  shows "rbt_left_right_iterator s iter = Some (iter_at ys iter)"
proof -
  obtain l c r fs where T: "T = plug (Node l (p, c) r) fs" using node_place[of p T] assms(2) by auto
  have ok: "tree_ok s (plug (Node l (p, c) r) fs)" using assms(1) T by simp
  have "(lefts fs @ nodes l) @ p # nodes r @ rights fs = xs @ p # ys"
    using assms(2) by (simp add: T nodes_plug_eq)
  moreover have "p \<notin> set (lefts fs @ nodes l)" "p \<notin> set (nodes r @ rights fs)" using ok by (auto simp: tree_ok_def nodes_plug_eq)
  ultimately have ys: "ys = nodes r @ rights fs" using append_Cons_eq_iff[of p "lefts fs @ nodes l" "nodes r @ rights fs" xs ys] by simp
  show ?thesis
  proof (cases "r = Leaf")
    case True
    then show ?thesis using iter_up_ok[OF ok] at_node(3)[OF ok] assms(3) ys
      by (simp add: rbt_left_right_iterator_def iter_at_def split: list.split)
  next
    case False
    have "rep_in s (Some (Nd p)) r" using ok unfolding tree_ok_plug by simp
    moreover obtain q qs where "nodes r = q # qs" using False by (cases "nodes r") auto
    ultimately show ?thesis using iter_down_ok[OF _ False] at_node(3)[OF ok] assms(3) ys False
      by (simp add: rbt_left_right_iterator_def iter_at_def)
  qed
qed

lemma first_ok:
  assumes "tree_ok s T" "nodes T \<noteq> []" "it_last_visited iter = None"
  shows "rbt_left_right_iterator s iter = Some (iter_at (nodes T) iter)"
  using iter_down_ok[of s None T] assms
  by (auto simp: rbt_left_right_iterator_def iter_at_def tree_ok_def split: list.split)

text \<open>A step from the right is a step from the left over the mirrored tree.\<close>

lemma right_left_mir: "rbt_right_left_iterator s iter = rbt_left_right_iterator (mir s) iter"
  unfolding rbt_right_left_iterator_def rbt_left_right_iterator_def mir_simps ..

definition in_order :: "order_control \<Rightarrow> 'p rtree \<Rightarrow> 'p list" where
  "in_order ctrl T = (case ctrl of LeftRightWalk \<Rightarrow> nodes T | RightLeftWalk \<Rightarrow> rev (nodes T))"

lemma iterate_first:
  assumes "tree_ok s T" "nodes T \<noteq> []" "it_last_visited iter = None" "\<not> it_is_over iter"
  shows "ndrx_rbt_iterate s iter = Some (iter_at (in_order (it_order iter) T) iter)"
  using first_ok[of s T iter] first_ok[of "mir s" "mirror T" iter] assms
  by (cases "it_order iter") (simp_all add: ndrx_rbt_iterate_def in_order_def right_left_mir)

lemma iterate_next:
  assumes "tree_ok s T" "in_order (it_order iter) T = xs @ p # ys" "it_last_visited iter = Some (Nd p)" "\<not> it_is_over iter"
  shows "ndrx_rbt_iterate s iter = Some (iter_at ys iter)"
  using next_ok[of s T xs p ys iter] next_ok[of "mir s" "mirror T" xs p ys iter] assms
  by (cases "it_order iter") (simp_all add: ndrx_rbt_iterate_def in_order_def right_left_mir)

lemma walk_rest:
  assumes "tree_ok s T" "in_order (it_order iter) T = xs @ p # ys" "it_last_visited iter = Some (Nd p)" "\<not> it_is_over iter"
  shows "rbt_walk s iter = Some (map Nd ys)"
  using assms
proof (induction ys arbitrary: xs p iter)
  case Nil
  then show ?case using iterate_next[OF Nil.prems] by (subst rbt_walk.simps) (simp add: iter_at_def)
next
  case (Cons q ys)
  then have "rbt_walk s (iter\<lparr>it_last_visited := Some (Nd q)\<rparr>) = Some (map Nd ys)"
    using Cons.IH[of "iter\<lparr>it_last_visited := Some (Nd q)\<rparr>" "xs @ [p]" q] by simp
  then show ?case using iterate_next[OF Cons.prems] by (subst rbt_walk.simps) (simp add: iter_at_def)
qed

lemma walk_ok:
  assumes "tree_ok s T"
  shows "rbt_walk s (ndrx_rbt_begin_iterate s ctrl) = Some (map Nd (in_order ctrl T))"
proof (cases "in_order ctrl T")
  case Nil
  then show ?thesis using assms
    by (subst rbt_walk.simps) (auto simp: ndrx_rbt_iterate_def ndrx_rbt_begin_iterate_def tree_ok_def in_order_def split: order_control.splits)
next
  case (Cons p ys)
  let ?it = "ndrx_rbt_begin_iterate s ctrl"
  have n: "nodes T \<noteq> []" using Cons by (auto simp: in_order_def split: order_control.splits)
  then have it: "\<not> it_is_over ?it" "it_order ?it = ctrl" "it_last_visited ?it = None"
    using assms by (auto simp: ndrx_rbt_begin_iterate_def tree_ok_def)
  then have "ndrx_rbt_iterate s ?it = Some (Some (Nd p), ?it\<lparr>it_last_visited := Some (Nd p)\<rparr>)"
    using iterate_first[OF assms n] Cons by (simp add: iter_at_def)
  then show ?thesis using walk_rest[OF assms, of "?it\<lparr>it_last_visited := Some (Nd p)\<rparr>" "[]" p ys] Cons it
    by (subst rbt_walk.simps) simp
qed

end
