(* ===== verification/Rbtree_Set.thy ===== *)
theory Rbtree_Set
  imports Rbtree_Walk
begin

text \<open>
  A red-black tree as its clients see it: a set of nodes that is kept in the order of their keys.  Several trees
  share one memory, so an operation on one of them is followed by a frame lemma for the others.
\<close>

definition rbt_holds :: "('p \<Rightarrow> 'k::linorder) \<Rightarrow> 'p set \<Rightarrow> 'p rbt \<Rightarrow> 'p set \<Rightarrow> bool" where
  "rbt_holds key C s A \<longleftrightarrow> (\<exists>T. tree_ok s T \<and> balanced T \<and> ordered key C (nodes T) \<and> set (nodes T) = A)"

lemma holds_carrier: "rbt_holds key C s A \<Longrightarrow> A \<subseteq> C"
  by (auto simp: rbt_holds_def ordered_def)

lemma holds_finite: "rbt_holds key C s A \<Longrightarrow> finite A"
  by (auto simp: rbt_holds_def)

lemma holds_black: "rbt_holds key C s A \<Longrightarrow> rb_color s RBTNIL = RBTBLACK"
  by (auto simp: rbt_holds_def tree_ok_def)

lemma holds_init: "rb_color s RBTNIL = RBTBLACK \<Longrightarrow> rbt_holds key C (ndrx_rbt_init s) {}"
  using init_ok[of s] by (auto simp: rbt_holds_def ordered_def balanced_def intro!: exI[of _ Leaf])

lemma holds_empty_iff: "rbt_holds key C s A \<Longrightarrow> ndrx_rbt_is_empty s \<longleftrightarrow> A = {}"
  by (auto simp: rbt_holds_def dest: empty_ok)

lemma rep_frame:
  assumes "rep_in s up t" "same_out N s s'" "N \<inter> set (nodes t) = {}"
  shows "rep_in s' up t"
  using assms by (induction t arbitrary: up rule: nodes.induct) (auto simp: same_out_def)

lemma holds_frame:
  assumes "rbt_holds key C s A" "same_out N s s'" "N \<inter> A = {}" "rb_color s' RBTNIL = RBTBLACK" "rb_root s' = rb_root s"
  shows "rbt_holds key C s' A"
proof -
  obtain T where T: "tree_ok s T" "balanced T" "ordered key C (nodes T)" "set (nodes T) = A" using assms(1) by (auto simp: rbt_holds_def)
  have "rep_in s' None T" using rep_frame[OF _ assms(2), of None T] T(1,4) assms(3) by (simp add: tree_ok_def)
  then have "tree_ok s' T" using T(1) assms(4,5) by (simp add: tree_ok_def)
  then show ?thesis using T by (auto simp: rbt_holds_def)
qed

lemma sorted_wrt_remove1: "sorted_wrt P xs \<Longrightarrow> sorted_wrt P (remove1 x xs)"
  by (induction xs) (auto dest: notin_set_remove1 intro: subsetD[OF set_remove1_subset])

lemma ordered_cong: "(\<And>a. a \<in> set ps \<Longrightarrow> key' a = key a) \<Longrightarrow> set ps \<subseteq> C' \<Longrightarrow> ordered key C ps \<Longrightarrow> ordered key' C' ps"
  unfolding ordered_def by (metis (no_types, lifting) sorted_wrt_mono_rel)

lemma holds_cong:
  assumes "rbt_holds key C s A" "\<And>a. a \<in> A \<Longrightarrow> key' a = key a" "A \<subseteq> C'"
  shows "rbt_holds key' C' s A"
  using assms(1) ordered_cong[of _ key' key C' C] assms(2,3) unfolding rbt_holds_def by metis

lemma holds_leftmost:
  assumes "rbt_holds key C s A"
  shows "A = {} \<and> ndrx_rbt_leftmost s = Some None \<or>
    (\<exists>p \<in> A. ndrx_rbt_leftmost s = Some (Some (Nd p)) \<and> (\<forall>q \<in> A. q \<noteq> p \<longrightarrow> key p < key q))"
proof -
  obtain T where T: "tree_ok s T" "ordered key C (nodes T)" "set (nodes T) = A" using assms by (auto simp: rbt_holds_def)
  show ?thesis using leftmost_ok[OF T(1)] T(2,3) by (cases "nodes T") (auto simp: ordered_def)
qed

lemma holds_rightmost:
  assumes "rbt_holds key C s A"
  shows "A = {} \<and> ndrx_rbt_rightmost s = Some None \<or>
    (\<exists>p \<in> A. ndrx_rbt_rightmost s = Some (Some (Nd p)) \<and> (\<forall>q \<in> A. q \<noteq> p \<longrightarrow> key q < key p))"
proof -
  obtain T where T: "tree_ok s T" "ordered key C (nodes T)" "set (nodes T) = A" using assms by (auto simp: rbt_holds_def)
  show ?thesis using rightmost_ok[OF T(1)] T(2,3) by (cases "nodes T" rule: rev_cases) (auto simp: ordered_def sorted_wrt_append)
qed

lemma holds_delete:
  assumes "rbt_holds key C s A" "p \<in> A"
  shows "\<exists>s'. ndrx_rbt_delete None s (Nd p) = Some s' \<and> rbt_holds key C s' (A - {p}) \<and> same_out A s s'"
proof -
  obtain T where T: "tree_ok s T" "balanced T" "ordered key C (nodes T)" "set (nodes T) = A" using assms(1) by (auto simp: rbt_holds_def)
  obtain s' T' where s': "ndrx_rbt_delete None s (Nd p) = Some s'" "tree_ok s' T'" "balanced T'" "nodes T' = remove1 p (nodes T)"
      "same_out (set (nodes T)) s s'"
    using rbt_delete_ok[OF T(1,2), of p] assms(2) T(4) by auto
  have "ordered key C (nodes T')"
    using T(3) set_remove1_subset[of p "nodes T"] by (auto simp: s'(4) ordered_def sorted_wrt_remove1)
  moreover have "set (nodes T') = A - {p}" using T(1,4) by (simp add: s'(4) tree_ok_def)
  ultimately show ?thesis using s' T(4) by (auto simp: rbt_holds_def)
qed

context rbt_order
begin


lemma holds_insert:
  assumes "rbt_holds key C s A" "x \<in> C" "\<forall>q \<in> A. key q \<noteq> key x"
  shows "\<exists>s'. ndrx_rbt_insert cmp combiner s (Nd x) = Some (Nd x, True, s') \<and> rbt_holds key C s' (insert x A) \<and> same_out (insert x A) s s'"
proof -
  obtain T where T: "tree_ok s T" "balanced T" "ordered key C (nodes T)" "set (nodes T) = A" using assms(1) by (auto simp: rbt_holds_def)
  have "\<forall>q \<in> set (nodes T). key q \<noteq> key x" using assms(3) T(4) by simp
  then obtain s' T' where s': "ndrx_rbt_insert cmp combiner s (Nd x) = Some (Nd x, True, s')" "tree_ok s' T'" "balanced T'"
      "ordered key C (nodes T')" "nodes T' = insort_key key x (nodes T)" "same_out (insert x (set (nodes T))) s s'"
    using insert_new[OF T(1-3) assms(2), of combiner] by blast
  then have "set (nodes T') = insert x A" using T(4) by (simp add: set_insort_key)
  then show ?thesis using s' T(4) by (auto simp: rbt_holds_def)
qed

lemma holds_found:
  assumes "rbt_holds key C s A" "x \<in> C" "q \<in> A" "key q = key x"
  shows "ndrx_rbt_insert cmp combiner s (Nd x) = map_option (\<lambda>s'. (Nd q, False, s')) (combiner (Nd q) (Nd x) s)"
  using assms insert_found[of s _ x q combiner] by (auto simp: rbt_holds_def)

end

end
