(* ===== verification/Rbtree_Run.thy ===== *)
theory Rbtree_Run
  imports Rbtree_Set
begin

text \<open>
  Runs of operations on a red-black tree against a sorted list, and the height of the tree.
\<close>

section \<open>Height\<close>

lemma height_bh: "invc t \<Longrightarrow> invh t \<Longrightarrow> height t \<le> 2 * bh t + (if colr t = RBTRED then 1 else 0)"
proof (induction t rule: nodes.induct)
  case (2 l p c r)
  then have "height l \<le> 2 * bh l + (if colr l = RBTRED then 1 else 0)" "height r \<le> 2 * bh l + (if colr r = RBTRED then 1 else 0)" by auto
  then show ?case using "2.prems" by (cases c) (auto split: if_splits)
qed simp

lemma size_bh: "invh t \<Longrightarrow> 2 ^ bh t \<le> length (nodes t) + 1"
proof (induction t rule: nodes.induct)
  case (2 l p c r)
  then have "2 ^ bh l \<le> length (nodes l) + 1" "2 ^ bh l \<le> length (nodes r) + 1" by auto
  then show ?case by simp
qed simp

lemma balanced_height: "balanced t \<Longrightarrow> 2 ^ height t \<le> (length (nodes t) + 1)\<^sup>2"
proof -
  assume b: "balanced t"
  then have "height t \<le> 2 * bh t" using height_bh[of t] by (auto simp: balanced_def)
  then have "(2::nat) ^ height t \<le> 2 ^ (2 * bh t)" by simp
  also have "\<dots> = (2 ^ bh t)\<^sup>2" by (simp add: power_even_eq)
  also have "\<dots> \<le> (length (nodes t) + 1)\<^sup>2" using size_bh[of t] b by (intro power_mono) (auto simp: balanced_def)
  finally show ?thesis .
qed

section \<open>Runs\<close>

datatype 'p rbt_op = RInsert 'p | RDelete 'p | RFind 'p | RGreat 'p bool | RLess 'p bool | RFirst | RLast | RWalk order_control

fun answer :: "'a option \<Rightarrow> 'a list" where
  "answer None = []"
| "answer (Some a) = [a]"

text \<open>The combiner of these runs leaves the node that was found as it is.\<close>

definition keep_found :: "'p node \<Rightarrow> 'p node \<Rightarrow> 'p rbt \<Rightarrow> 'p rbt option" where
  "keep_found existing newdata s = Some s"

fun rbt_step :: "('p node \<Rightarrow> 'p node \<Rightarrow> int) \<Rightarrow> 'p rbt_op \<Rightarrow> 'p rbt \<Rightarrow> ('p node list \<times> 'p rbt) option" where
  "rbt_step cmp (RInsert x) s = map_option (\<lambda>(n, isNew, s'). ([n], s')) (ndrx_rbt_insert cmp keep_found s (Nd x))"
| "rbt_step cmp (RDelete x) s = map_option (Pair []) (ndrx_rbt_delete None s (Nd x))"
| "rbt_step cmp (RFind x) s = map_option (\<lambda>n. (answer n, s)) (ndrx_rbt_find cmp s (Nd x))"
| "rbt_step cmp (RGreat x eq) s = map_option (\<lambda>n. (answer n, s)) (ndrx_rbt_find_great cmp s (Nd x) eq)"
| "rbt_step cmp (RLess x eq) s = map_option (\<lambda>n. (answer n, s)) (ndrx_rbt_find_less cmp s (Nd x) eq)"
| "rbt_step cmp RFirst s = map_option (\<lambda>n. (answer n, s)) (ndrx_rbt_leftmost s)"
| "rbt_step cmp RLast s = map_option (\<lambda>n. (answer n, s)) (ndrx_rbt_rightmost s)"
| "rbt_step cmp (RWalk ctrl) s = map_option (\<lambda>ns. (ns, s)) (rbt_walk s (ndrx_rbt_begin_iterate s ctrl))"

fun rbt_run :: "('p node \<Rightarrow> 'p node \<Rightarrow> int) \<Rightarrow> 'p rbt_op list \<Rightarrow> 'p rbt \<Rightarrow> ('p node list list \<times> 'p rbt) option" where
  "rbt_run cmp [] s = Some ([], s)"
| "rbt_run cmp (op # ops) s = do {
     (a, s1) \<leftarrow> rbt_step cmp op s;
     (as, s2) \<leftarrow> rbt_run cmp ops s1;
     Some (a # as, s2)
   }"

fun sorted_step :: "('p \<Rightarrow> 'k::linorder) \<Rightarrow> 'p rbt_op \<Rightarrow> 'p list \<Rightarrow> 'p list \<times> 'p list" where
  "sorted_step key (RInsert x) xs =
    (case find (\<lambda>q. key q = key x) xs of Some q \<Rightarrow> ([q], xs) | None \<Rightarrow> ([x], insort_key key x xs))"
| "sorted_step key (RDelete x) xs = ([], remove1 x xs)"
| "sorted_step key (RFind x) xs = (answer (find (\<lambda>q. key q = key x) xs), xs)"
| "sorted_step key (RGreat x eq) xs = (answer (find (\<lambda>q. key x < key q \<or> eq \<and> key x = key q) xs), xs)"
| "sorted_step key (RLess x eq) xs = (answer (find (\<lambda>q. key q < key x \<or> eq \<and> key x = key q) (rev xs)), xs)"
| "sorted_step key RFirst xs = (take 1 xs, xs)"
| "sorted_step key RLast xs = (take 1 (rev xs), xs)"
| "sorted_step key (RWalk ctrl) xs = ((case ctrl of LeftRightWalk \<Rightarrow> xs | RightLeftWalk \<Rightarrow> rev xs), xs)"

fun sorted_run :: "('p \<Rightarrow> 'k::linorder) \<Rightarrow> 'p rbt_op list \<Rightarrow> 'p list \<Rightarrow> 'p list list \<times> 'p list" where
  "sorted_run key [] xs = ([], xs)"
| "sorted_run key (op # ops) xs =
    (let (a, xs1) = sorted_step key op xs; (as, xs2) = sorted_run key ops xs1 in (a # as, xs2))"

text \<open>What the callers owe: nodes with a valid key, and deletions of nodes of the tree only.\<close>

fun op_ok :: "'p set \<Rightarrow> 'p rbt_op \<Rightarrow> 'p list \<Rightarrow> bool" where
  "op_ok C (RDelete x) xs = (x \<in> set xs)"
| "op_ok C (RInsert x) xs = (x \<in> C)"
| "op_ok C (RFind x) xs = (x \<in> C)"
| "op_ok C (RGreat x eq) xs = (x \<in> C)"
| "op_ok C (RLess x eq) xs = (x \<in> C)"
| "op_ok C _ xs = True"

fun run_ok :: "('p \<Rightarrow> 'k::linorder) \<Rightarrow> 'p set \<Rightarrow> 'p rbt_op list \<Rightarrow> 'p list \<Rightarrow> bool" where
  "run_ok key C [] xs = True"
| "run_ok key C (op # ops) xs = (op_ok C op xs \<and> run_ok key C ops (snd (sorted_step key op xs)))"

definition rbt_is :: "('p \<Rightarrow> 'k::linorder) \<Rightarrow> 'p set \<Rightarrow> 'p rbt \<Rightarrow> 'p list \<Rightarrow> bool" where
  "rbt_is key C s xs \<longleftrightarrow> (\<exists>T. tree_ok s T \<and> balanced T \<and> ordered key C (nodes T) \<and> nodes T = xs)"

lemma answer_map [simp]: "answer (map_option f a) = map f (answer a)"
  by (cases a) auto

context rbt_order
begin

lemma insert_step:
  assumes "rbt_is key C s xs" "x \<in> C"
  shows "\<exists>s'. rbt_step cmp (RInsert x) s = Some (map Nd (fst (sorted_step key (RInsert x) xs)), s') \<and>
    rbt_is key C s' (snd (sorted_step key (RInsert x) xs))"
proof -
  obtain T where T: "tree_ok s T" "balanced T" "ordered key C (nodes T)" "nodes T = xs" using assms(1) by (auto simp: rbt_is_def)
  show ?thesis
  proof (cases "find (\<lambda>q. key q = key x) xs")
    case None
    then have "\<forall>q \<in> set (nodes T). key q \<noteq> key x" using T(4) by (auto simp: find_None_iff)
    from insert_new[OF T(1-3) assms(2) this, of keep_found] show ?thesis using None T(4) by (auto simp: rbt_is_def)
  next
    case (Some q)
    then have "q \<in> set (nodes T)" "key q = key x" using T(4) by (auto simp: find_Some_iff)
    from insert_found[OF T(1,3) assms(2) this] show ?thesis using Some assms(1) by (simp add: keep_found_def)
  qed
qed

lemma step_ok:
  assumes "rbt_is key C s xs" "op_ok C op xs"
  shows "\<exists>s'. rbt_step cmp op s = Some (map Nd (fst (sorted_step key op xs)), s') \<and> rbt_is key C s' (snd (sorted_step key op xs))"
proof -
  obtain T where T: "tree_ok s T" "balanced T" "ordered key C (nodes T)" "nodes T = xs" using assms(1) by (auto simp: rbt_is_def)
  show ?thesis
  proof (cases op)
    case (RInsert x)
    then show ?thesis using insert_step[OF assms(1)] assms(2) by simp
  next
    case (RDelete x)
    then obtain s' T' where s': "ndrx_rbt_delete None s (Nd x) = Some s'" "tree_ok s' T'" "balanced T'" "nodes T' = remove1 x xs"
      using rbt_delete_ok[OF T(1,2), of x] assms(2) T(4) by auto
    then have "ordered key C (nodes T')" using T(3,4) set_remove1_subset[of x xs] by (auto simp: ordered_def sorted_wrt_remove1)
    then show ?thesis using RDelete s' by (auto simp: rbt_is_def)
  next
    case (RFind x)
    then show ?thesis using find_ok[OF T(1,3)] assms T(4) by simp
  next
    case (RGreat x eq)
    then show ?thesis using find_great_ok[OF T(1,3)] assms T(4) by (simp add: key_above_def[abs_def])
  next
    case (RLess x eq)
    then show ?thesis using find_less_ok[OF T(1,3)] assms T(4) by (simp add: key_below_def[abs_def])
  next
    case RFirst
    then show ?thesis using leftmost_ok[OF T(1)] assms(1) T(4) by (cases xs) auto
  next
    case RLast
    then show ?thesis using rightmost_ok[OF T(1)] assms(1) T(4) by (cases xs rule: rev_cases) auto
  next
    case (RWalk ctrl)
    then show ?thesis using walk_ok[OF T(1), of ctrl] assms(1) T(4) by (cases ctrl) (simp_all add: in_order_def)
  qed
qed

lemma run_refines_sorted:
  "rbt_is key C s xs \<Longrightarrow> run_ok key C ops xs \<Longrightarrow>
   \<exists>s'. rbt_run cmp ops s = Some (map (map Nd) (fst (sorted_run key ops xs)), s') \<and> rbt_is key C s' (snd (sorted_run key ops xs))"
proof (induction ops arbitrary: s xs)
  case (Cons op ops)
  obtain s1 where s1: "rbt_step cmp op s = Some (map Nd (fst (sorted_step key op xs)), s1)" "rbt_is key C s1 (snd (sorted_step key op xs))"
    using step_ok[OF Cons.prems(1)] Cons.prems(2) by auto
  then show ?case using Cons.IH[OF s1(2)] Cons.prems(2) by (auto simp: case_prod_beta Let_def)
qed auto

end

text \<open>C16: the red-black trees do what a sorted list does.  For a comparison function that orders the
  nodes by their keys, every sequence of insertions, deletions, searches and walks on a tree that starts empty returns,
  every answer is the one of the same sequence on a sorted list, an insertion of a key that is there finds the node
  that has it, and in the end the tree is a red-black tree: its height is at most twice the logarithm of its size.\<close>

theorem rbt_refines_sorted_list:
  assumes "\<And>a b. a \<in> C \<Longrightarrow> b \<in> C \<Longrightarrow> (cmp (Nd a) (Nd b) < 0 \<longleftrightarrow> key a < key b) \<and> (cmp (Nd a) (Nd b) = 0 \<longleftrightarrow> key a = key b)"
    and "rb_color s RBTNIL = RBTBLACK" "run_ok key C ops []" "sorted_run key ops [] = (answers, xs)"
  shows "\<exists>s' T. rbt_run cmp ops (ndrx_rbt_init s) = Some (map (map Nd) answers, s') \<and>
    tree_ok s' T \<and> nodes T = xs \<and> sorted_wrt (\<lambda>a b. key a < key b) xs \<and> balanced T \<and> 2 ^ height T \<le> (length xs + 1)\<^sup>2"
proof -
  have "rbt_is key C (ndrx_rbt_init s) []"
    using init_ok[OF assms(2)] by (auto simp: rbt_is_def ordered_def balanced_def intro!: exI[of _ Leaf])
  moreover have "rbt_order cmp key C" using assms(1) by unfold_locales auto
  ultimately obtain s' where "rbt_run cmp ops (ndrx_rbt_init s) = Some (map (map Nd) answers, s')" "rbt_is key C s' xs"
    using rbt_order.run_refines_sorted[of cmp key C "ndrx_rbt_init s" "[]" ops] assms(3,4) by auto
  then show ?thesis using balanced_height by (fastforce simp: rbt_is_def ordered_def)
qed

fun node_diff :: "int node \<Rightarrow> int node \<Rightarrow> int" where
  "node_diff (Nd a) (Nd b) = a - b"
| "node_diff _ _ = 0"

definition no_nodes :: "'p rbt" where
  "no_nodes = \<lparr>rb_color = (\<lambda>n. RBTBLACK), rb_left = (\<lambda>n. RBTNIL), rb_right = (\<lambda>n. RBTNIL), rb_parent = (\<lambda>n. None), rb_root = RBTNIL\<rparr>"

theorem rbt_refines_sorted_list_witness:
  "\<exists>s' T. rbt_run node_diff [RInsert 3, RInsert 1, RInsert 2, RFind 1, RDelete 1, RFirst, RWalk RightLeftWalk] (ndrx_rbt_init no_nodes) =
      Some ([[Nd 3], [Nd 1], [Nd 2], [Nd 1], [], [Nd 2], [Nd 3, Nd 2]], s') \<and> tree_ok s' T \<and> nodes T = [2, 3] \<and> balanced T"
  using rbt_refines_sorted_list[of UNIV node_diff "\<lambda>a. a" no_nodes
      "[RInsert 3, RInsert 1, RInsert 2, RFind 1, RDelete 1, RFirst, RWalk RightLeftWalk]" "[[3], [1], [2], [1], [], [2], [3, 2]]" "[2, 3]"]
  by (auto simp: no_nodes_def)

end
