(* ===== verification/Tmq_Order.thy ===== *)
theory Tmq_Order
  imports Rbtree_Run "HOL-Library.Word" "HOL-Library.Product_Lexorder"
begin

text \<open>
  The messages of the persistent queue and the orders of its three kinds of trees (tmqueue/rbtsupp.c).  A message carries two
  tree nodes: \<open>Cur\<close> for the tree of current or of future messages, \<open>Cor\<close> for the tree of its correlator.  The
  comparison functions subtract C longs and return the difference as an int, so they give the order of the stamps
  only as long as the differences fit.
\<close>

section \<open>Messages\<close>

record tmq_msg =
  hdr_qname :: string
  hdr_msgid :: "8 word list"
  lockthreadid :: "64 word"
  msg_status :: char
  trycounter :: "64 word"
  msgtstamp :: "64 word"
  msgtstamp_usec :: "64 word"
  msgtstamp_cntr :: "32 word"
  trytstamp :: "64 word"
  trytstamp_usec :: "64 word"
  qctl_flags :: "64 word"
  qctl_deq_time :: "64 word"
  qctl_corrid :: "8 word list"

datatype tnode = Cur nat | Cor nat

text \<open>The message around a node; a cast of a node of the other kind has no meaning.\<close>

fun cur_msg :: "tnode node \<Rightarrow> nat" where
  "cur_msg (Nd (Cur m)) = m"

fun TMQ_COR_GETMSG :: "tnode node \<Rightarrow> nat" where
  "TMQ_COR_GETMSG (Nd (Cor m)) = m"

section \<open>Comparison\<close>

text \<open>The conversion of a long to an int.\<close>

definition long_to_int :: "64 word \<Rightarrow> int" where
  "long_to_int x = sint (ucast x :: 32 word)"

definition int_to_long :: "32 word \<Rightarrow> 64 word" where
  "int_to_long x = scast x"

definition ndrx_compare3 :: "64 word \<Rightarrow> 64 word \<Rightarrow> 64 word \<Rightarrow> 64 word \<Rightarrow> 64 word \<Rightarrow> 64 word \<Rightarrow> int" where
  "ndrx_compare3 a1 a2 a3 b1 b2 b3 =
    (let res1 = a1 - b1; res2 = a2 - b2; res3 = a3 - b3 in
     if res1 \<noteq> 0 then long_to_int res1
     else if res2 \<noteq> 0 then long_to_int res2
     else long_to_int res3)"

definition ndrx_compare4 ::
  "64 word \<Rightarrow> 64 word \<Rightarrow> 64 word \<Rightarrow> 64 word \<Rightarrow> 64 word \<Rightarrow> 64 word \<Rightarrow> 64 word \<Rightarrow> 64 word \<Rightarrow> int" where
  "ndrx_compare4 a1 a2 a3 a4 b1 b2 b3 b4 =
    (let res1 = a1 - b1; res2 = a2 - b2; res3 = a3 - b3; res4 = a4 - b4 in
     if res1 \<noteq> 0 then long_to_int res1
     else if res2 \<noteq> 0 then long_to_int res2
     else if res3 \<noteq> 0 then long_to_int res3
     else long_to_int res4)"

definition tmq_rbt_cmp_cur :: "(nat \<Rightarrow> tmq_msg) \<Rightarrow> tnode node \<Rightarrow> tnode node \<Rightarrow> int" where
  "tmq_rbt_cmp_cur msgs a b =
    (let aa = msgs (cur_msg a); bb = msgs (cur_msg b) in
     ndrx_compare3 (msgtstamp aa) (msgtstamp_usec aa) (int_to_long (msgtstamp_cntr aa))
       (msgtstamp bb) (msgtstamp_usec bb) (int_to_long (msgtstamp_cntr bb)))"

definition tmq_rbt_cmp_cor :: "(nat \<Rightarrow> tmq_msg) \<Rightarrow> tnode node \<Rightarrow> tnode node \<Rightarrow> int" where
  "tmq_rbt_cmp_cor msgs a b =
    (let aa = msgs (TMQ_COR_GETMSG a); bb = msgs (TMQ_COR_GETMSG b) in
     ndrx_compare3 (msgtstamp aa) (msgtstamp_usec aa) (int_to_long (msgtstamp_cntr aa))
       (msgtstamp bb) (msgtstamp_usec bb) (int_to_long (msgtstamp_cntr bb)))"

definition tmq_rbt_cmp_fut :: "(nat \<Rightarrow> tmq_msg) \<Rightarrow> tnode node \<Rightarrow> tnode node \<Rightarrow> int" where
  "tmq_rbt_cmp_fut msgs a b =
    (let aa = msgs (cur_msg a); bb = msgs (cur_msg b) in
     ndrx_compare4 (qctl_deq_time aa) (msgtstamp aa) (msgtstamp_usec aa) (int_to_long (msgtstamp_cntr aa))
       (qctl_deq_time bb) (msgtstamp bb) (msgtstamp_usec bb) (int_to_long (msgtstamp_cntr bb)))"

text \<open>Two messages with one key end the process: all three call abort().\<close>

definition tmq_rbt_combine_cur :: "tnode node \<Rightarrow> tnode node \<Rightarrow> tnode rbt \<Rightarrow> tnode rbt option" where
  "tmq_rbt_combine_cur existing newdata s = None"

definition tmq_rbt_combine_fut :: "tnode node \<Rightarrow> tnode node \<Rightarrow> tnode rbt \<Rightarrow> tnode rbt option" where
  "tmq_rbt_combine_fut existing newdata s = None"

definition tmq_rbt_combine_cor :: "tnode node \<Rightarrow> tnode node \<Rightarrow> tnode rbt \<Rightarrow> tnode rbt option" where
  "tmq_rbt_combine_cor existing newdata s = None"

section \<open>The order of the stamps\<close>

definition stamp :: "tmq_msg \<Rightarrow> int \<times> int \<times> int" where
  "stamp m = (sint (msgtstamp m), sint (msgtstamp_usec m), sint (msgtstamp_cntr m))"

text \<open>Times within a window of \<open>2 ^ 31\<close> seconds from a base, a bit more than 68 years.\<close>

definition in_window :: "int \<Rightarrow> int \<Rightarrow> bool" where
  "in_window base t \<longleftrightarrow> base \<le> t \<and> t < base + 2 ^ 31"

definition stamp_ok :: "int \<Rightarrow> tmq_msg \<Rightarrow> bool" where
  "stamp_ok base m \<longleftrightarrow> in_window base (sint (msgtstamp m)) \<and> in_window 0 (sint (msgtstamp_usec m)) \<and> in_window 0 (sint (msgtstamp_cntr m))"

definition fut_ok :: "int \<Rightarrow> tmq_msg \<Rightarrow> bool" where
  "fut_ok base m \<longleftrightarrow> stamp_ok base m \<and> in_window base (sint (qctl_deq_time m))"

definition cur_key :: "(nat \<Rightarrow> tmq_msg) \<Rightarrow> tnode \<Rightarrow> int \<times> int \<times> int" where
  "cur_key msgs n = stamp (msgs (cur_msg (Nd n)))"

definition cor_key :: "(nat \<Rightarrow> tmq_msg) \<Rightarrow> tnode \<Rightarrow> int \<times> int \<times> int" where
  "cor_key msgs n = stamp (msgs (TMQ_COR_GETMSG (Nd n)))"

definition fut_key :: "(nat \<Rightarrow> tmq_msg) \<Rightarrow> tnode \<Rightarrow> int \<times> int \<times> int \<times> int" where
  "fut_key msgs n = (sint (qctl_deq_time (msgs (cur_msg (Nd n)))), stamp (msgs (cur_msg (Nd n))))"

definition cur_nodes :: "int \<Rightarrow> (nat \<Rightarrow> tmq_msg) \<Rightarrow> tnode set" where
  "cur_nodes base msgs = Cur ` {m. stamp_ok base (msgs m)}"

definition cor_nodes :: "int \<Rightarrow> (nat \<Rightarrow> tmq_msg) \<Rightarrow> tnode set" where
  "cor_nodes base msgs = Cor ` {m. stamp_ok base (msgs m)}"

definition fut_nodes :: "int \<Rightarrow> (nat \<Rightarrow> tmq_msg) \<Rightarrow> tnode set" where
  "fut_nodes base msgs = Cur ` {m. fut_ok base (msgs m)}"

lemma sub_as_int: "a - b = word_of_int (sint a - sint b)" for a b :: "'a::len word"
  by simp

lemma long_to_int_small: "- (2 ^ 31) \<le> k \<Longrightarrow> k < 2 ^ 31 \<Longrightarrow> long_to_int (word_of_int k) = k"
proof -
  assume k: "- (2 ^ 31) \<le> k" "k < 2 ^ 31"
  have "(ucast (word_of_int k :: 64 word) :: 32 word) = word_of_int k" by transfer simp
  then have "long_to_int (word_of_int k) = sint (word_of_int k :: 32 word)" by (simp add: long_to_int_def)
  also have "\<dots> = signed_take_bit 31 k" by (simp add: signed_of_int)
  also have "\<dots> = k" using k by (intro signed_take_bit_int_eq_self) simp_all
  finally show ?thesis .
qed

lemma long_to_int_diff:
  assumes "in_window base (sint a)" "in_window base (sint b)"
  shows "long_to_int (a - b) = sint a - sint b"
  unfolding sub_as_int[of a b] using assms by (intro long_to_int_small) (auto simp: in_window_def)

lemma sint_int_to_long [simp]: "sint (int_to_long x) = sint x"
  unfolding int_to_long_def by (rule sint_up_scast) (simp add: is_up)

lemma sint_diff_zero: "a - b = 0 \<longleftrightarrow> sint a = sint b" for a b :: "'a::len word"
  by (metis eq_iff_diff_eq_0 signed_word_eqI)

lemma compare3_window:
  assumes "in_window b1 (sint a1)" "in_window b1 (sint c1)" "in_window b2 (sint a2)" "in_window b2 (sint c2)"
    "in_window b3 (sint a3)" "in_window b3 (sint c3)"
  shows "ndrx_compare3 a1 a2 a3 c1 c2 c3 =
    (if sint a1 \<noteq> sint c1 then sint a1 - sint c1 else if sint a2 \<noteq> sint c2 then sint a2 - sint c2 else sint a3 - sint c3)"
  using long_to_int_diff[OF assms(1,2)] long_to_int_diff[OF assms(3,4)] long_to_int_diff[OF assms(5,6)]
    sint_diff_zero[of a1 c1] sint_diff_zero[of a2 c2] by (simp add: ndrx_compare3_def)

lemma compare4_window:
  assumes "in_window b0 (sint a0)" "in_window b0 (sint c0)"
  shows "ndrx_compare4 a0 a1 a2 a3 c0 c1 c2 c3 = (if sint a0 \<noteq> sint c0 then sint a0 - sint c0 else ndrx_compare3 a1 a2 a3 c1 c2 c3)"
  using long_to_int_diff[OF assms(1,2)] sint_diff_zero[of a0 c0] by (simp add: ndrx_compare4_def ndrx_compare3_def Let_def)

lemma stamp_compare:
  assumes "stamp_ok base a" "stamp_ok base b"
  shows "ndrx_compare3 (msgtstamp a) (msgtstamp_usec a) (int_to_long (msgtstamp_cntr a))
      (msgtstamp b) (msgtstamp_usec b) (int_to_long (msgtstamp_cntr b)) < 0 \<longleftrightarrow> stamp a < stamp b"
    "ndrx_compare3 (msgtstamp a) (msgtstamp_usec a) (int_to_long (msgtstamp_cntr a))
      (msgtstamp b) (msgtstamp_usec b) (int_to_long (msgtstamp_cntr b)) = 0 \<longleftrightarrow> stamp a = stamp b"
proof -
  let ?c = "ndrx_compare3 (msgtstamp a) (msgtstamp_usec a) (int_to_long (msgtstamp_cntr a))
      (msgtstamp b) (msgtstamp_usec b) (int_to_long (msgtstamp_cntr b))"
  have c: "?c = (if sint (msgtstamp a) \<noteq> sint (msgtstamp b) then sint (msgtstamp a) - sint (msgtstamp b)
      else if sint (msgtstamp_usec a) \<noteq> sint (msgtstamp_usec b) then sint (msgtstamp_usec a) - sint (msgtstamp_usec b)
      else sint (msgtstamp_cntr a) - sint (msgtstamp_cntr b))"
    using assms compare3_window[of base "msgtstamp a" "msgtstamp b" 0 "msgtstamp_usec a" "msgtstamp_usec b" 0
        "int_to_long (msgtstamp_cntr a)" "int_to_long (msgtstamp_cntr b)"] by (simp add: stamp_ok_def)
  show "?c < 0 \<longleftrightarrow> stamp a < stamp b" "?c = 0 \<longleftrightarrow> stamp a = stamp b" unfolding c by (auto simp: stamp_def)
qed

text \<open>Within the window the three comparison functions give the order of the trees.\<close>

interpretation cur: rbt_order "tmq_rbt_cmp_cur msgs" "cur_key msgs" "cur_nodes base msgs" for msgs base
  by unfold_locales (auto simp: tmq_rbt_cmp_cur_def cur_key_def cur_nodes_def stamp_compare Let_def)

interpretation cor: rbt_order "tmq_rbt_cmp_cor msgs" "cor_key msgs" "cor_nodes base msgs" for msgs base
  by unfold_locales (auto simp: tmq_rbt_cmp_cor_def cor_key_def cor_nodes_def stamp_compare Let_def)

lemma fut_compare:
  assumes "fut_ok base (msgs a)" "fut_ok base (msgs b)"
  shows "tmq_rbt_cmp_fut msgs (Nd (Cur a)) (Nd (Cur b)) =
    (let d = sint (qctl_deq_time (msgs a)) - sint (qctl_deq_time (msgs b)) in
     if d \<noteq> 0 then d else tmq_rbt_cmp_cur msgs (Nd (Cur a)) (Nd (Cur b)))"
  using assms by (simp add: tmq_rbt_cmp_fut_def tmq_rbt_cmp_cur_def Let_def fut_ok_def compare4_window[of base])

interpretation fut: rbt_order "tmq_rbt_cmp_fut msgs" "fut_key msgs" "fut_nodes base msgs" for msgs base
proof (unfold_locales, goal_cases)
  case (1 a b)
  then obtain x y where "a = Cur x" "b = Cur y" "fut_ok base (msgs x)" "fut_ok base (msgs y)" by (auto simp: fut_nodes_def)
  then show ?case using stamp_compare[of base "msgs x" "msgs y"]
    by (auto simp: fut_compare[of base] fut_key_def tmq_rbt_cmp_cur_def Let_def fut_ok_def)
next
  case (2 a b)
  then obtain x y where "a = Cur x" "b = Cur y" "fut_ok base (msgs x)" "fut_ok base (msgs y)" by (auto simp: fut_nodes_def)
  then show ?case using stamp_compare[of base "msgs x" "msgs y"]
    by (auto simp: fut_compare[of base] fut_key_def tmq_rbt_cmp_cur_def Let_def fut_ok_def)
qed

end
