(* ===== verification/Tmq_Inflight.thy ===== *)
theory Tmq_Inflight
  imports Tmq_Order Exhash
begin

text \<open>
  The queues of tmqueue in memory: tmqueue/inflight.c and tmqueue/corhandle.c.  Every message is a struct that is linked at the
  same time into a tree of current or future messages or into the list of messages in flight, into the tree of its
  correlator and into the hash of message identifiers; its \<open>qstate\<close> says into which.  Structs live at addresses of a heap,
  and all trees share the memory of the nodes.  A queue and a correlator are named instead of addressed: the tables
  have one entry for each name.  \<open>None\<close> stands for a run that ends in abort(), in a dangling pointer or not at all.
\<close>

unbundle bit_operations_syntax

section \<open>Structs\<close>

record tmq_memmsg =
  mm_msgid_str :: string
  mm_corrid_str :: string
  mm_corhash :: "string option"
  mm_qconf :: string
  mm_qhash :: string
  mm_msg :: tmq_msg
  mm_qstate :: "16 word"

record tmq_qhash =
  qh_name :: string
  qh_succ :: int
  qh_fail :: int
  qh_numenq :: int
  qh_numdeq :: int
  qh_q :: "tnode node"
  qh_fut :: "tnode node"
  qh_infl :: "nat list"
  qh_corhash :: "(string \<times> tnode node) list"

record tmq_st =
  tq_heap :: "nat \<Rightarrow> tmq_memmsg option"
  links :: "tnode rbt"
  G_msgid_hash :: "(string \<times> nat) list"
  G_qhash :: "tmq_qhash list"

text \<open>What comes from outside while a message is handled: the time, and whether there is memory for a correlator.\<close>

record tmq_env =
  ev_time :: "nat \<Rightarrow> int"
  ev_malloc :: "nat \<Rightarrow> bool"

definition NDRX_TMQ_LOC_INFL :: "16 word" where "NDRX_TMQ_LOC_INFL = 0x0001"
definition NDRX_TMQ_LOC_FUTQ :: "16 word" where "NDRX_TMQ_LOC_FUTQ = 0x0002"
definition NDRX_TMQ_LOC_CURQ :: "16 word" where "NDRX_TMQ_LOC_CURQ = 0x0004"
definition NDRX_TMQ_LOC_CORQ :: "16 word" where "NDRX_TMQ_LOC_CORQ = 0x0008"
definition NDRX_TMQ_LOC_MSGIDHASH :: "16 word" where "NDRX_TMQ_LOC_MSGIDHASH = 0x0010"

lemmas loc_defs = NDRX_TMQ_LOC_INFL_def NDRX_TMQ_LOC_FUTQ_def NDRX_TMQ_LOC_CURQ_def NDRX_TMQ_LOC_CORQ_def NDRX_TMQ_LOC_MSGIDHASH_def

definition TPQCORRID :: "64 word" where "TPQCORRID = 0x00001"
definition TPQTIME_ABS :: "64 word" where "TPQTIME_ABS = 0x00200"
definition TPQPEEK :: "64 word" where "TPQPEEK = 0x01000"

definition QMEOS :: int where "QMEOS = -7"
definition QMEBADQUEUE :: int where "QMEBADQUEUE = -10"
definition QMENOMSG :: int where "QMENOMSG = -11"

section \<open>Memory\<close>

definition msgs :: "tmq_st \<Rightarrow> nat \<Rightarrow> tmq_msg" where
  "msgs st m = mm_msg (the (tq_heap st m))"

definition upd_mmsg :: "nat \<Rightarrow> (tmq_memmsg \<Rightarrow> tmq_memmsg) \<Rightarrow> tmq_st \<Rightarrow> tmq_st" where
  "upd_mmsg m f st = st\<lparr>tq_heap := (tq_heap st)(m := map_option f (tq_heap st m))\<rparr>"

definition upd_qhash :: "string \<Rightarrow> (tmq_qhash \<Rightarrow> tmq_qhash) \<Rightarrow> tmq_st \<Rightarrow> tmq_st" where
  "upd_qhash name f st = st\<lparr>G_qhash := ex_upd qh_name name f (G_qhash st)\<rparr>"

definition tmq_qhash_get :: "string \<Rightarrow> tmq_st \<Rightarrow> tmq_qhash option" where
  "tmq_qhash_get name st = ex_find qh_name name (G_qhash st)"

text \<open>A tree is its root in the memory of all nodes.\<close>

definition tree_at :: "tmq_st \<Rightarrow> tnode node \<Rightarrow> tnode rbt" where
  "tree_at st r = (links st)\<lparr>rb_root := r\<rparr>"

text \<open>The calls \<open>ndrx_rbt_insert\<close> and \<open>ndrx_rbt_delete\<close> on the two trees of a queue.\<close>

definition cur_insert :: "string \<Rightarrow> nat \<Rightarrow> tmq_st \<Rightarrow> tmq_st option" where
  "cur_insert name m st = do {
     qh \<leftarrow> tmq_qhash_get name st;
     (n, isNew, s) \<leftarrow> ndrx_rbt_insert (tmq_rbt_cmp_cur (msgs st)) tmq_rbt_combine_cur (tree_at st (qh_q qh)) (Nd (Cur m));
     Some (upd_qhash name (\<lambda>qh. qh\<lparr>qh_q := rb_root s\<rparr>) (st\<lparr>links := s\<rparr>))
   }"

definition cur_delete :: "string \<Rightarrow> nat \<Rightarrow> tmq_st \<Rightarrow> tmq_st option" where
  "cur_delete name m st = do {
     qh \<leftarrow> tmq_qhash_get name st;
     s \<leftarrow> ndrx_rbt_delete None (tree_at st (qh_q qh)) (Nd (Cur m));
     Some (upd_qhash name (\<lambda>qh. qh\<lparr>qh_q := rb_root s\<rparr>) (st\<lparr>links := s\<rparr>))
   }"

definition fut_insert :: "string \<Rightarrow> nat \<Rightarrow> tmq_st \<Rightarrow> tmq_st option" where
  "fut_insert name m st = do {
     qh \<leftarrow> tmq_qhash_get name st;
     (n, isNew, s) \<leftarrow> ndrx_rbt_insert (tmq_rbt_cmp_fut (msgs st)) tmq_rbt_combine_fut (tree_at st (qh_fut qh)) (Nd (Cur m));
     Some (upd_qhash name (\<lambda>qh. qh\<lparr>qh_fut := rb_root s\<rparr>) (st\<lparr>links := s\<rparr>))
   }"

definition fut_delete :: "string \<Rightarrow> nat \<Rightarrow> tmq_st \<Rightarrow> tmq_st option" where
  "fut_delete name m st = do {
     qh \<leftarrow> tmq_qhash_get name st;
     s \<leftarrow> ndrx_rbt_delete None (tree_at st (qh_fut qh)) (Nd (Cur m));
     Some (upd_qhash name (\<lambda>qh. qh\<lparr>qh_fut := rb_root s\<rparr>) (st\<lparr>links := s\<rparr>))
   }"

text \<open>\<open>CDL_APPEND\<close> and \<open>CDL_DELETE\<close> on the list of messages in flight.\<close>

definition infl_append :: "string \<Rightarrow> nat \<Rightarrow> tmq_st \<Rightarrow> tmq_st option" where
  "infl_append name m st = do {
     qh \<leftarrow> tmq_qhash_get name st;
     Some (upd_qhash name (\<lambda>qh. qh\<lparr>qh_infl := qh_infl qh @ [m]\<rparr>) st)
   }"

definition infl_delete :: "string \<Rightarrow> nat \<Rightarrow> tmq_st \<Rightarrow> tmq_st option" where
  "infl_delete name m st = do {
     qh \<leftarrow> tmq_qhash_get name st;
     Some (upd_qhash name (\<lambda>qh. qh\<lparr>qh_infl := remove1 m (qh_infl qh)\<rparr>) st)
   }"

definition set_qstate :: "nat \<Rightarrow> (16 word \<Rightarrow> 16 word) \<Rightarrow> tmq_st \<Rightarrow> tmq_st" where
  "set_qstate m f st = upd_mmsg m (\<lambda>mm. mm\<lparr>mm_qstate := f (mm_qstate mm)\<rparr>) st"

section \<open>Correlators\<close>

definition tmq_cor_find :: "tmq_qhash \<Rightarrow> string \<Rightarrow> (string \<times> tnode node) option" where
  "tmq_cor_find qh corrid_str = ex_find fst corrid_str (qh_corhash qh)"

definition tmq_cor_add :: "bool \<Rightarrow> string \<Rightarrow> string \<Rightarrow> tmq_st \<Rightarrow> (string option \<times> tmq_st)" where
  "tmq_cor_add malloc_ok name corrid_str st =
    (if malloc_ok
     then (Some corrid_str,
       upd_qhash name (\<lambda>qh. qh\<lparr>qh_corhash := ex_add (corrid_str, rb_root (ndrx_rbt_init (links st))) (qh_corhash qh)\<rparr>) st)
     else (None, st))"

definition tmq_cor_msg_del :: "nat \<Rightarrow> tmq_st \<Rightarrow> tmq_st option" where
  "tmq_cor_msg_del m st = do {
     mm \<leftarrow> tq_heap st m;
     c \<leftarrow> mm_corhash mm;
     qh \<leftarrow> tmq_qhash_get (mm_qhash mm) st;
     (_, corq) \<leftarrow> tmq_cor_find qh c;
     s \<leftarrow> ndrx_rbt_delete None (tree_at st corq) (Nd (Cor m));
     let st1 = upd_mmsg m (\<lambda>mm. mm\<lparr>mm_corhash := None\<rparr>) (st\<lparr>links := s\<rparr>);
     Some (upd_qhash (mm_qhash mm) (\<lambda>qh. qh\<lparr>qh_corhash :=
       (if ndrx_rbt_is_empty s then ex_del fst c (qh_corhash qh) else ex_upd fst c (\<lambda>e. (fst e, rb_root s)) (qh_corhash qh))\<rparr>) st1)
   }"

definition tmq_cor_msg_add :: "tmq_env \<Rightarrow> nat \<Rightarrow> tmq_st \<Rightarrow> (int \<times> tmq_st) option" where
  "tmq_cor_msg_add env m st = do {
     mm \<leftarrow> tq_heap st m;
     qh \<leftarrow> tmq_qhash_get (mm_qhash mm) st;
     let (corhash, st1) = (case tmq_cor_find qh (mm_corrid_str mm) of
         Some e \<Rightarrow> (Some (fst e), st)
       | None \<Rightarrow> tmq_cor_add (ev_malloc env m) (mm_qhash mm) (mm_corrid_str mm) st);
     case corhash of
       None \<Rightarrow> Some (QMEOS, st1)
     | Some c \<Rightarrow> do {
         let st2 = upd_mmsg m (\<lambda>mm. mm\<lparr>mm_corhash := Some c\<rparr>) st1;
         qh2 \<leftarrow> tmq_qhash_get (mm_qhash mm) st2;
         (_, corq) \<leftarrow> tmq_cor_find qh2 c;
         (n, isNew, s) \<leftarrow> ndrx_rbt_insert (tmq_rbt_cmp_cor (msgs st2)) tmq_rbt_combine_cor (tree_at st2 corq) (Nd (Cor m));
         Some (EXSUCCEED, upd_qhash (mm_qhash mm)
           (\<lambda>qh. qh\<lparr>qh_corhash := ex_upd fst c (\<lambda>e. (fst e, rb_root s)) (qh_corhash qh)\<rparr>) (st2\<lparr>links := s\<rparr>))
       }
   }"

section \<open>Moves\<close>

text \<open>A message is not ready before its time.\<close>

definition in_future :: "tmq_env \<Rightarrow> nat \<Rightarrow> tmq_msg \<Rightarrow> bool" where
  "in_future env m msg \<longleftrightarrow> qctl_flags msg AND TPQTIME_ABS \<noteq> 0 \<and> sint (qctl_deq_time msg) > ev_time env m"

text \<open>The correlator part of an insertion into the current messages, with its error.\<close>

definition cor_if_needed :: "tmq_env \<Rightarrow> nat \<Rightarrow> tmq_st \<Rightarrow> (int \<times> tmq_st) option" where
  "cor_if_needed env m st = do {
     mm \<leftarrow> tq_heap st m;
     if qctl_flags (mm_msg mm) AND TPQCORRID \<noteq> 0
     then do {
       (r, st1) \<leftarrow> tmq_cor_msg_add env m st;
       if r \<noteq> EXSUCCEED then Some (EXFAIL, st1)
       else Some (EXSUCCEED, set_qstate m (\<lambda>f. f OR NDRX_TMQ_LOC_CORQ) st1)
     }
     else Some (EXSUCCEED, st)
   }"

text \<open>The choice of the queue for a new message.\<close>

definition addmsg_place :: "tmq_env \<Rightarrow> string \<Rightarrow> nat \<Rightarrow> tmq_st \<Rightarrow> (int \<times> tmq_st) option" where
  "addmsg_place env qhash m st = do {
     mm \<leftarrow> tq_heap st m;
     if lockthreadid (mm_msg mm) \<noteq> 0 then do {
       st1 \<leftarrow> infl_append qhash m st;
       Some (EXSUCCEED, set_qstate m (\<lambda>_. NDRX_TMQ_LOC_INFL) st1)
     }
     else if in_future env m (mm_msg mm) then do {
       st1 \<leftarrow> fut_insert qhash m st;
       Some (EXSUCCEED, set_qstate m (\<lambda>_. NDRX_TMQ_LOC_FUTQ) st1)
     }
     else do {
       st1 \<leftarrow> cur_insert qhash m st;
       cor_if_needed env m (set_qstate m (\<lambda>_. NDRX_TMQ_LOC_CURQ) st1)
     }
   }"

definition ndrx_infl_addmsg :: "tmq_env \<Rightarrow> string \<Rightarrow> string \<Rightarrow> nat \<Rightarrow> tmq_st \<Rightarrow> (int \<times> tmq_st) option" where
  "ndrx_infl_addmsg env qconf qhash m st = do {
     (ret, st1) \<leftarrow> addmsg_place env qhash m (upd_mmsg m (\<lambda>mm. mm\<lparr>mm_qconf := qconf, mm_qhash := qhash\<rparr>) st);
     if ret \<noteq> EXSUCCEED then Some (ret, st1)
     else do {
       mm \<leftarrow> tq_heap st1 m;
       Some (EXSUCCEED, set_qstate m (\<lambda>f. f OR NDRX_TMQ_LOC_MSGIDHASH)
         (st1\<lparr>G_msgid_hash := ex_add (mm_msgid_str mm, m) (G_msgid_hash st1)\<rparr>))
     }
   }"

definition ndrx_infl_mov2infl :: "nat \<Rightarrow> tmq_st \<Rightarrow> (int \<times> tmq_st) option" where
  "ndrx_infl_mov2infl m st = do {
     mm \<leftarrow> tq_heap st m;
     st1 \<leftarrow>
       (if mm_qstate mm AND NDRX_TMQ_LOC_FUTQ \<noteq> 0 then do {
          st1 \<leftarrow> fut_delete (mm_qhash mm) m st;
          Some (set_qstate m (\<lambda>f. f AND NOT NDRX_TMQ_LOC_FUTQ) st1)
        }
        else if mm_qstate mm AND NDRX_TMQ_LOC_CURQ \<noteq> 0 then do {
          st1 \<leftarrow> cur_delete (mm_qhash mm) m st;
          let st2 = set_qstate m (\<lambda>f. f AND NOT NDRX_TMQ_LOC_CURQ) st1;
          if mm_qstate mm AND NDRX_TMQ_LOC_CORQ \<noteq> 0 then do {
            st3 \<leftarrow> tmq_cor_msg_del m st2;
            Some (set_qstate m (\<lambda>f. f AND NOT NDRX_TMQ_LOC_CORQ) st3)
          }
          else Some st2
        }
        else None);
     st4 \<leftarrow> infl_append (mm_qhash mm) m st1;
     Some (EXSUCCEED, set_qstate m (\<lambda>f. f OR NDRX_TMQ_LOC_INFL) st4)
   }"

definition ndrx_infl_mov2cur :: "tmq_env \<Rightarrow> nat \<Rightarrow> tmq_st \<Rightarrow> (int \<times> tmq_st) option" where
  "ndrx_infl_mov2cur env m st = do {
     mm \<leftarrow> tq_heap st m;
     if mm_qstate mm AND NDRX_TMQ_LOC_INFL \<noteq> 0 then do {
       st0 \<leftarrow> infl_delete (mm_qhash mm) m st;
       let st1 = set_qstate m (\<lambda>f. f AND NOT NDRX_TMQ_LOC_INFL) st0;
       if in_future env m (mm_msg mm) then do {
         st2 \<leftarrow> fut_insert (mm_qhash mm) m st1;
         Some (EXSUCCEED, set_qstate m (\<lambda>f. f OR NDRX_TMQ_LOC_FUTQ) st2)
       }
       else do {
         st2 \<leftarrow> cur_insert (mm_qhash mm) m st1;
         cor_if_needed env m (set_qstate m (\<lambda>f. f OR NDRX_TMQ_LOC_CURQ) st2)
       }
     }
     else None
   }"

definition ndrx_infl_delmsg :: "nat \<Rightarrow> tmq_st \<Rightarrow> (int \<times> tmq_st) option" where
  "ndrx_infl_delmsg m st = do {
     mm \<leftarrow> tq_heap st m;
     let f = mm_qstate mm;
     let name = mm_qhash mm;
     st1 \<leftarrow> (if f AND NDRX_TMQ_LOC_CORQ \<noteq> 0 then tmq_cor_msg_del m st else Some st);
     let st2 = (if f AND NDRX_TMQ_LOC_MSGIDHASH \<noteq> 0
       then st1\<lparr>G_msgid_hash := ex_del fst (mm_msgid_str mm) (G_msgid_hash st1)\<rparr> else st1);
     st3 \<leftarrow> (if f AND NDRX_TMQ_LOC_INFL \<noteq> 0 then infl_delete name m st2 else Some st2);
     st4 \<leftarrow> (if f AND NDRX_TMQ_LOC_FUTQ \<noteq> 0 then fut_delete name m st3 else Some st3);
     st5 \<leftarrow> (if f AND NDRX_TMQ_LOC_CURQ \<noteq> 0 then cur_delete name m st4 else Some st4);
     Some (EXSUCCEED, set_qstate m (\<lambda>_. 0) st5)
   }"

partial_function (option) ndrx_infl_fut2cur :: "tmq_env \<Rightarrow> string \<Rightarrow> tmq_st \<Rightarrow> (int \<times> tmq_st) option" where
  "ndrx_infl_fut2cur env name st = do {
     qh \<leftarrow> tmq_qhash_get name st;
     node \<leftarrow> ndrx_rbt_leftmost (tree_at st (qh_fut qh));
     case node of
       None \<Rightarrow> Some (EXSUCCEED, st)
     | Some nd \<Rightarrow> do {
         let m = cur_msg nd;
         mm \<leftarrow> tq_heap st m;
         if sint (qctl_deq_time (mm_msg mm)) \<le> ev_time env m
         then do {
           st1 \<leftarrow> fut_delete (mm_qhash mm) m st;
           st2 \<leftarrow> cur_insert (mm_qhash mm) m (set_qstate m (\<lambda>f. f AND NOT NDRX_TMQ_LOC_FUTQ) st1);
           (r, st3) \<leftarrow> cor_if_needed env m (set_qstate m (\<lambda>f. f OR NDRX_TMQ_LOC_CURQ) st2);
           if r \<noteq> EXSUCCEED then Some (r, st3)
           else ndrx_infl_fut2cur env name st3
         }
         else Some (EXSUCCEED, st)
       }
   }"

end
