(* ===== verification/Tmq_Places.thy ===== *)
theory Tmq_Places
  imports Tmq_Inflight
begin

text \<open>
  Where the messages are.  An abstract state says for each message in which list or tree of which queue it is linked, and in which
  correlator; \<open>places\<close> relates the memory to it.  Every primitive of the queues is shown to change one place.
\<close>

section \<open>The abstract state\<close>

datatype place = PCur | PFut | PInfl

type_synonym places = "nat \<Rightarrow> (string \<times> place) option"
type_synonym cor_places = "nat \<Rightarrow> (string \<times> string) option"

definition at :: "(nat \<Rightarrow> 'a option) \<Rightarrow> 'a \<Rightarrow> nat set" where
  "at tr p = {m. tr m = Some p}"

lemma at_iff [simp]: "m \<in> at tr p \<longleftrightarrow> tr m = Some p"
  by (simp add: at_def)

lemma at_upd: "at (tr(m := v)) p = (if v = Some p then insert m (at tr p) else at tr p - {m})"
  by (auto simp: at_def)

lemma at_upd_None: "tr m = None \<Longrightarrow> at (tr(m := v)) p = (if v = Some p then insert m (at tr p) else at tr p)"
  by (auto simp: at_def)

definition tree_holds :: "('p \<Rightarrow> 'k::linorder) \<Rightarrow> 'p set \<Rightarrow> 'p rbt \<Rightarrow> 'p node \<Rightarrow> 'p set \<Rightarrow> bool" where
  "tree_holds key C s r A \<longleftrightarrow> rbt_holds key C (s\<lparr>rb_root := r\<rparr>) A"

definition cor_ok :: "int \<Rightarrow> (nat \<Rightarrow> tmq_msg) \<Rightarrow> tnode rbt \<Rightarrow> (string \<times> tnode node) list \<Rightarrow> (string \<Rightarrow> nat set) \<Rightarrow> bool" where
  "cor_ok base ms s h A \<longleftrightarrow> ex_inv fst h \<and> (\<forall>c. case ex_find fst c h of
     None \<Rightarrow> A c = {}
   | Some e \<Rightarrow> A c \<noteq> {} \<and> tree_holds (cor_key ms) (cor_nodes base ms) s (snd e) (Cor ` A c))"

definition queue_ok :: "int \<Rightarrow> (nat \<Rightarrow> tmq_msg) \<Rightarrow> tnode rbt \<Rightarrow> places \<Rightarrow> cor_places \<Rightarrow> string \<Rightarrow> tmq_qhash \<Rightarrow> bool" where
  "queue_ok base ms s tr co name qh \<longleftrightarrow>
     tree_holds (cur_key ms) (cur_nodes base ms) s (qh_q qh) (Cur ` at tr (name, PCur)) \<and>
     tree_holds (fut_key ms) (fut_nodes base ms) s (qh_fut qh) (Cur ` at tr (name, PFut)) \<and>
     distinct (qh_infl qh) \<and> set (qh_infl qh) = at tr (name, PInfl) \<and>
     cor_ok base ms s (qh_corhash qh) (\<lambda>c. at co (name, c))"

definition places :: "int \<Rightarrow> tmq_st \<Rightarrow> places \<Rightarrow> cor_places \<Rightarrow> bool" where
  "places base st tr co \<longleftrightarrow> rb_color (links st) RBTNIL = RBTBLACK \<and>
     (\<forall>name. case tmq_qhash_get name st of
        None \<Rightarrow> (\<forall>p. at tr (name, p) = {}) \<and> (\<forall>c. at co (name, c) = {})
      | Some qh \<Rightarrow> queue_ok base (msgs st) (links st) tr co name qh)"

text \<open>What the primitives leave alone.\<close>

definition qh_counts :: "tmq_qhash \<Rightarrow> string \<times> int \<times> int \<times> int \<times> int" where
  "qh_counts qh = (qh_name qh, qh_succ qh, qh_fail qh, qh_numenq qh, qh_numdeq qh)"

definition same_tables :: "tmq_st \<Rightarrow> tmq_st \<Rightarrow> bool" where
  "same_tables st st' \<longleftrightarrow> G_msgid_hash st' = G_msgid_hash st \<and> map qh_counts (G_qhash st') = map qh_counts (G_qhash st)"

lemma same_tables_refl [simp]: "same_tables st st"
  by (simp add: same_tables_def)

lemma same_tables_trans [trans]: "same_tables st st' \<Longrightarrow> same_tables st' st'' \<Longrightarrow> same_tables st st''"
  by (simp add: same_tables_def)

section \<open>Frames\<close>

lemma same_out_root [simp]:
  "same_out N (s\<lparr>rb_root := r\<rparr>) s' = same_out N s s'" "same_out N s (s'\<lparr>rb_root := r\<rparr>) = same_out N s s'"
  by (simp_all add: same_out_def)

lemma tree_frame:
  assumes "tree_holds key C s r A" "same_out N s s'" "N \<inter> A = {}" "rb_color s' RBTNIL = RBTBLACK"
  shows "tree_holds key C s' r A"
  using holds_frame[of key C "s\<lparr>rb_root := r\<rparr>" A N "s'\<lparr>rb_root := r\<rparr>"] assms by (simp add: tree_holds_def)

lemma cor_frame:
  assumes "cor_ok base ms s h A" "same_out N s s'" "\<forall>c. N \<inter> Cor ` A c = {}" "rb_color s' RBTNIL = RBTBLACK"
  shows "cor_ok base ms s' h A"
proof -
  have "case ex_find fst c h of None \<Rightarrow> A c = {}
    | Some e \<Rightarrow> A c \<noteq> {} \<and> tree_holds (cor_key ms) (cor_nodes base ms) s' (snd e) (Cor ` A c)" for c
    using assms(1,3) tree_frame[OF _ assms(2) _ assms(4), of "cor_key ms" "cor_nodes base ms" _ "Cor ` A c"]
    unfolding cor_ok_def by (cases "ex_find fst c h") (auto dest: spec[of _ c])
  then show ?thesis using assms(1) by (simp add: cor_ok_def)
qed

lemma queue_frame:
  assumes "queue_ok base ms s tr co name qh" "same_out N s s'" "rb_color s' RBTNIL = RBTBLACK"
    "\<And>p. N \<inter> Cur ` at tr (name, p) = {}" "\<And>c. N \<inter> Cor ` at co (name, c) = {}"
    "\<And>p. at tr' (name, p) = at tr (name, p)" "\<And>c. at co' (name, c) = at co (name, c)"
  shows "queue_ok base ms s' tr' co' name qh"
proof -
  note q = assms(1)[unfolded queue_ok_def]
  have "cor_ok base ms s' (qh_corhash qh) (\<lambda>c. at co (name, c))" using cor_frame[OF _ assms(2) _ assms(3)] q assms(5) by simp
  moreover have "tree_holds (cur_key ms) (cur_nodes base ms) s' (qh_q qh) (Cur ` at tr (name, PCur))"
    "tree_holds (fut_key ms) (fut_nodes base ms) s' (qh_fut qh) (Cur ` at tr (name, PFut))"
    using tree_frame[OF _ assms(2) _ assms(3), of "cur_key ms"] tree_frame[OF _ assms(2) _ assms(3), of "fut_key ms"] q assms(4)
    by simp_all
  ultimately show ?thesis using q unfolding queue_ok_def assms(6,7) by simp
qed

section \<open>A change in one queue\<close>

lemma get_upd_qhash [simp]:
  "(\<And>qh. qh_name (f qh) = qh_name qh) \<Longrightarrow>
   tmq_qhash_get n (upd_qhash name f st) = (if n = name then map_option f (tmq_qhash_get n st) else tmq_qhash_get n st)"
  by (simp add: tmq_qhash_get_def upd_qhash_def ex_find_upd)

lemma get_upd_st [simp]:
  "tmq_qhash_get n (st\<lparr>links := s\<rparr>) = tmq_qhash_get n st" "tmq_qhash_get n (st\<lparr>tq_heap := h\<rparr>) = tmq_qhash_get n st"
  "tmq_qhash_get n (st\<lparr>G_msgid_hash := g\<rparr>) = tmq_qhash_get n st" "tmq_qhash_get n (upd_mmsg m g' st) = tmq_qhash_get n st"
  by (simp_all add: tmq_qhash_get_def upd_mmsg_def)

lemma upd_qhash_rest [simp]:
  "links (upd_qhash name f st) = links st" "tq_heap (upd_qhash name f st) = tq_heap st" "msgs (upd_qhash name f st) = msgs st"
  "G_msgid_hash (upd_qhash name f st) = G_msgid_hash st"
  by (simp_all add: upd_qhash_def msgs_def fun_eq_iff)

lemma msgs_upd_st [simp]: "msgs (st\<lparr>links := s\<rparr>) = msgs st" "msgs (st\<lparr>G_msgid_hash := g\<rparr>) = msgs st"
  by (simp_all add: msgs_def fun_eq_iff)

lemma same_tables_upd: "(\<And>qh. qh_counts (f qh) = qh_counts qh) \<Longrightarrow> same_tables st (upd_qhash name f (st\<lparr>links := s\<rparr>))"
  by (simp add: same_tables_def upd_qhash_def ex_upd_def map_update_first)

lemma places_queue:
  assumes "places base st tr co" "tmq_qhash_get name st = Some qh"
  shows "queue_ok base (msgs st) (links st) tr co name qh"
proof -
  have "case tmq_qhash_get name st of None \<Rightarrow> (\<forall>p. at tr (name, p) = {}) \<and> (\<forall>c. at co (name, c) = {})
      | Some qh \<Rightarrow> queue_ok base (msgs st) (links st) tr co name qh" using assms(1) unfolding places_def by blast
  then show ?thesis using assms(2) by simp
qed

lemma places_none:
  assumes "places base st tr co" "tmq_qhash_get name st = None"
  shows "at tr (name, p) = {}" "at co (name, c) = {}"
proof -
  have "case tmq_qhash_get name st of None \<Rightarrow> (\<forall>p. at tr (name, p) = {}) \<and> (\<forall>c. at co (name, c) = {})
      | Some qh \<Rightarrow> queue_ok base (msgs st) (links st) tr co name qh" using assms(1) unfolding places_def by blast
  then show "at tr (name, p) = {}" "at co (name, c) = {}" using assms(2) by simp_all
qed

lemma at_queue: "places base st tr co \<Longrightarrow> tr m = Some (name, p) \<Longrightarrow> \<exists>qh. tmq_qhash_get name st = Some qh"
  using places_none(1)[of base st tr co name p] by (cases "tmq_qhash_get name st") (auto simp: at_def)

lemma at_queue_cor: "places base st tr co \<Longrightarrow> co m = Some (name, c) \<Longrightarrow> \<exists>qh. tmq_qhash_get name st = Some qh"
  using places_none(2)[of base st tr co name c] by (cases "tmq_qhash_get name st") (auto simp: at_def)

lemma queue_updated:
  assumes p: "places base st tr co" and qh: "tmq_qhash_get name st = Some qh" and f: "\<And>qh. qh_name (f qh) = qh_name qh"
    and q: "queue_ok base (msgs st) s tr' co' name (f qh)"
    and s: "same_out N (links st) s" "rb_color s RBTNIL = RBTBLACK"
    and N: "\<And>n p. n \<noteq> name \<Longrightarrow> N \<inter> Cur ` at tr (n, p) = {}" "\<And>n c. n \<noteq> name \<Longrightarrow> N \<inter> Cor ` at co (n, c) = {}"
    and a: "\<And>n p. n \<noteq> name \<Longrightarrow> at tr' (n, p) = at tr (n, p)" "\<And>n c. n \<noteq> name \<Longrightarrow> at co' (n, c) = at co (n, c)"
  shows "places base (upd_qhash name f (st\<lparr>links := s\<rparr>)) tr' co'"
proof -
  have "case tmq_qhash_get n (upd_qhash name f (st\<lparr>links := s\<rparr>)) of
        None \<Rightarrow> (\<forall>p. at tr' (n, p) = {}) \<and> (\<forall>c. at co' (n, c) = {})
      | Some qh \<Rightarrow> queue_ok base (msgs st) s tr' co' n qh" for n
  proof (cases "n = name")
    case True
    then show ?thesis using q qh f by simp
  next
    case False
    then show ?thesis
    proof (cases "tmq_qhash_get n st")
      case None
      then show ?thesis using places_none[OF p] a False f by simp
    next
      case (Some qh')
      then have "queue_ok base (msgs st) s tr' co' n qh'" using queue_frame[OF places_queue[OF p Some] s] N a False by simp
      then show ?thesis using Some False f by simp
    qed
  qed
  then show ?thesis using s(2) unfolding places_def by (simp cong: option.case_cong)
qed

section \<open>The primitives\<close>

lemma queue_parts:
  assumes "queue_ok base ms s tr co name qh"
  shows "tree_holds (cur_key ms) (cur_nodes base ms) s (qh_q qh) (Cur ` at tr (name, PCur))"
    "tree_holds (fut_key ms) (fut_nodes base ms) s (qh_fut qh) (Cur ` at tr (name, PFut))"
    "distinct (qh_infl qh)" "set (qh_infl qh) = at tr (name, PInfl)" "cor_ok base ms s (qh_corhash qh) (\<lambda>c. at co (name, c))"
  using assms by (simp_all add: queue_ok_def)

lemma cur_cor_disjoint [simp]: "Cur ` A \<inter> Cor ` B = {}" "Cor ` B \<inter> Cur ` A = {}"
  by auto

lemma at_disjoint [simp]: "p \<noteq> p' \<Longrightarrow> Cur ` at tr p \<inter> Cur ` at tr p' = {}" "p \<noteq> p' \<Longrightarrow> Cor ` at tr p \<inter> Cor ` at tr p' = {}"
  by auto

lemma cur_changed:
  assumes p: "places base st tr co" and qh: "tmq_qhash_get name st = Some qh"
    and m: "tr m \<in> {None, Some (name, PCur)}" "v \<in> {None, Some (name, PCur)}"
    and s: "rbt_holds (cur_key (msgs st)) (cur_nodes base (msgs st)) s (Cur ` at (tr(m := v)) (name, PCur))"
      "same_out (Cur ` insert m (at tr (name, PCur))) (links st) s"
  shows "places base (upd_qhash name (\<lambda>qh. qh\<lparr>qh_q := rb_root s\<rparr>) (st\<lparr>links := s\<rparr>)) (tr(m := v)) co"
proof -
  note q = queue_parts[OF places_queue[OF p qh]]
  let ?N = "Cur ` insert m (at tr (name, PCur))"
  have black: "rb_color s RBTNIL = RBTBLACK" using holds_black[OF s(1)] .
  have fresh: "?N \<inter> Cur ` at tr (n, p) = {}" if "(n, p) \<noteq> (name, PCur)" for n p using m(1) that by auto
  have at': "at (tr(m := v)) (n, p) = at tr (n, p)" if "(n, p) \<noteq> (name, PCur)" for n p using m that by (auto simp: at_def)
  have cor: "cor_ok base (msgs st) s (qh_corhash qh) (\<lambda>c. at co (name, c))" using cor_frame[OF q(5) s(2) _ black] by auto
  have "queue_ok base (msgs st) s (tr(m := v)) co name (qh\<lparr>qh_q := rb_root s\<rparr>)"
    unfolding queue_ok_def using q s(1) tree_frame[OF q(2) s(2) fresh black] cor by (simp add: at' tree_holds_def)
  then show ?thesis using fresh by (intro queue_updated[OF p qh _ _ s(2) black]) (auto simp: at')
qed

lemma fut_changed:
  assumes p: "places base st tr co" and qh: "tmq_qhash_get name st = Some qh"
    and m: "tr m \<in> {None, Some (name, PFut)}" "v \<in> {None, Some (name, PFut)}"
    and s: "rbt_holds (fut_key (msgs st)) (fut_nodes base (msgs st)) s (Cur ` at (tr(m := v)) (name, PFut))"
      "same_out (Cur ` insert m (at tr (name, PFut))) (links st) s"
  shows "places base (upd_qhash name (\<lambda>qh. qh\<lparr>qh_fut := rb_root s\<rparr>) (st\<lparr>links := s\<rparr>)) (tr(m := v)) co"
proof -
  note q = queue_parts[OF places_queue[OF p qh]]
  let ?N = "Cur ` insert m (at tr (name, PFut))"
  have black: "rb_color s RBTNIL = RBTBLACK" using holds_black[OF s(1)] .
  have fresh: "?N \<inter> Cur ` at tr (n, p) = {}" if "(n, p) \<noteq> (name, PFut)" for n p using m(1) that by auto
  have at': "at (tr(m := v)) (n, p) = at tr (n, p)" if "(n, p) \<noteq> (name, PFut)" for n p using m that by (auto simp: at_def)
  have cor: "cor_ok base (msgs st) s (qh_corhash qh) (\<lambda>c. at co (name, c))" using cor_frame[OF q(5) s(2) _ black] by auto
  have "queue_ok base (msgs st) s (tr(m := v)) co name (qh\<lparr>qh_fut := rb_root s\<rparr>)"
    unfolding queue_ok_def using q s(1) tree_frame[OF q(1) s(2) fresh black] cor by (simp add: at' tree_holds_def)
  then show ?thesis using fresh by (intro queue_updated[OF p qh _ _ s(2) black]) (auto simp: at')
qed

lemma cur_insert_ok:
  assumes p: "places base st tr co" and qh: "tmq_qhash_get name st = Some qh" and m: "tr m = None" "stamp_ok base (msgs st m)"
    and new: "\<forall>m' \<in> at tr (name, PCur). stamp (msgs st m') \<noteq> stamp (msgs st m)"
  shows "\<exists>st'. cur_insert name m st = Some st' \<and> places base st' (tr(m \<mapsto> (name, PCur))) co \<and> tq_heap st' = tq_heap st \<and> same_tables st st'"
proof -
  let ?A = "at tr (name, PCur)" and ?ms = "msgs st" and ?s = "tree_at st (qh_q qh)"
  have h: "rbt_holds (cur_key ?ms) (cur_nodes base ?ms) ?s (Cur ` ?A)"
    using queue_parts(1,2)[OF places_queue[OF p qh]] by (simp add: tree_holds_def tree_at_def)
  have x: "Cur m \<in> cur_nodes base ?ms" "\<forall>n \<in> Cur ` ?A. cur_key ?ms n \<noteq> cur_key ?ms (Cur m)"
    using m new by (auto simp: cur_nodes_def cur_key_def)
  obtain s where s: "ndrx_rbt_insert (tmq_rbt_cmp_cur ?ms) tmq_rbt_combine_cur ?s (Nd (Cur m)) = Some (Nd (Cur m), True, s)"
      "rbt_holds (cur_key ?ms) (cur_nodes base ?ms) s (insert (Cur m) (Cur ` ?A))" "same_out (insert (Cur m) (Cur ` ?A)) (links st) s"
    using cur.holds_insert[OF h x] by (auto simp: tree_at_def)
  have "cur_insert name m st = Some (upd_qhash name (\<lambda>qh. qh\<lparr>qh_q := rb_root s\<rparr>) (st\<lparr>links := s\<rparr>))"
    using qh s(1) by (simp add: cur_insert_def)
  moreover have "places base (upd_qhash name (\<lambda>qh. qh\<lparr>qh_q := rb_root s\<rparr>) (st\<lparr>links := s\<rparr>)) (tr(m \<mapsto> (name, PCur))) co"
    using cur_changed[OF p qh, of m "Some (name, PCur)" s] m(1) s by (simp add: at_upd_None)
  ultimately show ?thesis by (simp add: same_tables_upd qh_counts_def)
qed

lemma cur_delete_ok:
  assumes p: "places base st tr co" and m: "tr m = Some (name, PCur)"
  shows "\<exists>st'. cur_delete name m st = Some st' \<and> places base st' (tr(m := None)) co \<and> tq_heap st' = tq_heap st \<and> same_tables st st'"
proof -
  obtain qh where qh: "tmq_qhash_get name st = Some qh" using at_queue[OF p m] by blast
  let ?A = "at tr (name, PCur)" and ?ms = "msgs st" and ?s = "tree_at st (qh_q qh)"
  have h: "rbt_holds (cur_key ?ms) (cur_nodes base ?ms) ?s (Cur ` ?A)"
    using queue_parts(1,2)[OF places_queue[OF p qh]] by (simp add: tree_holds_def tree_at_def)
  have A: "insert m ?A = ?A" "Cur ` at (tr(m := None)) (name, PCur) = Cur ` ?A - {Cur m}" using m by (auto simp: at_upd)
  obtain s where s: "ndrx_rbt_delete None ?s (Nd (Cur m)) = Some s"
      "rbt_holds (cur_key ?ms) (cur_nodes base ?ms) s (Cur ` ?A - {Cur m})" "same_out (Cur ` ?A) (links st) s"
    using holds_delete[OF h, of "Cur m"] m by (auto simp: tree_at_def)
  have "cur_delete name m st = Some (upd_qhash name (\<lambda>qh. qh\<lparr>qh_q := rb_root s\<rparr>) (st\<lparr>links := s\<rparr>))"
    using qh s(1) by (simp add: cur_delete_def)
  moreover have "places base (upd_qhash name (\<lambda>qh. qh\<lparr>qh_q := rb_root s\<rparr>) (st\<lparr>links := s\<rparr>)) (tr(m := None)) co"
    using cur_changed[OF p qh, of m None s] m s unfolding A by simp
  ultimately show ?thesis by (simp add: same_tables_upd qh_counts_def)
qed

lemma fut_insert_ok:
  assumes p: "places base st tr co" and qh: "tmq_qhash_get name st = Some qh" and m: "tr m = None" "fut_ok base (msgs st m)"
    and new: "\<forall>m' \<in> at tr (name, PFut). stamp (msgs st m') \<noteq> stamp (msgs st m)"
  shows "\<exists>st'. fut_insert name m st = Some st' \<and> places base st' (tr(m \<mapsto> (name, PFut))) co \<and> tq_heap st' = tq_heap st \<and> same_tables st st'"
proof -
  let ?A = "at tr (name, PFut)" and ?ms = "msgs st" and ?s = "tree_at st (qh_fut qh)"
  have h: "rbt_holds (fut_key ?ms) (fut_nodes base ?ms) ?s (Cur ` ?A)"
    using queue_parts(1,2)[OF places_queue[OF p qh]] by (simp add: tree_holds_def tree_at_def)
  have x: "Cur m \<in> fut_nodes base ?ms" "\<forall>n \<in> Cur ` ?A. fut_key ?ms n \<noteq> fut_key ?ms (Cur m)"
    using m new by (auto simp: fut_nodes_def fut_key_def)
  obtain s where s: "ndrx_rbt_insert (tmq_rbt_cmp_fut ?ms) tmq_rbt_combine_fut ?s (Nd (Cur m)) = Some (Nd (Cur m), True, s)"
      "rbt_holds (fut_key ?ms) (fut_nodes base ?ms) s (insert (Cur m) (Cur ` ?A))" "same_out (insert (Cur m) (Cur ` ?A)) (links st) s"
    using fut.holds_insert[OF h x] by (auto simp: tree_at_def)
  have "fut_insert name m st = Some (upd_qhash name (\<lambda>qh. qh\<lparr>qh_fut := rb_root s\<rparr>) (st\<lparr>links := s\<rparr>))"
    using qh s(1) by (simp add: fut_insert_def)
  moreover have "places base (upd_qhash name (\<lambda>qh. qh\<lparr>qh_fut := rb_root s\<rparr>) (st\<lparr>links := s\<rparr>)) (tr(m \<mapsto> (name, PFut))) co"
    using fut_changed[OF p qh, of m "Some (name, PFut)" s] m(1) s by (simp add: at_upd_None)
  ultimately show ?thesis by (simp add: same_tables_upd qh_counts_def)
qed

lemma fut_delete_ok:
  assumes p: "places base st tr co" and m: "tr m = Some (name, PFut)"
  shows "\<exists>st'. fut_delete name m st = Some st' \<and> places base st' (tr(m := None)) co \<and> tq_heap st' = tq_heap st \<and> same_tables st st'"
proof -
  obtain qh where qh: "tmq_qhash_get name st = Some qh" using at_queue[OF p m] by blast
  let ?A = "at tr (name, PFut)" and ?ms = "msgs st" and ?s = "tree_at st (qh_fut qh)"
  have h: "rbt_holds (fut_key ?ms) (fut_nodes base ?ms) ?s (Cur ` ?A)"
    using queue_parts(1,2)[OF places_queue[OF p qh]] by (simp add: tree_holds_def tree_at_def)
  have A: "insert m ?A = ?A" "Cur ` at (tr(m := None)) (name, PFut) = Cur ` ?A - {Cur m}" using m by (auto simp: at_upd)
  obtain s where s: "ndrx_rbt_delete None ?s (Nd (Cur m)) = Some s"
      "rbt_holds (fut_key ?ms) (fut_nodes base ?ms) s (Cur ` ?A - {Cur m})" "same_out (Cur ` ?A) (links st) s"
    using holds_delete[OF h, of "Cur m"] m by (auto simp: tree_at_def)
  have "fut_delete name m st = Some (upd_qhash name (\<lambda>qh. qh\<lparr>qh_fut := rb_root s\<rparr>) (st\<lparr>links := s\<rparr>))"
    using qh s(1) by (simp add: fut_delete_def)
  moreover have "places base (upd_qhash name (\<lambda>qh. qh\<lparr>qh_fut := rb_root s\<rparr>) (st\<lparr>links := s\<rparr>)) (tr(m := None)) co"
    using fut_changed[OF p qh, of m None s] m s unfolding A by simp
  ultimately show ?thesis by (simp add: same_tables_upd qh_counts_def)
qed

lemma infl_changed:
  assumes p: "places base st tr co" and qh: "tmq_qhash_get name st = Some qh"
    and m: "tr m \<in> {None, Some (name, PInfl)}" "v \<in> {None, Some (name, PInfl)}"
    and f: "distinct ms" "set ms = at (tr(m := v)) (name, PInfl)" "g (qh_infl qh) = ms"
  shows "places base (upd_qhash name (\<lambda>qh. qh\<lparr>qh_infl := g (qh_infl qh)\<rparr>) st) (tr(m := v)) co"
proof -
  note q = queue_parts[OF places_queue[OF p qh]]
  have at': "at (tr(m := v)) (n, p) = at tr (n, p)" if "(n, p) \<noteq> (name, PInfl)" for n p using m that by (auto simp: at_def)
  have black: "rb_color (links st) RBTNIL = RBTBLACK" using p by (simp add: places_def)
  have "queue_ok base (msgs st) (links st) (tr(m := v)) co name (qh\<lparr>qh_infl := g (qh_infl qh)\<rparr>)"
    unfolding queue_ok_def using q f by (simp add: at')
  then have "places base (upd_qhash name (\<lambda>qh. qh\<lparr>qh_infl := g (qh_infl qh)\<rparr>) (st\<lparr>links := links st\<rparr>)) (tr(m := v)) co"
    by (intro queue_updated[OF p qh _ _ same_out_refl[of "{}"] black]) (auto simp: at')
  then show ?thesis by simp
qed

lemma same_tables_upd_qhash: "(\<And>qh. qh_counts (f qh) = qh_counts qh) \<Longrightarrow> same_tables st (upd_qhash name f st)"
  using same_tables_upd[of f st name "links st"] by simp

lemma infl_append_ok:
  assumes p: "places base st tr co" and qh: "tmq_qhash_get name st = Some qh" and m: "tr m = None"
  shows "\<exists>st'. infl_append name m st = Some st' \<and> places base st' (tr(m \<mapsto> (name, PInfl))) co \<and> tq_heap st' = tq_heap st \<and> same_tables st st'"
proof -
  note q = queue_parts(3,4)[OF places_queue[OF p qh]]
  have "places base (upd_qhash name (\<lambda>qh. qh\<lparr>qh_infl := qh_infl qh @ [m]\<rparr>) st) (tr(m \<mapsto> (name, PInfl))) co"
    using q m infl_changed[OF p qh, of m "Some (name, PInfl)" "qh_infl qh @ [m]" "\<lambda>l. l @ [m]"] by (simp add: at_upd_None)
  then show ?thesis using qh by (simp add: infl_append_def same_tables_upd_qhash qh_counts_def)
qed

lemma infl_delete_ok:
  assumes p: "places base st tr co" and m: "tr m = Some (name, PInfl)"
  shows "\<exists>st'. infl_delete name m st = Some st' \<and> places base st' (tr(m := None)) co \<and> tq_heap st' = tq_heap st \<and> same_tables st st'"
proof -
  obtain qh where qh: "tmq_qhash_get name st = Some qh" using at_queue[OF p m] by blast
  note q = queue_parts(3,4)[OF places_queue[OF p qh]]
  have "places base (upd_qhash name (\<lambda>qh. qh\<lparr>qh_infl := remove1 m (qh_infl qh)\<rparr>) st) (tr(m := None)) co"
    using q m infl_changed[OF p qh, of m None "remove1 m (qh_infl qh)" "remove1 m"] by (simp add: at_upd)
  then show ?thesis using qh by (simp add: infl_delete_def same_tables_upd_qhash qh_counts_def)
qed

section \<open>Stores into a message\<close>

lemma upd_mmsg_rest [simp]:
  "links (upd_mmsg m f st) = links st" "G_msgid_hash (upd_mmsg m f st) = G_msgid_hash st" "G_qhash (upd_mmsg m f st) = G_qhash st"
  "tq_heap (upd_mmsg m f st) = (tq_heap st)(m := map_option f (tq_heap st m))"
  by (simp_all add: upd_mmsg_def)

lemma msgs_upd_mmsg [simp]: "(\<And>mm. mm_msg (f mm) = mm_msg mm) \<Longrightarrow> msgs (upd_mmsg m f st) = msgs st"
  by (cases "tq_heap st m") (auto simp: msgs_def upd_mmsg_def fun_eq_iff)

lemma places_upd_mmsg [simp]:
  "(\<And>mm. mm_msg (f mm) = mm_msg mm) \<Longrightarrow> places base (upd_mmsg m f st) tr co = places base st tr co"
  by (simp add: places_def cong: option.case_cong)

lemma places_msgid_hash [simp]: "places base (st\<lparr>G_msgid_hash := g\<rparr>) tr co = places base st tr co"
  by (simp add: places_def cong: option.case_cong)

lemma same_tables_upd_mmsg [simp]: "same_tables st (upd_mmsg m f st') = same_tables st st'"
  by (simp add: same_tables_def)

section \<open>Correlators\<close>

lemma cor_changed:
  assumes p: "places base st tr co" and qh: "tmq_qhash_get name st = Some qh"
    and m: "co m \<in> {None, Some (name, c)}" "v \<in> {None, Some (name, c)}"
    and s: "cor_ok base (msgs st) s (g (qh_corhash qh)) (\<lambda>c. at (co(m := v)) (name, c))" "rb_color s RBTNIL = RBTBLACK"
      "same_out (Cor ` insert m (at co (name, c))) (links st) s"
  shows "places base (upd_qhash name (\<lambda>qh. qh\<lparr>qh_corhash := g (qh_corhash qh)\<rparr>) (st\<lparr>links := s\<rparr>)) tr (co(m := v))"
proof -
  note q = queue_parts[OF places_queue[OF p qh]]
  have fresh: "Cor ` insert m (at co (name, c)) \<inter> Cor ` at co (n, c') = {}" if "n \<noteq> name" for n c' using m(1) that by auto
  have at': "at (co(m := v)) (n, c') = at co (n, c')" if "n \<noteq> name" for n c' using m that by (auto simp: at_def)
  have "queue_ok base (msgs st) s tr (co(m := v)) name (qh\<lparr>qh_corhash := g (qh_corhash qh)\<rparr>)"
    unfolding queue_ok_def using q s(1) tree_frame[OF q(1) s(3) _ s(2)] tree_frame[OF q(2) s(3) _ s(2)] by auto
  then show ?thesis using fresh by (intro queue_updated[OF p qh _ _ s(3,2)]) (auto simp: at')
qed

lemma cor_ok_find: "cor_ok base ms s h A \<Longrightarrow> m \<in> A c \<Longrightarrow> \<exists>r. ex_find fst c h = Some (c, r)"
  using ex_find_Some[of fst c h] unfolding cor_ok_def by (cases "ex_find fst c h") (auto dest: spec[of _ c])

lemma cor_ok_tree:
  assumes "cor_ok base ms s h A" "ex_find fst c h = Some e"
  shows "A c \<noteq> {}" "tree_holds (cor_key ms) (cor_nodes base ms) s (snd e) (Cor ` A c)"
proof -
  have "case ex_find fst c h of None \<Rightarrow> A c = {} | Some e \<Rightarrow> A c \<noteq> {} \<and> tree_holds (cor_key ms) (cor_nodes base ms) s (snd e) (Cor ` A c)"
    using assms(1) unfolding cor_ok_def by blast
  then show "A c \<noteq> {}" "tree_holds (cor_key ms) (cor_nodes base ms) s (snd e) (Cor ` A c)" using assms(2) by simp_all
qed

lemma cor_ok_none: "cor_ok base ms s h A \<Longrightarrow> ex_find fst c h = None \<Longrightarrow> A c = {}"
  unfolding cor_ok_def by (auto dest: spec[of _ c])

text \<open>The table of correlators after the tree of one of them has changed.\<close>

lemma cor_ok_upd:
  assumes "cor_ok base ms s0 h A" "same_out (Cor ` insert m (A c)) s0 s" "rb_color s RBTNIL = RBTBLACK"
    and A': "\<And>c'. c' \<noteq> c \<Longrightarrow> A' c' = A c' \<and> m \<notin> A c'" "\<And>c'. c' \<noteq> c \<Longrightarrow> A c \<inter> A c' = {}"
    and h': "ex_inv fst h'" "\<And>c'. c' \<noteq> c \<Longrightarrow> ex_find fst c' h' = ex_find fst c' h"
    and c: "case ex_find fst c h' of None \<Rightarrow> A' c = {} | Some e \<Rightarrow> A' c \<noteq> {} \<and> tree_holds (cor_key ms) (cor_nodes base ms) s (snd e) (Cor ` A' c)"
  shows "cor_ok base ms s h' A'"
proof -
  have "case ex_find fst c' h' of None \<Rightarrow> A' c' = {} | Some e \<Rightarrow> A' c' \<noteq> {} \<and> tree_holds (cor_key ms) (cor_nodes base ms) s (snd e) (Cor ` A' c')" for c'
  proof (cases "c' = c")
    case False
    then have "Cor ` insert m (A c) \<inter> Cor ` A c' = {}" using A'(1)[OF False] A'(2)[OF False] by auto
    then show ?thesis
      using tree_frame[OF cor_ok_tree(2)[OF assms(1), of c'] assms(2) _ assms(3)] cor_ok_tree(1)[OF assms(1), of c']
        cor_ok_none[OF assms(1), of c'] A'(1)[OF False] h'(2)[OF False] by (auto split: option.splits)
  next
    case True
    show ?thesis unfolding True by (rule c)
  qed
  then show ?thesis using h'(1) by (simp add: cor_ok_def)
qed

lemma upd_commute:
  "upd_qhash name f ((upd_mmsg m g st)\<lparr>links := s\<rparr>) = upd_mmsg m g (upd_qhash name f (st\<lparr>links := s\<rparr>))"
  "upd_qhash name f (upd_mmsg m g (st\<lparr>links := s\<rparr>)) = upd_mmsg m g (upd_qhash name f (st\<lparr>links := s\<rparr>))"
  by (simp_all add: upd_qhash_def upd_mmsg_def)

lemma cor_msg_del_ok:
  assumes p: "places base st tr co" and mm: "tq_heap st m = Some mm" "mm_corhash mm = Some c" "co m = Some (mm_qhash mm, c)"
  shows "\<exists>st'. tmq_cor_msg_del m st = Some st' \<and> places base st' tr (co(m := None)) \<and>
    tq_heap st' = (tq_heap st)(m \<mapsto> mm\<lparr>mm_corhash := None\<rparr>) \<and> same_tables st st'"
proof -
  let ?name = "mm_qhash mm" and ?ms = "msgs st" and ?A = "\<lambda>c. at co (mm_qhash mm, c)"
  obtain qh where qh: "tmq_qhash_get ?name st = Some qh" using at_queue_cor[OF p mm(3)] by blast
  note q = queue_parts(5)[OF places_queue[OF p qh]]
  obtain r where r: "ex_find fst c (qh_corhash qh) = Some (c, r)" using cor_ok_find[OF q, of m c] mm(3) by auto
  have h: "rbt_holds (cor_key ?ms) (cor_nodes base ?ms) (tree_at st r) (Cor ` ?A c)"
    using cor_ok_tree(2)[OF q r] by (simp add: tree_holds_def tree_at_def)
  obtain s where s: "ndrx_rbt_delete None (tree_at st r) (Nd (Cor m)) = Some s"
      "rbt_holds (cor_key ?ms) (cor_nodes base ?ms) s (Cor ` ?A c - {Cor m})" "same_out (Cor ` ?A c) (links st) s"
    using holds_delete[OF h, of "Cor m"] mm(3) by (auto simp: tree_at_def)
  have black: "rb_color s RBTNIL = RBTBLACK" using holds_black[OF s(2)] .
  have A': "Cor ` ?A c - {Cor m} = Cor ` (?A c - {m})" "insert m (?A c) = ?A c" using mm(3) by auto
  let ?g = "\<lambda>h. if ndrx_rbt_is_empty s then ex_del fst c h else ex_upd fst c (\<lambda>e. (fst e, rb_root s)) h"
  have inv: "ex_inv fst (qh_corhash qh)" using q by (simp add: cor_ok_def)
  have "cor_ok base ?ms s (?g (qh_corhash qh)) (\<lambda>c. at (co(m := None)) (?name, c))"
    using s(2,3) mm(3) inv r holds_empty_iff[OF s(2)]
    by (intro cor_ok_upd[OF q _ black, of m c]) (auto simp: A' at_upd ex_inv_del ex_inv_upd ex_find_del ex_find_upd tree_holds_def)
  then have "places base (upd_qhash ?name (\<lambda>qh. qh\<lparr>qh_corhash := ?g (qh_corhash qh)\<rparr>) (st\<lparr>links := s\<rparr>)) tr (co(m := None))"
    using mm(3) s(3) black by (intro cor_changed[OF p qh, of m c None s ?g]) (auto simp: A')
  then show ?thesis using qh mm r s(1)
    by (simp add: tmq_cor_msg_del_def tmq_cor_find_def upd_commute same_tables_upd qh_counts_def)
qed

lemma upd_first_cong: "find P xs = Some x \<Longrightarrow> f x = g x \<Longrightarrow> update_first P f xs = update_first P g xs"
  by (induction xs) (auto split: if_splits)

lemma upd_first_twice: "(\<And>x. P x \<Longrightarrow> P (g x)) \<Longrightarrow> update_first P f (update_first P g xs) = update_first P (f \<circ> g) xs"
  by (induction xs) auto

lemma upd_qhash_cong: "tmq_qhash_get name st = Some qh \<Longrightarrow> f qh = g qh \<Longrightarrow> upd_qhash name f st = upd_qhash name g st"
  using upd_first_cong[of "\<lambda>e. qh_name e = name" "G_qhash st" qh f g] by (simp add: upd_qhash_def ex_upd_def tmq_qhash_get_def ex_find_def)

lemma upd_qhash_twice: "(\<And>qh. qh_name (g qh) = qh_name qh) \<Longrightarrow>
    upd_qhash name f ((upd_mmsg m k (upd_qhash name g st))\<lparr>links := s\<rparr>) = upd_mmsg m k (upd_qhash name (f \<circ> g) (st\<lparr>links := s\<rparr>))"
  by (simp add: upd_qhash_def upd_mmsg_def ex_upd_def upd_first_twice)

definition with_cor :: "string \<Rightarrow> (string \<times> tnode node) list \<Rightarrow> (string \<times> tnode node) list" where
  "with_cor c h = (if ex_find fst c h = None then ex_add (c, RBTNIL) h else h)"

lemma with_cor_find:
  assumes "cor_ok base ms s h A" "rb_color s RBTNIL = RBTBLACK"
  shows "\<exists>r. ex_find fst c (with_cor c h) = Some (c, r) \<and> tree_holds (cor_key ms) (cor_nodes base ms) s r (Cor ` A c)"
proof (cases "ex_find fst c h")
  case None
  have "tree_holds (cor_key ms) (cor_nodes base ms) s RBTNIL {}"
    using holds_init[OF assms(2), of "cor_key ms" "cor_nodes base ms"] by (simp add: tree_holds_def ndrx_rbt_init_def)
  then show ?thesis using None cor_ok_none[OF assms(1) None] ex_find_add[of fst "(c, RBTNIL)" h c] by (simp add: with_cor_def)
next
  case (Some e)
  then show ?thesis using cor_ok_tree(2)[OF assms(1) Some] ex_find_Some[OF Some] by (cases e) (simp add: with_cor_def)
qed

lemma with_cor_other: "c' \<noteq> c \<Longrightarrow> ex_find fst c' (with_cor c h) = ex_find fst c' h"
  using ex_find_add[of fst "(c, RBTNIL)" h c'] by (simp add: with_cor_def)

lemma with_cor_inv: "ex_inv fst h \<Longrightarrow> ex_inv fst (with_cor c h)"
  using ex_inv_add[of fst h "(c, RBTNIL)"] by (simp add: with_cor_def)

lemma cor_msg_add_eq:
  assumes qh: "tmq_qhash_get (mm_qhash mm) st = Some qh" and mm: "tq_heap st m = Some mm" and c: "c = mm_corrid_str mm"
    and r: "ex_find fst c (with_cor c (qh_corhash qh)) = Some (c, r)" and ok: "ex_find fst c (qh_corhash qh) \<noteq> None \<or> ev_malloc env m"
    and i: "ndrx_rbt_insert (tmq_rbt_cmp_cor (msgs st)) tmq_rbt_combine_cor (tree_at st r) (Nd (Cor m)) = Some (n, new, s)"
  shows "tmq_cor_msg_add env m st = Some (EXSUCCEED, upd_mmsg m (\<lambda>mm. mm\<lparr>mm_corhash := Some c\<rparr>)
    (upd_qhash (mm_qhash mm) (\<lambda>q. q\<lparr>qh_corhash := ex_upd fst c (\<lambda>e. (fst e, rb_root s)) (with_cor c (qh_corhash q))\<rparr>) (st\<lparr>links := s\<rparr>)))"
proof (cases "ex_find fst c (qh_corhash qh)")
  case None
  have "upd_qhash (mm_qhash mm) ((\<lambda>q. q\<lparr>qh_corhash := ex_upd fst c (\<lambda>e. (fst e, rb_root s)) (qh_corhash q)\<rparr>) \<circ>
      (\<lambda>q. q\<lparr>qh_corhash := ex_add (c, RBTNIL) (qh_corhash q)\<rparr>)) (st\<lparr>links := s\<rparr>) =
    upd_qhash (mm_qhash mm) (\<lambda>q. q\<lparr>qh_corhash := ex_upd fst c (\<lambda>e. (fst e, rb_root s)) (with_cor c (qh_corhash q))\<rparr>) (st\<lparr>links := s\<rparr>)"
    using qh None by (intro upd_qhash_cong[of _ _ qh]) (simp_all add: with_cor_def)
  then show ?thesis using None qh mm r ok i c
    by (simp add: tmq_cor_msg_add_def tmq_cor_find_def tmq_cor_add_def with_cor_def upd_qhash_twice ndrx_rbt_init_def tree_at_def)
next
  case (Some e)
  then have "fst e = c" using ex_find_Some[OF Some] by simp
  moreover have "upd_qhash (mm_qhash mm) (\<lambda>q. q\<lparr>qh_corhash := ex_upd fst c (\<lambda>e. (fst e, rb_root s)) (qh_corhash q)\<rparr>) (st\<lparr>links := s\<rparr>) =
    upd_qhash (mm_qhash mm) (\<lambda>q. q\<lparr>qh_corhash := ex_upd fst c (\<lambda>e. (fst e, rb_root s)) (with_cor c (qh_corhash q))\<rparr>) (st\<lparr>links := s\<rparr>)"
    using qh Some by (intro upd_qhash_cong[of _ _ qh]) (simp_all add: with_cor_def)
  ultimately show ?thesis using Some qh mm r i c
    by (simp add: tmq_cor_msg_add_def tmq_cor_find_def with_cor_def upd_commute tree_at_def)
qed

lemma cor_msg_add_ok:
  assumes p: "places base st tr co" and qh: "tmq_qhash_get (mm_qhash mm) st = Some qh"
    and mm: "tq_heap st m = Some mm" "co m = None" "stamp_ok base (mm_msg mm)" and c: "c = mm_corrid_str mm"
    and new: "\<forall>m' \<in> at co (mm_qhash mm, c). stamp (msgs st m') \<noteq> stamp (mm_msg mm)"
    and ok: "at co (mm_qhash mm, c) \<noteq> {} \<or> ev_malloc env m"
  shows "\<exists>st'. tmq_cor_msg_add env m st = Some (EXSUCCEED, st') \<and> places base st' tr (co(m \<mapsto> (mm_qhash mm, c))) \<and>
      tq_heap st' = (tq_heap st)(m \<mapsto> mm\<lparr>mm_corhash := Some c\<rparr>) \<and> same_tables st st'"
proof -
  let ?name = "mm_qhash mm" and ?ms = "msgs st" and ?A = "\<lambda>c. at co (mm_qhash mm, c)"
  note q = queue_parts(5)[OF places_queue[OF p qh]]
  have "rb_color (links st) RBTNIL = RBTBLACK" using p by (simp add: places_def)
  then obtain r where r: "ex_find fst c (with_cor c (qh_corhash qh)) = Some (c, r)"
      "rbt_holds (cor_key ?ms) (cor_nodes base ?ms) (tree_at st r) (Cor ` ?A c)"
    using with_cor_find[OF q, of c] by (auto simp: tree_holds_def tree_at_def)
  have x: "Cor m \<in> cor_nodes base ?ms" "\<forall>n \<in> Cor ` ?A c. cor_key ?ms n \<noteq> cor_key ?ms (Cor m)"
    using mm new by (auto simp: cor_nodes_def cor_key_def msgs_def)
  obtain s where s: "ndrx_rbt_insert (tmq_rbt_cmp_cor ?ms) tmq_rbt_combine_cor (tree_at st r) (Nd (Cor m)) = Some (Nd (Cor m), True, s)"
      "rbt_holds (cor_key ?ms) (cor_nodes base ?ms) s (insert (Cor m) (Cor ` ?A c))" "same_out (insert (Cor m) (Cor ` ?A c)) (links st) s"
    using cor.holds_insert[OF r(2) x] by (auto simp: tree_at_def)
  have black: "rb_color s RBTNIL = RBTBLACK" using holds_black[OF s(2)] .
  let ?g = "\<lambda>h. ex_upd fst c (\<lambda>e. (fst e, rb_root s)) (with_cor c h)"
  have "ex_inv fst (qh_corhash qh)" using q by (simp add: cor_ok_def)
  then have "cor_ok base ?ms s (?g (qh_corhash qh)) (\<lambda>c'. at (co(m \<mapsto> (?name, c))) (?name, c'))"
    using s(2,3) mm(2) r(1) by (intro cor_ok_upd[OF q _ black, of m c])
      (auto simp: at_upd_None with_cor_inv with_cor_other ex_inv_upd ex_find_upd tree_holds_def)
  then have pl: "places base (upd_qhash ?name (\<lambda>q. q\<lparr>qh_corhash := ?g (qh_corhash q)\<rparr>) (st\<lparr>links := s\<rparr>)) tr (co(m \<mapsto> (?name, c)))"
    using mm(2) s(3) black by (intro cor_changed[OF p qh, of m c _ s ?g]) auto
  have "ex_find fst c (qh_corhash qh) \<noteq> None \<or> ev_malloc env m" using ok cor_ok_none[OF q, of c] by blast
  from cor_msg_add_eq[OF qh mm(1) c r(1) this s(1)] show ?thesis using pl mm(1) by (simp add: same_tables_upd qh_counts_def)
qed

lemma cor_msg_add_fails:
  assumes p: "places base st tr co" and qh: "tmq_qhash_get (mm_qhash mm) st = Some qh" and mm: "tq_heap st m = Some mm"
    and no: "at co (mm_qhash mm, mm_corrid_str mm) = {}" "\<not> ev_malloc env m"
  shows "tmq_cor_msg_add env m st = Some (QMEOS, st)"
proof -
  have "ex_find fst (mm_corrid_str mm) (qh_corhash qh) = None"
    using cor_ok_tree(1)[OF queue_parts(5)[OF places_queue[OF p qh]]] no(1) by (cases "ex_find fst (mm_corrid_str mm) (qh_corhash qh)") auto
  then show ?thesis using qh mm no(2) by (simp add: tmq_cor_msg_add_def tmq_cor_find_def tmq_cor_add_def)
qed

end
