(* ===== verification/Tmq_Moves.thy ===== *)
theory Tmq_Moves
  imports Tmq_Places
begin

text \<open>
  The moves of a message between the queues keep the memory in step with the \<open>qstate\<close> of the messages.
\<close>

section \<open>The invariant\<close>

definition tr_of :: "tmq_memmsg \<Rightarrow> (string \<times> place) option" where
  "tr_of mm =
    (if mm_qstate mm AND NDRX_TMQ_LOC_INFL \<noteq> 0 then Some (mm_qhash mm, PInfl)
     else if mm_qstate mm AND NDRX_TMQ_LOC_FUTQ \<noteq> 0 then Some (mm_qhash mm, PFut)
     else if mm_qstate mm AND NDRX_TMQ_LOC_CURQ \<noteq> 0 then Some (mm_qhash mm, PCur)
     else None)"

definition co_of :: "tmq_memmsg \<Rightarrow> (string \<times> string) option" where
  "co_of mm = (if mm_qstate mm AND NDRX_TMQ_LOC_CORQ \<noteq> 0 then Some (mm_qhash mm, mm_corrid_str mm) else None)"

definition trs :: "tmq_st \<Rightarrow> nat \<Rightarrow> (string \<times> place) option" where
  "trs st m = Option.bind (tq_heap st m) tr_of"

definition cos :: "tmq_st \<Rightarrow> nat \<Rightarrow> (string \<times> string) option" where
  "cos st m = Option.bind (tq_heap st m) co_of"

text \<open>The states of a message that is in the queues, and those on the way in and out.\<close>

definition queued_states :: "16 word set" where
  "queued_states = {NDRX_TMQ_LOC_INFL OR NDRX_TMQ_LOC_MSGIDHASH, NDRX_TMQ_LOC_FUTQ OR NDRX_TMQ_LOC_MSGIDHASH,
     NDRX_TMQ_LOC_CURQ OR NDRX_TMQ_LOC_MSGIDHASH, NDRX_TMQ_LOC_CURQ OR NDRX_TMQ_LOC_CORQ OR NDRX_TMQ_LOC_MSGIDHASH}"

definition loc_states :: "16 word set" where
  "loc_states = {0, NDRX_TMQ_LOC_CURQ} \<union> queued_states"

definition msg_ok :: "int \<Rightarrow> tmq_msg \<Rightarrow> bool" where
  "msg_ok base msg \<longleftrightarrow> stamp_ok base msg \<and> (qctl_flags msg AND TPQTIME_ABS \<noteq> 0 \<longrightarrow> in_window base (sint (qctl_deq_time msg)))"

definition mm_ok :: "int \<Rightarrow> tmq_memmsg \<Rightarrow> bool" where
  "mm_ok base mm \<longleftrightarrow> mm_qstate mm \<in> loc_states \<and> msg_ok base (mm_msg mm) \<and>
     mm_corhash mm = (if mm_qstate mm AND NDRX_TMQ_LOC_CORQ \<noteq> 0 then Some (mm_corrid_str mm) else None)"

definition ids_ok :: "tmq_st \<Rightarrow> bool" where
  "ids_ok st \<longleftrightarrow> ex_inv fst (G_msgid_hash st) \<and>
     (\<forall>k m. ex_find fst k (G_msgid_hash st) = Some (k, m) \<longleftrightarrow>
        (\<exists>mm. tq_heap st m = Some mm \<and> mm_msgid_str mm = k \<and> mm_qstate mm AND NDRX_TMQ_LOC_MSGIDHASH \<noteq> 0))"

definition stamps_differ :: "tmq_st \<Rightarrow> bool" where
  "stamps_differ st \<longleftrightarrow> (\<forall>m m' mm mm'. tq_heap st m = Some mm \<longrightarrow> tq_heap st m' = Some mm' \<longrightarrow> m \<noteq> m' \<longrightarrow>
     stamp (mm_msg mm) \<noteq> stamp (mm_msg mm'))"

definition core :: "int \<Rightarrow> tmq_st \<Rightarrow> bool" where
  "core base st \<longleftrightarrow> places base st (trs st) (cos st) \<and> (\<forall>m mm. tq_heap st m = Some mm \<longrightarrow> mm_ok base mm) \<and> stamps_differ st \<and> ids_ok st"

definition tmq_ok :: "int \<Rightarrow> tmq_st \<Rightarrow> bool" where
  "tmq_ok base st \<longleftrightarrow> core base st \<and> (\<forall>m mm. tq_heap st m = Some mm \<longrightarrow> mm_qstate mm \<in> queued_states)"

lemmas state_simps = loc_defs queued_states_def loc_states_def

lemma trs_upd: "tq_heap st' = (tq_heap st)(m \<mapsto> mm) \<Longrightarrow> trs st' = (trs st)(m := tr_of mm)"
  "tq_heap st' = (tq_heap st)(m \<mapsto> mm) \<Longrightarrow> cos st' = (cos st)(m := co_of mm)"
  by (auto simp: trs_def cos_def fun_eq_iff)

lemma core_stamps:
  assumes "core base st" "tq_heap st m = Some mm" "m' \<noteq> m" "trs st m' \<noteq> None \<or> cos st m' \<noteq> None"
  shows "stamp (msgs st m') \<noteq> stamp (mm_msg mm)"
proof -
  obtain mm' where "tq_heap st m' = Some mm'" using assms(4) by (cases "tq_heap st m'") (auto simp: trs_def cos_def)
  then show ?thesis using assms(1-3) unfolding core_def stamps_differ_def msgs_def by fastforce
qed

text \<open>The end of every move: the new struct fits the places, and what else the invariant says is kept.\<close>

lemma stamps_differ_upd:
  assumes "stamps_differ st" "tq_heap st m = Some mm" "tq_heap st' = (tq_heap st)(m \<mapsto> mm')" "stamp (mm_msg mm') = stamp (mm_msg mm)"
  shows "stamps_differ st'"
  using assms unfolding stamps_differ_def by (metis fun_upd_apply option.inject)

lemma ids_ok_upd:
  assumes "ids_ok st" "tq_heap st m = Some mm" "tq_heap st' = (tq_heap st)(m \<mapsto> mm')" "G_msgid_hash st' = G_msgid_hash st"
    "mm_msgid_str mm' = mm_msgid_str mm" "mm_qstate mm' AND NDRX_TMQ_LOC_MSGIDHASH \<noteq> 0 \<longleftrightarrow> mm_qstate mm AND NDRX_TMQ_LOC_MSGIDHASH \<noteq> 0"
  shows "ids_ok st'"
  using assms unfolding ids_ok_def by (auto split: if_splits)

lemma core_moved:
  assumes "core base st" "tq_heap st m = Some mm" "tq_heap st' = (tq_heap st)(m \<mapsto> mm')" "same_tables st st'"
    "mm_msg mm' = mm_msg mm" "mm_msgid_str mm' = mm_msgid_str mm"
    "mm_qstate mm' AND NDRX_TMQ_LOC_MSGIDHASH \<noteq> 0 \<longleftrightarrow> mm_qstate mm AND NDRX_TMQ_LOC_MSGIDHASH \<noteq> 0" "mm_ok base mm'"
    "places base st' ((trs st)(m := tr_of mm')) ((cos st)(m := co_of mm'))"
  shows "core base st'"
proof -
  have "ids_ok st'" using ids_ok_upd[of st m mm st' mm'] assms by (simp add: core_def same_tables_def)
  moreover have "stamps_differ st'" using stamps_differ_upd[of st m mm st' mm'] assms by (simp add: core_def)
  ultimately show ?thesis using assms(1,3,8,9) trs_upd[OF assms(3)] unfolding core_def by (auto split: if_splits)
qed

lemma set_qstate_simps [simp]:
  "tq_heap (set_qstate m f st) = (tq_heap st)(m := map_option (\<lambda>mm. mm\<lparr>mm_qstate := f (mm_qstate mm)\<rparr>) (tq_heap st m))"
  "places base (set_qstate m f st) tr co = places base st tr co" "same_tables st' (set_qstate m f st) = same_tables st' st"
  "tmq_qhash_get n (set_qstate m f st) = tmq_qhash_get n st" "msgs (set_qstate m f st) = msgs st"
  by (simp_all add: set_qstate_def)

section \<open>To the messages in flight\<close>

lemma same_tables_get: "same_tables st st' \<Longrightarrow> tmq_qhash_get n st = Some qh \<Longrightarrow> \<exists>qh'. tmq_qhash_get n st' = Some qh'"
proof -
  assume t: "same_tables st st'" "tmq_qhash_get n st = Some qh"
  have "map fst (map qh_counts (G_qhash st')) = map fst (map qh_counts (G_qhash st))" using t(1) by (simp add: same_tables_def)
  then have "map qh_name (G_qhash st') = map qh_name (G_qhash st)" by (simp add: qh_counts_def comp_def)
  moreover have "n \<in> set (map qh_name (G_qhash st))" using ex_find_Some t(2) by (fastforce simp: tmq_qhash_get_def)
  ultimately have "n \<in> set (map qh_name (G_qhash st'))" by simp
  then show ?thesis using ex_find_None[of qh_name n "G_qhash st'"] by (auto simp: tmq_qhash_get_def)
qed

lemma core_places: "core base st \<Longrightarrow> places base st (trs st) (cos st)"
  by (simp add: core_def)

lemma core_mm: "core base st \<Longrightarrow> tq_heap st m = Some mm \<Longrightarrow> mm_ok base mm"
  by (auto simp: core_def)

lemma trs_heap: "tq_heap st m = Some mm \<Longrightarrow> trs st m = tr_of mm" "tq_heap st m = Some mm \<Longrightarrow> cos st m = co_of mm"
  by (simp_all add: trs_def cos_def)

lemma queue_exists:
  assumes "core base st" "tq_heap st m = Some mm" "tr_of mm \<noteq> None"
  shows "\<exists>qh. tmq_qhash_get (mm_qhash mm) st = Some qh"
proof -
  obtain p where "trs st m = Some (mm_qhash mm, p)" using assms(2,3) by (auto simp: trs_heap tr_of_def split: if_splits)
  then show ?thesis using at_queue[OF core_places[OF assms(1)]] by blast
qed

lemma append_after:
  assumes "places base st1 tr co" "tr m = None" "same_tables st st1" "tmq_qhash_get name st = Some qh"
  shows "\<exists>st'. infl_append name m st1 = Some st' \<and> places base st' (tr(m \<mapsto> (name, PInfl))) co \<and> tq_heap st' = tq_heap st1 \<and> same_tables st st'"
proof -
  obtain qh' where "tmq_qhash_get name st1 = Some qh'" using same_tables_get[OF assms(3,4)] by blast
  then show ?thesis using infl_append_ok[OF assms(1) _ assms(2)] same_tables_trans[OF assms(3)] by blast
qed

lemma corhash_idem: "mm_corhash mm = v \<Longrightarrow> mm\<lparr>mm_corhash := v, mm_qstate := x\<rparr> = mm\<lparr>mm_qstate := x\<rparr>"
  by (cases mm) simp

lemma mov2infl_places:
  assumes c: "core base st" and mm: "tq_heap st m = Some mm" "mm_qstate mm \<in> {0x12, 0x14, 0x1c}"
  shows "\<exists>st'. ndrx_infl_mov2infl m st = Some (EXSUCCEED, st') \<and> same_tables st st' \<and>
    tq_heap st' = (tq_heap st)(m \<mapsto> mm\<lparr>mm_corhash := None, mm_qstate := 0x11\<rparr>) \<and>
    places base st' ((trs st)(m \<mapsto> (mm_qhash mm, PInfl))) ((cos st)(m := None))"
proof -
  let ?n = "mm_qhash mm" and ?mm = "mm\<lparr>mm_corhash := None, mm_qstate := 0x10\<rparr>"
  note p = core_places[OF c] and ok = core_mm[OF c mm(1)] and at = trs_heap[OF mm(1)]
  obtain qh where qh: "tmq_qhash_get ?n st = Some qh" using queue_exists[OF c mm(1)] mm(2) by (auto simp: tr_of_def loc_defs)
  have infl: ?thesis if s: "places base st1 ((trs st)(m := None)) ((cos st)(m := None))" "same_tables st st1"
    "tq_heap st1 = (tq_heap st)(m \<mapsto> ?mm)"
    "\<And>st4. infl_append ?n m st1 = Some st4 \<Longrightarrow> ndrx_infl_mov2infl m st = Some (EXSUCCEED, set_qstate m (\<lambda>f. f OR NDRX_TMQ_LOC_INFL) st4)" for st1
  proof -
    obtain st4 where "infl_append ?n m st1 = Some st4" "places base st4 ((trs st)(m \<mapsto> (?n, PInfl))) ((cos st)(m := None))"
        "tq_heap st4 = tq_heap st1" "same_tables st st4"
      using append_after[OF s(1) _ s(2) qh, of m] by auto
    then show ?thesis using s(3,4) by (simp add: loc_defs)
  qed
  consider "mm_qstate mm = 0x12" | "mm_qstate mm = 0x14" | "mm_qstate mm = 0x1c" using mm(2) by blast
  then show ?thesis
  proof cases
    case 1
    then have a: "trs st m = Some (?n, PFut)" "cos st m = None" "mm_corhash mm = None"
      using ok by (auto simp: at tr_of_def co_of_def loc_defs mm_ok_def)
    obtain st1 where "fut_delete ?n m st = Some st1" "places base st1 ((trs st)(m := None)) (cos st)"
        "tq_heap st1 = tq_heap st" "same_tables st st1" using fut_delete_ok[OF p a(1)] by blast
    then show ?thesis using mm(1) 1 a
      by (intro infl[of "set_qstate m (\<lambda>f. f AND NOT NDRX_TMQ_LOC_FUTQ) st1"]) (auto simp: ndrx_infl_mov2infl_def loc_defs fun_upd_idem corhash_idem)
  next
    case 2
    then have a: "trs st m = Some (?n, PCur)" "cos st m = None" "mm_corhash mm = None"
      using ok by (auto simp: at tr_of_def co_of_def loc_defs mm_ok_def)
    obtain st1 where "cur_delete ?n m st = Some st1" "places base st1 ((trs st)(m := None)) (cos st)"
        "tq_heap st1 = tq_heap st" "same_tables st st1" using cur_delete_ok[OF p a(1)] by blast
    then show ?thesis using mm(1) 2 a
      by (intro infl[of "set_qstate m (\<lambda>f. f AND NOT NDRX_TMQ_LOC_CURQ) st1"]) (auto simp: ndrx_infl_mov2infl_def loc_defs fun_upd_idem corhash_idem)
  next
    case 3
    then have a: "trs st m = Some (?n, PCur)" "cos st m = Some (?n, mm_corrid_str mm)" "mm_corhash mm = Some (mm_corrid_str mm)"
      using ok by (auto simp: at tr_of_def co_of_def loc_defs mm_ok_def)
    obtain st1 where s1: "cur_delete ?n m st = Some st1" "places base st1 ((trs st)(m := None)) (cos st)"
        "tq_heap st1 = tq_heap st" "same_tables st st1" using cur_delete_ok[OF p a(1)] by blast
    let ?st2 = "set_qstate m (\<lambda>f. f AND NOT NDRX_TMQ_LOC_CURQ) st1" and ?mm2 = "mm\<lparr>mm_qstate := 0x18\<rparr>"
    have s2: "places base ?st2 ((trs st)(m := None)) (cos st)" "tq_heap ?st2 m = Some ?mm2" using s1 mm(1) 3 by (simp_all add: loc_defs)
    obtain st3 where "tmq_cor_msg_del m ?st2 = Some st3" "places base st3 ((trs st)(m := None)) ((cos st)(m := None))"
        "tq_heap st3 = (tq_heap ?st2)(m \<mapsto> ?mm2\<lparr>mm_corhash := None\<rparr>)" "same_tables ?st2 st3"
      using cor_msg_del_ok[OF s2, of "mm_corrid_str mm"] a(2,3) by auto
    then show ?thesis using mm(1) 3 a s1 same_tables_trans[of st ?st2 st3]
      by (intro infl[of "set_qstate m (\<lambda>f. f AND NOT NDRX_TMQ_LOC_CORQ) st3"]) (auto simp: ndrx_infl_mov2infl_def loc_defs)
  qed
qed

lemma mov2infl_ok:
  assumes c: "core base st" and mm: "tq_heap st m = Some mm" "mm_qstate mm \<in> {0x12, 0x14, 0x1c}"
  shows "\<exists>st'. ndrx_infl_mov2infl m st = Some (EXSUCCEED, st') \<and> core base st' \<and> same_tables st st' \<and>
    tq_heap st' = (tq_heap st)(m \<mapsto> mm\<lparr>mm_corhash := None, mm_qstate := 0x11\<rparr>)"
proof -
  let ?mm = "mm\<lparr>mm_corhash := None, mm_qstate := 0x11\<rparr>"
  have "mm_ok base ?mm" "tr_of ?mm = Some (mm_qhash mm, PInfl)" "co_of ?mm = None"
    "mm_qstate mm AND NDRX_TMQ_LOC_MSGIDHASH \<noteq> 0" "mm_qstate ?mm AND NDRX_TMQ_LOC_MSGIDHASH \<noteq> 0"
    using core_mm[OF c mm(1)] mm(2) by (auto simp: mm_ok_def tr_of_def co_of_def state_simps)
  then show ?thesis using mov2infl_places[OF assms] core_moved[OF c mm(1), of _ ?mm] by fastforce
qed

section \<open>To the current messages\<close>

text \<open>A message joins its correlator when it has one and there is memory for it.\<close>

definition joins :: "tmq_env \<Rightarrow> cor_places \<Rightarrow> nat \<Rightarrow> tmq_memmsg \<Rightarrow> bool" where
  "joins env co m mm \<longleftrightarrow> qctl_flags (mm_msg mm) AND TPQCORRID \<noteq> 0 \<and> (at co (mm_qhash mm, mm_corrid_str mm) \<noteq> {} \<or> ev_malloc env m)"

definition ready_mm :: "bool \<Rightarrow> 16 word \<Rightarrow> tmq_memmsg \<Rightarrow> tmq_memmsg" where
  "ready_mm j f mm = mm\<lparr>mm_corhash := (if j then Some (mm_corrid_str mm) else None), mm_qstate := (if j then f OR NDRX_TMQ_LOC_CORQ else f)\<rparr>"

definition joined_code :: "tmq_env \<Rightarrow> cor_places \<Rightarrow> nat \<Rightarrow> tmq_memmsg \<Rightarrow> int" where
  "joined_code env co m mm = (if qctl_flags (mm_msg mm) AND TPQCORRID \<noteq> 0 \<and> \<not> joins env co m mm then EXFAIL else EXSUCCEED)"

lemma cor_if_needed_ok:
  assumes p: "places base st tr co" and mm: "tq_heap st m = Some mm" "mm_qstate mm = f" "mm_corhash mm = None" "co m = None" "stamp_ok base (mm_msg mm)"
    and qh: "tmq_qhash_get (mm_qhash mm) st = Some qh" and new: "\<And>m'. m' \<noteq> m \<Longrightarrow> co m' \<noteq> None \<Longrightarrow> stamp (msgs st m') \<noteq> stamp (mm_msg mm)"
  shows "\<exists>st'. cor_if_needed env m st = Some (joined_code env co m mm, st') \<and> same_tables st st' \<and>
    tq_heap st' = (tq_heap st)(m \<mapsto> ready_mm (joins env co m mm) f mm) \<and>
    places base st' tr (if joins env co m mm then co(m \<mapsto> (mm_qhash mm, mm_corrid_str mm)) else co)"
proof (cases "qctl_flags (mm_msg mm) AND TPQCORRID \<noteq> 0")
  case False
  then show ?thesis using mm p
    by (simp add: cor_if_needed_def joins_def ready_mm_def joined_code_def corhash_idem fun_upd_idem)
next
  case True
  show ?thesis
  proof (cases "joins env co m mm")
    case j: True
    have "\<forall>m' \<in> at co (mm_qhash mm, mm_corrid_str mm). stamp (msgs st m') \<noteq> stamp (mm_msg mm)"
      using new mm(4) by (metis at_iff option.distinct(1))
    then obtain st1 where "tmq_cor_msg_add env m st = Some (EXSUCCEED, st1)" "places base st1 tr (co(m \<mapsto> (mm_qhash mm, mm_corrid_str mm)))"
        "tq_heap st1 = (tq_heap st)(m \<mapsto> mm\<lparr>mm_corhash := Some (mm_corrid_str mm)\<rparr>)" "same_tables st st1"
      using cor_msg_add_ok[OF p qh mm(1,4,5) refl, of env] j by (auto simp: joins_def)
    then show ?thesis using True j mm by (simp add: cor_if_needed_def ready_mm_def joined_code_def)
  next
    case j: False
    then have "tmq_cor_msg_add env m st = Some (QMEOS, st)" using cor_msg_add_fails[OF p qh mm(1)] True by (auto simp: joins_def)
    then show ?thesis using True j mm p
      by (simp add: cor_if_needed_def ready_mm_def joined_code_def corhash_idem fun_upd_idem QMEOS_def)
  qed
qed

lemma cur_enqueue_ok:
  assumes p: "places base st tr co" and mm: "tq_heap st m = Some mm" "mm_corhash mm = None" "tr m = None" "co m = None" "stamp_ok base (mm_msg mm)"
    and qh: "tmq_qhash_get (mm_qhash mm) st = Some qh"
    and new: "\<And>m'. m' \<noteq> m \<Longrightarrow> tr m' \<noteq> None \<or> co m' \<noteq> None \<Longrightarrow> stamp (msgs st m') \<noteq> stamp (mm_msg mm)"
  shows "\<exists>st1 st'. cur_insert (mm_qhash mm) m st = Some st1 \<and> tq_heap st1 = tq_heap st \<and>
    cor_if_needed env m (set_qstate m g st1) = Some (joined_code env co m mm, st') \<and> same_tables st st' \<and>
    tq_heap st' = (tq_heap st)(m \<mapsto> ready_mm (joins env co m mm) (g (mm_qstate mm)) mm) \<and>
    places base st' (tr(m \<mapsto> (mm_qhash mm, PCur))) (if joins env co m mm then co(m \<mapsto> (mm_qhash mm, mm_corrid_str mm)) else co)"
proof -
  have ms: "msgs st m = mm_msg mm" using mm(1) by (simp add: msgs_def)
  have "\<forall>m' \<in> at tr (mm_qhash mm, PCur). stamp (msgs st m') \<noteq> stamp (msgs st m)" using new mm(3) ms by (metis at_iff option.distinct(1))
  then obtain st1 where s1: "cur_insert (mm_qhash mm) m st = Some st1" "places base st1 (tr(m \<mapsto> (mm_qhash mm, PCur))) co"
      "tq_heap st1 = tq_heap st" "same_tables st st1"
    using cur_insert_ok[OF p qh mm(3)] mm(5) ms by auto
  let ?st = "set_qstate m g st1" and ?mm = "mm\<lparr>mm_qstate := g (mm_qstate mm)\<rparr>"
  obtain qh1 where qh1: "tmq_qhash_get (mm_qhash mm) ?st = Some qh1" using same_tables_get[OF s1(4) qh] by auto
  have same: "joins env co m ?mm = joins env co m mm" "joined_code env co m ?mm = joined_code env co m mm"
    "ready_mm j (g (mm_qstate mm)) ?mm = ready_mm j (g (mm_qstate mm)) mm" for j
    by (simp_all add: joins_def joined_code_def ready_mm_def)
  have "msgs ?st = msgs st" using s1(3) by (simp add: msgs_def fun_eq_iff)
  then have "\<exists>st'. cor_if_needed env m ?st = Some (joined_code env co m ?mm, st') \<and> same_tables ?st st' \<and>
    tq_heap st' = (tq_heap ?st)(m \<mapsto> ready_mm (joins env co m ?mm) (g (mm_qstate mm)) ?mm) \<and>
    places base st' (tr(m \<mapsto> (mm_qhash mm, PCur))) (if joins env co m ?mm then co(m \<mapsto> (mm_qhash ?mm, mm_corrid_str ?mm)) else co)"
    using s1 mm qh1 new by (intro cor_if_needed_ok) simp_all
  then show ?thesis using s1 same_tables_trans[of st ?st] unfolding same by auto
qed

lemma fut_enqueue_ok:
  assumes p: "places base st tr co" and mm: "tq_heap st m = Some mm" "tr m = None" "msg_ok base (mm_msg mm)" "in_future env m (mm_msg mm)"
    and qh: "tmq_qhash_get name st = Some qh"
    and new: "\<And>m'. m' \<noteq> m \<Longrightarrow> tr m' \<noteq> None \<or> co m' \<noteq> None \<Longrightarrow> stamp (msgs st m') \<noteq> stamp (mm_msg mm)"
  shows "\<exists>st'. fut_insert name m st = Some st' \<and> places base st' (tr(m \<mapsto> (name, PFut))) co \<and> tq_heap st' = tq_heap st \<and> same_tables st st'"
proof -
  have ms: "msgs st m = mm_msg mm" using mm(1) by (simp add: msgs_def)
  have "\<forall>m' \<in> at tr (name, PFut). stamp (msgs st m') \<noteq> stamp (msgs st m)" using new mm(2) ms by (metis at_iff option.distinct(1))
  then show ?thesis using fut_insert_ok[OF p qh mm(2)] mm(3,4) ms by (auto simp: msg_ok_def fut_ok_def in_future_def)
qed

text \<open>The struct of a message that comes back from a transaction.\<close>

definition requeued :: "tmq_env \<Rightarrow> cor_places \<Rightarrow> nat \<Rightarrow> tmq_memmsg \<Rightarrow> tmq_memmsg" where
  "requeued env co m mm =
    (if in_future env m (mm_msg mm) then mm\<lparr>mm_qstate := 0x12\<rparr> else ready_mm (joins env co m mm) 0x14 mm)"

definition requeue_code :: "tmq_env \<Rightarrow> cor_places \<Rightarrow> nat \<Rightarrow> tmq_memmsg \<Rightarrow> int" where
  "requeue_code env co m mm = (if in_future env m (mm_msg mm) then EXSUCCEED else joined_code env co m mm)"

lemma mov2cur_places:
  assumes c: "core base st" and mm: "tq_heap st m = Some mm" "mm_qstate mm = 0x11"
  shows "\<exists>st'. ndrx_infl_mov2cur env m st = Some (requeue_code env (cos st) m mm, st') \<and> same_tables st st' \<and>
    tq_heap st' = (tq_heap st)(m \<mapsto> requeued env (cos st) m mm) \<and>
    places base st' ((trs st)(m := tr_of (requeued env (cos st) m mm))) ((cos st)(m := co_of (requeued env (cos st) m mm)))"
proof -
  let ?n = "mm_qhash mm"
  note p = core_places[OF c] and ok = core_mm[OF c mm(1)] and at = trs_heap[OF mm(1)]
  have a: "trs st m = Some (?n, PInfl)" "cos st m = None" "mm_corhash mm = None"
    using ok mm(2) by (auto simp: at tr_of_def co_of_def loc_defs mm_ok_def)
  obtain qh where qh: "tmq_qhash_get ?n st = Some qh" using at_queue[OF p a(1)] by blast
  obtain st0 where s0: "infl_delete ?n m st = Some st0" "places base st0 ((trs st)(m := None)) (cos st)" "tq_heap st0 = tq_heap st" "same_tables st st0"
    using infl_delete_ok[OF p a(1)] by blast
  let ?st = "set_qstate m (\<lambda>f. f AND NOT NDRX_TMQ_LOC_INFL) st0" and ?mm = "mm\<lparr>mm_qstate := 0x10\<rparr>"
  obtain qh1 where qh1: "tmq_qhash_get ?n ?st = Some qh1" using same_tables_get[OF s0(4) qh] by auto
  have ms: "msgs ?st = msgs st" using s0(3) by (simp add: msgs_def fun_eq_iff)
  have h: "tq_heap ?st = (tq_heap st)(m \<mapsto> ?mm)" using s0(3) mm by (simp add: loc_defs)
  have new: "stamp (msgs ?st m') \<noteq> stamp (mm_msg mm)" if "m' \<noteq> m" "((trs st)(m := None)) m' \<noteq> None \<or> cos st m' \<noteq> None" for m'
    using core_stamps[OF c mm(1) that(1)] that unfolding ms by auto
  have p1: "places base ?st ((trs st)(m := None)) (cos st)" and hm: "tq_heap ?st m = Some ?mm" using s0(2) unfolding h by simp_all
  show ?thesis
  proof (cases "in_future env m (mm_msg mm)")
    case True
    obtain st2 where "fut_insert ?n m ?st = Some st2" "places base st2 ((trs st)(m := None, m \<mapsto> (?n, PFut))) (cos st)"
        "tq_heap st2 = tq_heap ?st" "same_tables ?st st2"
      using fut_enqueue_ok[OF p1 hm _ _ _ qh1, of env] new True ok by (auto simp: mm_ok_def)
    then show ?thesis using s0 mm h True a same_tables_trans[of st ?st st2]
      by (simp add: ndrx_infl_mov2cur_def requeue_code_def requeued_def tr_of_def co_of_def loc_defs fun_upd_idem)
  next
    case False
    let ?j = "joins env (cos st) m mm"
    have "\<exists>st2 st'. cur_insert (mm_qhash ?mm) m ?st = Some st2 \<and> tq_heap st2 = tq_heap ?st \<and>
      cor_if_needed env m (set_qstate m (\<lambda>f. f OR NDRX_TMQ_LOC_CURQ) st2) = Some (joined_code env (cos st) m ?mm, st') \<and> same_tables ?st st' \<and>
      tq_heap st' = (tq_heap ?st)(m \<mapsto> ready_mm (joins env (cos st) m ?mm) (mm_qstate ?mm OR NDRX_TMQ_LOC_CURQ) ?mm) \<and>
      places base st' ((trs st)(m := None, m \<mapsto> (mm_qhash ?mm, PCur)))
        (if joins env (cos st) m ?mm then (cos st)(m \<mapsto> (mm_qhash ?mm, mm_corrid_str ?mm)) else cos st)"
      using p1 h a qh1 new ok by (intro cur_enqueue_ok) (auto simp: mm_ok_def msg_ok_def)
    moreover have "joins env (cos st) m ?mm = ?j" "joined_code env (cos st) m ?mm = joined_code env (cos st) m mm"
      "ready_mm ?j (mm_qstate ?mm OR NDRX_TMQ_LOC_CURQ) ?mm = ready_mm ?j 0x14 mm"
      by (simp_all add: joins_def joined_code_def ready_mm_def loc_defs)
    moreover have "tr_of (ready_mm ?j 0x14 mm) = Some (?n, PCur)"
      "co_of (ready_mm ?j 0x14 mm) = (if ?j then Some (?n, mm_corrid_str mm) else None)"
      by (simp_all add: ready_mm_def tr_of_def co_of_def loc_defs)
    ultimately show ?thesis using s0 mm h False a same_tables_trans[of st ?st]
      by (auto simp: ndrx_infl_mov2cur_def requeue_code_def requeued_def loc_defs fun_upd_idem)
  qed
qed

lemma ready_ok: "mm_ok base mm \<Longrightarrow> mm_ok base (ready_mm j 0x14 mm)"
  by (simp add: mm_ok_def ready_mm_def state_simps)

lemma requeued_simps [simp]:
  "mm_msg (requeued env co m mm) = mm_msg mm" "mm_msgid_str (requeued env co m mm) = mm_msgid_str mm"
  "mm_qhash (requeued env co m mm) = mm_qhash mm" "mm_corrid_str (requeued env co m mm) = mm_corrid_str mm"
  by (simp_all add: requeued_def ready_mm_def)

lemma requeued_ok: "mm_ok base mm \<Longrightarrow> mm_corhash mm = None \<Longrightarrow> mm_ok base (requeued env co m mm)"
  using ready_ok[of base mm] by (simp add: requeued_def mm_ok_def state_simps)

lemma requeued_state: "mm_qstate (requeued env co m mm) \<in> {0x12, 0x14, 0x1c}"
  by (simp add: requeued_def ready_mm_def loc_defs)

lemma mov2cur_ok:
  assumes c: "core base st" and mm: "tq_heap st m = Some mm" "mm_qstate mm = 0x11"
  shows "\<exists>st'. ndrx_infl_mov2cur env m st = Some (requeue_code env (cos st) m mm, st') \<and> core base st' \<and> same_tables st st' \<and>
    tq_heap st' = (tq_heap st)(m \<mapsto> requeued env (cos st) m mm)"
proof -
  let ?mm = "requeued env (cos st) m mm"
  have "mm_corhash mm = None" using core_mm[OF c mm(1)] mm(2) by (simp add: mm_ok_def loc_defs)
  then have ok: "mm_ok base ?mm" using requeued_ok core_mm[OF c mm(1)] by blast
  have "mm_qstate mm AND NDRX_TMQ_LOC_MSGIDHASH \<noteq> 0" "mm_qstate ?mm AND NDRX_TMQ_LOC_MSGIDHASH \<noteq> 0"
    using mm(2) requeued_state[of env "cos st" m mm] by (auto simp: loc_defs)
  then show ?thesis using mov2cur_places[OF assms, of env] core_moved[OF c mm(1), of _ ?mm] ok by fastforce
qed

section \<open>Out of the queues\<close>

definition free_mmsg :: "nat \<Rightarrow> tmq_st \<Rightarrow> tmq_st" where
  "free_mmsg m st = st\<lparr>tq_heap := (tq_heap st)(m := None)\<rparr>"

lemma cor_del_step:
  assumes "places base st tr co" "tq_heap st m = Some mm" "mm_ok base mm" "co m = co_of mm"
  shows "\<exists>st'. (if mm_qstate mm AND NDRX_TMQ_LOC_CORQ \<noteq> 0 then tmq_cor_msg_del m st else Some st) = Some st' \<and>
    places base st' tr (co(m := None)) \<and> tq_heap st' = (tq_heap st)(m \<mapsto> mm\<lparr>mm_corhash := None\<rparr>) \<and> same_tables st st'"
proof (cases "mm_qstate mm AND NDRX_TMQ_LOC_CORQ \<noteq> 0")
  case True
  then have "mm_corhash mm = Some (mm_corrid_str mm)" "co m = Some (mm_qhash mm, mm_corrid_str mm)"
    using assms(3,4) by (simp_all add: mm_ok_def co_of_def)
  from cor_msg_del_ok[OF assms(1,2) this] show ?thesis using True by simp
next
  case False
  then have "mm\<lparr>mm_corhash := None\<rparr> = mm" "co(m := None) = co" using assms(3,4) by (auto simp: mm_ok_def co_of_def)
  then show ?thesis using False assms(1,2) by (auto simp: fun_upd_idem)
qed

lemma tr_del_step:
  assumes p: "places base st tr co" and tr: "tr m = tr_of mm" and ok: "mm_ok base mm" and f: "f = mm_qstate mm" "n = mm_qhash mm"
  shows "\<exists>st3 st4 st5. (if f AND NDRX_TMQ_LOC_INFL \<noteq> 0 then infl_delete n m st else Some st) = Some st3 \<and>
    (if f AND NDRX_TMQ_LOC_FUTQ \<noteq> 0 then fut_delete n m st3 else Some st3) = Some st4 \<and>
    (if f AND NDRX_TMQ_LOC_CURQ \<noteq> 0 then cur_delete n m st4 else Some st4) = Some st5 \<and>
    places base st5 (tr(m := None)) co \<and> tq_heap st5 = tq_heap st \<and> same_tables st st5"
proof -
  have "f \<in> {0, 4, 0x11, 0x12, 0x14, 0x1c}" using ok f by (auto simp: mm_ok_def state_simps)
  then consider "f = 0" | "f = 0x11" | "f = 0x12" | "f = 4 \<or> f = 0x14 \<or> f = 0x1c" by blast
  then show ?thesis
  proof cases
    case 1
    then show ?thesis using p tr f by (simp add: tr_of_def loc_defs fun_upd_idem)
  next
    case 2
    then have "tr m = Some (n, PInfl)" using tr f by (simp add: tr_of_def loc_defs)
    from infl_delete_ok[OF p this] show ?thesis using 2 by (auto simp: loc_defs)
  next
    case 3
    then have "tr m = Some (n, PFut)" using tr f by (simp add: tr_of_def loc_defs)
    from fut_delete_ok[OF p this] show ?thesis using 3 by (auto simp: loc_defs)
  next
    case 4
    then have "tr m = Some (n, PCur)" using tr f by (auto simp: tr_of_def loc_defs)
    from cur_delete_ok[OF p this] show ?thesis using 4 by (auto simp: loc_defs)
  qed
qed

lemma delmsg_places:
  assumes c: "core base st" and mm: "tq_heap st m = Some mm"
  shows "\<exists>st'. ndrx_infl_delmsg m st = Some (EXSUCCEED, st') \<and>
    tq_heap st' = (tq_heap st)(m \<mapsto> mm\<lparr>mm_corhash := None, mm_qstate := 0\<rparr>) \<and>
    map qh_counts (G_qhash st') = map qh_counts (G_qhash st) \<and>
    G_msgid_hash st' = (if mm_qstate mm AND NDRX_TMQ_LOC_MSGIDHASH \<noteq> 0 then ex_del fst (mm_msgid_str mm) (G_msgid_hash st) else G_msgid_hash st) \<and>
    places base st' ((trs st)(m := None)) ((cos st)(m := None))"
proof -
  note p = core_places[OF c] and ok = core_mm[OF c mm] and at = trs_heap[OF mm]
  obtain st1 where s1: "(if mm_qstate mm AND NDRX_TMQ_LOC_CORQ \<noteq> 0 then tmq_cor_msg_del m st else Some st) = Some st1"
      "places base st1 (trs st) ((cos st)(m := None))" "tq_heap st1 = (tq_heap st)(m \<mapsto> mm\<lparr>mm_corhash := None\<rparr>)" "same_tables st st1"
    using cor_del_step[OF p mm ok at(2)] by blast
  define st2 where "st2 = (if mm_qstate mm AND NDRX_TMQ_LOC_MSGIDHASH \<noteq> 0
    then st1\<lparr>G_msgid_hash := ex_del fst (mm_msgid_str mm) (G_msgid_hash st1)\<rparr> else st1)"
  have p2: "places base st2 (trs st) ((cos st)(m := None))" "tq_heap st2 = tq_heap st1" "G_qhash st2 = G_qhash st1"
    using s1(2) by (simp_all add: st2_def)
  obtain st3 st4 st5 where s5: "(if mm_qstate mm AND NDRX_TMQ_LOC_INFL \<noteq> 0 then infl_delete (mm_qhash mm) m st2 else Some st2) = Some st3"
      "(if mm_qstate mm AND NDRX_TMQ_LOC_FUTQ \<noteq> 0 then fut_delete (mm_qhash mm) m st3 else Some st3) = Some st4"
      "(if mm_qstate mm AND NDRX_TMQ_LOC_CURQ \<noteq> 0 then cur_delete (mm_qhash mm) m st4 else Some st4) = Some st5"
      "places base st5 ((trs st)(m := None)) ((cos st)(m := None))" "tq_heap st5 = tq_heap st2" "same_tables st2 st5"
    using tr_del_step[OF p2(1) at(1) ok refl refl] by blast
  have "ndrx_infl_delmsg m st = Some (EXSUCCEED, set_qstate m (\<lambda>_. 0) st5)"
    unfolding ndrx_infl_delmsg_def Let_def mm Option.bind.bind_lunit s1(1) st2_def[symmetric] s5(1-3) ..
  moreover have "G_msgid_hash st5 = (if mm_qstate mm AND NDRX_TMQ_LOC_MSGIDHASH \<noteq> 0 then ex_del fst (mm_msgid_str mm) (G_msgid_hash st) else G_msgid_hash st)"
    using s1(4) s5(6) by (simp add: same_tables_def st2_def)
  moreover have "map qh_counts (G_qhash st5) = map qh_counts (G_qhash st)" using s1(4) s5(6) p2(3) by (simp add: same_tables_def)
  ultimately show ?thesis using s5(4,5) p2(2) s1(3) by (simp add: set_qstate_def)
qed

text \<open>Only the keys of messages that are linked matter.\<close>

definition same_key :: "tmq_msg \<Rightarrow> tmq_msg \<Rightarrow> bool" where
  "same_key a b \<longleftrightarrow> stamp a = stamp b \<and> qctl_deq_time a = qctl_deq_time b"

lemma stamp_ok_key: "stamp a = stamp b \<Longrightarrow> stamp_ok base a = stamp_ok base b"
  by (simp add: stamp_def stamp_ok_def)

lemma tree_key_cong:
  assumes "\<And>m. m \<in> A \<Longrightarrow> same_key (ms' m) (ms m)"
  shows "tree_holds (cur_key ms) (cur_nodes base ms) s r (Cur ` A) \<Longrightarrow> tree_holds (cur_key ms') (cur_nodes base ms') s r (Cur ` A)"
    "tree_holds (fut_key ms) (fut_nodes base ms) s r (Cur ` A) \<Longrightarrow> tree_holds (fut_key ms') (fut_nodes base ms') s r (Cur ` A)"
    "tree_holds (cor_key ms) (cor_nodes base ms) s r (Cor ` A) \<Longrightarrow> tree_holds (cor_key ms') (cor_nodes base ms') s r (Cor ` A)"
proof -
  note k = assms[unfolded same_key_def]
  assume h: "tree_holds (cur_key ms) (cur_nodes base ms) s r (Cur ` A)"
  then have "Cur ` A \<subseteq> cur_nodes base ms" using holds_carrier unfolding tree_holds_def by blast
  then have "stamp_ok base (ms m)" if "m \<in> A" for m using that by (auto simp: cur_nodes_def)
  then have "stamp_ok base (ms' m)" if "m \<in> A" for m using that k[OF that] stamp_ok_key[of "ms' m" "ms m"] by simp
  then have "Cur ` A \<subseteq> cur_nodes base ms'" by (auto simp: cur_nodes_def)
  then show "tree_holds (cur_key ms') (cur_nodes base ms') s r (Cur ` A)"
    unfolding tree_holds_def using k by (intro holds_cong[OF h[unfolded tree_holds_def]]) (auto simp: cur_key_def)
next
  note k = assms[unfolded same_key_def]
  assume h: "tree_holds (fut_key ms) (fut_nodes base ms) s r (Cur ` A)"
  then have "Cur ` A \<subseteq> fut_nodes base ms" using holds_carrier unfolding tree_holds_def by blast
  then have "fut_ok base (ms m)" if "m \<in> A" for m using that by (auto simp: fut_nodes_def)
  then have "fut_ok base (ms' m)" if "m \<in> A" for m using that k[OF that] stamp_ok_key[of "ms' m" "ms m"] by (simp add: fut_ok_def)
  then have "Cur ` A \<subseteq> fut_nodes base ms'" by (auto simp: fut_nodes_def)
  then show "tree_holds (fut_key ms') (fut_nodes base ms') s r (Cur ` A)"
    unfolding tree_holds_def using k by (intro holds_cong[OF h[unfolded tree_holds_def]]) (auto simp: fut_key_def)
next
  note k = assms[unfolded same_key_def]
  assume h: "tree_holds (cor_key ms) (cor_nodes base ms) s r (Cor ` A)"
  then have "Cor ` A \<subseteq> cor_nodes base ms" using holds_carrier unfolding tree_holds_def by blast
  then have "stamp_ok base (ms m)" if "m \<in> A" for m using that by (auto simp: cor_nodes_def)
  then have "stamp_ok base (ms' m)" if "m \<in> A" for m using that k[OF that] stamp_ok_key[of "ms' m" "ms m"] by simp
  then have "Cor ` A \<subseteq> cor_nodes base ms'" by (auto simp: cor_nodes_def)
  then show "tree_holds (cor_key ms') (cor_nodes base ms') s r (Cor ` A)"
    unfolding tree_holds_def using k by (intro holds_cong[OF h[unfolded tree_holds_def]]) (auto simp: cor_key_def)
qed

lemma cor_key_cong:
  assumes "cor_ok base ms s h A" "\<And>m c. m \<in> A c \<Longrightarrow> same_key (ms' m) (ms m)"
  shows "cor_ok base ms' s h A"
proof -
  have "case ex_find fst c h of None \<Rightarrow> A c = {}
    | Some e \<Rightarrow> A c \<noteq> {} \<and> tree_holds (cor_key ms') (cor_nodes base ms') s (snd e) (Cor ` A c)" for c
    using cor_ok_none[OF assms(1), of c] cor_ok_tree[OF assms(1), of c] tree_key_cong(3)[of "A c" ms' ms] assms(2)
    by (auto split: option.split)
  then show ?thesis using assms(1) by (simp add: cor_ok_def)
qed

lemma places_key_cong:
  assumes p: "places base st tr co" and k: "\<And>m. tr m \<noteq> None \<or> co m \<noteq> None \<Longrightarrow> same_key (msgs st' m) (msgs st m)"
    and st: "links st' = links st" "G_qhash st' = G_qhash st"
  shows "places base st' tr co"
proof -
  have get: "tmq_qhash_get n st' = tmq_qhash_get n st" for n using st(2) by (simp add: tmq_qhash_get_def)
  have "queue_ok base (msgs st') (links st) tr co n qh" if "tmq_qhash_get n st = Some qh" for n qh
    using queue_parts[OF places_queue[OF p that]] tree_key_cong(1,2)[of "at tr _" "msgs st'" "msgs st"]
      cor_key_cong[of base "msgs st" _ _ "\<lambda>c. at co (n, c)" "msgs st'"] k unfolding queue_ok_def by simp
  then show ?thesis using p places_none[OF p] st(1) get unfolding places_def by (auto split: option.split)
qed

lemma ids_ok_freed:
  assumes ids: "ids_ok st" and mm: "tq_heap st m = Some mm" and h: "tq_heap st' = (tq_heap st)(m := None)"
    and g: "G_msgid_hash st' = (if mm_qstate mm AND NDRX_TMQ_LOC_MSGIDHASH \<noteq> 0 then ex_del fst (mm_msgid_str mm) (G_msgid_hash st) else G_msgid_hash st)"
  shows "ids_ok st'"
proof -
  have inv: "ex_inv fst (G_msgid_hash st)" using ids by (simp add: ids_ok_def)
  have find: "ex_find fst k (G_msgid_hash st) = Some (k, m') \<longleftrightarrow>
      (\<exists>mm. tq_heap st m' = Some mm \<and> mm_msgid_str mm = k \<and> mm_qstate mm AND NDRX_TMQ_LOC_MSGIDHASH \<noteq> 0)" for k m'
    using ids by (simp add: ids_ok_def)
  have "ex_find fst k (G_msgid_hash st') = Some (k, m') \<longleftrightarrow>
      (\<exists>mm. tq_heap st' m' = Some mm \<and> mm_msgid_str mm = k \<and> mm_qstate mm AND NDRX_TMQ_LOC_MSGIDHASH \<noteq> 0)" for k m'
  proof (cases "mm_qstate mm AND NDRX_TMQ_LOC_MSGIDHASH \<noteq> 0")
    case True
    then have f: "ex_find fst k (G_msgid_hash st') = (if k = mm_msgid_str mm then None else ex_find fst k (G_msgid_hash st))"
      using g inv by (simp add: ex_find_del)
    have "ex_find fst (mm_msgid_str mm) (G_msgid_hash st) = Some (mm_msgid_str mm, m)" using find mm True by blast
    then show ?thesis using f find[of k m'] mm h by (auto split: if_splits)
  next
    case False
    then show ?thesis using g find[of k m'] mm h by auto
  qed
  moreover have "ex_inv fst (G_msgid_hash st')" using g inv by (simp add: ex_inv_del)
  ultimately show ?thesis by (simp add: ids_ok_def)
qed

lemma trs_freed: "tq_heap st' = (tq_heap st)(m := None) \<Longrightarrow> trs st' = (trs st)(m := None)"
  "tq_heap st' = (tq_heap st)(m := None) \<Longrightarrow> cos st' = (cos st)(m := None)"
  by (auto simp: trs_def cos_def)

lemma delmsg_ok:
  assumes c: "core base st" and mm: "tq_heap st m = Some mm"
  shows "\<exists>st'. ndrx_infl_delmsg m st = Some (EXSUCCEED, st') \<and> core base (free_mmsg m st') \<and>
    tq_heap st' = (tq_heap st)(m \<mapsto> mm\<lparr>mm_corhash := None, mm_qstate := 0\<rparr>) \<and> map qh_counts (G_qhash st') = map qh_counts (G_qhash st)"
proof -
  obtain st' where s: "ndrx_infl_delmsg m st = Some (EXSUCCEED, st')" "map qh_counts (G_qhash st') = map qh_counts (G_qhash st)"
      "tq_heap st' = (tq_heap st)(m \<mapsto> mm\<lparr>mm_corhash := None, mm_qstate := 0\<rparr>)"
      "G_msgid_hash st' = (if mm_qstate mm AND NDRX_TMQ_LOC_MSGIDHASH \<noteq> 0 then ex_del fst (mm_msgid_str mm) (G_msgid_hash st) else G_msgid_hash st)"
      "places base st' ((trs st)(m := None)) ((cos st)(m := None))"
    using delmsg_places[OF assms] by blast
  let ?st = "free_mmsg m st'"
  have h: "tq_heap ?st = (tq_heap st)(m := None)" using s(3) by (simp add: free_mmsg_def)
  have "places base ?st ((trs st)(m := None)) ((cos st)(m := None))"
    by (rule places_key_cong[OF s(5)]) (auto simp: free_mmsg_def same_key_def msgs_def split: if_splits)
  moreover have "ids_ok ?st" using ids_ok_freed[OF _ mm h] s(4) c by (simp add: core_def free_mmsg_def)
  moreover have "stamps_differ ?st" using c unfolding core_def stamps_differ_def h by (auto split: if_splits)
  ultimately have "core base ?st" using c h trs_freed[OF h] unfolding core_def by (auto split: if_splits)
  then show ?thesis using s by blast
qed

end
