(* ===== verification/Tmq_Ready.thy ===== *)
theory Tmq_Ready
  imports Tmq_Moves
begin

text \<open>
  New messages, and messages whose time has come.
\<close>

section \<open>A new message\<close>

text \<open>The struct of a message that was added.\<close>

definition added :: "tmq_env \<Rightarrow> cor_places \<Rightarrow> string \<Rightarrow> string \<Rightarrow> nat \<Rightarrow> tmq_memmsg \<Rightarrow> tmq_memmsg" where
  "added env co qconf qhash m mm0 = (let mm = mm0\<lparr>mm_qconf := qconf, mm_qhash := qhash\<rparr> in
     if lockthreadid (mm_msg mm) \<noteq> 0 then mm\<lparr>mm_qstate := 0x11\<rparr>
     else if in_future env m (mm_msg mm) then mm\<lparr>mm_qstate := 0x12\<rparr>
     else ready_mm (joins env co m mm) (if joined_code env co m mm = EXSUCCEED then 0x14 else 0x04) mm)"

definition add_code :: "tmq_env \<Rightarrow> cor_places \<Rightarrow> string \<Rightarrow> nat \<Rightarrow> tmq_memmsg \<Rightarrow> int" where
  "add_code env co qhash m mm0 =
    (if lockthreadid (mm_msg mm0) \<noteq> 0 \<or> in_future env m (mm_msg mm0) then EXSUCCEED else joined_code env co m (mm0\<lparr>mm_qhash := qhash\<rparr>))"

lemma ids_ok_added:
  assumes ids: "ids_ok st" and mm: "tq_heap st m = Some mm" "mm_qstate mm AND NDRX_TMQ_LOC_MSGIDHASH = 0"
    and fresh: "ex_find fst (mm_msgid_str mm) (G_msgid_hash st) = None" and h: "tq_heap st' = (tq_heap st)(m \<mapsto> mm')"
    and mm': "mm_msgid_str mm' = mm_msgid_str mm" "mm_qstate mm' AND NDRX_TMQ_LOC_MSGIDHASH \<noteq> 0"
    and g: "G_msgid_hash st' = ex_add (mm_msgid_str mm, m) (G_msgid_hash st)"
  shows "ids_ok st'"
proof -
  have find: "ex_find fst k (G_msgid_hash st) = Some (k, m') \<longleftrightarrow>
      (\<exists>mm. tq_heap st m' = Some mm \<and> mm_msgid_str mm = k \<and> mm_qstate mm AND NDRX_TMQ_LOC_MSGIDHASH \<noteq> 0)" for k m'
    using ids by (simp add: ids_ok_def)
  have f: "ex_find fst k (G_msgid_hash st') = (if k = mm_msgid_str mm then Some (k, m) else ex_find fst k (G_msgid_hash st))" for k
    using ex_find_add[of fst "(mm_msgid_str mm, m)" "G_msgid_hash st" k] fresh g by simp
  have "ex_find fst k (G_msgid_hash st') = Some (k, m') \<longleftrightarrow>
      (\<exists>mm. tq_heap st' m' = Some mm \<and> mm_msgid_str mm = k \<and> mm_qstate mm AND NDRX_TMQ_LOC_MSGIDHASH \<noteq> 0)" for k m'
    using find[of k m'] f[of k] fresh mm mm' h by (cases "k = mm_msgid_str mm") auto
  moreover have "ex_inv fst (G_msgid_hash st')" using ids fresh g ex_inv_add[of fst "G_msgid_hash st" "(mm_msgid_str mm, m)"] by (simp add: ids_ok_def)
  ultimately show ?thesis by (simp add: ids_ok_def)
qed

lemma core_added:
  assumes "core base st" "tq_heap st m = Some mm" "mm_qstate mm AND NDRX_TMQ_LOC_MSGIDHASH = 0"
    "ex_find fst (mm_msgid_str mm) (G_msgid_hash st) = None" "tq_heap st' = (tq_heap st)(m \<mapsto> mm')"
    "mm_msg mm' = mm_msg mm" "mm_msgid_str mm' = mm_msgid_str mm" "mm_qstate mm' AND NDRX_TMQ_LOC_MSGIDHASH \<noteq> 0" "mm_ok base mm'"
    "G_msgid_hash st' = ex_add (mm_msgid_str mm, m) (G_msgid_hash st)"
    "places base st' ((trs st)(m := tr_of mm')) ((cos st)(m := co_of mm'))"
  shows "core base st'"
proof -
  have "ids_ok st'" using ids_ok_added[of st m mm st' mm'] assms by (simp add: core_def)
  moreover have "stamps_differ st'" using stamps_differ_upd[of st m mm st' mm'] assms by (simp add: core_def)
  ultimately show ?thesis using assms(1,5,9,11) trs_upd[OF assms(5)] unfolding core_def by (auto split: if_splits)
qed

text \<open>The choice of the queue.  The message goes into the hash of identifiers afterwards, so the bit for it is not set yet.\<close>

definition with_id :: "tmq_memmsg \<Rightarrow> tmq_memmsg" where
  "with_id mm = mm\<lparr>mm_qstate := mm_qstate mm OR NDRX_TMQ_LOC_MSGIDHASH\<rparr>"

definition placed :: "int \<Rightarrow> tmq_st \<Rightarrow> nat \<Rightarrow> tmq_st \<Rightarrow> tmq_memmsg \<Rightarrow> bool" where
  "placed base st m st1 mm \<longleftrightarrow> tq_heap st1 = (tq_heap st)(m \<mapsto> mm) \<and> same_tables st st1 \<and>
     places base st1 ((trs st)(m := tr_of mm)) ((cos st)(m := co_of mm)) \<and> tr_of (with_id mm) = tr_of mm \<and> co_of (with_id mm) = co_of mm"

lemma addmsg_place_ok:
  assumes p: "places base st0 (trs st) (cos st)" and h: "tq_heap st0 = (tq_heap st)(m \<mapsto> mm)" and t: "same_tables st st0"
    and qh: "tmq_qhash_get qhash st = Some qh" and mm: "mm_qhash mm = qhash" "mm_corhash mm = None" "msg_ok base (mm_msg mm)"
    and a: "trs st m = None" "cos st m = None"
    and new: "\<And>m'. m' \<noteq> m \<Longrightarrow> trs st m' \<noteq> None \<or> cos st m' \<noteq> None \<Longrightarrow> stamp (msgs st0 m') \<noteq> stamp (mm_msg mm)"
  shows "\<exists>st1 mm'. addmsg_place env qhash m st0 = Some (add_code env (cos st) qhash m mm, st1) \<and> placed base st m st1 mm' \<and>
    (if add_code env (cos st) qhash m mm = EXSUCCEED then with_id mm' else mm') = added env (cos st) (mm_qconf mm) qhash m mm"
proof -
  have hm: "tq_heap st0 m = Some mm" using h by simp
  have same: "mm\<lparr>mm_qhash := qhash\<rparr> = mm" "mm\<lparr>mm_qconf := mm_qconf mm, mm_qhash := qhash\<rparr> = mm" using mm(1) by simp_all
  obtain qh0 where qh0: "tmq_qhash_get qhash st0 = Some qh0" using same_tables_get[OF t qh] by blast
  consider "lockthreadid (mm_msg mm) \<noteq> 0" | "lockthreadid (mm_msg mm) = 0" "in_future env m (mm_msg mm)"
    | "lockthreadid (mm_msg mm) = 0" "\<not> in_future env m (mm_msg mm)" by blast
  then show ?thesis
  proof cases
    case 1
    obtain st1 where "infl_append qhash m st0 = Some st1" "places base st1 ((trs st)(m \<mapsto> (qhash, PInfl))) (cos st)"
        "tq_heap st1 = tq_heap st0" "same_tables st st1"
      using append_after[OF p a(1) t qh] by blast
    then show ?thesis using 1 hm h a(2) mm(1)
      by (intro exI[of _ "set_qstate m (\<lambda>_. NDRX_TMQ_LOC_INFL) st1"] exI[of _ "mm\<lparr>mm_qstate := 1\<rparr>"])
        (simp add: addmsg_place_def add_code_def added_def same placed_def with_id_def tr_of_def co_of_def loc_defs fun_upd_idem)
  next
    case 2
    obtain st1 where "fut_insert qhash m st0 = Some st1" "places base st1 ((trs st)(m \<mapsto> (qhash, PFut))) (cos st)"
        "tq_heap st1 = tq_heap st0" "same_tables st0 st1"
      using fut_enqueue_ok[OF p hm a(1) mm(3) 2(2) qh0 new] by blast
    then show ?thesis using 2 hm h a(2) mm(1) same_tables_trans[OF t]
      by (intro exI[of _ "set_qstate m (\<lambda>_. NDRX_TMQ_LOC_FUTQ) st1"] exI[of _ "mm\<lparr>mm_qstate := 2\<rparr>"])
        (simp add: addmsg_place_def add_code_def added_def same placed_def with_id_def tr_of_def co_of_def loc_defs fun_upd_idem)
  next
    case 3
    let ?j = "joins env (cos st) m mm" and ?mm = "ready_mm (joins env (cos st) m mm) NDRX_TMQ_LOC_CURQ mm"
    have q: "stamp_ok base (mm_msg mm)" "tmq_qhash_get (mm_qhash mm) st0 = Some qh0" using mm qh0 by (simp_all add: msg_ok_def)
    obtain st1 st' where s: "cur_insert qhash m st0 = Some st1"
        "cor_if_needed env m (set_qstate m (\<lambda>_. NDRX_TMQ_LOC_CURQ) st1) = Some (joined_code env (cos st) m mm, st')" "same_tables st0 st'"
        "tq_heap st' = (tq_heap st0)(m \<mapsto> ?mm)"
        "places base st' ((trs st)(m \<mapsto> (qhash, PCur))) (if ?j then (cos st)(m \<mapsto> (qhash, mm_corrid_str mm)) else cos st)"
      using cur_enqueue_ok[OF p hm mm(2) a q new, of env "\<lambda>_. NDRX_TMQ_LOC_CURQ"] unfolding mm(1) by blast
    have "tr_of ?mm = Some (qhash, PCur)" "co_of ?mm = (if ?j then Some (qhash, mm_corrid_str mm) else None)"
      "tr_of (with_id ?mm) = tr_of ?mm" "co_of (with_id ?mm) = co_of ?mm"
      by (simp_all add: ready_mm_def with_id_def tr_of_def co_of_def loc_defs mm(1))
    then have "placed base st m st' ?mm" using s(3-5) h a(2) same_tables_trans[OF t] by (auto simp: placed_def fun_upd_idem)
    moreover have "(if joined_code env (cos st) m mm = EXSUCCEED then with_id ?mm else ?mm) = added env (cos st) (mm_qconf mm) qhash m mm"
      using 3 by (auto simp: added_def same with_id_def ready_mm_def joined_code_def loc_defs)
    ultimately show ?thesis using 3 s(1,2) hm by (auto simp: addmsg_place_def add_code_def same)
  qed
qed

lemma added_qconf: "added env co qconf qhash m (mm\<lparr>mm_qconf := qconf, mm_qhash := qhash\<rparr>) = added env co qconf qhash m mm"
  "add_code env co qhash m (mm\<lparr>mm_qconf := qconf, mm_qhash := qhash\<rparr>) = add_code env co qhash m mm"
  by (simp_all add: added_def add_code_def joined_code_def joins_def)

lemma added_simps [simp]: "mm_msg (added env co qconf qhash m mm) = mm_msg mm"
  "mm_msgid_str (added env co qconf qhash m mm) = mm_msgid_str mm" "mm_corrid_str (added env co qconf qhash m mm) = mm_corrid_str mm"
  "mm_qhash (added env co qconf qhash m mm) = qhash"
  by (simp_all add: added_def ready_mm_def Let_def)

lemma added_ok:
  assumes "mm_ok base mm" "mm_qstate mm = 0"
  shows "mm_ok base (added env co qconf qhash m mm)"
    "mm_qstate (added env co qconf qhash m mm) \<in> {0x11, 0x12, 0x14, 0x1c} \<and> add_code env co qhash m mm = EXSUCCEED \<or>
     mm_qstate (added env co qconf qhash m mm) = 0x04 \<and> add_code env co qhash m mm = EXFAIL"
  using assms by (auto simp: added_def add_code_def mm_ok_def ready_mm_def state_simps joined_code_def joins_def Let_def)

lemma addmsg_ok:
  assumes c: "core base st" and mm: "tq_heap st m = Some mm" "mm_qstate mm = 0" and qh: "tmq_qhash_get qhash st = Some qh"
    and fresh: "ex_find fst (mm_msgid_str mm) (G_msgid_hash st) = None"
  shows "\<exists>st'. ndrx_infl_addmsg env qconf qhash m st = Some (add_code env (cos st) qhash m mm, st') \<and> core base st' \<and>
    tq_heap st' = (tq_heap st)(m \<mapsto> added env (cos st) qconf qhash m mm) \<and> map qh_counts (G_qhash st') = map qh_counts (G_qhash st)"
proof -
  let ?mm1 = "mm\<lparr>mm_qconf := qconf, mm_qhash := qhash\<rparr>" and ?code = "add_code env (cos st) qhash m mm"
  let ?add = "added env (cos st) qconf qhash m mm"
  let ?st0 = "upd_mmsg m (\<lambda>mm. mm\<lparr>mm_qconf := qconf, mm_qhash := qhash\<rparr>) st"
  note p = core_places[OF c] and ok = core_mm[OF c mm(1)] and at = trs_heap[OF mm(1)]
  have a: "trs st m = None" "cos st m = None" "mm_corhash ?mm1 = None" "msg_ok base (mm_msg ?mm1)"
    using ok mm(2) by (auto simp: at tr_of_def co_of_def loc_defs mm_ok_def)
  have st0: "places base ?st0 (trs st) (cos st)" "tq_heap ?st0 = (tq_heap st)(m \<mapsto> ?mm1)" "same_tables st ?st0" "msgs ?st0 = msgs st"
    using p mm(1) by simp_all
  have new: "stamp (msgs ?st0 m') \<noteq> stamp (mm_msg ?mm1)" if "m' \<noteq> m" "trs st m' \<noteq> None \<or> cos st m' \<noteq> None" for m'
    using core_stamps[OF c mm(1) that] unfolding st0(4) by simp
  have q: "mm_qhash ?mm1 = qhash" by simp
  obtain st1 mm' where s1: "addmsg_place env qhash m ?st0 = Some (?code, st1)" "placed base st m st1 mm'"
      "(if ?code = EXSUCCEED then with_id mm' else mm') = ?add"
    using addmsg_place_ok[OF st0(1,2,3) qh q a(3,4,1,2) new, of env] by (auto simp: added_qconf)
  note pl = s1(2)[unfolded placed_def] and aok = added_ok[OF ok mm(2), of env "cos st" qconf qhash m]
  show ?thesis
  proof (cases "?code = EXSUCCEED")
    case False
    then have "mm' = ?add" "mm_qstate ?add = 4" using s1(3) aok(2) by auto
    moreover have "core base st1"
      using pl aok(1) mm calculation by (intro core_moved[OF c mm(1)]) (auto simp: loc_defs)
    ultimately show ?thesis using s1(1) False pl by (simp add: ndrx_infl_addmsg_def same_tables_def)
  next
    case True
    then have w: "with_id mm' = ?add" using s1(3) by simp
    have m': "mm'\<lparr>mm_qstate := mm_qstate mm' OR NDRX_TMQ_LOC_MSGIDHASH\<rparr> = ?add" "mm_qstate ?add AND NDRX_TMQ_LOC_MSGIDHASH \<noteq> 0"
      using w aok(2) True by (auto simp: with_id_def loc_defs)
    have id: "mm_msgid_str mm' = mm_msgid_str mm" using arg_cong[OF w, of mm_msgid_str] by (simp add: with_id_def)
    let ?st = "set_qstate m (\<lambda>f. f OR NDRX_TMQ_LOC_MSGIDHASH) (st1\<lparr>G_msgid_hash := ex_add (mm_msgid_str mm, m) (G_msgid_hash st1)\<rparr>)"
    have "core base ?st" using pl m' id w mm fresh aok(1)
      by (intro core_added[OF c mm(1)]) (auto simp: loc_defs same_tables_def set_qstate_def)
    then show ?thesis using s1(1) True pl m' id by (simp add: ndrx_infl_addmsg_def same_tables_def set_qstate_def)
  qed
qed

section \<open>Messages whose time has come\<close>

lemma fut_step:
  assumes c: "core base st" and mm: "tq_heap st m = Some mm" "mm_qstate mm = 0x12"
  shows "\<exists>st1 st2 st'. fut_delete (mm_qhash mm) m st = Some st1 \<and>
    cur_insert (mm_qhash mm) m (set_qstate m (\<lambda>f. f AND NOT NDRX_TMQ_LOC_FUTQ) st1) = Some st2 \<and>
    cor_if_needed env m (set_qstate m (\<lambda>f. f OR NDRX_TMQ_LOC_CURQ) st2) = Some (joined_code env (cos st) m mm, st') \<and>
    core base st' \<and> same_tables st st' \<and> tq_heap st' = (tq_heap st)(m \<mapsto> ready_mm (joins env (cos st) m mm) 0x14 mm)"
proof -
  let ?n = "mm_qhash mm" and ?mm = "mm\<lparr>mm_qstate := 0x10\<rparr>" and ?j = "joins env (cos st) m mm"
  note p = core_places[OF c] and ok = core_mm[OF c mm(1)] and at = trs_heap[OF mm(1)]
  have a: "trs st m = Some (?n, PFut)" "cos st m = None" "mm_corhash ?mm = None"
    using ok mm(2) by (auto simp: at tr_of_def co_of_def loc_defs mm_ok_def)
  obtain qh where qh: "tmq_qhash_get ?n st = Some qh" using at_queue[OF p a(1)] by blast
  obtain st1 where s1: "fut_delete ?n m st = Some st1" "places base st1 ((trs st)(m := None)) (cos st)" "tq_heap st1 = tq_heap st" "same_tables st st1"
    using fut_delete_ok[OF p a(1)] by blast
  let ?st = "set_qstate m (\<lambda>f. f AND NOT NDRX_TMQ_LOC_FUTQ) st1"
  obtain qh1 where qh1: "tmq_qhash_get (mm_qhash ?mm) ?st = Some qh1" using same_tables_get[OF s1(4) qh] by auto
  have p1: "places base ?st ((trs st)(m := None)) (cos st)" "tq_heap ?st = (tq_heap st)(m \<mapsto> ?mm)" "same_tables st ?st" "msgs ?st = msgs st"
    using s1 mm by (simp_all add: loc_defs msgs_def fun_eq_iff)
  have hm: "tq_heap ?st m = Some ?mm" "((trs st)(m := None)) m = None" "stamp_ok base (mm_msg ?mm)"
    using p1(2) ok by (simp_all add: mm_ok_def msg_ok_def)
  have new: "stamp (msgs ?st m') \<noteq> stamp (mm_msg ?mm)" if "m' \<noteq> m" "((trs st)(m := None)) m' \<noteq> None \<or> cos st m' \<noteq> None" for m'
    using core_stamps[OF c mm(1) that(1)] that unfolding p1(4) by auto
  have same: "joins env (cos st) m ?mm = ?j" "joined_code env (cos st) m ?mm = joined_code env (cos st) m mm" "mm_qhash ?mm = ?n"
    "ready_mm ?j (mm_qstate ?mm OR NDRX_TMQ_LOC_CURQ) ?mm = ready_mm ?j 0x14 mm" "mm_corrid_str ?mm = mm_corrid_str mm"
    by (simp_all add: joins_def joined_code_def ready_mm_def loc_defs)
  obtain st2 st' where s: "cur_insert ?n m ?st = Some st2"
      "cor_if_needed env m (set_qstate m (\<lambda>f. f OR NDRX_TMQ_LOC_CURQ) st2) = Some (joined_code env (cos st) m mm, st')" "same_tables ?st st'"
      "tq_heap st' = (tq_heap ?st)(m \<mapsto> ready_mm ?j 0x14 mm)"
      "places base st' ((trs st)(m := None, m \<mapsto> (?n, PCur))) (if ?j then (cos st)(m \<mapsto> (?n, mm_corrid_str mm)) else cos st)"
    using cur_enqueue_ok[OF p1(1) hm(1) a(3) hm(2) a(2) hm(3) qh1 new, of env "\<lambda>f. f OR NDRX_TMQ_LOC_CURQ"] unfolding same by blast
  have h: "tq_heap st' = (tq_heap st)(m \<mapsto> ready_mm ?j 0x14 mm)" using s(4) unfolding p1(2) by simp
  have t: "same_tables st st'" using same_tables_trans[OF p1(3) s(3)] .
  have r: "tr_of (ready_mm ?j 0x14 mm) = Some (?n, PCur)" "co_of (ready_mm ?j 0x14 mm) = (if ?j then Some (?n, mm_corrid_str mm) else None)"
    "mm_qstate (ready_mm ?j 0x14 mm) AND NDRX_TMQ_LOC_MSGIDHASH \<noteq> 0" "mm_qstate mm AND NDRX_TMQ_LOC_MSGIDHASH \<noteq> 0"
    "mm_msg (ready_mm ?j 0x14 mm) = mm_msg mm" "mm_msgid_str (ready_mm ?j 0x14 mm) = mm_msgid_str mm"
    using mm(2) by (simp_all add: ready_mm_def tr_of_def co_of_def loc_defs)
  have "places base st' ((trs st)(m := tr_of (ready_mm ?j 0x14 mm))) ((cos st)(m := co_of (ready_mm ?j 0x14 mm)))"
    using s(5) a(2) by (auto simp: r fun_upd_idem)
  then have "core base st'" using core_moved[OF c mm(1) h t r(5,6) _ ready_ok[OF ok]] r(3,4) by blast
  then show ?thesis using s1(1) s(1,2) t h by blast
qed

definition moved_due :: "tmq_env \<Rightarrow> string \<Rightarrow> bool \<Rightarrow> (nat \<Rightarrow> tmq_memmsg option) \<Rightarrow> (nat \<Rightarrow> tmq_memmsg option) \<Rightarrow> bool" where
  "moved_due env name ok h h' \<longleftrightarrow> (\<forall>m. h' m = h m \<or>
     (\<exists>mm j. h m = Some mm \<and> mm_qhash mm = name \<and> mm_qstate mm = 0x12 \<and> sint (qctl_deq_time (mm_msg mm)) \<le> ev_time env m \<and>
        h' m = Some (ready_mm j 0x14 mm) \<and> (j \<longrightarrow> qctl_flags (mm_msg mm) AND TPQCORRID \<noteq> 0) \<and>
        (ok \<longrightarrow> (j \<longleftrightarrow> qctl_flags (mm_msg mm) AND TPQCORRID \<noteq> 0))))"

lemma moved_due_refl: "moved_due env name ok h h"
  by (simp add: moved_due_def)

lemma ready_not_future [simp]: "mm_qstate (ready_mm j 0x14 mm) \<noteq> 0x12"
  by (simp add: ready_mm_def loc_defs)

lemma moved_due_step:
  assumes "moved_due env name ok (h(m \<mapsto> ready_mm j 0x14 mm)) h'" "h m = Some mm" "mm_qhash mm = name" "mm_qstate mm = 0x12"
    "sint (qctl_deq_time (mm_msg mm)) \<le> ev_time env m" "j \<longrightarrow> qctl_flags (mm_msg mm) AND TPQCORRID \<noteq> 0"
    "ok \<longrightarrow> (j \<longleftrightarrow> qctl_flags (mm_msg mm) AND TPQCORRID \<noteq> 0)"
  shows "moved_due env name ok h h'"
  unfolding moved_due_def
proof
  fix n
  show "h' n = h n \<or> (\<exists>mm j. h n = Some mm \<and> mm_qhash mm = name \<and> mm_qstate mm = 0x12 \<and> sint (qctl_deq_time (mm_msg mm)) \<le> ev_time env n \<and>
        h' n = Some (ready_mm j 0x14 mm) \<and> (j \<longrightarrow> qctl_flags (mm_msg mm) AND TPQCORRID \<noteq> 0) \<and>
        (ok \<longrightarrow> (j \<longleftrightarrow> qctl_flags (mm_msg mm) AND TPQCORRID \<noteq> 0)))"
  proof (cases "n = m")
    case True
    then have "h' n = Some (ready_mm j 0x14 mm)" using assms(1) unfolding moved_due_def by (auto dest!: spec[of _ m])
    then show ?thesis using True assms(2-7) by blast
  next
    case False
    then show ?thesis using assms(1) unfolding moved_due_def by (auto dest!: spec[of _ n])
  qed
qed

lemma tmq_ok_heap: "tmq_ok base st \<Longrightarrow> tq_heap st m = Some mm \<Longrightarrow> mm_qstate mm \<in> {0x11, 0x12, 0x14, 0x1c}"
  unfolding tmq_ok_def by (auto simp: state_simps)

lemma at_fut_iff:
  assumes "tmq_ok base st"
  shows "m \<in> at (trs st) (name, PFut) \<longleftrightarrow> (\<exists>mm. tq_heap st m = Some mm \<and> mm_qhash mm = name \<and> mm_qstate mm = 0x12)"
  using tmq_ok_heap[OF assms, of m] by (cases "tq_heap st m") (auto simp: trs_def tr_of_def loc_defs)

lemma fut_finite: "places base st tr co \<Longrightarrow> finite (at tr (name, PFut))"
proof (cases "tmq_qhash_get name st")
  case None
  assume "places base st tr co"
  then show ?thesis using places_none(1)[OF _ None] by (metis finite.emptyI)
next
  case (Some qh)
  assume "places base st tr co"
  from queue_parts(2)[OF places_queue[OF this Some]] show ?thesis
    unfolding tree_holds_def by (auto dest!: holds_finite simp: finite_image_iff inj_on_def)
qed

lemma fut_leftmost:
  assumes "places base st tr co" "tmq_qhash_get name st = Some qh"
  shows "at tr (name, PFut) = {} \<and> ndrx_rbt_leftmost (tree_at st (qh_fut qh)) = Some None \<or>
    (\<exists>m \<in> at tr (name, PFut). ndrx_rbt_leftmost (tree_at st (qh_fut qh)) = Some (Some (Nd (Cur m))) \<and>
      (\<forall>m' \<in> at tr (name, PFut). sint (qctl_deq_time (msgs st m)) \<le> sint (qctl_deq_time (msgs st m'))))"
proof -
  have "rbt_holds (fut_key (msgs st)) (fut_nodes base (msgs st)) (tree_at st (qh_fut qh)) (Cur ` at tr (name, PFut))"
    using queue_parts(2)[OF places_queue[OF assms]] by (simp add: tree_holds_def tree_at_def)
  from holds_leftmost[OF this] show ?thesis
  proof
    assume "\<exists>p \<in> Cur ` at tr (name, PFut). ndrx_rbt_leftmost (tree_at st (qh_fut qh)) = Some (Some (Nd p)) \<and>
      (\<forall>q \<in> Cur ` at tr (name, PFut). q \<noteq> p \<longrightarrow> fut_key (msgs st) p < fut_key (msgs st) q)"
    then obtain m where m: "m \<in> at tr (name, PFut)" "ndrx_rbt_leftmost (tree_at st (qh_fut qh)) = Some (Some (Nd (Cur m)))"
      "\<And>m'. m' \<in> at tr (name, PFut) \<Longrightarrow> m' \<noteq> m \<Longrightarrow> fut_key (msgs st) (Cur m) < fut_key (msgs st) (Cur m')" by auto
    have "sint (qctl_deq_time (msgs st m)) \<le> sint (qctl_deq_time (msgs st m'))" if "m' \<in> at tr (name, PFut)" for m'
      using m(3)[OF that] by (cases "m' = m") (auto simp: fut_key_def)
    then show ?thesis using m(1,2) by blast
  qed auto
qed

lemma ready_queued:
  assumes "tmq_ok base st" "core base st'" "tq_heap st' = (tq_heap st)(m \<mapsto> ready_mm j 0x14 mm)"
  shows "tmq_ok base st'"
  using assms unfolding tmq_ok_def by (auto simp: ready_mm_def state_simps)

definition none_due :: "tmq_env \<Rightarrow> string \<Rightarrow> tmq_st \<Rightarrow> bool" where
  "none_due env name st \<longleftrightarrow> (\<forall>m mm. tq_heap st m = Some mm \<longrightarrow> mm_qhash mm = name \<longrightarrow> mm_qstate mm = 0x12 \<longrightarrow>
      (\<exists>m0. ev_time env m0 < sint (qctl_deq_time (mm_msg mm))))"

definition fut2cur_post :: "int \<Rightarrow> tmq_env \<Rightarrow> string \<Rightarrow> tmq_st \<Rightarrow> int \<Rightarrow> tmq_st \<Rightarrow> bool" where
  "fut2cur_post base env name st r st' \<longleftrightarrow> tmq_ok base st' \<and> same_tables st st' \<and>
     moved_due env name (r = EXSUCCEED) (tq_heap st) (tq_heap st') \<and> (r = EXSUCCEED \<longrightarrow> none_due env name st') \<and>
     (r \<noteq> EXSUCCEED \<longrightarrow> (\<exists>m. \<not> ev_malloc env m))"

lemma post_step:
  assumes "fut2cur_post base env name st1 r st'" "same_tables st st1" "tq_heap st m = Some mm" "mm_qhash mm = name" "mm_qstate mm = 0x12"
    "tq_heap st1 = (tq_heap st)(m \<mapsto> ready_mm j 0x14 mm)" "sint (qctl_deq_time (mm_msg mm)) \<le> ev_time env m"
    "j \<longrightarrow> qctl_flags (mm_msg mm) AND TPQCORRID \<noteq> 0" "r = EXSUCCEED \<longrightarrow> (j \<longleftrightarrow> qctl_flags (mm_msg mm) AND TPQCORRID \<noteq> 0)"
  shows "fut2cur_post base env name st r st'"
  using assms moved_due_step[of env name "r = EXSUCCEED" "tq_heap st" m j mm "tq_heap st'"] same_tables_trans[of st st1 st']
  by (simp add: fut2cur_post_def)

lemma fut2cur_stops:
  assumes ok: "tmq_ok base st" and m: "\<And>m'. m' \<in> at (trs st) (name, PFut) \<Longrightarrow> t \<le> sint (qctl_deq_time (msgs st m'))" "ev_time env m < t"
  shows "fut2cur_post base env name st EXSUCCEED st"
proof -
  have "\<exists>m0. ev_time env m0 < sint (qctl_deq_time (mm_msg mm'))"
    if "tq_heap st m' = Some mm'" "mm_qhash mm' = name" "mm_qstate mm' = 0x12" for m' mm'
  proof -
    have "m' \<in> at (trs st) (name, PFut)" using at_fut_iff[OF ok] that by blast
    then show ?thesis using m(1)[of m'] m(2) that(1) by (intro exI[of _ m]) (simp add: msgs_def)
  qed
  then show ?thesis using ok moved_due_refl by (auto simp: fut2cur_post_def none_due_def)
qed

lemma fut2cur_ok:
  assumes "tmq_ok base st" "tmq_qhash_get name st = Some qh"
  shows "\<exists>r st'. ndrx_infl_fut2cur env name st = Some (r, st') \<and> fut2cur_post base env name st r st'"
  using assms
proof (induction "card (at (trs st) (name, PFut))" arbitrary: st qh rule: less_induct)
  case less
  have c: "core base st" using less.prems(1) by (simp add: tmq_ok_def)
  note p = core_places[OF c] and fut = at_fut_iff[OF less.prems(1), of _ name]
  from fut_leftmost[OF p less.prems(2)] consider
      "at (trs st) (name, PFut) = {}" "ndrx_rbt_leftmost (tree_at st (qh_fut qh)) = Some None"
    | m where "m \<in> at (trs st) (name, PFut)" "ndrx_rbt_leftmost (tree_at st (qh_fut qh)) = Some (Some (Nd (Cur m)))"
      "\<And>m'. m' \<in> at (trs st) (name, PFut) \<Longrightarrow> sint (qctl_deq_time (msgs st m)) \<le> sint (qctl_deq_time (msgs st m'))" by blast
  then show ?case
  proof cases
    case 1
    then have "ndrx_infl_fut2cur env name st = Some (EXSUCCEED, st)" using less.prems(2) by (subst ndrx_infl_fut2cur.simps) simp
    moreover have "fut2cur_post base env name st EXSUCCEED st"
      using fut2cur_stops[OF less.prems(1), of name "ev_time env 0 + 1" env 0] 1(1) by simp
    ultimately show ?thesis by blast
  next
    case (2 m)
    obtain mm where mm: "tq_heap st m = Some mm" "mm_qhash mm = name" "mm_qstate mm = 0x12" using fut 2(1) by blast
    show ?thesis
    proof (cases "sint (qctl_deq_time (mm_msg mm)) \<le> ev_time env m")
      case False
      then have "ndrx_infl_fut2cur env name st = Some (EXSUCCEED, st)"
        using less.prems(2) 2(2) mm(1) by (subst ndrx_infl_fut2cur.simps) simp
      moreover have "ev_time env m < sint (qctl_deq_time (msgs st m))" using mm(1) False by (simp add: msgs_def)
      ultimately show ?thesis using fut2cur_stops[OF less.prems(1), of name "sint (qctl_deq_time (msgs st m))" env m] 2(3) by blast
    next
      case True
      let ?j = "joins env (cos st) m mm" and ?code = "joined_code env (cos st) m mm"
      obtain st1 st2 st3 where s: "fut_delete name m st = Some st1" "cur_insert name m (set_qstate m (\<lambda>f. f AND NOT NDRX_TMQ_LOC_FUTQ) st1) = Some st2"
          "cor_if_needed env m (set_qstate m (\<lambda>f. f OR NDRX_TMQ_LOC_CURQ) st2) = Some (?code, st3)"
          "core base st3" "same_tables st st3" "tq_heap st3 = (tq_heap st)(m \<mapsto> ready_mm ?j 0x14 mm)"
        using fut_step[OF c mm(1,3), of env] unfolding mm(2) by blast
      have ok: "tmq_ok base st3" using ready_queued[OF less.prems(1) s(4,6)] .
      have unf: "ndrx_infl_fut2cur env name st = (if ?code \<noteq> EXSUCCEED then Some (?code, st3) else ndrx_infl_fut2cur env name st3)"
        using less.prems(2) 2(2) mm s(1,2,3) True by (subst ndrx_infl_fut2cur.simps) simp
      have step: "fut2cur_post base env name st r st'" if "fut2cur_post base env name st3 r st'" "r = EXSUCCEED \<longrightarrow> ?code = EXSUCCEED" for r st'
        using post_step[OF that(1) s(5) mm s(6) True] that(2) by (auto simp: joins_def joined_code_def split: if_splits)
      show ?thesis
      proof (cases "?code = EXSUCCEED")
        case False
        have "\<not> ev_malloc env m" using False by (auto simp: joined_code_def joins_def split: if_splits)
        then have "fut2cur_post base env name st3 ?code st3" using ok moved_due_refl False by (auto simp: fut2cur_post_def)
        then show ?thesis using step[of ?code st3] unf False by auto
      next
        case code: True
        obtain qh3 where qh3: "tmq_qhash_get name st3 = Some qh3" using same_tables_get[OF s(5) less.prems(2)] by blast
        have "at (trs st3) (name, PFut) = at (trs st) (name, PFut) - {m}"
          unfolding trs_upd(1)[OF s(6)] at_upd by (simp add: tr_of_def ready_mm_def loc_defs)
        then have "card (at (trs st3) (name, PFut)) < card (at (trs st) (name, PFut))"
          using card_Diff1_less[OF fut_finite[OF p] 2(1)] by (simp only:)
        from less.hyps[OF this ok qh3] show ?thesis using step unf code by auto
      qed
    qed
  qed
qed

end
