(* ===== verification/Tmq_Qspace.thy ===== *)
theory Tmq_Qspace
  imports Tmq_Ready Xid
begin

text \<open>
  The queue space: adding, taking, locking, unlocking and removing messages (tmqueue/qspace.c).  Each function is
  one critical section under the lock of the queue space, or two with a command written to the storage in between; the
  outcome of the write is an argument.  The addresses of new structs are arguments as well.
\<close>

section \<open>Configuration\<close>

record tmq_qconfig =
  qc_name :: string
  qc_memonly :: bool
  qc_mode :: char

definition TMQ_DEFAULT_Q :: string where "TMQ_DEFAULT_Q = ''@''"
definition TMQ_MODE_LIFO :: char where "TMQ_MODE_LIFO = CHR ''L''"

definition tmq_qconf_get :: "tmq_qconfig list \<Rightarrow> string \<Rightarrow> tmq_qconfig option" where
  "tmq_qconf_get G_qconf qname = ex_find qc_name qname G_qconf"

definition tmq_qconf_get_with_default :: "tmq_qconfig list \<Rightarrow> string \<Rightarrow> tmq_qconfig option" where
  "tmq_qconf_get_with_default G_qconf qname =
    (case tmq_qconf_get G_qconf qname of
       Some qc \<Rightarrow> Some qc
     | None \<Rightarrow> tmq_qconf_get G_qconf TMQ_DEFAULT_Q)"

section \<open>Adding\<close>

text \<open>The text of an identifier in a buffer of \<open>TMMSGIDLEN_STR + 1\<close> characters.\<close>

definition msgid_text :: "8 word list \<Rightarrow> string option" where
  "msgid_text msgid = map_option cstr (tmq_msgid_serialize msgid (replicate 46 EXEOS))"

definition tmq_get_msg_by_msgid_str :: "string \<Rightarrow> tmq_st \<Rightarrow> nat option" where
  "tmq_get_msg_by_msgid_str msgid_str st = map_option snd (ex_find fst msgid_str (G_msgid_hash st))"

definition tmq_qhash_new :: "bool \<Rightarrow> string \<Rightarrow> tmq_st \<Rightarrow> bool \<times> tmq_st" where
  "tmq_qhash_new calloc_ok qname st =
    (if calloc_ok
     then (True, st\<lparr>G_qhash := ex_add \<lparr>qh_name = qname, qh_succ = 0, qh_fail = 0, qh_numenq = 0, qh_numdeq = 0,
        qh_q = rb_root (ndrx_rbt_init (links st)), qh_fut = rb_root (ndrx_rbt_init (links st)), qh_infl = [], qh_corhash = []\<rparr> (G_qhash st)\<rparr>)
     else (False, st))"

definition new_mmsg :: "tmq_msg \<Rightarrow> tmq_memmsg" where
  "new_mmsg msg = \<lparr>mm_msgid_str = [], mm_corrid_str = [], mm_corhash = None, mm_qconf = [], mm_qhash = [], mm_msg = msg, mm_qstate = 0\<rparr>"

definition alloc_mmsg :: "nat \<Rightarrow> tmq_msg \<Rightarrow> tmq_st \<Rightarrow> tmq_st" where
  "alloc_mmsg m msg st = st\<lparr>tq_heap := (tq_heap st)(m \<mapsto> new_mmsg msg)\<rparr>"

text \<open>The part up to the return of \<open>ndrx_infl_addmsg\<close>: a code, the diagnostic, the configuration.\<close>

definition msg_add_link :: "tmq_qconfig list \<Rightarrow> tmq_env \<Rightarrow> bool \<Rightarrow> nat \<Rightarrow> tmq_msg \<Rightarrow> tmq_st \<Rightarrow> (int \<times> int \<times> bool \<times> tmq_st) option" where
  "msg_add_link G_qconf env calloc_ok m msg st =
    (case tmq_qconf_get_with_default G_qconf (hdr_qname msg) of
       None \<Rightarrow> Some (EXFAIL, QMEBADQUEUE, False, st)
     | Some qconf \<Rightarrow> do {
         msgid_str \<leftarrow> msgid_text (hdr_msgid msg);
         if tmq_get_msg_by_msgid_str msgid_str st \<noteq> None then Some (EXFAIL, 0, qc_memonly qconf, st)
         else do {
           let (found, st1) = (if tmq_qhash_get (hdr_qname msg) st = None then tmq_qhash_new calloc_ok (hdr_qname msg) st else (True, st));
           if \<not> found then Some (EXFAIL, 0, qc_memonly qconf, st1)
           else do {
             let st2 = upd_mmsg m (\<lambda>mm. mm\<lparr>mm_msgid_str := msgid_str\<rparr>) st1;
             st3 \<leftarrow> (if qctl_flags msg AND TPQCORRID \<noteq> 0
               then map_option (\<lambda>c. upd_mmsg m (\<lambda>mm. mm\<lparr>mm_corrid_str := c\<rparr>) st2) (msgid_text (qctl_corrid msg))
               else Some st2);
             (ret, st4) \<leftarrow> ndrx_infl_addmsg env (qc_name qconf) (hdr_qname msg) m st3;
             Some (ret, 0, qc_memonly qconf, st4)
           }
         }
       })"

definition count_enq :: "string \<Rightarrow> tmq_st \<Rightarrow> tmq_st" where
  "count_enq qname st = upd_qhash qname (\<lambda>qh. qh\<lparr>qh_numenq := qh_numenq qh + 1\<rparr>) st"

text \<open>What a caller sees of the world outside: the structs for the message and for a new queue, and the write to the storage.\<close>

record tmq_io =
  io_mmsg :: "nat option"
  io_qhash :: bool
  io_store :: bool

definition tmq_msg_add :: "tmq_qconfig list \<Rightarrow> tmq_env \<Rightarrow> tmq_io \<Rightarrow> bool \<Rightarrow> tmq_msg \<Rightarrow> tmq_st \<Rightarrow> (int \<times> int \<times> tmq_st) option" where
  "tmq_msg_add G_qconf env io is_recovery msg st =
    (case io_mmsg io of
       None \<Rightarrow> Some (EXFAIL, 0, st)
     | Some m \<Rightarrow> do {
         (ret, diag, memonly, st1) \<leftarrow> msg_add_link G_qconf env (io_qhash io) m msg (alloc_mmsg m msg st);
         let failed = (ret = EXSUCCEED \<and> \<not> memonly \<and> \<not> is_recovery \<and> \<not> io_store io);
         if ret = EXSUCCEED \<and> \<not> failed then Some (EXSUCCEED, 0, count_enq (hdr_qname msg) st1)
         else do {
           (r, st2) \<leftarrow> ndrx_infl_delmsg m st1;
           Some ((if failed then EXFAIL else ret), (if failed then QMEOS else diag), free_mmsg m st2)
         }
       })"

section \<open>Taking\<close>

definition set_lock :: "nat \<Rightarrow> 64 word \<Rightarrow> tmq_st \<Rightarrow> tmq_st" where
  "set_lock m tid st = upd_mmsg m (\<lambda>mm. mm\<lparr>mm_msg := (mm_msg mm)\<lparr>lockthreadid := tid\<rparr>\<rparr>) st"

text \<open>The choice of the message: the newest or the oldest of the queue or of a correlator.\<close>

definition dequeue_pick :: "tmq_qconfig \<Rightarrow> string option \<Rightarrow> string \<Rightarrow> tmq_st \<Rightarrow> nat option option" where
  "dequeue_pick qconf corrid_str qname st = do {
     qh \<leftarrow> tmq_qhash_get qname st;
     case corrid_str of
       None \<Rightarrow> do {
         n \<leftarrow> (if qc_mode qconf = TMQ_MODE_LIFO then ndrx_rbt_rightmost (tree_at st (qh_q qh)) else ndrx_rbt_leftmost (tree_at st (qh_q qh)));
         Some (map_option cur_msg n)
       }
     | Some c \<Rightarrow> do {
         (_, corq) \<leftarrow> tmq_cor_find qh c;
         n \<leftarrow> (if qc_mode qconf = TMQ_MODE_LIFO then ndrx_rbt_rightmost (tree_at st corq) else ndrx_rbt_leftmost (tree_at st corq));
         node \<leftarrow> n;
         Some (Some (TMQ_COR_GETMSG node))
       }
   }"

text \<open>The lock, the move to the messages in flight and the command to the storage; when the command cannot be written, all the way
  back.  \<open>env\<close> is the time of the way back.\<close>

definition take_msg :: "tmq_env \<Rightarrow> bool \<Rightarrow> 64 word \<Rightarrow> bool \<Rightarrow> nat \<Rightarrow> tmq_st \<Rightarrow> (nat option \<times> int \<times> tmq_st) option" where
  "take_msg env removing tid store_ok m st = do {
     (r, st1) \<leftarrow> ndrx_infl_mov2infl m (set_lock m tid st);
     if r \<noteq> EXSUCCEED then Some (None, QMEOS, st1)
     else if removing \<and> \<not> store_ok then do {
       (r2, st2) \<leftarrow> ndrx_infl_mov2cur env m (set_lock m 0 st1);
       Some (None, QMEOS, st2)
     }
     else Some (Some m, EXSUCCEED, st1)
   }"

definition tmq_msg_dequeue ::
  "tmq_qconfig list \<Rightarrow> tmq_env \<Rightarrow> tmq_env \<Rightarrow> 64 word \<Rightarrow> bool \<Rightarrow> string \<Rightarrow> 64 word \<Rightarrow> bool \<Rightarrow> string option \<Rightarrow> tmq_st \<Rightarrow>
   (nat option \<times> int \<times> tmq_st) option" where
  "tmq_msg_dequeue G_qconf env env2 tid store_ok qname flags is_auto corrid_str st =
    (case tmq_qconf_get_with_default G_qconf qname of
       None \<Rightarrow> Some (None, QMEBADQUEUE, st)
     | Some qconf \<Rightarrow>
       (case tmq_qhash_get qname st of
          None \<Rightarrow> Some (None, QMENOMSG, st)
        | Some qh \<Rightarrow>
            if (case corrid_str of None \<Rightarrow> False | Some c \<Rightarrow> tmq_cor_find qh c = None) then Some (None, QMENOMSG, st)
            else do {
              (r, st1) \<leftarrow> ndrx_infl_fut2cur env qname st;
              node \<leftarrow> dequeue_pick qconf corrid_str qname st1;
              case node of
                None \<Rightarrow> Some (None, QMENOMSG, st1)
              | Some m \<Rightarrow> take_msg env2 (flags AND TPQPEEK = 0 \<and> \<not> is_auto) tid store_ok m st1
            }))"

definition tmq_msg_dequeue_by_msgid ::
  "tmq_env \<Rightarrow> 64 word \<Rightarrow> bool \<Rightarrow> 8 word list \<Rightarrow> 64 word \<Rightarrow> tmq_st \<Rightarrow> (nat option \<times> int \<times> tmq_st) option" where
  "tmq_msg_dequeue_by_msgid env tid store_ok msgid flags st = do {
     msgid_str \<leftarrow> msgid_text msgid;
     case tmq_get_msg_by_msgid_str msgid_str st of
       None \<Rightarrow> Some (None, QMENOMSG, st)
     | Some m \<Rightarrow> do {
         mm \<leftarrow> tq_heap st m;
         if lockthreadid (mm_msg mm) \<noteq> 0 then Some (None, QMENOMSG, st)
         else take_msg env (flags AND TPQPEEK = 0) tid store_ok m st
       }
   }"

section \<open>Removing, locking and unlocking\<close>

definition tmq_remove_msg :: "nat \<Rightarrow> tmq_st \<Rightarrow> tmq_st option" where
  "tmq_remove_msg m st = do {
     mm \<leftarrow> tq_heap st m;
     let st1 = upd_qhash (hdr_qname (mm_msg mm)) (\<lambda>qh. qh\<lparr>qh_numdeq := qh_numdeq qh + 1\<rparr>) st;
     (r, st2) \<leftarrow> ndrx_infl_delmsg m st1;
     Some (free_mmsg m st2)
   }"

datatype tmq_upd_block =
    Block_del "8 word list"
  | Block_upd "8 word list" char "64 word" "64 word" "64 word"
  | Block_newmsg "8 word list"
  | Block_unlock "8 word list"
  | Block_dum
  | Block_other "8 word list"

definition UPD_MSG :: "char \<Rightarrow> 64 word \<Rightarrow> 64 word \<Rightarrow> 64 word \<Rightarrow> tmq_msg \<Rightarrow> tmq_msg" where
  "UPD_MSG status cnt tstamp tstamp_usec msg =
     msg\<lparr>msg_status := status, trycounter := cnt, trytstamp := tstamp, trytstamp_usec := tstamp_usec\<rparr>"

fun block_msgid :: "tmq_upd_block \<Rightarrow> 8 word list option" where
  "block_msgid (Block_del i) = Some i"
| "block_msgid (Block_upd i status cnt tstamp tstamp_usec) = Some i"
| "block_msgid (Block_newmsg i) = Some i"
| "block_msgid (Block_unlock i) = Some i"
| "block_msgid Block_dum = None"
| "block_msgid (Block_other i) = Some i"

definition unlock_to_cur :: "tmq_env \<Rightarrow> nat \<Rightarrow> tmq_st \<Rightarrow> (int \<times> tmq_st) option" where
  "unlock_to_cur env m st = do {
     (r, st1) \<leftarrow> ndrx_infl_mov2cur env m (set_lock m 0 st);
     Some (EXSUCCEED, st1)
   }"

fun unlock_found :: "tmq_env \<Rightarrow> tmq_upd_block \<Rightarrow> nat \<Rightarrow> tmq_st \<Rightarrow> (int \<times> tmq_st) option" where
  "unlock_found env (Block_del i) m st = map_option (Pair EXSUCCEED) (tmq_remove_msg m st)"
| "unlock_found env (Block_upd i status cnt tstamp tstamp_usec) m st =
     unlock_to_cur env m (upd_mmsg m (\<lambda>mm. mm\<lparr>mm_msg := UPD_MSG status cnt tstamp tstamp_usec (mm_msg mm)\<rparr>) st)"
| "unlock_found env (Block_newmsg i) m st = unlock_to_cur env m st"
| "unlock_found env (Block_unlock i) m st = unlock_to_cur env m st"
| "unlock_found env Block_dum m st = Some (EXSUCCEED, st)"
| "unlock_found env (Block_other i) m st = Some (EXFAIL, st)"

definition tmq_unlock_msg :: "tmq_env \<Rightarrow> tmq_upd_block \<Rightarrow> tmq_st \<Rightarrow> (int \<times> tmq_st) option" where
  "tmq_unlock_msg env b st =
    (case block_msgid b of
       None \<Rightarrow> Some (EXSUCCEED, st)
     | Some msgid \<Rightarrow> do {
         msgid_str \<leftarrow> msgid_text msgid;
         case tmq_get_msg_by_msgid_str msgid_str st of
           None \<Rightarrow> Some (EXSUCCEED, st)
         | Some m \<Rightarrow> unlock_found env b m st
       })"

definition tmq_unlock_msg_by_msgid :: "tmq_env \<Rightarrow> 8 word list \<Rightarrow> tmq_st \<Rightarrow> (int \<times> tmq_st) option" where
  "tmq_unlock_msg_by_msgid env msgid st = do {
     msgid_str \<leftarrow> msgid_text msgid;
     case tmq_get_msg_by_msgid_str msgid_str st of
       None \<Rightarrow> Some (EXFAIL, st)
     | Some m \<Rightarrow> unlock_to_cur env m st
   }"

definition tmq_lock_msg :: "64 word \<Rightarrow> 8 word list \<Rightarrow> tmq_st \<Rightarrow> (int \<times> tmq_st) option" where
  "tmq_lock_msg tid msgid st = do {
     msgid_str \<leftarrow> msgid_text msgid;
     case tmq_get_msg_by_msgid_str msgid_str st of
       None \<Rightarrow> Some (EXFAIL, st)
     | Some m \<Rightarrow> do {
         (r, st1) \<leftarrow> ndrx_infl_mov2infl m (set_lock m tid st);
         Some (EXSUCCEED, st1)
       }
   }"

section \<open>Looking\<close>

definition tmq_msgid_exists :: "string \<Rightarrow> tmq_st \<Rightarrow> bool" where
  "tmq_msgid_exists msgid_str st \<longleftrightarrow> ex_find fst msgid_str (G_msgid_hash st) \<noteq> None"

text \<open>The copies of the messages of a queue, when there is memory for them: in flight, current and future.\<close>

definition tmq_get_msglist :: "string \<Rightarrow> tmq_st \<Rightarrow> tmq_msg list option" where
  "tmq_get_msglist qname st =
    (case tmq_qhash_get qname st of
       None \<Rightarrow> Some []
     | Some qh \<Rightarrow> do {
         cur \<leftarrow> rbt_walk (tree_at st (qh_q qh)) (ndrx_rbt_begin_iterate (tree_at st (qh_q qh)) LeftRightWalk);
         fut \<leftarrow> rbt_walk (tree_at st (qh_fut qh)) (ndrx_rbt_begin_iterate (tree_at st (qh_fut qh)) LeftRightWalk);
         Some (map (msgs st) (qh_infl qh) @ map (\<lambda>n. msgs st (cur_msg n)) cur @ map (\<lambda>n. msgs st (cur_msg n)) fut)
       })"

definition tmq_get_q_stats :: "string \<Rightarrow> int \<times> int \<Rightarrow> tmq_st \<Rightarrow> (int \<times> int) option" where
  "tmq_get_q_stats qname acc st = (case acc of (p_msgs, p_locked) \<Rightarrow>
     (case tmq_qhash_get qname st of
        None \<Rightarrow> Some (p_msgs, p_locked)
      | Some qh \<Rightarrow> do {
          cur \<leftarrow> rbt_walk (tree_at st (qh_q qh)) (ndrx_rbt_begin_iterate (tree_at st (qh_q qh)) LeftRightWalk);
          fut \<leftarrow> rbt_walk (tree_at st (qh_fut qh)) (ndrx_rbt_begin_iterate (tree_at st (qh_fut qh)) LeftRightWalk);
          Some (p_msgs + int (length (qh_infl qh)) + int (length cur) + int (length fut),
            p_locked + int (length (filter (\<lambda>m. lockthreadid (msgs st m) \<noteq> 0) (qh_infl qh))))
        }))"

definition tmq_update_q_stats :: "string \<Rightarrow> int \<Rightarrow> int \<Rightarrow> tmq_st \<Rightarrow> tmq_st" where
  "tmq_update_q_stats qname succ_diff fail_diff st =
     upd_qhash qname (\<lambda>qh. qh\<lparr>qh_succ := qh_succ qh + succ_diff, qh_fail := qh_fail qh + fail_diff\<rparr>) st"

end
