(* ===== verification/Tmq_Keep.thy ===== *)
theory Tmq_Keep
  imports Tmq_Qspace
begin

text \<open>
  The functions of the queue space keep the queues consistent.
\<close>

section \<open>Stores that move nothing\<close>

lemma core_fields:
  assumes c: "core base st" and mm: "tq_heap st m = Some mm" and st': "st' = st\<lparr>tq_heap := (tq_heap st)(m \<mapsto> mm')\<rparr>"
    and key: "same_key (mm_msg mm') (mm_msg mm)" "qctl_flags (mm_msg mm') = qctl_flags (mm_msg mm)"
    and same: "mm_qstate mm' = mm_qstate mm" "mm_corhash mm' = mm_corhash mm"
      "mm_qstate mm \<noteq> 0 \<Longrightarrow> mm_msgid_str mm' = mm_msgid_str mm \<and> mm_corrid_str mm' = mm_corrid_str mm \<and> mm_qhash mm' = mm_qhash mm"
  shows "core base st'"
proof -
  have h: "tq_heap st' = (tq_heap st)(m \<mapsto> mm')" and g: "G_msgid_hash st' = G_msgid_hash st" using st' by simp_all
  have t: "tr_of mm' = tr_of mm" "co_of mm' = co_of mm" using same(1,3) by (cases "mm_qstate mm = 0"; simp add: tr_of_def co_of_def)+
  then have tr: "trs st' = trs st" "cos st' = cos st" using trs_upd[OF h] trs_heap[OF mm] by auto
  have "places base st' (trs st) (cos st)"
    using key(1) mm st' by (intro places_key_cong[OF core_places[OF c]]) (auto simp: msgs_def same_key_def)
  moreover have "mm_ok base mm'"
    using core_mm[OF c mm] key same(1,2) same(3) stamp_ok_key[of "mm_msg mm'" "mm_msg mm" base]
    by (cases "mm_qstate mm = 0") (simp_all add: mm_ok_def msg_ok_def same_key_def)
  moreover have "stamps_differ st'" using stamps_differ_upd[OF _ mm h] c key(1) by (simp add: core_def same_key_def)
  moreover have "ids_ok st'"
  proof (cases "mm_qstate mm = 0")
    case True
    then show ?thesis using c mm same(1) unfolding core_def ids_ok_def g h by auto
  next
    case False
    then show ?thesis using ids_ok_upd[OF _ mm h g] c same by (simp add: core_def)
  qed
  ultimately show ?thesis using c tr unfolding core_def h by auto
qed

lemma core_upd_qhash:
  assumes c: "core base st"
    and f: "\<And>qh. qh_name (f qh) = qh_name qh \<and> qh_q (f qh) = qh_q qh \<and> qh_fut (f qh) = qh_fut qh \<and> qh_infl (f qh) = qh_infl qh \<and> qh_corhash (f qh) = qh_corhash qh"
  shows "core base (upd_qhash name f st)"
proof -
  note p = core_places[OF c]
  have "places base (upd_qhash name f st) (trs st) (cos st)"
  proof (cases "tmq_qhash_get name st")
    case None
    then have "upd_qhash name f st = st"
      by (simp add: upd_qhash_def tmq_qhash_get_def ex_find_def ex_upd_def update_first_None)
    then show ?thesis using p by simp
  next
    case (Some qh)
    have "queue_ok base (msgs st) (links st) (trs st) (cos st) name (f qh)" using places_queue[OF p Some] f by (simp add: queue_ok_def)
    moreover have "rb_color (links st) RBTNIL = RBTBLACK" using p by (simp add: places_def)
    ultimately have "places base (upd_qhash name f (st\<lparr>links := links st\<rparr>)) (trs st) (cos st)"
      using f by (intro queue_updated[OF p Some _ _ same_out_refl[of "{}"]]) auto
    then show ?thesis by simp
  qed
  moreover have "trs (upd_qhash name f st) = trs st" "cos (upd_qhash name f st) = cos st" by (simp_all add: trs_def cos_def fun_eq_iff)
  moreover have "stamps_differ (upd_qhash name f st) = stamps_differ st" "ids_ok (upd_qhash name f st) = ids_ok st"
    by (simp_all add: stamps_differ_def ids_ok_def)
  ultimately show ?thesis using c by (simp add: core_def)
qed

section \<open>New structs\<close>

definition fresh_msg :: "int \<Rightarrow> tmq_msg \<Rightarrow> tmq_st \<Rightarrow> bool" where
  "fresh_msg base msg st \<longleftrightarrow> msg_ok base msg \<and> (\<forall>m mm. tq_heap st m = Some mm \<longrightarrow> stamp (mm_msg mm) \<noteq> stamp msg)"

lemma core_alloc:
  assumes c: "core base st" and m: "tq_heap st m = None" and new: "fresh_msg base msg st"
  shows "core base (alloc_mmsg m msg st)"
proof -
  let ?st = "alloc_mmsg m msg st"
  have h: "tq_heap ?st = (tq_heap st)(m \<mapsto> new_mmsg msg)" by (simp add: alloc_mmsg_def)
  have n: "trs st m = None" "cos st m = None" using m by (simp_all add: trs_def cos_def)
  have t: "tr_of (new_mmsg msg) = None" "co_of (new_mmsg msg) = None" by (simp_all add: new_mmsg_def tr_of_def co_of_def)
  have tr: "trs ?st = trs st" "cos ?st = cos st" using trs_upd[OF h] n t by auto
  have "places base ?st (trs st) (cos st)"
    using n by (intro places_key_cong[OF core_places[OF c]]) (auto simp: alloc_mmsg_def msgs_def same_key_def)
  moreover have "stamps_differ ?st" using c new unfolding core_def stamps_differ_def fresh_msg_def h
    by (simp add: new_mmsg_def) (metis option.inject tmq_memmsg.select_convs(6))
  moreover have "ids_ok ?st" using c m unfolding core_def ids_ok_def h by (auto simp: alloc_mmsg_def new_mmsg_def)
  moreover have "mm_ok base (new_mmsg msg)" using new by (simp add: new_mmsg_def mm_ok_def fresh_msg_def state_simps)
  ultimately show ?thesis using c tr unfolding core_def h by auto
qed

lemma core_qhash_new:
  assumes c: "core base st" and q: "tmq_qhash_get qname st = None"
  shows "core base (snd (tmq_qhash_new True qname st))" "\<exists>qh. tmq_qhash_get qname (snd (tmq_qhash_new True qname st)) = Some qh"
proof -
  let ?st = "snd (tmq_qhash_new True qname st)"
  note p = core_places[OF c]
  define new where "new = \<lparr>qh_name = qname, qh_succ = 0, qh_fail = 0, qh_numenq = 0, qh_numdeq = 0,
        qh_q = RBTNIL, qh_fut = RBTNIL, qh_infl = [], qh_corhash = []\<rparr>"
  have st: "?st = st\<lparr>G_qhash := ex_add new (G_qhash st)\<rparr>" by (simp add: tmq_qhash_new_def new_def ndrx_rbt_init_def)
  have get: "tmq_qhash_get n ?st = (if n = qname then Some new else tmq_qhash_get n st)" for n
    using ex_find_add[of qh_name new "G_qhash st" n] q unfolding st tmq_qhash_get_def by (simp add: new_def)
  then show "\<exists>qh. tmq_qhash_get qname ?st = Some qh" by simp
  have ms: "msgs ?st = msgs st" "links ?st = links st" "tq_heap ?st = tq_heap st" "G_msgid_hash ?st = G_msgid_hash st"
    unfolding st by (simp_all add: msgs_def fun_eq_iff)
  have black: "rb_color (links st) RBTNIL = RBTBLACK" using p by (simp add: places_def)
  have "tree_holds (cur_key (msgs st)) (cur_nodes base (msgs st)) (links st) RBTNIL {}"
    "tree_holds (fut_key (msgs st)) (fut_nodes base (msgs st)) (links st) RBTNIL {}"
    using holds_init[OF black] by (simp_all add: tree_holds_def ndrx_rbt_init_def)
  then have "queue_ok base (msgs st) (links st) (trs st) (cos st) qname new"
    using places_none[OF p q] by (simp add: queue_ok_def new_def cor_ok_def ex_inv_def ex_find_def)
  then have "case tmq_qhash_get n ?st of None \<Rightarrow> (\<forall>p. at (trs st) (n, p) = {}) \<and> (\<forall>c. at (cos st) (n, c) = {})
      | Some qh \<Rightarrow> queue_ok base (msgs st) (links st) (trs st) (cos st) n qh" for n
    using places_queue[OF p] places_none[OF p] unfolding get by (cases "tmq_qhash_get n st") auto
  then have "places base ?st (trs st) (cos st)" using black unfolding places_def ms by blast
  moreover have "trs ?st = trs st" "cos ?st = cos st" by (simp_all add: trs_def cos_def ms fun_eq_iff)
  ultimately show "core base ?st" using c ms by (simp add: core_def stamps_differ_def ids_ok_def)
qed

section \<open>The invariant of the queue space\<close>

text \<open>A message is locked exactly when it is in flight, and the struct says what the message says.\<close>

definition mm_wf :: "tmq_memmsg \<Rightarrow> bool" where
  "mm_wf mm \<longleftrightarrow> length (hdr_msgid (mm_msg mm)) = 32 \<and> msgid_text (hdr_msgid (mm_msg mm)) = Some (mm_msgid_str mm) \<and>
     mm_qhash mm = hdr_qname (mm_msg mm) \<and> (lockthreadid (mm_msg mm) \<noteq> 0 \<longleftrightarrow> mm_qstate mm = 0x11) \<and>
     (qctl_flags (mm_msg mm) AND TPQCORRID \<noteq> 0 \<longrightarrow> msgid_text (qctl_corrid (mm_msg mm)) = Some (mm_corrid_str mm))"

definition qspace_ok :: "int \<Rightarrow> tmq_st \<Rightarrow> bool" where
  "qspace_ok base st \<longleftrightarrow> tmq_ok base st \<and> (\<forall>m mm. tq_heap st m = Some mm \<longrightarrow> mm_wf mm)"

lemma qspace_core: "qspace_ok base st \<Longrightarrow> core base st"
  by (simp add: qspace_ok_def tmq_ok_def)

lemma qspace_wf: "qspace_ok base st \<Longrightarrow> tq_heap st m = Some mm \<Longrightarrow> mm_wf mm"
  by (simp add: qspace_ok_def)

lemma qspace_state: "qspace_ok base st \<Longrightarrow> tq_heap st m = Some mm \<Longrightarrow> mm_qstate mm \<in> {0x11, 0x12, 0x14, 0x1c}"
  using tmq_ok_heap unfolding qspace_ok_def by blast

lemma qspace_updated:
  assumes "qspace_ok base st" "core base st'" "tq_heap st' = (tq_heap st)(m \<mapsto> mm)" "mm_wf mm" "mm_qstate mm \<in> {0x11, 0x12, 0x14, 0x1c}"
  shows "qspace_ok base st'"
  using assms unfolding qspace_ok_def tmq_ok_def by (auto simp: state_simps split: if_splits)

subsection \<open>Identifiers\<close>

lemma msgid_serialize_text:
  assumes "length msgid = 32" "44 < length buf"
  shows "tmq_msgid_serialize msgid buf = Some (b64_text M_encoding_table_xa msgid @ EXEOS # drop 45 buf)"
  using assms encode_text[of M_encoding_table_xa msgid buf 0] by (simp add: tmq_msgid_serialize_def mem_read_def ndrx_xa_base64_encode_def)

lemma msgid_text_eq:
  assumes "length msgid = 32"
  shows "msgid_text msgid = Some (b64_text M_encoding_table_xa msgid)"
proof -
  have "44 < length (replicate 46 EXEOS)" unfolding length_replicate by simp
  from msgid_serialize_text[OF assms this] show ?thesis unfolding msgid_text_def by (simp only: option.map cstr_text)
qed

lemma msgid_text_inj: "length a = 32 \<Longrightarrow> length b = 32 \<Longrightarrow> msgid_text a = Some t \<Longrightarrow> msgid_text b = Some t \<Longrightarrow> a = b"
  using text_inj[of a b] msgid_text_eq[of a] msgid_text_eq[of b] length_b64_text[of M_encoding_table_xa a] by auto

lemma lookup_by_id:
  assumes ok: "qspace_ok base st" and i: "msgid_text msgid = Some t" "length msgid = 32"
  shows "tmq_get_msg_by_msgid_str t st = Some m \<longleftrightarrow> (\<exists>mm. tq_heap st m = Some mm \<and> hdr_msgid (mm_msg mm) = msgid)"
proof -
  have ids: "ex_find fst t (G_msgid_hash st) = Some (t, m) \<longleftrightarrow>
      (\<exists>mm. tq_heap st m = Some mm \<and> mm_msgid_str mm = t \<and> mm_qstate mm AND NDRX_TMQ_LOC_MSGIDHASH \<noteq> 0)"
    using qspace_core[OF ok] by (simp add: core_def ids_ok_def)
  have bit: "mm_qstate mm AND NDRX_TMQ_LOC_MSGIDHASH \<noteq> 0" if "tq_heap st m = Some mm" for mm
    using qspace_state[OF ok that] by (auto simp: loc_defs)
  have eq: "mm_msgid_str mm = t \<longleftrightarrow> hdr_msgid (mm_msg mm) = msgid" if "tq_heap st m = Some mm" for mm
    using qspace_wf[OF ok that] msgid_text_inj[OF _ i(2) _ i(1), of "hdr_msgid (mm_msg mm)"] i(1) unfolding mm_wf_def by (metis option.inject)
  have "tmq_get_msg_by_msgid_str t st = Some m \<longleftrightarrow> ex_find fst t (G_msgid_hash st) = Some (t, m)"
    using ex_find_Some[of fst t "G_msgid_hash st"] by (auto simp: tmq_get_msg_by_msgid_str_def)
  then show ?thesis using ids bit eq by blast
qed

lemma lookup_none:
  assumes "qspace_ok base st" "msgid_text msgid = Some t" "length msgid = 32"
  shows "tmq_get_msg_by_msgid_str t st = None \<longleftrightarrow> (\<forall>m mm. tq_heap st m = Some mm \<longrightarrow> hdr_msgid (mm_msg mm) \<noteq> msgid)"
  using lookup_by_id[OF assms] by (metis not_Some_eq)

subsection \<open>Locks\<close>

definition relocked :: "64 word \<Rightarrow> tmq_memmsg \<Rightarrow> tmq_memmsg" where
  "relocked tid mm = mm\<lparr>mm_msg := (mm_msg mm)\<lparr>lockthreadid := tid\<rparr>\<rparr>"

lemma relocked_simps [simp]:
  "mm_qstate (relocked tid mm) = mm_qstate mm" "mm_corhash (relocked tid mm) = mm_corhash mm" "mm_qhash (relocked tid mm) = mm_qhash mm"
  "mm_msgid_str (relocked tid mm) = mm_msgid_str mm" "mm_corrid_str (relocked tid mm) = mm_corrid_str mm"
  "mm_msg (relocked tid mm) = (mm_msg mm)\<lparr>lockthreadid := tid\<rparr>"
  by (simp_all add: relocked_def)

lemma set_lock_ok:
  assumes "core base st" "tq_heap st m = Some mm"
  shows "core base (set_lock m tid st)" "tq_heap (set_lock m tid st) = (tq_heap st)(m \<mapsto> relocked tid mm)" "same_tables st (set_lock m tid st)"
proof -
  show h: "tq_heap (set_lock m tid st) = (tq_heap st)(m \<mapsto> relocked tid mm)" "same_tables st (set_lock m tid st)"
    using assms(2) by (simp_all add: set_lock_def relocked_def)
  show "core base (set_lock m tid st)"
    using assms(2) by (intro core_fields[OF assms, of _ "relocked tid mm"])
      (simp_all add: set_lock_def upd_mmsg_def relocked_def same_key_def stamp_def)
qed

lemma cos_set_lock: "tq_heap st m = Some mm \<Longrightarrow> cos (set_lock m tid st) = cos st"
  by (auto simp: cos_def co_of_def set_lock_def fun_eq_iff)

definition taken :: "64 word \<Rightarrow> tmq_memmsg \<Rightarrow> tmq_memmsg" where
  "taken tid mm = (relocked tid mm)\<lparr>mm_corhash := None, mm_qstate := 0x11\<rparr>"

lemma lock_and_move:
  assumes ok: "qspace_ok base st" and mm: "tq_heap st m = Some mm" "lockthreadid (mm_msg mm) = 0" and tid: "tid \<noteq> 0"
  shows "\<exists>st'. ndrx_infl_mov2infl m (set_lock m tid st) = Some (EXSUCCEED, st') \<and> qspace_ok base st' \<and> same_tables st st' \<and>
    tq_heap st' = (tq_heap st)(m \<mapsto> taken tid mm)"
proof -
  note s = set_lock_ok[OF qspace_core[OF ok] mm(1), of tid]
  have wf: "mm_wf mm" using qspace_wf[OF ok mm(1)] .
  then have q: "mm_qstate (relocked tid mm) \<in> {0x12, 0x14, 0x1c}" using qspace_state[OF ok mm(1)] mm(2) by (auto simp: mm_wf_def)
  have hm: "tq_heap (set_lock m tid st) m = Some (relocked tid mm)" using s(2) by simp
  obtain st' where st': "ndrx_infl_mov2infl m (set_lock m tid st) = Some (EXSUCCEED, st')" "core base st'" "same_tables (set_lock m tid st) st'"
      "tq_heap st' = (tq_heap (set_lock m tid st))(m \<mapsto> taken tid mm)"
    using mov2infl_ok[OF s(1) hm q] by (auto simp: taken_def)
  have h: "tq_heap st' = (tq_heap st)(m \<mapsto> taken tid mm)" using st'(4) s(2) by simp
  have "mm_wf (taken tid mm)" using wf tid by (simp add: mm_wf_def taken_def)
  then have "qspace_ok base st'" using qspace_updated[OF ok st'(2) h] by (simp add: taken_def)
  then show ?thesis using st'(1) h same_tables_trans[OF s(3) st'(3)] by blast
qed

lemma unlock_and_move:
  assumes ok: "qspace_ok base st" and mm: "tq_heap st m = Some mm" "mm_qstate mm = 0x11"
  shows "\<exists>r st'. ndrx_infl_mov2cur env m (set_lock m 0 st) = Some (r, st') \<and> qspace_ok base st' \<and> same_tables st st' \<and>
    tq_heap st' = (tq_heap st)(m \<mapsto> requeued env (cos st) m (relocked 0 mm))"
proof -
  note s = set_lock_ok[OF qspace_core[OF ok] mm(1), of 0]
  have wf: "mm_wf mm" using qspace_wf[OF ok mm(1)] .
  have hm: "tq_heap (set_lock m 0 st) m = Some (relocked 0 mm)" using s(2) by simp
  let ?mm = "requeued env (cos st) m (relocked 0 mm)"
  obtain r st' where st': "ndrx_infl_mov2cur env m (set_lock m 0 st) = Some (r, st')" "core base st'" "same_tables (set_lock m 0 st) st'"
      "tq_heap st' = (tq_heap (set_lock m 0 st))(m \<mapsto> ?mm)"
    using mov2cur_ok[OF s(1) hm, of env] mm(2) unfolding cos_set_lock[OF mm(1)] by auto
  have h: "tq_heap st' = (tq_heap st)(m \<mapsto> ?mm)" using st'(4) s(2) by simp
  have q: "mm_qstate ?mm \<in> {0x12, 0x14, 0x1c}" by (rule requeued_state)
  then have "mm_wf ?mm" using wf by (auto simp: mm_wf_def)
  then have "qspace_ok base st'" using qspace_updated[OF ok st'(2) h] q by blast
  then show ?thesis using st'(1) h same_tables_trans[OF s(3) st'(3)] by blast
qed

lemma take_msg_ok:
  assumes ok: "qspace_ok base st" and mm: "tq_heap st m = Some mm" "lockthreadid (mm_msg mm) = 0" and tid: "tid \<noteq> 0"
  shows "\<exists>st'. take_msg env removing tid store_ok m st = Some (if removing \<and> \<not> store_ok then None else Some m, if removing \<and> \<not> store_ok then QMEOS else EXSUCCEED, st') \<and>
    qspace_ok base st' \<and> same_tables st st' \<and>
    (\<exists>co. tq_heap st' = (tq_heap st)(m \<mapsto> (if removing \<and> \<not> store_ok then requeued env co m (relocked 0 (taken tid mm)) else taken tid mm)))"
proof -
  obtain st1 where s1: "ndrx_infl_mov2infl m (set_lock m tid st) = Some (EXSUCCEED, st1)" "qspace_ok base st1" "same_tables st st1"
      "tq_heap st1 = (tq_heap st)(m \<mapsto> taken tid mm)"
    using lock_and_move[OF assms] by blast
  show ?thesis
  proof (cases "removing \<and> \<not> store_ok")
    case False
    then show ?thesis using s1 by (auto simp: take_msg_def)
  next
    case True
    have hm: "tq_heap st1 m = Some (taken tid mm)" "mm_qstate (taken tid mm) = 0x11" using s1(4) by (simp_all add: taken_def)
    obtain r st2 where "ndrx_infl_mov2cur env m (set_lock m 0 st1) = Some (r, st2)" "qspace_ok base st2" "same_tables st1 st2"
        "tq_heap st2 = (tq_heap st1)(m \<mapsto> requeued env (cos st1) m (relocked 0 (taken tid mm)))"
      using unlock_and_move[OF s1(2) hm, of env] by blast
    then show ?thesis using s1 True same_tables_trans[OF s1(3)] by (auto simp: take_msg_def)
  qed
qed

end
