(* ===== verification/Tmq_Deq.thy ===== *)
theory Tmq_Deq
  imports Tmq_Keep
begin

text \<open>
  Which message is taken from a queue.
\<close>

section \<open>The choice\<close>

text \<open>The messages a dequeue can choose from, after those whose time has come were moved.\<close>

definition avail :: "string option \<Rightarrow> string \<Rightarrow> tmq_st \<Rightarrow> nat set" where
  "avail corr qname st = (case corr of None \<Rightarrow> at (trs st) (qname, PCur) | Some c \<Rightarrow> at (cos st) (qname, c))"

text \<open>First in the order of the queue: the oldest, or in a LIFO queue the newest.\<close>

definition first_of :: "tmq_qconfig \<Rightarrow> tmq_st \<Rightarrow> nat set \<Rightarrow> nat \<Rightarrow> bool" where
  "first_of qconf st A m \<longleftrightarrow> m \<in> A \<and> (\<forall>m' \<in> A. m' \<noteq> m \<longrightarrow>
     (if qc_mode qconf = TMQ_MODE_LIFO then stamp (msgs st m') < stamp (msgs st m) else stamp (msgs st m) < stamp (msgs st m')))"

lemma tree_ends:
  assumes "rbt_holds key C s (f ` A)" "inj f"
  shows "A = {} \<and> (if lifo then ndrx_rbt_rightmost s else ndrx_rbt_leftmost s) = Some None \<or>
    (\<exists>m \<in> A. (if lifo then ndrx_rbt_rightmost s else ndrx_rbt_leftmost s) = Some (Some (Nd (f m))) \<and>
      (\<forall>m' \<in> A. m' \<noteq> m \<longrightarrow> (if lifo then key (f m') < key (f m) else key (f m) < key (f m'))))"
proof (cases lifo)
  case True
  then show ?thesis using holds_rightmost[OF assms(1)] assms(2) by (auto simp: inj_eq)
next
  case False
  then show ?thesis using holds_leftmost[OF assms(1)] assms(2) by (auto simp: inj_eq)
qed

lemma pick_ok:
  assumes c: "core base st" and qh: "tmq_qhash_get qname st = Some qh" and cor: "\<And>c. corr = Some c \<Longrightarrow> tmq_cor_find qh c \<noteq> None"
  shows "avail corr qname st = {} \<and> corr = None \<and> dequeue_pick qconf corr qname st = Some None \<or>
    (\<exists>m. dequeue_pick qconf corr qname st = Some (Some m) \<and> first_of qconf st (avail corr qname st) m)"
proof -
  let ?l = "qc_mode qconf = TMQ_MODE_LIFO"
  note q = queue_parts[OF places_queue[OF core_places[OF c] qh]]
  show ?thesis
  proof (cases corr)
    case None
    have "rbt_holds (cur_key (msgs st)) (cur_nodes base (msgs st)) (tree_at st (qh_q qh)) (Cur ` at (trs st) (qname, PCur))"
      using q(1) by (simp add: tree_holds_def tree_at_def)
    from tree_ends[OF this, of ?l] show ?thesis using None qh
      by (auto simp: dequeue_pick_def avail_def first_of_def cur_key_def inj_def)
  next
    case (Some c)
    then obtain e where e: "ex_find fst c (qh_corhash qh) = Some e" using cor by (auto simp: tmq_cor_find_def)
    note t = cor_ok_tree[OF q(5) e]
    have "rbt_holds (cor_key (msgs st)) (cor_nodes base (msgs st)) (tree_at st (snd e)) (Cor ` at (cos st) (qname, c))"
      using t(2) by (simp add: tree_holds_def tree_at_def)
    from tree_ends[OF this, of ?l] t(1) show ?thesis using Some qh e
      by (auto simp: dequeue_pick_def avail_def first_of_def cor_key_def inj_def tmq_cor_find_def case_prod_beta)
  qed
qed

section \<open>Ready messages\<close>

text \<open>The messages that are ready at the time of the request, as the state before it says.\<close>

definition ready_now :: "tmq_env \<Rightarrow> string option \<Rightarrow> string \<Rightarrow> tmq_st \<Rightarrow> nat \<Rightarrow> bool" where
  "ready_now env corr qname st m \<longleftrightarrow> (\<exists>mm. tq_heap st m = Some mm \<and> mm_qhash mm = qname \<and>
     (case corr of
        None \<Rightarrow> mm_qstate mm = 0x14 \<or> mm_qstate mm = 0x1c \<or> mm_qstate mm = 0x12 \<and> sint (qctl_deq_time (mm_msg mm)) \<le> ev_time env m
      | Some c \<Rightarrow> mm_corrid_str mm = c \<and> (mm_qstate mm = 0x1c \<or> mm_qstate mm = 0x12 \<and>
          sint (qctl_deq_time (mm_msg mm)) \<le> ev_time env m \<and> qctl_flags (mm_msg mm) AND TPQCORRID \<noteq> 0)))"

text \<open>The clock stands still while the lock is held, and there is memory for correlators.\<close>

definition steady :: "tmq_env \<Rightarrow> bool" where
  "steady env \<longleftrightarrow> (\<forall>m m'. ev_time env m = ev_time env m') \<and> (\<forall>m. ev_malloc env m)"

lemma avail_iff:
  assumes "tmq_ok base st"
  shows "m \<in> avail corr qname st \<longleftrightarrow> (\<exists>mm. tq_heap st m = Some mm \<and> mm_qhash mm = qname \<and>
     (case corr of None \<Rightarrow> mm_qstate mm = 0x14 \<or> mm_qstate mm = 0x1c | Some c \<Rightarrow> mm_corrid_str mm = c \<and> mm_qstate mm = 0x1c))"
  using tmq_ok_heap[OF assms, of m]
  by (cases "tq_heap st m") (auto simp: avail_def trs_def cos_def tr_of_def co_of_def loc_defs split: option.split)

lemma ready_fields [simp]:
  "mm_qhash (ready_mm j f mm) = mm_qhash mm" "mm_corrid_str (ready_mm j f mm) = mm_corrid_str mm" "mm_msg (ready_mm j f mm) = mm_msg mm"
  "mm_msgid_str (ready_mm j f mm) = mm_msgid_str mm"
  by (simp_all add: ready_mm_def)

lemma moved_msg:
  assumes "moved_due env name ok h h'"
  shows "(h' m = None \<longleftrightarrow> h m = None)" "h m = Some mm \<Longrightarrow> \<exists>mm'. h' m = Some mm' \<and> mm_msg mm' = mm_msg mm \<and> mm_qhash mm' = mm_qhash mm \<and>
    mm_corrid_str mm' = mm_corrid_str mm \<and> mm_msgid_str mm' = mm_msgid_str mm \<and> (mm_qstate mm' = mm_qstate mm \<or> mm_qstate mm = 0x12 \<and> mm_qstate mm' \<in> {0x14, 0x1c})"
proof -
  have m: "h' m = h m \<or> (\<exists>mm j. h m = Some mm \<and> mm_qstate mm = 0x12 \<and> h' m = Some (ready_mm j 0x14 mm))"
    using assms unfolding moved_due_def by blast
  then show "h' m = None \<longleftrightarrow> h m = None" by auto
  show "\<exists>mm'. h' m = Some mm' \<and> mm_msg mm' = mm_msg mm \<and> mm_qhash mm' = mm_qhash mm \<and>
    mm_corrid_str mm' = mm_corrid_str mm \<and> mm_msgid_str mm' = mm_msgid_str mm \<and> (mm_qstate mm' = mm_qstate mm \<or> mm_qstate mm = 0x12 \<and> mm_qstate mm' \<in> {0x14, 0x1c})"
    if "h m = Some mm" using m that by (auto simp: ready_mm_def loc_defs)
qed

lemma moved_msgs: "moved_due env name ok (tq_heap st) (tq_heap st') \<Longrightarrow> tq_heap st m \<noteq> None \<Longrightarrow> msgs st' m = msgs st m"
  using moved_msg(2)[of env name ok "tq_heap st" "tq_heap st'" m] by (auto simp: msgs_def)

lemma moved_qspace:
  assumes ok: "qspace_ok base st" and p: "fut2cur_post base env name st r st'"
  shows "qspace_ok base st'"
proof -
  have m: "moved_due env name (r = EXSUCCEED) (tq_heap st) (tq_heap st')" and t: "tmq_ok base st'" using p by (simp_all add: fut2cur_post_def)
  have "mm_wf mm'" if h: "tq_heap st' n = Some mm'" for n mm'
  proof -
    obtain mm where mm: "tq_heap st n = Some mm" using h moved_msg(1)[OF m, of n] by (cases "tq_heap st n") auto
    have "mm_wf mm" using qspace_wf[OF ok mm] .
    then show ?thesis using moved_msg(2)[OF m mm] h qspace_state[OF ok mm] by (auto simp: mm_wf_def)
  qed
  then show ?thesis using t by (simp add: qspace_ok_def)
qed

lemma avail_moved:
  assumes ok: "tmq_ok base st" and p: "fut2cur_post base env qname st r st'" and s: "steady env"
  shows "m \<in> avail corr qname st' \<longleftrightarrow> ready_now env corr qname st m"
proof -
  have r: "r = EXSUCCEED" using p s by (auto simp: fut2cur_post_def steady_def)
  have t: "tmq_ok base st'" and mv: "moved_due env qname True (tq_heap st) (tq_heap st')" and none: "none_due env qname st'"
    using p r by (simp_all add: fut2cur_post_def)
  have mv': "tq_heap st' m = tq_heap st m \<or>
     (\<exists>mm j. tq_heap st m = Some mm \<and> mm_qhash mm = qname \<and> mm_qstate mm = 0x12 \<and> sint (qctl_deq_time (mm_msg mm)) \<le> ev_time env m \<and>
        tq_heap st' m = Some (ready_mm j 0x14 mm) \<and> (j \<longleftrightarrow> qctl_flags (mm_msg mm) AND TPQCORRID \<noteq> 0))"
    using mv unfolding moved_due_def by blast
  have due: "ev_time env m < sint (qctl_deq_time (mm_msg mm))" if "tq_heap st' m = Some mm" "mm_qhash mm = qname" "mm_qstate mm = 0x12" for mm
    using none that s unfolding none_due_def steady_def by metis
  from mv' show ?thesis
  proof
    assume eq: "tq_heap st' m = tq_heap st m"
    show ?thesis
    proof (cases "tq_heap st m")
      case (Some mm)
      then show ?thesis using due[of mm] eq unfolding avail_iff[OF t] ready_now_def by (cases corr) auto
    qed (simp add: avail_iff[OF t] ready_now_def eq)
  next
    assume "\<exists>mm j. tq_heap st m = Some mm \<and> mm_qhash mm = qname \<and> mm_qstate mm = 0x12 \<and> sint (qctl_deq_time (mm_msg mm)) \<le> ev_time env m \<and>
        tq_heap st' m = Some (ready_mm j 0x14 mm) \<and> (j \<longleftrightarrow> qctl_flags (mm_msg mm) AND TPQCORRID \<noteq> 0)"
    then obtain mm j where mm: "tq_heap st m = Some mm" "mm_qhash mm = qname" "mm_qstate mm = 0x12" "sint (qctl_deq_time (mm_msg mm)) \<le> ev_time env m"
      "tq_heap st' m = Some (ready_mm j 0x14 mm)" "j \<longleftrightarrow> qctl_flags (mm_msg mm) AND TPQCORRID \<noteq> 0" by blast
    have "mm_qstate (ready_mm j 0x14 mm) = (if j then 0x1c else 0x14)" by (simp add: ready_mm_def loc_defs)
    then show ?thesis using mm unfolding avail_iff[OF t] ready_now_def by (auto split: option.split)
  qed
qed

section \<open>The request\<close>

lemma cor_find_iff:
  assumes c: "core base st" and qh: "tmq_qhash_get qname st = Some qh"
  shows "tmq_cor_find qh c \<noteq> None \<longleftrightarrow> at (cos st) (qname, c) \<noteq> {}"
  using cor_ok_tree(1)[OF queue_parts(5)[OF places_queue[OF core_places[OF c] qh]], of c]
    cor_ok_none[OF queue_parts(5)[OF places_queue[OF core_places[OF c] qh]], of c]
  unfolding tmq_cor_find_def by (cases "ex_find fst c (qh_corhash qh)") blast+

lemma cos_moved:
  assumes ok: "tmq_ok base st" and m: "moved_due env name b (tq_heap st) (tq_heap st')"
  shows "at (cos st) p \<subseteq> at (cos st') p"
proof
  fix n
  assume "n \<in> at (cos st) p"
  then obtain mm where mm: "tq_heap st n = Some mm" "co_of mm = Some p" by (cases "tq_heap st n") (auto simp: cos_def)
  then have "mm_qstate mm = 0x1c" using tmq_ok_heap[OF ok mm(1)] by (auto simp: co_of_def loc_defs)
  then show "n \<in> at (cos st') p" using moved_msg(2)[OF m mm(1)] mm(2) by (auto simp: cos_def co_of_def)
qed

definition cor_known :: "string option \<Rightarrow> string \<Rightarrow> tmq_st \<Rightarrow> bool" where
  "cor_known corr qname st \<longleftrightarrow> (case corr of None \<Rightarrow> True | Some c \<Rightarrow> at (cos st) (qname, c) \<noteq> {})"

lemma avail_unlocked:
  assumes "qspace_ok base st" "m \<in> avail corr qname st"
  shows "\<exists>mm. tq_heap st m = Some mm \<and> lockthreadid (mm_msg mm) = 0"
proof -
  have "tmq_ok base st" using assms(1) by (simp add: qspace_ok_def)
  then obtain mm where mm: "tq_heap st m = Some mm" "mm_qstate mm \<noteq> 0x11" using assms(2) by (auto simp: avail_iff split: option.splits)
  then show ?thesis using qspace_wf[OF assms(1) mm(1)] by (auto simp: mm_wf_def)
qed

lemma dequeue_unfold:
  assumes ok: "qspace_ok base st" and conf: "tmq_qconf_get_with_default G_qconf qname = Some qconf" and qh: "tmq_qhash_get qname st = Some qh"
    and known: "cor_known corr qname st"
  shows "\<exists>r st1. fut2cur_post base env qname st r st1 \<and> qspace_ok base st1 \<and>
    (avail corr qname st1 = {} \<and> corr = None \<and>
       tmq_msg_dequeue G_qconf env env2 tid store_ok qname flags is_auto corr st = Some (None, QMENOMSG, st1) \<or>
     (\<exists>m. first_of qconf st1 (avail corr qname st1) m \<and>
       tmq_msg_dequeue G_qconf env env2 tid store_ok qname flags is_auto corr st =
         take_msg env2 (flags AND TPQPEEK = 0 \<and> \<not> is_auto) tid store_ok m st1))"
proof -
  note c = qspace_core[OF ok]
  have t: "tmq_ok base st" using ok by (simp add: qspace_ok_def)
  obtain r st1 where s1: "ndrx_infl_fut2cur env qname st = Some (r, st1)" "fut2cur_post base env qname st r st1"
    using fut2cur_ok[OF t qh] by blast
  have ok1: "qspace_ok base st1" using moved_qspace[OF ok s1(2)] .
  have st1: "same_tables st st1" "moved_due env qname (r = EXSUCCEED) (tq_heap st) (tq_heap st1)" using s1(2) by (simp_all add: fut2cur_post_def)
  obtain qh1 where qh1: "tmq_qhash_get qname st1 = Some qh1" using same_tables_get[OF st1(1) qh] by blast
  have "tmq_cor_find qh1 c \<noteq> None" "tmq_cor_find qh c \<noteq> None" if "corr = Some c" for c
    using known that cos_moved[OF t st1(2), of "(qname, c)"] cor_find_iff[OF qspace_core[OF ok1] qh1, of c] cor_find_iff[OF c qh, of c]
    unfolding cor_known_def by auto
  then have unf: "tmq_msg_dequeue G_qconf env env2 tid store_ok qname flags is_auto corr st =
      do {
        node \<leftarrow> dequeue_pick qconf corr qname st1;
        case node of None \<Rightarrow> Some (None, QMENOMSG, st1) | Some m \<Rightarrow> take_msg env2 (flags AND TPQPEEK = 0 \<and> \<not> is_auto) tid store_ok m st1
      }" and cor1: "\<And>c. corr = Some c \<Longrightarrow> tmq_cor_find qh1 c \<noteq> None"
    using conf qh s1(1) by (auto simp: tmq_msg_dequeue_def split: option.split)
  consider "avail corr qname st1 = {}" "corr = None" "dequeue_pick qconf corr qname st1 = Some None"
    | m where "dequeue_pick qconf corr qname st1 = Some (Some m)" "first_of qconf st1 (avail corr qname st1) m"
    using pick_ok[OF qspace_core[OF ok1] qh1, of corr qconf] cor1 by blast
  then show ?thesis
  proof cases
    case 1
    then show ?thesis using s1(2) ok1 unfolding unf by auto
  next
    case (2 m)
    then show ?thesis using s1(2) ok1 unfolding unf by auto
  qed
qed

lemma dequeue_unknown:
  assumes ok: "qspace_ok base st" and conf: "tmq_qconf_get_with_default G_qconf qname = Some qconf" and no: "\<not> cor_known corr qname st"
  shows "tmq_msg_dequeue G_qconf env env2 tid store_ok qname flags is_auto corr st = Some (None, QMENOMSG, st)"
proof -
  obtain c where c: "corr = Some c" "at (cos st) (qname, c) = {}" using no by (auto simp: cor_known_def split: option.splits)
  then have "tmq_cor_find qh c = None" if "tmq_qhash_get qname st = Some qh" for qh using cor_find_iff[OF qspace_core[OF ok] that, of c] by blast
  then show ?thesis using conf c(1) by (simp add: tmq_msg_dequeue_def split: option.split)
qed

lemma dequeue_keeps:
  assumes ok: "qspace_ok base st" and tid: "tid \<noteq> 0"
  shows "\<exists>a d st'. tmq_msg_dequeue G_qconf env env2 tid store_ok qname flags is_auto corr st = Some (a, d, st') \<and> qspace_ok base st'"
proof (cases "tmq_qconf_get_with_default G_qconf qname")
  case None
  then show ?thesis using ok by (simp add: tmq_msg_dequeue_def)
next
  case (Some qconf)
  let ?rm = "flags AND TPQPEEK = 0 \<and> \<not> is_auto" and ?r = "tmq_msg_dequeue G_qconf env env2 tid store_ok qname flags is_auto corr st"
  show ?thesis
  proof (cases "tmq_qhash_get qname st")
    case None
    then show ?thesis using ok Some by (simp add: tmq_msg_dequeue_def)
  next
    case qh: (Some qh)
    show ?thesis
    proof (cases "cor_known corr qname st")
      case False
      then show ?thesis using dequeue_unknown[OF ok Some] ok by blast
    next
      case True
      obtain st1 where s1: "qspace_ok base st1" "?r = Some (None, QMENOMSG, st1) \<or>
         (\<exists>m. first_of qconf st1 (avail corr qname st1) m \<and> ?r = take_msg env2 ?rm tid store_ok m st1)"
        using dequeue_unfold[OF ok Some qh True, of env env2 tid store_ok flags is_auto] by blast
      then consider "?r = Some (None, QMENOMSG, st1)" | m where "m \<in> avail corr qname st1" "?r = take_msg env2 ?rm tid store_ok m st1"
        unfolding first_of_def by blast
      then show ?thesis
      proof cases
        case (2 m)
        obtain mm where "tq_heap st1 m = Some mm" "lockthreadid (mm_msg mm) = 0" using avail_unlocked[OF s1(1) 2(1)] by blast
        then show ?thesis using take_msg_ok[OF s1(1) _ _ tid, of m mm env2 ?rm store_ok] 2(2) by metis
      qed (use s1(1) in blast)
    qed
  qed
qed

end
