(* ===== verification/Tmq_Add.thy ===== *)
theory Tmq_Add
  imports Tmq_Deq
begin

text \<open>
  Adding and removing messages, and the unlocking at the end of a transaction.
\<close>

section \<open>Adding\<close>

lemma qspace_same:
  assumes "qspace_ok base st" "core base st'" "tq_heap st' = tq_heap st"
  shows "qspace_ok base st'"
  using assms by (auto simp: qspace_ok_def tmq_ok_def)

lemma add_undone:
  assumes ok: "qspace_ok base st" and m: "tq_heap st m = None" and c: "core base st1" "tq_heap st1 = (tq_heap st)(m \<mapsto> mm)"
  shows "\<exists>st2. ndrx_infl_delmsg m st1 = Some (EXSUCCEED, st2) \<and> qspace_ok base (free_mmsg m st2) \<and> tq_heap (free_mmsg m st2) = tq_heap st"
proof -
  have "tq_heap st1 m = Some mm" using c(2) by simp
  from delmsg_ok[OF c(1) this] obtain st2 where s: "ndrx_infl_delmsg m st1 = Some (EXSUCCEED, st2)" "core base (free_mmsg m st2)"
      "tq_heap st2 = (tq_heap st1)(m \<mapsto> mm\<lparr>mm_corhash := None, mm_qstate := 0\<rparr>)" by blast
  have "tq_heap (free_mmsg m st2) = tq_heap st" using s(3) c(2) m by (auto simp: free_mmsg_def)
  then show ?thesis using s(1,2) qspace_same[OF ok] by blast
qed

definition filled :: "tmq_msg \<Rightarrow> tmq_memmsg" where
  "filled msg = (new_mmsg msg)\<lparr>mm_msgid_str := the (msgid_text (hdr_msgid msg)),
     mm_corrid_str := (if qctl_flags msg AND TPQCORRID \<noteq> 0 then the (msgid_text (qctl_corrid msg)) else [])\<rparr>"

text \<open>When the message is added to a queue.\<close>

definition add_ok :: "tmq_qconfig list \<Rightarrow> tmq_env \<Rightarrow> bool \<Rightarrow> nat \<Rightarrow> tmq_msg \<Rightarrow> tmq_st \<Rightarrow> bool" where
  "add_ok G_qconf env calloc_ok m msg st \<longleftrightarrow> tmq_qconf_get_with_default G_qconf (hdr_qname msg) \<noteq> None \<and>
     (\<forall>m mm. tq_heap st m = Some mm \<longrightarrow> hdr_msgid (mm_msg mm) \<noteq> hdr_msgid msg) \<and>
     (tmq_qhash_get (hdr_qname msg) st \<noteq> None \<or> calloc_ok) \<and>
     add_code env (cos st) (hdr_qname msg) m (filled msg) = EXSUCCEED"

definition new_msg_ok :: "int \<Rightarrow> tmq_msg \<Rightarrow> tmq_st \<Rightarrow> bool" where
  "new_msg_ok base msg st \<longleftrightarrow> fresh_msg base msg st \<and> length (hdr_msgid msg) = 32 \<and>
     (qctl_flags msg AND TPQCORRID \<noteq> 0 \<longrightarrow> length (qctl_corrid msg) = 32)"

lemma core_filled:
  assumes c: "core base st" and h: "tq_heap st m = Some (new_mmsg msg)" and t: "msgid_text (hdr_msgid msg) = Some t"
    and cor: "qctl_flags msg AND TPQCORRID \<noteq> 0 \<Longrightarrow> msgid_text (qctl_corrid msg) = Some u"
  defines "st2 \<equiv> upd_mmsg m (\<lambda>mm. mm\<lparr>mm_msgid_str := t\<rparr>) st"
  shows "\<exists>st3. (if qctl_flags msg AND TPQCORRID \<noteq> 0
      then map_option (\<lambda>c. upd_mmsg m (\<lambda>mm. mm\<lparr>mm_corrid_str := c\<rparr>) st2) (msgid_text (qctl_corrid msg)) else Some st2) = Some st3 \<and>
    core base st3 \<and> tq_heap st3 = (tq_heap st)(m \<mapsto> filled msg) \<and> G_qhash st3 = G_qhash st \<and> G_msgid_hash st3 = G_msgid_hash st"
proof -
  let ?mm = "filled msg"
  have f: "same_key (mm_msg ?mm) (mm_msg (new_mmsg msg))" "qctl_flags (mm_msg ?mm) = qctl_flags (mm_msg (new_mmsg msg))"
    "mm_qstate ?mm = mm_qstate (new_mmsg msg)" "mm_corhash ?mm = mm_corhash (new_mmsg msg)" "mm_qstate (new_mmsg msg) = 0"
    by (simp_all add: filled_def new_mmsg_def same_key_def)
  let ?st3 = "st\<lparr>tq_heap := (tq_heap st)(m \<mapsto> ?mm)\<rparr>"
  have "core base ?st3" using core_fields[OF c h refl f(1-4)] f(5) by blast
  moreover have "(if qctl_flags msg AND TPQCORRID \<noteq> 0
      then map_option (\<lambda>c. upd_mmsg m (\<lambda>mm. mm\<lparr>mm_corrid_str := c\<rparr>) st2) (msgid_text (qctl_corrid msg)) else Some st2) = Some ?st3"
    using h t cor by (auto simp: st2_def upd_mmsg_def filled_def new_mmsg_def)
  ultimately show ?thesis by auto
qed

lemma link_new_queue:
  assumes c: "core base st" and new: "\<not> (tmq_qhash_get qname st = None \<and> \<not> calloc_ok)"
  shows "\<exists>st1. (if tmq_qhash_get qname st = None then tmq_qhash_new calloc_ok qname st else (True, st)) = (True, st1) \<and> core base st1 \<and>
    (\<exists>qh. tmq_qhash_get qname st1 = Some qh) \<and> tq_heap st1 = tq_heap st \<and> G_msgid_hash st1 = G_msgid_hash st"
proof (cases "tmq_qhash_get qname st")
  case None
  then have ok: calloc_ok using new by blast
  from core_qhash_new[OF c None] show ?thesis using None ok by (simp add: tmq_qhash_new_def)
next
  case (Some qh)
  then show ?thesis using c by simp
qed

lemma link_ok_or_not:
  assumes c: "core base st" and h: "tq_heap st m = Some (new_mmsg msg)" and new: "new_msg_ok base msg st'" and ids: "tq_heap st = (tq_heap st')(m \<mapsto> new_mmsg msg)"
    "G_msgid_hash st = G_msgid_hash st'" "G_qhash st = G_qhash st'" and ok: "qspace_ok base st'" and m: "tq_heap st' m = None"
  shows "\<exists>ret diag mo st1. msg_add_link G_qconf env calloc_ok m msg st = Some (ret, diag, mo, st1) \<and> core base st1 \<and>
    (if add_ok G_qconf env calloc_ok m msg st'
     then ret = EXSUCCEED \<and> mo = qc_memonly (the (tmq_qconf_get_with_default G_qconf (hdr_qname msg))) \<and>
       tq_heap st1 = (tq_heap st')(m \<mapsto> added env (cos st') (qc_name (the (tmq_qconf_get_with_default G_qconf (hdr_qname msg)))) (hdr_qname msg) m (filled msg))
     else ret \<noteq> EXSUCCEED \<and> (\<exists>mm. tq_heap st1 = (tq_heap st')(m \<mapsto> mm)))"
proof (cases "tmq_qconf_get_with_default G_qconf (hdr_qname msg)")
  case None
  then show ?thesis using c ids(1) by (auto simp: msg_add_link_def add_ok_def)
next
  case (Some qconf)
  have l: "length (hdr_msgid msg) = 32" using new by (simp add: new_msg_ok_def)
  obtain t where t: "msgid_text (hdr_msgid msg) = Some t" using msgid_text_eq[OF l] by blast
  have look: "tmq_get_msg_by_msgid_str t st = tmq_get_msg_by_msgid_str t st'" "tmq_qhash_get n st = tmq_qhash_get n st'" for n
    using ids by (simp_all add: tmq_get_msg_by_msgid_str_def tmq_qhash_get_def)
  have none: "tmq_get_msg_by_msgid_str t st = None \<longleftrightarrow> (\<forall>m mm. tq_heap st' m = Some mm \<longrightarrow> hdr_msgid (mm_msg mm) \<noteq> hdr_msgid msg)"
    using lookup_none[OF ok t l] look by simp
  have cos: "cos st = cos st'" using trs_upd(2)[OF ids(1)] m by (auto simp: co_of_def new_mmsg_def cos_def)
  show ?thesis
  proof (cases "tmq_get_msg_by_msgid_str t st = None \<and> \<not> (tmq_qhash_get (hdr_qname msg) st = None \<and> \<not> calloc_ok)")
    case False
    then have "\<not> add_ok G_qconf env calloc_ok m msg st'" using none look(2) by (auto simp: add_ok_def)
    moreover have "\<exists>ret diag mo. msg_add_link G_qconf env calloc_ok m msg st = Some (ret, diag, mo, st) \<and> ret \<noteq> EXSUCCEED"
      using False Some t by (auto simp: msg_add_link_def tmq_qhash_new_def)
    ultimately show ?thesis using c ids(1) by auto
  next
    case True
    obtain st1 qh where s1: "(if tmq_qhash_get (hdr_qname msg) st = None then tmq_qhash_new calloc_ok (hdr_qname msg) st else (True, st)) = (True, st1)"
        "core base st1" "tmq_qhash_get (hdr_qname msg) st1 = Some qh" "tq_heap st1 = tq_heap st" "G_msgid_hash st1 = G_msgid_hash st"
      using link_new_queue[OF c, of "hdr_qname msg" calloc_ok] True by blast
    have h1: "tq_heap st1 m = Some (new_mmsg msg)" using s1(4) h by simp
    have u: "qctl_flags msg AND TPQCORRID \<noteq> 0 \<Longrightarrow> msgid_text (qctl_corrid msg) = Some (the (msgid_text (qctl_corrid msg)))"
      using new msgid_text_eq[of "qctl_corrid msg"] by (simp add: new_msg_ok_def)
    obtain st3 where s3: "(if qctl_flags msg AND TPQCORRID \<noteq> 0
        then map_option (\<lambda>c. upd_mmsg m (\<lambda>mm. mm\<lparr>mm_corrid_str := c\<rparr>) (upd_mmsg m (\<lambda>mm. mm\<lparr>mm_msgid_str := t\<rparr>) st1)) (msgid_text (qctl_corrid msg))
        else Some (upd_mmsg m (\<lambda>mm. mm\<lparr>mm_msgid_str := t\<rparr>) st1)) = Some st3" "core base st3" "tq_heap st3 = (tq_heap st1)(m \<mapsto> filled msg)"
        "G_qhash st3 = G_qhash st1" "G_msgid_hash st3 = G_msgid_hash st1"
      using core_filled[OF s1(2) h1 t u] by blast
    have h3: "tq_heap st3 m = Some (filled msg)" "mm_qstate (filled msg) = 0" "tmq_qhash_get (hdr_qname msg) st3 = Some qh"
      "ex_find fst (mm_msgid_str (filled msg)) (G_msgid_hash st3) = None" "cos st3 = cos st'"
      using s3 s1 True t ids(1) cos trs_upd(2)[OF s3(3)] m
      by (auto simp: filled_def new_mmsg_def tmq_qhash_get_def tmq_get_msg_by_msgid_str_def cos_def co_of_def fun_eq_iff)
    let ?code = "add_code env (cos st') (hdr_qname msg) m (filled msg)"
    obtain st4 where s4: "ndrx_infl_addmsg env (qc_name qconf) (hdr_qname msg) m st3 = Some (?code, st4)" "core base st4"
        "tq_heap st4 = (tq_heap st3)(m \<mapsto> added env (cos st') (qc_name qconf) (hdr_qname msg) m (filled msg))"
      using addmsg_ok[OF s3(2) h3(1,2,3,4), of env "qc_name qconf"] unfolding h3(5) by blast
    have "msg_add_link G_qconf env calloc_ok m msg st = Some (?code, 0, qc_memonly qconf, st4)"
      using True unfolding msg_add_link_def Some t s1(1) by (simp add: Let_def s3(1) s4(1))
    moreover have "add_ok G_qconf env calloc_ok m msg st' \<longleftrightarrow> ?code = EXSUCCEED" using True Some none look(2) by (auto simp: add_ok_def)
    ultimately show ?thesis using s4(2,3) s3(3) s1(4) ids(1) Some by auto
  qed
qed

lemma added_wf:
  assumes "new_msg_ok base msg st" "add_code env co (hdr_qname msg) m (filled msg) = EXSUCCEED"
  shows "mm_wf (added env co qconf (hdr_qname msg) m (filled msg))" "mm_qstate (added env co qconf (hdr_qname msg) m (filled msg)) \<in> {0x11, 0x12, 0x14, 0x1c}"
proof -
  have l: "length (hdr_msgid msg) = 32" using assms(1) by (simp add: new_msg_ok_def)
  have c: "qctl_flags msg AND TPQCORRID \<noteq> 0 \<longrightarrow> msgid_text (qctl_corrid msg) = Some (the (msgid_text (qctl_corrid msg)))"
    using assms(1) msgid_text_eq[of "qctl_corrid msg"] by (simp add: new_msg_ok_def)
  have "mm_ok base (filled msg)" using assms(1) by (simp add: filled_def new_mmsg_def mm_ok_def new_msg_ok_def fresh_msg_def state_simps)
  then show q: "mm_qstate (added env co qconf (hdr_qname msg) m (filled msg)) \<in> {0x11, 0x12, 0x14, 0x1c}"
    using added_ok(2)[of base "filled msg" env co qconf "hdr_qname msg" m] assms(2) by (auto simp: filled_def new_mmsg_def)
  have "lockthreadid msg \<noteq> 0 \<longleftrightarrow> mm_qstate (added env co qconf (hdr_qname msg) m (filled msg)) = 0x11"
    by (simp add: added_def filled_def new_mmsg_def ready_mm_def loc_defs Let_def)
  then show "mm_wf (added env co qconf (hdr_qname msg) m (filled msg))"
    using l c msgid_text_eq[OF l] by (simp add: mm_wf_def filled_def new_mmsg_def)
qed

lemma count_enq_ok: "core base st \<Longrightarrow> core base (count_enq qname st)" "tq_heap (count_enq qname st) = tq_heap st"
  by (simp_all add: count_enq_def core_upd_qhash)

text \<open>The outcome of an addition: the message is in its queue, or nothing has happened.\<close>

definition stored_ok :: "tmq_qconfig list \<Rightarrow> tmq_io \<Rightarrow> bool \<Rightarrow> tmq_msg \<Rightarrow> bool" where
  "stored_ok G_qconf io is_recovery msg \<longleftrightarrow>
     qc_memonly (the (tmq_qconf_get_with_default G_qconf (hdr_qname msg))) \<or> is_recovery \<or> io_store io"

lemma msg_add_result:
  assumes ok: "qspace_ok base st" and m: "io_mmsg io = Some m" "tq_heap st m = None" and new: "new_msg_ok base msg st"
  shows "\<exists>ret diag st'. tmq_msg_add G_qconf env io is_recovery msg st = Some (ret, diag, st') \<and> qspace_ok base st' \<and>
    (if add_ok G_qconf env (io_qhash io) m msg st \<and> stored_ok G_qconf io is_recovery msg
     then ret = EXSUCCEED \<and>
       tq_heap st' = (tq_heap st)(m \<mapsto> added env (cos st) (qc_name (the (tmq_qconf_get_with_default G_qconf (hdr_qname msg)))) (hdr_qname msg) m (filled msg))
     else ret \<noteq> EXSUCCEED \<and> tq_heap st' = tq_heap st)"
proof -
  let ?st0 = "alloc_mmsg m msg st" and ?conf = "the (tmq_qconf_get_with_default G_qconf (hdr_qname msg))"
  let ?mm = "added env (cos st) (qc_name ?conf) (hdr_qname msg) m (filled msg)"
  have c0: "core base ?st0" using core_alloc[OF qspace_core[OF ok] m(2)] new by (simp add: new_msg_ok_def)
  have s0: "tq_heap ?st0 m = Some (new_mmsg msg)" "tq_heap ?st0 = (tq_heap st)(m \<mapsto> new_mmsg msg)"
    "G_msgid_hash ?st0 = G_msgid_hash st" "G_qhash ?st0 = G_qhash st" by (simp_all add: alloc_mmsg_def)
  obtain ret diag mo st1 where s1: "msg_add_link G_qconf env (io_qhash io) m msg ?st0 = Some (ret, diag, mo, st1)" "core base st1"
      "if add_ok G_qconf env (io_qhash io) m msg st then ret = EXSUCCEED \<and> mo = qc_memonly ?conf \<and> tq_heap st1 = (tq_heap st)(m \<mapsto> ?mm)
       else ret \<noteq> EXSUCCEED \<and> (\<exists>mm. tq_heap st1 = (tq_heap st)(m \<mapsto> mm))"
    using link_ok_or_not[OF c0 s0(1) new s0(2,3,4) ok m(2), of G_qconf env "io_qhash io"] by blast
  show ?thesis
  proof (cases "add_ok G_qconf env (io_qhash io) m msg st \<and> stored_ok G_qconf io is_recovery msg")
    case True
    then have a: "add_code env (cos st) (hdr_qname msg) m (filled msg) = EXSUCCEED" by (simp add: add_ok_def)
    have r: "ret = EXSUCCEED" "mo = qc_memonly ?conf" "tq_heap (count_enq (hdr_qname msg) st1) = (tq_heap st)(m \<mapsto> ?mm)"
      using s1(3) True by (simp_all add: count_enq_ok)
    have "qspace_ok base (count_enq (hdr_qname msg) st1)"
      using qspace_updated[OF ok count_enq_ok(1)[OF s1(2)] r(3)] added_wf[OF new a] by blast
    moreover have "tmq_msg_add G_qconf env io is_recovery msg st = Some (EXSUCCEED, 0, count_enq (hdr_qname msg) st1)"
      using m(1) s1(1) r(1,2) True by (auto simp: tmq_msg_add_def stored_ok_def Let_def)
    ultimately show ?thesis using True r(3) by auto
  next
    case False
    obtain mm where mm: "tq_heap st1 = (tq_heap st)(m \<mapsto> mm)" using s1(3) by (auto split: if_splits)
    obtain st2 where s2: "ndrx_infl_delmsg m st1 = Some (EXSUCCEED, st2)" "qspace_ok base (free_mmsg m st2)" "tq_heap (free_mmsg m st2) = tq_heap st"
      using add_undone[OF ok m(2) s1(2) mm] by blast
    let ?failed = "ret = EXSUCCEED \<and> \<not> mo \<and> \<not> is_recovery \<and> \<not> io_store io"
    have "ret \<noteq> EXSUCCEED \<or> ?failed" using False s1(3) by (auto simp: stored_ok_def split: if_splits)
    then have "\<exists>r d. tmq_msg_add G_qconf env io is_recovery msg st = Some (r, d, free_mmsg m st2) \<and> r \<noteq> EXSUCCEED"
      using m(1) s1(1) s2(1) by (auto simp: tmq_msg_add_def Let_def)
    then show ?thesis using False s2(2,3) by auto
  qed
qed

lemma msg_add_no_memory: "io_mmsg io = None \<Longrightarrow> tmq_msg_add G_qconf env io is_recovery msg st = Some (EXFAIL, 0, st)"
  by (simp add: tmq_msg_add_def)

section \<open>Removing and unlocking\<close>

lemma remove_ok:
  assumes ok: "qspace_ok base st" and mm: "tq_heap st m = Some mm"
  shows "\<exists>st'. tmq_remove_msg m st = Some st' \<and> qspace_ok base st' \<and> tq_heap st' = (tq_heap st)(m := None)"
proof -
  let ?st1 = "upd_qhash (hdr_qname (mm_msg mm)) (\<lambda>qh. qh\<lparr>qh_numdeq := qh_numdeq qh + 1\<rparr>) st"
  have c: "core base ?st1" by (rule core_upd_qhash[OF qspace_core[OF ok]]) simp
  have mm1: "tq_heap ?st1 m = Some mm" using mm by simp
  obtain st2 where s: "ndrx_infl_delmsg m ?st1 = Some (EXSUCCEED, st2)" "core base (free_mmsg m st2)"
      "tq_heap st2 = (tq_heap ?st1)(m \<mapsto> mm\<lparr>mm_corhash := None, mm_qstate := 0\<rparr>)"
    using delmsg_ok[OF c mm1] by blast
  have h: "tq_heap (free_mmsg m st2) = (tq_heap st)(m := None)" using s(3) by (simp add: free_mmsg_def)
  have "qspace_ok base (free_mmsg m st2)" using ok s(2) unfolding qspace_ok_def tmq_ok_def h by (auto split: if_splits)
  then show ?thesis using mm s(1) h by (simp add: tmq_remove_msg_def)
qed

lemma unlock_to_cur_ok:
  assumes ok: "qspace_ok base st" and mm: "tq_heap st m = Some mm" "mm_qstate mm = 0x11"
  shows "\<exists>st'. unlock_to_cur env m st = Some (EXSUCCEED, st') \<and> qspace_ok base st' \<and>
    tq_heap st' = (tq_heap st)(m \<mapsto> requeued env (cos st) m (relocked 0 mm))"
  using unlock_and_move[OF assms, of env] by (auto simp: unlock_to_cur_def)

lemma upd_msg_ok:
  fixes status :: char and cnt ts tu :: "64 word"
  assumes ok: "qspace_ok base st" and mm: "tq_heap st m = Some mm"
  defines "mm' \<equiv> mm\<lparr>mm_msg := UPD_MSG status cnt ts tu (mm_msg mm)\<rparr>"
  defines "st' \<equiv> upd_mmsg m (\<lambda>mm. mm\<lparr>mm_msg := UPD_MSG status cnt ts tu (mm_msg mm)\<rparr>) st"
  shows "qspace_ok base st'" "tq_heap st' = (tq_heap st)(m \<mapsto> mm')"
proof -
  show h: "tq_heap st' = (tq_heap st)(m \<mapsto> mm')" using mm by (simp add: st'_def mm'_def)
  have st: "st' = st\<lparr>tq_heap := (tq_heap st)(m \<mapsto> mm')\<rparr>" using mm by (simp add: st'_def mm'_def upd_mmsg_def)
  have "core base st'" by (rule core_fields[OF qspace_core[OF ok] mm st]) (simp_all add: mm'_def UPD_MSG_def same_key_def stamp_def)
  moreover have "mm_wf mm'" using qspace_wf[OF ok mm] by (simp add: mm_wf_def mm'_def UPD_MSG_def)
  ultimately show "qspace_ok base st'" using qspace_updated[OF ok _ h] qspace_state[OF ok mm] by (simp add: mm'_def)
qed

section \<open>Requests in sequence\<close>

datatype tmq_req =
    QAdd tmq_env tmq_io bool tmq_msg
  | QDeq tmq_env tmq_env "64 word" bool string "64 word" bool "string option"
  | QDeqId tmq_env "64 word" bool "8 word list" "64 word"
  | QUnlock tmq_env tmq_upd_block
  | QUnlockId tmq_env "8 word list"
  | QLock "64 word" "8 word list"
  | QStats string int int

fun tmq_serve :: "tmq_qconfig list \<Rightarrow> tmq_req \<Rightarrow> tmq_st \<Rightarrow> tmq_st option" where
  "tmq_serve G_qconf (QAdd env io is_recovery msg) st = map_option (snd \<circ> snd) (tmq_msg_add G_qconf env io is_recovery msg st)"
| "tmq_serve G_qconf (QDeq env env2 tid store_ok qname flags is_auto corr) st =
     map_option (snd \<circ> snd) (tmq_msg_dequeue G_qconf env env2 tid store_ok qname flags is_auto corr st)"
| "tmq_serve G_qconf (QDeqId env tid store_ok msgid flags) st = map_option (snd \<circ> snd) (tmq_msg_dequeue_by_msgid env tid store_ok msgid flags st)"
| "tmq_serve G_qconf (QUnlock env b) st = map_option snd (tmq_unlock_msg env b st)"
| "tmq_serve G_qconf (QUnlockId env msgid) st = map_option snd (tmq_unlock_msg_by_msgid env msgid st)"
| "tmq_serve G_qconf (QLock tid msgid) st = map_option snd (tmq_lock_msg tid msgid st)"
| "tmq_serve G_qconf (QStats qname s f) st = Some (tmq_update_q_stats qname s f st)"

fun tmq_run :: "tmq_qconfig list \<Rightarrow> tmq_req list \<Rightarrow> tmq_st \<Rightarrow> tmq_st option" where
  "tmq_run G_qconf [] st = Some st"
| "tmq_run G_qconf (r # rs) st = do { st1 \<leftarrow> tmq_serve G_qconf r st; tmq_run G_qconf rs st1 }"

text \<open>What the callers owe: identifiers of full length, new structs at free addresses, stamps that are new and in the window, a thread id, and
  unlocking only of messages that are locked, locking only of those that are not.\<close>

definition is_locked :: "8 word list \<Rightarrow> tmq_st \<Rightarrow> bool \<Rightarrow> bool" where
  "is_locked msgid st b \<longleftrightarrow> (\<forall>m mm. tq_heap st m = Some mm \<longrightarrow> hdr_msgid (mm_msg mm) = msgid \<longrightarrow> (lockthreadid (mm_msg mm) \<noteq> 0) = b)"

fun block_unlocks :: "tmq_upd_block \<Rightarrow> bool" where
  "block_unlocks (Block_upd i status cnt ts tu) = True"
| "block_unlocks (Block_newmsg i) = True"
| "block_unlocks (Block_unlock i) = True"
| "block_unlocks b = False"

fun req_ok :: "int \<Rightarrow> tmq_req \<Rightarrow> tmq_st \<Rightarrow> bool" where
  "req_ok base (QAdd env io is_recovery msg) st = (new_msg_ok base msg st \<and> (\<forall>m. io_mmsg io = Some m \<longrightarrow> tq_heap st m = None))"
| "req_ok base (QDeq env env2 tid store_ok qname flags is_auto corr) st = (tid \<noteq> 0)"
| "req_ok base (QDeqId env tid store_ok msgid flags) st = (tid \<noteq> 0 \<and> length msgid = 32)"
| "req_ok base (QUnlock env b) st = (\<forall>i. block_msgid b = Some i \<longrightarrow> length i = 32 \<and> (block_unlocks b \<longrightarrow> is_locked i st True))"
| "req_ok base (QUnlockId env msgid) st = (length msgid = 32 \<and> is_locked msgid st True)"
| "req_ok base (QLock tid msgid) st = (tid \<noteq> 0 \<and> length msgid = 32 \<and> is_locked msgid st False)"
| "req_ok base (QStats qname s f) st = True"

fun reqs_ok :: "tmq_qconfig list \<Rightarrow> int \<Rightarrow> tmq_req list \<Rightarrow> tmq_st \<Rightarrow> bool" where
  "reqs_ok G_qconf base [] st = True"
| "reqs_ok G_qconf base (r # rs) st = (req_ok base r st \<and> (case tmq_serve G_qconf r st of None \<Rightarrow> True | Some st1 \<Rightarrow> reqs_ok G_qconf base rs st1))"

lemma found_by_id:
  assumes "qspace_ok base st" "length msgid = 32"
  obtains t where "msgid_text msgid = Some t" "tmq_get_msg_by_msgid_str t st = None" "\<And>m mm. tq_heap st m = Some mm \<Longrightarrow> hdr_msgid (mm_msg mm) \<noteq> msgid"
  | t m mm where "msgid_text msgid = Some t" "tmq_get_msg_by_msgid_str t st = Some m" "tq_heap st m = Some mm" "hdr_msgid (mm_msg mm) = msgid"
proof -
  obtain t where t: "msgid_text msgid = Some t" using msgid_text_eq[OF assms(2)] by blast
  show thesis
  proof (cases "tmq_get_msg_by_msgid_str t st")
    case None
    then show ?thesis using that(1)[OF t None] lookup_none[OF assms(1) t assms(2)] by blast
  next
    case (Some m)
    then show ?thesis using that(2)[OF t Some] lookup_by_id[OF assms(1) t assms(2)] by blast
  qed
qed

lemma locked_state:
  assumes "qspace_ok base st" "tq_heap st m = Some mm" "is_locked (hdr_msgid (mm_msg mm)) st b"
  shows "(mm_qstate mm = 0x11) = b" "(lockthreadid (mm_msg mm) \<noteq> 0) = b"
  using qspace_wf[OF assms(1,2)] assms(2,3) unfolding mm_wf_def is_locked_def by blast+

lemma unlock_msg_keeps:
  assumes ok: "qspace_ok base st" and r: "req_ok base (QUnlock env b) st"
  shows "\<exists>ret st'. tmq_unlock_msg env b st = Some (ret, st') \<and> qspace_ok base st'"
proof (cases "block_msgid b")
  case None
  then show ?thesis using ok by (simp add: tmq_unlock_msg_def)
next
  case (Some i)
  then have i: "length i = 32" "block_unlocks b \<longrightarrow> is_locked i st True" using r by simp_all
  from ok i(1) show ?thesis
  proof (cases rule: found_by_id)
    case (1 t)
    then show ?thesis using ok Some by (simp add: tmq_unlock_msg_def)
  next
    case (2 t m mm)
    have unf: "tmq_unlock_msg env b st = unlock_found env b m st" using Some 2 by (simp add: tmq_unlock_msg_def)
    have q: "mm_qstate mm = 0x11" if "block_unlocks b" using locked_state(1)[OF ok 2(3)] i(2) that 2(4) by simp
    show ?thesis
    proof (cases b)
      case (Block_del j)
      then show ?thesis using unf remove_ok[OF ok 2(3)] by auto
    next
      case (Block_upd j s c ts tu)
      note u = upd_msg_ok[OF ok 2(3), of s c ts tu]
      let ?mm = "mm\<lparr>mm_msg := UPD_MSG s c ts tu (mm_msg mm)\<rparr>"
      have "tq_heap (upd_mmsg m (\<lambda>mm. mm\<lparr>mm_msg := UPD_MSG s c ts tu (mm_msg mm)\<rparr>) st) m = Some ?mm" "mm_qstate ?mm = 0x11"
        unfolding u(2) using q Block_upd by simp_all
      from unlock_to_cur_ok[OF u(1) this, of env] show ?thesis using Block_upd unf by auto
    next
      case (Block_newmsg j)
      then show ?thesis using unlock_to_cur_ok[OF ok 2(3), of env] q unf by auto
    next
      case (Block_unlock j)
      then show ?thesis using unlock_to_cur_ok[OF ok 2(3), of env] q unf by auto
    qed (use unf ok in auto)
  qed
qed

lemma serve_keeps:
  assumes ok: "qspace_ok base st" and r: "req_ok base r st"
  shows "\<exists>st'. tmq_serve G_qconf r st = Some st' \<and> qspace_ok base st'"
proof (cases r)
  case (QAdd env io rec msg)
  then show ?thesis using msg_add_result[OF ok, of io _ msg G_qconf env rec] msg_add_no_memory[of io G_qconf env rec msg st] r ok
    by (cases "io_mmsg io") fastforce+
next
  case (QDeq env env2 tid sto qn fl au co)
  then show ?thesis using dequeue_keeps[OF ok, of tid G_qconf env env2 sto qn fl au co] r by auto
next
  case (QDeqId env tid sto i fl)
  then have i: "length i = 32" "tid \<noteq> 0" using r by simp_all
  from ok i(1) show ?thesis
  proof (cases rule: found_by_id)
    case (2 t m mm)
    then show ?thesis using QDeqId ok take_msg_ok[OF ok 2(3) _ i(2), of env "fl AND TPQPEEK = 0" sto]
      by (cases "lockthreadid (mm_msg mm) = 0") (auto simp: tmq_msg_dequeue_by_msgid_def)
  qed (use QDeqId ok in \<open>simp add: tmq_msg_dequeue_by_msgid_def\<close>)
next
  case (QUnlock env b)
  then show ?thesis using unlock_msg_keeps[OF ok] r by fastforce
next
  case (QUnlockId env i)
  then have i: "length i = 32" "is_locked i st True" using r by simp_all
  from ok i(1) show ?thesis
  proof (cases rule: found_by_id)
    case (2 t m mm)
    then show ?thesis using QUnlockId unlock_to_cur_ok[OF ok 2(3), of env] locked_state(1)[OF ok 2(3), of True] i(2)
      by (auto simp: tmq_unlock_msg_by_msgid_def)
  qed (use QUnlockId ok in \<open>simp add: tmq_unlock_msg_by_msgid_def\<close>)
next
  case (QLock tid i)
  then have i: "length i = 32" "is_locked i st False" "tid \<noteq> 0" using r by simp_all
  from ok i(1) show ?thesis
  proof (cases rule: found_by_id)
    case (2 t m mm)
    then show ?thesis using QLock lock_and_move[OF ok 2(3) _ i(3)] locked_state(2)[OF ok 2(3), of False] i(2) by (auto simp: tmq_lock_msg_def)
  qed (use QLock ok in \<open>simp add: tmq_lock_msg_def\<close>)
next
  case (QStats qn s f)
  have "core base (tmq_update_q_stats qn s f st)" unfolding tmq_update_q_stats_def by (rule core_upd_qhash[OF qspace_core[OF ok]]) simp
  then show ?thesis using QStats qspace_same[OF ok] by (simp add: tmq_update_q_stats_def)
qed

lemma run_keeps: "qspace_ok base st \<Longrightarrow> reqs_ok G_qconf base rs st \<Longrightarrow> \<exists>st'. tmq_run G_qconf rs st = Some st' \<and> qspace_ok base st'"
proof (induction rs arbitrary: st)
  case (Cons r rs)
  obtain st1 where "tmq_serve G_qconf r st = Some st1" "qspace_ok base st1" using serve_keeps[OF Cons.prems(1)] Cons.prems(2) by auto
  then show ?case using Cons.IH[of st1] Cons.prems(2) by simp
qed simp

end
