(* ===== verification/Tmq_Properties.thy ===== *)
theory Tmq_Properties
  imports Tmq_Add
begin

text \<open>
  The properties of the queues in memory.
\<close>

section \<open>A small world\<close>

definition tmq_empty :: tmq_st where
  "tmq_empty = \<lparr>tq_heap = (\<lambda>_. None), links = no_nodes, G_msgid_hash = [], G_qhash = []\<rparr>"

definition sample_conf :: "tmq_qconfig list" where
  "sample_conf = [\<lparr>qc_name = ''@'', qc_memonly = False, qc_mode = CHR ''F''\<rparr>]"

definition sample_msg :: "64 word \<Rightarrow> 64 word \<Rightarrow> tmq_msg" where
  "sample_msg flags deq = \<lparr>hdr_qname = ''Q'', hdr_msgid = replicate 32 1, lockthreadid = 0, msg_status = CHR ''A'', trycounter = 0, msgtstamp = 100,
     msgtstamp_usec = 0, msgtstamp_cntr = 0, trytstamp = 0, trytstamp_usec = 0, qctl_flags = flags, qctl_deq_time = deq, qctl_corrid = replicate 32 2\<rparr>"

definition sample_clock :: "int \<Rightarrow> tmq_env" where
  "sample_clock t = \<lparr>ev_time = (\<lambda>_. t), ev_malloc = (\<lambda>_. True)\<rparr>"

definition sample_io :: tmq_io where
  "sample_io = \<lparr>io_mmsg = Some 0, io_qhash = True, io_store = True\<rparr>"

lemma sample_conf_Q: "tmq_qconf_get_with_default sample_conf ''Q'' = Some \<lparr>qc_name = ''@'', qc_memonly = False, qc_mode = CHR ''F''\<rparr>"
  by (simp add: sample_conf_def tmq_qconf_get_with_default_def tmq_qconf_get_def ex_find_def TMQ_DEFAULT_Q_def)

lemma empty_qspace: "qspace_ok base tmq_empty"
proof -
  have "places base tmq_empty (trs tmq_empty) (cos tmq_empty)"
    by (simp add: places_def tmq_empty_def tmq_qhash_get_def ex_find_def no_nodes_def trs_def cos_def at_def)
  then show ?thesis by (simp add: qspace_ok_def tmq_ok_def core_def stamps_differ_def ids_ok_def tmq_empty_def ex_inv_def ex_find_def)
qed

lemma sample_new: "new_msg_ok 0 (sample_msg flags deq) tmq_empty" if "in_window 0 (sint deq)"
  using that by (simp add: new_msg_ok_def fresh_msg_def msg_ok_def stamp_ok_def in_window_def sample_msg_def tmq_empty_def)

lemma sample_add_ok: "add_ok sample_conf (sample_clock t) (io_qhash sample_io) 0 (sample_msg fl deq) tmq_empty"
  by (simp add: add_ok_def add_code_def joined_code_def joins_def sample_clock_def sample_io_def sample_msg_def tmq_empty_def sample_conf_Q)

text \<open>The queues with the one message.\<close>

lemma sample_added:
  assumes "in_window 0 (sint deq)"
  shows "\<exists>st. qspace_ok 0 st \<and> tq_heap st = [0 \<mapsto> added (sample_clock t) (\<lambda>_. None) ''@'' ''Q'' 0 (filled (sample_msg fl deq))]"
proof -
  have c: "cos tmq_empty = (\<lambda>_. None)" "tq_heap tmq_empty = Map.empty" by (simp_all add: cos_def tmq_empty_def fun_eq_iff)
  have "add_ok sample_conf (sample_clock t) (io_qhash sample_io) 0 (sample_msg fl deq) tmq_empty" by (rule sample_add_ok)
  moreover have "stored_ok sample_conf sample_io False (sample_msg fl deq)" by (simp add: stored_ok_def sample_io_def)
  moreover have "io_mmsg sample_io = Some 0" "hdr_qname (sample_msg fl deq) = ''Q''" by (simp_all add: sample_io_def sample_msg_def)
  ultimately show ?thesis using msg_add_result[OF empty_qspace _ _ sample_new[OF assms], of sample_io 0 sample_conf "sample_clock t" False fl] c sample_conf_Q by auto
qed

definition sample_future :: "64 word \<Rightarrow> tmq_memmsg" where
  "sample_future fl = added (sample_clock 50) (\<lambda>_. None) ''@'' ''Q'' 0 (filled (sample_msg fl 60))"

lemma future_queued: "\<exists>st. qspace_ok 0 st \<and> tq_heap st = [0 \<mapsto> sample_future fl]"
  unfolding sample_future_def by (rule sample_added) (simp add: in_window_def)

lemma future_fields:
  assumes "fl AND TPQTIME_ABS \<noteq> 0"
  shows "tr_of (sample_future fl) = Some (''Q'', PFut)" "co_of (sample_future fl) = None" "mm_qstate (sample_future fl) = 0x12"
    "mm_qhash (sample_future fl) = ''Q''" "mm_msg (sample_future fl) = sample_msg fl 60"
  using assms by (simp_all add: sample_future_def added_def in_future_def sample_clock_def filled_def new_mmsg_def sample_msg_def Let_def tr_of_def co_of_def loc_defs)

lemma queued_known:
  assumes "qspace_ok base st" "trs st m = Some (name, p)"
  shows "\<exists>qh. tmq_qhash_get name st = Some qh"
proof (cases "tmq_qhash_get name st")
  case None
  have "case tmq_qhash_get name st of None \<Rightarrow> (\<forall>p. at (trs st) (name, p) = {}) \<and> (\<forall>c. at (cos st) (name, c) = {})
      | Some qh \<Rightarrow> queue_ok base (msgs st) (links st) (trs st) (cos st) name qh"
    using core_places[OF qspace_core[OF assms(1)]] unfolding places_def by blast
  then have "at (trs st) (name, p) = {}" using None by simp
  then show ?thesis using assms(2) by auto
qed simp

section \<open>Consistency\<close>

text \<open>C9: the queues in memory never get out of step.  Whatever messages are added, taken, locked, unlocked and removed, with writes to the storage
  that may fail and memory that may run out, every function returns without running into one of its calls of abort() or a
  dangling pointer, and afterwards each message is linked into the trees and lists that its qstate says and into no other: the trees are red-black trees
  in the order of the stamps with exactly the current, the future and the correlated messages of the queue, no correlator is left without a
  message, the hash of identifiers has every message, and a message is locked when and only when it is in flight.  This holds for
  callers that do what they owe: identifiers of full length, stamps that are new and, like the times of future messages, within one window of 2^31
  seconds, thread ids other than zero, locking only of what is unlocked and unlocking only of what is locked.  (Times outside the window are put in the wrong order, see the last section.)\<close>

theorem queue_space_consistent:
  assumes "reqs_ok G_qconf base reqs tmq_empty"
  shows "\<exists>st. tmq_run G_qconf reqs tmq_empty = Some st \<and> qspace_ok base st"
  using run_keeps[OF empty_qspace assms] .

theorem queue_space_consistent_witness:
  "\<exists>st. tmq_run sample_conf [QAdd (sample_clock 50) sample_io False (sample_msg TPQCORRID 0),
      QDeq (sample_clock 51) (sample_clock 52) 7 True ''Q'' 0 False None, QStats ''Q'' 1 0] tmq_empty = Some st \<and> qspace_ok 0 st"
proof -
  have "req_ok 0 (QAdd (sample_clock 50) sample_io False (sample_msg TPQCORRID 0)) tmq_empty"
    using sample_new[of 0 TPQCORRID] by (simp add: sample_io_def tmq_empty_def in_window_def)
  then have "reqs_ok sample_conf 0 [QAdd (sample_clock 50) sample_io False (sample_msg TPQCORRID 0),
      QDeq (sample_clock 51) (sample_clock 52) 7 True ''Q'' 0 False None, QStats ''Q'' 1 0] tmq_empty"
    by (simp del: tmq_serve.simps req_ok.simps(1) split: option.split)
  then show ?thesis by (rule queue_space_consistent)
qed

section \<open>Adding\<close>

definition messages :: "tmq_st \<Rightarrow> nat \<Rightarrow> tmq_msg option" where
  "messages st m = map_option mm_msg (tq_heap st m)"

text \<open>C17: a message is added completely or not at all.  An addition reports success exactly when the queue is configured, the identifier is new,
  there is memory, and the command is written to the storage unless the queue is in memory only or the message comes from the storage; then the
  message is there as it was given, in flight if it is locked, among the future messages if its time has not come, and among the current ones
  otherwise.  In all other cases the messages are what they were, and the queues are consistent again.\<close>

theorem add_all_or_nothing:
  assumes "qspace_ok base st" "io_mmsg io = Some m" "tq_heap st m = None" "new_msg_ok base msg st"
  shows "\<exists>ret diag st'. tmq_msg_add G_qconf env io is_recovery msg st = Some (ret, diag, st') \<and> qspace_ok base st' \<and>
    (ret = EXSUCCEED \<longleftrightarrow> add_ok G_qconf env (io_qhash io) m msg st \<and> stored_ok G_qconf io is_recovery msg) \<and>
    messages st' = (if ret = EXSUCCEED then (messages st)(m \<mapsto> msg) else messages st) \<and>
    (ret = EXSUCCEED \<longrightarrow> trs st' m = Some (hdr_qname msg, if lockthreadid msg \<noteq> 0 then PInfl else if in_future env m msg then PFut else PCur))"
proof -
  let ?qc = "qc_name (the (tmq_qconf_get_with_default G_qconf (hdr_qname msg)))"
  let ?mm = "added env (cos st) ?qc (hdr_qname msg) m (filled msg)" and ?ok = "add_ok G_qconf env (io_qhash io) m msg st \<and> stored_ok G_qconf io is_recovery msg"
  obtain ret diag st' where r: "tmq_msg_add G_qconf env io is_recovery msg st = Some (ret, diag, st')" "qspace_ok base st'"
      "if ?ok then ret = EXSUCCEED \<and> tq_heap st' = (tq_heap st)(m \<mapsto> ?mm) else ret \<noteq> EXSUCCEED \<and> tq_heap st' = tq_heap st"
    using msg_add_result[OF assms, of G_qconf env is_recovery] by blast
  have f: "mm_msg (filled msg) = msg" by (simp add: filled_def new_mmsg_def)
  have "ret = EXSUCCEED \<longleftrightarrow> ?ok" "ret = EXSUCCEED \<Longrightarrow> tq_heap st' = (tq_heap st)(m \<mapsto> ?mm)" "ret \<noteq> EXSUCCEED \<Longrightarrow> tq_heap st' = tq_heap st"
    using r(3) by (auto split: if_splits)
  moreover have "tr_of ?mm = Some (hdr_qname msg, if lockthreadid msg \<noteq> 0 then PInfl else if in_future env m msg then PFut else PCur)" if ?ok
    using that by (simp add: add_ok_def tr_of_def added_def f Let_def ready_mm_def loc_defs)
  ultimately show ?thesis using r(1,2) f by (auto simp: messages_def trs_def fun_eq_iff)
qed

theorem add_all_or_nothing_witness:
  "\<exists>diag st. tmq_msg_add sample_conf (sample_clock 50) sample_io True (sample_msg TPQTIME_ABS 60) tmq_empty = Some (EXSUCCEED, diag, st) \<and>
    messages st 0 = Some (sample_msg TPQTIME_ABS 60) \<and> trs st 0 = Some (''Q'', PFut)"
proof -
  have "add_ok sample_conf (sample_clock 50) (io_qhash sample_io) 0 (sample_msg TPQTIME_ABS 60) tmq_empty" by (rule sample_add_ok)
  moreover have "stored_ok sample_conf sample_io True (sample_msg TPQTIME_ABS 60)" by (simp add: stored_ok_def)
  ultimately show ?thesis
    using add_all_or_nothing[OF empty_qspace _ _ sample_new[of 60 TPQTIME_ABS], of sample_io 0 sample_conf "sample_clock 50" True]
    by (auto simp: in_window_def sample_io_def tmq_empty_def sample_msg_def in_future_def TPQTIME_ABS_def sample_clock_def)
qed

section \<open>Taking\<close>

lemma messages_moved: "moved_due env name ok (tq_heap st) (tq_heap st') \<Longrightarrow> messages st' = messages st"
proof
  fix m
  assume mv: "moved_due env name ok (tq_heap st) (tq_heap st')"
  show "messages st' m = messages st m"
    using moved_msg(1)[OF mv, of m] moved_msg(2)[OF mv, of m] by (cases "tq_heap st m") (auto simp: messages_def)
qed

lemma msgs_messages:
  assumes "messages st' = messages st"
  shows "msgs st' = msgs st"
proof
  fix m
  have "map_option mm_msg (tq_heap st' m) = map_option mm_msg (tq_heap st m)" using assms by (simp add: messages_def fun_eq_iff)
  then show "msgs st' m = msgs st m" by (cases "tq_heap st m"; cases "tq_heap st' m") (simp_all add: msgs_def)
qed

lemma first_messages: "messages st' = messages st \<Longrightarrow> first_of qconf st' A m = first_of qconf st A m"
  unfolding first_of_def by (drule msgs_messages) simp

text \<open>What \<^verbatim>\<open>take_msg\<close> does to the messages.\<close>

lemma take_messages:
  assumes ok: "qspace_ok base st" and m: "m \<in> avail corr qname st" and tid: "tid \<noteq> 0"
  shows "\<exists>st'. qspace_ok base st' \<and> (if removing \<and> \<not> store_ok
    then take_msg env removing tid store_ok m st = Some (None, QMEOS, st') \<and> messages st' = messages st
    else take_msg env removing tid store_ok m st = Some (Some m, EXSUCCEED, st') \<and> trs st' m = Some (qname, PInfl) \<and>
      messages st' = (messages st)(m \<mapsto> (msgs st m)\<lparr>lockthreadid := tid\<rparr>))"
proof -
  have t: "tmq_ok base st" using ok by (simp add: qspace_ok_def)
  obtain mm where mm: "tq_heap st m = Some mm" "mm_qhash mm = qname" using m unfolding avail_iff[OF t] by blast
  have l: "lockthreadid (mm_msg mm) = 0" using avail_unlocked[OF ok m] mm(1) by auto
  obtain st' where st': "take_msg env removing tid store_ok m st =
      Some (if removing \<and> \<not> store_ok then None else Some m, if removing \<and> \<not> store_ok then QMEOS else EXSUCCEED, st')" "qspace_ok base st'"
      "\<exists>co. tq_heap st' = (tq_heap st)(m \<mapsto> (if removing \<and> \<not> store_ok then requeued env co m (relocked 0 (taken tid mm)) else taken tid mm))"
    using take_msg_ok[OF ok mm(1) l tid, of env removing store_ok] by blast
  have same: "(mm_msg mm)\<lparr>lockthreadid := 0\<rparr> = mm_msg mm" using l by simp
  show ?thesis
  proof (cases "removing \<and> \<not> store_ok")
    case True
    then show ?thesis using st' mm(1) same by (intro exI[of _ st']) (auto simp: messages_def fun_eq_iff taken_def relocked_def)
  next
    case False
    then show ?thesis using st' mm by (intro exI[of _ st']) (auto simp: messages_def fun_eq_iff taken_def msgs_def trs_def tr_of_def loc_defs)
  qed
qed

text \<open>C10: a dequeue takes the first of the messages that are ready.  Ready are the messages of the queue that nobody has locked and whose time has come,
  restricted to one correlator if the caller gives one; first is the oldest in a FIFO queue and the newest in a LIFO queue, by the time
  stamp.  With nothing ready the answer is QMENOMSG.  Otherwise the first message is returned, locked by the caller and in flight, and no other
  message changes; and if the command that removes it cannot be written to the storage, the answer is QMEOS and every message is there, unlocked
  again.  A caller that gives a correlator under which no current message is queued gets QMENOMSG at once, whatever is ready, and nothing changes.  The
  clock is taken to stand still during the request, there is memory, the queue is configured and known, and the caller's thread id is not zero.\<close>

theorem dequeue_takes_first:
  assumes "qspace_ok base st" "steady env" "tid \<noteq> 0" "tmq_qconf_get_with_default G_qconf qname = Some qconf" "tmq_qhash_get qname st \<noteq> None"
  shows "if cor_known corr qname st then \<exists>st'. qspace_ok base st' \<and>
    ((\<forall>m. \<not> ready_now env corr qname st m) \<and> messages st' = messages st \<and>
       tmq_msg_dequeue G_qconf env env2 tid store_ok qname flags is_auto corr st = Some (None, QMENOMSG, st') \<or>
     (\<exists>m. first_of qconf st {m. ready_now env corr qname st m} m \<and>
       (if flags AND TPQPEEK = 0 \<and> \<not> is_auto \<and> \<not> store_ok
        then tmq_msg_dequeue G_qconf env env2 tid store_ok qname flags is_auto corr st = Some (None, QMEOS, st') \<and> messages st' = messages st
        else tmq_msg_dequeue G_qconf env env2 tid store_ok qname flags is_auto corr st = Some (Some m, EXSUCCEED, st') \<and>
          trs st' m = Some (qname, PInfl) \<and> messages st' = (messages st)(m \<mapsto> (msgs st m)\<lparr>lockthreadid := tid\<rparr>))))
    else tmq_msg_dequeue G_qconf env env2 tid store_ok qname flags is_auto corr st = Some (None, QMENOMSG, st)"
proof (cases "cor_known corr qname st")
  case False
  then show ?thesis using dequeue_unknown[OF assms(1,4) False] by simp
next
  case True
  let ?r = "tmq_msg_dequeue G_qconf env env2 tid store_ok qname flags is_auto corr st" and ?rm = "flags AND TPQPEEK = 0 \<and> \<not> is_auto"
  have t: "tmq_ok base st" using assms(1) by (simp add: qspace_ok_def)
  obtain qh where qh: "tmq_qhash_get qname st = Some qh" using assms(5) by auto
  obtain r st1 where s1: "fut2cur_post base env qname st r st1" "qspace_ok base st1"
      "avail corr qname st1 = {} \<and> corr = None \<and> ?r = Some (None, QMENOMSG, st1) \<or>
       (\<exists>m. first_of qconf st1 (avail corr qname st1) m \<and> ?r = take_msg env2 ?rm tid store_ok m st1)"
    using dequeue_unfold[OF assms(1,4) qh True, of env env2 tid store_ok flags is_auto] by blast
  have ready: "avail corr qname st1 = {m. ready_now env corr qname st m}" using avail_moved[OF t s1(1) assms(2)] by blast
  have same: "messages st1 = messages st" using s1(1) unfolding fut2cur_post_def by (blast intro: messages_moved)
  consider "avail corr qname st1 = {}" "?r = Some (None, QMENOMSG, st1)"
    | m where "first_of qconf st1 (avail corr qname st1) m" "?r = take_msg env2 ?rm tid store_ok m st1" using s1(3) by blast
  then show ?thesis
  proof cases
    case 1
    then show ?thesis using True s1(2) same ready by (simp only: if_True) (intro exI[of _ st1], auto)
  next
    case (2 m)
    have m: "first_of qconf st {m. ready_now env corr qname st m} m" using 2(1) unfolding ready first_messages[OF same] .
    have a: "m \<in> avail corr qname st1" using 2(1) by (simp add: first_of_def)
    obtain st' where "qspace_ok base st'" "if ?rm \<and> \<not> store_ok then ?r = Some (None, QMEOS, st') \<and> messages st' = messages st
        else ?r = Some (Some m, EXSUCCEED, st') \<and> trs st' m = Some (qname, PInfl) \<and> messages st' = (messages st)(m \<mapsto> (msgs st m)\<lparr>lockthreadid := tid\<rparr>)"
      using take_messages[OF s1(2) a assms(3), of ?rm store_ok env2] unfolding 2(2) same msgs_messages[OF same] by blast
    with m True show ?thesis by (simp only: if_True) (intro exI[of _ st'] conjI disjI2 exI[of _ m], simp_all)
  qed
qed

theorem dequeue_takes_first_witness:
  "\<exists>st st'. tmq_msg_dequeue sample_conf (sample_clock 60) (sample_clock 60) 7 True ''Q'' 0 False None st = Some (Some 0, EXSUCCEED, st') \<and>
    messages st 0 = Some (sample_msg TPQTIME_ABS 60) \<and> messages st' 0 = Some ((sample_msg TPQTIME_ABS 60)\<lparr>lockthreadid := 7\<rparr>)"
proof -
  obtain st where st: "qspace_ok 0 st" "tq_heap st = [0 \<mapsto> sample_future TPQTIME_ABS]" using future_queued[of TPQTIME_ABS] by auto
  have mm: "mm_qstate (sample_future TPQTIME_ABS) = 0x12" "mm_qhash (sample_future TPQTIME_ABS) = ''Q''" "mm_msg (sample_future TPQTIME_ABS) = sample_msg TPQTIME_ABS 60"
    using future_fields[of TPQTIME_ABS] by (simp_all add: TPQTIME_ABS_def)
  have s: "steady (sample_clock 60)" by (simp add: steady_def sample_clock_def)
  have r: "ready_now (sample_clock 60) None ''Q'' st m \<longleftrightarrow> m = 0" for m
    using mm by (auto simp: ready_now_def st(2) sample_clock_def sample_msg_def)
  obtain st' where st': "(\<forall>m. \<not> ready_now (sample_clock 60) None ''Q'' st m) \<or>
     (\<exists>m. ready_now (sample_clock 60) None ''Q'' st m \<and>
       tmq_msg_dequeue sample_conf (sample_clock 60) (sample_clock 60) 7 True ''Q'' 0 False None st = Some (Some m, EXSUCCEED, st') \<and>
       messages st' = (messages st)(m \<mapsto> (msgs st m)\<lparr>lockthreadid := 7\<rparr>))"
    using dequeue_takes_first[OF st(1) s _ sample_conf_Q, of 7 None "sample_clock 60" True 0 False] queued_known[OF st(1), of 0 "''Q''" PFut] st(2) future_fields(1)[of TPQTIME_ABS]
    by (auto simp: first_of_def cor_known_def trs_def TPQTIME_ABS_def)
  moreover have "messages st 0 = Some (sample_msg TPQTIME_ABS 60)" "msgs st 0 = sample_msg TPQTIME_ABS 60" using st(2) mm(3) by (simp_all add: messages_def msgs_def)
  ultimately show ?thesis unfolding r by (intro exI[of _ st] exI[of _ st']) auto
qed

section \<open>Looking\<close>

text \<open>A walk over a tree gives each of its messages once.\<close>

lemma walk_holds:
  assumes "rbt_holds key C s (f ` A)" "inj f"
  shows "\<exists>ms. rbt_walk s (ndrx_rbt_begin_iterate s LeftRightWalk) = Some (map (Nd \<circ> f) ms) \<and> distinct ms \<and> set ms = A"
proof -
  obtain T where T: "tree_ok s T" "set (nodes T) = f ` A" using assms(1) by (auto simp: rbt_holds_def)
  let ?ms = "map (inv f) (nodes T)"
  have "map f ?ms = map (\<lambda>x. x) (nodes T)" unfolding map_map using T(2) by (intro map_cong refl) (auto simp: assms(2))
  then have "map f ?ms = nodes T" by simp
  moreover have "distinct (nodes T)" using T(1) by (simp add: tree_ok_def)
  ultimately have "distinct ?ms" by (metis distinct_map)
  moreover have "set ?ms = A" using T(2) assms(2) by (simp add: image_image)
  moreover have "rbt_walk s (ndrx_rbt_begin_iterate s LeftRightWalk) = Some (map (Nd \<circ> f) ?ms)"
    using walk_ok[OF T(1), of LeftRightWalk] \<open>map f ?ms = nodes T\<close> by (simp add: in_order_def flip: map_map)
  ultimately show ?thesis by blast
qed

text \<open>The messages of a queue, and the list of them that is printed.\<close>

lemma in_queue_iff:
  assumes "qspace_ok base st"
  shows "(\<exists>p. trs st m = Some (name, p)) \<longleftrightarrow> (\<exists>mm. tq_heap st m = Some mm \<and> mm_qhash mm = name)"
  using qspace_state[OF assms, of m] by (cases "tq_heap st m") (auto simp: trs_def tr_of_def loc_defs)

lemma listing_complete:
  assumes ok: "qspace_ok base st"
  shows "\<exists>ms. tmq_get_msglist name st = Some (map (msgs st) ms) \<and> distinct ms \<and> set ms = {m. \<exists>mm. tq_heap st m = Some mm \<and> mm_qhash mm = name}"
proof (cases "tmq_qhash_get name st")
  case None
  then have "\<not> (\<exists>p. trs st m = Some (name, p))" for m using queued_known[OF ok] by fastforce
  then show ?thesis using None in_queue_iff[OF ok, of _ name] by (intro exI[of _ "[]"]) (auto simp: tmq_get_msglist_def)
next
  case (Some qh)
  note q = queue_parts[OF places_queue[OF core_places[OF qspace_core[OF ok]] Some]]
  obtain cur where cur: "rbt_walk (tree_at st (qh_q qh)) (ndrx_rbt_begin_iterate (tree_at st (qh_q qh)) LeftRightWalk) = Some (map (Nd \<circ> Cur) cur)"
      "distinct cur" "set cur = at (trs st) (name, PCur)"
    using walk_holds[OF q(1)[unfolded tree_holds_def]] by (auto simp: tree_at_def inj_def)
  obtain fut where fut: "rbt_walk (tree_at st (qh_fut qh)) (ndrx_rbt_begin_iterate (tree_at st (qh_fut qh)) LeftRightWalk) = Some (map (Nd \<circ> Cur) fut)"
      "distinct fut" "set fut = at (trs st) (name, PFut)"
    using walk_holds[OF q(2)[unfolded tree_holds_def]] by (auto simp: tree_at_def inj_def)
  let ?ms = "qh_infl qh @ cur @ fut"
  have "tmq_get_msglist name st = Some (map (msgs st) ?ms)" using Some cur(1) fut(1) by (simp add: tmq_get_msglist_def)
  moreover have "distinct ?ms" using q(3,4) cur(2,3) fut(2,3) by auto
  moreover have "m \<in> set ?ms \<longleftrightarrow> (\<exists>p. trs st m = Some (name, p))" for m using q(4) cur(3) fut(3)
    by (auto simp: at_def) (metis place.exhaust)
  ultimately show ?thesis unfolding in_queue_iff[OF ok] by blast
qed

section \<open>Where the order fails\<close>

text \<open>C39: a message whose time has come cannot be taken by its correlator while no current message has that correlator.  The dequeue looks for the
  correlator before it moves the messages whose time has come, and gives up with QMENOMSG; the state stays the same, so that asking again does not
  help, however late it is.\<close>

theorem due_message_hidden:
  assumes "qspace_ok base st" "tmq_qconf_get_with_default G_qconf qname = Some qconf" "ready_now env (Some c) qname st m" "at (cos st) (qname, c) = {}"
  shows "tmq_msg_dequeue G_qconf env' env2 tid store_ok qname flags is_auto (Some c) st = Some (None, QMENOMSG, st)"
  using dequeue_unknown[OF assms(1,2), of "Some c"] assms(4) by (simp add: cor_known_def)

theorem due_message_hidden_witness:
  "\<exists>st c. ready_now (sample_clock 99) (Some c) ''Q'' st 0 \<and> tmq_msg_dequeue sample_conf (sample_clock 99) (sample_clock 99) 7 True ''Q'' TPQCORRID False (Some c) st = Some (None, QMENOMSG, st)"
proof -
  let ?fl = "TPQTIME_ABS OR TPQCORRID" and ?c = "mm_corrid_str (sample_future (TPQTIME_ABS OR TPQCORRID))"
  obtain st where st: "qspace_ok 0 st" "tq_heap st = [0 \<mapsto> sample_future ?fl]" using future_queued[of ?fl] by auto
  have f: "mm_qstate (sample_future ?fl) = 0x12" "mm_qhash (sample_future ?fl) = ''Q''" "mm_msg (sample_future ?fl) = sample_msg ?fl 60" "co_of (sample_future ?fl) = None"
    using future_fields[of ?fl] by (simp_all add: TPQTIME_ABS_def TPQCORRID_def)
  have r: "ready_now (sample_clock 99) (Some ?c) ''Q'' st 0"
    using f(1-3) by (simp add: ready_now_def st(2) sample_clock_def sample_msg_def TPQTIME_ABS_def TPQCORRID_def)
  have "at (cos st) (''Q'', ?c) = {}" using f(4) st(2) by (auto simp: cos_def at_def)
  from due_message_hidden[OF st(1) sample_conf_Q r this] r show ?thesis by blast
qed












end
