(* ===== verification/Spec2Isabelle.thy ===== *)
theory Spec2Isabelle
  imports Tm_Durable Xid Exhash_Buckets Cltshm Tmq_Properties
begin

text \<open>
  \<^bold>\<open>A verification development for the transaction manager and the queues of Enduro/X.\<close>

  \<^bold>\<open>The program.\<close>  Enduro/X is middleware in C for distributed transaction processing.  The server tmsrv
  (src/tmsrv) coordinates two-phase commit between XA resource managers.  A request (begin,
  register a branch, commit, abort, report a branch status, and the administrator's requests)
  arrives as a typed buffer and is served by a handler in tmapi.c.  The handler finds the transaction in a
  hash table of entries, each with a lock, a stage, a table of branches per resource manager, and
  a log file (log.c, btid.c).  The driver tm_drive (statedrv.c) takes a transaction through its
  stages: tables in xastates.c say which XA call a branch needs in a stage and which branch status and
  which vote for the next stage follow from the answer.  A background thread (background.c)
  loads the logs of an earlier process, retries unfinished transactions and removes broken logs; a
  timer (tmsrv.c) aborts transactions that took too long.

  The server tmqueue (src/tmqueue) keeps the messages of persistent queues.  In memory (qspace.c, inflight.c, corhandle.c) every
  queue has a red-black tree of the current messages, one of the messages that are for later, a list of the messages in flight, which some thread has
  locked, and per correlator a tree of the current messages with it; a hash finds a message by its identifier.  A message moves between
  these when its time comes, when it is taken, and when its transaction ends.

  Below that are the libraries: CRC-32 of log lines, growing lists, file synchronisation, hash tables, red-black trees, base64, identifiers, and a hash
  table in shared memory for the clients.

  \<^bold>\<open>How the code is modelled.\<close>  A struct is a \<open>record\<close>, a table of structs a list, a C function one
  definition of the same name; long functions are cut into pieces at their comments and labels.
  C \<open>int\<close>, \<open>long\<close> and \<open>short\<close> are \<open>int\<close> where the code only compares and
  prints them, with the conversion written out where a value is narrowed or a sum may leave its type (\<open>to_short\<close>, \<open>to_long\<close>; no value at all
  in \<open>int_add\<close> of \<open>Growlist\<close> and the index checks of \<open>Base64\<close>, where the code's behaviour is undefined), and words where the
  code computes with bits or a difference may wrap (CRC, hash functions, time stamps).  The world outside is a record \<open>tm_env\<close> of functions of the number
  of outside calls so far (\<open>st_tick\<close>), so that every call may succeed or fail at will; the state of the
  process is \<open>tm_st\<close>: disk contents, transaction table, the error variables, and the trace of the
  events outside (XA calls, log writes, synchronisations, removals).  A function returns
  \<open>Ret value state\<close>, or \<open>Exit state\<close> where the code calls exit.  Loops over finite data are
  recursion on it; the driver loop is a \<open>function\<close> with a termination proof, the loop over input lines and the
  polls for a lock run over the finite lists the environment gives.  Loops over pointers are \<open>partial_function\<close>s, for which
  not returning and following a NULL pointer are both \<open>None\<close>, as is abort(); the theorems show that they return.  Red-black trees are modelled
  with their pointers: one function per field of a node, all trees of the server in one memory with the static sentinel they share.  The messages of
  the queues are a heap, the tables of queues, correlators and identifiers are lists with the operations of \<open>Exhash\<close>.

  \<^bold>\<open>The theories, bottom up.\<close>

  \<^item> \<open>Prelude\<close>: result type, generic lemmas, the collections of facts.
  \<^item> \<open>C_Strings\<close>: what is used of printf, sscanf, strtok and atoi, with round trips.
  \<^item> \<open>Exhash\<close>: the hash table macros (src/include/exhash.h) as the operations of a locale; interpreted for
    the transaction table, the branch tables and the file registry.
  \<^item> \<open>Growlist\<close> (src/libnstd/nstdutil.c), with a locale for vectors; \<open>Crc32\<close> (src/libnstd/crc32.c); \<open>Fsync\<close>
    (src/libnstd/sys_fsync.c).
  \<^item> \<open>Exhash_Buckets\<close>: the hash table with the Jenkins hash, buckets and doubling, refining \<open>Exhash\<close>.  \<open>Linear_Hash\<close>
    (src/libnstd/linearhash.c) and \<open>Cltshm\<close> (src/libatmi/cltshm.c): the search with linear probing, and the client table in shared memory.
  \<^item> \<open>Base64\<close> (src/libnstd/exbase64.c); \<open>Xid\<close> (cid.c, xasrvutil.c, xautils.c, qcommon.c): identifiers and their texts.
  \<^item> \<open>Rbtree\<close> (src/libnstd/rbtree.c): the code.  \<open>Rbtree_Rep\<close>: trees of addresses that describe the memory.  \<open>Rbtree_Insert\<close>, \<open>Rbtree_Delete\<close>,
    \<open>Rbtree_Unlink\<close>, \<open>Rbtree_Walk\<close>: the operations, under the locale \<open>rbt_order\<close> (the comparison gives an order of keys) where
    it matters.  \<open>Rbtree_Set\<close>: a tree as the set it holds, and what stays of one tree when another is changed.  \<open>Rbtree_Run\<close>: sequences of operations.
  \<^item> \<open>Tmq_Order\<close> (rbtsupp.c): messages, comparison, three interpretations of \<open>rbt_order\<close>.  \<open>Tmq_Inflight\<close> (inflight.c, corhandle.c) and \<open>Tmq_Qspace\<close>
    (qspace.c): the code of the queues.  \<open>Tmq_Places\<close>, \<open>Tmq_Moves\<close>, \<open>Tmq_Ready\<close>: where each message is, and what every move does to it.  \<open>Tmq_Keep\<close>,
    \<open>Tmq_Deq\<close>, \<open>Tmq_Add\<close>: what requests do.  \<open>Tmq_Properties\<close>: the properties.
  \<^item> \<open>Xa_States\<close> (src/tmsrv/xastates.c): the tables and their lookups.
  \<^item> \<open>Tm_Types\<close>, \<open>Tm_Btid\<close> (btid.c), \<open>Tm_Log\<close> (log.c, writing side), \<open>Tm_Recover\<close> (log.c, reading side).
  \<^item> \<open>Tm_Drive\<close> (statedrv.c, local.c), \<open>Tm_Commit\<close> (invariants of the driver), \<open>Tm_Api\<close> (tmapi.c),
    \<open>Tm_Background\<close> (background.c, the time-out check of tmsrv.c), \<open>Tm_Handlers\<close>, \<open>Tm_Serve\<close> (sequences of requests).
  \<^item> \<open>Tm_Properties\<close>, \<open>Tm_Restart\<close>, \<open>Tm_Records\<close>, \<open>Tm_Crash\<close>, \<open>Tm_Success\<close>, \<open>Tm_Durable\<close>: the properties.

  \<^bold>\<open>What is shown.\<close>

  \<^item> Atomicity.  A commit is sent only after every branch has voted, and after the decision is in
    the log and synchronised (write-ahead); commits and rollbacks are never mixed.  A crash at any event,
    with any remains of the log that include what was synchronised, is followed by a
    restart in the same direction.
  \<^item> Recovery.  Reading the log gives the replay of its records; damaged lines are never taken over,
    undecided transactions are aborted, decided ones keep their decision.
  \<^item> Locks.  Handlers and background leave no lock behind, and an entry is given to one thread at a time.
  \<^item> Progress.  The driver loop ends within a bound; in a working world a commit succeeds.
  \<^item> Tables.  Every answer of a resource manager has a row; the codes reported fit the outcome.
  \<^item> Queues.  The trees, lists and hashes of the queues agree with each other after every sequence of requests of callers that keep
    the rules below, and no such request runs into abort(); a dequeue takes the first ready message in the order of the queue; additions and failed writes leave nothing half done.
  \<^item> Libraries.  The table-driven CRC equals the bit-serial one; growing lists refine list append, below the largest int and unless the allocator fails; hash tables refine
    lists of elements, and the client table refines a map; red-black trees refine sorted lists; base64 stays in its buffers and can be decoded; registering a branch changes
    that branch only; identifiers are
    distinct and their texts can be read back.
  \<^item> Flaws.  The time-out check leaves a lock behind; a log cut off in a time stamp is
    refused at the second load; the disk check ignores the housekeeping mark; a message that is due is not found by its
    correlator; times too far apart are put in the wrong order.

  \<^bold>\<open>Hypotheses.\<close>  The hypotheses on the world are \<open>calm\<close> (files can be opened and read), \<open>disk_ok\<close> (writes succeed, the values fit a
  C long), \<open>healthy\<close> (everything works and resource managers answer with success), \<open>fair\<close> (a lock is
  released by its owner after finitely many polls).  Each property that uses one has an instance in a
  small world.  For the queues: the stamps of messages are pairwise different and, with the times for later, within 2^31 seconds (\<open>new_msg_ok\<close>),
  because the comparison is right only there; identifiers have their full length, thread ids are not zero, only locked messages are unlocked and only
  unlocked ones locked (\<open>req_ok\<close>), because the code aborts otherwise; and for the order of a dequeue
  the clock stands still during the request (\<open>steady\<close>).

  \<^bold>\<open>Not modelled.\<close>  Resource managers and their XA switches, the operating system and the typed
  buffer library enter as parameters.  The listing of transactions and the recovery scan of
  resource managers stream replies over a conversation and are left out, as are thread pools, logging and
  statistics.  Handlers run one after the other: interleavings of threads are seen only
  through the lock of an entry and the polls for it, and the requests to the queues are taken one by one, as if their mutex were held during the
  write to the storage as well.  Of the queue server the files on disk (qdisk_xa.c), the request buffers (tmqapi.c), the forwarding threads
  (forward.c) and the reading of the configuration are left out; a write to the storage is a parameter that succeeds or fails.  The other parts of Enduro/X (UBF, bridge,
  ndrxd, caches, tools) are outside this development.
\<close>

end
